(* ===== verification/Prelude.thy ===== *)
theory Prelude
  imports Main "HOL-Library.Word"
begin

text \<open>
  Shared ground of the development: the fixed-width integers of \<open>cpTypes.h\<close>, raw memory as
  a list of octets with \<open>memcpy\<close> as \<open>patch\<close>, C strings inside raw memory, the conversion
  between \<open>String\<close> characters and octets, and the generic list and word facts the
  components use.
\<close>

unbundle bit_operations_syntax

type_synonym u8 = "8 word"
type_synonym u16 = "16 word"
type_synonym u32 = "32 word"
type_synonym u64 = "64 word"
type_synonym octets = "u8 list"

named_theorems mem_simps "facts on raw memory: patch, cstr and the block sizes"

section \<open>Raw memory\<close>

text \<open>\<open>patch off src dst\<close> is \<open>memcpy(dst + off, src, length src)\<close>.\<close>

definition patch :: "nat \<Rightarrow> 'a list \<Rightarrow> 'a list \<Rightarrow> 'a list" where
  "patch off src dst = take off dst @ src @ drop (off + length src) dst"

lemma length_patch [simp, mem_simps]:
  "off + length src \<le> length dst \<Longrightarrow> length (patch off src dst) = length dst"
  by (simp add: patch_def)

lemma patch_Nil [simp, mem_simps]: "patch off [] dst = dst"
  by (simp add: patch_def)

lemma patch_all [mem_simps]: "length src = length dst \<Longrightarrow> patch 0 src dst = src"
  by (simp add: patch_def)

lemma take_patch_0: "length src \<le> length dst \<Longrightarrow> take (length src) (patch 0 src dst) = src"
  by (simp add: patch_def)

lemma take_patch_before: "n \<le> off \<Longrightarrow> off \<le> length dst \<Longrightarrow> take n (patch off src dst) = take n dst"
  by (simp add: patch_def min_def)

lemma drop_patch_after:
  "off \<le> length dst \<Longrightarrow> off + length src \<le> n \<Longrightarrow> drop n (patch off src dst) = drop n dst"
  by (simp add: patch_def)

lemma patch_patch_adjacent:
  "off + length a \<le> length dst \<Longrightarrow>
   patch (off + length a) b (patch off a dst) = patch off (a @ b) dst"
  by (cases a) (auto simp: patch_def min_def ac_simps)

lemma patch_patch_seq:
  "off \<le> length dst \<Longrightarrow> patch (off + length a) b (patch off a dst) = patch off (a @ b) dst"
  by (simp add: patch_def ac_simps)

lemma patch_end: "patch (length dst) src dst = dst @ src"
  by (simp add: patch_def)

lemma length_patch_le: "off \<le> length dst \<Longrightarrow> off + length src \<le> length (patch off src dst)"
  by (simp add: patch_def)

lemma take_drop_patch: "off \<le> length dst \<Longrightarrow> take (length src) (drop off (patch off src dst)) = src"
  by (simp add: patch_def)

lemma patch_append_right:
  "off + length src \<le> length xs \<Longrightarrow> patch off src (xs @ ys) = patch off src xs @ ys"
  by (simp add: patch_def)

lemma patch_append_left:
  "patch (length xs + off) src (xs @ ys) = xs @ patch off src ys"
  by (simp add: patch_def)

lemma patch_Suc_Cons: "patch (Suc n) src (x # xs) = x # patch n src xs"
  by (simp add: patch_def)

lemma patch_0: "patch 0 src dst = src @ drop (length src) dst"
  by (simp add: patch_def)

lemma nth_patch: "off + length src \<le> length dst \<Longrightarrow> i < length dst \<Longrightarrow>
   patch off src dst ! i = (if off \<le> i \<and> i < off + length src then src ! (i - off) else dst ! i)"
  by (auto simp: patch_def nth_append min_def)

text \<open>A C string: the octets up to the first NUL.\<close>

definition cstr :: "octets \<Rightarrow> octets" where
  "cstr = takeWhile (\<lambda>b. b \<noteq> 0)"

lemma cstr_append_nul [simp, mem_simps]: "0 \<notin> set s \<Longrightarrow> cstr (s @ 0 # r) = s"
  unfolding cstr_def by (induction s) auto

lemma cstr_no_nul: "0 \<notin> set (cstr s)"
  by (induction s) (auto simp: cstr_def)

lemma cstr_id: "0 \<notin> set s \<Longrightarrow> cstr s = s"
  by (induction s) (auto simp: cstr_def)

section \<open>Characters and octets\<close>

text \<open>
  A \<open>String\<close> is a sequence of \<open>char\<close>s; its \<open>c_str()\<close> view is the same octets in memory.
\<close>

definition octet_of_char :: "char \<Rightarrow> u8" where
  "octet_of_char c = of_nat (of_char c)"

definition char_of_octet :: "u8 \<Rightarrow> char" where
  "char_of_octet b = char_of (unat b)"

definition to_octets :: "string \<Rightarrow> octets" where
  "to_octets = map octet_of_char"

definition of_octets :: "octets \<Rightarrow> string" where
  "of_octets = map char_of_octet"

lemma unat_u8_bound [simp]: "unat (b :: u8) < 256"
  using unsigned_less [of b, where 'a = nat] by simp

lemma char_of_octet_of_char [simp]: "char_of_octet (octet_of_char c) = c"
  by (simp add: char_of_octet_def octet_of_char_def unat_of_nat)

lemma octet_of_char_of_octet [simp]: "octet_of_char (char_of_octet b) = b"
  by (simp add: char_of_octet_def octet_of_char_def)

lemma of_octets_to_octets [simp]: "of_octets (to_octets s) = s"
  by (simp add: of_octets_def to_octets_def comp_def)

lemma to_octets_of_octets [simp]: "to_octets (of_octets b) = b"
  by (simp add: of_octets_def to_octets_def comp_def)

lemma length_to_octets [simp]: "length (to_octets s) = length s"
  by (simp add: to_octets_def)

lemma length_of_octets [simp]: "length (of_octets s) = length s"
  by (simp add: of_octets_def)

section \<open>Words\<close>

lemma word_all_u8: "(\<And>n. n < 256 \<Longrightarrow> P (of_nat n :: u8)) \<Longrightarrow> P (b :: u8)"
  by (metis unat_u8_bound of_nat_unat ucast_id)

lemma foldl_append_step: "foldl f s (xs @ [x]) = f (foldl f s xs) x"
  by simp

end
