(* ===== verification/Bits.thy ===== *)
theory Bits
  imports Prelude
begin

text \<open>
  The bit-level part of \<open>cpUtil.cpp\<close>: the reflection table of \<open>cpConstants.cpp\<close> and the
  reflect functions, CRC-16 and CRC-32 with their cascade parameter, the host byte order
  tests and swaps, and the byte-order independent reads and writes of \<open>cpUtil\<close>.
  A pointer parameter that may be NULL is an option; the memory behind it is an octet list.
\<close>

section \<open>Reflection\<close>

definition k_ReflectLut :: "u8 list" where
  "k_ReflectLut = [
    0x00, 0x80, 0x40, 0xc0, 0x20, 0xa0, 0x60, 0xe0, 0x10, 0x90, 0x50, 0xd0,
    0x30, 0xb0, 0x70, 0xf0, 0x08, 0x88, 0x48, 0xc8, 0x28, 0xa8, 0x68, 0xe8,
    0x18, 0x98, 0x58, 0xd8, 0x38, 0xb8, 0x78, 0xf8, 0x04, 0x84, 0x44, 0xc4,
    0x24, 0xa4, 0x64, 0xe4, 0x14, 0x94, 0x54, 0xd4, 0x34, 0xb4, 0x74, 0xf4,
    0x0c, 0x8c, 0x4c, 0xcc, 0x2c, 0xac, 0x6c, 0xec, 0x1c, 0x9c, 0x5c, 0xdc,
    0x3c, 0xbc, 0x7c, 0xfc, 0x02, 0x82, 0x42, 0xc2, 0x22, 0xa2, 0x62, 0xe2,
    0x12, 0x92, 0x52, 0xd2, 0x32, 0xb2, 0x72, 0xf2, 0x0a, 0x8a, 0x4a, 0xca,
    0x2a, 0xaa, 0x6a, 0xea, 0x1a, 0x9a, 0x5a, 0xda, 0x3a, 0xba, 0x7a, 0xfa,
    0x06, 0x86, 0x46, 0xc6, 0x26, 0xa6, 0x66, 0xe6, 0x16, 0x96, 0x56, 0xd6,
    0x36, 0xb6, 0x76, 0xf6, 0x0e, 0x8e, 0x4e, 0xce, 0x2e, 0xae, 0x6e, 0xee,
    0x1e, 0x9e, 0x5e, 0xde, 0x3e, 0xbe, 0x7e, 0xfe, 0x01, 0x81, 0x41, 0xc1,
    0x21, 0xa1, 0x61, 0xe1, 0x11, 0x91, 0x51, 0xd1, 0x31, 0xb1, 0x71, 0xf1,
    0x09, 0x89, 0x49, 0xc9, 0x29, 0xa9, 0x69, 0xe9, 0x19, 0x99, 0x59, 0xd9,
    0x39, 0xb9, 0x79, 0xf9, 0x05, 0x85, 0x45, 0xc5, 0x25, 0xa5, 0x65, 0xe5,
    0x15, 0x95, 0x55, 0xd5, 0x35, 0xb5, 0x75, 0xf5, 0x0d, 0x8d, 0x4d, 0xcd,
    0x2d, 0xad, 0x6d, 0xed, 0x1d, 0x9d, 0x5d, 0xdd, 0x3d, 0xbd, 0x7d, 0xfd,
    0x03, 0x83, 0x43, 0xc3, 0x23, 0xa3, 0x63, 0xe3, 0x13, 0x93, 0x53, 0xd3,
    0x33, 0xb3, 0x73, 0xf3, 0x0b, 0x8b, 0x4b, 0xcb, 0x2b, 0xab, 0x6b, 0xeb,
    0x1b, 0x9b, 0x5b, 0xdb, 0x3b, 0xbb, 0x7b, 0xfb, 0x07, 0x87, 0x47, 0xc7,
    0x27, 0xa7, 0x67, 0xe7, 0x17, 0x97, 0x57, 0xd7, 0x37, 0xb7, 0x77, 0xf7,
    0x0f, 0x8f, 0x4f, 0xcf, 0x2f, 0xaf, 0x6f, 0xef, 0x1f, 0x9f, 0x5f, 0xdf,
    0x3f, 0xbf, 0x7f, 0xff]"

definition Reflect8 :: "u8 \<Rightarrow> u8" where
  "Reflect8 Val = k_ReflectLut ! unat Val"

definition Reflect16 :: "u16 \<Rightarrow> u16" where
  "Reflect16 Val =
     push_bit 8 (ucast (k_ReflectLut ! unat (Val AND 0xff))) OR
     ucast (k_ReflectLut ! unat (drop_bit 8 Val))"

definition Reflect32 :: "u32 \<Rightarrow> u32" where
  "Reflect32 Val =
     push_bit 24 (ucast (k_ReflectLut ! unat (Val AND 0xff))) OR
     push_bit 16 (ucast (k_ReflectLut ! unat (drop_bit 8 Val AND 0xff))) OR
     push_bit 8 (ucast (k_ReflectLut ! unat (drop_bit 16 Val AND 0xff))) OR
     ucast (k_ReflectLut ! unat (drop_bit 24 Val))"

lemma k_ReflectLut_all:
  "\<forall>m \<in> set [0..<256]. \<forall>n \<in> set [0..<8].
     bit (k_ReflectLut ! m) n = bit (of_nat m :: u8) (7 - n)"
  by code_simp

lemma bit_Reflect8: "n < 8 \<Longrightarrow> bit (Reflect8 v) n \<longleftrightarrow> bit v (7 - n)"
  using k_ReflectLut_all unat_u8_bound [of v]
  by (auto simp: Reflect8_def)

text \<open>The table index \<open>Val & 0xff\<close> is the low octet of the value.\<close>

lemma unat_and_255: "unat (v AND 255) = unat (ucast v :: u8)" for v :: "'a::len word"
proof -
  have "(255 :: 'a word) = mask 8" by (simp add: mask_eq_exp_minus_1)
  then have "v AND 255 = take_bit 8 v" by (simp only: take_bit_eq_mask)
  then show ?thesis by (simp add: unsigned_take_bit_eq unsigned_ucast_eq)
qed

lemma unat_low_octet: "unat w < 256 \<Longrightarrow> unat (ucast w :: u8) = unat w" for w :: "'a::len word"
  by (simp add: unsigned_ucast_eq take_bit_nat_eq_self)

lemma unat_drop_bit_u16: "unat (drop_bit 8 (v :: u16)) < 256"
proof -
  have "unat (drop_bit 8 v) = unat v div 2 ^ 8"
    by (simp only: unat_drop_bit_eq) (simp add: drop_bit_eq_div)
  then show ?thesis using unsigned_less [of v, where 'a = nat] by simp
qed

lemma unat_drop_bit_u32: "unat (drop_bit 24 (v :: u32)) < 256"
proof -
  have "unat (drop_bit 24 v) = unat v div 2 ^ 24"
    by (simp only: unat_drop_bit_eq) (simp add: drop_bit_eq_div)
  then show ?thesis using unsigned_less [of v, where 'a = nat] by simp
qed

lemma Reflect16_octets:
  "Reflect16 v = push_bit 8 (ucast (Reflect8 (ucast v))) OR
     ucast (Reflect8 (ucast (drop_bit 8 v)))"
  by (simp add: Reflect16_def Reflect8_def unat_and_255 unat_low_octet [OF unat_drop_bit_u16])

lemma Reflect32_octets:
  "Reflect32 v =
     push_bit 24 (ucast (Reflect8 (ucast v))) OR
     push_bit 16 (ucast (Reflect8 (ucast (drop_bit 8 v)))) OR
     push_bit 8 (ucast (Reflect8 (ucast (drop_bit 16 v)))) OR
     ucast (Reflect8 (ucast (drop_bit 24 v)))"
  by (simp add: Reflect32_def Reflect8_def unat_and_255 unat_low_octet [OF unat_drop_bit_u32])

lemma bit_Reflect16: "n < 16 \<Longrightarrow> bit (Reflect16 v) n \<longleftrightarrow> bit v (15 - n)"
  by (cases "n < 8")
    (auto simp: Reflect16_octets bit_or_iff bit_push_bit_iff bit_ucast_iff bit_drop_bit_eq
      bit_Reflect8 dest: bit_imp_le_length)

lemma bit_Reflect32: "n < 32 \<Longrightarrow> bit (Reflect32 v) n \<longleftrightarrow> bit v (31 - n)"
proof -
  assume n: "n < 32"
  consider "n < 8" | "8 \<le> n \<and> n < 16" | "16 \<le> n \<and> n < 24" | "24 \<le> n \<and> n < 32"
    using n by linarith
  then show ?thesis
    by cases
      (auto simp: Reflect32_octets bit_or_iff bit_push_bit_iff bit_ucast_iff bit_drop_bit_eq
        bit_Reflect8 dest: bit_imp_le_length)
qed

lemma Reflect32_Reflect32 [simp]: "Reflect32 (Reflect32 v) = v"
  by (rule bit_word_eqI) (simp add: bit_Reflect32)

lemma Reflect32_xor: "Reflect32 (a XOR b) = Reflect32 a XOR Reflect32 b"
  by (rule bit_word_eqI) (simp add: bit_Reflect32 bit_xor_iff)

section \<open>CRC-32\<close>

definition crc32_bit :: "u32 \<Rightarrow> u32" where
  "crc32_bit remainder =
     (if remainder AND 0x80000000 \<noteq> 0 then push_bit 1 remainder XOR 0x04c11db7
      else push_bit 1 remainder)"

definition crc32_octet :: "u32 \<Rightarrow> u8 \<Rightarrow> u32" where
  "crc32_octet remainder b =
     (crc32_bit ^^ 8) (remainder XOR push_bit 24 (ucast (Reflect8 b)))"

definition CalcCrc32 :: "octets option \<Rightarrow> nat \<Rightarrow> u32 \<Rightarrow> u32" where
  "CalcCrc32 pBuf Size Cascade =
     (case pBuf of None \<Rightarrow> 0
      | Some buf \<Rightarrow>
          let xorOut = 0xffffffff;
              remainder = (if Cascade \<noteq> xorOut then Reflect32 (Cascade XOR xorOut) else xorOut)
          in Reflect32 (foldl crc32_octet remainder (take Size buf)) XOR xorOut)"

text \<open>The reflected, shift-right CRC-32 of the Ethernet and zip standards.\<close>

definition ref_bit :: "u32 \<Rightarrow> u32" where
  "ref_bit r = (if bit r 0 then drop_bit 1 r XOR 0xedb88320 else drop_bit 1 r)"

definition ref_crc32 :: "octets \<Rightarrow> u32" where
  "ref_crc32 bs =
     foldl (\<lambda>r b. (ref_bit ^^ 8) (r XOR ucast b)) 0xffffffff bs XOR 0xffffffff"

lemma top_bit_u32: "r AND 0x80000000 \<noteq> 0 \<longleftrightarrow> bit (r :: u32) 31"
proof -
  have "(0x80000000 :: u32) = push_bit 31 1" by simp
  then show ?thesis
    by (metis (no_types, lifting) and_exp_eq_0_iff_not_bit push_bit_of_1)
qed

lemma crc32_bit_xor_form:
  "crc32_bit r = push_bit 1 r XOR (if bit r 31 then 0x04c11db7 else 0)"
  by (simp add: crc32_bit_def top_bit_u32)

lemma Reflect32_push_1: "Reflect32 (push_bit 1 r) = drop_bit 1 (Reflect32 r)"
proof (rule bit_word_eqI)
  fix n assume n: "n < LENGTH(32)"
  then have "bit (Reflect32 (push_bit 1 r)) n \<longleftrightarrow> n < 31 \<and> bit r (30 - n)"
    by (auto simp add: bit_Reflect32 bit_push_bit_iff simp del: push_bit_Suc)
  moreover have "bit (drop_bit 1 (Reflect32 r)) n \<longleftrightarrow> n < 31 \<and> bit r (30 - n)"
    using n bit_imp_le_length [of "Reflect32 r" "Suc n"]
    by (cases "n < 31") (auto simp: bit_drop_bit_eq bit_Reflect32)
  ultimately show "bit (Reflect32 (push_bit 1 r)) n \<longleftrightarrow> bit (drop_bit 1 (Reflect32 r)) n"
    by blast
qed

lemma Reflect32_step: "Reflect32 (crc32_bit r) = ref_bit (Reflect32 r)"
proof -
  have "Reflect32 0x04c11db7 = 0xedb88320" and "Reflect32 0 = 0" by code_simp+
  then show ?thesis
    by (simp add: crc32_bit_xor_form ref_bit_def Reflect32_xor Reflect32_push_1 [simplified]
        bit_Reflect32)
qed

lemma Reflect32_steps: "Reflect32 ((crc32_bit ^^ k) r) = (ref_bit ^^ k) (Reflect32 r)"
  by (induction k) (simp_all add: Reflect32_step)

lemma Reflect32_push_24: "Reflect32 (push_bit 24 (ucast (Reflect8 b))) = ucast b"
proof (rule bit_word_eqI)
  fix n assume n: "n < LENGTH(32)"
  show "bit (Reflect32 (push_bit 24 (ucast (Reflect8 b)))) n \<longleftrightarrow> bit (ucast b :: u32) n"
  proof (cases "n < 8")
    case True
    then have "7 - (7 - n) = n" by simp
    with True n show ?thesis
      by (auto simp: bit_Reflect32 bit_push_bit_iff bit_ucast_iff bit_Reflect8)
  next
    case False
    with n show ?thesis
      by (auto simp: bit_Reflect32 bit_push_bit_iff bit_ucast_iff dest: bit_imp_le_length)
  qed
qed

lemma Reflect32_octet:
  "Reflect32 (crc32_octet r b) = (ref_bit ^^ 8) (Reflect32 r XOR ucast b)"
  by (simp only: crc32_octet_def Reflect32_steps Reflect32_xor Reflect32_push_24)

lemma Reflect32_foldl:
  "Reflect32 (foldl crc32_octet r bs) =
   foldl (\<lambda>r b. (ref_bit ^^ 8) (r XOR ucast b)) (Reflect32 r) bs"
  by (induction bs arbitrary: r) (simp_all only: foldl.simps Reflect32_octet)


lemma CalcCrc32_Some:
  "CalcCrc32 (Some buf) n c =
     Reflect32 (foldl crc32_octet
       (if c \<noteq> 0xffffffff then Reflect32 (c XOR 0xffffffff) else 0xffffffff) (take n buf))
     XOR 0xffffffff"
  by (simp add: CalcCrc32_def Let_def)

lemma Reflect32_ones: "Reflect32 0xffffffff = 0xffffffff"
  by code_simp

lemma CalcCrc32_ref_form:
  "CalcCrc32 (Some buf) n c =
     foldl (\<lambda>r b. (ref_bit ^^ 8) (r XOR ucast b))
       (if c \<noteq> 0xffffffff then c XOR 0xffffffff else 0xffffffff) (take n buf)
     XOR 0xffffffff"
  by (simp add: CalcCrc32_Some Reflect32_foldl Reflect32_ones)

text \<open>
  The table-reflected, shift-left CRC-32 of the library is the standard reflected CRC-32
  (polynomial 0xEDB88320, initial value and final xor all ones) of the octets it is given.
\<close>

theorem CalcCrc32_standard: "CalcCrc32 (Some buf) (length buf) 0xffffffff = ref_crc32 buf"
  by (simp add: CalcCrc32_Some Reflect32_foldl ref_crc32_def Reflect32_ones)

lemma funpow_8: "(f ^^ 8) x = f (f (f (f (f (f (f (f x)))))))"
  by (simp add: eval_nat_numeral)

text \<open>
  The cascade parameter continues a checksum: the CRC-32 of a concatenation is the CRC-32
  of the second part started from the CRC-32 of the first, unless that first value is all
  ones, which the code takes for "no cascade".
\<close>

theorem CalcCrc32_cascade:
  assumes "CalcCrc32 (Some a) (length a) c \<noteq> 0xffffffff"
  shows "CalcCrc32 (Some (a @ b)) (length (a @ b)) c =
    CalcCrc32 (Some b) (length b) (CalcCrc32 (Some a) (length a) c)"
  using assms by (simp add: CalcCrc32_Some xor.assoc)



lemma ref_steps_ones:
  "(ref_bit ^^ 8) 0xffffff00 = 0x00ffffff" "(ref_bit ^^ 8) 0x00ffff00 = 0x0000ffff"
  "(ref_bit ^^ 8) 0x0000ff00 = 0x000000ff" "(ref_bit ^^ 8) 0 = 0"
  "(ref_bit ^^ 8) 0x41 = 0x1db7106" "(ref_bit ^^ 8) 0xffffffbe = 0x2c266174"
  by (simp_all add: ref_bit_def funpow_8)

text \<open>
  The all-ones case does go wrong: the CRC-32 of four 0xff octets is all ones, and
  continuing from it restarts the checksum instead of continuing it.
\<close>

theorem CalcCrc32_cascade_restarts:
  "CalcCrc32 (Some [0xff, 0xff, 0xff, 0xff]) 4 0xffffffff = 0xffffffff \<and>
   CalcCrc32 (Some [0xff, 0xff, 0xff, 0xff, 0x41]) 5 0xffffffff \<noteq>
     CalcCrc32 (Some [0x41]) 1 (CalcCrc32 (Some [0xff, 0xff, 0xff, 0xff]) 4 0xffffffff)"
  by (simp add: CalcCrc32_ref_form ref_steps_ones)


subsection \<open>Error detection\<close>

text \<open>
  One step of the division is linear and injective, so the remainder after up to four octets
  is the whole division applied once to the octets packed into the register.
\<close>

lemma crc32_bit_xor: "crc32_bit (a XOR b) = crc32_bit a XOR crc32_bit b"
proof -
  have "push_bit 1 (a XOR b) = push_bit 1 a XOR push_bit 1 b" by (rule push_bit_xor)
  then show ?thesis by (simp add: crc32_bit_xor_form bit_xor_iff ac_simps del: push_bit_Suc)
qed

lemma crc32_bits_xor: "(crc32_bit ^^ k) (a XOR b) = (crc32_bit ^^ k) a XOR (crc32_bit ^^ k) b"
  by (induction k) (simp_all add: crc32_bit_xor)

lemma crc32_bit_eq_0: "crc32_bit r = 0 \<longleftrightarrow> r = 0"
proof
  assume z: "crc32_bit r = 0"
  have "bit (crc32_bit r) 0 \<longleftrightarrow> bit r 31"
    by (simp add: crc32_bit_xor_form bit_xor_iff bit_push_bit_iff del: push_bit_Suc)
  with z have b: "\<not> bit r 31" by simp
  with z have p: "push_bit 1 r = 0" by (simp add: crc32_bit_xor_form)
  show "r = 0"
  proof (rule bit_word_eqI)
    fix n assume n: "n < LENGTH(32)"
    show "bit r n \<longleftrightarrow> bit (0 :: u32) n"
    proof (cases "n = 31")
      case True with b show ?thesis by simp
    next
      case False
      with n have "bit (push_bit 1 r) (Suc n) \<longleftrightarrow> bit r n"
        by (simp add: bit_push_bit_iff del: push_bit_Suc)
      with p show ?thesis by simp
    qed
  qed
qed (simp add: crc32_bit_def)

lemma crc32_bits_eq_0: "(crc32_bit ^^ k) r = 0 \<longleftrightarrow> r = 0"
  by (induction k) (simp_all add: crc32_bit_eq_0)

lemma word_xor_eq_0: "a XOR b = 0 \<longleftrightarrow> a = b" for a b :: "'a::len word"
  by (auto simp: bit_eq_iff bit_xor_iff)

lemma word_xor_cancel [simp]:
  "a XOR b = a XOR c \<longleftrightarrow> b = c" "b XOR a = c XOR a \<longleftrightarrow> b = c" for a b c :: "'a::len word"
  by (auto simp: bit_eq_iff bit_xor_iff)

lemma crc32_bits_inj: "(crc32_bit ^^ k) a = (crc32_bit ^^ k) b \<longleftrightarrow> a = b"
  using crc32_bits_eq_0 [of k "a XOR b"] by (simp only: crc32_bits_xor word_xor_eq_0)

text \<open>\<open>crc_window xs\<close> packs up to four octets, first octet in the top lane.\<close>

fun crc_window :: "nat \<Rightarrow> octets \<Rightarrow> u32" where
  "crc_window k [] = 0"
| "crc_window k (x # xs) = push_bit (24 - 8 * k) (ucast (Reflect8 x)) XOR crc_window (Suc k) xs"

lemma crc32_bit_shift:
  "n + 8 \<le> 31 \<Longrightarrow> crc32_bit (push_bit n (ucast (z :: u8))) = push_bit (Suc n) (ucast z)"
proof -
  assume n: "n + 8 \<le> 31"
  then have "\<not> bit (push_bit n (ucast z) :: u32) 31"
    by (auto simp: bit_push_bit_iff bit_ucast_iff dest: bit_imp_le_length)
  then show ?thesis by (simp add: crc32_bit_xor_form push_bit_push_bit del: push_bit_Suc)
qed

lemma crc32_bits_shift:
  "n + 8 * k \<le> 24 \<Longrightarrow>
   (crc32_bit ^^ (8 * k)) (push_bit n (ucast (z :: u8))) = push_bit (n + 8 * k) (ucast z)"
proof -
  have "n + j \<le> 24 \<Longrightarrow> (crc32_bit ^^ j) (push_bit n (ucast z)) = push_bit (n + j) (ucast z)" for j
    by (induction j) (simp_all add: crc32_bit_shift del: push_bit_Suc)
  then show "n + 8 * k \<le> 24 \<Longrightarrow> ?thesis" by blast
qed

lemma crc32_window:
  "k + length xs \<le> 4 \<Longrightarrow>
   foldl crc32_octet ((crc32_bit ^^ (8 * k)) s) xs =
   (crc32_bit ^^ (8 * (k + length xs))) (s XOR crc_window k xs)"
proof (induction xs arbitrary: k s)
  case Nil
  then show ?case by simp
next
  case (Cons x xs)
  let ?z = "push_bit (24 - 8 * k) (ucast (Reflect8 x)) :: u32"
  have "push_bit 24 (ucast (Reflect8 x)) = (crc32_bit ^^ (8 * k)) ?z"
    using Cons.prems crc32_bits_shift [of "24 - 8 * k" k "Reflect8 x"] by simp
  then have "crc32_octet ((crc32_bit ^^ (8 * k)) s) x =
      (crc32_bit ^^ 8) ((crc32_bit ^^ (8 * k)) (s XOR ?z))"
    by (simp only: crc32_octet_def crc32_bits_xor)
  also have "\<dots> = (crc32_bit ^^ (8 * Suc k)) (s XOR ?z)"
    by (simp only: mult_Suc_right funpow_add o_apply)
  finally show ?case
    using Cons.IH [of "Suc k" "s XOR ?z"] Cons.prems by (simp add: xor.assoc)
qed


lemma Reflect8_inj: "Reflect8 x = Reflect8 y \<longleftrightarrow> x = y"
proof
  assume e: "Reflect8 x = Reflect8 y"
  show "x = y"
  proof (rule bit_word_eqI)
    fix n assume "n < LENGTH(8)"
    then have "7 - (7 - n) = n" and "7 - n < 8" by simp_all
    then show "bit x n \<longleftrightarrow> bit y n" using bit_Reflect8 [of "7 - n"] e by metis
  qed
qed simp

lemma bit_crc_window_high:
  "k + length xs \<le> 4 \<Longrightarrow> 32 - 8 * k \<le> n \<Longrightarrow> \<not> bit (crc_window k xs) n"
  by (induction xs arbitrary: k)
    (auto simp: bit_xor_iff bit_push_bit_iff bit_ucast_iff dest!: bit_imp_le_length)

lemma crc_window_inj:
  "length xs = length ys \<Longrightarrow> k + length xs \<le> 4 \<Longrightarrow> crc_window k xs = crc_window k ys \<Longrightarrow> xs = ys"
proof (induction xs ys arbitrary: k rule: list_induct2)
  case Nil
  then show ?case by simp
next
  case (Cons x xs y ys)
  have k: "k < 4" using Cons.prems by simp
  have lane: "bit (push_bit (24 - 8 * k) (ucast v) XOR crc_window (Suc k) zs) (24 - 8 * k + n) \<longleftrightarrow> bit v n"
    if "n < 8" "Suc k + length zs \<le> 4" for n and v :: u8 and zs
    using that k bit_crc_window_high [of "Suc k" zs "24 - 8 * k + n"]
    by (auto simp: bit_xor_iff bit_push_bit_iff bit_ucast_iff)
  have "Reflect8 x = Reflect8 y"
  proof (rule bit_word_eqI)
    fix n assume "n < LENGTH(8)"
    then show "bit (Reflect8 x) n \<longleftrightarrow> bit (Reflect8 y) n"
      using lane [of n xs "Reflect8 x"] lane [of n ys "Reflect8 y"] Cons.prems Cons.hyps by simp
  qed
  then have "x = y" by (simp only: Reflect8_inj)
  have "crc_window (Suc k) xs = crc_window (Suc k) ys"
    using Cons.prems(2) \<open>x = y\<close> by simp
  moreover have "Suc k + length xs \<le> 4" using Cons.prems(1) by simp
  ultimately have "xs = ys" by (intro Cons.IH)
  with \<open>x = y\<close> show ?case by (rule arg_cong2)
qed

lemma crc32_octet_inj: "crc32_octet r x = crc32_octet s x \<longleftrightarrow> r = s"
  by (simp add: crc32_octet_def crc32_bits_inj)

lemma foldl_crc32_inj: "foldl crc32_octet r xs = foldl crc32_octet s xs \<longleftrightarrow> r = s"
  by (induction xs arbitrary: r s) (simp_all add: crc32_octet_inj)

lemma foldl_crc32_burst:
  assumes "length xs = length ys" "length xs \<le> 4"
    and "foldl crc32_octet r xs = foldl crc32_octet r ys"
  shows "xs = ys"
proof -
  have "r XOR crc_window 0 xs = r XOR crc_window 0 ys"
    using assms crc32_window [of 0 xs r] crc32_window [of 0 ys r] by (simp add: crc32_bits_inj)
  then have "crc_window 0 xs = crc_window 0 ys" by simp
  then show ?thesis using assms(1,2) crc_window_inj [of xs ys 0] by simp
qed


text \<open>
  C36. Any corruption confined to four consecutive octets (32 bits) of a block changes its
  CRC-32, whatever surrounds it and whatever cascade value it started from.
\<close>

theorem CalcCrc32_detects_burst:
  assumes "length xs = length ys" and "length xs \<le> 4" and "xs \<noteq> ys"
  shows "CalcCrc32 (Some (a @ xs @ b)) (length (a @ xs @ b)) c \<noteq>
    CalcCrc32 (Some (a @ ys @ b)) (length (a @ ys @ b)) c"
proof
  assume "CalcCrc32 (Some (a @ xs @ b)) (length (a @ xs @ b)) c =
    CalcCrc32 (Some (a @ ys @ b)) (length (a @ ys @ b)) c"
  then have "Reflect32 (Reflect32 (foldl crc32_octet (foldl crc32_octet (foldl crc32_octet
        (if c \<noteq> 0xffffffff then Reflect32 (c XOR 0xffffffff) else 0xffffffff) a) xs) b)) =
      Reflect32 (Reflect32 (foldl crc32_octet (foldl crc32_octet (foldl crc32_octet
        (if c \<noteq> 0xffffffff then Reflect32 (c XOR 0xffffffff) else 0xffffffff) a) ys) b))"
    by (simp only: CalcCrc32_Some take_all order_refl foldl_append word_xor_cancel)
  then show False
    using foldl_crc32_burst assms by (simp add: foldl_crc32_inj)
qed

theorem CalcCrc32_detects_burst_witness:
  "CalcCrc32 (Some ([1] @ [2, 3] @ [4])) (length ([1 :: u8] @ [2, 3] @ [4])) 0 \<noteq>
   CalcCrc32 (Some ([1] @ [2, 7] @ [4])) (length ([1 :: u8] @ [2, 7] @ [4])) 0"
  by (rule CalcCrc32_detects_burst) simp_all

theorem CalcCrc32_cascade_witness:
  "CalcCrc32 (Some ([] @ [65])) (length ([] @ [65 :: u8])) 0xffffffff =
   CalcCrc32 (Some [65]) (length [65 :: u8]) (CalcCrc32 (Some []) (length ([] :: octets)) 0xffffffff)"
  by (rule CalcCrc32_cascade) (simp add: CalcCrc32_ref_form)

section \<open>CRC-16\<close>

definition crc16_bit :: "u16 \<Rightarrow> u16" where
  "crc16_bit remainder =
     (if remainder AND 0x8000 \<noteq> 0 then push_bit 1 remainder XOR 0x1021
      else push_bit 1 remainder)"

definition crc16_octet :: "u16 \<Rightarrow> u8 \<Rightarrow> u16" where
  "crc16_octet remainder b = (crc16_bit ^^ 8) (remainder XOR push_bit 8 (ucast b))"

definition CalcCrc16 :: "octets option \<Rightarrow> nat \<Rightarrow> u16 \<Rightarrow> u16" where
  "CalcCrc16 pBuf Size Cascade =
     (case pBuf of None \<Rightarrow> 0
      | Some buf \<Rightarrow> foldl crc16_octet Cascade (take Size buf) XOR 0)"

text \<open>
  CRC-16 cascades without exception: the checksum of a concatenation is that of the second
  part started from that of the first.
\<close>

theorem CalcCrc16_cascade:
  "CalcCrc16 (Some (a @ b)) (length (a @ b)) c =
   CalcCrc16 (Some b) (length b) (CalcCrc16 (Some a) (length a) c)"
  by (simp add: CalcCrc16_def)

end
