(* ===== verification/ByteOrder.thy ===== *)
theory ByteOrder
  imports Prelude
begin

text \<open>
  Byte order: the host order tests, the 16 and 32 bit swaps and the host/network conversions
  of \<open>cpUtil.cpp\<close>, and its order-independent readers and writers. The host is a parameter:
  \<open>host_mem h v\<close> is the memory image of a word on that host.
\<close>

section \<open>Memory images\<close>

datatype host = HostLE | HostBE

definition be_octets :: "'a::len word \<Rightarrow> octets" where
  "be_octets v = map (\<lambda>i. ucast (drop_bit (8 * i) v)) (rev [0..<LENGTH('a) div 8])"

definition host_mem :: "host \<Rightarrow> 'a::len word \<Rightarrow> octets" where
  "host_mem h v = (case h of HostBE \<Rightarrow> be_octets v | HostLE \<Rightarrow> rev (be_octets v))"

definition be_word :: "octets \<Rightarrow> 'a::len word" where
  "be_word bs = foldl (\<lambda>acc b. push_bit 8 acc OR ucast b) 0 bs"

definition host_word :: "host \<Rightarrow> octets \<Rightarrow> 'a::len word" where
  "host_word h bs = (case h of HostBE \<Rightarrow> be_word bs | HostLE \<Rightarrow> be_word (rev bs))"

lemma length_be_octets [simp]: "length (be_octets (v :: 'a::len word)) = LENGTH('a) div 8"
  by (simp add: be_octets_def)

lemma length_host_mem [simp]: "length (host_mem h (v :: 'a::len word)) = LENGTH('a) div 8"
  by (simp add: host_mem_def split: host.splits)

lemma be_octets_16: "be_octets (v :: u16) = [ucast (drop_bit 8 v), ucast v]"
  by (simp add: be_octets_def upt_rec)

lemma be_octets_32: "be_octets (v :: u32) =
    [ucast (drop_bit 24 v), ucast (drop_bit 16 v), ucast (drop_bit 8 v), ucast v]"
  by (simp add: be_octets_def upt_rec)

lemma be_octets_64: "be_octets (v :: u64) =
    [ucast (drop_bit 56 v), ucast (drop_bit 48 v), ucast (drop_bit 40 v), ucast (drop_bit 32 v),
     ucast (drop_bit 24 v), ucast (drop_bit 16 v), ucast (drop_bit 8 v), ucast v]"
  by (simp add: be_octets_def upt_rec)

text \<open>The low octet of a word and the rest of it rebuild the word.\<close>

lemma push_low_octet:
  "push_bit 8 (drop_bit (8 + n) v) OR ucast (ucast (drop_bit n v) :: u8) = drop_bit n (v :: 'a::len word)"
  by (rule bit_word_eqI)
    (auto simp: bit_or_iff bit_push_bit_iff bit_drop_bit_eq bit_ucast_iff not_less
      dest: bit_imp_le_length)

lemma push_low_octet_0:
  "push_bit 8 (drop_bit 8 v) OR ucast (ucast v :: u8) = (v :: 'a::len word)"
  using push_low_octet [of 0 v] by simp

lemma top_octet:
  "LENGTH('a) = 8 + n \<Longrightarrow> ucast (ucast (drop_bit n v) :: u8) = drop_bit n (v :: 'a::len word)"
  by (rule bit_word_eqI) (auto simp: bit_drop_bit_eq bit_ucast_iff dest: bit_imp_le_length)

lemma be_word_be_octets_16 [simp]: "be_word (be_octets (v :: u16)) = v"
  using push_low_octet_0 [of v] top_octet [of 8 v]
  by (simp add: be_word_def be_octets_16)

lemma be_word_be_octets_32 [simp]: "be_word (be_octets (v :: u32)) = v"
  using push_low_octet_0 [of v] push_low_octet [of 8 v] push_low_octet [of 16 v] top_octet [of 24 v]
  by (simp add: be_word_def be_octets_32)

lemma be_word_be_octets_64 [simp]: "be_word (be_octets (v :: u64)) = v"
  using push_low_octet_0 [of v] push_low_octet [of 8 v] push_low_octet [of 16 v]
    push_low_octet [of 24 v] push_low_octet [of 32 v] push_low_octet [of 40 v]
    push_low_octet [of 48 v] top_octet [of 56 v]
  by (simp add: be_word_def be_octets_64)

lemma host_word_host_mem [simp]:
  "host_word h (host_mem h (v16 :: u16)) = v16" "host_word h (host_mem h (v32 :: u32)) = v32"
  "host_word h (host_mem h (v64 :: u64)) = v64"
  by (simp_all add: host_word_def host_mem_def split: host.splits)

section \<open>Host order and swaps\<close>

definition HostBigEndian :: "host \<Rightarrow> bool" where
  "HostBigEndian h = (let word = 1 :: u16 in ucast (host_mem h word ! 0) \<noteq> word)"

definition HostLittleEndian :: "host \<Rightarrow> bool" where
  "HostLittleEndian h = (let word = 1 :: u16 in ucast (host_mem h word ! 0) = word)"

definition SwapBytes16 :: "u16 \<Rightarrow> u16" where
  "SwapBytes16 Arg = push_bit 8 Arg OR drop_bit 8 Arg"

definition SwapBytes32 :: "u32 \<Rightarrow> u32" where
  "SwapBytes32 Arg =
     drop_bit 24 Arg OR push_bit 24 Arg OR
     (drop_bit 8 Arg AND 0x0000ff00) OR (push_bit 8 Arg AND 0x00ff0000)"

definition HtoNs :: "host \<Rightarrow> u16 \<Rightarrow> u16" where
  "HtoNs h Val = (if HostLittleEndian h then SwapBytes16 Val else Val)"

definition HtoNl :: "host \<Rightarrow> u32 \<Rightarrow> u32" where
  "HtoNl h Val = (if HostLittleEndian h then SwapBytes32 Val else Val)"

definition NtoHs :: "host \<Rightarrow> u16 \<Rightarrow> u16" where
  "NtoHs h Val = (if HostLittleEndian h then SwapBytes16 Val else Val)"

definition NtoHl :: "host \<Rightarrow> u32 \<Rightarrow> u32" where
  "NtoHl h Val = (if HostLittleEndian h then SwapBytes32 Val else Val)"

lemma HostBigEndian_iff [simp]: "HostBigEndian h \<longleftrightarrow> h = HostBE"
  by (cases h) (simp_all add: HostBigEndian_def host_mem_def be_octets_16)

lemma HostLittleEndian_iff [simp]: "HostLittleEndian h \<longleftrightarrow> h = HostLE"
  by (cases h) (simp_all add: HostLittleEndian_def host_mem_def be_octets_16)


lemma bit_SwapBytes16:
  "n < 16 \<Longrightarrow> bit (SwapBytes16 v) n \<longleftrightarrow> (if n < 8 then bit v (n + 8) else bit v (n - 8))"
  by (auto simp: SwapBytes16_def bit_or_iff bit_push_bit_iff bit_drop_bit_eq ac_simps
      dest: bit_imp_le_length)

lemma SwapBytes32_or_form:
  "SwapBytes32 v = push_bit 24 (ucast (ucast v :: u8)) OR push_bit 16 (ucast (ucast (drop_bit 8 v) :: u8)) OR
     push_bit 8 (ucast (ucast (drop_bit 16 v) :: u8)) OR ucast (ucast (drop_bit 24 v) :: u8)"
proof -
  have m1: "(0x0000ff00 :: u32) = push_bit 8 (mask 8)" and m2: "(0x00ff0000 :: u32) = push_bit 16 (mask 8)"
    by (simp_all add: mask_eq_exp_minus_1 push_bit_eq_mult)
  show ?thesis
    unfolding SwapBytes32_def m1 m2
    by (rule bit_word_eqI)
      (auto simp: bit_or_iff bit_and_iff bit_push_bit_iff bit_drop_bit_eq bit_mask_iff bit_ucast_iff
        not_less dest: bit_imp_le_length)
qed


lemma octets_of_or_lanes_32:
  "be_octets (push_bit 24 (ucast a) OR push_bit 16 (ucast b) OR push_bit 8 (ucast c) OR ucast d :: u32)
   = [a, b, c, d]" for a b c d :: u8
  unfolding be_octets_32
  by (simp, intro conjI; rule bit_word_eqI)
    (auto simp: bit_or_iff bit_push_bit_iff bit_drop_bit_eq bit_ucast_iff dest: bit_imp_le_length)

lemma octets_of_or_lanes_16:
  "be_octets (push_bit 8 (ucast a) OR ucast b :: u16) = [a, b]" for a b :: u8
  unfolding be_octets_16
  by (simp, intro conjI; rule bit_word_eqI)
    (auto simp: bit_or_iff bit_push_bit_iff bit_drop_bit_eq bit_ucast_iff dest: bit_imp_le_length)

lemma be_octets_SwapBytes32: "be_octets (SwapBytes32 v) = rev (be_octets v)"
  by (simp only: SwapBytes32_or_form octets_of_or_lanes_32) (simp add: be_octets_32)

lemma be_octets_SwapBytes16: "be_octets (SwapBytes16 v) = rev (be_octets v)"
proof -
  have "SwapBytes16 v = push_bit 8 (ucast (ucast v :: u8)) OR ucast (ucast (drop_bit 8 v) :: u8)"
    by (rule bit_word_eqI)
      (auto simp: SwapBytes16_def bit_or_iff bit_push_bit_iff bit_drop_bit_eq bit_ucast_iff
        dest: bit_imp_le_length)
  then show ?thesis by (simp only: octets_of_or_lanes_16) (simp add: be_octets_16)
qed

lemma be_octets_inj_16: "be_octets (a :: u16) = be_octets b \<Longrightarrow> a = b"
  by (metis be_word_be_octets_16)

lemma be_octets_inj_32: "be_octets (a :: u32) = be_octets b \<Longrightarrow> a = b"
  by (metis be_word_be_octets_32)

text \<open>
  On either host the host-to-network conversions leave the big-endian octets in memory,
  and the network-to-host conversions undo them.
\<close>

theorem network_order:
  "host_mem h (HtoNs h s) = be_octets s \<and> host_mem h (HtoNl h l) = be_octets l \<and>
   NtoHs h (HtoNs h s) = s \<and> NtoHl h (HtoNl h l) = l"
proof -
  have "SwapBytes16 (SwapBytes16 s) = s" and "SwapBytes32 (SwapBytes32 l) = l"
    by (rule be_octets_inj_16, simp add: be_octets_SwapBytes16)
      (rule be_octets_inj_32, simp add: be_octets_SwapBytes32)
  then show ?thesis
    by (cases h) (simp_all add: HtoNs_def HtoNl_def NtoHs_def NtoHl_def host_mem_def
        be_octets_SwapBytes16 be_octets_SwapBytes32)
qed

section \<open>Order-independent reads and writes\<close>

text \<open>The pointer \<open>pBuf\<close> is an offset into an octet list; the list must hold the field.\<close>

definition ReadUint16B :: "octets \<Rightarrow> nat \<Rightarrow> u16" where
  "ReadUint16B m p = push_bit 8 (ucast (m ! (p + 0))) OR ucast (m ! (p + 1))"

definition ReadUint32B :: "octets \<Rightarrow> nat \<Rightarrow> u32" where
  "ReadUint32B m p =
     push_bit 24 (ucast (m ! (p + 0))) OR push_bit 16 (ucast (m ! (p + 1))) OR
     push_bit 8 (ucast (m ! (p + 2))) OR ucast (m ! (p + 3))"

definition ReadInt16B :: "octets \<Rightarrow> nat \<Rightarrow> int" where
  "ReadInt16B m p = sint (ReadUint16B m p)"

definition ReadInt32B :: "octets \<Rightarrow> nat \<Rightarrow> int" where
  "ReadInt32B m p = sint (ReadUint32B m p)"

definition WriteUint16B :: "u16 \<Rightarrow> octets \<Rightarrow> nat \<Rightarrow> octets" where
  "WriteUint16B Val m p = m[p + 0 := ucast (drop_bit 8 Val), p + 1 := ucast Val]"

definition WriteUint32B :: "u32 \<Rightarrow> octets \<Rightarrow> nat \<Rightarrow> octets" where
  "WriteUint32B Val m p =
     m[p + 0 := ucast (drop_bit 24 Val), p + 1 := ucast (drop_bit 16 Val),
       p + 2 := ucast (drop_bit 8 Val), p + 3 := ucast Val]"

definition WriteInt16B :: "int \<Rightarrow> octets \<Rightarrow> nat \<Rightarrow> octets" where
  "WriteInt16B Val m p = WriteUint16B (word_of_int Val) m p"

definition WriteInt32B :: "int \<Rightarrow> octets \<Rightarrow> nat \<Rightarrow> octets" where
  "WriteInt32B Val m p = WriteUint32B (word_of_int Val) m p"

definition ReadUint16L :: "octets \<Rightarrow> nat \<Rightarrow> u16" where
  "ReadUint16L m p = push_bit 8 (ucast (m ! (p + 1))) OR ucast (m ! (p + 0))"

definition ReadUint32L :: "octets \<Rightarrow> nat \<Rightarrow> u32" where
  "ReadUint32L m p =
     push_bit 24 (ucast (m ! (p + 3))) OR push_bit 16 (ucast (m ! (p + 2))) OR
     push_bit 8 (ucast (m ! (p + 1))) OR ucast (m ! (p + 0))"

definition ReadInt16L :: "octets \<Rightarrow> nat \<Rightarrow> int" where
  "ReadInt16L m p = sint (ReadUint16L m p)"

definition ReadInt32L :: "octets \<Rightarrow> nat \<Rightarrow> int" where
  "ReadInt32L m p = sint (ReadUint32L m p)"

definition WriteUint16L :: "u16 \<Rightarrow> octets \<Rightarrow> nat \<Rightarrow> octets" where
  "WriteUint16L Val m p = m[p + 1 := ucast (drop_bit 8 Val), p + 0 := ucast Val]"

definition WriteUint32L :: "u32 \<Rightarrow> octets \<Rightarrow> nat \<Rightarrow> octets" where
  "WriteUint32L Val m p =
     m[p + 3 := ucast (drop_bit 24 Val), p + 2 := ucast (drop_bit 16 Val),
       p + 1 := ucast (drop_bit 8 Val), p + 0 := ucast Val]"

definition WriteInt16L :: "int \<Rightarrow> octets \<Rightarrow> nat \<Rightarrow> octets" where
  "WriteInt16L Val m p = WriteUint16L (word_of_int Val) m p"

definition WriteInt32L :: "int \<Rightarrow> octets \<Rightarrow> nat \<Rightarrow> octets" where
  "WriteInt32L Val m p = WriteUint32L (word_of_int Val) m p"

text \<open>Reads see the octets at the offset; writes patch them in.\<close>

lemma list_updates_patch2: "p + 2 \<le> length m \<Longrightarrow> m[p := a, Suc p := b] = patch p [a, b] m"
proof (induction p arbitrary: m)
  case 0
  then show ?case by (cases m; cases "tl m") (auto simp: patch_0)
next
  case (Suc p)
  then show ?case by (cases m) (auto simp: patch_Suc_Cons)
qed

lemma list_updates_patch4:
  "p + 4 \<le> length m \<Longrightarrow>
   m[p := a, Suc p := b, Suc (Suc p) := c, Suc (Suc (Suc p)) := d] = patch p [a, b, c, d] m"
proof (induction p arbitrary: m)
  case 0
  then obtain w x y z r where "m = w # x # y # z # r"
    by (auto simp: numeral_eq_Suc Suc_le_length_iff)
  then show ?case by (simp add: patch_0)
next
  case (Suc p)
  then show ?case by (cases m) (auto simp: patch_Suc_Cons)
qed

lemma WriteUint16B_patch:
  "p + 2 \<le> length m \<Longrightarrow> WriteUint16B v m p = patch p (be_octets v) m"
  by (simp add: WriteUint16B_def be_octets_16 list_updates_patch2)

lemma WriteUint32B_patch:
  "p + 4 \<le> length m \<Longrightarrow> WriteUint32B v m p = patch p (be_octets v) m"
  by (simp add: WriteUint32B_def be_octets_32 numeral_3_eq_3 flip: list_updates_patch4)

lemma WriteUint16L_patch:
  "p + 2 \<le> length m \<Longrightarrow> WriteUint16L v m p = patch p (rev (be_octets v)) m"
  by (simp add: WriteUint16L_def be_octets_16 list_updates_patch2 list_update_swap)


lemma WriteUint32L_patch:
  "p + 4 \<le> length m \<Longrightarrow> WriteUint32L v m p = patch p (rev (be_octets v)) m"
proof -
  assume "p + 4 \<le> length m"
  moreover have "WriteUint32L v m p =
      m[p := ucast v, Suc p := ucast (drop_bit 8 v), Suc (Suc p) := ucast (drop_bit 16 v),
        Suc (Suc (Suc p)) := ucast (drop_bit 24 v)]"
    by (simp add: WriteUint32L_def list_update_swap numeral_3_eq_3)
  ultimately show ?thesis by (simp add: be_octets_32 list_updates_patch4)
qed

lemma ReadUint16B_patch: "p + 2 \<le> length m \<Longrightarrow> ReadUint16B (patch p (be_octets v) m) p = v"
  using push_low_octet_0 [of v] top_octet [of 8 v]
  by (simp add: ReadUint16B_def nth_patch be_octets_16)

lemma ReadUint16L_patch: "p + 2 \<le> length m \<Longrightarrow> ReadUint16L (patch p (rev (be_octets v)) m) p = v"
  using push_low_octet_0 [of v] top_octet [of 8 v]
  by (simp add: ReadUint16L_def nth_patch be_octets_16)

lemma word32_of_octets:
  "push_bit 24 (ucast (ucast (drop_bit 24 v) :: u8)) OR push_bit 16 (ucast (ucast (drop_bit 16 v) :: u8)) OR
   push_bit 8 (ucast (ucast (drop_bit 8 v) :: u8)) OR ucast (ucast v :: u8) = (v :: u32)"
  by (rule be_octets_inj_32) (simp only: octets_of_or_lanes_32, simp add: be_octets_32)

lemma ReadUint32B_patch: "p + 4 \<le> length m \<Longrightarrow> ReadUint32B (patch p (be_octets v) m) p = v"
  using word32_of_octets [of v] by (simp add: ReadUint32B_def nth_patch be_octets_32)

lemma ReadUint32L_patch: "p + 4 \<le> length m \<Longrightarrow> ReadUint32L (patch p (rev (be_octets v)) m) p = v"
  using word32_of_octets [of v] by (simp add: ReadUint32L_def nth_patch be_octets_32)

lemma sint_of_int_16: "-(2 ^ 15) \<le> i \<Longrightarrow> i < 2 ^ 15 \<Longrightarrow> sint (word_of_int i :: u16) = i"
  using signed_take_bit_int_eq_self [of 15 i] by (simp add: signed_of_int)

lemma sint_of_int_32: "-(2 ^ 31) \<le> i \<Longrightarrow> i < 2 ^ 31 \<Longrightarrow> sint (word_of_int i :: u32) = i"
  using signed_take_bit_int_eq_self [of 31 i] by (simp add: signed_of_int)

text \<open>
  Every 16 and 32 bit writer is undone by the reader of its order and sign, and a field
  written big-endian and read little-endian comes out with its octets swapped.
\<close>

theorem read_write_fields:
  assumes "p + 4 \<le> length m" and "-(2 ^ 15) \<le> i" and "i < 2 ^ 15"
    and "-(2 ^ 31) \<le> j" and "j < 2 ^ 31"
  shows "ReadUint16B (WriteUint16B s m p) p = s \<and> ReadUint16L (WriteUint16L s m p) p = s \<and>
    ReadUint32B (WriteUint32B w m p) p = w \<and> ReadUint32L (WriteUint32L w m p) p = w \<and>
    ReadUint32L (WriteUint32B w m p) p = SwapBytes32 w \<and>
    ReadInt16B (WriteInt16B i m p) p = i \<and> ReadInt16L (WriteInt16L i m p) p = i \<and>
    ReadInt32B (WriteInt32B j m p) p = j \<and> ReadInt32L (WriteInt32L j m p) p = j"
proof -
  have "be_octets w = rev (be_octets (SwapBytes32 w))" by (simp add: be_octets_SwapBytes32)
  then have "ReadUint32L (WriteUint32B w m p) p = SwapBytes32 w"
    using assms by (simp only: WriteUint32B_patch ReadUint32L_patch)
  then show ?thesis
    using assms by (simp add: WriteUint16B_patch WriteUint16L_patch WriteUint32B_patch
      WriteUint32L_patch ReadUint16B_patch ReadUint16L_patch ReadUint32B_patch ReadUint32L_patch
      ReadInt16B_def ReadInt16L_def ReadInt32B_def ReadInt32L_def WriteInt16B_def WriteInt16L_def
      WriteInt32B_def WriteInt32L_def sint_of_int_16 sint_of_int_32)
qed

theorem read_write_fields_witness:
  "ReadUint32B (WriteUint32B 0x01020304 [0, 0, 0, 0, 9] 0) 0 = 0x01020304 \<and>
   ReadInt16L (WriteInt16L (- 2) [0, 0, 0, 0, 9] 0) 0 = - 2"
  using read_write_fields [of 0 "[0, 0, 0, 0, 9]" "- 2" 0 0 "0x01020304"] by simp

end
