(* ===== verification/MemMgr.thy ===== *)
theory MemMgr
  imports Prelude "HOL-Library.Monad_Syntax"
begin

text \<open>
  \<open>cpMemMgr\<close>: memory blocks with a guard sentinel, pools that keep their free blocks on a
  linked list embedded in the blocks, and the manager that directs a request to the smallest
  sufficient pool or to the system heap. Addresses are numbers, NULL is \<open>None\<close>; the heap
  maps the address of a block header to its header fields and to the link that the embedded
  list keeps in the first octets of the data buffer. A \<open>None\<close> result of an operation is an
  access through NULL or through freed memory. \<open>h_grant k\<close> says whether the k-th call of
  \<open>new (std::nothrow)\<close> is granted, so every behaviour of the system heap is covered.
  Each operation runs under the manager's mutex and is modelled as one step.
\<close>

section \<open>State\<close>

type_synonym addr = nat

definition k_MemSentinel :: u16 where "k_MemSentinel = 0x1a19"
definition k_MinMemBlockSize :: nat where "k_MinMemBlockSize = 16"
definition sizeof_MemBlock :: nat where "sizeof_MemBlock = 16"
definition sizeof_MemSegment :: nat where "sizeof_MemSegment = 8"
definition sizeof_MemPool :: nat where "sizeof_MemPool = 64"

record memblock =
  m_Guard :: u16
  m_UseCount :: u16
  m_BlockSize :: nat
  m_Link :: "addr option"

record heap =
  h_mem :: "addr \<Rightarrow> memblock option"
  h_brk :: addr
  h_calls :: nat
  h_grant :: "nat \<Rightarrow> bool"

record mempool =
  p_BlockSize :: nat
  p_Increment :: u32
  p_TotalBlocks :: u32
  p_Inventory :: u32
  p_PeakUsed :: u32
  p_Segs :: "addr list"
  p_BlkHead :: "addr option"
  p_BlkTail :: "addr option"

record memmgr =
  g_heap :: heap
  g_DeployedCount :: u32
  g_ReturnedCount :: u32
  g_FailedGets :: u32
  g_FailedPuts :: u32
  g_DeployedSize :: u32
  g_Pools :: "mempool list"

section \<open>Blocks\<close>

definition MemBlock_new :: "nat \<Rightarrow> memblock" where
  "MemBlock_new BlockSize =
     \<lparr>m_Guard = 0, m_UseCount = 0, m_BlockSize = BlockSize, m_Link = None\<rparr>"

definition Valid :: "memblock \<Rightarrow> bool" where
  "Valid b = (m_Guard b = k_MemSentinel)"

definition BuffGet :: "addr \<Rightarrow> nat" where
  "BuffGet a = a + sizeof_MemBlock"

definition GuardOn :: "memblock \<Rightarrow> memblock" where
  "GuardOn b = b\<lparr>m_Guard := k_MemSentinel\<rparr>"

definition GuardOff :: "memblock \<Rightarrow> memblock" where
  "GuardOff b = b\<lparr>m_Guard := 0\<rparr>"

definition UseCountInc :: "memblock \<Rightarrow> memblock" where
  "UseCountInc b =
     (let c = m_UseCount b + 1 in b\<lparr>m_UseCount := (if c = 0 then c - 1 else c)\<rparr>)"

definition upd_block :: "heap \<Rightarrow> addr \<Rightarrow> (memblock \<Rightarrow> memblock) \<Rightarrow> heap option" where
  "upd_block h a f =
     (case h_mem h a of None \<Rightarrow> None | Some b \<Rightarrow> Some (h\<lparr>h_mem := (h_mem h)(a \<mapsto> f b)\<rparr>))"

text \<open>\<open>new (CP_NEW) char[n]\<close>: a fresh range of \<open>n\<close> octets, or NULL.\<close>

definition new_chars :: "heap \<Rightarrow> nat \<Rightarrow> heap \<times> addr option" where
  "new_chars h n =
     (let h1 = h\<lparr>h_calls := Suc (h_calls h)\<rparr>
      in if h_grant h (h_calls h) then (h1\<lparr>h_brk := h_brk h + n\<rparr>, Some (h_brk h)) else (h1, None))"

section \<open>Pools\<close>

definition MemPool_MemBlockPut ::
  "heap \<Rightarrow> mempool \<Rightarrow> addr option \<Rightarrow> (heap \<times> mempool \<times> addr option \<times> bool) option" where
  "MemPool_MemBlockPut h p Mem =
     (case Mem of
        None \<Rightarrow> Some (h, p, Mem, False)
      | Some a \<Rightarrow> do {
          b \<leftarrow> h_mem h a;
          if m_BlockSize b \<noteq> p_BlockSize p then Some (h, p, Mem, False)
          else do {
            (h1, p1) \<leftarrow>
              (if p_BlkHead p = None then Some (h, p\<lparr>p_BlkHead := Mem, p_BlkTail := Mem\<rparr>)
               else do {
                 t \<leftarrow> p_BlkTail p;
                 h' \<leftarrow> upd_block h t (\<lambda>x. x\<lparr>m_Link := Mem\<rparr>);
                 Some (h', p\<lparr>p_BlkTail := Mem\<rparr>)
               });
            h2 \<leftarrow> upd_block h1 a (\<lambda>x. x\<lparr>m_Link := None\<rparr>);
            Some (h2, p1\<lparr>p_Inventory := p_Inventory p1 + 1\<rparr>, None, True)
          }
        })"

text \<open>The loop of \<open>AllocateSegment\<close>: construct a block header, put it into the inventory.\<close>

fun carve :: "nat \<Rightarrow> addr \<Rightarrow> heap \<Rightarrow> mempool \<Rightarrow> (heap \<times> mempool \<times> bool) option" where
  "carve 0 raw h p = Some (h, p, True)"
| "carve (Suc n) raw h p = do {
     (h1, p1, pBlk, rv) \<leftarrow>
       MemPool_MemBlockPut (h\<lparr>h_mem := (h_mem h)(raw \<mapsto> MemBlock_new (p_BlockSize p))\<rparr>) p (Some raw);
     if rv then
       carve n (raw + (sizeof_MemBlock + p_BlockSize p)) h1
         (p1\<lparr>p_TotalBlocks := p_TotalBlocks p1 + 1\<rparr>)
     else Some (h1, p1, False)
   }"

definition AllocateSegment :: "heap \<Rightarrow> mempool \<Rightarrow> u32 \<Rightarrow> (heap \<times> mempool \<times> bool) option" where
  "AllocateSegment h p Blocks =
     (let segSize = (unat Blocks * (p_BlockSize p + sizeof_MemBlock) + sizeof_MemSegment) mod 2 ^ 64
      in if Blocks = 0 then Some (h, p, False)
         else case new_chars h segSize of
             (h1, None) \<Rightarrow> Some (h1, p, False)
           | (h1, Some pRaw) \<Rightarrow>
               carve (unat Blocks) (pRaw + sizeof_MemSegment) h1
                 (p\<lparr>p_Segs := pRaw # p_Segs p\<rparr>))"

definition MemPool_new :: "heap \<Rightarrow> nat \<Rightarrow> u32 \<Rightarrow> u32 \<Rightarrow> (heap \<times> mempool) option" where
  "MemPool_new h BlockSize InitCount Increment = do {
     (h1, p1, rv) \<leftarrow> AllocateSegment h
       \<lparr>p_BlockSize = BlockSize, p_Increment = Increment, p_TotalBlocks = 0, p_Inventory = 0,
        p_PeakUsed = 0, p_Segs = [], p_BlkHead = None, p_BlkTail = None\<rparr> InitCount;
     Some (h1, p1)
   }"

text \<open>Take the head of the free list; \<open>Mem\<close> keeps its value when nothing is delivered.\<close>

definition pool_take ::
  "heap \<Rightarrow> mempool \<Rightarrow> (heap \<times> mempool \<times> addr option \<times> bool) option" where
  "pool_take h p =
     (case p_BlkHead p of
        None \<Rightarrow> Some (h, p, None, False)
      | Some a \<Rightarrow> do {
          b \<leftarrow> h_mem h a;
          let p1 = p\<lparr>p_BlkHead := m_Link b\<rparr>;
          let p2 = (if p_BlkHead p1 = None then p1\<lparr>p_BlkTail := None\<rparr> else p1);
          h1 \<leftarrow> upd_block h a UseCountInc;
          let p3 = p2\<lparr>p_Inventory := p_Inventory p2 - 1\<rparr>;
          let used = p_TotalBlocks p3 - p_Inventory p3;
          Some (h1, if p_PeakUsed p3 < used then p3\<lparr>p_PeakUsed := used\<rparr> else p3, Some a, True)
        })"

definition MemPool_MemBlockGet ::
  "heap \<Rightarrow> mempool \<Rightarrow> addr option \<Rightarrow> (heap \<times> mempool \<times> addr option \<times> bool) option" where
  "MemPool_MemBlockGet h p Mem = do {
     (h1, p1, rv) \<leftarrow>
       (if p_BlkHead p = None then AllocateSegment h p (p_Increment p) else Some (h, p, True));
     if rv then pool_take h1 p1 else Some (h1, p1, Mem, False)
   }"

section \<open>Manager\<close>

text \<open>The first pool of the list whose block size suffices, by its position.\<close>

fun PoolGet :: "mempool list \<Rightarrow> nat \<Rightarrow> nat option" where
  "PoolGet [] BlockSize = None"
| "PoolGet (p # ps) BlockSize =
     (if p_BlockSize p \<ge> BlockSize then Some 0 else map_option Suc (PoolGet ps BlockSize))"

definition MemBlockGet ::
  "memmgr \<Rightarrow> addr option \<Rightarrow> nat \<Rightarrow> (memmgr \<times> addr option \<times> bool) option" where
  "MemBlockGet g Mem Size = do {
     (g1, Mem1, rv) \<leftarrow>
       (case PoolGet (g_Pools g) Size of
          Some i \<Rightarrow> do {
            (h1, p1, m1, rv) \<leftarrow> MemPool_MemBlockGet (g_heap g) (g_Pools g ! i) Mem;
            Some (g\<lparr>g_heap := h1, g_Pools := (g_Pools g)[i := p1]\<rparr>, m1, rv)
          }
        | None \<Rightarrow>
            (case new_chars (g_heap g) ((Size + sizeof_MemBlock) mod 2 ^ 64) of
               (h1, Some pRaw) \<Rightarrow>
                 Some (g\<lparr>g_heap := h1\<lparr>h_mem := (h_mem h1)(pRaw \<mapsto> MemBlock_new Size)\<rparr>\<rparr>, Some pRaw, True)
             | (h1, None) \<Rightarrow> Some (g\<lparr>g_heap := h1\<rparr>, Mem, False)));
     g2 \<leftarrow>
       (if rv then do {
          a \<leftarrow> Mem1;
          b \<leftarrow> h_mem (g_heap g1) a;
          Some (g1\<lparr>g_DeployedCount := g_DeployedCount g1 + 1,
                   g_DeployedSize := g_DeployedSize g1 + of_nat (m_BlockSize b)\<rparr>)
        }
        else Some (g1\<lparr>g_FailedGets := g_FailedGets g1 + 1\<rparr>));
     a \<leftarrow> Mem1;
     h2 \<leftarrow> upd_block (g_heap g2) a GuardOn;
     Some (g2\<lparr>g_heap := h2\<rparr>, Mem1, rv)
   }"

definition MemBlockPut ::
  "memmgr \<Rightarrow> addr option \<Rightarrow> (memmgr \<times> addr option \<times> bool) option" where
  "MemBlockPut g Mem =
     (case Mem of
        None \<Rightarrow> Some (g, Mem, True)
      | Some a \<Rightarrow> do {
          b \<leftarrow> h_mem (g_heap g) a;
          let size = m_BlockSize b;
          if \<not> Valid b then Some (g, Mem, False)
          else do {
            h1 \<leftarrow> upd_block (g_heap g) a GuardOff;
            (g1, Mem1, rv) \<leftarrow>
              (case PoolGet (g_Pools g) size of
                 Some i \<Rightarrow> do {
                   (h2, p2, m2, rv) \<leftarrow> MemPool_MemBlockPut h1 (g_Pools g ! i) Mem;
                   Some (g\<lparr>g_heap := h2, g_Pools := (g_Pools g)[i := p2]\<rparr>, m2, rv)
                 }
               | None \<Rightarrow> Some (g\<lparr>g_heap := h1\<lparr>h_mem := (h_mem h1)(a := None)\<rparr>\<rparr>, None, True));
            Some (if rv then g1\<lparr>g_ReturnedCount := g_ReturnedCount g1 + 1,
                                g_DeployedSize := g_DeployedSize g1 - of_nat size\<rparr>
                  else g1\<lparr>g_FailedPuts := g_FailedPuts g1 + 1\<rparr>, Mem1, rv)
          }
        })"

text \<open>Return of a block by its buffer pointer; pointers are 64-bit numbers.\<close>

definition MemBlockPut_char ::
  "memmgr \<Rightarrow> nat option \<Rightarrow> (memmgr \<times> nat option \<times> bool) option" where
  "MemBlockPut_char g Mem =
     (case Mem of
        None \<Rightarrow> Some (g, Mem, True)
      | Some m \<Rightarrow>
          let pBlock = (m + (2 ^ 64 - sizeof_MemBlock)) mod 2 ^ 64
          in if m > pBlock then do {
               (g1, pb, rv) \<leftarrow> MemBlockPut g (Some pBlock);
               Some (g1, if rv then None else Mem, rv)
             }
             else Some (g, Mem, False))"

text \<open>
  The scan of \<open>CreatePool\<close>: \<open>Inl ()\<close> when a pool of the size exists, else the position of
  the last smaller pool.
\<close>

fun scan_pools :: "mempool list \<Rightarrow> nat \<Rightarrow> nat \<Rightarrow> nat option \<Rightarrow> unit + nat option" where
  "scan_pools [] BlockSize i prev = Inr prev"
| "scan_pools (p # ps) BlockSize i prev =
     (if p_BlockSize p = BlockSize then Inl ()
      else scan_pools ps BlockSize (Suc i) (if p_BlockSize p < BlockSize then Some i else prev))"

definition link_pool :: "nat option \<Rightarrow> mempool \<Rightarrow> mempool list \<Rightarrow> mempool list" where
  "link_pool prev p ps =
     (case prev of None \<Rightarrow> p # ps | Some i \<Rightarrow> take (Suc i) ps @ p # drop (Suc i) ps)"

definition CreatePool :: "memmgr \<Rightarrow> nat \<Rightarrow> u32 \<Rightarrow> u32 \<Rightarrow> (memmgr \<times> bool) option" where
  "CreatePool g BlockSize0 Initial Increment =
     (let BlockSize = (if BlockSize0 < k_MinMemBlockSize then k_MinMemBlockSize else BlockSize0)
      in case scan_pools (g_Pools g) BlockSize 0 None of
           Inl _ \<Rightarrow> Some (g, False)
         | Inr prev \<Rightarrow>
             (case new_chars (g_heap g) sizeof_MemPool of
                (h1, None) \<Rightarrow> Some (g\<lparr>g_heap := h1\<rparr>, False)
              | (h1, Some _) \<Rightarrow> do {
                  (h2, p) \<leftarrow> MemPool_new h1 BlockSize Initial Increment;
                  Some (g\<lparr>g_heap := h2, g_Pools := link_pool prev p (g_Pools g)\<rparr>, True)
                }))"

fun create_pools :: "memmgr \<Rightarrow> (nat \<times> u32 \<times> u32) list \<Rightarrow> memmgr option" where
  "create_pools g [] = Some g"
| "create_pools g ((s, n, i) # rest) = do { (g1, rv) \<leftarrow> CreatePool g s n i; create_pools g1 rest }"

definition empty_mgr :: "heap \<Rightarrow> memmgr" where
  "empty_mgr h =
     \<lparr>g_heap = h, g_DeployedCount = 0, g_ReturnedCount = 0, g_FailedGets = 0, g_FailedPuts = 0,
      g_DeployedSize = 0, g_Pools = []\<rparr>"

definition start_heap :: "(nat \<Rightarrow> bool) \<Rightarrow> heap" where
  "start_heap grant = \<lparr>h_mem = (\<lambda>_. None), h_brk = 0x1000, h_calls = 0, h_grant = grant\<rparr>"

definition MemManager_new :: "heap \<Rightarrow> memmgr option" where
  "MemManager_new h = create_pools (empty_mgr h)
     [(16, 256, 256), (64, 128, 128), (256, 64, 64), (1024, 32, 32), (4096, 16, 16), (16384, 8, 8)]"

end
