(* ===== verification/MemMgrInv.thy ===== *)
theory MemMgrInv
  imports MemMgr
begin

text \<open>
  The invariant of the memory manager and its preservation. A pool's free blocks form one
  linked list through the blocks themselves; every block header owns a range of addresses
  disjoint from every other; the pools are sorted by block size. The reachable states of the
  manager are those produced by any sequence of \<open>CreatePool\<close>, \<open>MemBlockGet\<close>,
  \<open>MemBlockPut\<close> and client writes into deployed blocks.
\<close>

section \<open>The free list of a pool\<close>

type_synonym blockmap = "addr \<Rightarrow> memblock option"

fun is_chain :: "blockmap \<Rightarrow> addr option \<Rightarrow> addr list \<Rightarrow> bool" where
  "is_chain m hp [] = (hp = None)"
| "is_chain m hp (a # as) =
     (hp = Some a \<and> (case m a of None \<Rightarrow> False | Some b \<Rightarrow> is_chain m (m_Link b) as))"

definition free_block :: "blockmap \<Rightarrow> nat \<Rightarrow> addr \<Rightarrow> bool" where
  "free_block m s a = (case m a of None \<Rightarrow> False | Some b \<Rightarrow> m_BlockSize b = s \<and> \<not> Valid b)"

definition pool_ok :: "blockmap \<Rightarrow> mempool \<Rightarrow> addr list \<Rightarrow> bool" where
  "pool_ok m p xs \<longleftrightarrow>
     is_chain m (p_BlkHead p) xs \<and> p_BlkTail p = (if xs = [] then None else Some (last xs)) \<and>
     distinct xs \<and> (\<forall>a\<in>set xs. free_block m (p_BlockSize p) a) \<and> p_Inventory p = of_nat (length xs)"

lemma free_blockE:
  assumes "free_block m s a"
  obtains b where "m a = Some b" "m_BlockSize b = s" "\<not> Valid b"
  using assms by (auto simp: free_block_def split: option.splits)

lemma free_blockI: "m a = Some b \<Longrightarrow> m_BlockSize b = s \<Longrightarrow> \<not> Valid b \<Longrightarrow> free_block m s a"
  by (simp add: free_block_def)

lemma is_chain_cong: "(\<And>a. a \<in> set xs \<Longrightarrow> m' a = m a) \<Longrightarrow> is_chain m' hp xs = is_chain m hp xs"
  by (induction xs arbitrary: hp) (auto split: option.splits)

lemma is_chain_head: "is_chain m hp xs \<Longrightarrow> (hp = None) = (xs = [])"
  by (cases xs) auto

lemma is_chain_snoc:
  assumes "is_chain m hp xs" "xs \<noteq> []" "a \<notin> set xs" "distinct xs" "m (last xs) = Some t" "m a = Some b"
  shows "is_chain (m(last xs \<mapsto> t\<lparr>m_Link := Some a\<rparr>, a \<mapsto> b\<lparr>m_Link := None\<rparr>)) hp (xs @ [a])"
  using assms
proof (induction xs arbitrary: hp)
  case (Cons x xs)
  show ?case
  proof (cases "xs = []")
    case True
    then show ?thesis using Cons.prems by (auto split: option.splits)
  next
    case False
    from Cons.prems obtain bx where bx: "hp = Some x" "m x = Some bx" "is_chain m (m_Link bx) xs"
      by (auto split: option.splits)
    have "x \<noteq> last xs" "x \<noteq> a" using Cons.prems False by auto
    moreover have "is_chain (m(last xs \<mapsto> t\<lparr>m_Link := Some a\<rparr>, a \<mapsto> b\<lparr>m_Link := None\<rparr>)) (m_Link bx) (xs @ [a])"
      using Cons.prems False bx by (intro Cons.IH) auto
    ultimately show ?thesis using bx False by (simp add: fun_upd_def)
  qed
qed simp

lemma pool_ok_cong: "pool_ok m p xs \<Longrightarrow> (\<And>a. a \<in> set xs \<Longrightarrow> m' a = m a) \<Longrightarrow> pool_ok m' p xs"
  using is_chain_cong [of xs m' m "p_BlkHead p"] by (auto simp: pool_ok_def free_block_def)

lemma pool_ok_free: "pool_ok m p xs \<Longrightarrow> a \<in> set xs \<Longrightarrow> free_block m (p_BlockSize p) a"
  by (simp add: pool_ok_def)

lemma pool_ok_size: "pool_ok m p xs \<Longrightarrow> a \<in> set xs \<Longrightarrow> m a = Some b \<Longrightarrow> m_BlockSize b = p_BlockSize p"
  by (auto simp: pool_ok_def free_block_def split: option.splits)

lemma pool_ok_fields: "pool_ok m (p\<lparr>p_TotalBlocks := t\<rparr>) xs = pool_ok m p xs"
  "pool_ok m (p\<lparr>p_Segs := s\<rparr>) xs = pool_ok m p xs"
  "pool_ok m (p\<lparr>p_PeakUsed := k\<rparr>) xs = pool_ok m p xs"
  by (simp_all add: pool_ok_def)

lemma Valid_link [simp]: "Valid (b\<lparr>m_Link := l\<rparr>) = Valid b"
  and Valid_UseCountInc [simp]: "Valid (UseCountInc b) = Valid b"
  and Valid_GuardOn [simp]: "Valid (GuardOn b)"
  and Valid_GuardOff [simp]: "\<not> Valid (GuardOff b)"
  and Valid_new [simp]: "\<not> Valid (MemBlock_new s)"
  and size_UseCountInc [simp]: "m_BlockSize (UseCountInc b) = m_BlockSize b"
  and size_GuardOn [simp]: "m_BlockSize (GuardOn b) = m_BlockSize b"
  and size_GuardOff [simp]: "m_BlockSize (GuardOff b) = m_BlockSize b"
  and size_new [simp]: "m_BlockSize (MemBlock_new s) = s"
  by (simp_all add: Valid_def UseCountInc_def GuardOn_def GuardOff_def MemBlock_new_def k_MemSentinel_def Let_def)

section \<open>Geometry of the heap\<close>

definition sizes :: "blockmap \<Rightarrow> addr \<Rightarrow> nat option" where
  "sizes m a = map_option m_BlockSize (m a)"

definition geom :: "(addr \<Rightarrow> nat option) \<Rightarrow> addr \<Rightarrow> bool" where
  "geom sz brk \<longleftrightarrow>
     (\<forall>a s. sz a = Some s \<longrightarrow> a + sizeof_MemBlock + s \<le> brk) \<and>
     (\<forall>a s a' s'. sz a = Some s \<longrightarrow> sz a' = Some s' \<longrightarrow> a < a' \<longrightarrow> a + sizeof_MemBlock + s \<le> a')"

lemma geom_mono: "geom sz brk \<Longrightarrow> brk \<le> brk' \<Longrightarrow> geom sz brk'"
  unfolding geom_def by (meson le_trans)

lemma geom_fresh: "geom sz brk \<Longrightarrow> brk \<le> a \<Longrightarrow> sz a = None"
proof (cases "sz a")
  case (Some s)
  assume "geom sz brk" "brk \<le> a"
  moreover from this Some have "a + sizeof_MemBlock + s \<le> brk" by (simp add: geom_def)
  ultimately show ?thesis by (simp add: sizeof_MemBlock_def)
qed simp

lemma geom_add: "geom sz brk \<Longrightarrow> brk \<le> a \<Longrightarrow> geom (sz(a \<mapsto> s)) (a + (sizeof_MemBlock + s))"
  unfolding geom_def
  by (auto simp: sizeof_MemBlock_def split: if_splits) (force+)?

lemma geom_remove: "geom sz brk \<Longrightarrow> geom (sz(a := None)) brk"
  by (auto simp: geom_def)

lemma sizes_upd: "sizes (m(a \<mapsto> b)) = (sizes m)(a \<mapsto> m_BlockSize b)"
  by (auto simp: sizes_def)

lemma sizes_same: "m a = Some b \<Longrightarrow> m_BlockSize b' = m_BlockSize b \<Longrightarrow> sizes (m(a \<mapsto> b')) = sizes m"
  by (auto simp: sizes_def)

lemma sizes_del: "sizes (m(a := None)) = (sizes m)(a := None)"
  by (auto simp: sizes_def)

section \<open>Pool operations\<close>

text \<open>
  \<open>touched X h h'\<close>: an operation changed no block outside \<open>X\<close>, removed none, and left the
  heap's other fields alone.
\<close>

definition touched :: "addr set \<Rightarrow> blockmap \<Rightarrow> blockmap \<Rightarrow> bool" where
  "touched X m m' \<longleftrightarrow> (\<forall>a. a \<notin> X \<longrightarrow> m a \<noteq> None \<longrightarrow> m' a = m a)"

lemma touched_refl [simp]: "touched X m m"
  by (simp add: touched_def)

lemma touched_trans: "touched X m m' \<Longrightarrow> touched Y m' m'' \<Longrightarrow> X \<subseteq> Z \<Longrightarrow> Y \<subseteq> Z \<union> {a. m a = None} \<Longrightarrow>
   touched Z m m''"
  unfolding touched_def by fastforce

lemma put_ok:
  assumes ok: "pool_ok (h_mem h) p xs" and a: "h_mem h a = Some b" "m_BlockSize b = p_BlockSize p"
    "\<not> Valid b" "a \<notin> set xs"
  shows "\<exists>h' p'. MemPool_MemBlockPut h p (Some a) = Some (h', p', None, True) \<and>
    pool_ok (h_mem h') p' (xs @ [a]) \<and> sizes (h_mem h') = sizes (h_mem h) \<and>
    touched (set xs \<union> {a}) (h_mem h) (h_mem h') \<and> h' = h\<lparr>h_mem := h_mem h'\<rparr> \<and>
    p_BlockSize p' = p_BlockSize p \<and> p_TotalBlocks p' = p_TotalBlocks p \<and> p_Increment p' = p_Increment p"
proof (cases "xs = []")
  case True
  then have "p_BlkHead p = None" using ok by (simp add: pool_ok_def)
  then show ?thesis using True ok a
    by (auto simp: MemPool_MemBlockPut_def upd_block_def pool_ok_def free_block_def touched_def sizes_same)
next
  case False
  from ok False have hd: "p_BlkHead p \<noteq> None" and tl: "p_BlkTail p = Some (last xs)"
    using is_chain_head [of "h_mem h" "p_BlkHead p" xs] by (auto simp: pool_ok_def)
  from ok False obtain t where t: "h_mem h (last xs) = Some t" "m_BlockSize t = p_BlockSize p" "\<not> Valid t"
    by (meson pool_ok_free free_blockE last_in_set)
  have na: "last xs \<noteq> a" using a False by auto
  define m' where "m' = (h_mem h)(last xs \<mapsto> t\<lparr>m_Link := Some a\<rparr>, a \<mapsto> b\<lparr>m_Link := None\<rparr>)"
  have eq: "MemPool_MemBlockPut h p (Some a) =
      Some (h\<lparr>h_mem := m'\<rparr>, p\<lparr>p_BlkTail := Some a, p_Inventory := p_Inventory p + 1\<rparr>, None, True)"
    using hd tl t a na by (auto simp: MemPool_MemBlockPut_def upd_block_def m'_def)
  have ch: "is_chain m' (p_BlkHead p) (xs @ [a])"
    unfolding m'_def using ok a t False by (intro is_chain_snoc) (auto simp: pool_ok_def)
  have "sizes m' = sizes (h_mem h)"
    unfolding m'_def using t a na by (auto simp: sizes_def fun_eq_iff)
  moreover have "pool_ok m' (p\<lparr>p_BlkTail := Some a, p_Inventory := p_Inventory p + 1\<rparr>) (xs @ [a])"
    using ok ch a t na by (auto simp: pool_ok_def m'_def free_block_def)
  moreover have "touched (set xs \<union> {a}) (h_mem h) m'"
    using False by (auto simp: touched_def m'_def)
  ultimately show ?thesis using eq by auto
qed

lemma take_ok:
  assumes ok: "pool_ok (h_mem h) p (a # as)"
  shows "\<exists>h' p' b. pool_take h p = Some (h', p', Some a, True) \<and> h_mem h a = Some b \<and>
    h_mem h' a = Some (UseCountInc b) \<and>
    pool_ok (h_mem h') p' as \<and> sizes (h_mem h') = sizes (h_mem h) \<and>
    touched {a} (h_mem h) (h_mem h') \<and> h' = h\<lparr>h_mem := h_mem h'\<rparr> \<and>
    p_BlockSize p' = p_BlockSize p \<and> p_TotalBlocks p' = p_TotalBlocks p \<and> p_Increment p' = p_Increment p"
proof -
  from ok obtain b where b: "p_BlkHead p = Some a" "h_mem h a = Some b" "is_chain (h_mem h) (m_Link b) as"
    by (auto simp: pool_ok_def split: option.splits)
  define m' where "m' = (h_mem h)(a \<mapsto> UseCountInc b)"
  have ch: "is_chain m' (m_Link b) as"
    using ok b by (subst is_chain_cong [of as m' "h_mem h"]) (auto simp: pool_ok_def m'_def)
  have l: "(m_Link b = None) = (as = [])" using b(3) by (rule is_chain_head)
  have ok': "pool_ok m' (p\<lparr>p_BlkHead := m_Link b, p_BlkTail := (if as = [] then None else p_BlkTail p),
      p_Inventory := p_Inventory p - 1\<rparr>) as"
    using ok ch by (auto simp: pool_ok_def m'_def free_block_def)
  have "sizes m' = sizes (h_mem h)" unfolding m'_def using b(2) by (auto intro: sizes_same)
  moreover have "touched {a} (h_mem h) m'" by (simp add: touched_def m'_def)
  ultimately show ?thesis using b l ok'
    by (auto simp: pool_take_def upd_block_def Let_def m'_def pool_ok_def)
qed


lemma carve_ok:
  assumes "pool_ok (h_mem h) p xs" "geom (sizes (h_mem h)) raw"
  shows "\<exists>h' p' ys. carve n raw h p = Some (h', p', True) \<and> pool_ok (h_mem h') p' (xs @ ys) \<and>
    length ys = n \<and> (\<forall>a\<in>set ys. h_mem h a = None) \<and>
    geom (sizes (h_mem h')) (raw + n * (sizeof_MemBlock + p_BlockSize p)) \<and>
    touched (set xs) (h_mem h) (h_mem h') \<and> sizes (h_mem h) \<subseteq>\<^sub>m sizes (h_mem h') \<and>
    h' = h\<lparr>h_mem := h_mem h'\<rparr> \<and>
    p_BlockSize p' = p_BlockSize p \<and> p_TotalBlocks p' = p_TotalBlocks p + of_nat n \<and>
    p_Increment p' = p_Increment p"
  using assms
proof (induction n arbitrary: raw h p xs)
  case 0
  then show ?case by (auto intro!: exI [of _ "[]"])
next
  case (Suc n)
  let ?s = "p_BlockSize p"
  let ?h0 = "h\<lparr>h_mem := (h_mem h)(raw \<mapsto> MemBlock_new ?s)\<rparr>"
  have "sizes (h_mem h) raw = None" using geom_fresh [OF Suc.prems(2), of raw] by simp
  then have fresh: "h_mem h raw = None" by (simp add: sizes_def)
  with pool_ok_free [OF Suc.prems(1), of raw] have nin: "raw \<notin> set xs"
    by (auto simp: free_block_def)
  have "pool_ok (h_mem ?h0) p xs" by (rule pool_ok_cong [OF Suc.prems(1)]) (use nin in auto)
  from put_ok [OF this, of raw "MemBlock_new ?s"] nin obtain h1 p1 where
    put: "MemPool_MemBlockPut ?h0 p (Some raw) = Some (h1, p1, None, True)"
      "pool_ok (h_mem h1) p1 (xs @ [raw])" "sizes (h_mem h1) = sizes (h_mem ?h0)"
      "touched (set xs \<union> {raw}) (h_mem ?h0) (h_mem h1)" "h1 = ?h0\<lparr>h_mem := h_mem h1\<rparr>"
      "p_BlockSize p1 = ?s" "p_TotalBlocks p1 = p_TotalBlocks p" "p_Increment p1 = p_Increment p"
    by auto
  let ?p1 = "p1\<lparr>p_TotalBlocks := p_TotalBlocks p1 + 1\<rparr>"
  have geo: "geom (sizes (h_mem h1)) (raw + (sizeof_MemBlock + ?s))"
    using Suc.prems(2) by (simp add: put(3) sizes_upd geom_add)
  have "pool_ok (h_mem h1) ?p1 (xs @ [raw])" using put(2) by (simp add: pool_ok_fields)
  from Suc.IH [OF this geo] put(6-8) obtain h' p' ys where
    r: "carve n (raw + (sizeof_MemBlock + ?s)) h1 ?p1 = Some (h', p', True)"
      "pool_ok (h_mem h') p' ((xs @ [raw]) @ ys)" "length ys = n" "\<forall>a\<in>set ys. h_mem h1 a = None"
      "geom (sizes (h_mem h')) (raw + (sizeof_MemBlock + ?s) + n * (sizeof_MemBlock + ?s))"
      "touched (set (xs @ [raw])) (h_mem h1) (h_mem h')" "sizes (h_mem h1) \<subseteq>\<^sub>m sizes (h_mem h')"
      "h' = h1\<lparr>h_mem := h_mem h'\<rparr>" "p_BlockSize p' = ?s"
      "p_TotalBlocks p' = p_TotalBlocks p + 1 + of_nat n" "p_Increment p' = p_Increment p"
    by auto
  have "\<forall>a\<in>set (raw # ys). h_mem h a = None"
  proof -
    have "sizes (h_mem h) a = None" if "sizes (h_mem h1) a = None" for a
      using that by (simp add: put(3) sizes_upd split: if_splits)
    then show ?thesis using fresh r(4) by (simp add: sizes_def)
  qed
  moreover have "touched (set xs) (h_mem h) (h_mem h')"
    unfolding touched_def
  proof (intro allI impI)
    fix a assume a: "a \<notin> set xs" "h_mem h a \<noteq> None"
    with fresh have ar: "a \<noteq> raw" by auto
    with a put(4) have 1: "h_mem h1 a = h_mem h a" by (simp add: touched_def)
    with a ar r(6) have "h_mem h' a = h_mem h1 a" by (simp add: touched_def)
    with 1 show "h_mem h' a = h_mem h a" by simp
  qed
  moreover have "sizes (h_mem h) \<subseteq>\<^sub>m sizes (h_mem h')"
    by (rule map_le_trans [OF _ r(7)]) (use fresh in \<open>auto simp: put(3) sizes_upd map_le_def sizes_def\<close>)
  moreover have "h' = h\<lparr>h_mem := h_mem h'\<rparr>" using r(8) put(5) by (cases h; cases h1; cases h') simp
  moreover have "geom (sizes (h_mem h')) (raw + Suc n * (sizeof_MemBlock + ?s))"
    using r(5) by (simp add: add.assoc)
  moreover have "carve (Suc n) raw h p = Some (h', p', True)" using put(1,6) r(1) by simp
  moreover have "pool_ok (h_mem h') p' (xs @ raw # ys)" using r(2) by simp
  moreover have "length (raw # ys) = Suc n" using r(3) by simp
  moreover have "p_TotalBlocks p' = p_TotalBlocks p + of_nat (Suc n)" using r(10) by simp
  ultimately show ?case using r(9,11) by blast
qed

text \<open>The sizes the manager can serve without an overflow of the segment size.\<close>

abbreviation size_ok :: "nat \<Rightarrow> bool" where
  "size_ok s \<equiv> k_MinMemBlockSize \<le> s \<and> s < 2 ^ 31"

lemma new_chars_eq: "new_chars h n =
    (h\<lparr>h_calls := Suc (h_calls h), h_brk := (if h_grant h (h_calls h) then h_brk h + n else h_brk h)\<rparr>,
     if h_grant h (h_calls h) then Some (h_brk h) else None)"
  by (simp add: new_chars_def Let_def)

lemma segment_size_exact:
  assumes "s < 2 ^ 31"
  shows "(unat (n :: u32) * (s + sizeof_MemBlock) + sizeof_MemSegment) mod 2 ^ 64 =
    unat n * (s + sizeof_MemBlock) + sizeof_MemSegment"
proof (rule mod_less)
  have "unat n < 2 ^ 32" using unsigned_less [of n, where 'a = nat] by simp
  then have "unat n * (s + 16) \<le> 2 ^ 32 * (2 ^ 31 + 16)"
    using assms by (intro mult_le_mono) auto
  then show "unat n * (s + sizeof_MemBlock) + sizeof_MemSegment < 2 ^ 64"
    by (simp add: sizeof_MemBlock_def sizeof_MemSegment_def)
qed

lemma alloc_ok:
  assumes "pool_ok (h_mem h) p xs" "geom (sizes (h_mem h)) (h_brk h)" "size_ok (p_BlockSize p)"
  shows "\<exists>h' p' ys rv. AllocateSegment h p n = Some (h', p', rv) \<and> pool_ok (h_mem h') p' (xs @ ys) \<and>
    rv = (ys \<noteq> []) \<and> rv = (n \<noteq> 0 \<and> h_grant h (h_calls h)) \<and> (rv \<longrightarrow> length ys = unat n) \<and>
    (\<forall>a\<in>set ys. h_mem h a = None) \<and> geom (sizes (h_mem h')) (h_brk h') \<and>
    touched (set xs) (h_mem h) (h_mem h') \<and> sizes (h_mem h) \<subseteq>\<^sub>m sizes (h_mem h') \<and>
    h_grant h' = h_grant h \<and>
    p_BlockSize p' = p_BlockSize p \<and> p_TotalBlocks p' = p_TotalBlocks p + of_nat (length ys) \<and>
    p_Increment p' = p_Increment p"
proof (cases "n \<noteq> 0 \<and> h_grant h (h_calls h)")
  case False
  then show ?thesis using assms
    by (cases "n = 0") (auto simp: AllocateSegment_def new_chars_eq Let_def intro!: exI [of _ "[]"])
next
  case True
  let ?s = "p_BlockSize p"
  define seg where "seg = unat n * (?s + sizeof_MemBlock) + sizeof_MemSegment"
  let ?h1 = "h\<lparr>h_calls := Suc (h_calls h), h_brk := h_brk h + seg\<rparr>"
  let ?p1 = "p\<lparr>p_Segs := h_brk h # p_Segs p\<rparr>"
  have "pool_ok (h_mem ?h1) ?p1 xs" using assms by (simp add: pool_ok_fields)
  moreover have "geom (sizes (h_mem ?h1)) (h_brk h + sizeof_MemSegment)"
    using geom_mono [OF assms(2), of "h_brk h + sizeof_MemSegment"] by simp
  ultimately obtain h' p' ys where
    r: "carve (unat n) (h_brk h + sizeof_MemSegment) ?h1 ?p1 = Some (h', p', True)"
      "pool_ok (h_mem h') p' (xs @ ys)" "length ys = unat n" "\<forall>a\<in>set ys. h_mem h a = None"
      "geom (sizes (h_mem h')) (h_brk h + sizeof_MemSegment + unat n * (sizeof_MemBlock + ?s))"
      "touched (set xs) (h_mem h) (h_mem h')" "sizes (h_mem h) \<subseteq>\<^sub>m sizes (h_mem h')"
      "h' = ?h1\<lparr>h_mem := h_mem h'\<rparr>" "p_BlockSize p' = ?s"
      "p_TotalBlocks p' = p_TotalBlocks p + of_nat (unat n)" "p_Increment p' = p_Increment p"
    using carve_ok [of ?h1 ?p1 xs "h_brk h + sizeof_MemSegment" "unat n"] by auto
  have "h_brk h' = h_brk h + seg" "h_grant h' = h_grant h" using r(8) by (metis heap.select_convs heap.surjective heap.update_convs)+
  moreover have e: "h_brk h + sizeof_MemSegment + unat n * (sizeof_MemBlock + ?s) = h_brk h + seg"
    by (simp add: seg_def algebra_simps)
  moreover have "geom (sizes (h_mem h')) (h_brk h + seg)" using r(5) unfolding e .
  moreover have "ys \<noteq> []" using r(3) True by (auto simp: unat_eq_0)
  moreover have "AllocateSegment h p n = Some (h', p', True)"
    unfolding AllocateSegment_def Let_def segment_size_exact [OF conjunct2 [OF assms(3)]]
    unfolding seg_def [symmetric]
    using True r(1) by (simp add: new_chars_eq)
  ultimately show ?thesis using r True by auto
qed


lemma pool_get_ok:
  assumes ok: "pool_ok (h_mem h) p xs" and g: "geom (sizes (h_mem h)) (h_brk h)" "size_ok (p_BlockSize p)"
  shows "\<exists>h' p' r rv xs'. MemPool_MemBlockGet h p Mem = Some (h', p', r, rv) \<and> pool_ok (h_mem h') p' xs' \<and>
    geom (sizes (h_mem h')) (h_brk h') \<and> touched (set xs) (h_mem h) (h_mem h') \<and>
    sizes (h_mem h) \<subseteq>\<^sub>m sizes (h_mem h') \<and> h_grant h' = h_grant h \<and> p_BlockSize p' = p_BlockSize p \<and>
    p_TotalBlocks p' - p_Inventory p' = p_TotalBlocks p - p_Inventory p + of_bool rv \<and>
    rv = (xs \<noteq> [] \<or> (p_Increment p \<noteq> 0 \<and> h_grant h (h_calls h))) \<and>
    (if rv then \<exists>a. r = Some a \<and> a \<notin> set xs' \<and> free_block (h_mem h') (p_BlockSize p) a \<and>
                  (a \<in> set xs \<or> h_mem h a = None)
     else r = Mem)"
proof (cases xs)
  case (Cons a as)
  from take_ok [of h p a as] ok Cons obtain h' p' b where
    r: "pool_take h p = Some (h', p', Some a, True)" "h_mem h a = Some b"
      "h_mem h' a = Some (UseCountInc b)" "pool_ok (h_mem h') p' as"
      "sizes (h_mem h') = sizes (h_mem h)" "touched {a} (h_mem h) (h_mem h')"
      "h' = h\<lparr>h_mem := h_mem h'\<rparr>" "p_BlockSize p' = p_BlockSize p" "p_TotalBlocks p' = p_TotalBlocks p"
    by auto
  have hb: "h_brk h' = h_brk h" "h_grant h' = h_grant h"
    using r(7) by (metis heap.select_convs heap.surjective heap.update_convs)+
  have "p_BlkHead p \<noteq> None" using ok Cons by (auto simp: pool_ok_def)
  then have "MemPool_MemBlockGet h p Mem = Some (h', p', Some a, True)"
    using r(1) by (auto simp: MemPool_MemBlockGet_def)
  moreover have "free_block (h_mem h') (p_BlockSize p) a"
    using r(2,3) pool_ok_free [OF ok, of a] Cons by (auto simp: free_block_def)
  moreover have "a \<notin> set as" using ok Cons by (simp add: pool_ok_def)
  moreover have "touched (set xs) (h_mem h) (h_mem h')" using r(6) Cons by (simp add: touched_def)
  moreover have "p_TotalBlocks p' - p_Inventory p' = p_TotalBlocks p - p_Inventory p + of_bool True"
    using ok r(4,9) Cons by (simp add: pool_ok_def)
  ultimately show ?thesis using r(4,5,8) g hb Cons by (auto intro!: exI [of _ as])
next
  case Nil
  then have nh: "p_BlkHead p = None" using ok by (simp add: pool_ok_def)
  from alloc_ok [OF ok g, of "p_Increment p"] Nil obtain h1 p1 ys rv where
    l: "AllocateSegment h p (p_Increment p) = Some (h1, p1, rv)" "pool_ok (h_mem h1) p1 ys"
      "rv = (ys \<noteq> [])" "rv = (p_Increment p \<noteq> 0 \<and> h_grant h (h_calls h))"
      "\<forall>a\<in>set ys. h_mem h a = None" "geom (sizes (h_mem h1)) (h_brk h1)"
      "touched {} (h_mem h) (h_mem h1)" "sizes (h_mem h) \<subseteq>\<^sub>m sizes (h_mem h1)" "h_grant h1 = h_grant h"
      "p_BlockSize p1 = p_BlockSize p" "p_TotalBlocks p1 = p_TotalBlocks p + of_nat (length ys)"
    by auto
  show ?thesis
  proof (cases ys)
    case Nil': Nil
    then have "MemPool_MemBlockGet h p Mem = Some (h1, p1, Mem, False)"
      using nh l by (simp add: MemPool_MemBlockGet_def)
    moreover have "p_TotalBlocks p1 - p_Inventory p1 = p_TotalBlocks p - p_Inventory p + of_bool False"
      using ok l(2,11) Nil Nil' by (simp add: pool_ok_def)
    ultimately show ?thesis using l Nil Nil' by (auto intro!: exI [of _ "[]"])
  next
    case (Cons a as)
    from take_ok [of h1 p1 a as] l(2) Cons obtain h' p' b where
      r: "pool_take h1 p1 = Some (h', p', Some a, True)" "h_mem h1 a = Some b"
        "h_mem h' a = Some (UseCountInc b)" "pool_ok (h_mem h') p' as"
        "sizes (h_mem h') = sizes (h_mem h1)" "touched {a} (h_mem h1) (h_mem h')"
        "h' = h1\<lparr>h_mem := h_mem h'\<rparr>" "p_BlockSize p' = p_BlockSize p1" "p_TotalBlocks p' = p_TotalBlocks p1"
      by auto
    have hb: "h_brk h' = h_brk h1" "h_grant h' = h_grant h1"
      using r(7) by (metis heap.select_convs heap.surjective heap.update_convs)+
    have "MemPool_MemBlockGet h p Mem = Some (h', p', Some a, True)"
      using nh l(1,3) Cons r(1) by (simp add: MemPool_MemBlockGet_def)
    moreover have "free_block (h_mem h') (p_BlockSize p) a"
      using r(2,3) pool_ok_free [OF l(2), of a] Cons l(10) by (auto simp: free_block_def)
    moreover have "a \<notin> set as" using l(2) Cons by (simp add: pool_ok_def)
    moreover have "touched (set xs) (h_mem h) (h_mem h')"
    proof -
      have "h_mem h a = None" using l(5) Cons by simp
      then show ?thesis using l(7) r(6) by (force simp: touched_def)
    qed
    moreover have "p_TotalBlocks p' - p_Inventory p' = p_TotalBlocks p - p_Inventory p + of_bool True"
      using ok l(2,11) r(4,9) Nil Cons by (simp add: pool_ok_def)
    moreover have "h_mem h a = None" using l(5) Cons by simp
    moreover have "geom (sizes (h_mem h')) (h_brk h')" using l(6) r(5) hb by simp
    moreover have "sizes (h_mem h) \<subseteq>\<^sub>m sizes (h_mem h')" using l(8) r(5) by simp
    moreover have "h_grant h' = h_grant h" "p_BlockSize p' = p_BlockSize p" using hb l(9,10) r(8) by simp_all
    moreover have "p_Increment p \<noteq> 0 \<and> h_grant h (h_calls h)" using l(3,4) Cons by simp
    ultimately show ?thesis using r(4) by (auto intro!: exI [of _ as])
  qed
qed


section \<open>The manager\<close>

text \<open>
  The invariant: some assignment of free lists to the pools satisfies every pool, the pools
  are strictly sorted, their sizes are servable, and the block ranges are disjoint.
\<close>

definition lists_ok :: "memmgr \<Rightarrow> addr list list \<Rightarrow> bool" where
  "lists_ok g xss \<longleftrightarrow> list_all2 (pool_ok (h_mem (g_heap g))) (g_Pools g) xss"

definition mm_ok :: "memmgr \<Rightarrow> bool" where
  "mm_ok g \<longleftrightarrow> (\<exists>xss. lists_ok g xss) \<and> sorted_wrt (<) (map p_BlockSize (g_Pools g)) \<and>
     (\<forall>p\<in>set (g_Pools g). size_ok (p_BlockSize p)) \<and>
     geom (sizes (h_mem (g_heap g))) (h_brk (g_heap g))"

definition deployed :: "memmgr \<Rightarrow> addr \<Rightarrow> bool" where
  "deployed g a = (case h_mem (g_heap g) a of None \<Rightarrow> False | Some b \<Rightarrow> Valid b)"

lemma PoolGet_Some:
  "PoolGet ps s = Some i \<Longrightarrow> i < length ps \<and> s \<le> p_BlockSize (ps ! i) \<and> (\<forall>j<i. p_BlockSize (ps ! j) < s)"
proof (induction ps arbitrary: i)
  case (Cons p ps)
  show ?case
  proof (cases "s \<le> p_BlockSize p")
    case False
    with Cons.prems obtain k where "PoolGet ps s = Some k" "i = Suc k" by auto
    with Cons.IH False show ?thesis by (auto simp: less_Suc_eq_0_disj)
  qed (use Cons.prems in auto)
qed simp

lemma PoolGet_None: "PoolGet ps s = None \<Longrightarrow> p \<in> set ps \<Longrightarrow> p_BlockSize p < s"
  by (induction ps) (auto split: if_splits)

lemma PoolGet_exact:
  assumes "sorted_wrt (<) (map p_BlockSize ps)" "i < length ps" "p_BlockSize (ps ! i) = s"
  shows "PoolGet ps s = Some i"
  using assms
proof (induction ps arbitrary: i)
  case (Cons p ps)
  show ?case
  proof (cases i)
    case (Suc k)
    then have "ps ! k \<in> set ps" using Cons.prems by simp
    then have "p_BlockSize p < s" using Cons.prems Suc by auto
    then show ?thesis using Cons.IH [of k] Cons.prems Suc by simp
  qed (use Cons.prems in simp)
qed simp

text \<open>
  A change to one pool's free blocks, or to fresh addresses, leaves the other pools' lists
  alone because their blocks have another size.
\<close>

lemma lists_ok_update:
  assumes L: "list_all2 (pool_ok m) ps xss" and i: "i < length ps"
    and sorted: "sorted_wrt (<) (map p_BlockSize ps)"
    and new: "pool_ok m' p' xs'" and t: "touched X m m'"
    and X: "\<And>a b. a \<in> X \<Longrightarrow> m a = Some b \<Longrightarrow> m_BlockSize b = p_BlockSize (ps ! i) \<or> Valid b"
  shows "list_all2 (pool_ok m') (ps[i := p']) (xss[i := xs'])"
proof (rule list_all2_all_nthI)
  show "length (ps[i := p']) = length (xss[i := xs'])" using L by (simp add: list_all2_lengthD)
  fix j assume j: "j < length (ps[i := p'])"
  have len: "length xss = length ps" using L by (simp add: list_all2_lengthD)
  show "pool_ok m' (ps[i := p'] ! j) (xss[i := xs'] ! j)"
  proof (cases "j = i")
    case True then show ?thesis using new i len by simp
  next
    case False
    have ok: "pool_ok m (ps ! j) (xss ! j)" using L j by (simp add: list_all2_nthD)
    have ne: "p_BlockSize (ps ! j) \<noteq> p_BlockSize (ps ! i)"
      using PoolGet_exact [OF sorted i refl] PoolGet_exact [OF sorted, of j] False j by auto
    have "m' a = m a" if "a \<in> set (xss ! j)" for a
    proof -
      from pool_ok_free [OF ok that] obtain b where "m a = Some b" "m_BlockSize b = p_BlockSize (ps ! j)" "\<not> Valid b"
        by (rule free_blockE)
      moreover from this have "a \<notin> X" using X [of a b] ne by auto
      ultimately show ?thesis using t by (simp add: touched_def)
    qed
    then show ?thesis using pool_ok_cong [OF ok] False j by simp
  qed
qed


definition client_write :: "memmgr \<Rightarrow> addr \<Rightarrow> addr option \<Rightarrow> memmgr" where
  "client_write g a l =
     (case h_mem (g_heap g) a of
        None \<Rightarrow> g
      | Some b \<Rightarrow> g\<lparr>g_heap := (g_heap g)\<lparr>h_mem := (h_mem (g_heap g))(a \<mapsto> b\<lparr>m_Link := l\<rparr>)\<rparr>\<rparr>)"

lemma touched_deployed:
  assumes "mm_ok g" "lists_ok g xss" "i < length (g_Pools g)" "touched (set (xss ! i)) (h_mem (g_heap g)) m'"
    "deployed g c"
  shows "m' c = h_mem (g_heap g) c"
proof -
  have ok: "pool_ok (h_mem (g_heap g)) (g_Pools g ! i) (xss ! i)"
    using assms(2,3) by (simp add: lists_ok_def list_all2_nthD)
  have "c \<notin> set (xss ! i)"
    using pool_ok_free [OF ok, of c] assms(5) by (auto simp: deployed_def free_block_def split: option.splits)
  then show ?thesis using assms(4,5) by (auto simp: touched_def deployed_def split: option.splits)
qed

text \<open>The block size that a request of \<open>n\<close> octets is served with.\<close>

definition served_size :: "memmgr \<Rightarrow> nat \<Rightarrow> nat" where
  "served_size g n = (case PoolGet (g_Pools g) n of Some i \<Rightarrow> p_BlockSize (g_Pools g ! i) | None \<Rightarrow> n)"

definition can_serve :: "memmgr \<Rightarrow> nat \<Rightarrow> bool" where
  "can_serve g n =
     (case PoolGet (g_Pools g) n of
        Some i \<Rightarrow> p_BlkHead (g_Pools g ! i) \<noteq> None \<or>
                  (p_Increment (g_Pools g ! i) \<noteq> 0 \<and> h_grant (g_heap g) (h_calls (g_heap g)))
      | None \<Rightarrow> h_grant (g_heap g) (h_calls (g_heap g)))"

lemma guard_on_ok:
  assumes L: "list_all2 (pool_ok m) ps xss" and a: "m a = Some b" and n: "\<forall>xs\<in>set xss. a \<notin> set xs"
  shows "list_all2 (pool_ok (m(a \<mapsto> f b))) ps xss"
  using L
proof (rule list.rel_mono_strong)
  fix p xs assume "xs \<in> set xss" "pool_ok m p xs"
  then show "pool_ok (m(a \<mapsto> f b)) p xs" using n by (auto elim!: pool_ok_cong)
qed

lemma lists_ok_fresh:
  assumes L: "list_all2 (pool_ok m) ps xss" and a: "m a = None"
  shows "list_all2 (pool_ok (m(a \<mapsto> b))) ps xss"
  using L
proof (rule list.rel_mono_strong)
  fix p xs assume ok: "pool_ok m p xs"
  then have "a \<notin> set xs" using pool_ok_free [OF ok, of a] a by (auto simp: free_block_def)
  then show "pool_ok (m(a \<mapsto> b)) p xs" by (auto intro: pool_ok_cong [OF ok])
qed

lemma get_ok:
  assumes inv: "mm_ok g" and n: "n + sizeof_MemBlock < 2 ^ 64"
  shows "if can_serve g n then
      \<exists>g' a. MemBlockGet g None n = Some (g', Some a, True) \<and> mm_ok g' \<and> \<not> deployed g a \<and>
        deployed g' a \<and> sizes (h_mem (g_heap g')) a = Some (served_size g n) \<and>
        (\<forall>c. deployed g c \<longrightarrow> h_mem (g_heap g') c = h_mem (g_heap g) c)
    else MemBlockGet g None n = None"
proof -
  let ?h = "g_heap g" and ?ps = "g_Pools g"
  from inv obtain xss where L: "list_all2 (pool_ok (h_mem ?h)) ?ps xss" by (auto simp: mm_ok_def lists_ok_def)
  have sorted: "sorted_wrt (<) (map p_BlockSize ?ps)" and geo: "geom (sizes (h_mem ?h)) (h_brk ?h)"
    and szs: "\<forall>p\<in>set ?ps. size_ok (p_BlockSize p)" using inv by (simp_all add: mm_ok_def)
  show ?thesis
  proof (cases "PoolGet ?ps n")
    case None
    have e: "(n + sizeof_MemBlock) mod 2 ^ 64 = n + sizeof_MemBlock" using n by (rule mod_less)
    show ?thesis
    proof (cases "h_grant ?h (h_calls ?h)")
      case False
      then show ?thesis using None
        by (simp add: MemBlockGet_def can_serve_def new_chars_eq)
    next
      case True
      define a where "a = h_brk ?h"
      define m' where "m' = (h_mem ?h)(a \<mapsto> GuardOn (MemBlock_new n))"
      define h' where "h' = ?h\<lparr>h_calls := Suc (h_calls ?h), h_brk := h_brk ?h + (n + sizeof_MemBlock), h_mem := m'\<rparr>"
      have fresh: "h_mem ?h a = None" using geom_fresh [OF geo, of a] by (simp add: a_def sizes_def)
      have eq: "MemBlockGet g None n = Some (g\<lparr>g_heap := h',
          g_DeployedCount := g_DeployedCount g + 1, g_DeployedSize := g_DeployedSize g + of_nat n\<rparr>, Some a, True)"
        unfolding MemBlockGet_def e using None True
        by (simp add: new_chars_eq upd_block_def h'_def m'_def a_def MemBlock_new_def)
      have "list_all2 (pool_ok m') ?ps xss"
        using L unfolding m'_def by (rule lists_ok_fresh) (rule fresh)
      moreover have "geom (sizes m') (h_brk h')"
        using geom_add [OF geo, of a n] by (simp add: m'_def h'_def sizes_upd a_def ac_simps)
      ultimately have "mm_ok (g\<lparr>g_heap := h', g_DeployedCount := g_DeployedCount g + 1,
          g_DeployedSize := g_DeployedSize g + of_nat n\<rparr>)"
        using sorted szs by (auto simp: mm_ok_def lists_ok_def h'_def)
      then show ?thesis using eq fresh None True
        by (auto simp: can_serve_def deployed_def h'_def m'_def sizes_upd served_size_def split: option.splits)
    qed
  next
    case (Some i)
    let ?p = "?ps ! i" and ?xs = "xss ! i"
    from PoolGet_Some [OF Some] have i: "i < length ?ps" by simp
    have ok: "pool_ok (h_mem ?h) ?p ?xs" using L i by (simp add: list_all2_nthD)
    have so: "size_ok (p_BlockSize ?p)" using szs i by simp
    have hd: "(p_BlkHead ?p \<noteq> None) = (?xs \<noteq> [])"
      using is_chain_head [of "h_mem ?h" "p_BlkHead ?p" ?xs] ok by (simp add: pool_ok_def)
    from pool_get_ok [OF ok geo so, of None] obtain h' p' r rv xs' where
      G: "MemPool_MemBlockGet ?h ?p None = Some (h', p', r, rv)" "pool_ok (h_mem h') p' xs'"
        "geom (sizes (h_mem h')) (h_brk h')" "touched (set ?xs) (h_mem ?h) (h_mem h')"
        "p_BlockSize p' = p_BlockSize ?p"
        "rv = (?xs \<noteq> [] \<or> (p_Increment ?p \<noteq> 0 \<and> h_grant ?h (h_calls ?h)))"
        "if rv then \<exists>a. r = Some a \<and> a \<notin> set xs' \<and> free_block (h_mem h') (p_BlockSize ?p) a \<and>
                  (a \<in> set ?xs \<or> h_mem ?h a = None) else r = None" by blast
    show ?thesis
    proof (cases rv)
      case False
      then show ?thesis using Some G(1,6,7) hd by (simp add: MemBlockGet_def can_serve_def)
    next
      case True
      with G(7) obtain a b where a: "r = Some a" "a \<notin> set xs'" "h_mem h' a = Some b"
        "m_BlockSize b = p_BlockSize ?p" "\<not> Valid b" "a \<in> set ?xs \<or> h_mem ?h a = None"
        by (auto elim: free_blockE)
      define m' where "m' = (h_mem h')(a \<mapsto> GuardOn b)"
      define g' where "g' = g\<lparr>g_heap := h'\<lparr>h_mem := m'\<rparr>, g_Pools := ?ps[i := p'],
        g_DeployedCount := g_DeployedCount g + 1, g_DeployedSize := g_DeployedSize g + of_nat (p_BlockSize ?p)\<rparr>"
      have eq: "MemBlockGet g None n = Some (g', Some a, True)"
        using Some G(1) True a by (simp add: MemBlockGet_def upd_block_def g'_def m'_def)
      have tch: "touched (set ?xs \<union> {a}) (h_mem ?h) m'" using G(4) by (auto simp: touched_def m'_def)
      have "pool_ok m' p' xs'" by (rule pool_ok_cong [OF G(2)]) (use a in \<open>auto simp: m'_def\<close>)
      then have "list_all2 (pool_ok m') (?ps[i := p']) (xss[i := xs'])"
        by (rule lists_ok_update [OF L i sorted _ tch])
          (use a(6) in \<open>auto dest: pool_ok_size [OF ok]\<close>)
      moreover have "sizes m' = sizes (h_mem h')" unfolding m'_def using a(3) by (simp add: sizes_same)
      moreover have "map p_BlockSize (?ps[i := p']) = map p_BlockSize ?ps"
        using G(5) i by (simp add: map_update list_update_same_conv)
      moreover have "\<forall>p\<in>set (?ps[i := p']). size_ok (p_BlockSize p)"
        using szs G(5) so set_update_subset_insert [of ?ps i p'] by auto
      ultimately have "mm_ok g'" using G(3) sorted by (auto simp: mm_ok_def lists_ok_def g'_def)
      moreover have nd: "\<not> deployed g a"
        using a(6) pool_ok_free [OF ok, of a] by (auto simp: deployed_def free_block_def split: option.splits)
      moreover have "deployed g' a" "sizes (h_mem (g_heap g')) a = Some (served_size g n)"
        using a Some by (simp_all add: deployed_def g'_def m'_def sizes_def served_size_def)
      moreover have "h_mem (g_heap g') c = h_mem ?h c" if "deployed g c" for c
        using that nd touched_deployed [OF inv, of xss i "h_mem h'" c] L i G(4)
        by (auto simp: g'_def m'_def lists_ok_def)
      moreover have "can_serve g n" using Some G(6) True hd by (auto simp: can_serve_def)
      ultimately show ?thesis using eq by auto
    qed
  qed
qed


lemma lists_ok_except:
  assumes L: "list_all2 (pool_ok m) ps xss" and n: "\<And>xs. xs \<in> set xss \<Longrightarrow> a \<notin> set xs"
    and e: "\<And>c. c \<noteq> a \<Longrightarrow> m' c = m c"
  shows "list_all2 (pool_ok m') ps xss"
  using L
proof (rule list.rel_mono_strong)
  fix p xs assume xs: "xs \<in> set xss" and ok: "pool_ok m p xs"
  have "m' c = m c" if "c \<in> set xs" for c using that n [OF xs] e [of c] by auto
  then show "pool_ok m' p xs" by (rule pool_ok_cong [OF ok])
qed

lemma put_mm_ok:
  assumes inv: "mm_ok g" and d: "deployed g a"
  shows "\<exists>g' r s. MemBlockPut g (Some a) = Some (g', r, r = None) \<and> mm_ok g' \<and>
    sizes (h_mem (g_heap g)) a = Some s \<and> (r = None) = (s \<in> p_BlockSize ` set (g_Pools g) \<or> PoolGet (g_Pools g) s = None) \<and>
    (r = None \<or> r = Some a) \<and> \<not> deployed g' a \<and>
    (\<forall>c. c \<noteq> a \<longrightarrow> deployed g c \<longrightarrow> h_mem (g_heap g') c = h_mem (g_heap g) c)"
proof -
  let ?h = "g_heap g" and ?ps = "g_Pools g"
  from inv obtain xss where L: "list_all2 (pool_ok (h_mem ?h)) ?ps xss" by (auto simp: mm_ok_def lists_ok_def)
  have sorted: "sorted_wrt (<) (map p_BlockSize ?ps)" and geo: "geom (sizes (h_mem ?h)) (h_brk ?h)"
    and szs: "\<forall>p\<in>set ?ps. size_ok (p_BlockSize p)" using inv by (simp_all add: mm_ok_def)
  from d obtain b where b: "h_mem ?h a = Some b" "Valid b" by (auto simp: deployed_def split: option.splits)
  have na: "a \<notin> set xs" if "xs \<in> set xss" for xs
  proof -
    from that L obtain p where ok: "pool_ok (h_mem ?h) p xs" by (auto simp: list_all2_conv_all_nth in_set_conv_nth)
    show ?thesis using pool_ok_free [OF ok, of a] b by (auto simp: free_block_def)
  qed
  let ?h1 = "?h\<lparr>h_mem := (h_mem ?h)(a \<mapsto> GuardOff b)\<rparr>"
  have up: "upd_block ?h a GuardOff = Some ?h1" using b by (simp add: upd_block_def)
  have L1: "list_all2 (pool_ok (h_mem ?h1)) ?ps xss"
    using guard_on_ok [OF L b(1), of GuardOff] na by simp
  have sz1: "sizes (h_mem ?h1) = sizes (h_mem ?h)" using b by (simp add: sizes_same)
  show ?thesis
  proof (cases "PoolGet ?ps (m_BlockSize b)")
    case None
    define g' where "g' = g\<lparr>g_heap := ?h1\<lparr>h_mem := (h_mem ?h1)(a := None)\<rparr>,
      g_ReturnedCount := g_ReturnedCount g + 1, g_DeployedSize := g_DeployedSize g - of_nat (m_BlockSize b)\<rparr>"
    have eq: "MemBlockPut g (Some a) = Some (g', None, True)"
      using None b up by (simp add: MemBlockPut_def Let_def g'_def)
    have "list_all2 (pool_ok (h_mem (g_heap g'))) ?ps xss"
      by (rule lists_ok_except [OF L na]) (auto simp: g'_def)
    moreover have "geom (sizes (h_mem (g_heap g'))) (h_brk (g_heap g'))"
      using geom_remove [OF geo, of a] sz1 by (simp add: g'_def sizes_del)
    ultimately have "mm_ok g'" using sorted szs by (auto simp: mm_ok_def lists_ok_def g'_def)
    then show ?thesis using eq None b
      by (intro exI [of _ g'] exI [of _ None] exI [of _ "m_BlockSize b"])
        (simp add: g'_def deployed_def sizes_def)
  next
    case (Some i)
    let ?p = "?ps ! i" and ?xs = "xss ! i"
    from PoolGet_Some [OF Some] have i: "i < length ?ps" by simp
    show ?thesis
    proof (cases "m_BlockSize b = p_BlockSize ?p")
      case False
      define g' where "g' = g\<lparr>g_heap := ?h1, g_FailedPuts := g_FailedPuts g + 1\<rparr>"
      have eq: "MemBlockPut g (Some a) = Some (g', Some a, False)"
        using Some b up False by (simp add: MemBlockPut_def MemPool_MemBlockPut_def Let_def g'_def)
      have "m_BlockSize b \<notin> p_BlockSize ` set ?ps"
      proof
        assume "m_BlockSize b \<in> p_BlockSize ` set ?ps"
        then obtain j where "j < length ?ps" "p_BlockSize (?ps ! j) = m_BlockSize b"
          by (auto simp: in_set_conv_nth)
        with PoolGet_exact [OF sorted, of j] Some False show False by auto
      qed
      moreover have "mm_ok g'" using L1 sorted szs geo sz1 by (auto simp: mm_ok_def lists_ok_def g'_def)
      ultimately show ?thesis using eq Some b
        by (intro exI [of _ g'] exI [of _ "Some a"] exI [of _ "m_BlockSize b"])
          (simp add: g'_def deployed_def sizes_def)
    next
      case True
      have ok: "pool_ok (h_mem ?h1) ?p ?xs" using L1 i by (simp add: list_all2_nthD)
      have "?xs \<in> set xss" using L i by (simp add: list_all2_lengthD)
      then have nx: "a \<notin> set ?xs" by (rule na)
      from put_ok [OF ok, of a "GuardOff b"] True nx obtain h' p' where
        P: "MemPool_MemBlockPut ?h1 ?p (Some a) = Some (h', p', None, True)"
          "pool_ok (h_mem h') p' (?xs @ [a])" "sizes (h_mem h') = sizes (h_mem ?h1)"
          "touched (set ?xs \<union> {a}) (h_mem ?h1) (h_mem h')" "h' = ?h1\<lparr>h_mem := h_mem h'\<rparr>"
          "p_BlockSize p' = p_BlockSize ?p" by auto
      define g' where "g' = g\<lparr>g_heap := h', g_Pools := ?ps[i := p'],
        g_ReturnedCount := g_ReturnedCount g + 1, g_DeployedSize := g_DeployedSize g - of_nat (m_BlockSize b)\<rparr>"
      have eq: "MemBlockPut g (Some a) = Some (g', None, True)"
        using Some b up P(1) by (simp add: MemBlockPut_def Let_def g'_def)
      have hb: "h_brk h' = h_brk ?h" using P(5) by (metis heap.select_convs heap.surjective heap.update_convs)
      have "list_all2 (pool_ok (h_mem h')) (?ps[i := p']) (xss[i := ?xs @ [a]])"
        by (rule lists_ok_update [OF L1 i sorted P(2,4)])
          (use True pool_ok_size [OF ok] in \<open>auto split: if_splits\<close>)
      moreover have "map p_BlockSize (?ps[i := p']) = map p_BlockSize ?ps"
        using P(6) i by (simp add: map_update list_update_same_conv)
      moreover have "\<forall>p\<in>set (?ps[i := p']). size_ok (p_BlockSize p)"
        using szs P(6) i set_update_subset_insert [of ?ps i p'] by auto
      moreover have "geom (sizes (h_mem h')) (h_brk h')" using geo P(3) sz1 hb by simp
      ultimately have "mm_ok g'" using sorted by (auto simp: mm_ok_def lists_ok_def g'_def)
      moreover have "\<not> deployed g' a"
        using pool_ok_free [OF P(2), of a] by (auto simp: deployed_def free_block_def g'_def split: option.splits)
      moreover have "h_mem h' c = h_mem ?h c" if "c \<noteq> a" "deployed g c" for c
      proof -
        have "c \<notin> set ?xs" using pool_ok_free [OF ok, of c] that
          by (auto simp: deployed_def free_block_def split: option.splits if_splits)
        then show ?thesis using P(4) that by (auto simp: touched_def deployed_def split: option.splits)
      qed
      moreover have "m_BlockSize b \<in> p_BlockSize ` set ?ps" using True i by auto
      ultimately show ?thesis using eq b
        by (intro exI [of _ g'] exI [of _ None] exI [of _ "m_BlockSize b"])
          (auto simp: g'_def sizes_def)
    qed
  qed
qed


section \<open>Creation of pools\<close>

lemma scan_pools_Inl: "(scan_pools ps s i prev = Inl ()) = (s \<in> p_BlockSize ` set ps)"
  by (induction ps s i prev rule: scan_pools.induct) auto

lemma scan_pools_Inr:
  assumes "sorted_wrt (<) (map p_BlockSize ps)" "s \<notin> p_BlockSize ` set ps"
  shows "scan_pools ps s i prev =
    Inr (let n = length (takeWhile (\<lambda>p. p_BlockSize p < s) ps) in if n = 0 then prev else Some (i + n - 1))"
  using assms
proof (induction ps s i prev rule: scan_pools.induct)
  case (2 p ps s i prev)
  show ?case
  proof (cases "p_BlockSize p < s")
    case True
    with 2 show ?thesis by (simp add: Let_def image_iff)
  next
    case False
    with 2 have "takeWhile (\<lambda>p. p_BlockSize p < s) ps = []" by (cases ps) auto
    with 2 False show ?thesis by (simp add: image_iff)
  qed
qed simp

text \<open>The position that \<open>CreatePool\<close> finds keeps the list sorted.\<close>

definition insert_pool :: "mempool \<Rightarrow> mempool list \<Rightarrow> mempool list" where
  "insert_pool p ps = takeWhile (\<lambda>q. p_BlockSize q < p_BlockSize p) ps @
     p # dropWhile (\<lambda>q. p_BlockSize q < p_BlockSize p) ps"

lemma link_pool_insert:
  assumes "sorted_wrt (<) (map p_BlockSize ps)" "p_BlockSize p \<notin> p_BlockSize ` set ps"
    "scan_pools ps (p_BlockSize p) 0 None = Inr prev"
  shows "link_pool prev p ps = insert_pool p ps"
proof -
  let ?tw = "takeWhile (\<lambda>q. p_BlockSize q < p_BlockSize p) ps"
  have "prev = (if length ?tw = 0 then None else Some (length ?tw - 1))"
    using assms(3) by (simp add: scan_pools_Inr [OF assms(1,2)] Let_def split: if_splits)
  moreover have "take (length ?tw) ps = ?tw" "drop (length ?tw) ps = dropWhile (\<lambda>q. p_BlockSize q < p_BlockSize p) ps"
    by (simp_all add: takeWhile_eq_take [symmetric] dropWhile_eq_drop [symmetric])
  ultimately show ?thesis by (cases "?tw = []") (auto simp: link_pool_def insert_pool_def)
qed

lemma insert_pool_sorted:
  assumes "sorted_wrt (<) (map p_BlockSize ps)" "p_BlockSize p \<notin> p_BlockSize ` set ps"
  shows "sorted_wrt (<) (map p_BlockSize (insert_pool p ps))"
  using assms
proof (induction ps)
  case (Cons q ps)
  show ?case
  proof (cases "p_BlockSize q < p_BlockSize p")
    case True
    with Cons have "sorted_wrt (<) (map p_BlockSize (insert_pool p ps))" by auto
    moreover have "set (insert_pool p ps) = insert p (set ps)"
      unfolding insert_pool_def by (metis Un_insert_right list.simps(15) set_append takeWhile_dropWhile_id)
    ultimately show ?thesis using True Cons.prems by (auto simp: insert_pool_def)
  qed (use Cons.prems in \<open>auto simp: insert_pool_def\<close>)
qed (simp add: insert_pool_def)


lemma insert_pool_map:
  assumes "sorted_wrt (<) (map p_BlockSize ps)"
  shows "map p_BlockSize (insert_pool p ps) =
    filter (\<lambda>x. x < p_BlockSize p) (map p_BlockSize ps) @ p_BlockSize p #
    filter (\<lambda>x. \<not> x < p_BlockSize p) (map p_BlockSize ps)"
  using assms
proof (induction ps)
  case (Cons q ps)
  show ?case
  proof (cases "p_BlockSize q < p_BlockSize p")
    case True then show ?thesis using Cons by (simp add: insert_pool_def)
  next
    case False
    with Cons.prems have "\<forall>x\<in>set ps. \<not> p_BlockSize x < p_BlockSize p" by auto
    then show ?thesis using False by (auto simp: insert_pool_def filter_empty_conv filter_id_conv)
  qed
qed (simp add: insert_pool_def)

lemma create_ok:
  assumes inv: "mm_ok g" and s: "s0 < 2 ^ 31"
  defines "s \<equiv> max k_MinMemBlockSize s0"
  shows "\<exists>g' rv. CreatePool g s0 n k = Some (g', rv) \<and> mm_ok g' \<and>
    rv = (s \<notin> p_BlockSize ` set (g_Pools g) \<and> h_grant (g_heap g) (h_calls (g_heap g))) \<and>
    map p_BlockSize (g_Pools g') =
      (if rv then filter (\<lambda>x. x < s) (map p_BlockSize (g_Pools g)) @ s # filter (\<lambda>x. \<not> x < s) (map p_BlockSize (g_Pools g))
       else map p_BlockSize (g_Pools g)) \<and> h_grant (g_heap g') = h_grant (g_heap g) \<and>
    (\<forall>c. deployed g c \<longrightarrow> h_mem (g_heap g') c = h_mem (g_heap g) c)"
proof -
  let ?h = "g_heap g" and ?ps = "g_Pools g"
  from inv obtain xss where L: "list_all2 (pool_ok (h_mem ?h)) ?ps xss" by (auto simp: mm_ok_def lists_ok_def)
  have sorted: "sorted_wrt (<) (map p_BlockSize ?ps)" and geo: "geom (sizes (h_mem ?h)) (h_brk ?h)"
    and szs: "\<forall>p\<in>set ?ps. size_ok (p_BlockSize p)" using inv by (simp_all add: mm_ok_def)
  have smin: "(if s0 < k_MinMemBlockSize then k_MinMemBlockSize else s0) = s" by (simp add: s_def max_def)
  have so: "size_ok s" using s by (simp add: s_def k_MinMemBlockSize_def)
  show ?thesis
  proof (cases "s \<in> p_BlockSize ` set ?ps")
    case True
    then have "scan_pools ?ps s 0 None = Inl ()" by (simp add: scan_pools_Inl)
    then show ?thesis using True inv
      by (intro exI [of _ g] exI [of _ False]) (simp add: CreatePool_def smin Let_def)
  next
    case False
    then obtain prev where sc: "scan_pools ?ps s 0 None = Inr prev" using scan_pools_Inr [OF sorted False] by simp
    show ?thesis
    proof (cases "h_grant ?h (h_calls ?h)")
      case nog: False
      have "CreatePool g s0 n k = Some (g\<lparr>g_heap := ?h\<lparr>h_calls := Suc (h_calls ?h)\<rparr>\<rparr>, False)"
        using sc nog by (simp add: CreatePool_def smin Let_def new_chars_eq)
      moreover have "mm_ok (g\<lparr>g_heap := ?h\<lparr>h_calls := Suc (h_calls ?h)\<rparr>\<rparr>)"
        using L sorted szs geo by (auto simp: mm_ok_def lists_ok_def)
      ultimately show ?thesis using nog
        by (intro exI [of _ "g\<lparr>g_heap := ?h\<lparr>h_calls := Suc (h_calls ?h)\<rparr>\<rparr>"] exI [of _ False]) simp
    next
      case gr: True
      let ?h1 = "?h\<lparr>h_calls := Suc (h_calls ?h), h_brk := h_brk ?h + sizeof_MemPool\<rparr>"
      let ?p0 = "\<lparr>p_BlockSize = s, p_Increment = k, p_TotalBlocks = 0, p_Inventory = 0,
        p_PeakUsed = 0, p_Segs = [], p_BlkHead = None, p_BlkTail = None\<rparr>"
      have "pool_ok (h_mem ?h1) ?p0 []" by (simp add: pool_ok_def)
      moreover have "geom (sizes (h_mem ?h1)) (h_brk ?h1)" using geom_mono [OF geo] by simp
      ultimately obtain h' p ys where
        A: "MemPool_new ?h1 s n k = Some (h', p)" "pool_ok (h_mem h') p ys" "\<forall>a\<in>set ys. h_mem ?h a = None"
          "geom (sizes (h_mem h')) (h_brk h')" "touched {} (h_mem ?h) (h_mem h')" "p_BlockSize p = s"
          "h_grant h' = h_grant ?h"
      proof -
        assume "pool_ok (h_mem ?h1) ?p0 []" "geom (sizes (h_mem ?h1)) (h_brk ?h1)"
        from alloc_ok [OF this, of n] so obtain h' p ys rv where
          "AllocateSegment ?h1 ?p0 n = Some (h', p, rv)" "pool_ok (h_mem h') p ([] @ ys)"
          "\<forall>a\<in>set ys. h_mem ?h1 a = None" "geom (sizes (h_mem h')) (h_brk h')"
          "touched (set []) (h_mem ?h1) (h_mem h')" "h_grant h' = h_grant ?h1" "p_BlockSize p = p_BlockSize ?p0"
          by auto
        then show thesis by (intro that [of h' p ys]) (simp_all add: MemPool_new_def)
      qed
      define g' where "g' = g\<lparr>g_heap := h', g_Pools := insert_pool p ?ps\<rparr>"
      have "link_pool prev p ?ps = insert_pool p ?ps"
        by (rule link_pool_insert) (use sorted False sc A(6) in simp_all)
      then have eq: "CreatePool g s0 n k = Some (g', True)"
        using sc gr A(1) by (simp add: CreatePool_def smin Let_def new_chars_eq g'_def)
      have "list_all2 (pool_ok (h_mem h')) ?ps xss"
        using L
      proof (rule list.rel_mono_strong)
        fix q xs assume ok: "pool_ok (h_mem ?h) q xs"
        have "h_mem h' a = h_mem ?h a" if "a \<in> set xs" for a
          using pool_ok_free [OF ok that] A(5) by (auto simp: touched_def free_block_def split: option.splits)
        then show "pool_ok (h_mem h') q xs" by (rule pool_ok_cong [OF ok])
      qed
      moreover define t where "t = length (takeWhile (\<lambda>q. p_BlockSize q < p_BlockSize p) ?ps)"
      have ins: "insert_pool p ?ps = take t ?ps @ p # drop t ?ps"
        by (simp add: insert_pool_def t_def takeWhile_eq_take [symmetric] dropWhile_eq_drop [symmetric])
      ultimately have "list_all2 (pool_ok (h_mem h')) (insert_pool p ?ps) (take t xss @ ys # drop t xss)"
        using A(2) by (auto simp: ins intro!: list_all2_appendI)
      moreover have "sorted_wrt (<) (map p_BlockSize (insert_pool p ?ps))"
        by (rule insert_pool_sorted) (use sorted False A(6) in simp_all)
      moreover have "set (insert_pool p ?ps) = insert p (set ?ps)"
        unfolding insert_pool_def by (metis Un_insert_right list.simps(15) set_append takeWhile_dropWhile_id)
      ultimately have "mm_ok g'" using A(4,6) szs so by (auto simp: mm_ok_def lists_ok_def g'_def)
      moreover have "map p_BlockSize (insert_pool p ?ps) =
        filter (\<lambda>x. x < s) (map p_BlockSize ?ps) @ s # filter (\<lambda>x. \<not> x < s) (map p_BlockSize ?ps)"
        using insert_pool_map [OF sorted] A(6) by simp
      moreover have "h_mem h' c = h_mem ?h c" if "deployed g c" for c
        using that A(5) by (auto simp: touched_def deployed_def split: option.splits)
      ultimately show ?thesis using eq False gr A(7) by (auto simp: g'_def)
    qed
  qed
qed

section \<open>Reachable states\<close>

text \<open>
  One step of the manager's life: pool creation, a request (with a NULL pointer to fill, as
  every caller in the library passes it), the return of a deployed block or of a pointer whose
  guard is already off, and a client's write into the first octets of a deployed block.
\<close>

inductive mm_step :: "memmgr \<Rightarrow> memmgr \<Rightarrow> bool" where
  create: "s < 2 ^ 31 \<Longrightarrow> CreatePool g s n k = Some (g', rv) \<Longrightarrow> mm_step g g'"
| get: "n + sizeof_MemBlock < 2 ^ 64 \<Longrightarrow> MemBlockGet g None n = Some (g', r, rv) \<Longrightarrow> mm_step g g'"
| put: "MemBlockPut g (Some a) = Some (g', r, rv) \<Longrightarrow> mm_step g g'"
| client: "deployed g a \<Longrightarrow> mm_step g (client_write g a l)"

inductive mm_reach :: "memmgr \<Rightarrow> bool" where
  init: "mm_reach (empty_mgr (start_heap grant))"
| step: "mm_reach g \<Longrightarrow> mm_step g g' \<Longrightarrow> mm_reach g'"

inductive_cases mm_stepE: "mm_step g g'"

lemma client_ok:
  assumes inv: "mm_ok g" and d: "deployed g a"
  shows "mm_ok (client_write g a l)"
proof -
  from d obtain b where b: "h_mem (g_heap g) a = Some b" "Valid b" by (auto simp: deployed_def split: option.splits)
  from inv obtain xss where L: "list_all2 (pool_ok (h_mem (g_heap g))) (g_Pools g) xss"
    by (auto simp: mm_ok_def lists_ok_def)
  have "a \<notin> set xs" if "xs \<in> set xss" for xs
  proof -
    from that L obtain p where ok: "pool_ok (h_mem (g_heap g)) p xs"
      by (auto simp: list_all2_conv_all_nth in_set_conv_nth)
    show ?thesis using pool_ok_free [OF ok, of a] b by (auto simp: free_block_def)
  qed
  from guard_on_ok [OF L b(1), of "\<lambda>x. x\<lparr>m_Link := l\<rparr>"] this
  have "list_all2 (pool_ok ((h_mem (g_heap g))(a \<mapsto> b\<lparr>m_Link := l\<rparr>))) (g_Pools g) xss" by blast
  moreover have "sizes ((h_mem (g_heap g))(a \<mapsto> b\<lparr>m_Link := l\<rparr>)) = sizes (h_mem (g_heap g))"
    using b by (simp add: sizes_same)
  ultimately show ?thesis using inv b by (auto simp: mm_ok_def lists_ok_def client_write_def)
qed

lemma put_refused: "h_mem (g_heap g) a \<noteq> None \<Longrightarrow> \<not> deployed g a \<Longrightarrow> MemBlockPut g (Some a) = Some (g, Some a, False)"
  by (auto simp: MemBlockPut_def deployed_def Let_def split: option.splits)

lemma mm_step_ok: "mm_step g g' \<Longrightarrow> mm_ok g \<Longrightarrow> mm_ok g'"
proof (induction rule: mm_step.induct)
  case (create s g n k g' rv)
  then show ?case using create_ok [of g s n k] by auto
next
  case (get n g g' r rv)
  then show ?case using get_ok [of g n] by (auto split: if_splits)
next
  case (put g a g' r rv)
  show ?case
  proof (cases "deployed g a")
    case True
    then show ?thesis using put_mm_ok [OF put(2) True] put(1) by auto
  next
    case False
    moreover have "h_mem (g_heap g) a \<noteq> None"
      using put(1) by (cases "h_mem (g_heap g) a") (auto simp: MemBlockPut_def)
    ultimately show ?thesis using put put_refused [of g a] by simp
  qed
next
  case (client g a l)
  then show ?case by (simp add: client_ok)
qed

lemma empty_mgr_ok: "mm_ok (empty_mgr (start_heap grant))"
  by (simp add: mm_ok_def lists_ok_def empty_mgr_def start_heap_def geom_def sizes_def)

lemma mm_reach_inv: "mm_reach g \<Longrightarrow> mm_ok g"
  by (induction rule: mm_reach.induct) (auto intro: mm_step_ok empty_mgr_ok)


lemma deployed_sizes: "deployed g a \<Longrightarrow> \<exists>s. sizes (h_mem (g_heap g)) a = Some s"
  by (auto simp: deployed_def sizes_def split: option.splits)

lemma served_size_ge: "n \<le> served_size g n"
  using PoolGet_Some [of "g_Pools g" n] by (auto simp: served_size_def split: option.splits)

lemma create_pools_ok:
  assumes "mm_ok g" "\<forall>k. h_grant (g_heap g) k"
    "sorted_wrt (<) (map p_BlockSize (g_Pools g) @ map fst cfg)"
    "\<forall>c\<in>set cfg. size_ok (fst c)"
  shows "\<exists>g'. create_pools g cfg = Some g' \<and> mm_ok g' \<and>
    map p_BlockSize (g_Pools g') = map p_BlockSize (g_Pools g) @ map fst cfg"
  using assms
proof (induction cfg arbitrary: g)
  case (Cons c cfg)
  obtain s n k where c: "c = (s, n, k)" by (cases c)
  have lt: "\<forall>x\<in>set (map p_BlockSize (g_Pools g)). x < s" using Cons.prems(3) c by (auto simp: sorted_wrt_append)
  have s: "size_ok s" using Cons.prems(4) c by simp
  then have mx: "max k_MinMemBlockSize s = s" by (simp add: max_def)
  from create_ok [OF Cons.prems(1), of s n k] s obtain g1 rv where
    c1: "CreatePool g s n k = Some (g1, rv)" "mm_ok g1"
      "rv = (s \<notin> p_BlockSize ` set (g_Pools g) \<and> h_grant (g_heap g) (h_calls (g_heap g)))"
      "map p_BlockSize (g_Pools g1) =
        (if rv then filter (\<lambda>x. x < s) (map p_BlockSize (g_Pools g)) @ s # filter (\<lambda>x. \<not> x < s) (map p_BlockSize (g_Pools g))
         else map p_BlockSize (g_Pools g))" "h_grant (g_heap g1) = h_grant (g_heap g)"
    unfolding mx by blast
  have "rv" using c1(3) lt Cons.prems(2) by auto
  moreover have "filter (\<lambda>x. x < s) (map p_BlockSize (g_Pools g)) = map p_BlockSize (g_Pools g)"
    "filter (\<lambda>x. \<not> x < s) (map p_BlockSize (g_Pools g)) = []"
    using lt by (simp_all add: filter_id_conv filter_empty_conv)
  ultimately have m: "map p_BlockSize (g_Pools g1) = map p_BlockSize (g_Pools g) @ [s]" using c1(4) by simp
  have "\<exists>g'. create_pools g1 cfg = Some g' \<and> mm_ok g' \<and>
      map p_BlockSize (g_Pools g') = map p_BlockSize (g_Pools g1) @ map fst cfg"
    by (rule Cons.IH) (use c1(2,5) m Cons.prems c in simp_all)
  then show ?case using c c1(1) m by simp
qed simp

section \<open>The manager as an allocator\<close>

text \<open>
  The interface the other components use: a request of \<open>n\<close> octets delivers the contents of a
  block (its size is the length) or is refused.
\<close>

locale allocator =
  fixes al :: "nat \<Rightarrow> octets option"
  assumes al_size: "al n = Some m \<Longrightarrow> n \<le> length m"

datatype mm_op = OpCreate nat u32 u32 | OpGet nat | OpPut addr | OpWrite addr "addr option"

text \<open>A manager after a history of operations; an operation outside its contract is skipped.\<close>

fun mgr_run :: "memmgr \<Rightarrow> mm_op list \<Rightarrow> memmgr" where
  "mgr_run g [] = g"
| "mgr_run g (OpCreate s n k # ops) =
     mgr_run (if s < 2 ^ 31 then (case CreatePool g s n k of Some (g', _) \<Rightarrow> g' | None \<Rightarrow> g) else g) ops"
| "mgr_run g (OpGet n # ops) =
     mgr_run (if n + sizeof_MemBlock < 2 ^ 64
       then (case MemBlockGet g None n of Some (g', _, _) \<Rightarrow> g' | None \<Rightarrow> g) else g) ops"
| "mgr_run g (OpPut a # ops) = mgr_run (case MemBlockPut g (Some a) of Some (g', _, _) \<Rightarrow> g' | None \<Rightarrow> g) ops"
| "mgr_run g (OpWrite a l # ops) = mgr_run (if deployed g a then client_write g a l else g) ops"

text \<open>
  The delivery of one request: the octets of raw memory in the delivered block's buffer.
  A size that overflows the address space with its header is refused here.
\<close>

definition mgr_alloc :: "memmgr \<Rightarrow> (addr \<Rightarrow> u8) \<Rightarrow> nat \<Rightarrow> octets option" where
  "mgr_alloc g mem n =
     (if n + sizeof_MemBlock < 2 ^ 64
      then (case MemBlockGet g None n of
              Some (g', Some a, True) \<Rightarrow>
                map_option (\<lambda>b. map mem [BuffGet a ..< BuffGet a + m_BlockSize b]) (h_mem (g_heap g') a)
            | _ \<Rightarrow> None)
      else None)"

lemma mgr_run_ok: "mm_ok g \<Longrightarrow> mm_ok (mgr_run g ops)"
proof (induction g ops rule: mgr_run.induct)
  case (2 g s n k ops)
  show ?case unfolding mgr_run.simps
    by (rule 2(1)) (use create_ok [OF 2(2), of s n k] 2(2) in \<open>auto split: option.splits\<close>)
next
  case (3 g n ops)
  show ?case unfolding mgr_run.simps
    by (rule 3(1)) (use get_ok [OF 3(2), of n] 3(2) in \<open>auto split: option.splits if_splits\<close>)
next
  case (4 g a ops)
  have "mm_ok (case MemBlockPut g (Some a) of Some (g', _, _) \<Rightarrow> g' | None \<Rightarrow> g)"
    using 4(2) mm_step.put [of g a] mm_step_ok [of g] by (auto split: option.splits)
  then show ?case using 4 by simp
next
  case (5 g a l ops)
  then show ?case by (auto simp: client_ok)
qed simp

lemma mgr_alloc_size: "mm_ok g \<Longrightarrow> mgr_alloc g mem n = Some m \<Longrightarrow> n \<le> length m"
  using get_ok [of g n] served_size_ge [of n g]
  by (auto simp: mgr_alloc_def sizes_def split: if_splits option.splits bool.splits)

interpretation mgr: allocator "mgr_alloc (mgr_run (empty_mgr (start_heap grant)) ops) mem" for grant ops mem
  by unfold_locales (rule mgr_alloc_size [OF mgr_run_ok [OF empty_mgr_ok]])

abbreviation hist_alloc :: "(nat \<Rightarrow> bool) \<Rightarrow> mm_op list \<Rightarrow> (addr \<Rightarrow> u8) \<Rightarrow> nat \<Rightarrow> octets option" where
  "hist_alloc grant ops mem \<equiv> mgr_alloc (mgr_run (empty_mgr (start_heap grant)) ops) mem"

lemma hist_alloc_first:
  "n < 2 ^ 32 \<Longrightarrow> mgr_alloc (empty_mgr (start_heap (\<lambda>_. True))) mem n = Some (map mem [0x1010 ..< 0x1010 + n])"
  by (simp add: mgr_alloc_def MemBlockGet_def empty_mgr_def start_heap_def new_chars_eq upd_block_def
      sizeof_MemBlock_def BuffGet_def)

section \<open>Properties\<close>

text \<open>C6. Every state the manager can reach satisfies the invariant: each pool's free list is a
  chain of distinct, undeployed blocks of the pool's size whose length is the inventory counter,
  the pools are strictly sorted by size, and no two block ranges overlap.\<close>
theorem mm_reach_ok: "mm_reach g \<Longrightarrow> mm_ok g"
  by (rule mm_reach_inv)

theorem mm_reach_ok_witness:
  "\<exists>g. CreatePool (empty_mgr (start_heap (\<lambda>_. True))) 32 3 1 = Some (g, True) \<and>
    map p_BlockSize (g_Pools g) = [32] \<and> mm_ok g"
proof -
  let ?E = "empty_mgr (start_heap (\<lambda>_. True))"
  from create_ok [OF empty_mgr_ok, of 32 "\<lambda>_. True" 3 1] obtain g where
    c: "CreatePool ?E 32 3 1 = Some (g, True)" "map p_BlockSize (g_Pools g) = [32]"
    by (auto simp: empty_mgr_def start_heap_def k_MinMemBlockSize_def)
  have "mm_step ?E g" by (rule mm_step.create [OF _ c(1)]) simp
  then have "mm_ok g" by (rule mm_reach_ok [OF mm_reach.step [OF mm_reach.init]])
  with c show ?thesis by auto
qed

text \<open>C5. A request that a pool or the heap can serve delivers a block that was not deployed,
  is marked deployed, is at least as large as the request, overlaps no deployed block, and
  leaves every deployed block untouched.\<close>
theorem MemBlockGet_delivers:
  assumes "mm_reach g" "n + sizeof_MemBlock < 2 ^ 64" "can_serve g n"
  shows "\<exists>g' a. MemBlockGet g None n = Some (g', Some a, True) \<and> \<not> deployed g a \<and> deployed g' a \<and>
    sizes (h_mem (g_heap g')) a = Some (served_size g n) \<and> n \<le> served_size g n \<and>
    (\<forall>c s. deployed g c \<longrightarrow> sizes (h_mem (g_heap g)) c = Some s \<longrightarrow>
       h_mem (g_heap g') c = h_mem (g_heap g) c \<and>
       (BuffGet c + s \<le> a \<or> BuffGet a + served_size g n \<le> c))"
proof -
  from get_ok [OF mm_reach_inv [OF assms(1)] assms(2)] assms(3) obtain g' a where
    r: "MemBlockGet g None n = Some (g', Some a, True)" "mm_ok g'" "\<not> deployed g a" "deployed g' a"
      "sizes (h_mem (g_heap g')) a = Some (served_size g n)"
      "\<forall>c. deployed g c \<longrightarrow> h_mem (g_heap g') c = h_mem (g_heap g) c" by auto
  have "BuffGet c + s \<le> a \<or> BuffGet a + served_size g n \<le> c"
    if c: "deployed g c" "sizes (h_mem (g_heap g)) c = Some s" for c s
  proof -
    have "sizes (h_mem (g_heap g')) c = Some s" using r(6) c by (simp add: sizes_def)
    moreover have "c \<noteq> a" using c r(3) by auto
    ultimately show ?thesis using r(2,5) unfolding mm_ok_def geom_def BuffGet_def
      by (metis linorder_neqE_nat)
  qed
  then show ?thesis using r served_size_ge by blast
qed

theorem MemBlockGet_delivers_witness:
  "\<exists>g' a. MemBlockGet (empty_mgr (start_heap (\<lambda>_. True))) None 10 = Some (g', Some a, True) \<and> deployed g' a \<and>
    sizes (h_mem (g_heap g')) a = Some 10"
  using MemBlockGet_delivers [OF mm_reach.init, of 10 "\<lambda>_. True"]
  by (auto simp: can_serve_def empty_mgr_def start_heap_def sizeof_MemBlock_def served_size_def)

text \<open>A request that neither a pool nor the heap can serve is not reported as a failure: the
  manager sets the guard through the NULL block pointer (no result in the model).\<close>
theorem MemBlockGet_exhausted:
  assumes "mm_reach g" "n + sizeof_MemBlock < 2 ^ 64" "\<not> can_serve g n"
  shows "MemBlockGet g None n = None"
  using get_ok [OF mm_reach_inv [OF assms(1)] assms(2)] assms(3) by simp

theorem MemBlockGet_exhausted_witness:
  "MemBlockGet (empty_mgr (start_heap (\<lambda>_. False))) None 10 = None"
  by (rule MemBlockGet_exhausted [OF mm_reach.init])
    (simp_all add: can_serve_def empty_mgr_def start_heap_def sizeof_MemBlock_def)

text \<open>Requests are directed to the smallest sufficient pool, and to the heap exactly when no
  pool suffices.\<close>
theorem PoolGet_smallest:
  assumes "mm_reach g"
  shows "case PoolGet (g_Pools g) n of
      None \<Rightarrow> \<forall>q\<in>set (g_Pools g). p_BlockSize q < n
    | Some i \<Rightarrow> i < length (g_Pools g) \<and> n \<le> p_BlockSize (g_Pools g ! i) \<and>
        (\<forall>q\<in>set (g_Pools g). n \<le> p_BlockSize q \<longrightarrow> p_BlockSize (g_Pools g ! i) \<le> p_BlockSize q)"
proof (cases "PoolGet (g_Pools g) n")
  case (Some i)
  have sorted: "sorted_wrt (<) (map p_BlockSize (g_Pools g))"
    using mm_reach_inv [OF assms] by (simp add: mm_ok_def)
  have "p_BlockSize (g_Pools g ! i) \<le> p_BlockSize (g_Pools g ! j)"
    if "j < length (g_Pools g)" "n \<le> p_BlockSize (g_Pools g ! j)" for j
  proof -
    have "i \<le> j" using PoolGet_Some [OF Some] that by (meson leD leI)
    then show ?thesis using sorted that
      by (cases "i = j") (auto simp: sorted_wrt_iff_nth_less intro!: less_imp_le)
  qed
  then show ?thesis using Some PoolGet_Some [OF Some] by (auto simp: in_set_conv_nth)
qed (simp add: PoolGet_None)

theorem PoolGet_smallest_witness: "PoolGet (g_Pools (empty_mgr (start_heap (\<lambda>_. True)))) 5 = None"
  using PoolGet_smallest [OF mm_reach.init, of "\<lambda>_. True" 5] by (simp add: empty_mgr_def)


text \<open>Returning a deployed block succeeds exactly when its size is that of a pool or exceeds
  every pool; either way the guard goes off, so a second return of the same pointer is refused
  and changes nothing, and no other deployed block is touched.\<close>
theorem MemBlockPut_returns:
  assumes "mm_reach g" "deployed g a"
  shows "\<exists>g' r s. MemBlockPut g (Some a) = Some (g', r, r = None) \<and> sizes (h_mem (g_heap g)) a = Some s \<and>
    (r = None) = (s \<in> p_BlockSize ` set (g_Pools g) \<or> PoolGet (g_Pools g) s = None) \<and>
    \<not> deployed g' a \<and>
    (h_mem (g_heap g') a \<noteq> None \<longrightarrow> MemBlockPut g' (Some a) = Some (g', Some a, False)) \<and>
    (\<forall>c. c \<noteq> a \<longrightarrow> deployed g c \<longrightarrow> h_mem (g_heap g') c = h_mem (g_heap g) c)"
proof -
  from put_mm_ok [OF mm_reach_inv [OF assms(1)] assms(2)] obtain g' r s where
    p: "MemBlockPut g (Some a) = Some (g', r, r = None)" "sizes (h_mem (g_heap g)) a = Some s"
      "(r = None) = (s \<in> p_BlockSize ` set (g_Pools g) \<or> PoolGet (g_Pools g) s = None)" "\<not> deployed g' a"
      "\<forall>c. c \<noteq> a \<longrightarrow> deployed g c \<longrightarrow> h_mem (g_heap g') c = h_mem (g_heap g) c"
    by (elim exE conjE) (rule that)
  show ?thesis
    by (rule exI [of _ g'], rule exI [of _ r], rule exI [of _ s]) (use p put_refused [of g' a] in simp)
qed

text \<open>A manager without pools that delivers a block of 10 octets from the heap.\<close>

lemma demo_get:
  obtains g where "MemBlockGet (empty_mgr (start_heap (\<lambda>_. True))) None 10 = Some (g, Some 0x1000, True)"
    "mm_reach g" "deployed g 0x1000" "sizes (h_mem (g_heap g)) 0x1000 = Some 10" "g_Pools g = []"
    "h_grant (g_heap g) = (\<lambda>_. True)"
proof -
  let ?E = "empty_mgr (start_heap (\<lambda>_. True))"
  let ?G = "the (map_option fst (MemBlockGet ?E None 10))"
  have "MemBlockGet ?E None 10 = Some (?G, Some 0x1000, True) \<and> deployed ?G 0x1000 \<and>
      sizes (h_mem (g_heap ?G)) 0x1000 = Some 10 \<and> g_Pools ?G = [] \<and> h_grant (g_heap ?G) = (\<lambda>_. True)"
    by (simp add: MemBlockGet_def empty_mgr_def start_heap_def new_chars_eq upd_block_def sizeof_MemBlock_def
        deployed_def sizes_def)
  moreover from this have "mm_reach ?G"
    using mm_reach.step [OF mm_reach.init mm_step.get, of 10 "\<lambda>_. True" ?G "Some 0x1000" True]
    by (simp add: sizeof_MemBlock_def)
  ultimately show thesis using that by blast
qed

theorem MemBlockPut_returns_witness:
  "\<exists>g g'. MemBlockGet (empty_mgr (start_heap (\<lambda>_. True))) None 10 = Some (g, Some 0x1000, True) \<and>
    MemBlockPut g (Some 0x1000) = Some (g', None, True) \<and> \<not> deployed g' 0x1000"
proof -
  from demo_get obtain g where g: "MemBlockGet (empty_mgr (start_heap (\<lambda>_. True))) None 10 = Some (g, Some 0x1000, True)"
    "mm_reach g" "deployed g 0x1000" "sizes (h_mem (g_heap g)) 0x1000 = Some 10" "g_Pools g = []" by metis
  from MemBlockPut_returns [OF g(2,3)] g(4,5) obtain g' where
    "MemBlockPut g (Some 0x1000) = Some (g', None, True)" "\<not> deployed g' 0x1000" by auto
  with g(1) show ?thesis by blast
qed

text \<open>A block that came from the heap is lost once a pool larger than it exists: its return is
  refused after its guard has been taken off, so no later return can succeed.\<close>
theorem MemBlockPut_custom_lost:
  assumes "mm_reach g" "deployed g a" "sizes (h_mem (g_heap g)) a = Some s"
    "s \<notin> p_BlockSize ` set (g_Pools g)" "PoolGet (g_Pools g) s = Some i"
  shows "\<exists>g'. MemBlockPut g (Some a) = Some (g', Some a, False) \<and>
    MemBlockPut g' (Some a) = Some (g', Some a, False)"
proof -
  from put_mm_ok [OF mm_reach_inv [OF assms(1)] assms(2)] assms(3-5) obtain g' where
    "MemBlockPut g (Some a) = Some (g', Some a, False)" "\<not> deployed g' a" by auto
  moreover obtain b where "h_mem (g_heap g) a = Some b" "Valid b"
    using assms(2) by (auto simp: deployed_def split: option.splits)
  ultimately have "h_mem (g_heap g') a \<noteq> None"
    using assms(3-5) PoolGet_Some [OF assms(5)]
    by (cases "m_BlockSize b = p_BlockSize (g_Pools g ! i)")
      (auto simp: MemBlockPut_def MemPool_MemBlockPut_def Let_def upd_block_def sizes_def)
  with put_refused \<open>\<not> deployed g' a\<close> \<open>MemBlockPut g (Some a) = Some (g', Some a, False)\<close> show ?thesis by blast
qed

theorem MemBlockPut_custom_lost_witness:
  "\<exists>g g1 g2. MemBlockGet (empty_mgr (start_heap (\<lambda>_. True))) None 10 = Some (g, Some 0x1000, True) \<and>
    CreatePool g 64 1 1 = Some (g1, True) \<and> MemBlockPut g1 (Some 0x1000) = Some (g2, Some 0x1000, False)"
proof -
  from demo_get obtain g where g: "MemBlockGet (empty_mgr (start_heap (\<lambda>_. True))) None 10 = Some (g, Some 0x1000, True)"
    "mm_reach g" "deployed g 0x1000" "sizes (h_mem (g_heap g)) 0x1000 = Some 10" "g_Pools g = []"
    "h_grant (g_heap g) = (\<lambda>_. True)" by metis
  from create_ok [OF mm_reach_inv [OF g(2)], of 64 1 1] g(3,5,6) obtain g1 where
    c: "CreatePool g 64 1 1 = Some (g1, True)" "map p_BlockSize (g_Pools g1) = [64]"
      "h_mem (g_heap g1) 0x1000 = h_mem (g_heap g) 0x1000"
    by (auto simp: k_MinMemBlockSize_def)
  have r: "mm_reach g1" by (rule mm_reach.step [OF g(2) mm_step.create [OF _ c(1)]]) simp
  have "deployed g1 0x1000" "sizes (h_mem (g_heap g1)) 0x1000 = Some 10"
    using g(3,4) c(3) by (simp_all add: deployed_def sizes_def)
  moreover from c(2) obtain p where "g_Pools g1 = [p]" "p_BlockSize p = 64" by auto
  ultimately obtain g2 where "MemBlockPut g1 (Some 0x1000) = Some (g2, Some 0x1000, False)"
    using MemBlockPut_custom_lost [OF r, of "0x1000" 10 0] by auto
  with g(1) c(1) show ?thesis by blast
qed


text \<open>\<open>CreatePool\<close> refuses a size that exists (after raising it to the minimum), and otherwise
  inserts the pool at its sorted position; deployed blocks are untouched.\<close>
theorem CreatePool_inserts:
  assumes "mm_reach g" "s0 < 2 ^ 31"
  shows "\<exists>g' rv. CreatePool g s0 n k = Some (g', rv) \<and>
    rv = (max k_MinMemBlockSize s0 \<notin> p_BlockSize ` set (g_Pools g) \<and> h_grant (g_heap g) (h_calls (g_heap g))) \<and>
    map p_BlockSize (g_Pools g') =
      (if rv then filter (\<lambda>x. x < max k_MinMemBlockSize s0) (map p_BlockSize (g_Pools g)) @
          max k_MinMemBlockSize s0 # filter (\<lambda>x. \<not> x < max k_MinMemBlockSize s0) (map p_BlockSize (g_Pools g))
       else map p_BlockSize (g_Pools g)) \<and>
    (\<forall>c. deployed g c \<longrightarrow> h_mem (g_heap g') c = h_mem (g_heap g) c)"
  using create_ok [OF mm_reach_inv [OF assms(1)] assms(2), of n k] by blast

theorem CreatePool_inserts_witness:
  "\<exists>g'. CreatePool (empty_mgr (start_heap (\<lambda>_. True))) 5 2 1 = Some (g', True) \<and> map p_BlockSize (g_Pools g') = [16]"
  using CreatePool_inserts [OF mm_reach.init, of 5 "\<lambda>_. True" 2 1]
  by (auto simp: empty_mgr_def start_heap_def k_MinMemBlockSize_def)

text \<open>The constructed manager has the six standard pools in order and its state satisfies the invariant.\<close>
theorem MemManager_new_pools:
  "\<exists>g. MemManager_new (start_heap (\<lambda>_. True)) = Some g \<and> mm_ok g \<and>
    map p_BlockSize (g_Pools g) = [16, 64, 256, 1024, 4096, 16384]"
  using create_pools_ok [OF empty_mgr_ok, of "\<lambda>_. True"
      "[(16, 256, 256), (64, 128, 128), (256, 64, 64), (1024, 32, 32), (4096, 16, 16), (16384, 8, 8)]"]
  unfolding MemManager_new_def by (simp add: empty_mgr_def start_heap_def k_MinMemBlockSize_def)

end
