(* ===== verification/Buffer.thy ===== *)
theory Buffer
  imports Bits MemMgrInv
begin

text \<open>
  \<open>cpBuffer\<close>: a buffer owns at most one block of the memory manager and the length of the data
  in it. The block is its octets; NULL is \<open>None\<close>. An operation that acquires memory takes the
  manager's delivery \<open>al\<close> as an argument; the header's value of a returned block is not needed
  any more, so a return is the loss of the block. A pointer argument that comes with its length
  is one optional octet list. The client lemmas are proved in the \<open>allocator\<close> interface.
\<close>

section \<open>Operations\<close>

record buffer =
  m_PtrBlock :: "octets option"
  m_DataLen :: nat

definition Buf_null :: buffer where
  "Buf_null = \<lparr>m_PtrBlock = None, m_DataLen = 0\<rparr>"

definition Buf_IsValid :: "buffer \<Rightarrow> bool" where
  "Buf_IsValid b = (m_PtrBlock b \<noteq> None)"

definition Buf_LenGet :: "buffer \<Rightarrow> nat" where
  "Buf_LenGet b = m_DataLen b"

definition Buf_Size :: "buffer \<Rightarrow> nat" where
  "Buf_Size b = (case m_PtrBlock b of None \<Rightarrow> 0 | Some m \<Rightarrow> length m)"

definition Buf_u_str :: "buffer \<Rightarrow> nat \<Rightarrow> octets option" where
  "Buf_u_str b Offset = map_option (drop Offset) (m_PtrBlock b)"

definition Buf_Crc32Get :: "buffer \<Rightarrow> u32" where
  "Buf_Crc32Get b =
     (if m_PtrBlock b \<noteq> None then CalcCrc32 (Buf_u_str b 0) (m_DataLen b) 0xffffffff else 0)"

text \<open>\<open>CopyOut\<close> bounds the copy by the block size, not by the data length.\<close>

definition Buf_CopyOut :: "buffer \<Rightarrow> octets option \<Rightarrow> octets option \<times> bool" where
  "Buf_CopyOut b pBuf =
     (case (pBuf, m_PtrBlock b) of
        (Some dst, Some m) \<Rightarrow> (Some (patch 0 (take (min (length m) (length dst)) m) dst), True)
      | _ \<Rightarrow> (pBuf, False))"

definition Buf_Clear :: "u8 \<Rightarrow> buffer \<Rightarrow> buffer" where
  "Buf_Clear Val b =
     b\<lparr>m_PtrBlock := map_option (\<lambda>m. replicate (length m) Val) (m_PtrBlock b), m_DataLen := 0\<rparr>"

definition Buf_LenSet :: "nat \<Rightarrow> buffer \<Rightarrow> buffer" where
  "Buf_LenSet Len b =
     b\<lparr>m_DataLen := (case m_PtrBlock b of None \<Rightarrow> 0 | Some m \<Rightarrow> if Len < length m then Len else length m)\<rparr>"

definition Buf_Resize :: "(nat \<Rightarrow> octets option) \<Rightarrow> nat \<Rightarrow> buffer \<Rightarrow> buffer \<times> bool" where
  "Buf_Resize al NewSize b =
     (if m_PtrBlock b \<noteq> None \<and> Buf_Size b \<ge> NewSize \<and> NewSize > 0 \<and> Buf_Size b div NewSize < 2
      then (b, True)
      else
        let b1 = b\<lparr>m_PtrBlock := None\<rparr>;
            b2 = (if NewSize > 0 then b1\<lparr>m_PtrBlock := al NewSize\<rparr> else b1);
            b3 = Buf_Clear 0 b2
        in (b3, m_PtrBlock b3 \<noteq> None \<or> NewSize = 0))"

definition Buf_new :: "(nat \<Rightarrow> octets option) \<Rightarrow> nat \<Rightarrow> buffer" where
  "Buf_new al Size = fst (Buf_Resize al Size Buf_null)"

definition Buf_CopyIn :: "(nat \<Rightarrow> octets option) \<Rightarrow> octets option \<Rightarrow> buffer \<Rightarrow> buffer \<times> bool" where
  "Buf_CopyIn al pBuf b =
     (case pBuf of
        None \<Rightarrow> (b, False)
      | Some src \<Rightarrow>
          (case Buf_Resize al (length src) b of
             (b1, True) \<Rightarrow>
               (b1\<lparr>m_PtrBlock := map_option (patch 0 src) (m_PtrBlock b1), m_DataLen := length src\<rparr>, True)
           | (b1, False) \<Rightarrow> (b1, False)))"

text \<open>\<open>XferMemBlk\<close>: the source afterwards, and the destination.\<close>

definition Buf_XferMemBlk :: "(nat \<Rightarrow> octets option) \<Rightarrow> buffer \<Rightarrow> buffer \<Rightarrow> buffer \<times> buffer" where
  "Buf_XferMemBlk al b Dest =
     (let Dest1 = fst (Buf_Resize al 0 Dest)
      in (b\<lparr>m_PtrBlock := None, m_DataLen := 0\<rparr>,
          Dest1\<lparr>m_PtrBlock := m_PtrBlock b, m_DataLen := m_DataLen b\<rparr>))"

definition Buf_GetMemBlk :: "buffer \<Rightarrow> buffer \<times> octets option" where
  "Buf_GetMemBlk b = (b\<lparr>m_PtrBlock := None, m_DataLen := 0\<rparr>, m_PtrBlock b)"

definition Buf_SetMemBlk :: "(nat \<Rightarrow> octets option) \<Rightarrow> octets option \<Rightarrow> buffer \<Rightarrow> buffer" where
  "Buf_SetMemBlk al pBlock b =
     (if pBlock \<noteq> None then (fst (Buf_Resize al 0 b))\<lparr>m_PtrBlock := pBlock\<rparr> else b)"

text \<open>Assignment from a distinct buffer.\<close>

definition Buf_assign :: "(nat \<Rightarrow> octets option) \<Rightarrow> buffer \<Rightarrow> buffer \<Rightarrow> buffer" where
  "Buf_assign al rhs b =
     (let size = m_DataLen rhs
      in case Buf_Resize al size b of
           (b1, False) \<Rightarrow> b1
         | (b1, True) \<Rightarrow>
             (case m_PtrBlock rhs of
                Some r \<Rightarrow>
                  if size > 0 \<and> length r \<ge> size
                  then b1\<lparr>m_PtrBlock := map_option (patch 0 (take size r)) (m_PtrBlock b1), m_DataLen := size\<rparr>
                  else b1\<lparr>m_DataLen := size\<rparr>
              | None \<Rightarrow> b1\<lparr>m_DataLen := size\<rparr>))"

text \<open>Assignment from a terminated string: the terminator is part of the data.\<close>

definition Buf_assign_cstr :: "(nat \<Rightarrow> octets option) \<Rightarrow> octets option \<Rightarrow> buffer \<Rightarrow> buffer" where
  "Buf_assign_cstr al rhs b =
     (case rhs of
        None \<Rightarrow> b
      | Some p \<Rightarrow>
          let size = length (cstr p) + 1
          in case Buf_Resize al size b of
               (b1, False) \<Rightarrow> b1
             | (b1, True) \<Rightarrow>
                 b1\<lparr>m_PtrBlock := map_option (patch 0 (cstr p @ [0])) (m_PtrBlock b1), m_DataLen := size\<rparr>)"

definition Buf_assign_String :: "(nat \<Rightarrow> octets option) \<Rightarrow> string \<Rightarrow> buffer \<Rightarrow> buffer" where
  "Buf_assign_String al rhs b = Buf_assign_cstr al (Some (to_octets rhs @ [0])) b"

section \<open>The data of a buffer and its invariant\<close>

definition buf_ok :: "buffer \<Rightarrow> bool" where
  "buf_ok b = (m_DataLen b \<le> Buf_Size b)"

definition buf_data :: "buffer \<Rightarrow> octets" where
  "buf_data b = (case m_PtrBlock b of None \<Rightarrow> [] | Some m \<Rightarrow> take (m_DataLen b) m)"

lemma Buf_null_ok [simp]: "buf_ok Buf_null" "buf_data Buf_null = []" "m_PtrBlock Buf_null = None"
  "m_DataLen Buf_null = 0"
  by (simp_all add: buf_ok_def Buf_null_def buf_data_def)

lemma Buf_LenSet_ok: "buf_ok (Buf_LenSet n b)"
  by (auto simp: buf_ok_def Buf_LenSet_def Buf_Size_def split: option.splits)

lemma Buf_Clear_ok: "buf_ok (Buf_Clear v b)" "buf_data (Buf_Clear v b) = []"
  by (auto simp: buf_ok_def Buf_Clear_def buf_data_def split: option.splits)

lemma Buf_Xfer_ok: "buf_ok b \<Longrightarrow> Buf_XferMemBlk al b d = (b', d') \<Longrightarrow>
    buf_ok b' \<and> buf_ok d' \<and> buf_data d' = buf_data b \<and> buf_data b' = []"
  by (auto simp: Buf_XferMemBlk_def buf_ok_def Buf_Size_def buf_data_def Let_def split: option.splits)

lemma Buf_GetMemBlk_ok: "buf_ok (fst (Buf_GetMemBlk b))"
  by (simp add: Buf_GetMemBlk_def buf_ok_def)

lemma Buf_SetMemBlk_ok: "buf_ok b \<Longrightarrow> buf_ok (Buf_SetMemBlk al m b)"
  by (auto simp: Buf_SetMemBlk_def buf_ok_def Buf_Resize_def Buf_Clear_def Let_def)

context allocator
begin

lemma Resize_cases:
  obtains (ok) b' where "Buf_Resize al n b = (b', True)" "n \<le> Buf_Size b'" "n = 0 \<or> m_PtrBlock b' \<noteq> None"
    "m_DataLen b' = m_DataLen b \<and> b' = b \<or> m_DataLen b' = 0"
  | (refused) "n > 0" "al n = None" "Buf_Resize al n b = (\<lparr>m_PtrBlock = None, m_DataLen = 0\<rparr>, False)"
proof (cases "m_PtrBlock b \<noteq> None \<and> Buf_Size b \<ge> n \<and> n > 0 \<and> Buf_Size b div n < 2")
  case True
  then show thesis using ok [of b] by (auto simp: Buf_Resize_def)
next
  case False
  show thesis
  proof (cases "n > 0 \<and> al n = None")
    case True
    then show thesis using refused False
      by (cases b) (auto simp: Buf_Resize_def Buf_Clear_def Let_def)
  next
    case nr: False
    define b' where "b' = Buf_Clear 0 (b\<lparr>m_PtrBlock := (if n > 0 then al n else None)\<rparr>)"
    have "Buf_Resize al n b = (b', True)"
      using False nr by (auto simp: Buf_Resize_def b'_def Buf_Clear_def Let_def)
    moreover have "n \<le> Buf_Size b'"
      using nr al_size by (auto simp: b'_def Buf_Clear_def Buf_Size_def split: option.splits)
    moreover have "n = 0 \<or> m_PtrBlock b' \<noteq> None" using nr by (auto simp: b'_def Buf_Clear_def)
    moreover have "m_DataLen b' = 0" by (simp add: b'_def Buf_Clear_def)
    ultimately show thesis using ok by blast
  qed
qed

lemma Resize_ok: "buf_ok b \<Longrightarrow> buf_ok (fst (Buf_Resize al n b))"
  by (rule Resize_cases [of n b]) (auto simp: buf_ok_def)

lemma Resize_size: "Buf_Resize al n b = (b', True) \<Longrightarrow> n \<le> Buf_Size b'"
  by (rule Resize_cases [of n b]) auto

lemma fill_ok:
  assumes "length src \<le> Buf_Size b" "src \<noteq> [] \<longrightarrow> m_PtrBlock b \<noteq> None"
  defines "b' \<equiv> b\<lparr>m_PtrBlock := map_option (patch 0 src) (m_PtrBlock b), m_DataLen := length src\<rparr>"
  shows "buf_ok b'" "buf_data b' = src" "Buf_Size b' = Buf_Size b"
  using assms by (auto simp: buf_ok_def Buf_Size_def buf_data_def take_patch_0 split: option.splits)

lemma CopyIn_ok: "buf_ok b \<Longrightarrow> buf_ok (fst (Buf_CopyIn al p b))"
proof (cases p)
  case (Some src)
  assume "buf_ok b"
  then show ?thesis
    by (rule_tac Resize_cases [of "length src" b])
      (use Some fill_ok(1) [of src] in \<open>auto simp: Buf_CopyIn_def buf_ok_def\<close>)
qed (simp add: Buf_CopyIn_def)

lemma CopyIn_data:
  "Buf_CopyIn al (Some src) b = (b', rv) \<Longrightarrow> rv \<Longrightarrow> buf_data b' = src \<and> buf_ok b'"
  by (rule Resize_cases [of "length src" b])
    (use fill_ok [of src] in \<open>auto simp: Buf_CopyIn_def\<close>)

lemma CopyIn_fails: "Buf_CopyIn al (Some src) b = (b', False) \<Longrightarrow> src \<noteq> [] \<and> al (length src) = None \<and> buf_data b' = []"
  by (rule Resize_cases [of "length src" b]) (auto simp: Buf_CopyIn_def buf_data_def)

lemma assign_ok: "buf_ok r \<Longrightarrow> buf_ok b \<Longrightarrow> buf_ok (Buf_assign al r b)"
  by (rule Resize_cases [of "m_DataLen r" b])
    (auto simp: Buf_assign_def buf_ok_def Buf_Size_def Let_def split: option.splits)

lemma assign_data:
  assumes "buf_ok r" "al (m_DataLen r) \<noteq> None"
  shows "buf_data (Buf_assign al r b) = buf_data r"
proof (rule Resize_cases [of "m_DataLen r" b])
  fix b1 assume b1: "Buf_Resize al (m_DataLen r) b = (b1, True)" "m_DataLen r \<le> Buf_Size b1"
    "m_DataLen r = 0 \<or> m_PtrBlock b1 \<noteq> None"
  show ?thesis
  proof (cases "m_DataLen r = 0")
    case True
    then show ?thesis using b1(1) by (auto simp: Buf_assign_def Let_def buf_data_def split: option.splits)
  next
    case False
    then obtain m where m: "m_PtrBlock r = Some m" "m_DataLen r \<le> length m"
      using assms(1) by (auto simp: buf_ok_def Buf_Size_def split: option.splits)
    then have l: "length (take (m_DataLen r) m) = m_DataLen r" by simp
    have "Buf_assign al r b = b1\<lparr>m_PtrBlock := map_option (patch 0 (take (m_DataLen r) m)) (m_PtrBlock b1),
        m_DataLen := length (take (m_DataLen r) m)\<rparr>"
      using b1(1) m False by (simp add: Buf_assign_def Let_def)
    then show ?thesis using fill_ok(2) [of "take (m_DataLen r) m" b1] b1 m False l by (simp add: buf_data_def)
  qed
qed (use assms in auto)

lemma assign_cstr_data:
  assumes "al (length (cstr p) + 1) \<noteq> None"
  shows "buf_data (Buf_assign_cstr al (Some p) b) = cstr p @ [0]"
proof (rule Resize_cases [of "length (cstr p) + 1" b])
  fix b1 assume b1: "Buf_Resize al (length (cstr p) + 1) b = (b1, True)" "length (cstr p) + 1 \<le> Buf_Size b1"
    "length (cstr p) + 1 = 0 \<or> m_PtrBlock b1 \<noteq> None"
  then show ?thesis using fill_ok(2) [of "cstr p @ [0]" b1] by (simp add: Buf_assign_cstr_def Let_def)
qed (use assms in auto)

end

lemma Buf_Crc32_data: "buf_ok b \<Longrightarrow> m_PtrBlock b \<noteq> None \<Longrightarrow> Buf_Crc32Get b = ref_crc32 (buf_data b)"
  using CalcCrc32_ref_form by (auto simp: Buf_Crc32Get_def Buf_u_str_def buf_data_def ref_crc32_def)


section \<open>Properties\<close>

text \<open>Every buffer operation keeps the data length within the block, whatever the history of
  the memory manager that supplies the block.\<close>
theorem Buffer_invariant:
  assumes "buf_ok b" "buf_ok r"
  shows "buf_ok (fst (Buf_Resize (hist_alloc grant ops mem) n b)) \<and> buf_ok (Buf_LenSet n b) \<and>
    buf_ok (Buf_Clear v b) \<and> buf_ok (fst (Buf_CopyIn (hist_alloc grant ops mem) p b)) \<and>
    buf_ok (Buf_assign (hist_alloc grant ops mem) r b) \<and>
    buf_ok (fst (Buf_XferMemBlk (hist_alloc grant ops mem) b r)) \<and>
    buf_ok (snd (Buf_XferMemBlk (hist_alloc grant ops mem) b r)) \<and>
    buf_ok (fst (Buf_GetMemBlk b)) \<and> buf_ok (Buf_SetMemBlk (hist_alloc grant ops mem) q b)"
  using assms mgr.Resize_ok mgr.CopyIn_ok mgr.assign_ok Buf_LenSet_ok Buf_Clear_ok Buf_GetMemBlk_ok
    Buf_SetMemBlk_ok Buf_Xfer_ok [OF assms(1), of "hist_alloc grant ops mem" r]
  by (simp add: prod_eq_iff)

theorem Buffer_invariant_witness:
  "buf_ok (Buf_LenSet 7 Buf_null) \<and> buf_ok (fst (Buf_Resize (hist_alloc (\<lambda>_. True) [] (\<lambda>_. 0)) 3 Buf_null))"
  using Buffer_invariant [of Buf_null Buf_null "\<lambda>_. True" "[]" "\<lambda>_. 0"] by simp

text \<open>\<open>CopyIn\<close> makes the source the data of the buffer, with its standard CRC-32, or fails
  because the manager refused the block, leaving no data; \<open>CopyOut\<close> returns the source's octets.\<close>
theorem Buffer_CopyIn_data:
  assumes "Buf_CopyIn (hist_alloc grant ops mem) (Some src) b = (b', rv)"
  shows "if rv then buf_data b' = src \<and> (src \<noteq> [] \<longrightarrow> Buf_Crc32Get b' = ref_crc32 src \<and>
      (\<forall>dst. length dst \<le> length src \<longrightarrow> Buf_CopyOut b' (Some dst) = (Some (take (length dst) src), True)))
    else src \<noteq> [] \<and> hist_alloc grant ops mem (length src) = None \<and> buf_data b' = []"
proof (cases rv)
  case True
  then have d: "buf_data b' = src" "buf_ok b'" using mgr.CopyIn_data assms by blast+
  moreover have "m_PtrBlock b' \<noteq> None" if "src \<noteq> []" using d that by (auto simp: buf_data_def split: option.splits)
  moreover have "Buf_CopyOut b' (Some dst) = (Some (take (length dst) src), True)"
    if "src \<noteq> []" "length dst \<le> length src" for dst
    using d that by (auto simp: Buf_CopyOut_def buf_data_def patch_def min_def buf_ok_def Buf_Size_def split: option.splits if_splits)
  ultimately show ?thesis using True Buf_Crc32_data by auto
next
  case False
  then show ?thesis using mgr.CopyIn_fails assms by auto
qed

theorem Buffer_CopyIn_data_witness:
  "\<exists>b'. Buf_CopyIn (hist_alloc (\<lambda>_. True) [] (\<lambda>_. 0)) (Some [1, 2, 3]) Buf_null = (b', True) \<and>
    buf_data b' = [1, 2, 3] \<and> Buf_CopyOut b' (Some [0, 0]) = (Some [1, 2], True)"
proof -
  obtain b' rv where c: "Buf_CopyIn (hist_alloc (\<lambda>_. True) [] (\<lambda>_. 0)) (Some [1, 2, 3]) Buf_null = (b', rv)"
    by fastforce
  have "rv" using mgr.CopyIn_fails [of "\<lambda>_. True" "[]" "\<lambda>_. 0" "[1, 2, 3]" Buf_null b'] c
    by (cases rv) (auto simp: hist_alloc_first)
  then show ?thesis using Buffer_CopyIn_data [OF c] c by auto
qed

text \<open>Assignment between buffers copies the data, and assignment from a string stores its
  octets and the terminating zero, when the manager serves the request.\<close>
theorem Buffer_assign_data:
  assumes "buf_ok r" "hist_alloc grant ops mem (m_DataLen r) \<noteq> None"
    "hist_alloc grant ops mem (length (cstr (to_octets s)) + 1) \<noteq> None"
  shows "buf_data (Buf_assign (hist_alloc grant ops mem) r b) = buf_data r \<and>
    buf_data (Buf_assign_String (hist_alloc grant ops mem) s b) = cstr (to_octets s) @ [0]"
proof -
  have "cstr (to_octets s @ [0]) = cstr (to_octets s)"
    by (induction s) (auto simp: cstr_def to_octets_def)
  then show ?thesis
    using mgr.assign_data [OF assms(1,2)] assms(3) mgr.assign_cstr_data [of grant ops mem "to_octets s @ [0]" b]
    by (simp add: Buf_assign_String_def)
qed

theorem Buffer_assign_data_witness:
  "buf_data (Buf_assign_String (hist_alloc (\<lambda>_. True) [] (\<lambda>_. 0)) ''ab'' Buf_null) = [97, 98, 0]"
  using Buffer_assign_data [of Buf_null "\<lambda>_. True" "[]" "\<lambda>_. 0" "''ab''" Buf_null]
  by (simp add: hist_alloc_first to_octets_def octet_of_char_def cstr_def)

end
