(* ===== verification/Stream.thy ===== *)
theory Stream
  imports Buffer ByteOrder "HOL-Library.Monad_Syntax"
begin

text \<open>
  \<open>cpStreamBase\<close>: a stream of octets over storage blocks. The virtual memory methods of the
  class are the fields of \<open>vtable\<close>, functions on the derived class's storage \<open>'s\<close>; the base
  class's positions are the fields of \<open>stream\<close>. \<open>v_BlockMem\<close> gives the octets from
  \<open>BlockMemPtr\<close> to the end of the block, \<open>v_BlockPoke\<close> is a \<open>memcpy\<close> to an offset of that
  pointer. Sizes are natural numbers, except in \<open>Skip\<close> where the code tests for overflow.
\<close>

section \<open>Operations\<close>

record 's vtable =
  v_MemoryFree :: "'s \<Rightarrow> 's"
  v_MemoryAdd :: "nat \<Rightarrow> 's \<Rightarrow> 's \<times> bool"
  v_MemoryChk :: "'s \<Rightarrow> bool"
  v_ValidBlock :: "'s \<Rightarrow> nat \<Rightarrow> bool"
  v_BlockMem :: "'s \<Rightarrow> nat \<Rightarrow> octets option"
  v_BlockPoke :: "'s \<Rightarrow> nat \<Rightarrow> nat \<Rightarrow> octets \<Rightarrow> 's"
  v_BlockSize :: "'s \<Rightarrow> nat \<Rightarrow> nat"

record 's stream =
  st :: 's
  m_CurBlock :: nat
  m_CurPos :: nat
  m_LastBlock :: nat
  m_LastPos :: nat

definition Stream_new :: "'s \<Rightarrow> 's stream" where
  "Stream_new x = \<lparr>st = x, m_CurBlock = 0, m_CurPos = 0, m_LastBlock = 0, m_LastPos = 0\<rparr>"

definition Readable :: "'s vtable \<Rightarrow> 's stream \<Rightarrow> bool" where
  "Readable vt s =
     (v_MemoryChk vt (st s) \<and> (m_CurBlock s < m_LastBlock s \<or> m_CurPos s < m_LastPos s))"

text \<open>\<open>Peek\<close> has no result when it reads outside of the current block.\<close>

definition Peek :: "'s vtable \<Rightarrow> 's stream \<Rightarrow> u8 option" where
  "Peek vt s =
     (if Readable vt s
      then (case v_BlockMem vt (st s) (m_CurBlock s) of
              None \<Rightarrow> Some 0
            | Some mem \<Rightarrow> if m_CurPos s < length mem then Some (mem ! m_CurPos s) else None)
      else Some 0)"

definition Pos :: "'s vtable \<Rightarrow> 's stream \<Rightarrow> nat" where
  "Pos vt s = sum_list (map (v_BlockSize vt (st s)) [0..<m_CurBlock s]) + m_CurPos s"

definition LenGet :: "'s vtable \<Rightarrow> 's stream \<Rightarrow> nat" where
  "LenGet vt s = sum_list (map (v_BlockSize vt (st s)) [0..<m_LastBlock s]) + m_LastPos s"

text \<open>One pass of the read loop: the read size, the stream, and the octets left to read.\<close>

definition rd_pass :: "'s vtable \<Rightarrow> 's stream \<Rightarrow> nat \<Rightarrow> nat \<times> 's stream \<times> nat" where
  "rd_pass vt s left =
     (if m_CurBlock s < m_LastBlock s then
        (if m_CurPos s < v_BlockSize vt (st s) (m_CurBlock s)
         then (v_BlockSize vt (st s) (m_CurBlock s) - m_CurPos s, s, left)
         else (0, s\<lparr>m_CurBlock := m_CurBlock s + 1, m_CurPos := 0\<rparr>, left))
      else
        (if m_CurPos s < m_LastPos s then (m_LastPos s - m_CurPos s, s, left) else (0, s, 0)))"

function rd_loop :: "'s vtable \<Rightarrow> 's stream \<Rightarrow> nat \<Rightarrow> octets \<Rightarrow> 's stream \<times> octets" where
  "rd_loop vt s left out =
     (if left = 0 then (s, out)
      else (case rd_pass vt s left of (readSize0, s1, left1) \<Rightarrow>
        let readSize = (if readSize0 > left1 then left1 else readSize0)
        in if readSize > 0 then
             (case v_BlockMem vt (st s1) (m_CurBlock s1) of
                Some mem \<Rightarrow>
                  rd_loop vt (s1\<lparr>m_CurPos := m_CurPos s1 + readSize\<rparr>) (left1 - readSize)
                    (out @ take readSize (drop (m_CurPos s1) mem))
              | None \<Rightarrow> rd_loop vt s1 0 out)
           else rd_loop vt s1 left1 out))"
  by pat_completeness auto

termination
  by (relation "measures [\<lambda>(vt, s, left, out). m_LastBlock s - m_CurBlock s, \<lambda>(vt, s, left, out). left]")
    (auto simp: rd_pass_def split: if_splits)

declare rd_loop.simps [simp del]

text \<open>\<open>ArrayRd\<close> into an array: the octets read (their number is the code's result).\<close>

definition ArrayRd :: "'s vtable \<Rightarrow> 's stream \<Rightarrow> nat \<Rightarrow> 's stream \<times> octets" where
  "ArrayRd vt s Len =
     (if Len = 0 then (s, []) else if Readable vt s then rd_loop vt s Len [] else (s, []))"

definition wr_pass :: "'s vtable \<Rightarrow> 's stream \<Rightarrow> octets \<Rightarrow> nat \<times> 's stream \<times> octets" where
  "wr_pass vt s data =
     (if m_CurPos s < v_BlockSize vt (st s) (m_CurBlock s)
      then (v_BlockSize vt (st s) (m_CurBlock s) - m_CurPos s, s, data)
      else
        let s1 = s\<lparr>m_CurBlock := m_CurBlock s + 1, m_CurPos := 0\<rparr>
        in if \<not> v_ValidBlock vt (st s1) (m_CurBlock s1)
           then (case v_MemoryAdd vt (length data) (st s1) of
                   (x, True) \<Rightarrow> (0, s1\<lparr>st := x\<rparr>, data)
                 | (x, False) \<Rightarrow> (0, s1\<lparr>st := x\<rparr>, []))
           else (0, s1, data))"

text \<open>The write loop may run forever; then it has no result.\<close>

partial_function (option) wr_loop ::
  "'s vtable \<Rightarrow> 's stream \<Rightarrow> octets \<Rightarrow> nat \<Rightarrow> ('s stream \<times> nat) option" where
  "wr_loop vt s data numWritten =
     (if data = [] then Some (s, numWritten)
      else (case wr_pass vt s data of (writeSize0, s1, data1) \<Rightarrow>
        let writeSize = (if writeSize0 > length data1 then length data1 else writeSize0)
        in if writeSize > 0 then
             (case v_BlockMem vt (st s1) (m_CurBlock s1) of
                Some mem \<Rightarrow>
                  wr_loop vt
                    (s1\<lparr>st := v_BlockPoke vt (st s1) (m_CurBlock s1) (m_CurPos s1) (take writeSize data1),
                        m_CurPos := m_CurPos s1 + writeSize\<rparr>)
                    (drop writeSize data1) (numWritten + writeSize)
              | None \<Rightarrow> wr_loop vt s1 [] numWritten)
           else wr_loop vt s1 data1 numWritten))"

definition adjust_last :: "'s stream \<Rightarrow> 's stream" where
  "adjust_last s =
     (if m_LastBlock s < m_CurBlock s then s\<lparr>m_LastBlock := m_CurBlock s, m_LastPos := m_CurPos s\<rparr>
      else if m_LastBlock s = m_CurBlock s \<and> m_LastPos s < m_CurPos s then s\<lparr>m_LastPos := m_CurPos s\<rparr>
      else s)"

definition ArrayWr :: "'s vtable \<Rightarrow> 's stream \<Rightarrow> octets option \<Rightarrow> ('s stream \<times> nat) option" where
  "ArrayWr vt s pBuf =
     (case pBuf of
        None \<Rightarrow> Some (s, 0)
      | Some data \<Rightarrow>
          if data = [] then Some (s, 0)
          else (case (if v_MemoryChk vt (st s) then (st s, True) else v_MemoryAdd vt (length data) (st s)) of
                  (x, False) \<Rightarrow> Some (s\<lparr>st := x\<rparr>, 0)
                | (x, True) \<Rightarrow> do {
                    (s1, n) \<leftarrow> wr_loop vt (s\<lparr>st := x\<rparr>) data 0;
                    Some (adjust_last s1, n)
                  }))"

text \<open>The buffer forms; a refused buffer is reported as if it had been read.\<close>

definition Read_Buf ::
  "(nat \<Rightarrow> octets option) \<Rightarrow> 's vtable \<Rightarrow> 's stream \<Rightarrow> buffer \<Rightarrow> nat \<Rightarrow> 's stream \<times> buffer \<times> nat" where
  "Read_Buf al vt s b Len =
     (let len0 = (if Len < LenGet vt s then Len else LenGet vt s);
          (b1, status) = (if Buf_Size b < len0 then Buf_Resize al len0 b else (b, True))
      in if status then
           (case m_PtrBlock b1 of
              None \<Rightarrow> (s, Buf_LenSet 0 b1, 0)
            | Some m \<Rightarrow>
                let (s1, out) = ArrayRd vt s len0
                in (s1, Buf_LenSet (length out) (b1\<lparr>m_PtrBlock := Some (patch 0 out m)\<rparr>), length out))
         else (s, b1, len0))"

definition Write_Buf :: "'s vtable \<Rightarrow> 's stream \<Rightarrow> buffer \<Rightarrow> nat \<Rightarrow> ('s stream \<times> nat) option" where
  "Write_Buf vt s b Len =
     (let len0 = (if Buf_LenGet b > Len then Len else Buf_LenGet b)
      in ArrayWr vt s (map_option (take len0) (Buf_u_str b 0)))"

definition Read_octet :: "'s vtable \<Rightarrow> 's stream \<Rightarrow> 's stream \<times> u8 option" where
  "Read_octet vt s = (case ArrayRd vt s 1 of (s1, out) \<Rightarrow> (s1, if length out = 1 then Some (hd out) else None))"

definition Write_octet :: "'s vtable \<Rightarrow> 's stream \<Rightarrow> u8 \<Rightarrow> ('s stream \<times> bool) option" where
  "Write_octet vt s Ch = map_option (\<lambda>(s1, n). (s1, n = 1)) (ArrayWr vt s (Some [Ch]))"

text \<open>
  \<open>ReadLine\<close>: each pass reads one octet, so the length of the stream plus one passes are
  enough; \<open>fuel\<close> counts them.
\<close>

fun line_loop :: "nat \<Rightarrow> 's vtable \<Rightarrow> 's stream \<Rightarrow> u8 \<Rightarrow> bool \<Rightarrow> octets \<Rightarrow> ('s stream \<times> octets \<times> bool) option" where
  "line_loop 0 vt s Term DiscardTerm Line = None"
| "line_loop (Suc fuel) vt s Term DiscardTerm Line =
     (case Read_octet vt s of
        (s1, None) \<Rightarrow> Some (s1, Line, False)
      | (s1, Some ch) \<Rightarrow>
          if ch = Term then Some (s1, if DiscardTerm then Line else Line @ [ch], True)
          else line_loop fuel vt s1 Term DiscardTerm (if ch \<noteq> 0 then Line @ [ch] else Line))"

definition ReadLine :: "'s vtable \<Rightarrow> 's stream \<Rightarrow> u8 \<Rightarrow> bool \<Rightarrow> ('s stream \<times> octets \<times> bool) option" where
  "ReadLine vt s Term DiscardTerm = do {
     (s1, Line, rv) \<leftarrow> line_loop (LenGet vt s + 1) vt s Term DiscardTerm [];
     Some (s1, Line, rv \<or> length Line > 0)
   }"

fun crc_blocks :: "'s vtable \<Rightarrow> 's \<Rightarrow> nat \<Rightarrow> nat \<Rightarrow> nat \<Rightarrow> u32 \<Rightarrow> u32" where
  "crc_blocks vt x 0 i Len cascade = cascade"
| "crc_blocks vt x (Suc fuel) i Len cascade =
     (if v_ValidBlock vt x i \<and> Len > 0 then
        let size = (if v_BlockSize vt x i > Len then Len else v_BlockSize vt x i)
        in crc_blocks vt x fuel (Suc i) (Len - size) (CalcCrc32 (v_BlockMem vt x i) size cascade)
      else cascade)"

text \<open>The loop of \<open>Crc32Get\<close> visits each block once; \<open>n\<close> bounds the number of blocks.\<close>

definition Stream_Crc32Get :: "nat \<Rightarrow> 's vtable \<Rightarrow> 's stream \<Rightarrow> nat \<Rightarrow> u32" where
  "Stream_Crc32Get n vt s Len =
     crc_blocks vt (st s) n 0 (if Len = 0 then LenGet vt s else Len) 0xffffffff"

definition Stream_Clear :: "'s vtable \<Rightarrow> 's stream \<Rightarrow> 's stream" where
  "Stream_Clear vt s = Stream_new (v_MemoryFree vt (st s))"

text \<open>The loop of \<open>Seek\<close>: it ends at the first block past the last written one.\<close>

function seek_loop :: "'s vtable \<Rightarrow> 's stream \<Rightarrow> nat \<Rightarrow> nat \<Rightarrow> nat \<Rightarrow> 's stream \<times> bool" where
  "seek_loop vt s p loc i =
     (if \<not> v_ValidBlock vt (st s) i \<or> m_LastBlock s < i then (s, False)
      else
        let size = (if i < m_LastBlock s then v_BlockSize vt (st s) i else m_LastPos s)
        in if loc + size \<ge> p then (s\<lparr>m_CurPos := p - loc, m_CurBlock := i\<rparr>, True)
           else seek_loop vt (s\<lparr>m_CurPos := size, m_CurBlock := i\<rparr>) p (loc + size) (Suc i))"
  by pat_completeness auto

termination by (relation "measure (\<lambda>(vt, s, p, loc, i). Suc (m_LastBlock s) - i)") auto

declare seek_loop.simps [simp del]

definition Seek :: "'s vtable \<Rightarrow> 's stream \<Rightarrow> nat \<Rightarrow> 's stream \<times> bool" where
  "Seek vt s p = seek_loop vt s p 0 0"

definition Skip :: "'s vtable \<Rightarrow> 's stream \<Rightarrow> nat \<Rightarrow> 's stream \<times> bool" where
  "Skip vt s Num =
     (let pos = Pos vt s
      in if (pos + Num) mod 2 ^ 64 > pos then Seek vt s (pos + Num) else Seek vt s (2 ^ 64 - 1))"

definition Back :: "'s vtable \<Rightarrow> 's stream \<Rightarrow> nat \<Rightarrow> 's stream \<times> bool" where
  "Back vt s Num =
     (let pos = Pos vt s
      in if pos \<ge> Num then Seek vt s (pos - Num) else (fst (Seek vt s 0), False))"


section \<open>Insertion\<close>

text \<open>\<open>rv = rv && OctetInsert(...)\<close> for each octet of the loop.\<close>

fun octets_insert :: "'s vtable \<Rightarrow> octets \<Rightarrow> 's stream \<Rightarrow> ('s stream \<times> bool) option" where
  "octets_insert vt [] s = Some (s, True)"
| "octets_insert vt (b # bs) s = do {
     (s1, rv) \<leftarrow> Write_octet vt s b;
     if rv then octets_insert vt bs s1 else Some (s1, False)
   }"

definition Uint16Insert :: "host \<Rightarrow> 's vtable \<Rightarrow> u16 \<Rightarrow> bool \<Rightarrow> 's stream \<Rightarrow> ('s stream \<times> bool) option" where
  "Uint16Insert h vt Val NetworkOrder s =
     (let pSrc = host_mem h Val
      in if HostBigEndian h \<noteq> NetworkOrder then octets_insert vt (rev pSrc) s else octets_insert vt pSrc s)"

definition Uint32Insert :: "host \<Rightarrow> 's vtable \<Rightarrow> u32 \<Rightarrow> bool \<Rightarrow> 's stream \<Rightarrow> ('s stream \<times> bool) option" where
  "Uint32Insert h vt Val NetworkOrder s =
     (let pSrc = host_mem h Val
      in if HostBigEndian h \<noteq> NetworkOrder then octets_insert vt (rev pSrc) s else octets_insert vt pSrc s)"

definition Uint64Insert :: "host \<Rightarrow> 's vtable \<Rightarrow> u64 \<Rightarrow> bool \<Rightarrow> 's stream \<Rightarrow> ('s stream \<times> bool) option" where
  "Uint64Insert h vt Val NetworkOrder s =
     (let pSrc = host_mem h Val
      in if HostBigEndian h \<noteq> NetworkOrder then octets_insert vt (rev pSrc) s else octets_insert vt pSrc s)"

text \<open>A float or a double is the word of its memory image.\<close>

definition Float32Insert :: "host \<Rightarrow> 's vtable \<Rightarrow> u32 \<Rightarrow> bool \<Rightarrow> 's stream \<Rightarrow> ('s stream \<times> bool) option" where
  "Float32Insert h vt Val NetworkOrder s =
     (let pSrc = host_mem h Val
      in if HostBigEndian h \<noteq> NetworkOrder then octets_insert vt (rev pSrc) s else octets_insert vt pSrc s)"

definition Float64Insert :: "host \<Rightarrow> 's vtable \<Rightarrow> u64 \<Rightarrow> bool \<Rightarrow> 's stream \<Rightarrow> ('s stream \<times> bool) option" where
  "Float64Insert h vt Val NetworkOrder s =
     (let pSrc = host_mem h Val
      in if HostBigEndian h \<noteq> NetworkOrder then octets_insert vt (rev pSrc) s else octets_insert vt pSrc s)"

definition CStringInsert :: "'s vtable \<Rightarrow> octets \<Rightarrow> 's stream \<Rightarrow> ('s stream \<times> bool) option" where
  "CStringInsert vt Str s = do {
     (s1, n) \<leftarrow> ArrayWr vt s (Some Str);
     if n = length Str then Write_octet vt s1 0 else Some (s1, False)
   }"

definition StringInsert :: "'s vtable \<Rightarrow> octets \<Rightarrow> 's stream \<Rightarrow> ('s stream \<times> bool) option" where
  "StringInsert vt Str s = do { (s1, n) \<leftarrow> ArrayWr vt s (Some Str); Some (s1, n = length Str) }"

definition BlobInsert :: "'s vtable \<Rightarrow> buffer \<Rightarrow> 's stream \<Rightarrow> ('s stream \<times> bool) option" where
  "BlobInsert vt b s = do {
     (s1, n) \<leftarrow> Write_Buf vt s b (Buf_LenGet b);
     Some (s1, n = Buf_LenGet b)
   }"

text \<open>\<open>Buffer::operator=(StreamBase)\<close>: the stream afterwards, and the buffer.\<close>

definition Buf_assign_stream ::
  "(nat \<Rightarrow> octets option) \<Rightarrow> 's vtable \<Rightarrow> 's stream \<Rightarrow> buffer \<Rightarrow> 's stream \<times> buffer" where
  "Buf_assign_stream al vt rhs b =
     (let size = LenGet vt rhs
      in if size > 0 then
           (case Read_Buf al vt (fst (Seek vt rhs 0)) b size of (s1, b1, _) \<Rightarrow> (s1, b1))
         else (rhs, b))"

text \<open>The octets that an insertion writes: its specification.\<close>

definition word_octets :: "bool \<Rightarrow> 'a::len word \<Rightarrow> octets" where
  "word_octets NetworkOrder v = (if NetworkOrder then be_octets v else rev (be_octets v))"

lemma insert_forms:
  "Uint16Insert h vt v16 net = octets_insert vt (word_octets net v16)"
  "Uint32Insert h vt v32 net = octets_insert vt (word_octets net v32)"
  "Uint64Insert h vt v64 net = octets_insert vt (word_octets net v64)"
  "Float32Insert h vt v32 net = octets_insert vt (word_octets net v32)"
  "Float64Insert h vt v64 net = octets_insert vt (word_octets net v64)"
  by (rule ext; cases h; cases net; simp add: Uint16Insert_def Uint32Insert_def Uint64Insert_def Float32Insert_def
      Float64Insert_def word_octets_def host_mem_def)+

end
