(* ===== verification/StreamProps.thy ===== *)
theory StreamProps
  imports Stream
begin

text \<open>
  What a stream promises, in the interface \<open>block_store\<close> that a derived class provides: its
  storage is a list of blocks that \<open>MemoryAdd\<close> extends. The specification sees the stream as
  one octet list \<open>content\<close> with a position: reading takes from the position on, writing replaces
  from the position on, seeking sets the position.
\<close>

section \<open>Block lists\<close>

text \<open>The linear position of offset \<open>p\<close> in block \<open>i\<close>.\<close>

definition lin :: "octets list \<Rightarrow> nat \<Rightarrow> nat \<Rightarrow> nat" where
  "lin bs i p = length (concat (take i bs)) + p"

lemma lin_next: "i < length bs \<Longrightarrow> lin bs (Suc i) 0 = lin bs i (length (bs ! i))"
  by (simp add: lin_def take_Suc_conv_app_nth)

lemma concat_split: "i < length bs \<Longrightarrow> concat bs = concat (take i bs) @ bs ! i @ concat (drop (Suc i) bs)"
  by (metis append_take_drop_id concat.simps(2) concat_append Cons_nth_drop_Suc)

lemma take_lin: "i < length bs \<Longrightarrow> p + n \<le> length (bs ! i) \<Longrightarrow>
    take n (drop (lin bs i p) (concat bs)) = take n (drop p (bs ! i))"
  by (subst concat_split [of i bs]) (auto simp: lin_def)

lemma lin_block_le: "i < length bs \<Longrightarrow> p \<le> length (bs ! i) \<Longrightarrow> lin bs i p \<le> length (concat bs)"
  by (subst concat_split [of i bs]) (auto simp: lin_def)

lemma lin_mono: "i < j \<Longrightarrow> j \<le> length bs \<Longrightarrow> p \<le> length (bs ! i) \<Longrightarrow> lin bs i p \<le> lin bs j q"
proof -
  assume a: "i < j" "j \<le> length bs" "p \<le> length (bs ! i)"
  have "take j bs = take i bs @ bs ! i # drop (Suc i) (take j bs)"
    using a by (metis Cons_nth_drop_Suc append_take_drop_id length_take min.absorb2 nth_take take_take min.absorb1 less_imp_le)
  then have "concat (take j bs) = concat (take i bs @ bs ! i # drop (Suc i) (take j bs))" by (rule arg_cong)
  then show ?thesis using a by (simp add: lin_def)
qed

lemma lin_append: "i \<le> length bs \<Longrightarrow> lin (bs @ ys) i p = lin bs i p"
  by (simp add: lin_def)

lemma length_concat_update: "i < length bs \<Longrightarrow> length b = length (bs ! i) \<Longrightarrow>
    length (concat (take j (bs[i := b]))) = length (concat (take j bs))"
proof -
  assume a: "i < length bs" "length b = length (bs ! i)"
  have "map length (take j (bs[i := b])) = map length (take j bs)"
    by (rule nth_equalityI) (use a in \<open>auto simp: nth_list_update\<close>)
  then show ?thesis by (simp add: length_concat)
qed

lemma poke_concat:
  assumes "i < length bs" "p + length d \<le> length (bs ! i)"
  shows "concat (bs[i := patch p d (bs ! i)]) = patch (lin bs i p) d (concat bs)"
proof -
  have "concat (bs[i := patch p d (bs ! i)]) =
      concat (take i bs) @ patch p d (bs ! i) @ concat (drop (Suc i) bs)"
    using assms by (simp add: upd_conv_take_nth_drop)
  also have "\<dots> = patch (lin bs i p) d (concat (take i bs) @ bs ! i @ concat (drop (Suc i) bs))"
    using assms by (simp add: lin_def patch_append_left patch_append_right)
  finally show ?thesis using concat_split [OF assms(1)] by simp
qed

section \<open>The abstract stream\<close>

text \<open>For a storage whose block list is \<open>blocks\<close>: the length, the position and the content.\<close>

definition s_len :: "('s \<Rightarrow> octets list) \<Rightarrow> 's stream \<Rightarrow> nat" where
  "s_len blocks s = lin (blocks (st s)) (m_LastBlock s) (m_LastPos s)"

definition s_pos :: "('s \<Rightarrow> octets list) \<Rightarrow> 's stream \<Rightarrow> nat" where
  "s_pos blocks s = lin (blocks (st s)) (m_CurBlock s) (m_CurPos s)"

definition s_content :: "('s \<Rightarrow> octets list) \<Rightarrow> 's stream \<Rightarrow> octets" where
  "s_content blocks s = take (s_len blocks s) (concat (blocks (st s)))"

definition s_wf :: "('s \<Rightarrow> octets list) \<Rightarrow> 's stream \<Rightarrow> bool" where
  "s_wf blocks s \<longleftrightarrow>
     (let bs = blocks (st s) in
      if bs = [] then m_CurBlock s = 0 \<and> m_CurPos s = 0 \<and> m_LastBlock s = 0 \<and> m_LastPos s = 0
      else m_LastBlock s < length bs \<and> m_LastPos s \<le> length (bs ! m_LastBlock s) \<and>
        (m_LastBlock s > 0 \<longrightarrow> m_LastPos s > 0) \<and>
        (if m_CurBlock s < m_LastBlock s then m_CurPos s \<le> length (bs ! m_CurBlock s)
         else m_CurBlock s = m_LastBlock s \<and> m_CurPos s \<le> m_LastPos s))"

text \<open>
  \<open>s_emits f data\<close>: the insertion \<open>f\<close> returns; when it reports success it has put \<open>data\<close> at
  the position and moved the position past it.
\<close>

definition s_emits :: "('s \<Rightarrow> bool) \<Rightarrow> ('s \<Rightarrow> octets list) \<Rightarrow> ('s stream \<Rightarrow> ('s stream \<times> bool) option) \<Rightarrow> octets \<Rightarrow> bool"
  where
  "s_emits ok blocks f data \<longleftrightarrow>
     (\<forall>s. ok (st s) \<and> s_wf blocks s \<longrightarrow>
       (\<exists>s' rv. f s = Some (s', rv) \<and> ok (st s') \<and>
         (rv \<longrightarrow> s_wf blocks s' \<and> s_content blocks s' = patch (s_pos blocks s) data (s_content blocks s) \<and>
            s_pos blocks s' = s_pos blocks s + length data)))"

text \<open>No block boundary falls on a prefix whose CRC is all ones, the value that restarts a cascade.\<close>

definition crc_boundary_ok :: "octets list \<Rightarrow> bool" where
  "crc_boundary_ok bs \<longleftrightarrow> (\<forall>i. 0 < i \<longrightarrow> i < length bs \<longrightarrow> ref_crc32 (concat (take i bs)) \<noteq> 0xffffffff)"

section \<open>The interface\<close>

locale block_store =
  fixes vt :: "'s vtable"
    and blocks :: "'s \<Rightarrow> octets list"
    and inv :: "'s \<Rightarrow> bool"
  assumes pos: "inv x \<Longrightarrow> b \<in> set (blocks x) \<Longrightarrow> b \<noteq> []"
    and valid: "inv x \<Longrightarrow> v_ValidBlock vt x i = (i < length (blocks x))"
    and chk: "inv x \<Longrightarrow> v_MemoryChk vt x = (blocks x \<noteq> [])"
    and mem: "inv x \<Longrightarrow> i < length (blocks x) \<Longrightarrow> v_BlockMem vt x i = Some (blocks x ! i)"
    and size: "inv x \<Longrightarrow> i < length (blocks x) \<Longrightarrow> v_BlockSize vt x i = length (blocks x ! i)"
    and poke: "inv x \<Longrightarrow> i < length (blocks x) \<Longrightarrow> off + length d \<le> length (blocks x ! i) \<Longrightarrow>
      inv (v_BlockPoke vt x i off d) \<and>
      blocks (v_BlockPoke vt x i off d) = (blocks x)[i := patch off d (blocks x ! i)]"
    and add: "inv x \<Longrightarrow> v_MemoryAdd vt n x = (x', rv) \<Longrightarrow>
      inv x' \<and> (\<exists>ys. blocks x' = blocks x @ ys \<and> (rv \<longrightarrow> ys \<noteq> []))"
    and free: "inv x \<Longrightarrow> inv (v_MemoryFree vt x) \<and> blocks (v_MemoryFree vt x) = []"
begin

abbreviation bs :: "'s stream \<Rightarrow> octets list" where "bs s \<equiv> blocks (st s)"

abbreviation ln :: "'s stream \<Rightarrow> nat" where "ln \<equiv> s_len blocks"

abbreviation ps :: "'s stream \<Rightarrow> nat" where "ps \<equiv> s_pos blocks"

abbreviation content :: "'s stream \<Rightarrow> octets" where "content \<equiv> s_content blocks"

abbreviation wf :: "'s stream \<Rightarrow> bool" where "wf s \<equiv> inv (st s) \<and> s_wf blocks s"

lemmas wf_def = s_wf_def Let_def

lemmas ln_def = s_len_def

lemmas ps_def = s_pos_def

lemmas content_def = s_content_def

lemma sizes_lin: "inv x \<Longrightarrow> i \<le> length (blocks x) \<Longrightarrow>
    sum_list (map (v_BlockSize vt x) [0..<i]) = length (concat (take i (blocks x)))"
  by (induction i) (simp_all add: size take_Suc_conv_app_nth)

lemma wf_bounds:
  assumes "wf s"
  shows "ps s \<le> ln s" "ln s \<le> length (concat (bs s))"
proof -
  show "ln s \<le> length (concat (bs s))"
    using assms by (cases "bs s = []") (auto simp: wf_def ln_def lin_block_le, simp add: lin_def)
  show "ps s \<le> ln s"
  proof (cases "m_CurBlock s < m_LastBlock s")
    case True
    then show ?thesis using assms unfolding ps_def ln_def
      by (intro lin_mono) (auto simp: wf_def split: if_splits)
  next
    case False
    then show ?thesis using assms by (auto simp: wf_def ps_def ln_def lin_def split: if_splits)
  qed
qed

lemma length_content: "wf s \<Longrightarrow> length (content s) = ln s"
  using wf_bounds(2) [of s] by (simp add: content_def)

lemma LenGet_spec: "wf s \<Longrightarrow> LenGet vt s = length (content s)"
  by (auto simp: length_content LenGet_def wf_def ln_def lin_def sizes_lin split: if_splits)

lemma Pos_spec: "wf s \<Longrightarrow> Pos vt s = ps s"
  by (auto simp: Pos_def wf_def ps_def lin_def sizes_lin split: if_splits)

lemma at_end: "wf s \<Longrightarrow> (m_CurBlock s < m_LastBlock s \<or> m_CurPos s < m_LastPos s) = (ps s < ln s)"
proof (cases "m_CurBlock s < m_LastBlock s")
  case True
  assume w: "wf s"
  then have "lin (bs s) (m_CurBlock s) (m_CurPos s) \<le> lin (bs s) (m_LastBlock s) 0"
    using True by (intro lin_mono) (auto simp: wf_def split: if_splits)
  moreover have "m_LastPos s > 0" using w True by (auto simp: wf_def split: if_splits)
  ultimately show ?thesis using True by (auto simp: ps_def ln_def lin_def)
qed (auto simp: wf_def ps_def ln_def lin_def split: if_splits)

lemma Readable_spec: "wf s \<Longrightarrow> Readable vt s = (ps s < length (content s))"
  using at_end [of s] by (auto simp: Readable_def length_content wf_def chk split: if_splits)

lemma advance:
  assumes w: "wf s" and n: "m_CurPos s + n \<le> (if m_CurBlock s < m_LastBlock s then length (bs s ! m_CurBlock s) else m_LastPos s)"
    and ne: "bs s \<noteq> []"
  defines "s1 \<equiv> s\<lparr>m_CurPos := m_CurPos s + n\<rparr>"
  shows "wf s1" "ps s1 = ps s + n" "content s1 = content s" "ln s1 = ln s"
    "take n (drop (m_CurPos s) (bs s ! m_CurBlock s)) = take n (drop (ps s) (content s))"
proof -
  show w1: "wf s1" using w n ne by (auto simp: wf_def s1_def split: if_splits)
  show p1: "ps s1 = ps s + n" by (simp add: ps_def s1_def lin_def)
  show "content s1 = content s" "ln s1 = ln s" by (simp_all add: content_def ln_def s1_def)
  have c: "m_CurBlock s < length (bs s)" "m_CurPos s + n \<le> length (bs s ! m_CurBlock s)"
    using w n ne by (auto simp: wf_def split: if_splits)
  have "ps s + n \<le> ln s" using wf_bounds(1) [OF w1] p1 by (simp add: ln_def s1_def)
  then have "take n (drop (ps s) (content s)) = take n (drop (ps s) (concat (bs s)))"
    by (simp add: content_def drop_take)
  then show "take n (drop (m_CurPos s) (bs s ! m_CurBlock s)) = take n (drop (ps s) (content s))"
    using take_lin [OF c] by (simp add: ps_def)
qed

lemma take_drop_add: "n \<le> l \<Longrightarrow> take n (drop p c) @ take (l - n) (drop (p + n) c) = take l (drop p c)"
  by (metis add.commute drop_drop le_add_diff_inverse take_add)

lemma rd_loop_spec_aux:
  "vt0 = vt \<Longrightarrow> wf s \<Longrightarrow> rd_loop vt0 s left out = (s', r) \<Longrightarrow>
    r = out @ take left (drop (ps s) (content s)) \<and> wf s' \<and> st s' = st s \<and> ln s' = ln s \<and>
    ps s' = min (ps s + left) (ln s)"
proof (induction vt0 s left out arbitrary: s' r rule: rd_loop.induct)
  case (1 vt0 s left out)
  note IH = 1(1-3) [unfolded 1(4)] and w = 1(5) and r = 1(6) [unfolded 1(4)]
  let ?lim = "if m_CurBlock s < m_LastBlock s then length (bs s ! m_CurBlock s) else m_LastPos s"
  show ?case
  proof (cases "left = 0")
    case True
    then show ?thesis using w r wf_bounds(1) [OF w] by (simp add: rd_loop.simps min_def)
  next
    case nz: False
    consider (read) "m_CurPos s < ?lim" | (nxt) "m_CurBlock s < m_LastBlock s" "m_CurPos s \<ge> ?lim"
      | (stop) "\<not> m_CurBlock s < m_LastBlock s" "m_CurPos s \<ge> ?lim" by linarith
    then show ?thesis
    proof cases
      case read
      have ne: "bs s \<noteq> []" using w read by (auto simp: wf_def)
      then have cb: "m_CurBlock s < length (bs s)" using w by (auto simp: wf_def split: if_splits)
      have pass: "rd_pass vt s left = (?lim - m_CurPos s, s, left)"
        using read w cb by (auto simp: rd_pass_def size)
      define n where "n = min left (?lim - m_CurPos s)"
      have n: "n > 0" "n \<le> left" "m_CurPos s + n \<le> ?lim" using nz read by (auto simp: n_def)
      have rs: "(if ?lim - m_CurPos s > left then left else ?lim - m_CurPos s) = n" by (simp add: n_def)
      let ?s1 = "s\<lparr>m_CurPos := m_CurPos s + n\<rparr>" and ?out = "out @ take n (drop (m_CurPos s) (bs s ! m_CurBlock s))"
      note a = advance [OF w n(3) ne]
      have "rd_loop vt s left out = rd_loop vt ?s1 (left - n) ?out"
        by (subst rd_loop.simps) (use nz pass rs n mem w cb in \<open>simp add: Let_def\<close>)
      then have e: "rd_loop vt ?s1 (left - n) ?out = (s', r)" using r by simp
      have "r = ?out @ take (left - n) (drop (ps ?s1) (content ?s1)) \<and> wf s' \<and> st s' = st ?s1 \<and> ln s' = ln ?s1 \<and>
          ps s' = min (ps ?s1 + (left - n)) (ln ?s1)"
        by (rule IH(2) [OF nz pass [symmetric] refl rs [symmetric] n(1) _ refl a(1) e]) (use mem w cb in simp)
      then show ?thesis using a n(2) take_drop_add [OF n(2), of "ps s" "content s"] by simp
    next
      case nxt
      have ne: "m_CurBlock s < length (bs s)" using w nxt by (auto simp: wf_def split: if_splits)
      let ?s1 = "s\<lparr>m_CurBlock := m_CurBlock s + 1, m_CurPos := 0\<rparr>"
      have pass: "rd_pass vt s left = (0, ?s1, left)" using nxt w ne by (auto simp: rd_pass_def size)
      have full: "m_CurPos s = length (bs s ! m_CurBlock s)" using w nxt by (auto simp: wf_def split: if_splits)
      have p1: "ps ?s1 = ps s" using lin_next [OF ne] full by (simp add: ps_def)
      have w1: "wf ?s1" using w nxt by (auto simp: wf_def split: if_splits)
      have e: "rd_loop vt ?s1 left out = (s', r)"
        using r by (subst (asm) rd_loop.simps) (use nz pass in \<open>simp add: Let_def\<close>)
      have "r = out @ take left (drop (ps ?s1) (content ?s1)) \<and> wf s' \<and> st s' = st ?s1 \<and> ln s' = ln ?s1 \<and>
          ps s' = min (ps ?s1 + left) (ln ?s1)"
        by (rule IH(3) [OF nz pass [symmetric] refl refl _ refl w1 e]) simp
      moreover have "ln ?s1 = ln s" "content ?s1 = content s" by (simp_all add: content_def ln_def)
      ultimately show ?thesis using p1 w by simp
    next
      case stop
      have "ps s = ln s" using w stop at_end [OF w] wf_bounds(1) [OF w] by auto
      then have "take left (drop (ps s) (content s)) = []" using length_content [OF w] by simp
      moreover have pass: "rd_pass vt s left = (0, s, 0)" using stop by (simp add: rd_pass_def)
      have "rd_loop vt s left out = (s, out)"
        by (subst rd_loop.simps) (use nz pass in \<open>simp add: Let_def rd_loop.simps\<close>)
      ultimately show ?thesis using r w \<open>ps s = ln s\<close> by simp
    qed
  qed
qed

lemmas rd_loop_spec = rd_loop_spec_aux [OF refl]

lemma ArrayRd_spec:
  assumes "wf s" "ArrayRd vt s n = (s', r)"
  shows "r = take n (drop (ps s) (content s)) \<and> wf s' \<and> st s' = st s \<and> content s' = content s \<and>
    ps s' = min (ps s + n) (length (content s))"
proof (cases "n = 0 \<or> \<not> Readable vt s")
  case True
  then have "s' = s" "r = []" using assms(2) by (auto simp: ArrayRd_def split: if_splits)
  then show ?thesis using True assms(1) wf_bounds(1) [OF assms(1)] length_content [OF assms(1)] Readable_spec [OF assms(1)]
    by auto
next
  case False
  then have "rd_loop vt s n [] = (s', r)" using assms(2) by (simp add: ArrayRd_def)
  from rd_loop_spec [OF assms(1) this] show ?thesis
    using length_content [OF assms(1)] assms(1) by (simp add: content_def)
qed

text \<open>The write loop: all data is stored at the position, or a prefix of it when memory ran out.\<close>

definition wr_at :: "'s stream \<Rightarrow> bool" where
  "wr_at s \<longleftrightarrow> inv (st s) \<and> m_CurBlock s < length (bs s) \<and> m_CurPos s \<le> length (bs s ! m_CurBlock s)"

lemma wr_loop_Nil [simp]: "wr_loop vt s [] k = Some (s, k)"
  by (simp add: wr_loop.simps)

lemma wr_loop_fill:
  assumes w: "wr_at s" and p: "m_CurPos s < length (bs s ! m_CurBlock s)" and d: "data \<noteq> []"
  defines "n \<equiv> min (length data) (length (bs s ! m_CurBlock s) - m_CurPos s)"
  defines "s1 \<equiv> s\<lparr>st := v_BlockPoke vt (st s) (m_CurBlock s) (m_CurPos s) (take n data), m_CurPos := m_CurPos s + n\<rparr>"
  shows "wr_loop vt s data k = wr_loop vt s1 (drop n data) (k + n)" "0 < n" "wr_at s1"
    "concat (bs s1) = patch (ps s) (take n data) (concat (bs s))" "ps s1 = ps s + n"
    "length (bs s1) = length (bs s)" "\<And>i. i < length (bs s) \<Longrightarrow> length (bs s1 ! i) = length (bs s ! i)"
    "\<And>i q. lin (bs s1) i q = lin (bs s) i q" "ps s + n \<le> length (concat (bs s))"
proof -
  let ?b = "bs s ! m_CurBlock s"
  have i: "inv (st s)" and c: "m_CurBlock s < length (bs s)" using w by (simp_all add: wr_at_def)
  have n0: "m_CurPos s + length (take n data) \<le> length ?b" using p by (simp add: n_def)
  have pk: "inv (st s1)" "bs s1 = (bs s)[m_CurBlock s := patch (m_CurPos s) (take n data) ?b]"
    using poke [OF i c n0] by (simp_all add: s1_def)
  show "0 < n" using p d by (simp add: n_def)
  have pass: "wr_pass vt s data = (length ?b - m_CurPos s, s, data)" using p size [OF i c] by (simp add: wr_pass_def)
  have ns: "(if length ?b - m_CurPos s > length data then length data else length ?b - m_CurPos s) = n"
    by (simp add: n_def)
  show "wr_loop vt s data k = wr_loop vt s1 (drop n data) (k + n)"
    by (subst wr_loop.simps) (use d pass ns \<open>0 < n\<close> mem [OF i c] in \<open>simp add: Let_def s1_def\<close>)
  show "length (bs s1) = length (bs s)" using pk by simp
  have len: "length (patch (m_CurPos s) (take n data) ?b) = length ?b" using n0 by simp
  show "length (bs s1 ! i) = length (bs s ! i)" if "i < length (bs s)" for i
    using pk len that c by (cases "i = m_CurBlock s") auto
  show "wr_at s1" using pk len c p by (simp add: wr_at_def s1_def n_def)
  show "concat (bs s1) = patch (ps s) (take n data) (concat (bs s))"
    using poke_concat [OF c n0] pk by (simp add: ps_def)
  show l: "lin (bs s1) i q = lin (bs s) i q" for i q
    using pk c len by (simp add: lin_def length_concat_update)
  have "ps s1 = lin (bs s) (m_CurBlock s) (m_CurPos s + n)"
    unfolding s_pos_def by (subst l) (simp add: s1_def)
  then show "ps s1 = ps s + n" by (simp add: ps_def lin_def)
  show "ps s + n \<le> length (concat (bs s))"
  proof -
    have "m_CurPos s + n \<le> length ?b" using p by (simp add: n_def)
    from lin_block_le [OF c this] show ?thesis by (simp add: ps_def lin_def add.assoc)
  qed
qed

lemma wr_loop_next:
  assumes w: "wr_at s" and p: "m_CurPos s = length (bs s ! m_CurBlock s)" and d: "data \<noteq> []"
  obtains (refused) s' ext where "wr_loop vt s data k = Some (s', k)" "inv (st s')" "bs s' = bs s @ ext"
      "m_CurBlock s \<le> m_CurBlock s'" "m_LastBlock s' = m_LastBlock s" "m_LastPos s' = m_LastPos s"
  | (moved) s1 ext where "wr_loop vt s data k = wr_loop vt s1 data k" "wr_at s1" "m_CurPos s1 = 0"
      "bs s1 = bs s @ ext" "ps s1 = ps s" "m_CurBlock s1 = m_CurBlock s + 1"
      "m_LastBlock s1 = m_LastBlock s" "m_LastPos s1 = m_LastPos s"
proof -
  have i: "inv (st s)" and c: "m_CurBlock s < length (bs s)" using w by (simp_all add: wr_at_def)
  let ?s1 = "s\<lparr>m_CurBlock := m_CurBlock s + 1, m_CurPos := 0\<rparr>"
  have nx: "lin (bs s @ ext) (m_CurBlock s + 1) 0 = ps s" for ext
    using lin_next [OF c] lin_append [of "Suc (m_CurBlock s)" "bs s" ext 0] c p by (simp add: ps_def)
  show thesis
  proof (cases "m_CurBlock s + 1 < length (bs s)")
    case True
    then have "wr_pass vt s data = (0, ?s1, data)" using p size [OF i c] valid [OF i] by (simp add: wr_pass_def Let_def)
    then have "wr_loop vt s data k = wr_loop vt ?s1 data k"
      by (subst wr_loop.simps) (use d in \<open>simp add: Let_def\<close>)
    then show thesis
      by (rule moved [of ?s1 "[]"]) (use True i nx [of "[]"] in \<open>simp_all add: wr_at_def ps_def\<close>)
  next
    case False
    obtain x rv where a: "v_MemoryAdd vt (length data) (st s) = (x, rv)" by (cases "v_MemoryAdd vt (length data) (st s)")
    from add [OF i a] obtain ys where ys: "inv x" "blocks x = bs s @ ys" "rv \<longrightarrow> ys \<noteq> []" by blast
    have sz: "\<not> m_CurPos s < v_BlockSize vt (st s) (m_CurBlock s)" using p size [OF i c] by simp
    have nv: "\<not> v_ValidBlock vt (st s) (m_CurBlock s + 1)" using False valid [OF i] by simp
    show thesis
    proof (cases rv)
      case True
      with a sz nv have "wr_pass vt s data = (0, ?s1\<lparr>st := x\<rparr>, data)" by (simp add: wr_pass_def Let_def)
      then have "wr_loop vt s data k = wr_loop vt (?s1\<lparr>st := x\<rparr>) data k"
        by (subst wr_loop.simps) (use d in \<open>simp add: Let_def\<close>)
      then show thesis
        by (rule moved [of _ ys]) (use True ys c \<open>\<not> m_CurBlock s + 1 < length (bs s)\<close> nx [of ys] in \<open>auto simp: wr_at_def ps_def neq_Nil_conv\<close>)
    next
      case False
      with a sz nv have "wr_pass vt s data = (0, ?s1\<lparr>st := x\<rparr>, [])" by (simp add: wr_pass_def Let_def)
      then have "wr_loop vt s data k = Some (?s1\<lparr>st := x\<rparr>, k)"
        by (subst wr_loop.simps) (use d in \<open>simp add: Let_def\<close>)
      then show thesis by (rule refused [of _ ys]) (use ys in simp_all)
    qed
  qed
qed

text \<open>The result of the write loop, relative to the stream it started from.\<close>

definition wrote :: "'s stream \<Rightarrow> octets \<Rightarrow> nat \<Rightarrow> 's stream \<Rightarrow> bool" where
  "wrote s data j s' \<longleftrightarrow> inv (st s') \<and> j \<le> length data \<and>
     (\<exists>ext. concat (bs s') = patch (ps s) (take j data) (concat (bs s) @ ext)) \<and>
     (j = length data \<longrightarrow> wr_at s' \<and> ps s' = ps s + length data \<and> (data \<noteq> [] \<longrightarrow> m_CurPos s' > 0)) \<and>
     m_CurBlock s \<le> m_CurBlock s' \<and> m_LastBlock s' = m_LastBlock s \<and> m_LastPos s' = m_LastPos s \<and>
     length (bs s) \<le> length (bs s') \<and> (\<forall>i<length (bs s). length (bs s' ! i) = length (bs s ! i)) \<and>
     (\<forall>i q. i \<le> length (bs s) \<longrightarrow> lin (bs s') i q = lin (bs s) i q)"

lemma wr_at_ps: "wr_at s \<Longrightarrow> ps s \<le> length (concat (bs s))"
  by (simp add: wr_at_def ps_def lin_block_le)

lemma wr_loop_spec: "wr_at s \<Longrightarrow> \<exists>s' j. wr_loop vt s data k = Some (s', k + j) \<and> wrote s data j s'"
proof (induction "length data" arbitrary: s data k rule: less_induct)
  case less
  have fill: "\<exists>s' j. wr_loop vt s data k = Some (s', k + j) \<and> wrote s data j s'"
    if w: "wr_at s" and p: "m_CurPos s < length (bs s ! m_CurBlock s)" and d: "data \<noteq> []" for s k
  proof -
    define n where "n = min (length data) (length (bs s ! m_CurBlock s) - m_CurPos s)"
    define s1 where "s1 = s\<lparr>st := v_BlockPoke vt (st s) (m_CurBlock s) (m_CurPos s) (take n data), m_CurPos := m_CurPos s + n\<rparr>"
    note f = wr_loop_fill [OF w p d, folded n_def, folded s1_def]
    have nl: "n \<le> length data" by (simp add: n_def)
    have "length (drop n data) < length data" using f(2) d by simp
    from less.hyps [OF this f(3), of "k + n"] obtain s' j where
      r: "wr_loop vt s1 (drop n data) (k + n) = Some (s', k + n + j)" "wrote s1 (drop n data) j s'" by blast
    from r(2) obtain ext where ext: "concat (bs s') = patch (ps s1) (take j (drop n data)) (concat (bs s1) @ ext)"
      by (auto simp: wrote_def)
    have le: "ps s + n \<le> length (concat (bs s))" by (rule f(9))
    have "concat (bs s1) @ ext = patch (ps s) (take n data) (concat (bs s) @ ext)"
      using le nl by (simp add: f(4) patch_append_right)
    then have "concat (bs s') = patch (ps s) (take n data @ take j (drop n data)) (concat (bs s) @ ext)"
      using ext le nl patch_patch_adjacent [of "ps s" "take n data" "concat (bs s) @ ext" "take j (drop n data)"]
      by (simp add: f(5))
    then have pt: "\<exists>ext. concat (bs s') = patch (ps s) (take (n + j) data) (concat (bs s) @ ext)"
      by (auto simp: take_add)
    have "m_CurPos s' > 0" if "n + j = length data"
    proof (cases "drop n data = []")
      case True
      then show ?thesis using r(1) f(2) by (auto simp: s1_def)
    next
      case False
      then show ?thesis using r(2) that nl by (auto simp: wrote_def)
    qed
    then have "wrote s data (n + j) s'"
      using r(2) f(5-8) pt nl by (auto simp: wrote_def s1_def)
    then show ?thesis using f(1) r(1) by (auto simp: add.assoc)
  qed
  show ?case
  proof (cases "data = []")
    case True
    have "wrote s [] 0 s" using less.prems by (auto simp: wrote_def wr_at_def intro: exI [of _ "[]"])
    then show ?thesis using True by auto
  next
    case d: False
    show ?thesis
    proof (cases "m_CurPos s < length (bs s ! m_CurBlock s)")
      case True
      then show ?thesis using fill less.prems d by blast
    next
      case False
      then have "m_CurPos s = length (bs s ! m_CurBlock s)" using less.prems by (simp add: wr_at_def)
      then show ?thesis
      proof (cases rule: wr_loop_next [OF less.prems _ d, of k, case_names full refused moved])
        case (refused s' ext)
        have "wrote s data 0 s'" using refused d less.prems
          by (auto simp: wrote_def lin_append nth_append intro: exI [of _ "concat ext"])
        then show ?thesis using refused(1) by (intro exI [of _ s'] exI [of _ 0]) simp
      next
        case (moved s1 ext)
        have "bs s1 ! m_CurBlock s1 \<noteq> []" using moved(2) pos by (auto simp: wr_at_def)
        then have "m_CurPos s1 < length (bs s1 ! m_CurBlock s1)" using moved(3) by simp
        from fill [OF moved(2) this d, of k] obtain s' j where
          r: "wr_loop vt s1 data k = Some (s', k + j)" "wrote s1 data j s'" by blast
        from r(2) obtain e2 where "concat (bs s') = patch (ps s1) (take j data) (concat (bs s1) @ e2)"
          by (auto simp: wrote_def)
        then have "concat (bs s') = patch (ps s) (take j data) (concat (bs s) @ (concat ext @ e2))"
          using moved(4,5) by simp
        then have "wrote s data j s'"
          using r(2) moved(4-8) unfolding wrote_def by (auto simp: lin_append nth_append)
        then show ?thesis using moved(1) r(1) by auto
      qed
    qed
  qed
qed

lemma adjust_last_spec:
  assumes w: "wf s" and ne: "bs s \<noteq> []" and r: "wrote s data (length data) s1" and d: "data \<noteq> []"
  shows "wf (adjust_last s1) \<and>
    content (adjust_last s1) = take (ps s) (content s) @ data @ drop (ps s + length data) (content s) \<and>
    ps (adjust_last s1) = ps s + length data"
proof -
  let ?s2 = "adjust_last s1" and ?F = "concat (bs s)" and ?n = "length data"
  from r obtain ext where F: "concat (bs s1) = patch (ps s) data (?F @ ext)" by (auto simp: wrote_def)
  have a: "wr_at s1" "ps s1 = ps s + ?n" "m_CurPos s1 > 0" "m_LastBlock s1 = m_LastBlock s" "m_LastPos s1 = m_LastPos s"
    "length (bs s) \<le> length (bs s1)" "\<And>i. i < length (bs s) \<Longrightarrow> length (bs s1 ! i) = length (bs s ! i)"
    "\<And>i q. i \<le> length (bs s) \<Longrightarrow> lin (bs s1) i q = lin (bs s) i q"
    using r d by (auto simp: wrote_def)
  have lb: "m_LastBlock s < length (bs s)" "m_LastPos s \<le> length (bs s ! m_LastBlock s)"
    using w ne by (auto simp: wf_def)
  have st2: "st ?s2 = st s1" "m_CurBlock ?s2 = m_CurBlock s1" "m_CurPos ?s2 = m_CurPos s1"
    by (simp_all add: adjust_last_def)
  have w2: "wf ?s2"
  proof -
    have "bs s1 \<noteq> []" using a(1) by (auto simp: wr_at_def)
    moreover have "length (bs s1 ! m_LastBlock s) = length (bs s ! m_LastBlock s)" using a(7) lb(1) by simp
    moreover have "m_LastBlock s > 0 \<longrightarrow> m_LastPos s > 0" using w ne by (auto simp: wf_def)
    ultimately show ?thesis using a(1,3,4,5,6) lb
      by (simp add: adjust_last_def wf_def wr_at_def) linarith
  qed
  have L1: "lin (bs s1) (m_LastBlock s1) (m_LastPos s1) = ln s" using a lb by (simp add: ln_def)
  have ln2: "ln ?s2 = max (ln s) (ps s + ?n)"
  proof (cases "m_LastBlock s1 < m_CurBlock s1")
    case True
    then have "lin (bs s1) (m_LastBlock s1) (m_LastPos s1) \<le> lin (bs s1) (m_CurBlock s1) (m_CurPos s1)"
      using a lb by (intro lin_mono) (auto simp: wr_at_def)
    then show ?thesis using True L1 a(2) by (simp add: ln_def ps_def adjust_last_def max_def)
  next
    case False
    show ?thesis
    proof (cases "m_CurBlock s1 = m_LastBlock s1")
      case True
      then show ?thesis using L1 a(2) by (auto simp: ln_def ps_def adjust_last_def lin_def max_def)
    next
      case False
      with \<open>\<not> m_LastBlock s1 < m_CurBlock s1\<close> have lt: "m_CurBlock s1 < m_LastBlock s1" by simp
      then have "lin (bs s1) (m_CurBlock s1) (m_CurPos s1) \<le> lin (bs s1) (m_LastBlock s1) (m_LastPos s1)"
        using a lb by (intro lin_mono) (auto simp: wr_at_def)
      then show ?thesis using lt L1 a(2) by (simp add: ln_def ps_def adjust_last_def max_def)
    qed
  qed
  have p: "ps s \<le> ln s" "ln s \<le> length ?F" using wf_bounds [OF w] by auto
  have "content ?s2 = take (max (ln s) (ps s + ?n)) (patch (ps s) data (?F @ ext))"
    by (simp add: content_def ln2 st2 F)
  also have "\<dots> = take (ps s) (content s) @ data @ drop (ps s + ?n) (content s)"
    using p by (cases "ln s \<le> ps s + ?n") (auto simp: content_def patch_def max_def drop_take)
  finally show ?thesis using w2 a(2) st2 by (simp add: ps_def)
qed

text \<open>Whole writes, and writes that memory cut short.\<close>

lemma ArrayWr_spec:
  assumes w: "wf s"
  shows "\<exists>s' j. ArrayWr vt s (Some data) = Some (s', j) \<and> j \<le> length data \<and> inv (st s') \<and>
    (j = length data \<longrightarrow> wf s' \<and> content s' = take (ps s) (content s) @ data @ drop (ps s + j) (content s) \<and>
       ps s' = ps s + j)"
proof (cases "data = []")
  case True
  then show ?thesis using w by (auto simp: ArrayWr_def)
next
  case d: False
  have i: "inv (st s)" using w by simp
  obtain x rv where x: "(if v_MemoryChk vt (st s) then (st s, True) else v_MemoryAdd vt (length data) (st s)) = (x, rv)"
    by fastforce
  show ?thesis
  proof (cases rv)
    case False
    then have "inv x" using x add [OF i, of "length data" x False] by (auto split: if_splits)
    then show ?thesis using False x d by (auto simp: ArrayWr_def)
  next
    case True
    let ?s = "s\<lparr>st := x\<rparr>"
    obtain ys where ys: "inv x" "blocks x = bs s @ ys" "blocks x \<noteq> []" "bs s \<noteq> [] \<longrightarrow> x = st s"
    proof (cases "bs s = []")
      case e: True
      then have "v_MemoryAdd vt (length data) (st s) = (x, True)" using x True chk [OF i] by simp
      from add [OF i this] e show thesis by (auto intro: that)
    next
      case False
      then have "x = st s" using x True chk [OF i] by simp
      then show thesis using i False by (auto intro: that [of "[]"])
    qed
    have w1: "wf ?s \<and> content ?s = content s \<and> ps ?s = ps s"
    proof (cases "bs s = []")
      case True
      then show ?thesis using w ys by (auto simp: wf_def content_def ln_def ps_def lin_def)
    next
      case False
      then show ?thesis using w ys by simp
    qed
    then have "wr_at ?s" using ys by (auto simp: wr_at_def wf_def split: if_splits)
    from wr_loop_spec [OF this, of data 0] obtain s1 j where
      r: "wr_loop vt ?s data 0 = Some (s1, j)" "wrote ?s data j s1" by auto
    have e: "ArrayWr vt s (Some data) = Some (adjust_last s1, j)"
      using x r(1) True d by (simp add: ArrayWr_def)
    have j: "j \<le> length data" "inv (st (adjust_last s1))" using r(2) by (auto simp: wrote_def adjust_last_def)
    have "j = length data \<longrightarrow> wf (adjust_last s1) \<and>
        content (adjust_last s1) = take (ps s) (content s) @ data @ drop (ps s + j) (content s) \<and>
        ps (adjust_last s1) = ps s + j"
      using adjust_last_spec [of ?s data s1] w1 ys(3) r(2) d by auto
    then show ?thesis using e j by blast
  qed
qed

lemma seek_loop_spec:
  assumes "inv (st s)" "m_LastBlock s < length (bs s)" "m_LastPos s \<le> length (bs s ! m_LastBlock s)"
    "m_LastBlock s > 0 \<longrightarrow> m_LastPos s > 0" "i \<le> m_LastBlock s" "loc = lin (bs s) i 0" "loc \<le> p"
  shows "\<exists>a b. seek_loop vt s p loc i = (s\<lparr>m_CurPos := a, m_CurBlock := b\<rparr>, p \<le> ln s) \<and>
    wf (s\<lparr>m_CurPos := a, m_CurBlock := b\<rparr>) \<and> lin (bs s) b a = min p (ln s)"
  using assms
proof (induction "m_LastBlock s - i" arbitrary: s i loc)
  case 0
  then have i: "i = m_LastBlock s" by simp
  have ln: "ln s = loc + m_LastPos s" using 0 i by (simp add: ln_def lin_def)
  have v: "v_ValidBlock vt (st s) i" "\<not> m_LastBlock s < i" using 0 i valid by auto
  show ?case
  proof (cases "loc + m_LastPos s \<ge> p")
    case True
    then have "seek_loop vt s p loc i = (s\<lparr>m_CurPos := p - loc, m_CurBlock := i\<rparr>, True)"
      by (subst seek_loop.simps) (use v i in \<open>simp add: Let_def\<close>)
    then show ?thesis using True 0 i ln
      by (intro exI [of _ "p - loc"] exI [of _ i]) (auto simp: wf_def lin_def min_def)
  next
    case False
    then have "seek_loop vt s p loc i = (s\<lparr>m_CurPos := m_LastPos s, m_CurBlock := i\<rparr>, False)"
      by (subst seek_loop.simps) (use v i in \<open>simp add: Let_def seek_loop.simps\<close>)
    then show ?thesis using False 0 i ln
      by (intro exI [of _ "m_LastPos s"] exI [of _ i]) (auto simp: wf_def lin_def min_def)
  qed
next
  case (Suc n)
  then have i: "i < m_LastBlock s" by simp
  let ?sz = "length (bs s ! i)"
  have c: "i < length (bs s)" using i Suc by simp
  have v: "v_ValidBlock vt (st s) i" "\<not> m_LastBlock s < i" "v_BlockSize vt (st s) i = ?sz"
    using Suc.prems i c valid size by auto
  have nx: "lin (bs s) (Suc i) 0 = loc + ?sz" using lin_next [OF c] Suc.prems by (simp add: lin_def)
  show ?case
  proof (cases "loc + ?sz \<ge> p")
    case True
    then have "seek_loop vt s p loc i = (s\<lparr>m_CurPos := p - loc, m_CurBlock := i\<rparr>, True)"
      by (subst seek_loop.simps) (use v i in \<open>simp add: Let_def\<close>)
    moreover have "lin (bs s) (Suc i) 0 \<le> ln s"
      unfolding ln_def
    proof (cases "Suc i = m_LastBlock s")
      case False
      with i Suc.prems show "lin (bs s) (Suc i) 0 \<le> lin (bs s) (m_LastBlock s) (m_LastPos s)"
        by (intro lin_mono) auto
    qed (simp add: lin_def)
    ultimately show ?thesis using True Suc.prems i nx
      by (intro exI [of _ "p - loc"] exI [of _ i]) (auto simp: wf_def lin_def min_def)
  next
    case False
    let ?s = "s\<lparr>m_CurPos := ?sz, m_CurBlock := i\<rparr>"
    have e: "seek_loop vt s p loc i = seek_loop vt ?s p (loc + ?sz) (Suc i)"
      by (subst seek_loop.simps) (use False v i in \<open>simp add: Let_def\<close>)
    have "\<exists>a b. seek_loop vt ?s p (loc + ?sz) (Suc i) = (?s\<lparr>m_CurPos := a, m_CurBlock := b\<rparr>, p \<le> ln ?s) \<and>
        wf (?s\<lparr>m_CurPos := a, m_CurBlock := b\<rparr>) \<and> lin (bs ?s) b a = min p (ln ?s)"
      by (rule Suc.hyps(1)) (use Suc.hyps(2) Suc.prems i nx False in auto)
    moreover have "ln ?s = ln s" by (simp add: ln_def)
    ultimately show ?thesis using e by simp
  qed
qed

lemma Seek_spec:
  assumes "wf s" "bs s \<noteq> []"
  shows "\<exists>s'. Seek vt s p = (s', p \<le> length (content s)) \<and> wf s' \<and> st s' = st s \<and> content s' = content s \<and>
    ps s' = min p (length (content s))"
proof -
  have "\<exists>a b. seek_loop vt s p 0 0 = (s\<lparr>m_CurPos := a, m_CurBlock := b\<rparr>, p \<le> ln s) \<and>
      wf (s\<lparr>m_CurPos := a, m_CurBlock := b\<rparr>) \<and> lin (bs s) b a = min p (ln s)"
    by (rule seek_loop_spec) (use assms in \<open>auto simp: wf_def lin_def\<close>)
  then obtain a b where r: "seek_loop vt s p 0 0 = (s\<lparr>m_CurPos := a, m_CurBlock := b\<rparr>, p \<le> ln s)"
    "wf (s\<lparr>m_CurPos := a, m_CurBlock := b\<rparr>)" "lin (bs s) b a = min p (ln s)" by blast
  show ?thesis
    by (intro exI [of _ "s\<lparr>m_CurPos := a, m_CurBlock := b\<rparr>"])
      (use r length_content [OF assms(1)] in \<open>simp add: Seek_def content_def ln_def ps_def\<close>)
qed

lemma Seek_empty: "wf s \<Longrightarrow> bs s = [] \<Longrightarrow> Seek vt s p = (s, False)"
  by (simp add: Seek_def seek_loop.simps valid)

lemma ps_le: "wf s \<Longrightarrow> ps s \<le> length (content s)"
  using wf_bounds(1) [of s] length_content [of s] by simp

lemma ArrayWr_patch:
  assumes w: "wf s"
  shows "\<exists>s' j. ArrayWr vt s (Some data) = Some (s', j) \<and> j \<le> length data \<and> inv (st s') \<and>
    (j = length data \<longrightarrow> wf s' \<and> content s' = patch (ps s) data (content s) \<and> ps s' = ps s + length data)"
  using ArrayWr_spec [OF w, of data] by (auto simp: patch_def)

lemma block_of_pos:
  assumes w: "wf s" and lt: "ps s < length (content s)" and c: "m_CurPos s < length (bs s ! m_CurBlock s)"
  shows "m_CurBlock s < length (bs s)" "bs s ! m_CurBlock s ! m_CurPos s = content s ! ps s"
proof -
  have ne: "bs s \<noteq> []" using w lt by (auto simp: content_def wf_def)
  then show cb: "m_CurBlock s < length (bs s)" using w by (auto simp: wf_def split: if_splits)
  have "take 1 (drop (m_CurPos s) (bs s ! m_CurBlock s)) = take 1 (drop (ps s) (content s))"
  proof (rule advance(5) [OF w _ ne])
    show "m_CurPos s + 1 \<le> (if m_CurBlock s < m_LastBlock s then length (bs s ! m_CurBlock s) else m_LastPos s)"
      using at_end [OF w] lt length_content [OF w] c by auto
  qed
  then show "bs s ! m_CurBlock s ! m_CurPos s = content s ! ps s"
    using lt c by (simp add: take_Suc_conv_app_nth hd_drop_conv_nth take_Suc)
qed

text \<open>\<open>Peek\<close> shows the next octet, except at the end of a block that another one follows.\<close>

lemma Peek_spec:
  assumes w: "wf s"
  shows "Peek vt s = (if ps s < length (content s)
    then (if m_CurPos s < length (bs s ! m_CurBlock s) then Some (content s ! ps s) else None) else Some 0)"
proof (cases "ps s < length (content s)")
  case False
  then show ?thesis using Readable_spec [OF w] by (simp add: Peek_def)
next
  case True
  then have "bs s \<noteq> []" by (auto simp: content_def)
  then have cb: "m_CurBlock s < length (bs s)" using w by (auto simp: wf_def split: if_splits)
  then show ?thesis using True Readable_spec [OF w] block_of_pos [OF w True] mem w by (simp add: Peek_def)
qed

lemma Read_octet_spec:
  assumes w: "wf s"
  shows "if ps s < length (content s)
    then \<exists>s'. Read_octet vt s = (s', Some (content s ! ps s)) \<and> wf s' \<and> st s' = st s \<and> content s' = content s \<and> ps s' = ps s + 1
    else \<exists>s'. Read_octet vt s = (s', None) \<and> wf s' \<and> st s' = st s \<and> content s' = content s \<and> ps s' = ps s"
proof -
  obtain s' r where rd: "ArrayRd vt s 1 = (s', r)" by fastforce
  from ArrayRd_spec [OF w rd] show ?thesis
    using ps_le [OF w] rd by (auto simp: Read_octet_def take_Suc hd_drop_conv_nth)
qed

lemma line_loop_spec:
  assumes "wf s" "length (content s) - ps s < fuel"
  shows "\<exists>s' rv. line_loop fuel vt s Term dis Line =
      Some (s', Line @ filter (\<lambda>c. c \<noteq> 0) (takeWhile (\<lambda>c. c \<noteq> Term) (drop (ps s) (content s))) @ (if rv \<and> \<not> dis then [Term] else []), rv) \<and>
    rv = (Term \<in> set (drop (ps s) (content s))) \<and> wf s' \<and> content s' = content s \<and>
    ps s' = ps s + length (takeWhile (\<lambda>c. c \<noteq> Term) (drop (ps s) (content s))) + of_bool rv"
  using assms
proof (induction fuel arbitrary: s Line)
  case (Suc fuel)
  show ?case
  proof (cases "ps s < length (content s)")
    case False
    then obtain s1 where "Read_octet vt s = (s1, None)" "wf s1" "content s1 = content s" "ps s1 = ps s"
      using Read_octet_spec [OF Suc.prems(1)] by auto
    then show ?thesis using False by (intro exI [of _ s1] exI [of _ False]) simp
  next
    case True
    then obtain s1 where s1: "Read_octet vt s = (s1, Some (content s ! ps s))" "wf s1" "content s1 = content s" "ps s1 = ps s + 1"
      using Read_octet_spec [OF Suc.prems(1)] by auto
    have dr: "drop (ps s) (content s) = content s ! ps s # drop (ps s1) (content s1)"
      using True s1 by (simp add: Cons_nth_drop_Suc)
    show ?thesis
    proof (cases "content s ! ps s = Term")
      case True
      then show ?thesis using s1 dr by (intro exI [of _ s1] exI [of _ True]) simp
    next
      case False
      let ?L = "if content s ! ps s \<noteq> 0 then Line @ [content s ! ps s] else Line"
      have "length (content s1) - ps s1 < fuel" using Suc.prems(2) True s1 by simp
      from Suc.IH [OF s1(2) this, of ?L] obtain s' rv where r:
        "line_loop fuel vt s1 Term dis ?L =
          Some (s', ?L @ filter (\<lambda>c. c \<noteq> 0) (takeWhile (\<lambda>c. c \<noteq> Term) (drop (ps s1) (content s1))) @ (if rv \<and> \<not> dis then [Term] else []), rv)"
        "rv = (Term \<in> set (drop (ps s1) (content s1)))" "wf s'" "content s' = content s1"
        "ps s' = ps s1 + length (takeWhile (\<lambda>c. c \<noteq> Term) (drop (ps s1) (content s1))) + of_bool rv" by blast
      have "line_loop (Suc fuel) vt s Term dis Line = line_loop fuel vt s1 Term dis ?L"
        using s1(1) False by simp
      then show ?thesis unfolding dr
        by (intro exI [of _ s'] exI [of _ rv]) (use r False s1(3,4) in simp)
    qed
  qed
qed simp

lemma ReadLine_spec:
  assumes "wf s"
  shows "\<exists>s' rv. ReadLine vt s Term dis = Some (s',
      filter (\<lambda>c. c \<noteq> 0) (takeWhile (\<lambda>c. c \<noteq> Term) (drop (ps s) (content s))) @ (if rv \<and> \<not> dis then [Term] else []),
      rv \<or> filter (\<lambda>c. c \<noteq> 0) (drop (ps s) (content s)) \<noteq> []) \<and>
    rv = (Term \<in> set (drop (ps s) (content s))) \<and> wf s' \<and> content s' = content s \<and>
    ps s' = ps s + length (takeWhile (\<lambda>c. c \<noteq> Term) (drop (ps s) (content s))) + of_bool rv"
proof -
  let ?d = "drop (ps s) (content s)"
  have "length (content s) - ps s < LenGet vt s + 1" using LenGet_spec [OF assms] by simp
  from line_loop_spec [OF assms this, of Term dis "[]"] obtain s' rv where r:
    "line_loop (LenGet vt s + 1) vt s Term dis [] = Some (s',
      filter (\<lambda>c. c \<noteq> 0) (takeWhile (\<lambda>c. c \<noteq> Term) ?d) @ (if rv \<and> \<not> dis then [Term] else []), rv)"
    "rv = (Term \<in> set ?d)" "wf s'" "content s' = content s"
    "ps s' = ps s + length (takeWhile (\<lambda>c. c \<noteq> Term) ?d) + of_bool rv" by auto
  have all: "takeWhile (\<lambda>c. c \<noteq> Term) ?d = ?d" if "\<not> rv" using that r(2) by (auto simp: takeWhile_eq_all_conv)
  have "ReadLine vt s Term dis = Some (s',
      filter (\<lambda>c. c \<noteq> 0) (takeWhile (\<lambda>c. c \<noteq> Term) ?d) @ (if rv \<and> \<not> dis then [Term] else []),
      rv \<or> filter (\<lambda>c. c \<noteq> 0) ?d \<noteq> [])"
  proof (cases rv)
    case False
    then show ?thesis using r(1) unfolding ReadLine_def all [OF False] by simp
  qed (use r(1) in \<open>simp add: ReadLine_def del: line_loop.simps\<close>)
  then show ?thesis using r(2-5) by blast
qed

lemma emits_ArrayWr: "s_emits inv blocks (\<lambda>s. map_option (\<lambda>(s1, n). (s1, n = length data)) (ArrayWr vt s (Some data))) data"
  unfolding s_emits_def using ArrayWr_patch [of _ data] by fastforce

lemma emits_octet: "s_emits inv blocks (\<lambda>s. Write_octet vt s b) [b]"
  using emits_ArrayWr [of "[b]"] by (simp add: Write_octet_def)

lemma emits_then:
  assumes "s_emits inv blocks f d1" "s_emits inv blocks g d2"
  shows "s_emits inv blocks (\<lambda>s. do { (s1, rv) \<leftarrow> f s; if rv then g s1 else Some (s1, False) }) (d1 @ d2)"
  unfolding s_emits_def
proof (intro allI impI)
  fix s assume w: "wf s"
  with assms(1) obtain s1 r1 where f: "f s = Some (s1, r1)" "inv (st s1)"
    "r1 \<longrightarrow> wf s1 \<and> content s1 = patch (ps s) d1 (content s) \<and> ps s1 = ps s + length d1"
    unfolding s_emits_def by blast
  show "\<exists>s' rv. do { (s1, rv) \<leftarrow> f s; if rv then g s1 else Some (s1, False) } = Some (s', rv) \<and> inv (st s') \<and>
      (rv \<longrightarrow> s_wf blocks s' \<and> content s' = patch (ps s) (d1 @ d2) (content s) \<and> ps s' = ps s + length (d1 @ d2))"
  proof (cases r1)
    case False
    then show ?thesis using f by (intro exI [of _ s1] exI [of _ False]) simp
  next
    case True
    with f assms(2) obtain s2 r2 where g: "g s1 = Some (s2, r2)" "inv (st s2)"
      "r2 \<longrightarrow> wf s2 \<and> content s2 = patch (ps s1) d2 (content s1) \<and> ps s2 = ps s1 + length d2"
      unfolding s_emits_def by blast
    then show ?thesis using f True patch_patch_seq [OF ps_le [OF w], of d1 d2] by simp
  qed
qed

lemma emits_octets: "s_emits inv blocks (octets_insert vt data) data"
proof (induction data)
  case Nil
  then show ?case by (simp add: s_emits_def ex_bool_eq)
next
  case (Cons b data)
  have "octets_insert vt (b # data) = (\<lambda>s. do { (s1, rv) \<leftarrow> Write_octet vt s b; if rv then octets_insert vt data s1 else Some (s1, False) })"
    by (simp add: fun_eq_iff)
  then show ?case using emits_then [OF emits_octet Cons.IH, of b] by simp
qed

lemma emits_String: "s_emits inv blocks (StringInsert vt data) data"
proof -
  have "StringInsert vt data = (\<lambda>s. map_option (\<lambda>(s1, n). (s1, n = length data)) (ArrayWr vt s (Some data)))"
    by (auto simp: StringInsert_def fun_eq_iff split: option.splits bind_splits)
  then show ?thesis using emits_ArrayWr by simp
qed

lemma emits_CString: "s_emits inv blocks (CStringInsert vt data) (data @ [0])"
proof -
  have "CStringInsert vt data = (\<lambda>s. do { (s1, rv) \<leftarrow> StringInsert vt data s; if rv then Write_octet vt s1 0 else Some (s1, False) })"
    by (auto simp: CStringInsert_def StringInsert_def fun_eq_iff split: option.splits bind_splits)
  then show ?thesis using emits_then [OF emits_String emits_octet] by simp
qed

lemma emits_Blob: "buf_ok b \<Longrightarrow> s_emits inv blocks (BlobInsert vt b) (buf_data b)"
proof (cases "m_PtrBlock b")
  case None
  assume "buf_ok b"
  then show ?thesis using None
    by (simp add: s_emits_def BlobInsert_def Write_Buf_def Buf_u_str_def ArrayWr_def buf_data_def buf_ok_def
        Buf_LenGet_def Buf_Size_def ex_bool_eq)
next
  case (Some m)
  assume ok: "buf_ok b"
  then have "length (take (m_DataLen b) m) = m_DataLen b" using Some by (simp add: buf_ok_def Buf_Size_def)
  then have "BlobInsert vt b = (\<lambda>s. map_option (\<lambda>(s1, n). (s1, n = length (buf_data b))) (ArrayWr vt s (Some (buf_data b))))"
    using Some by (auto simp: BlobInsert_def Write_Buf_def Buf_u_str_def buf_data_def Buf_LenGet_def fun_eq_iff
        split: option.splits bind_splits)
  then show ?thesis using emits_ArrayWr by simp
qed

lemma Skip_spec:
  assumes w: "wf s" and ne: "bs s \<noteq> []" and len: "length (content s) < 2 ^ 64 - 1" and n: "ps s + n < 2 ^ 64"
  shows "\<exists>s'. Skip vt s n = (s', n > 0 \<and> ps s + n \<le> length (content s)) \<and> wf s' \<and> content s' = content s \<and>
    ps s' = (if n > 0 then min (ps s + n) (length (content s)) else length (content s))"
proof (cases "n > 0")
  case True
  have "(ps s + n) mod 2 ^ 64 = ps s + n" using n by (rule mod_less)
  then have "Skip vt s n = Seek vt s (ps s + n)" using True Pos_spec [OF w] by (simp add: Skip_def Let_def)
  then show ?thesis using True Seek_spec [OF w ne, of "ps s + n"] by auto
next
  case False
  have "\<not> ps s < ps s mod 2 ^ 64" by (simp add: not_less)
  then have "Skip vt s n = Seek vt s (2 ^ 64 - 1)" using False Pos_spec [OF w] unfolding Skip_def Let_def by simp
  then show ?thesis using False Seek_spec [OF w ne, of "2 ^ 64 - 1"] len by auto
qed

lemma Back_spec:
  assumes w: "wf s" and ne: "bs s \<noteq> []"
  shows "\<exists>s'. Back vt s n = (s', n \<le> ps s) \<and> wf s' \<and> content s' = content s \<and> ps s' = ps s - n"
  using Seek_spec [OF w ne, of "ps s - n"] Seek_spec [OF w ne, of 0] Pos_spec [OF w] ps_le [OF w]
  by (cases "n \<le> ps s") (auto simp: Back_def Let_def)

lemma Clear_spec: "wf s \<Longrightarrow> wf (Stream_Clear vt s) \<and> content (Stream_Clear vt s) = [] \<and> ps (Stream_Clear vt s) = 0"
  using free by (simp add: Stream_Clear_def Stream_new_def wf_def content_def ln_def ps_def lin_def)

lemma Read_Buf_spec:
  assumes w: "wf s" and al: "allocator al" and r: "Read_Buf al vt s b Len = (s', b', n)"
  defines "len0 \<equiv> min Len (length (content s))"
  shows "if Buf_Size b < len0 \<and> al len0 = None
    then s' = s \<and> n = len0 \<and> buf_data b' = []
    else wf s' \<and> content s' = content s \<and> buf_data b' = take len0 (drop (ps s) (content s)) \<and>
      n = length (buf_data b') \<and> ps s' = ps s + n"
proof -
  have l0: "(if Len < LenGet vt s then Len else LenGet vt s) = len0"
    using LenGet_spec [OF w] by (simp add: len0_def)
  define b1 where "b1 = (if Buf_Size b < len0 then fst (Buf_Resize al len0 b) else b)"
  define ok where "ok = (if Buf_Size b < len0 then snd (Buf_Resize al len0 b) else True)"
  have e: "(if Buf_Size b < len0 then Buf_Resize al len0 b else (b, True)) = (b1, ok)"
    by (simp add: b1_def ok_def)
  show ?thesis
  proof (cases "Buf_Size b < len0 \<and> al len0 = None")
    case True
    then have "b1 = \<lparr>m_PtrBlock = None, m_DataLen = 0\<rparr>" "\<not> ok"
      using allocator.Resize_cases [OF al, of len0 b] by (auto simp: b1_def ok_def Buf_Resize_def Buf_Clear_def Let_def)
    then show ?thesis using True r e unfolding Read_Buf_def l0 by (auto simp: buf_data_def)
  next
    case False
    have sz: "len0 \<le> Buf_Size b1" "ok"
      using False allocator.Resize_cases [OF al, of len0 b] by (cases rule: allocator.Resize_cases [OF al, of len0 b]; auto simp: b1_def ok_def)+
    obtain s1 out where rd: "ArrayRd vt s len0 = (s1, out)" by fastforce
    note a = ArrayRd_spec [OF w rd]
    show ?thesis
    proof (cases "m_PtrBlock b1")
      case None
      then have "len0 = 0" using sz by (simp add: Buf_Size_def)
      moreover have "s' = s" "b' = Buf_LenSet 0 b1" "n = 0"
        using r e sz None unfolding Read_Buf_def l0 by auto
      ultimately show ?thesis using None w by (simp add: buf_data_def Buf_LenSet_def)
    next
      case (Some m)
      then have res: "s' = s1" "b' = Buf_LenSet (length out) (b1\<lparr>m_PtrBlock := Some (patch 0 out m)\<rparr>)" "n = length out"
        using r e sz rd unfolding Read_Buf_def l0 by auto
      have lo: "length out \<le> length m" using a sz Some by (simp add: Buf_Size_def)
      have "buf_data b' = out" using lo by (auto simp: res(2) buf_data_def Buf_LenSet_def patch_def)
      then show ?thesis using False a res(1,3) ps_le [OF w] by auto
    qed
  qed
qed

lemma assign_stream_spec:
  assumes w: "wf s" and al: "allocator al"
  shows "if content s = [] then Buf_assign_stream al vt s b = (s, b)
    else al (length (content s)) \<noteq> None \<longrightarrow>
      (\<exists>s' b'. Buf_assign_stream al vt s b = (s', b') \<and> buf_data b' = content s \<and> wf s' \<and> content s' = content s)"
proof (cases "content s = []")
  case True
  then show ?thesis using LenGet_spec [OF w] by (simp add: Buf_assign_stream_def)
next
  case False
  then have ne: "bs s \<noteq> []" by (auto simp: content_def)
  from Seek_spec [OF w ne, of 0] obtain s0 where s0: "Seek vt s 0 = (s0, True)" "wf s0" "content s0 = content s" "ps s0 = 0"
    by auto
  obtain s' b' n where r: "Read_Buf al vt s0 b (LenGet vt s) = (s', b', n)" by (metis prod_cases3)
  have "Buf_assign_stream al vt s b = (s', b')"
    using r s0(1) False LenGet_spec [OF w] by (simp add: Buf_assign_stream_def Let_def)
  then show ?thesis using Read_Buf_spec [OF s0(2) al r] s0(3,4) LenGet_spec [OF w] False by auto
qed

lemma CalcCrc32_resume:
  "c = 0xffffffff \<and> p = [] \<or> c = ref_crc32 p \<and> c \<noteq> 0xffffffff \<Longrightarrow>
   CalcCrc32 (Some m) n c = ref_crc32 (p @ take n m)"
  by (auto simp: CalcCrc32_ref_form ref_crc32_def xor.assoc)

lemma crc_blocks_spec:
  assumes "inv x" "crc_boundary_ok (blocks x)" "length (concat (take i (blocks x))) + Len \<le> length (concat (blocks x))" "0 < Len"
    "length (blocks x) - i \<le> fuel" "c = (if i = 0 then 0xffffffff else ref_crc32 (concat (take i (blocks x))))"
  shows "crc_blocks vt x fuel i Len c = ref_crc32 (take (length (concat (take i (blocks x))) + Len) (concat (blocks x)))"
  using assms
proof (induction fuel arbitrary: i Len c)
  case 0
  then show ?case by simp
next
  case (Suc fuel)
  let ?B = "blocks x" and ?P = "concat (take i (blocks x))"
  have i: "i < length ?B"
  proof (rule ccontr)
    assume "\<not> i < length ?B"
    then show False using Suc.prems by simp
  qed
  let ?b = "?B ! i" and ?sz = "min (length (?B ! i)) Len"
  have sp: "concat ?B = ?P @ ?b @ concat (drop (Suc i) ?B)" by (rule concat_split [OF i])
  have "c = 0xffffffff \<and> ?P = [] \<or> c = ref_crc32 ?P \<and> c \<noteq> 0xffffffff"
    using Suc.prems(2,6) i by (auto simp: crc_boundary_ok_def)
  from CalcCrc32_resume [OF this, of ?b ?sz]
  have c1: "CalcCrc32 (Some ?b) ?sz c = ref_crc32 (?P @ take ?sz ?b)" .
  have step: "crc_blocks vt x (Suc fuel) i Len c = crc_blocks vt x fuel (Suc i) (Len - ?sz) (ref_crc32 (?P @ take ?sz ?b))"
    using Suc.prems(1,4) i c1 by (cases "length ?b \<le> Len") (auto simp add: valid size mem Let_def min_def)
  show ?case
  proof (cases "Len \<le> length ?b")
    case True
    have fin: "crc_blocks vt x fuel (Suc i) 0 r = r" for r by (cases fuel) simp_all
    have "take (length ?P + Len) (concat ?B) = ?P @ take Len ?b" using True by (subst sp) simp
    then show ?thesis unfolding step using True by (simp add: fin min_def)
  next
    case False
    have P': "concat (take (Suc i) ?B) = ?P @ ?b" using i by (simp add: take_Suc_conv_app_nth)
    have "crc_blocks vt x fuel (Suc i) (Len - length ?b) (ref_crc32 (?P @ ?b)) =
        ref_crc32 (take (length (concat (take (Suc i) ?B)) + (Len - length ?b)) (concat ?B))"
      by (rule Suc.IH) (use Suc.prems False P' in auto)
    then show ?thesis using step False P' by (simp add: min_def)
  qed
qed

lemma Crc32Get_spec:
  assumes w: "wf s" and b: "crc_boundary_ok (bs s)" and n: "length (bs s) \<le> n"
  shows "Stream_Crc32Get n vt s 0 = (if content s = [] then 0xffffffff else ref_crc32 (content s))"
proof (cases "content s = []")
  case True
  then show ?thesis using LenGet_spec [OF w] by (cases n) (simp_all add: Stream_Crc32Get_def)
next
  case False
  then have "0 < ln s" using length_content [OF w] by (cases "content s") auto
  then have "crc_blocks vt (st s) n 0 (length (content s)) 0xffffffff = ref_crc32 (take (length (content s)) (concat (bs s)))"
    using crc_blocks_spec [where x = "st s" and i = 0 and Len = "length (content s)" and fuel = n and c = "0xffffffff"] w b n wf_bounds(2) [OF w] length_content [OF w]
    by simp
  moreover have "Stream_Crc32Get n vt s 0 = crc_blocks vt (st s) n 0 (length (content s)) 0xffffffff"
    using False LenGet_spec [OF w] by (simp add: Stream_Crc32Get_def)
  moreover have "take (length (content s)) (concat (bs s)) = content s"
    unfolding length_content [OF w] by (simp add: content_def)
  ultimately show ?thesis using False by simp
qed

end

end
