(* ===== verification/StreamBuf.thy ===== *)
theory StreamBuf
  imports StreamProps
begin

text \<open>
  \<open>cpStreamBuf\<close>: the stream over blocks of the memory manager. \<open>sb_al k\<close> is the manager's
  answer to the k-th request of this stream, so any pattern of refusals and any contents of the
  delivered blocks are covered. The class interprets \<open>block_store\<close>; its properties are the
  stream's specification on this storage.
\<close>

section \<open>Operations\<close>

record streambuf =
  m_VecBlocks :: "octets list"
  sb_reqs :: nat
  sb_al :: "nat \<Rightarrow> nat \<Rightarrow> octets option"

definition k_MinStreamBlockSize :: nat where "k_MinStreamBlockSize = 256"

definition sb_MemoryFree :: "streambuf \<Rightarrow> streambuf" where
  "sb_MemoryFree x = x\<lparr>m_VecBlocks := []\<rparr>"

definition sb_MemoryAdd :: "nat \<Rightarrow> streambuf \<Rightarrow> streambuf \<times> bool" where
  "sb_MemoryAdd Size x =
     (let blkSize = (if Size > k_MinStreamBlockSize then Size else k_MinStreamBlockSize);
          x1 = x\<lparr>sb_reqs := Suc (sb_reqs x)\<rparr>
      in case sb_al x (sb_reqs x) blkSize of
           None \<Rightarrow> (x1, False)
         | Some pMem \<Rightarrow> (x1\<lparr>m_VecBlocks := m_VecBlocks x1 @ [pMem]\<rparr>, True))"

definition sb_ValidBlock :: "streambuf \<Rightarrow> nat \<Rightarrow> bool" where
  "sb_ValidBlock x Block = (Block < length (m_VecBlocks x))"

definition sb_BlockMem :: "streambuf \<Rightarrow> nat \<Rightarrow> octets option" where
  "sb_BlockMem x Block = (if sb_ValidBlock x Block then Some (m_VecBlocks x ! Block) else None)"

definition sb_BlockPoke :: "streambuf \<Rightarrow> nat \<Rightarrow> nat \<Rightarrow> octets \<Rightarrow> streambuf" where
  "sb_BlockPoke x Block off d = x\<lparr>m_VecBlocks := (m_VecBlocks x)[Block := patch off d (m_VecBlocks x ! Block)]\<rparr>"

definition sb_BlockSize :: "streambuf \<Rightarrow> nat \<Rightarrow> nat" where
  "sb_BlockSize x Block = (if Block < length (m_VecBlocks x) then length (m_VecBlocks x ! Block) else 0)"

definition StreamBuf_vt :: "streambuf vtable" where
  "StreamBuf_vt =
     \<lparr>v_MemoryFree = sb_MemoryFree, v_MemoryAdd = sb_MemoryAdd,
      v_MemoryChk = (\<lambda>x. length (m_VecBlocks x) > 0), v_ValidBlock = sb_ValidBlock,
      v_BlockMem = sb_BlockMem, v_BlockPoke = sb_BlockPoke, v_BlockSize = sb_BlockSize\<rparr>"

definition sb_null :: "(nat \<Rightarrow> nat \<Rightarrow> octets option) \<Rightarrow> streambuf" where
  "sb_null al = \<lparr>m_VecBlocks = [], sb_reqs = 0, sb_al = al\<rparr>"

definition StreamBuf_new :: "(nat \<Rightarrow> nat \<Rightarrow> octets option) \<Rightarrow> nat \<Rightarrow> streambuf stream" where
  "StreamBuf_new al Size = Stream_new (fst (sb_MemoryAdd Size (sb_null al)))"

definition StreamBuf_assign_Buffer :: "buffer \<Rightarrow> streambuf stream \<Rightarrow> streambuf stream option" where
  "StreamBuf_assign_Buffer rhs s =
     map_option fst (Write_Buf StreamBuf_vt (Stream_Clear StreamBuf_vt s) rhs (Buf_LenGet rhs))"

text \<open>Assignment from another stream: the source afterwards, and the target.\<close>

definition StreamBuf_assign ::
  "(nat \<Rightarrow> octets option) \<Rightarrow> streambuf stream \<Rightarrow> streambuf stream \<Rightarrow> (streambuf stream \<times> streambuf stream) option" where
  "StreamBuf_assign al rhs s =
     (case Buf_assign_stream al StreamBuf_vt rhs Buf_null of
        (rhs1, buf) \<Rightarrow> map_option (Pair rhs1) (StreamBuf_assign_Buffer buf s))"

text \<open>\<open>TransferBlocksFrom\<close>: the source afterwards, and the target.\<close>

definition TransferBlocksFrom :: "streambuf stream \<Rightarrow> streambuf stream \<Rightarrow> streambuf stream \<times> streambuf stream" where
  "TransferBlocksFrom src s =
     (let s1 = Stream_Clear StreamBuf_vt s;
          s2 = s1\<lparr>st := (st s1)\<lparr>m_VecBlocks := m_VecBlocks (st src)\<rparr>,
                  m_CurBlock := m_CurBlock src, m_CurPos := m_CurPos src,
                  m_LastBlock := m_LastBlock src, m_LastPos := m_LastPos src\<rparr>;
          src1 = src\<lparr>st := (st src)\<lparr>m_VecBlocks := []\<rparr>\<rparr>
      in (Stream_Clear StreamBuf_vt src1, s2))"

section \<open>The storage interface\<close>

definition sb_inv :: "streambuf \<Rightarrow> bool" where
  "sb_inv x \<longleftrightarrow> (\<forall>b\<in>set (m_VecBlocks x). b \<noteq> []) \<and> (\<forall>k. allocator (sb_al x k))"

lemma sb_MemoryAdd_cases:
  assumes "sb_inv x" "sb_MemoryAdd n x = (x', rv)"
  shows "sb_inv x' \<and> (\<exists>ys. m_VecBlocks x' = m_VecBlocks x @ ys \<and> (rv \<longrightarrow> ys \<noteq> []))"
proof (cases "sb_al x (sb_reqs x) (max n k_MinStreamBlockSize)")
  case None
  then show ?thesis using assms
    by (auto simp: sb_MemoryAdd_def sb_inv_def Let_def max_def split: if_splits)
next
  case (Some b)
  have "max n k_MinStreamBlockSize \<le> length b"
  proof (rule allocator.al_size)
    show "allocator (sb_al x (sb_reqs x))" using assms(1) by (simp add: sb_inv_def)
  qed (rule Some)
  then have "b \<noteq> []" by (auto simp: k_MinStreamBlockSize_def)
  then show ?thesis using assms Some
    by (auto simp: sb_MemoryAdd_def sb_inv_def Let_def max_def split: if_splits)
qed

interpretation sb: block_store StreamBuf_vt m_VecBlocks sb_inv
proof
  fix x :: streambuf and i off and d :: octets
  assume "sb_inv x" "i < length (m_VecBlocks x)" "off + length d \<le> length (m_VecBlocks x ! i)"
  then show "sb_inv (v_BlockPoke StreamBuf_vt x i off d) \<and>
      m_VecBlocks (v_BlockPoke StreamBuf_vt x i off d) = (m_VecBlocks x)[i := patch off d (m_VecBlocks x ! i)]"
    by (auto simp: StreamBuf_vt_def sb_BlockPoke_def sb_inv_def patch_def
        dest!: set_update_subset_insert [THEN subsetD] nth_mem)
next
  fix x x' :: streambuf and n rv
  assume "sb_inv x" "v_MemoryAdd StreamBuf_vt n x = (x', rv)"
  then show "sb_inv x' \<and> (\<exists>ys. m_VecBlocks x' = m_VecBlocks x @ ys \<and> (rv \<longrightarrow> ys \<noteq> []))"
    using sb_MemoryAdd_cases by (simp add: StreamBuf_vt_def)
qed (auto simp: StreamBuf_vt_def sb_inv_def sb_ValidBlock_def sb_BlockMem_def sb_BlockSize_def sb_MemoryFree_def)

abbreviation sb_wf :: "streambuf stream \<Rightarrow> bool" where
  "sb_wf s \<equiv> sb_inv (st s) \<and> s_wf m_VecBlocks s"

abbreviation sb_content :: "streambuf stream \<Rightarrow> octets" where
  "sb_content \<equiv> s_content m_VecBlocks"

abbreviation sb_pos :: "streambuf stream \<Rightarrow> nat" where
  "sb_pos \<equiv> s_pos m_VecBlocks"

lemma StreamBuf_new_ok:
  "(\<And>k. allocator (al k)) \<Longrightarrow> sb_wf (StreamBuf_new al n) \<and> sb_content (StreamBuf_new al n) = [] \<and> sb_pos (StreamBuf_new al n) = 0"
proof -
  assume "\<And>k. allocator (al k)"
  then have "sb_inv (sb_null al)" by (simp add: sb_inv_def sb_null_def)
  then have "sb_inv (fst (sb_MemoryAdd n (sb_null al)))"
    using sb_MemoryAdd_cases [of "sb_null al" n] by (metis prod.collapse)
  then show ?thesis
    by (simp add: StreamBuf_new_def Stream_new_def s_wf_def s_content_def s_len_def s_pos_def lin_def Let_def)
qed


lemma StreamBuf_assign_Buffer_ok:
  assumes w: "sb_wf s" and b: "buf_ok b"
  shows "\<exists>s'. StreamBuf_assign_Buffer b s = Some s' \<and> sb_inv (st s')"
proof -
  from sb.emits_Blob [OF b] sb.Clear_spec [OF w] obtain s' rv where
    "BlobInsert StreamBuf_vt b (Stream_Clear StreamBuf_vt s) = Some (s', rv)" "sb_inv (st s')"
    unfolding s_emits_def by blast
  then show ?thesis
    by (auto simp: StreamBuf_assign_Buffer_def BlobInsert_def split: bind_splits)
qed

text \<open>A stream whose position is past its blocks: each pass of the write loop adds a block and moves on.\<close>

definition sb_stuck :: "streambuf stream \<Rightarrow> bool" where
  "sb_stuck s \<longleftrightarrow> length (m_VecBlocks (st s)) \<le> m_CurBlock s \<and> m_CurPos s = 0 \<and> (\<forall>k n. sb_al (st s) k n \<noteq> None)"

lemma wr_loop_stuck_aux:
  "wr_loop vt s data k = Some r \<Longrightarrow> vt = StreamBuf_vt \<longrightarrow> sb_stuck s \<longrightarrow> data \<noteq> [] \<longrightarrow> False"
proof (erule wr_loop.raw_induct [where P = "\<lambda>vt s data k r. vt = StreamBuf_vt \<longrightarrow> sb_stuck s \<longrightarrow> data \<noteq> [] \<longrightarrow> False", rotated])
  fix f :: "streambuf vtable \<Rightarrow> streambuf stream \<Rightarrow> octets \<Rightarrow> nat \<Rightarrow> (streambuf stream \<times> nat) option" and vt s data k r
  assume IH: "\<And>vt s data k r. f vt s data k = Some r \<Longrightarrow> vt = StreamBuf_vt \<longrightarrow> sb_stuck s \<longrightarrow> data \<noteq> [] \<longrightarrow> False"
    and eq: "(if data = [] then Some (s, k)
      else (case wr_pass vt s data of (writeSize0, s1, data1) \<Rightarrow>
        let writeSize = (if writeSize0 > length data1 then length data1 else writeSize0)
        in if writeSize > 0 then
             (case v_BlockMem vt (st s1) (m_CurBlock s1) of
                None \<Rightarrow> f vt s1 [] k
              | Some mem \<Rightarrow>
                  f vt (s1\<lparr>st := v_BlockPoke vt (st s1) (m_CurBlock s1) (m_CurPos s1) (take writeSize data1),
                        m_CurPos := m_CurPos s1 + writeSize\<rparr>)
                    (drop writeSize data1) (k + writeSize))
           else f vt s1 data1 k)) = Some r"
  show "vt = StreamBuf_vt \<longrightarrow> sb_stuck s \<longrightarrow> data \<noteq> [] \<longrightarrow> False"
  proof (intro impI)
    assume vt: "vt = StreamBuf_vt" and s: "sb_stuck s" and d: "data \<noteq> []"
    obtain b where b: "sb_al (st s) (sb_reqs (st s)) (max (length data) k_MinStreamBlockSize) = Some b"
      using s by (auto simp: sb_stuck_def)
    define x where "x = (st s)\<lparr>sb_reqs := Suc (sb_reqs (st s)), m_VecBlocks := m_VecBlocks (st s) @ [b]\<rparr>"
    let ?s1 = "s\<lparr>m_CurBlock := m_CurBlock s + 1, m_CurPos := 0, st := x\<rparr>"
    have "wr_pass vt s data = (0, ?s1, data)"
      using s b by (simp add: vt wr_pass_def StreamBuf_vt_def sb_BlockSize_def sb_ValidBlock_def sb_stuck_def
          sb_MemoryAdd_def Let_def max_def x_def split: if_splits)
    then have "f vt ?s1 data k = Some r" using eq d by (simp add: Let_def)
    moreover have "sb_stuck ?s1" using s by (simp add: sb_stuck_def x_def)
    ultimately show False using IH vt d by blast
  qed
qed

lemma wr_loop_stuck: "sb_stuck s \<Longrightarrow> data \<noteq> [] \<Longrightarrow> wr_loop StreamBuf_vt s data k = None"
  using wr_loop_stuck_aux [of StreamBuf_vt s data k] by (cases "wr_loop StreamBuf_vt s data k") auto

section \<open>Properties\<close>

text \<open>A stream with two 256-octet blocks that holds 300 octets, positioned at the block boundary,
  on a storage whose manager refuses everything: the input of the witnesses.\<close>

definition sb_demo :: "streambuf stream" where
  "sb_demo = \<lparr>st = \<lparr>m_VecBlocks = [replicate 256 65, replicate 256 66], sb_reqs = 2, sb_al = (\<lambda>_ _. None)\<rparr>,
     m_CurBlock = 0, m_CurPos = 256, m_LastBlock = 1, m_LastPos = 44\<rparr>"

lemma sb_demo_ok: "sb_wf sb_demo" "sb_content sb_demo = replicate 256 65 @ replicate 44 66"
  "sb_pos sb_demo = 256" "m_VecBlocks (st sb_demo) = [replicate 256 65, replicate 256 66]"
  by (auto simp: sb_demo_def sb_inv_def allocator_def s_wf_def s_content_def s_len_def s_pos_def lin_def Let_def
      min_def take_replicate)

text \<open>Reading takes octets from the position on, up to the end of the data, and moves the
  position past them; the data is unchanged.\<close>
theorem StreamBuf_reads:
  assumes "sb_wf s"
  shows "\<exists>s'. ArrayRd StreamBuf_vt s n = (s', take n (drop (sb_pos s) (sb_content s))) \<and> sb_wf s' \<and>
    sb_content s' = sb_content s \<and> sb_pos s' = min (sb_pos s + n) (length (sb_content s)) \<and>
    LenGet StreamBuf_vt s = length (sb_content s) \<and> Pos StreamBuf_vt s = sb_pos s"
  using assms sb.ArrayRd_spec [OF assms] sb.LenGet_spec [OF assms] sb.Pos_spec [OF assms]
  by (cases "ArrayRd StreamBuf_vt s n") auto

theorem StreamBuf_reads_witness: "\<exists>s'. ArrayRd StreamBuf_vt sb_demo 3 = (s', replicate 3 66) \<and> sb_pos s' = 259"
  using StreamBuf_reads [OF sb_demo_ok(1), of 3]
  by (auto simp add: sb_demo_ok)

text \<open>C7. Writing always returns; a complete write puts the data at the position, over what was
  there and extending the stream when it reaches past the end, across block boundaries.\<close>
theorem StreamBuf_writes:
  assumes "sb_wf s"
  shows "\<exists>s' n. ArrayWr StreamBuf_vt s (Some data) = Some (s', n) \<and> n \<le> length data \<and> sb_inv (st s') \<and>
    (n = length data \<longrightarrow> sb_wf s' \<and> sb_content s' = patch (sb_pos s) data (sb_content s) \<and>
       sb_pos s' = sb_pos s + length data)"
  by (rule sb.ArrayWr_patch [OF assms])

theorem StreamBuf_writes_witness:
  "\<exists>s' n. ArrayWr StreamBuf_vt sb_demo (Some [1, 2]) = Some (s', n) \<and> n \<le> 2 \<and>
    (n = 2 \<longrightarrow> sb_content s' = replicate 256 65 @ [1, 2] @ replicate 42 66)"
  using StreamBuf_writes [OF sb_demo_ok(1), of "[1, 2]"]
  by (auto simp: sb_demo_ok patch_def numeral_2_eq_2)

text \<open>Seeking within the data sets the position, seeking past it leaves the position at the
  end and reports failure; \<open>Back\<close> moves the position down and stops at the start.\<close>
theorem StreamBuf_seeks:
  assumes "sb_wf s" "m_VecBlocks (st s) \<noteq> []"
  shows "(\<exists>s'. Seek StreamBuf_vt s p = (s', p \<le> length (sb_content s)) \<and> sb_wf s' \<and>
      sb_content s' = sb_content s \<and> sb_pos s' = min p (length (sb_content s))) \<and>
    (\<exists>s'. Back StreamBuf_vt s p = (s', p \<le> sb_pos s) \<and> sb_wf s' \<and> sb_content s' = sb_content s \<and>
      sb_pos s' = sb_pos s - p)"
  using sb.Seek_spec [OF assms, of p] sb.Back_spec [OF assms, of p] by blast

theorem StreamBuf_seeks_witness: "\<exists>s'. Seek StreamBuf_vt sb_demo 400 = (s', False) \<and> sb_pos s' = 300"
  using StreamBuf_seeks [OF sb_demo_ok(1), of 400] by (auto simp: sb_demo_ok)

text \<open>\<open>Skip\<close> by a positive count moves the position forward or to the end; \<open>Skip(0)\<close> does not
  stay: it takes its overflow branch, moves to the end of the data and reports failure.\<close>
theorem StreamBuf_skips:
  assumes "sb_wf s" "m_VecBlocks (st s) \<noteq> []" "length (sb_content s) < 2 ^ 64 - 1" "sb_pos s + n < 2 ^ 64"
  shows "\<exists>s'. Skip StreamBuf_vt s n = (s', n > 0 \<and> sb_pos s + n \<le> length (sb_content s)) \<and>
    sb_pos s' = (if n > 0 then min (sb_pos s + n) (length (sb_content s)) else length (sb_content s))"
  using sb.Skip_spec [OF assms] by blast

theorem StreamBuf_skips_witness: "\<exists>s'. Skip StreamBuf_vt sb_demo 0 = (s', False) \<and> sb_pos s' = 300"
  using StreamBuf_skips [OF sb_demo_ok(1), of 0] by (auto simp: sb_demo_ok)

text \<open>\<open>Peek\<close> shows the next octet without moving, and zero at the end; but at the end of a
  block that another one follows it reads one octet outside of the block (no result).\<close>
theorem StreamBuf_peeks:
  assumes "sb_wf s"
  shows "Peek StreamBuf_vt s = (if sb_pos s < length (sb_content s)
    then (if m_CurPos s < length (m_VecBlocks (st s) ! m_CurBlock s) then Some (sb_content s ! sb_pos s) else None)
    else Some 0)"
  by (rule sb.Peek_spec [OF assms])

theorem StreamBuf_peeks_witness: "Peek StreamBuf_vt sb_demo = None \<and> ArrayRd StreamBuf_vt sb_demo 0 = (sb_demo, [])"
  using StreamBuf_peeks [OF sb_demo_ok(1)] by (simp add: sb_demo_ok ArrayRd_def) (simp add: sb_demo_def)

text \<open>\<open>ReadLine\<close> returns: the line is the octets up to the terminator or the end of the data
  with the zeros dropped, the terminator is consumed and kept only on request, and failure is
  reported only when nothing but zeros was left.\<close>
theorem StreamBuf_ReadLine:
  assumes "sb_wf s"
  shows "\<exists>s' rv. ReadLine StreamBuf_vt s Term dis = Some (s',
      filter (\<lambda>c. c \<noteq> 0) (takeWhile (\<lambda>c. c \<noteq> Term) (drop (sb_pos s) (sb_content s))) @ (if rv \<and> \<not> dis then [Term] else []),
      rv \<or> filter (\<lambda>c. c \<noteq> 0) (drop (sb_pos s) (sb_content s)) \<noteq> []) \<and>
    rv = (Term \<in> set (drop (sb_pos s) (sb_content s))) \<and> sb_wf s' \<and> sb_content s' = sb_content s \<and>
    sb_pos s' = sb_pos s + length (takeWhile (\<lambda>c. c \<noteq> Term) (drop (sb_pos s) (sb_content s))) + of_bool rv"
  by (rule sb.ReadLine_spec [OF assms])

theorem StreamBuf_ReadLine_witness:
  "\<exists>s'. ReadLine StreamBuf_vt sb_demo 66 True = Some (s', [], True) \<and> sb_pos s' = 257"
  using StreamBuf_ReadLine [OF sb_demo_ok(1), of 66 True]
  by (auto simp add: sb_demo_ok)

text \<open>The stream's CRC over its blocks is the standard CRC-32 of its data, when no block ends on
  a prefix whose CRC is all ones; an empty stream has the cascade's start value.\<close>
theorem StreamBuf_Crc32:
  assumes "sb_wf s" "crc_boundary_ok (m_VecBlocks (st s))" "length (m_VecBlocks (st s)) \<le> n"
  shows "Stream_Crc32Get n StreamBuf_vt s 0 =
    (if sb_content s = [] then 0xffffffff else ref_crc32 (sb_content s))"
  by (rule sb.Crc32Get_spec [OF assms])

theorem StreamBuf_Crc32_witness:
  "Stream_Crc32Get 1 StreamBuf_vt (Stream_new (sb_null (\<lambda>_ _. None))) 0 = 0xffffffff"
  using StreamBuf_Crc32 [of "Stream_new (sb_null (\<lambda>_ _. None))" 1]
  by (simp add: Stream_new_def sb_null_def sb_inv_def allocator_def s_wf_def s_content_def s_len_def lin_def crc_boundary_ok_def)

text \<open>Each insertion of the stream returns and, when it reports success, has put exactly the
  network-order or little-endian octets of the value (whatever the host's order), the octets of
  the string with or without a terminating zero, or the buffer's data at the position.\<close>
theorem StreamBuf_inserts:
  assumes "buf_ok b"
  shows "s_emits sb_inv m_VecBlocks (Uint16Insert h StreamBuf_vt v16 net) (word_octets net v16) \<and>
    s_emits sb_inv m_VecBlocks (Uint32Insert h StreamBuf_vt v32 net) (word_octets net v32) \<and>
    s_emits sb_inv m_VecBlocks (Uint64Insert h StreamBuf_vt v64 net) (word_octets net v64) \<and>
    s_emits sb_inv m_VecBlocks (Float32Insert h StreamBuf_vt v32 net) (word_octets net v32) \<and>
    s_emits sb_inv m_VecBlocks (Float64Insert h StreamBuf_vt v64 net) (word_octets net v64) \<and>
    s_emits sb_inv m_VecBlocks (CStringInsert StreamBuf_vt str) (str @ [0]) \<and>
    s_emits sb_inv m_VecBlocks (StringInsert StreamBuf_vt str) str \<and>
    s_emits sb_inv m_VecBlocks (BlobInsert StreamBuf_vt b) (buf_data b)"
  using sb.emits_octets sb.emits_CString sb.emits_String sb.emits_Blob [OF assms] by (simp add: insert_forms)

theorem StreamBuf_inserts_witness:
  "s_emits sb_inv m_VecBlocks (Uint16Insert HostLE StreamBuf_vt 5 True) [0, 5]"
  using StreamBuf_inserts [OF Buf_null_ok(1), of HostLE 5 True] by (simp add: word_octets_def be_octets_16)

text \<open>Assigning a non-empty stream to a buffer copies its whole data, wherever its position
  was; assigning an empty stream leaves the buffer's old data in place.\<close>
theorem StreamBuf_to_Buffer:
  assumes "sb_wf s"
  shows "if sb_content s = [] then Buf_assign_stream (hist_alloc grant ops mem) StreamBuf_vt s b = (s, b)
    else hist_alloc grant ops mem (length (sb_content s)) \<noteq> None \<longrightarrow>
      (\<exists>s' b'. Buf_assign_stream (hist_alloc grant ops mem) StreamBuf_vt s b = (s', b') \<and>
        buf_data b' = sb_content s \<and> sb_wf s' \<and> sb_content s' = sb_content s)"
  by (rule sb.assign_stream_spec [OF assms]) (rule mgr.allocator_axioms)

theorem StreamBuf_to_Buffer_witness:
  "\<exists>s' b'. Buf_assign_stream (hist_alloc (\<lambda>_. True) [] (\<lambda>_. 0)) StreamBuf_vt sb_demo Buf_null = (s', b') \<and>
    buf_data b' = replicate 256 65 @ replicate 44 66"
  using StreamBuf_to_Buffer [OF sb_demo_ok(1), of "\<lambda>_. True" "[]" "\<lambda>_. 0" Buf_null]
  by (auto simp: sb_demo_ok hist_alloc_first)


text \<open>A write that the manager refused a block for leaves the position past the last block;
  while the manager then serves every request, the next write never returns: each pass adds a
  block and moves past it.\<close>
theorem StreamBuf_write_wedged:
  assumes "m_VecBlocks (st s) \<noteq> []" "length (m_VecBlocks (st s)) \<le> m_CurBlock s" "m_CurPos s = 0"
    "\<forall>k n. sb_al (st s) k n \<noteq> None" "data \<noteq> []"
  shows "ArrayWr StreamBuf_vt s (Some data) = None"
proof -
  have "sb_stuck s" using assms by (simp add: sb_stuck_def)
  then show ?thesis using wr_loop_stuck [of s data 0] assms by (simp add: ArrayWr_def StreamBuf_vt_def)
qed

text \<open>The refusal is the answer to one request: \<open>sb_full al\<close> is a full stream of one block.\<close>

definition sb_full :: "(nat \<Rightarrow> nat \<Rightarrow> octets option) \<Rightarrow> streambuf stream" where
  "sb_full al = \<lparr>st = \<lparr>m_VecBlocks = [replicate 256 65], sb_reqs = 1, sb_al = al\<rparr>,
     m_CurBlock = 0, m_CurPos = 256, m_LastBlock = 0, m_LastPos = 256\<rparr>"

theorem StreamBuf_write_wedged_witness:
  "\<exists>s1. ArrayWr StreamBuf_vt (sb_full (\<lambda>_ _. None)) (Some [1]) = Some (s1, 0) \<and>
    ArrayWr StreamBuf_vt (s1\<lparr>st := (st s1)\<lparr>sb_al := (\<lambda>_ n. Some (replicate n 0))\<rparr>\<rparr>) (Some [1]) = None"
proof -
  let ?s1 = "(sb_full (\<lambda>_ _. None))\<lparr>st := (st (sb_full (\<lambda>_ _. None)))\<lparr>sb_reqs := 2\<rparr>, m_CurBlock := 1, m_CurPos := 0,
    m_LastBlock := 1, m_LastPos := 0\<rparr>"
  have "wr_pass StreamBuf_vt (sb_full (\<lambda>_ _. None)) [1] = (0, ?s1\<lparr>m_LastBlock := 0, m_LastPos := 256\<rparr>, [])"
    by (simp add: wr_pass_def sb_full_def StreamBuf_vt_def sb_BlockSize_def sb_ValidBlock_def sb_MemoryAdd_def Let_def)
  then have "wr_loop StreamBuf_vt (sb_full (\<lambda>_ _. None)) [1] 0 = Some (?s1\<lparr>m_LastBlock := 0, m_LastPos := 256\<rparr>, 0)"
    by (subst wr_loop.simps) (simp add: Let_def sb.wr_loop_Nil)
  then have "ArrayWr StreamBuf_vt (sb_full (\<lambda>_ _. None)) (Some [1]) = Some (?s1, 0)"
    by (simp add: ArrayWr_def StreamBuf_vt_def sb_full_def adjust_last_def)
  moreover have "ArrayWr StreamBuf_vt (?s1\<lparr>st := (st ?s1)\<lparr>sb_al := (\<lambda>_ n. Some (replicate n 0))\<rparr>\<rparr>) (Some [1]) = None"
    by (rule StreamBuf_write_wedged) (simp_all add: sb_full_def)
  ultimately show ?thesis by blast
qed

end
