(* ===== verification/StreamGrow.thy ===== *)
theory StreamGrow
  imports StreamBuf
begin

text \<open>
  The interface of a storage that always gets its memory: \<open>growing_store\<close> extends
  \<open>block_store\<close> by the law that an addition succeeds and is no larger than needed. On it every
  write is complete, and the data ends in the last block. \<open>StreamBuf\<close> over a manager that grants
  every request provides it.
\<close>

section \<open>Block lists of the same shape\<close>

lemma shape_length: "map length xs = map length ys \<Longrightarrow> length xs = length ys"
  by (rule map_eq_imp_length_eq)

lemma shape_concat: "map length xs = map length ys \<Longrightarrow> length (concat xs) = length (concat ys)"
  by (simp add: length_concat)

lemma shape_butlast: "map length xs = map length ys \<Longrightarrow> length (concat (butlast xs)) = length (concat (butlast ys))"
  by (simp add: length_concat map_butlast)

lemma lin_in_last:
  assumes "i < length bs" "p \<le> length (bs ! i)" "length (concat (butlast bs)) < lin bs i p"
  shows "Suc i = length bs"
proof (rule ccontr)
  assume "Suc i \<noteq> length bs"
  then have i: "i < length (butlast bs)" using assms(1) by simp
  have "lin bs i p = lin (butlast bs) i p"
    using i by (simp add: lin_def take_butlast)
  also have "\<dots> \<le> length (concat (butlast bs))"
    using i assms(2) by (intro lin_block_le) (simp_all add: nth_butlast)
  finally show False using assms(3) by simp
qed

section \<open>The interface\<close>

text \<open>The data reaches into the last block.\<close>

definition s_packed :: "('s \<Rightarrow> octets list) \<Rightarrow> 's stream \<Rightarrow> bool" where
  "s_packed blocks s \<longleftrightarrow> blocks (st s) = [] \<or> Suc (m_LastBlock s) = length (blocks (st s))"

locale growing_store = block_store vt blocks inv
  for vt :: "'s vtable" and blocks :: "'s \<Rightarrow> octets list" and inv :: "'s \<Rightarrow> bool" +
  assumes grow: "inv x \<Longrightarrow> 0 < n \<Longrightarrow> \<exists>x' ys. v_MemoryAdd vt n x = (x', True) \<and> blocks x' = blocks x @ ys \<and>
      ys \<noteq> [] \<and> n \<le> length (concat ys) \<and> length (concat (butlast ys)) < n"
begin

lemma wr_loop_advance:
  assumes w: "wr_at s" and p: "m_CurPos s = length (bs s ! m_CurBlock s)" and d: "data \<noteq> []"
  obtains s1 ys where "wr_loop vt s data k = wr_loop vt s1 data k" "wr_at s1"
    "m_CurPos s1 < length (bs s1 ! m_CurBlock s1)" "bs s1 = bs s @ ys" "ps s1 = ps s"
    "ys = [] \<or> ps s = length (concat (bs s)) \<and> length data \<le> length (concat ys) \<and>
       length (concat (butlast ys)) < length data"
proof -
  have i: "inv (st s)" and c: "m_CurBlock s < length (bs s)" using w by (simp_all add: wr_at_def)
  let ?s1 = "s\<lparr>m_CurBlock := m_CurBlock s + 1, m_CurPos := 0\<rparr>"
  have nx: "lin (bs s @ ext) (m_CurBlock s + 1) 0 = ps s" for ext
    using lin_next [OF c] lin_append [of "Suc (m_CurBlock s)" "bs s" ext 0] c p by (simp add: ps_def)
  have ne: "wr_at t \<Longrightarrow> 0 < length (bs t ! m_CurBlock t)" for t :: "'s stream"
    using pos by (auto simp: wr_at_def)
  show thesis
  proof (cases "m_CurBlock s + 1 < length (bs s)")
    case True
    then have "wr_pass vt s data = (0, ?s1, data)" using p size [OF i c] valid [OF i] by (simp add: wr_pass_def Let_def)
    then have e: "wr_loop vt s data k = wr_loop vt ?s1 data k"
      by (subst wr_loop.simps) (use d in \<open>simp add: Let_def\<close>)
    have "wr_at ?s1" using True i by (simp add: wr_at_def)
    then show thesis using e True nx [of "[]"] ne [of ?s1] by (intro that [of ?s1 "[]"]) (simp_all add: ps_def)
  next
    case False
    then have last: "bs s = take (Suc (m_CurBlock s)) (bs s)" using c by simp
    have "ps s = lin (bs s) (Suc (m_CurBlock s)) 0" using lin_next [OF c] p by (simp add: ps_def)
    then have end_pos: "ps s = length (concat (bs s))" using last by (simp add: lin_def)
    obtain x ys where ys: "v_MemoryAdd vt (length data) (st s) = (x, True)" "blocks x = bs s @ ys" "ys \<noteq> []"
      "length data \<le> length (concat ys)" "length (concat (butlast ys)) < length data"
      using grow [OF i, of "length data"] d by auto
    have ix: "inv x" using add [OF i ys(1)] by simp
    have "wr_pass vt s data = (0, ?s1\<lparr>st := x\<rparr>, data)"
      using False ys(1) p size [OF i c] valid [OF i] by (simp add: wr_pass_def Let_def)
    then have e: "wr_loop vt s data k = wr_loop vt (?s1\<lparr>st := x\<rparr>) data k"
      by (subst wr_loop.simps) (use d in \<open>simp add: Let_def\<close>)
    have "wr_at (?s1\<lparr>st := x\<rparr>)" using False ys(2,3) ix c by (auto simp: wr_at_def neq_Nil_conv)
    then show thesis using e ys nx [of ys] end_pos ne [of "?s1\<lparr>st := x\<rparr>"]
      by (intro that [of "?s1\<lparr>st := x\<rparr>" ys]) (simp_all add: ps_def)
  qed
qed

text \<open>The loop stores everything; when it has to grow, the data ends in the last block.\<close>

definition fills :: "'s stream \<Rightarrow> octets \<Rightarrow> 's stream \<Rightarrow> bool" where
  "fills s data s' \<longleftrightarrow>
     (if ps s + length data \<le> length (concat (bs s)) then map length (bs s') = map length (bs s)
      else length (concat (butlast (bs s'))) < ps s + length data)"

lemma fills_grow:
  assumes "fills s1 data s'" "bs s1 = bs s @ ys" "ps s1 = ps s"
    "ys = [] \<or> ps s = length (concat (bs s)) \<and> length data \<le> length (concat ys) \<and>
       length (concat (butlast ys)) < length data" "data \<noteq> []"
  shows "fills s data s'"
proof (cases "ys = []")
  case True
  then show ?thesis using assms by (simp add: fills_def split: if_splits)
next
  case False
  then have "map length (bs s') = map length (bs s @ ys)" using assms by (simp add: fills_def)
  from shape_butlast [OF this] False assms(4) have
    "length (concat (butlast (bs s'))) < ps s + length data" by (simp add: butlast_append)
  then show ?thesis using False assms(4,5) by (simp add: fills_def)
qed

lemma wr_loop_total: "wr_at s \<Longrightarrow> \<exists>s'. wr_loop vt s data k = Some (s', k + length data) \<and> fills s data s'"
proof (induction "length data" arbitrary: s data k rule: less_induct)
  case less
  have fill: "\<exists>s'. wr_loop vt s data k = Some (s', k + length data) \<and> fills s data s'"
    if w: "wr_at s" and p: "m_CurPos s < length (bs s ! m_CurBlock s)" and d: "data \<noteq> []" for s
  proof -
    define n where "n = min (length data) (length (bs s ! m_CurBlock s) - m_CurPos s)"
    define s1 where "s1 = s\<lparr>st := v_BlockPoke vt (st s) (m_CurBlock s) (m_CurPos s) (take n data), m_CurPos := m_CurPos s + n\<rparr>"
    note f = wr_loop_fill [OF w p d, folded n_def, folded s1_def]
    have nl: "n \<le> length data" by (simp add: n_def)
    have "length (drop n data) < length data" using f(2) d by simp
    from less.hyps [OF this f(3), of "k + n"] obtain s' where
      r: "wr_loop vt s1 (drop n data) (k + n) = Some (s', k + length data)" "fills s1 (drop n data) s'"
      using nl by auto
    have shape: "map length (bs s1) = map length (bs s)" using f(6,7) by (intro nth_equalityI) simp_all
    have "ps s1 + length (drop n data) = ps s + length data" using f(5) nl by simp
    then have "fills s data s'" using r(2) shape shape_concat [OF shape] by (simp add: fills_def split: if_splits)
    then show ?thesis using f(1) r(1) by auto
  qed
  show ?case
  proof (cases "data = []")
    case True
    then show ?thesis using less.prems wr_at_ps by (auto simp: fills_def)
  next
    case d: False
    show ?thesis
    proof (cases "m_CurPos s < length (bs s ! m_CurBlock s)")
      case True
      then show ?thesis using fill less.prems d by blast
    next
      case False
      then have "m_CurPos s = length (bs s ! m_CurBlock s)" using less.prems by (simp add: wr_at_def)
      from wr_loop_advance [OF less.prems this d, of k] obtain s1 ys where
        m: "wr_loop vt s data k = wr_loop vt s1 data k" "wr_at s1"
          "m_CurPos s1 < length (bs s1 ! m_CurBlock s1)" "bs s1 = bs s @ ys" "ps s1 = ps s"
          "ys = [] \<or> ps s = length (concat (bs s)) \<and> length data \<le> length (concat ys) \<and>
             length (concat (butlast ys)) < length data" .
      from fill [OF m(2,3) d] obtain s' where "wr_loop vt s1 data k = Some (s', k + length data)" "fills s1 data s'"
        by blast
      then show ?thesis using m(1) fills_grow [OF _ m(4,5,6) d] by auto
    qed
  qed
qed

abbreviation packed :: "'s stream \<Rightarrow> bool" where "packed \<equiv> s_packed blocks"

lemma fills_packed:
  assumes w: "wrote s data (length data) s1" "fills s data s1" and d: "data \<noteq> []"
    and pk: "bs s \<noteq> []" "Suc (m_LastBlock s) = length (bs s) \<or>
      (m_LastBlock s = 0 \<and> ps s = 0 \<and> length (concat (butlast (bs s))) < length data)"
  shows "packed (adjust_last s1)"
proof -
  have a: "wr_at s1" "ps s1 = ps s + length data" "m_LastBlock s1 = m_LastBlock s" "length (bs s) \<le> length (bs s1)"
    using w(1) d by (auto simp: wrote_def)
  have last: "Suc (m_CurBlock s1) = length (bs s1)" if "length (concat (butlast (bs s1))) < ps s1"
    using lin_in_last [of "m_CurBlock s1" "bs s1" "m_CurPos s1"] a(1) that by (simp add: wr_at_def ps_def)
  show ?thesis
  proof (cases "ps s + length data \<le> length (concat (bs s))")
    case False
    then have "Suc (m_CurBlock s1) = length (bs s1)" using last w(2) a(2) by (simp add: fills_def)
    moreover have "m_LastBlock s1 < length (bs s)" using pk a(3) by auto
    ultimately show ?thesis using a(4) by (auto simp: s_packed_def adjust_last_def)
  next
    case True
    then have shape: "map length (bs s1) = map length (bs s)" using w(2) by (simp add: fills_def)
    then have len: "length (bs s1) = length (bs s)" by (rule shape_length)
    show ?thesis
    proof (cases "Suc (m_LastBlock s) = length (bs s)")
      case True
      then show ?thesis using len a(1,3) by (auto simp: s_packed_def adjust_last_def wr_at_def)
    next
      case False
      then have "Suc (m_CurBlock s1) = length (bs s1)"
        using pk last a(2) shape_butlast [OF shape] by auto
      moreover have "m_LastBlock s1 = 0" using False pk a(3) by simp
      ultimately show ?thesis by (auto simp: s_packed_def adjust_last_def)
    qed
  qed
qed

lemma ArrayWr_total:
  assumes w: "wf s"
  shows "\<exists>s'. ArrayWr vt s (Some data) = Some (s', length data) \<and> wf s' \<and>
    content s' = patch (ps s) data (content s) \<and> ps s' = ps s + length data \<and> (packed s \<longrightarrow> packed s') \<and>
    length (bs s) \<le> length (bs s')"
proof (cases "data = []")
  case True
  then show ?thesis using w by (simp add: ArrayWr_def)
next
  case d: False
  have i: "inv (st s)" using w by simp
  obtain x where x: "(if v_MemoryChk vt (st s) then (st s, True) else v_MemoryAdd vt (length data) (st s)) = (x, True)"
      "inv x" "blocks x \<noteq> []" "bs s \<noteq> [] \<longrightarrow> x = st s"
      "bs s = [] \<longrightarrow> length (concat (butlast (blocks x))) < length data"
  proof (cases "bs s = []")
    case True
    from grow [OF i, of "length data"] d obtain x ys where g: "v_MemoryAdd vt (length data) (st s) = (x, True)"
      "blocks x = bs s @ ys" "ys \<noteq> []" "length (concat (butlast ys)) < length data" by auto
    moreover have "inv x" using add [OF i g(1)] by simp
    ultimately show thesis using True chk [OF i] by (intro that [of x]) simp_all
  next
    case False
    then show thesis using i chk [OF i] by (intro that [of "st s"]) simp_all
  qed
  let ?s = "s\<lparr>st := x\<rparr>"
  have w1: "wf ?s \<and> content ?s = content s \<and> ps ?s = ps s \<and> ln ?s = ln s"
  proof (cases "bs s = []")
    case True
    then show ?thesis using w x by (auto simp: wf_def content_def ln_def ps_def lin_def)
  next
    case False
    then show ?thesis using w x by simp
  qed
  then have at: "wr_at ?s" using x by (auto simp: wr_at_def wf_def split: if_splits)
  from wr_loop_total [OF at, of data 0] obtain s1 where
    r: "wr_loop vt ?s data 0 = Some (s1, length data)" "fills ?s data s1" by auto
  from wr_loop_spec [OF at, of data 0] r(1) have wr: "wrote ?s data (length data) s1" by auto
  have e: "ArrayWr vt s (Some data) = Some (adjust_last s1, length data)"
    using x(1) r(1) d by (simp add: ArrayWr_def)
  have p: "ps s \<le> length (content s)" using ps_le [OF w] .
  have "packed (adjust_last s1)" if "packed s"
  proof (rule fills_packed [OF wr r(2) d])
    show "bs ?s \<noteq> []" using x by simp
    show "Suc (m_LastBlock ?s) = length (bs ?s) \<or>
        (m_LastBlock ?s = 0 \<and> ps ?s = 0 \<and> length (concat (butlast (bs ?s))) < length data)"
      using that x(4,5) w by (auto simp: s_packed_def wf_def ps_def lin_def)
  qed
  moreover have "length (bs s) \<le> length (bs (adjust_last s1))"
    using wr x(4) by (cases "bs s = []") (auto simp: wrote_def adjust_last_def)
  ultimately show ?thesis
    using e adjust_last_spec [of ?s data s1] w1 x(3) wr d p by (auto simp: patch_def)
qed

lemma Clear_packed: "wf s \<Longrightarrow> packed (Stream_Clear vt s)"
  using free by (simp add: Stream_Clear_def Stream_new_def s_packed_def)

end

section \<open>Stream buffers over a generous manager\<close>

definition sb_rich :: "streambuf \<Rightarrow> bool" where
  "sb_rich x \<longleftrightarrow> sb_inv x \<and> (\<forall>k n. sb_al x k n \<noteq> None)"

lemma sb_rich_add: "sb_rich x \<Longrightarrow> v_MemoryAdd StreamBuf_vt n x = (x', rv) \<Longrightarrow> sb_rich x' \<and>
    (\<exists>b. rv \<and> m_VecBlocks x' = m_VecBlocks x @ [b] \<and> n \<le> length b \<and> b \<noteq> [])"
proof -
  assume x: "sb_rich x" "v_MemoryAdd StreamBuf_vt n x = (x', rv)"
  then obtain b where b: "sb_al x (sb_reqs x) (max n k_MinStreamBlockSize) = Some b" by (auto simp: sb_rich_def)
  have "max n k_MinStreamBlockSize \<le> length b"
  proof (rule allocator.al_size)
    show "allocator (sb_al x (sb_reqs x))" using x by (simp add: sb_rich_def sb_inv_def)
  qed (rule b)
  moreover have "sb_inv x'" using sb.add [OF _ x(2)] x(1) by (simp add: sb_rich_def)
  ultimately show ?thesis using x b
    by (auto simp: StreamBuf_vt_def sb_MemoryAdd_def sb_rich_def Let_def max_def k_MinStreamBlockSize_def split: if_splits)
qed

interpretation sbg: growing_store StreamBuf_vt m_VecBlocks sb_rich
proof
  fix x :: streambuf and i off and d :: octets
  assume "sb_rich x" "i < length (m_VecBlocks x)" "off + length d \<le> length (m_VecBlocks x ! i)"
  then show "sb_rich (v_BlockPoke StreamBuf_vt x i off d) \<and>
      m_VecBlocks (v_BlockPoke StreamBuf_vt x i off d) = (m_VecBlocks x)[i := patch off d (m_VecBlocks x ! i)]"
    using sb.poke [of x i off d] by (simp add: sb_rich_def StreamBuf_vt_def sb_BlockPoke_def)
next
  fix x x' :: streambuf and n rv
  assume "sb_rich x" "v_MemoryAdd StreamBuf_vt n x = (x', rv)"
  then show "sb_rich x' \<and> (\<exists>ys. m_VecBlocks x' = m_VecBlocks x @ ys \<and> (rv \<longrightarrow> ys \<noteq> []))"
    using sb_rich_add by blast
next
  fix x :: streambuf and n :: nat
  assume x: "sb_rich x" "0 < n"
  obtain x' rv where m: "v_MemoryAdd StreamBuf_vt n x = (x', rv)" by fastforce
  from sb_rich_add [OF x(1) m] obtain b where "rv" "m_VecBlocks x' = m_VecBlocks x @ [b]" "n \<le> length b" by blast
  then show "\<exists>x' ys. v_MemoryAdd StreamBuf_vt n x = (x', True) \<and> m_VecBlocks x' = m_VecBlocks x @ ys \<and>
      ys \<noteq> [] \<and> n \<le> length (concat ys) \<and> length (concat (butlast ys)) < n"
    using m x(2) by (intro exI [of _ x'] exI [of _ "[b]"]) simp
qed (use sb.pos sb.valid sb.chk sb.mem sb.size sb.free in
    \<open>auto simp: sb_rich_def StreamBuf_vt_def sb_MemoryFree_def sb_inv_def\<close>)

end
