(* ===== verification/IpcSegment.thy ===== *)
theory IpcSegment
  imports Buffer ByteOrder
begin

text \<open>
  \<open>cpIpcSegment\<close>: one packet of the IPC layer, a buffer of 1024 octets whose first 24 are the
  header in network order. The pointer \<open>m_NextSeg\<close> that links the segments of a message is the
  order of a list of segments. A segment owns its block from construction to destruction, so
  \<open>seg_mem\<close> takes it out of the option. The header is refined to the record \<open>ipchdr\<close>: each
  setter updates exactly its field.
\<close>

section \<open>Layout\<close>

definition opt_Multipart :: u8 where "opt_Multipart = 0x20"
definition opt_Initial :: u8 where "opt_Initial = 0x40"
definition opt_Control :: u8 where "opt_Control = 0x80"

definition seg_Version :: nat where "seg_Version = 0x00"
definition seg_Options :: nat where "seg_Options = 0x01"
definition seg_FragNum :: nat where "seg_FragNum = 0x02"
definition seg_SrcAddr :: nat where "seg_SrcAddr = 0x04"
definition seg_DstAddr :: nat where "seg_DstAddr = 0x08"
definition seg_MsgId :: nat where "seg_MsgId = 0x0c"
definition seg_Context :: nat where "seg_Context = 0x10"
definition seg_MsgType :: nat where "seg_MsgType = 0x14"
definition seg_CtlCode :: nat where "seg_CtlCode = 0x15"
definition seg_DataLen :: nat where "seg_DataLen = 0x16"
definition seg_Data :: nat where "seg_Data = 0x18"
definition seg_MaxLen :: nat where "seg_MaxLen = 0x400"

lemmas seg_offsets = seg_Version_def seg_Options_def seg_FragNum_def seg_SrcAddr_def seg_DstAddr_def
  seg_MsgId_def seg_Context_def seg_MsgType_def seg_CtlCode_def seg_DataLen_def seg_Data_def seg_MaxLen_def

definition k_IpcDefaultPriority :: u8 where "k_IpcDefaultPriority = 2"
definition k_IpcMinimumPriority :: u8 where "k_IpcMinimumPriority = 3"

record ipcsegment =
  m_Buffer :: buffer

definition seg_mem :: "ipcsegment \<Rightarrow> octets" where
  "seg_mem s = the (m_PtrBlock (m_Buffer s))"

definition seg_poke :: "(octets \<Rightarrow> octets) \<Rightarrow> ipcsegment \<Rightarrow> ipcsegment" where
  "seg_poke f s = s\<lparr>m_Buffer := (m_Buffer s)\<lparr>m_PtrBlock := map_option f (m_PtrBlock (m_Buffer s))\<rparr>\<rparr>"

definition seg_lenset :: "nat \<Rightarrow> ipcsegment \<Rightarrow> ipcsegment" where
  "seg_lenset n s = s\<lparr>m_Buffer := Buf_LenSet n (m_Buffer s)\<rparr>"

section \<open>Accessors\<close>

definition seg_Ver :: "ipcsegment \<Rightarrow> u8" where
  "seg_Ver s = seg_mem s ! seg_Version"

definition Options :: "ipcsegment \<Rightarrow> u8" where
  "Options s = seg_mem s ! seg_Options AND 0xfc"

definition Priority :: "ipcsegment \<Rightarrow> u8" where
  "Priority s = seg_mem s ! seg_Options AND 0x03"

definition FragNum :: "ipcsegment \<Rightarrow> u16" where
  "FragNum s = ReadUint16B (seg_mem s) seg_FragNum"

definition SrcAddr :: "ipcsegment \<Rightarrow> u32" where
  "SrcAddr s = ReadUint32B (seg_mem s) seg_SrcAddr"

definition DstAddr :: "ipcsegment \<Rightarrow> u32" where
  "DstAddr s = ReadUint32B (seg_mem s) seg_DstAddr"

definition MsgId :: "ipcsegment \<Rightarrow> u32" where
  "MsgId s = ReadUint32B (seg_mem s) seg_MsgId"

definition Context :: "ipcsegment \<Rightarrow> u32" where
  "Context s = ReadUint32B (seg_mem s) seg_Context"

definition MsgType :: "ipcsegment \<Rightarrow> u8" where
  "MsgType s = seg_mem s ! seg_MsgType"

definition CtlCode :: "ipcsegment \<Rightarrow> u8" where
  "CtlCode s = seg_mem s ! seg_CtlCode"

definition DataLen :: "ipcsegment \<Rightarrow> nat" where
  "DataLen s = unat (ReadUint16B (seg_mem s) seg_DataLen)"

definition DataGet32 :: "ipcsegment \<Rightarrow> u32" where
  "DataGet32 s = ReadUint32B (seg_mem s) seg_Data"

definition DataGet :: "(nat \<Rightarrow> octets option) \<Rightarrow> ipcsegment \<Rightarrow> buffer \<Rightarrow> buffer \<times> bool" where
  "DataGet al s b = Buf_CopyIn al (Some (take (DataLen s) (drop seg_Data (seg_mem s)))) b"

definition Guid :: "ipcsegment \<Rightarrow> u64" where
  "Guid s = push_bit 32 (ucast (SrcAddr s)) OR ucast (MsgId s)"

definition SegLen :: "ipcsegment \<Rightarrow> nat" where
  "SegLen s = seg_Data + DataLen s"

definition Capacity :: nat where
  "Capacity = seg_MaxLen - seg_Data"

section \<open>Manipulators\<close>

definition Options_set :: "u8 \<Rightarrow> ipcsegment \<Rightarrow> ipcsegment" where
  "Options_set Data s = seg_poke (\<lambda>m. m[seg_Options := (m ! seg_Options AND 0x03) OR (Data AND 0xfc)]) s"

definition Priority_set :: "u8 \<Rightarrow> ipcsegment \<Rightarrow> ipcsegment" where
  "Priority_set Data s =
     (let D = (if Data > k_IpcMinimumPriority then k_IpcMinimumPriority else Data)
      in seg_poke (\<lambda>m. m[seg_Options := (m ! seg_Options AND 0xfc) OR (D AND 0x03)]) s)"

definition FragNum_set :: "u16 \<Rightarrow> ipcsegment \<Rightarrow> ipcsegment" where
  "FragNum_set Val s = seg_poke (\<lambda>m. WriteUint16B Val m seg_FragNum) s"

definition SrcAddr_set :: "u32 \<Rightarrow> ipcsegment \<Rightarrow> ipcsegment" where
  "SrcAddr_set Addr s = seg_poke (\<lambda>m. WriteUint32B Addr m seg_SrcAddr) s"

definition DstAddr_set :: "u32 \<Rightarrow> ipcsegment \<Rightarrow> ipcsegment" where
  "DstAddr_set Addr s = seg_poke (\<lambda>m. WriteUint32B Addr m seg_DstAddr) s"

definition MsgId_set :: "u32 \<Rightarrow> ipcsegment \<Rightarrow> ipcsegment" where
  "MsgId_set Val s = seg_poke (\<lambda>m. WriteUint32B Val m seg_MsgId) s"

definition Context_set :: "u32 \<Rightarrow> ipcsegment \<Rightarrow> ipcsegment" where
  "Context_set Val s = seg_poke (\<lambda>m. WriteUint32B Val m seg_Context) s"

definition MsgType_set :: "u8 \<Rightarrow> ipcsegment \<Rightarrow> ipcsegment" where
  "MsgType_set Val s = seg_poke (\<lambda>m. m[seg_MsgType := Val]) s"

definition CtlCode_set :: "u8 \<Rightarrow> ipcsegment \<Rightarrow> ipcsegment" where
  "CtlCode_set Val s = seg_poke (\<lambda>m. m[seg_CtlCode := Val]) s"

definition DataLen_set :: "nat \<Rightarrow> ipcsegment \<Rightarrow> ipcsegment" where
  "DataLen_set Len s =
     (let val = (if Len < Capacity then Len else Capacity)
      in seg_poke (\<lambda>m. WriteUint16B (of_nat val) m seg_DataLen) s)"

text \<open>\<open>DataSet\<close> from a pointer and a length: the octets at the pointer.\<close>

definition DataSet :: "octets \<Rightarrow> ipcsegment \<Rightarrow> ipcsegment \<times> bool" where
  "DataSet pBuf s =
     (let copyLen = (if length pBuf < Capacity then length pBuf else Capacity);
          s1 = seg_poke (patch seg_Data (take copyLen pBuf)) s;
          s2 = DataLen_set copyLen s1;
          s3 = seg_lenset (seg_Data + copyLen) s2
      in (s3, length pBuf = copyLen))"

definition DataSet_Buf :: "buffer \<Rightarrow> ipcsegment \<Rightarrow> ipcsegment \<times> bool" where
  "DataSet_Buf Data s = DataSet (buf_data Data) s"

definition DataSet32 :: "u32 \<Rightarrow> ipcsegment \<Rightarrow> ipcsegment \<times> bool" where
  "DataSet32 Value s = DataSet (WriteUint32B Value (replicate 4 0) 0) s"

definition IpcSegment_Clear :: "ipcsegment \<Rightarrow> ipcsegment" where
  "IpcSegment_Clear s =
     (let s1 = s\<lparr>m_Buffer := Buf_Clear 0 (m_Buffer s)\<rparr>;
          s2 = seg_lenset seg_Data s1;
          s3 = seg_poke (\<lambda>m. m[seg_Version := 0]) s2
      in Priority_set k_IpcDefaultPriority s3)"

text \<open>The constructor, given the block that the manager delivered for its buffer.\<close>

definition IpcSegment_new :: "octets \<Rightarrow> ipcsegment" where
  "IpcSegment_new blk = IpcSegment_Clear \<lparr>m_Buffer = Buf_new (\<lambda>_. Some blk) seg_MaxLen\<rparr>"

text \<open>Assignment from a distinct segment; both own blocks, so the buffer keeps its block.\<close>

definition IpcSegment_assign :: "(nat \<Rightarrow> octets option) \<Rightarrow> ipcsegment \<Rightarrow> ipcsegment \<Rightarrow> ipcsegment" where
  "IpcSegment_assign al rhs s =
     (let s1 = s\<lparr>m_Buffer := fst (Buf_Resize al seg_MaxLen (m_Buffer s))\<rparr>
      in if Buf_Size (m_Buffer rhs) \<ge> Buf_LenGet (m_Buffer rhs) then
           let s2 = seg_lenset (Buf_LenGet (m_Buffer rhs)) s1
           in seg_poke (patch 0 (take (Buf_LenGet (m_Buffer s2)) (seg_mem rhs))) s2
         else s1)"

section \<open>The abstract header\<close>

record ipchdr =
  h_Ver :: u8
  h_Options :: u8
  h_Priority :: u8
  h_FragNum :: u16
  h_SrcAddr :: u32
  h_DstAddr :: u32
  h_MsgId :: u32
  h_Context :: u32
  h_MsgType :: u8
  h_CtlCode :: u8
  h_DataLen :: nat

definition hdr :: "ipcsegment \<Rightarrow> ipchdr" where
  "hdr s = \<lparr>h_Ver = seg_Ver s, h_Options = Options s, h_Priority = Priority s, h_FragNum = FragNum s,
     h_SrcAddr = SrcAddr s, h_DstAddr = DstAddr s, h_MsgId = MsgId s, h_Context = Context s,
     h_MsgType = MsgType s, h_CtlCode = CtlCode s, h_DataLen = DataLen s\<rparr>"

definition payload :: "ipcsegment \<Rightarrow> octets" where
  "payload s = take Capacity (drop seg_Data (seg_mem s))"

definition seg_ok :: "ipcsegment \<Rightarrow> bool" where
  "seg_ok s \<longleftrightarrow> (case m_PtrBlock (m_Buffer s) of None \<Rightarrow> False | Some m \<Rightarrow> length m = seg_MaxLen) \<and>
     m_DataLen (m_Buffer s) \<le> seg_MaxLen"

lemmas seg_getters = seg_Ver_def Options_def Priority_def FragNum_def SrcAddr_def DstAddr_def MsgId_def
  Context_def MsgType_def CtlCode_def DataLen_def

lemmas seg_setters = Options_set_def Priority_set_def FragNum_set_def SrcAddr_set_def DstAddr_set_def
  MsgId_set_def Context_set_def MsgType_set_def CtlCode_set_def DataLen_set_def

lemma seg_mem_poke [simp]: "seg_ok s \<Longrightarrow> seg_mem (seg_poke f s) = f (seg_mem s)"
  by (auto simp: seg_ok_def seg_mem_def seg_poke_def split: option.splits)

lemma seg_mem_lenset [simp]: "seg_mem (seg_lenset n s) = seg_mem s"
  by (simp add: seg_mem_def seg_lenset_def Buf_LenSet_def)

lemma length_seg_mem [simp]: "seg_ok s \<Longrightarrow> length (seg_mem s) = 1024"
  by (auto simp: seg_ok_def seg_mem_def seg_MaxLen_def split: option.splits)

lemma seg_ok_poke [simp]: "seg_ok s \<Longrightarrow> length (f (seg_mem s)) = 1024 \<Longrightarrow> seg_ok (seg_poke f s)"
  by (auto simp: seg_ok_def seg_mem_def seg_poke_def seg_MaxLen_def split: option.splits)

lemma seg_ok_lenset [simp]: "seg_ok s \<Longrightarrow> seg_ok (seg_lenset n s)"
  by (auto simp: seg_ok_def seg_lenset_def Buf_LenSet_def split: option.splits)

lemma length_Write16 [simp]: "length (WriteUint16B v m p) = length m"
  by (simp add: WriteUint16B_def)

lemma length_Write32 [simp]: "length (WriteUint32B v m p) = length m"
  by (simp add: WriteUint32B_def Let_def)

lemma Capacity_eq: "Capacity = 1000"
  by (simp add: Capacity_def seg_offsets)

section \<open>Each setter updates its field\<close>

text \<open>Reads and writes at different offsets of the same memory do not interfere.\<close>

named_theorems seg_rw "reads after writes in the octets of a segment"

lemma read_write_16 [seg_rw]: "p + 2 \<le> length m \<Longrightarrow> ReadUint16B (WriteUint16B v m p) p = v"
  by (simp add: WriteUint16B_patch ReadUint16B_patch)

lemma read_write_32 [seg_rw]: "p + 4 \<le> length m \<Longrightarrow> ReadUint32B (WriteUint32B v m p) p = v"
  by (simp add: WriteUint32B_patch ReadUint32B_patch)

lemma read_16_other [seg_rw]:
  "q + 2 \<le> p \<or> p + 2 \<le> q \<Longrightarrow> ReadUint16B (WriteUint16B v m p) q = ReadUint16B m q"
  "q + 2 \<le> p \<or> p + 4 \<le> q \<Longrightarrow> ReadUint16B (WriteUint32B w m p) q = ReadUint16B m q"
  "q + 2 \<le> p \<or> p + 1 \<le> q \<Longrightarrow> ReadUint16B (m[p := b]) q = ReadUint16B m q"
  by (auto simp: ReadUint16B_def WriteUint16B_def WriteUint32B_def Let_def)

lemma read_32_other [seg_rw]:
  "q + 4 \<le> p \<or> p + 2 \<le> q \<Longrightarrow> ReadUint32B (WriteUint16B v m p) q = ReadUint32B m q"
  "q + 4 \<le> p \<or> p + 4 \<le> q \<Longrightarrow> ReadUint32B (WriteUint32B w m p) q = ReadUint32B m q"
  "q + 4 \<le> p \<or> p + 1 \<le> q \<Longrightarrow> ReadUint32B (m[p := b]) q = ReadUint32B m q"
  by (auto simp: ReadUint32B_def WriteUint16B_def WriteUint32B_def Let_def)

lemma nth_write_other [seg_rw]:
  "q < p \<or> p + 2 \<le> q \<Longrightarrow> WriteUint16B v m p ! q = m ! q"
  "q < p \<or> p + 4 \<le> q \<Longrightarrow> WriteUint32B w m p ! q = m ! q"
  by (auto simp: WriteUint16B_def WriteUint32B_def Let_def)

lemma drop_write_other [seg_rw]:
  "p + 2 \<le> q \<Longrightarrow> drop q (WriteUint16B v m p) = drop q m"
  "p + 4 \<le> q \<Longrightarrow> drop q (WriteUint32B w m p) = drop q m"
  by (auto simp: WriteUint16B_def WriteUint32B_def Let_def)

lemma option_masks [seg_rw]:
  "((x :: u8) AND 3 OR y AND 252) AND 252 = y AND 252" "((x :: u8) AND 3 OR y AND 252) AND 3 = x AND 3"
  "((x :: u8) AND 252 OR y AND 3) AND 252 = x AND 252" "((x :: u8) AND 252 OR y AND 3) AND 3 = y AND 3"
  by (simp_all add: bit.conj_disj_distrib2 and.assoc)

lemma priority_clamp: "(if (v :: u8) > 3 then 3 else v) AND 3 = min v 3"
proof -
  have "v AND 3 = v" if "v \<le> 3"
  proof -
    have "unat v < 2 ^ 2" using that by (simp add: word_le_nat_alt)
    then have "take_bit 2 (unat v) = unat v" by (simp add: take_bit_nat_eq_self)
    then have "unat (take_bit 2 v) = unat v" by (simp add: unsigned_take_bit_eq)
    then have "take_bit 2 v = v" by (rule word_unat_eq_iff [THEN iffD2])
    then show ?thesis by (simp add: take_bit_eq_mask mask_eq_exp_minus_1)
  qed
  then show ?thesis by (auto simp: min_def)
qed

lemma unat_DataLen_val: "unat (of_nat (if n < Capacity then n else Capacity) :: u16) = min n Capacity"
  by (auto simp: Capacity_eq unat_of_nat min_def)

text \<open>\<open>seg_sets u s s'\<close>: from \<open>s\<close> to \<open>s'\<close> the header changes by \<open>u\<close>, the payload does not.\<close>

definition seg_sets :: "(ipchdr \<Rightarrow> ipchdr) \<Rightarrow> ipcsegment \<Rightarrow> ipcsegment \<Rightarrow> bool" where
  "seg_sets u s s' \<longleftrightarrow> seg_ok s' \<and> hdr s' = u (hdr s) \<and> payload s' = payload s"

lemma seg_sets_trans: "seg_sets u s s1 \<Longrightarrow> seg_sets v s1 s2 \<Longrightarrow> seg_sets (v \<circ> u) s s2"
  by (simp add: seg_sets_def)

lemmas seg_refine = seg_sets_def hdr_def payload_def seg_getters seg_setters seg_offsets seg_rw

lemma Options_set_sets: "seg_ok s \<Longrightarrow> seg_sets (h_Options_update (\<lambda>_. v AND 0xfc)) s (Options_set v s)"
  by (simp add: seg_refine)

lemma Priority_set_sets: "seg_ok s \<Longrightarrow> seg_sets (h_Priority_update (\<lambda>_. min v 3)) s (Priority_set v s)"
  by (simp add: seg_refine k_IpcMinimumPriority_def Let_def flip: priority_clamp)

lemma FragNum_set_sets: "seg_ok s \<Longrightarrow> seg_sets (h_FragNum_update (\<lambda>_. x)) s (FragNum_set x s)"
  by (simp add: seg_refine)

lemma Addr_set_sets:
  "seg_ok s \<Longrightarrow> seg_sets (h_SrcAddr_update (\<lambda>_. w)) s (SrcAddr_set w s)"
  "seg_ok s \<Longrightarrow> seg_sets (h_DstAddr_update (\<lambda>_. w)) s (DstAddr_set w s)"
  by (simp_all add: seg_refine)

lemma Id_set_sets:
  "seg_ok s \<Longrightarrow> seg_sets (h_MsgId_update (\<lambda>_. w)) s (MsgId_set w s)"
  "seg_ok s \<Longrightarrow> seg_sets (h_Context_update (\<lambda>_. w)) s (Context_set w s)"
  by (simp_all add: seg_refine)

lemma Code_set_sets:
  "seg_ok s \<Longrightarrow> seg_sets (h_MsgType_update (\<lambda>_. v)) s (MsgType_set v s)"
  "seg_ok s \<Longrightarrow> seg_sets (h_CtlCode_update (\<lambda>_. v)) s (CtlCode_set v s)"
  by (simp_all add: seg_refine)

lemma DataLen_set_sets: "seg_ok s \<Longrightarrow> seg_sets (h_DataLen_update (\<lambda>_. min n Capacity)) s (DataLen_set n s)"
  by (simp add: seg_refine Let_def unat_DataLen_val [unfolded seg_offsets])

lemma lenset_sets: "seg_ok s \<Longrightarrow> seg_sets id s (seg_lenset n s)"
  by (simp add: seg_refine)

text \<open>A segment owns a block of exactly its size, so resizing it to that size does nothing.\<close>

lemma seg_resize [simp]: "seg_ok s \<Longrightarrow> Buf_Resize al seg_MaxLen (m_Buffer s) = (m_Buffer s, True)"
  by (auto simp: seg_ok_def Buf_Resize_def Buf_Size_def seg_MaxLen_def split: option.splits)

lemma Buf_seg [simp]: "seg_ok s \<Longrightarrow> Buf_Size (m_Buffer s) = 1024 \<and> Buf_LenGet (m_Buffer s) \<le> 1024"
  by (auto simp: seg_ok_def Buf_Size_def Buf_LenGet_def seg_MaxLen_def split: option.splits)

lemma Buf_LenGet_lenset: "seg_ok s \<Longrightarrow> Buf_LenGet (m_Buffer (seg_lenset n s)) = min n 1024"
  by (auto simp: seg_ok_def seg_lenset_def Buf_LenSet_def Buf_LenGet_def seg_MaxLen_def split: option.splits)

lemma Buf_LenGet_poke [simp]: "Buf_LenGet (m_Buffer (seg_poke f s)) = Buf_LenGet (m_Buffer s)"
  by (simp add: seg_poke_def Buf_LenGet_def)

lemma hdr_of_mem: "take 24 (seg_mem s) = take 24 (seg_mem t) \<Longrightarrow> seg_ok s \<Longrightarrow> seg_ok t \<Longrightarrow> hdr s = hdr t"
proof -
  assume eq: "take 24 (seg_mem s) = take 24 (seg_mem t)"
  have "seg_mem s ! i = seg_mem t ! i" if "i < 24" for i
    using arg_cong [OF eq, of "\<lambda>m. m ! i"] that by simp
  then show ?thesis
    by (simp add: hdr_def seg_getters seg_offsets ReadUint16B_def ReadUint32B_def)
qed

lemma assign_spec:
  assumes "seg_ok rhs" "seg_ok s" "24 \<le> Buf_LenGet (m_Buffer rhs)"
  shows "seg_ok (IpcSegment_assign al rhs s) \<and> hdr (IpcSegment_assign al rhs s) = hdr rhs \<and>
    Buf_LenGet (m_Buffer (IpcSegment_assign al rhs s)) = Buf_LenGet (m_Buffer rhs)"
proof -
  define n where "n = Buf_LenGet (m_Buffer rhs)"
  have n: "n \<le> 1024" "24 \<le> n" using assms by (simp_all add: n_def)
  have eq: "IpcSegment_assign al rhs s = seg_poke (patch 0 (take n (seg_mem rhs))) (seg_lenset n s)"
    using assms n by (simp add: IpcSegment_assign_def Buf_LenGet_lenset Let_def n_def [symmetric])
  have ok: "seg_ok (IpcSegment_assign al rhs s)" using assms n by (simp add: eq)
  have "take 24 (seg_mem (IpcSegment_assign al rhs s)) = take 24 (seg_mem rhs)"
    using assms n by (simp add: eq patch_0 min_def)
  then have "hdr (IpcSegment_assign al rhs s) = hdr rhs" using hdr_of_mem ok assms(1) by blast
  then show ?thesis using ok assms n by (simp add: eq Buf_LenGet_lenset n_def)
qed

lemma new_spec:
  assumes "length blk = 1024"
  shows "seg_ok (IpcSegment_new blk) \<and> Buf_LenGet (m_Buffer (IpcSegment_new blk)) = 24 \<and>
    hdr (IpcSegment_new blk) = \<lparr>h_Ver = 0, h_Options = 0, h_Priority = 2, h_FragNum = 0, h_SrcAddr = 0,
      h_DstAddr = 0, h_MsgId = 0, h_Context = 0, h_MsgType = 0, h_CtlCode = 0, h_DataLen = 0\<rparr>"
proof -
  define s where "s = seg_lenset seg_Data \<lparr>m_Buffer = \<lparr>m_PtrBlock = Some (replicate 1024 0), m_DataLen = 0\<rparr>\<rparr>"
  have s: "seg_ok s" "seg_mem s = replicate 1024 0" "Buf_LenGet (m_Buffer s) = 24"
    by (simp_all add: s_def seg_ok_def seg_lenset_def seg_mem_def Buf_LenSet_def seg_offsets Buf_LenGet_def)
  have eq: "IpcSegment_new blk = Priority_set 2 (seg_poke (\<lambda>m. m[seg_Version := 0]) s)"
    using assms by (simp add: IpcSegment_new_def IpcSegment_Clear_def s_def Buf_new_def Buf_Resize_def
      Buf_null_def Buf_Clear_def k_IpcDefaultPriority_def seg_MaxLen_def)
  have ok: "seg_ok (seg_poke (\<lambda>m. m[seg_Version := 0]) s)" using s by simp
  have "hdr (seg_poke (\<lambda>m. m[seg_Version := 0]) s) = \<lparr>h_Ver = 0, h_Options = 0, h_Priority = 0, h_FragNum = 0,
    h_SrcAddr = 0, h_DstAddr = 0, h_MsgId = 0, h_Context = 0, h_MsgType = 0, h_CtlCode = 0, h_DataLen = 0\<rparr>"
    using s by (simp add: hdr_def seg_getters seg_offsets ReadUint16B_def ReadUint32B_def)
  then show ?thesis using Priority_set_sets [OF ok, of 2] s ok
    by (simp add: eq seg_sets_def) (simp add: Priority_set_def Let_def)
qed

text \<open>
  The header of a segment is a record of fields: each setter replaces its field (the options
  by their upper six bits, the priority by at most 3, the data length by at most the capacity),
  and leaves all other fields, the payload and the block alone.
\<close>

theorem IpcSegment_setters:
  assumes "seg_ok s"
  shows "seg_sets (h_Options_update (\<lambda>_. v AND 0xfc)) s (Options_set v s) \<and>
    seg_sets (h_Priority_update (\<lambda>_. min v 3)) s (Priority_set v s) \<and>
    seg_sets (h_FragNum_update (\<lambda>_. x)) s (FragNum_set x s) \<and>
    seg_sets (h_SrcAddr_update (\<lambda>_. w)) s (SrcAddr_set w s) \<and>
    seg_sets (h_DstAddr_update (\<lambda>_. w)) s (DstAddr_set w s) \<and>
    seg_sets (h_MsgId_update (\<lambda>_. w)) s (MsgId_set w s) \<and>
    seg_sets (h_Context_update (\<lambda>_. w)) s (Context_set w s) \<and>
    seg_sets (h_MsgType_update (\<lambda>_. v)) s (MsgType_set v s) \<and>
    seg_sets (h_CtlCode_update (\<lambda>_. v)) s (CtlCode_set v s) \<and>
    seg_sets (h_DataLen_update (\<lambda>_. min n 1000)) s (DataLen_set n s)"
  using assms Options_set_sets Priority_set_sets FragNum_set_sets Addr_set_sets Id_set_sets
    Code_set_sets DataLen_set_sets by (simp add: Capacity_eq)

theorem IpcSegment_setters_witness:
  "seg_sets (h_Priority_update (\<lambda>_. 3)) (IpcSegment_new (replicate 1024 7))
     (Priority_set 9 (IpcSegment_new (replicate 1024 7)))"
  using IpcSegment_setters [of "IpcSegment_new (replicate 1024 7)" 9] new_spec [of "replicate 1024 7"]
  by (simp add: min_def)

text \<open>The payload after \<open>DataSet\<close>: the data, cut at the capacity, in front of the old payload.\<close>

lemma DataSet_spec:
  assumes "seg_ok s" and "DataSet data s = (s', rv)"
  shows "seg_ok s' \<and> rv = (length data \<le> 1000) \<and> hdr s' = (hdr s)\<lparr>h_DataLen := min (length data) 1000\<rparr> \<and>
    payload s' = patch 0 (take 1000 data) (payload s)"
proof -
  define d where "d = take 1000 data"
  define s1 where "s1 = seg_poke (patch seg_Data d) s"
  have len: "length d = min (length data) 1000" by (simp add: d_def)
  have copy: "(if length data < Capacity then length data else Capacity) = length d"
    "take (if length data < Capacity then length data else Capacity) data = d"
    by (auto simp: len Capacity_eq d_def min_def)
  have s': "s' = seg_lenset (24 + length d) (DataLen_set (length d) s1)" "rv = (length data \<le> 1000)"
    using assms(2) len unfolding DataSet_def Let_def copy
    by (auto simp: s1_def d_def seg_offsets min_def split: if_splits)
  have ok: "seg_ok s1" using assms(1) len by (simp add: s1_def seg_Data_def)
  have "hdr s1 = hdr s" using assms(1) ok by (intro hdr_of_mem)
      (simp_all add: s1_def seg_Data_def take_patch_before)
  moreover have "payload s1 = patch 0 d (payload s)"
    using assms(1) len by (simp add: s1_def payload_def seg_Data_def Capacity_eq patch_def add.commute)
  ultimately show ?thesis
    using DataLen_set_sets [OF ok, of "length d"] len
      lenset_sets [of "DataLen_set (length d) s1" "24 + length d"]
    by (simp add: s' seg_sets_def Capacity_eq d_def)
qed

lemma payload_DataGet:
  "seg_ok s \<Longrightarrow> DataLen s \<le> 1000 \<Longrightarrow> take (DataLen s) (drop seg_Data (seg_mem s)) = take (DataLen s) (payload s)"
  by (simp add: payload_def Capacity_eq min_def)

lemma Guid_inj: "Guid s = Guid t \<longleftrightarrow> SrcAddr s = SrcAddr t \<and> MsgId s = MsgId t"
proof
  have lo: "ucast (Guid x) = MsgId x" and hi: "ucast (drop_bit 32 (Guid x)) = SrcAddr x" for x
    unfolding Guid_def by (intro bit_word_eqI; auto simp: bit_simps dest: bit_imp_le_length)+
  assume "Guid s = Guid t"
  then show "SrcAddr s = SrcAddr t \<and> MsgId s = MsgId t" using lo [of s] lo [of t] hi [of s] hi [of t] by simp
qed (simp add: Guid_def)

text \<open>
  The payload round trip: \<open>DataSet\<close> stores the data up to the capacity of 1000 octets and
  says whether all of it fit; \<open>DataGet\<close> of the segment, when its buffer gets memory, delivers
  exactly the stored octets. Nothing of the header changes but the data length, so the unique
  identity of the message does not either, and two identities are equal only for the same source
  address and message number.
\<close>

theorem IpcSegment_data:
  assumes "seg_ok s" and "DataSet data s = (s', rv)"
    and "DataGet (hist_alloc grant ops mem) s' b = (b', got)"
  shows "rv = (length data \<le> 1000) \<and> DataLen s' = min (length data) 1000 \<and>
    SegLen s' = 24 + min (length data) 1000 \<and>
    (got \<longrightarrow> buf_data b' = take 1000 data) \<and> (got \<or> hist_alloc grant ops mem (DataLen s') = None) \<and>
    Guid s' = Guid s \<and> (Guid s = Guid t \<longleftrightarrow> SrcAddr s = SrcAddr t \<and> MsgId s = MsgId t)"
proof -
  note ds = DataSet_spec [OF assms(1,2)]
  have len: "DataLen s' = min (length data) 1000" using ds by (simp add: hdr_def)
  have ids: "SrcAddr s' = SrcAddr s" "MsgId s' = MsgId s" using ds by (simp_all add: hdr_def)
  have "length (payload s) = 1000" using assms(1) by (simp add: payload_def Capacity_eq seg_Data_def)
  then have pay: "take (DataLen s') (payload s') = take 1000 data"
    using ds len take_patch_0 [of "take 1000 data" "payload s"] by (simp add: min.commute)
  then have src: "take (DataLen s') (drop seg_Data (seg_mem s')) = take 1000 data"
    using payload_DataGet [of s'] ds len by simp
  have copy: "Buf_CopyIn (hist_alloc grant ops mem) (Some (take 1000 data)) b = (b', got)"
    using assms(3) src by (simp add: DataGet_def)
  have got: "got \<longrightarrow> buf_data b' = take 1000 data" using mgr.CopyIn_data [OF copy] by simp
  have "got \<or> hist_alloc grant ops mem (length (take 1000 data)) = None"
    using mgr.CopyIn_fails [of grant ops mem "take 1000 data" b b'] copy by (cases got) simp_all
  then have "got \<or> hist_alloc grant ops mem (DataLen s') = None" by (simp add: len min.commute)
  then show ?thesis using ds len ids got Guid_inj [of s t] by (simp add: SegLen_def seg_Data_def Guid_def)
qed

theorem IpcSegment_data_witness:
  "DataLen (fst (DataSet [1, 2, 3] (IpcSegment_new (replicate 1024 7)))) = 3 \<and>
   snd (DataSet [1, 2, 3] (IpcSegment_new (replicate 1024 7)))"
  using IpcSegment_data [of "IpcSegment_new (replicate 1024 7)" "[1, 2, 3]"
    "fst (DataSet [1, 2, 3] (IpcSegment_new (replicate 1024 7)))"
    "snd (DataSet [1, 2, 3] (IpcSegment_new (replicate 1024 7)))" "\<lambda>_. True" "[]" "\<lambda>_. 0" Buf_null
    "fst (DataGet (hist_alloc (\<lambda>_. True) [] (\<lambda>_. 0)) (fst (DataSet [1, 2, 3] (IpcSegment_new (replicate 1024 7)))) Buf_null)"
    "snd (DataGet (hist_alloc (\<lambda>_. True) [] (\<lambda>_. 0)) (fst (DataSet [1, 2, 3] (IpcSegment_new (replicate 1024 7)))) Buf_null)"]
    new_spec [of "replicate 1024 7"] by simp

end
