(* ===== verification/IpcStreamSeg.thy ===== *)
theory IpcStreamSeg
  imports StreamGrow IpcSegment
begin

text \<open>
  \<open>cpIpcStreamSeg\<close>: the stream whose blocks are the payloads of IPC segments. The linked list
  from \<open>m_PtrHead\<close> to \<open>m_PtrTail\<close> is the list \<open>ss_segs\<close>. \<open>ss_new k\<close> is the block of the k-th
  segment this stream creates, or \<open>None\<close> where \<open>new\<close> fails; a delivered block has the 1024
  octets of the memory pool for segments. The class interprets the stream interfaces; on top of
  them the headers of the segments are the fragment headers of one message.
\<close>

section \<open>Operations\<close>

record segstore =
  ss_segs :: "ipcsegment list"
  m_BlockCount :: nat
  m_Template :: ipcsegment
  ss_made :: nat
  ss_new :: "nat \<Rightarrow> octets option"

definition ss_MemoryFree :: "segstore \<Rightarrow> segstore" where
  "ss_MemoryFree x = x\<lparr>m_BlockCount := 0, ss_segs := []\<rparr>"

text \<open>Appending the fresh segment \<open>ptr\<close>, one pass of the loop of \<open>MemoryAdd\<close>.\<close>

definition ss_append :: "ipcsegment \<Rightarrow> segstore \<Rightarrow> segstore" where
  "ss_append ptr x =
     (let n = m_BlockCount x + 1;
          segs = ss_segs x
      in if segs = [] then
           x\<lparr>m_BlockCount := n,
             ss_segs := [FragNum_set (of_nat n) (IpcSegment_assign (\<lambda>_. None) (m_Template x) ptr)]\<rparr>
         else
           let segs1 = (if length segs = 1 then [Options_set (Options (hd segs) OR opt_Multipart) (hd segs)] else segs);
               ptr1 = IpcSegment_assign (\<lambda>_. None) (last segs1) ptr;
               tail = seg_lenset (Capacity + seg_Data) (DataLen_set Capacity (last segs1))
           in x\<lparr>m_BlockCount := n, ss_segs := butlast segs1 @ [tail, FragNum_set (of_nat n) ptr1]\<rparr>)"

fun ss_add_loop :: "nat \<Rightarrow> bool \<Rightarrow> segstore \<Rightarrow> segstore \<times> bool" where
  "ss_add_loop 0 rv x = (x, rv)"
| "ss_add_loop (Suc i) rv x =
     (let x1 = x\<lparr>ss_made := Suc (ss_made x)\<rparr>
      in case ss_new x (ss_made x) of
           Some blk \<Rightarrow> ss_add_loop i True (ss_append (IpcSegment_new blk) x1)
         | None \<Rightarrow> (x1, False))"

definition ss_MemoryAdd :: "nat \<Rightarrow> segstore \<Rightarrow> segstore \<times> bool" where
  "ss_MemoryAdd Size x =
     (let i = Size div Capacity;
          i1 = (if Size mod Capacity \<noteq> 0 then i + 1 else i)
      in ss_add_loop i1 False x)"

definition ss_BlockMem :: "segstore \<Rightarrow> nat \<Rightarrow> octets option" where
  "ss_BlockMem x Block =
     (if Block < length (ss_segs x) then Some (drop seg_Data (seg_mem (ss_segs x ! Block))) else None)"

definition ss_BlockPoke :: "segstore \<Rightarrow> nat \<Rightarrow> nat \<Rightarrow> octets \<Rightarrow> segstore" where
  "ss_BlockPoke x Block off d =
     x\<lparr>ss_segs := (ss_segs x)[Block := seg_poke (patch (seg_Data + off) d) (ss_segs x ! Block)]\<rparr>"

definition SegStream_vt :: "segstore vtable" where
  "SegStream_vt =
     \<lparr>v_MemoryFree = ss_MemoryFree, v_MemoryAdd = ss_MemoryAdd, v_MemoryChk = (\<lambda>x. ss_segs x \<noteq> []),
      v_ValidBlock = (\<lambda>x Block. Block < m_BlockCount x), v_BlockMem = ss_BlockMem,
      v_BlockPoke = ss_BlockPoke, v_BlockSize = (\<lambda>x Block. Capacity)\<rparr>"

definition ss_null :: "ipcsegment \<Rightarrow> (nat \<Rightarrow> octets option) \<Rightarrow> segstore" where
  "ss_null tmpl al = \<lparr>ss_segs = [], m_BlockCount = 0, m_Template = tmpl, ss_made = 0, ss_new = al\<rparr>"

text \<open>The constructor; the template member is a fresh segment on the block \<open>tblk\<close>.\<close>

definition IpcStreamSeg_new :: "octets \<Rightarrow> (nat \<Rightarrow> octets option) \<Rightarrow> nat \<Rightarrow> segstore stream" where
  "IpcStreamSeg_new tblk al Size = Stream_new (fst (ss_MemoryAdd Size (ss_null (IpcSegment_new tblk) al)))"

definition Template_set :: "ipcsegment \<Rightarrow> segstore stream \<Rightarrow> segstore stream" where
  "Template_set Seg s = s\<lparr>st := (st s)\<lparr>m_Template := IpcSegment_assign (\<lambda>_. None) Seg (m_Template (st s))\<rparr>\<rparr>"

definition SegmentInject :: "ipcsegment list \<Rightarrow> segstore stream \<Rightarrow> segstore stream" where
  "SegmentInject segs s =
     (let s1 = Stream_Clear SegStream_vt s
      in if segs \<noteq> [] then
           s1\<lparr>st := (st s1)\<lparr>ss_segs := segs, m_BlockCount := m_BlockCount (st s1) + length segs\<rparr>,
              m_LastBlock := m_LastBlock s1 + (length segs - 1), m_LastPos := DataLen (last segs)\<rparr>
         else s1)"

text \<open>The extracted segments, and the stream afterwards.\<close>

definition SegmentExtract :: "segstore stream \<Rightarrow> segstore stream \<times> ipcsegment list" where
  "SegmentExtract s =
     (Stream_Clear SegStream_vt (s\<lparr>st := (st s)\<lparr>ss_segs := []\<rparr>\<rparr>), ss_segs (st s))"

definition Finalize :: "segstore stream \<Rightarrow> segstore stream" where
  "Finalize s =
     (let segs = ss_segs (st s)
      in if segs \<noteq> [] then
           let tail = seg_lenset (m_LastPos s + seg_Data) (DataLen_set (m_LastPos s) (last segs));
               tail1 = (if length segs > 1 then Options_set (Options tail OR opt_Initial) tail else tail)
           in s\<lparr>st := (st s)\<lparr>ss_segs := butlast segs @ [tail1]\<rparr>\<rparr>
         else s)"

definition SegStream_assign_Buffer :: "buffer \<Rightarrow> segstore stream \<Rightarrow> segstore stream option" where
  "SegStream_assign_Buffer rhs s =
     map_option fst (Write_Buf SegStream_vt (Stream_Clear SegStream_vt s) rhs (Buf_LenGet rhs))"

definition SegStream_assign ::
  "(nat \<Rightarrow> octets option) \<Rightarrow> segstore stream \<Rightarrow> segstore stream \<Rightarrow> (segstore stream \<times> segstore stream) option" where
  "SegStream_assign al rhs s =
     (case Buf_assign_stream al SegStream_vt rhs Buf_null of
        (rhs1, buf) \<Rightarrow> map_option (Pair rhs1) (SegStream_assign_Buffer buf s))"

section \<open>The storage interfaces\<close>

definition seg_blocks :: "segstore \<Rightarrow> octets list" where
  "seg_blocks x = map payload (ss_segs x)"

text \<open>A segment that may be copied: its buffer covers the header.\<close>

definition seg_full :: "ipcsegment \<Rightarrow> bool" where
  "seg_full s \<longleftrightarrow> seg_ok s \<and> 24 \<le> Buf_LenGet (m_Buffer s)"

definition ss_inv :: "segstore \<Rightarrow> bool" where
  "ss_inv x \<longleftrightarrow> m_BlockCount x = length (ss_segs x) \<and> (\<forall>s\<in>set (ss_segs x). seg_full s) \<and>
     seg_full (m_Template x) \<and> (\<forall>k m. ss_new x k = Some m \<longrightarrow> length m = 1024)"

text \<open>
  The header of fragment \<open>i\<close> of a message of \<open>n\<close> fragments with the template header \<open>T\<close>:
  numbered from 1, marked as multipart when there are several, full when it is not the last.
\<close>

definition frag_hdr :: "ipchdr \<Rightarrow> nat \<Rightarrow> nat \<Rightarrow> ipchdr" where
  "frag_hdr T n i = T\<lparr>h_FragNum := of_nat (i + 1),
     h_Options := (if n > 1 then h_Options T OR opt_Multipart else h_Options T),
     h_DataLen := (if i + 1 < n then 1000 else h_DataLen T)\<rparr>"

definition ss_frags :: "segstore \<Rightarrow> bool" where
  "ss_frags x \<longleftrightarrow> map hdr (ss_segs x) =
     map (frag_hdr (hdr (m_Template x)) (length (ss_segs x))) [0..<length (ss_segs x)]"

lemma length_payload [simp]: "seg_ok s \<Longrightarrow> length (payload s) = 1000"
  by (simp add: payload_def Capacity_eq seg_Data_def)

lemma seg_fullD: "seg_full s \<Longrightarrow> seg_ok s" "seg_full s \<Longrightarrow> 24 \<le> Buf_LenGet (m_Buffer s)"
  by (simp_all add: seg_full_def)

lemma Options_masked [simp]: "h_Options (hdr s) AND 0xfc = h_Options (hdr s)"
  by (simp add: hdr_def Options_def and.assoc)

lemma or_masked: "((o1 :: u8) AND 0xfc = o1) \<Longrightarrow> m AND 0xfc = m \<Longrightarrow> (o1 OR m) AND 0xfc = o1 OR m"
  by (simp add: bit.conj_disj_distrib2)

text \<open>The setters on full segments.\<close>

lemma Buf_LenGet_setters [simp]:
  "Buf_LenGet (m_Buffer (Options_set v s)) = Buf_LenGet (m_Buffer s)"
  "Buf_LenGet (m_Buffer (FragNum_set x s)) = Buf_LenGet (m_Buffer s)"
  "Buf_LenGet (m_Buffer (DataLen_set n s)) = Buf_LenGet (m_Buffer s)"
  by (simp_all add: Options_set_def FragNum_set_def DataLen_set_def Let_def)

lemma set_FragNum:
  "seg_full s \<Longrightarrow> seg_full (FragNum_set k s) \<and> hdr (FragNum_set k s) = (hdr s)\<lparr>h_FragNum := k\<rparr> \<and>
    payload (FragNum_set k s) = payload s"
  using FragNum_set_sets [of s k] by (simp add: seg_full_def seg_sets_def)

lemma set_flag:
  "seg_full s \<Longrightarrow> m AND 0xfc = m \<Longrightarrow> seg_full (Options_set (Options s OR m) s) \<and>
    hdr (Options_set (Options s OR m) s) = (hdr s)\<lparr>h_Options := h_Options (hdr s) OR m\<rparr> \<and>
    payload (Options_set (Options s OR m) s) = payload s"
  using Options_set_sets [of s "Options s OR m"] or_masked [of "Options s" m] Options_masked [of s]
  by (simp add: seg_full_def seg_sets_def hdr_def)

lemma set_len:
  "seg_full s \<Longrightarrow> n \<le> 1000 \<Longrightarrow> seg_full (seg_lenset (n + seg_Data) (DataLen_set n s)) \<and>
    hdr (seg_lenset (n + seg_Data) (DataLen_set n s)) = (hdr s)\<lparr>h_DataLen := n\<rparr> \<and>
    payload (seg_lenset (n + seg_Data) (DataLen_set n s)) = payload s"
  using DataLen_set_sets [of s n] lenset_sets [of "DataLen_set n s" "n + seg_Data"]
  by (auto simp: seg_full_def seg_sets_def Capacity_eq Buf_LenGet_lenset seg_Data_def)

lemma new_assigned:
  assumes "seg_full t" "length blk = 1024"
  shows "seg_full (IpcSegment_assign al t (IpcSegment_new blk)) \<and> hdr (IpcSegment_assign al t (IpcSegment_new blk)) = hdr t"
  using assign_spec [of t "IpcSegment_new blk" al] new_spec [OF assms(2)] assms(1) by (simp add: seg_full_def)

text \<open>The segments before a new one is appended: the only segment becomes the first of several.\<close>

definition flagged :: "ipcsegment list \<Rightarrow> ipcsegment list" where
  "flagged segs = (if length segs = 1 then [Options_set (Options (hd segs) OR opt_Multipart) (hd segs)] else segs)"

lemma flagged_spec:
  assumes "\<forall>s\<in>set segs. seg_full s"
  shows "length (flagged segs) = length segs" "\<forall>s\<in>set (flagged segs). seg_full s"
    "map payload (flagged segs) = map payload segs"
    "map hdr segs = map (frag_hdr T (length segs)) [0..<length segs] \<Longrightarrow> i < length segs \<Longrightarrow>
      hdr (flagged segs ! i) = (frag_hdr T (Suc (length segs)) i)
        \<lparr>h_DataLen := if Suc i < length segs then 1000 else h_DataLen T\<rparr>"
proof -
  have f: "length (flagged segs) = length segs \<and> (\<forall>s\<in>set (flagged segs). seg_full s) \<and>
    map payload (flagged segs) = map payload segs \<and>
    (\<forall>i. map hdr segs = map (frag_hdr T (length segs)) [0..<length segs] \<longrightarrow> i < length segs \<longrightarrow>
      hdr (flagged segs ! i) = (frag_hdr T (Suc (length segs)) i)
        \<lparr>h_DataLen := if Suc i < length segs then 1000 else h_DataLen T\<rparr>)"
  proof (cases "length segs = 1")
    case True
    then obtain s where s: "segs = [s]" by (auto simp: length_Suc_conv)
    have "opt_Multipart AND 0xfc = opt_Multipart" by (simp add: opt_Multipart_def)
    from set_flag [OF _ this, of s] show ?thesis using assms s by (auto simp: flagged_def frag_hdr_def)
  next
    case False
    have "hdr (segs ! i) = (frag_hdr T (Suc (length segs)) i)\<lparr>h_DataLen := if Suc i < length segs then 1000 else h_DataLen T\<rparr>"
      if "map hdr segs = map (frag_hdr T (length segs)) [0..<length segs]" "i < length segs" for i
      using arg_cong [OF that(1), of "\<lambda>l. l ! i"] that(2) False by (auto simp: frag_hdr_def)
    then show ?thesis using False assms by (simp add: flagged_def)
  qed
  then show "length (flagged segs) = length segs" "\<forall>s\<in>set (flagged segs). seg_full s"
    "map payload (flagged segs) = map payload segs"
    "map hdr segs = map (frag_hdr T (length segs)) [0..<length segs] \<Longrightarrow> i < length segs \<Longrightarrow>
      hdr (flagged segs ! i) = (frag_hdr T (Suc (length segs)) i)
        \<lparr>h_DataLen := if Suc i < length segs then 1000 else h_DataLen T\<rparr>" by blast+
qed

lemma ss_append_segs:
  "ss_segs x \<noteq> [] \<Longrightarrow> ss_segs (ss_append ptr x) =
    butlast (flagged (ss_segs x)) @
     [seg_lenset (1000 + seg_Data) (DataLen_set 1000 (last (flagged (ss_segs x)))),
      FragNum_set (of_nat (m_BlockCount x + 1)) (IpcSegment_assign (\<lambda>_. None) (last (flagged (ss_segs x))) ptr)]"
  by (simp add: ss_append_def flagged_def Let_def Capacity_eq)

lemma ss_append_other [simp]:
  "m_BlockCount (ss_append ptr x) = m_BlockCount x + 1" "m_Template (ss_append ptr x) = m_Template x"
  "ss_new (ss_append ptr x) = ss_new x" "ss_made (ss_append ptr x) = ss_made x"
  by (simp_all add: ss_append_def Let_def)

lemma ss_append_spec:
  assumes x: "ss_inv x" and blk: "length blk = 1024"
  defines "x' \<equiv> ss_append (IpcSegment_new blk) x"
  shows "ss_inv x' \<and> (\<exists>p. seg_blocks x' = seg_blocks x @ [p]) \<and> (ss_frags x \<longrightarrow> ss_frags x')"
proof (cases "ss_segs x = []")
  case True
  let ?n = "IpcSegment_assign (\<lambda>_. None) (m_Template x) (IpcSegment_new blk)"
  have n: "seg_full ?n" "hdr ?n = hdr (m_Template x)"
    using new_assigned [of "m_Template x" blk] x blk by (simp_all add: ss_inv_def)
  have s: "ss_segs x' = [FragNum_set 1 ?n]" "m_BlockCount x' = 1"
    using True x by (simp_all add: x'_def ss_append_def Let_def ss_inv_def)
  show ?thesis
    using set_FragNum [OF n(1), of 1] n(2) s x True
    by (simp add: ss_inv_def seg_blocks_def ss_frags_def frag_hdr_def) (simp add: x'_def)
next
  case False
  let ?segs = "ss_segs x" and ?f = "flagged (ss_segs x)"
  let ?k = "length ?segs"
  have full: "\<forall>s\<in>set ?segs. seg_full s" using x by (simp add: ss_inv_def)
  note f = flagged_spec [OF full]
  have fne: "?f \<noteq> []" using False f(1) by auto
  then have lf: "seg_full (last ?f)" using f(2) by simp
  define new where "new = IpcSegment_assign (\<lambda>_. None) (last ?f) (IpcSegment_new blk)"
  define tail where "tail = seg_lenset (1000 + seg_Data) (DataLen_set 1000 (last ?f))"
  have new: "seg_full new" "hdr new = hdr (last ?f)" using new_assigned [OF lf blk] by (simp_all add: new_def)
  have tail: "seg_full tail" "hdr tail = (hdr (last ?f))\<lparr>h_DataLen := 1000\<rparr>" "payload tail = payload (last ?f)"
    using set_len [OF lf, of 1000] by (simp_all add: tail_def)
  have s: "ss_segs x' = butlast ?f @ [tail, FragNum_set (of_nat (Suc ?k)) new]"
    using ss_append_segs [OF False, of "IpcSegment_new blk"] x by (simp add: x'_def new_def tail_def ss_inv_def)
  note fr = set_FragNum [OF new(1), of "of_nat (Suc ?k)"]
  have inv: "ss_inv x'" using s fr tail(1) f(1,2) False x
    by (auto simp: ss_inv_def x'_def dest!: in_set_butlastD)
  have "map payload ?f = map payload (butlast ?f) @ [payload (last ?f)]"
    by (metis fne append_butlast_last_id list.simps(8,9) map_append)
  then have "seg_blocks x' = seg_blocks x @ [payload new]"
    using s fr tail(3) f(3) by (simp add: seg_blocks_def)
  moreover have "ss_frags x'" if "ss_frags x"
  proof -
    let ?T = "hdr (m_Template x)"
    have h: "hdr (?f ! i) = (frag_hdr ?T (Suc ?k) i)\<lparr>h_DataLen := if Suc i < ?k then 1000 else h_DataLen ?T\<rparr>"
      if "i < ?k" for i
      using f(4) [of ?T i] \<open>ss_frags x\<close> that by (simp add: ss_frags_def)
    have last: "last ?f = ?f ! (?k - 1)" using fne f(1) by (simp add: last_conv_nth)
    have "hdr (ss_segs x' ! i) = frag_hdr ?T (Suc ?k) i" if i: "i < Suc ?k" for i
    proof -
      consider "Suc i < ?k" | "Suc i = ?k" | "i = ?k" using i by linarith
      then show ?thesis
      proof cases
        case 1
        then show ?thesis using h [of i] f(1) by (simp add: s nth_append nth_butlast frag_hdr_def)
      next
        case 2
        then show ?thesis using h [of i] f(1) tail(2) last False
          by (simp add: s nth_append frag_hdr_def) (simp flip: 2)
      next
        case 3
        then show ?thesis using h [of "?k - 1"] f(1) new(2) last fr False
          by (simp add: s nth_append frag_hdr_def)
      qed
    qed
    moreover have "length (ss_segs x') = Suc ?k" using s f(1) False by simp
    moreover have "m_Template x' = m_Template x" by (simp add: x'_def)
    ultimately show ?thesis unfolding ss_frags_def by (intro nth_equalityI) (simp_all del: upt_Suc)
  qed
  ultimately show ?thesis using inv by blast
qed

text \<open>Everything that holds of the storage between operations; \<open>T\<close> is the template's header.\<close>

definition ss_msg :: "ipchdr \<Rightarrow> segstore \<Rightarrow> bool" where
  "ss_msg T x \<longleftrightarrow> ss_inv x \<and> ss_frags x \<and> hdr (m_Template x) = T \<and> (\<forall>k. ss_new x k \<noteq> None)"

lemma ss_add_loop_spec:
  "ss_inv x \<Longrightarrow> ss_add_loop i rv x = (x', rv') \<Longrightarrow>
    ss_inv x' \<and> (\<exists>ys. seg_blocks x' = seg_blocks x @ ys \<and> (rv' \<longrightarrow> rv \<or> ys \<noteq> []) \<and>
      ((\<forall>k. ss_new x k \<noteq> None) \<longrightarrow> length ys = i \<and> (0 < i \<longrightarrow> rv'))) \<and>
    (ss_frags x \<longrightarrow> ss_frags x') \<and> m_Template x' = m_Template x \<and> ss_new x' = ss_new x"
proof (induction i arbitrary: x rv)
  case (Suc i)
  let ?x1 = "x\<lparr>ss_made := Suc (ss_made x)\<rparr>"
  have x1: "ss_inv ?x1" "seg_blocks ?x1 = seg_blocks x" "ss_frags ?x1 = ss_frags x"
    using Suc.prems(1) by (simp_all add: ss_inv_def seg_blocks_def ss_frags_def)
  show ?case
  proof (cases "ss_new x (ss_made x)")
    case None
    then have "x' = ?x1" "\<not> rv'" using Suc.prems(2) by (simp_all add: Let_def)
    then show ?thesis using x1 None by (intro conjI exI [of _ "[]"]) auto
  next
    case (Some blk)
    let ?x2 = "ss_append (IpcSegment_new blk) ?x1"
    have "length blk = 1024" using Suc.prems(1) Some by (simp add: ss_inv_def)
    from ss_append_spec [OF x1(1) this] x1 obtain p where
      x2: "ss_inv ?x2" "seg_blocks ?x2 = seg_blocks x @ [p]" "ss_frags x \<longrightarrow> ss_frags ?x2" by auto
    have "ss_add_loop i True ?x2 = (x', rv')" using Suc.prems(2) Some by (simp add: Let_def)
    from Suc.IH [OF x2(1) this] obtain ys where
      r: "ss_inv x'" "seg_blocks x' = seg_blocks ?x2 @ ys" "(\<forall>k. ss_new x k \<noteq> None) \<longrightarrow> length ys = i \<and> (0 < i \<longrightarrow> rv')"
        "ss_frags ?x2 \<longrightarrow> ss_frags x'" "m_Template x' = m_Template x" "ss_new x' = ss_new x" by auto
    have "rv'" if "i = 0" using Suc.prems(2) Some that by (simp add: Let_def)
    then show ?thesis using r x2 by (intro conjI exI [of _ "p # ys"]) auto
  qed
qed auto

lemma seg_block_length: "ss_inv x \<Longrightarrow> b \<in> set (seg_blocks x) \<Longrightarrow> length b = 1000"
  by (auto simp: ss_inv_def seg_blocks_def seg_fullD)

lemma ss_add_spec:
  assumes x: "ss_inv x" and m: "ss_MemoryAdd n x = (x', rv)"
  shows "ss_inv x' \<and> (\<exists>ys. seg_blocks x' = seg_blocks x @ ys \<and> (rv \<longrightarrow> ys \<noteq> []) \<and>
      ((\<forall>k. ss_new x k \<noteq> None) \<and> 0 < n \<longrightarrow> rv \<and> ys \<noteq> [] \<and> n \<le> length (concat ys) \<and> length (concat (butlast ys)) < n)) \<and>
    (ss_frags x \<longrightarrow> ss_frags x') \<and> m_Template x' = m_Template x \<and> ss_new x' = ss_new x"
proof -
  define i where "i = (if n mod 1000 \<noteq> 0 then n div 1000 + 1 else n div 1000)"
  have "ss_add_loop i False x = (x', rv)" using m by (simp add: ss_MemoryAdd_def i_def Capacity_eq Let_def)
  from ss_add_loop_spec [OF x this] obtain ys where
    r: "ss_inv x'" "seg_blocks x' = seg_blocks x @ ys" "rv \<longrightarrow> ys \<noteq> []"
      "(\<forall>k. ss_new x k \<noteq> None) \<longrightarrow> length ys = i \<and> (0 < i \<longrightarrow> rv)"
      "ss_frags x \<longrightarrow> ss_frags x'" "m_Template x' = m_Template x" "ss_new x' = ss_new x" by auto
  have l: "b \<in> set ys \<Longrightarrow> length b = 1000" for b using seg_block_length [OF r(1)] r(2) by simp
  have "length (concat zs) = 1000 * length zs" if "set zs \<subseteq> set ys" for zs
    using that l by (induction zs) auto
  then have "length (concat ys) = 1000 * length ys" "length (concat (butlast ys)) = 1000 * (length ys - 1)"
    using in_set_butlastD [of _ ys] by (auto simp: subset_iff)
  moreover have "n \<le> 1000 * i" "0 < n \<longrightarrow> 0 < i \<and> 1000 * (i - 1) < n"
    by (auto simp: i_def) (metis div_mult_mod_eq less_add_same_cancel1 mult.commute | linarith)+
  ultimately have "(\<forall>k. ss_new x k \<noteq> None) \<and> 0 < n \<longrightarrow> rv \<and> ys \<noteq> [] \<and> n \<le> length (concat ys) \<and>
      length (concat (butlast ys)) < n" using r(4) by auto
  then show ?thesis using r by blast
qed

lemma ss_poke_spec:
  assumes x: "ss_inv x" and i: "i < length (seg_blocks x)" and d: "off + length d \<le> length (seg_blocks x ! i)"
  shows "ss_inv (ss_BlockPoke x i off d) \<and>
    seg_blocks (ss_BlockPoke x i off d) = (seg_blocks x)[i := patch off d (seg_blocks x ! i)] \<and>
    map hdr (ss_segs (ss_BlockPoke x i off d)) = map hdr (ss_segs x)"
proof -
  let ?s = "ss_segs x ! i"
  let ?s' = "seg_poke (patch (seg_Data + off) d) ?s"
  have i: "i < length (ss_segs x)" using i by (simp add: seg_blocks_def)
  then have f: "seg_full ?s" using x by (simp add: ss_inv_def)
  note ok = seg_fullD(1) [OF f]
  have len: "off + length d \<le> 1000" using d i ok by (simp add: seg_blocks_def)
  have ok': "seg_ok ?s'" using ok len by (simp add: seg_Data_def)
  then have f': "seg_full ?s'" using f by (simp add: seg_full_def)
  have h: "hdr ?s' = hdr ?s"
    using ok ok' len by (intro hdr_of_mem) (simp_all add: seg_Data_def take_patch_before)
  have p: "payload ?s' = patch off d (payload ?s)"
  proof -
    have "payload t = drop 24 (seg_mem t)" if "seg_ok t" for t
      using that by (simp add: payload_def Capacity_eq seg_Data_def)
    moreover have "drop 24 (patch (24 + off) d (seg_mem ?s)) = patch off d (drop 24 (seg_mem ?s))"
      using ok len by (simp add: patch_def ac_simps drop_take)
    ultimately show ?thesis using ok ok' by (simp add: seg_Data_def)
  qed
  have "\<forall>s\<in>set (ss_segs (ss_BlockPoke x i off d)). seg_full s"
    using x f' set_update_subset_insert [of "ss_segs x" i ?s'] by (auto simp: ss_BlockPoke_def ss_inv_def)
  then show ?thesis using x i h p
    by (simp add: ss_inv_def ss_BlockPoke_def seg_blocks_def map_update list_update_same_conv)
qed

interpretation ss: block_store SegStream_vt seg_blocks ss_inv
proof
  fix x :: segstore and b :: octets
  assume "ss_inv x" "b \<in> set (seg_blocks x)"
  then have "length b = 1000" by (rule seg_block_length)
  then show "b \<noteq> []" by auto
next
  fix x :: segstore and i off and d :: octets
  assume "ss_inv x" "i < length (seg_blocks x)" "off + length d \<le> length (seg_blocks x ! i)"
  then show "ss_inv (v_BlockPoke SegStream_vt x i off d) \<and>
      seg_blocks (v_BlockPoke SegStream_vt x i off d) = (seg_blocks x)[i := patch off d (seg_blocks x ! i)]"
    using ss_poke_spec by (simp add: SegStream_vt_def)
next
  fix x x' :: segstore and n rv
  assume "ss_inv x" "v_MemoryAdd SegStream_vt n x = (x', rv)"
  then show "ss_inv x' \<and> (\<exists>ys. seg_blocks x' = seg_blocks x @ ys \<and> (rv \<longrightarrow> ys \<noteq> []))"
    using ss_add_spec [of x n x' rv] by (auto simp: SegStream_vt_def)
next
  fix x :: segstore and i
  assume "ss_inv x" "i < length (seg_blocks x)"
  then show "v_BlockMem SegStream_vt x i = Some (seg_blocks x ! i)"
    by (auto simp: SegStream_vt_def ss_BlockMem_def seg_blocks_def payload_def ss_inv_def Capacity_eq
      seg_Data_def seg_fullD)
qed (auto simp: SegStream_vt_def seg_block_length seg_blocks_def ss_inv_def ss_MemoryFree_def Capacity_eq seg_fullD
    dest: seg_block_length)

interpretation sm: growing_store SegStream_vt seg_blocks "ss_msg T" for T
proof
  fix x :: segstore and i off and d :: octets
  assume a: "ss_msg T x" "i < length (seg_blocks x)" "off + length d \<le> length (seg_blocks x ! i)"
  then show "ss_msg T (v_BlockPoke SegStream_vt x i off d) \<and>
      seg_blocks (v_BlockPoke SegStream_vt x i off d) = (seg_blocks x)[i := patch off d (seg_blocks x ! i)]"
    using ss_poke_spec [of x i off d]
    by (simp add: SegStream_vt_def ss_msg_def ss_frags_def) (simp add: ss_BlockPoke_def)
next
  fix x x' :: segstore and n rv
  assume "ss_msg T x" "v_MemoryAdd SegStream_vt n x = (x', rv)"
  then show "ss_msg T x' \<and> (\<exists>ys. seg_blocks x' = seg_blocks x @ ys \<and> (rv \<longrightarrow> ys \<noteq> []))"
    using ss_add_spec [of x n x' rv] by (auto simp: SegStream_vt_def ss_msg_def)
next
  fix x :: segstore and n :: nat
  assume x: "ss_msg T x" "0 < n"
  obtain x' rv where m: "ss_MemoryAdd n x = (x', rv)" by fastforce
  with x ss_add_spec [OF _ m] show "\<exists>x' ys. v_MemoryAdd SegStream_vt n x = (x', True) \<and>
      seg_blocks x' = seg_blocks x @ ys \<and> ys \<noteq> [] \<and> n \<le> length (concat ys) \<and> length (concat (butlast ys)) < n"
    by (auto simp: SegStream_vt_def ss_msg_def)
qed (use ss.pos ss.valid ss.chk ss.mem ss.size ss.free in
    \<open>auto simp: ss_msg_def ss_frags_def SegStream_vt_def ss_MemoryFree_def seg_blocks_def ss_inv_def\<close>)

section \<open>Messages\<close>

definition seg_data :: "ipcsegment \<Rightarrow> octets" where
  "seg_data s = take (DataLen s) (payload s)"

definition msg_data :: "ipcsegment list \<Rightarrow> octets" where
  "msg_data segs = concat (map seg_data segs)"

text \<open>A list of segments that carries a message: full ones, then the rest.\<close>

definition msg_ok :: "ipcsegment list \<Rightarrow> bool" where
  "msg_ok segs \<longleftrightarrow> (\<forall>s\<in>set segs. seg_full s) \<and> (\<forall>s\<in>set (butlast segs). DataLen s = 1000) \<and>
     (segs \<noteq> [] \<longrightarrow> DataLen (last segs) \<le> 1000 \<and> (length segs > 1 \<longrightarrow> 0 < DataLen (last segs)))"

text \<open>
  The headers of a finalized message with \<open>n\<close> fragments whose last one has \<open>L\<close> octets: the last
  fragment of several carries the initial flag, which tells the receiver the number of fragments.
\<close>

definition fin_hdr :: "ipchdr \<Rightarrow> nat \<Rightarrow> nat \<Rightarrow> nat \<Rightarrow> ipchdr" where
  "fin_hdr T n L i = T\<lparr>h_FragNum := of_nat (i + 1),
     h_Options := (if n > 1 then h_Options T OR opt_Multipart OR (if i + 1 < n then 0 else opt_Initial)
                   else h_Options T),
     h_DataLen := (if i + 1 < n then 1000 else L)\<rparr>"

lemma h_DataLen [simp]: "h_DataLen (hdr s) = DataLen s"
  by (simp add: hdr_def)

lemma msg_data_split:
  assumes "msg_ok segs" "segs \<noteq> []"
  shows "msg_data segs = concat (map payload (butlast segs)) @ take (DataLen (last segs)) (payload (last segs))"
proof -
  have "map seg_data (butlast segs) = map payload (butlast segs)"
  proof (rule map_cong [OF refl])
    fix s assume "s \<in> set (butlast segs)"
    then have "seg_full s" "DataLen s = 1000" using assms(1) by (auto simp: msg_ok_def dest: in_set_butlastD)
    then show "seg_data s = payload s" by (simp add: seg_data_def seg_fullD)
  qed
  moreover have "map seg_data segs = map seg_data (butlast segs) @ [seg_data (last segs)]"
    using assms(2) by (metis append_butlast_last_id list.simps(8,9) map_append)
  ultimately have "map seg_data segs = map payload (butlast segs) @ [seg_data (last segs)]" by simp
  then show ?thesis unfolding msg_data_def by (simp add: seg_data_def)
qed

lemma payloads_length: "\<forall>s\<in>set segs. seg_full s \<Longrightarrow> length (concat (map payload segs)) = 1000 * length segs"
  by (induction segs) (auto simp: seg_fullD)

lemma msg_length:
  assumes "msg_ok segs" "segs \<noteq> []"
  shows "length (msg_data segs) = 1000 * (length segs - 1) + DataLen (last segs)"
proof -
  have "\<forall>s\<in>set (butlast segs). seg_full s" "seg_full (last segs)" "DataLen (last segs) \<le> 1000"
    using assms by (auto simp: msg_ok_def dest: in_set_butlastD)
  then show ?thesis using msg_data_split [OF assms] payloads_length [of "butlast segs"] by (simp add: seg_fullD)
qed

text \<open>A content that fits in one block ends in the first block.\<close>

lemma short_content:
  assumes i: "ss_inv (st s)" and w: "s_wf seg_blocks s" and ne: "ss_segs (st s) \<noteq> []"
    and len: "length (s_content seg_blocks s) \<le> 1000"
  shows "m_LastPos s = length (s_content seg_blocks s)"
proof -
  have c: "length (s_content seg_blocks s) = lin (seg_blocks (st s)) (m_LastBlock s) (m_LastPos s)"
    using ss.length_content [of s] i w by (simp add: s_len_def)
  have l: "m_LastBlock s < length (seg_blocks (st s))" "m_LastBlock s > 0 \<longrightarrow> m_LastPos s > 0"
    using w ne by (auto simp: s_wf_def Let_def seg_blocks_def split: if_splits)
  have "m_LastBlock s = 0"
  proof (rule ccontr)
    assume b: "m_LastBlock s \<noteq> 0"
    have "length (seg_blocks (st s) ! 0) = 1000" using seg_block_length [OF i nth_mem, of 0] l by force
    then have "lin (seg_blocks (st s)) 0 1000 \<le> lin (seg_blocks (st s)) (m_LastBlock s) 0"
      using b l by (intro lin_mono) auto
    then show False using c l(2) b len by (simp add: lin_def)
  qed
  then show ?thesis using c by (simp add: lin_def)
qed

lemma content_packed:
  assumes "ss_inv (st s)" "s_wf seg_blocks s" "s_packed seg_blocks s" "ss_segs (st s) \<noteq> []"
  shows "s_content seg_blocks s = concat (map payload (butlast (ss_segs (st s)))) @
      take (m_LastPos s) (payload (last (ss_segs (st s))))"
    "m_LastPos s \<le> 1000" "length (ss_segs (st s)) > 1 \<longrightarrow> 0 < m_LastPos s"
proof -
  let ?segs = "ss_segs (st s)"
  have n: "seg_blocks (st s) \<noteq> []" "Suc (m_LastBlock s) = length ?segs"
    using assms(3,4) by (simp_all add: s_packed_def seg_blocks_def)
  then show "length ?segs > 1 \<longrightarrow> 0 < m_LastPos s" using assms(2) by (auto simp: s_wf_def Let_def)
  have pos: "m_LastPos s \<le> length (seg_blocks (st s) ! m_LastBlock s)" using assms(2) n by (simp add: s_wf_def Let_def)
  moreover have "seg_blocks (st s) ! m_LastBlock s \<in> set (seg_blocks (st s))"
    using n(2) by (intro nth_mem) (simp add: seg_blocks_def)
  ultimately show "m_LastPos s \<le> 1000" using seg_block_length [OF assms(1)] by simp
  have bl: "m_LastBlock s = length (butlast ?segs)" using n(2) by simp
  have "map payload ?segs = map payload (butlast ?segs) @ [payload (last ?segs)]"
    using assms(4) by (metis append_butlast_last_id list.simps(8,9) map_append)
  then show "s_content seg_blocks s = concat (map payload (butlast ?segs)) @ take (m_LastPos s) (payload (last ?segs))"
    using bl by (simp add: s_content_def s_len_def lin_def seg_blocks_def)
qed

lemma Finalize_hdrs:
  assumes m: "ss_msg T (st s)" and L: "m_LastPos s \<le> 1000" and ne: "ss_segs (st s) \<noteq> []"
  defines "segs \<equiv> ss_segs (st (Finalize s))" and "n \<equiv> length (ss_segs (st s))"
  shows "map hdr segs = map (fin_hdr T n (m_LastPos s)) [0..<n]"
    "map payload segs = map payload (ss_segs (st s))" "DataLen (last segs) = m_LastPos s"
    "(n > 1 \<longrightarrow> 0 < m_LastPos s) \<Longrightarrow> msg_ok segs"
proof -
  let ?old = "ss_segs (st s)" and ?L = "m_LastPos s"
  have inv: "ss_inv (st s)" and fr: "map hdr ?old = map (frag_hdr T n) [0..<n]"
    using m by (simp_all add: ss_msg_def ss_frags_def n_def)
  have full: "s \<in> set ?old \<Longrightarrow> seg_full s" for s using inv by (simp add: ss_inv_def)
  define tail where "tail = seg_lenset (?L + seg_Data) (DataLen_set ?L (last ?old))"
  have tail: "seg_full tail" "hdr tail = (hdr (last ?old))\<lparr>h_DataLen := ?L\<rparr>" "payload tail = payload (last ?old)"
    using set_len [of "last ?old" ?L] full ne L by (simp_all add: tail_def)
  define tail1 where "tail1 = (if n > 1 then Options_set (Options tail OR opt_Initial) tail else tail)"
  have t1: "seg_full tail1" "payload tail1 = payload (last ?old)"
    "hdr tail1 = (hdr (last ?old))\<lparr>h_DataLen := ?L,
      h_Options := (if n > 1 then h_Options (hdr (last ?old)) OR opt_Initial else h_Options (hdr (last ?old)))\<rparr>"
    using set_flag [OF tail(1), of opt_Initial] tail by (simp_all add: tail1_def opt_Initial_def)
  have segs: "segs = butlast ?old @ [tail1]"
    using ne by (simp add: segs_def Finalize_def Let_def tail1_def tail_def n_def)
  have n0: "0 < n" using ne by (simp add: n_def)
  have old: "hdr (?old ! i) = frag_hdr T n i" if "i < n" for i
    using arg_cong [OF fr, of "\<lambda>l. l ! i"] that by (simp add: n_def)
  have lst: "hdr (last ?old) = frag_hdr T n (n - 1)" using old [of "n - 1"] n0 ne by (simp add: last_conv_nth n_def)
  have "hdr (segs ! i) = fin_hdr T n ?L i" if "i < n" for i
  proof (cases "Suc i < n")
    case True
    then show ?thesis using old [of i] by (simp add: segs nth_append nth_butlast n_def frag_hdr_def fin_hdr_def)
  next
    case False
    then have "i = n - 1" using that by simp
    then show ?thesis using lst t1(3) n0
      by (simp add: segs nth_append n_def [symmetric] frag_hdr_def fin_hdr_def or.assoc)
  qed
  moreover have "length segs = n" using segs ne by (simp add: n_def)
  ultimately show hd: "map hdr segs = map (fin_hdr T n ?L) [0..<n]" by (intro nth_equalityI) simp_all
  have "map payload segs = map payload (butlast ?old @ [last ?old])" using t1(2) by (simp add: segs)
  then show "map payload segs = map payload ?old" using ne by simp
  have "DataLen s = 1000" if "s \<in> set (butlast ?old)" for s
  proof -
    from that obtain i where i: "i < n - 1" "s = ?old ! i" by (auto simp: in_set_conv_nth nth_butlast n_def)
    then have "i < n" "Suc i < n" by simp_all
    then have "h_DataLen (hdr s) = 1000" using old [of i] i by (simp add: frag_hdr_def del: h_DataLen)
    then show ?thesis by simp
  qed
  moreover have dl: "DataLen tail1 = ?L" using arg_cong [OF t1(3), of h_DataLen] by simp
  then show "DataLen (last segs) = ?L" by (simp add: segs)
  ultimately show "msg_ok segs" if "n > 1 \<longrightarrow> 0 < m_LastPos s"
    using t1(1) full L that dl in_set_butlastD [of _ ?old] by (auto simp: msg_ok_def segs n_def)
qed

lemma Finalize_segs:
  assumes m: "ss_msg T (st s)" and w: "s_wf seg_blocks s" "s_packed seg_blocks s" and ne: "ss_segs (st s) \<noteq> []"
  defines "segs \<equiv> ss_segs (st (Finalize s))" and "n \<equiv> length (ss_segs (st s))"
  shows "map hdr segs = map (fin_hdr T n (m_LastPos s)) [0..<n]" "msg_ok segs"
    "msg_data segs = s_content seg_blocks s"
proof -
  have inv: "ss_inv (st s)" using m by (simp add: ss_msg_def)
  note c = content_packed [OF inv w ne]
  note f = Finalize_hdrs [OF m c(2) ne, folded segs_def n_def]
  show "map hdr segs = map (fin_hdr T n (m_LastPos s)) [0..<n]" by (rule f(1))
  show ok: "msg_ok segs" using f(4) c(3) by (simp add: n_def)
  have "segs \<noteq> []" using f(2) ne by auto
  then have "payload (last segs) = last (map payload segs)" "map payload (butlast segs) = butlast (map payload segs)"
    by (simp_all add: last_map map_butlast)
  then show "msg_data segs = s_content seg_blocks s"
    using msg_data_split [OF ok] c(1) f(3) ne \<open>segs \<noteq> []\<close> by (simp add: f(2) last_map map_butlast)
qed

lemma Inject_spec:
  assumes i: "ss_inv (st s)" and m: "msg_ok segs"
  defines "s' \<equiv> SegmentInject segs s"
  shows "ss_inv (st s') \<and> s_wf seg_blocks s' \<and> s_packed seg_blocks s' \<and> s_content seg_blocks s' = msg_data segs \<and>
    s_pos seg_blocks s' = 0 \<and> ss_segs (st s') = segs"
proof (cases "segs = []")
  case True
  then show ?thesis using i
    by (simp add: s'_def SegmentInject_def Let_def Stream_Clear_def Stream_new_def SegStream_vt_def ss_MemoryFree_def
      ss_inv_def s_wf_def s_packed_def s_content_def s_pos_def s_len_def seg_blocks_def lin_def msg_data_def)
next
  case False
  have s': "st s' = (st s)\<lparr>m_BlockCount := length segs, ss_segs := segs\<rparr>" "m_CurBlock s' = 0" "m_CurPos s' = 0"
    "m_LastBlock s' = length segs - 1" "m_LastPos s' = DataLen (last segs)"
    using False by (simp_all add: s'_def SegmentInject_def Let_def Stream_Clear_def Stream_new_def SegStream_vt_def
      ss_MemoryFree_def)
  have inv: "ss_inv (st s')" using i m by (simp add: s' ss_inv_def msg_ok_def)
  have "seg_full (segs ! (length segs - 1))" using m False by (simp add: msg_ok_def)
  then have len: "length (payload (segs ! (length segs - 1))) = 1000" by (simp add: seg_fullD)
  have wf: "s_wf seg_blocks s'" using False m len
    by (auto simp: s' s_wf_def seg_blocks_def Let_def msg_ok_def seg_fullD)
  have pk: "s_packed seg_blocks s'" using False by (simp add: s_packed_def s' seg_blocks_def)
  have "s_content seg_blocks s' = msg_data segs"
    using content_packed(1) [OF inv wf pk] msg_data_split [OF m False] False by (simp add: s')
  then show ?thesis using inv wf pk by (simp add: s' s_pos_def lin_def)
qed

text \<open>A client's writes, one after the other.\<close>

fun seg_writes :: "octets list \<Rightarrow> segstore stream \<Rightarrow> segstore stream option" where
  "seg_writes [] s = Some s"
| "seg_writes (d # ds) s = do { (s1, n) \<leftarrow> ArrayWr SegStream_vt s (Some d); seg_writes ds s1 }"

text \<open>The state of a stream that is being filled with the message \<open>c\<close>.\<close>

definition filling :: "ipchdr \<Rightarrow> octets \<Rightarrow> segstore stream \<Rightarrow> bool" where
  "filling T c s \<longleftrightarrow> ss_msg T (st s) \<and> s_wf seg_blocks s \<and> s_packed seg_blocks s \<and>
     s_content seg_blocks s = c \<and> s_pos seg_blocks s = length c \<and> (c = [] \<longrightarrow> ss_segs (st s) = [])"

lemma seg_writes_spec: "filling T c s \<Longrightarrow> \<exists>s'. seg_writes ds s = Some s' \<and> filling T (c @ concat ds) s'"
proof (induction ds arbitrary: c s)
  case (Cons d ds)
  show ?case
  proof (cases "d = []")
    case True
    then show ?thesis using Cons by (simp add: ArrayWr_def)
  next
    case False
    have "ss_msg T (st s) \<and> s_wf seg_blocks s" using Cons.prems by (simp add: filling_def)
    from sm.ArrayWr_total [OF this, of d] Cons.prems False obtain s1 where
      "ArrayWr SegStream_vt s (Some d) = Some (s1, length d)" "filling T (c @ d) s1"
      by (auto simp: filling_def patch_end)
    then show ?thesis using Cons.IH [of "c @ d" s1] by simp
  qed
qed simp

lemma new_null:
  assumes "length tblk = 1024" "\<And>k m. al k = Some m \<Longrightarrow> length m = 1024"
  shows "ss_inv (ss_null (IpcSegment_new tblk) al)" "ss_frags (ss_null t al)" "seg_blocks (ss_null t al) = []"
  using new_spec [OF assms(1)] assms(2)
  by (auto simp: ss_inv_def ss_null_def seg_full_def ss_frags_def seg_blocks_def)

lemma new_stream_filling:
  assumes "length tblk = 1024" "\<And>k. \<exists>m. al k = Some m \<and> length m = 1024" "seg_full t"
  shows "filling (hdr t) [] (Template_set t (IpcStreamSeg_new tblk al 0))"
proof -
  let ?x = "ss_null (IpcSegment_new tblk) al"
  have al: "al k = Some m \<Longrightarrow> length m = 1024" "al k \<noteq> None" for k m using assms(2) [of k] by auto
  have add: "ss_MemoryAdd 0 ?x = (?x, False)" by (simp add: ss_MemoryAdd_def)
  have inv: "ss_inv ?x" using new_null(1) [OF assms(1), of al] al(1) by simp
  then have full: "seg_full (m_Template ?x)" by (simp add: ss_inv_def)
  from assign_spec [OF seg_fullD(1) [OF assms(3)] seg_fullD(1) [OF full] seg_fullD(2) [OF assms(3)], of "\<lambda>_. None"]
  have "seg_full (IpcSegment_assign (\<lambda>_. None) t (m_Template ?x))"
    "hdr (IpcSegment_assign (\<lambda>_. None) t (m_Template ?x)) = hdr t"
    using seg_fullD(2) [OF assms(3)] by (simp_all add: seg_full_def)
  moreover have "Template_set t (IpcStreamSeg_new tblk al 0) =
      Stream_new (?x\<lparr>m_Template := IpcSegment_assign (\<lambda>_. None) t (m_Template ?x)\<rparr>)"
    by (simp add: Template_set_def IpcStreamSeg_new_def add Stream_new_def)
  ultimately show ?thesis using inv al(2)
    by (simp add: filling_def Stream_new_def ss_msg_def ss_inv_def ss_null_def
      ss_frags_def s_wf_def s_packed_def s_content_def s_pos_def s_len_def seg_blocks_def lin_def)
qed

text \<open>The number of segments, and the fill of the last one.\<close>

lemma filling_count:
  assumes f: "filling T c s"
  shows "length (ss_segs (st s)) = (length c + 999) div 1000"
    "c \<noteq> [] \<Longrightarrow> m_LastPos s = length c - 1000 * (length (ss_segs (st s)) - 1)"
proof -
  let ?n = "length (ss_segs (st s))"
  have inv: "ss_inv (st s)" using f by (simp add: filling_def ss_msg_def)
  have both: "?n = (length c + 999) div 1000 \<and> m_LastPos s = length c - 1000 * (?n - 1)" if c0: "c \<noteq> []"
  proof -
    have ne: "ss_segs (st s) \<noteq> []" using f c0 by (auto simp: filling_def s_content_def seg_blocks_def)
    have w: "s_wf seg_blocks s" "s_packed seg_blocks s" "s_content seg_blocks s = c" using f by (simp_all add: filling_def)
    note c = content_packed [OF inv w(1,2) ne]
    have l: "seg_full x" if "x \<in> set (ss_segs (st s))" for x using that inv by (simp add: ss_inv_def)
    then have "length (concat (map payload (butlast (ss_segs (st s))))) = 1000 * (?n - 1)"
      by (subst payloads_length) (auto dest: in_set_butlastD)
    then have len: "length c = 1000 * (?n - 1) + m_LastPos s"
      using c(1,2) w(3) ne l [of "last (ss_segs (st s))"] by (simp add: seg_fullD)
    have "0 < m_LastPos s"
    proof (cases "?n = 1")
      case True
      have "0 < length c" using c0 by simp
      then show ?thesis using len True by simp
    next
      case False
      then show ?thesis using c(3) ne by (cases ?n) auto
    qed
    moreover obtain k where "?n = Suc k" using ne by (cases ?n) auto
    ultimately have "1000 * ?n \<le> length c + 999 \<and> length c + 999 < 1000 * Suc ?n" using len c(2) by simp
    then have "(length c + 999) div 1000 = ?n" by (intro div_nat_eqI) simp_all
    then show ?thesis using len by simp
  qed
  show "?n = (length c + 999) div 1000" using both f by (cases "c = []") (auto simp: filling_def)
  show "c \<noteq> [] \<Longrightarrow> m_LastPos s = length c - 1000 * (?n - 1)" using both by simp
qed

lemma Extract_segs [simp]: "snd (SegmentExtract s) = ss_segs (st s)"
  by (simp add: SegmentExtract_def)

lemma finalized:
  assumes f: "filling T c s"
  defines "n \<equiv> (length c + 999) div 1000" and "segs \<equiv> ss_segs (st (Finalize s))"
  shows "map hdr segs = map (fin_hdr T n (length c - 1000 * (n - 1))) [0..<n]" "msg_ok segs" "msg_data segs = c"
proof -
  have "map hdr segs = map (fin_hdr T n (length c - 1000 * (n - 1))) [0..<n] \<and> msg_ok segs \<and> msg_data segs = c"
  proof (cases "c = []")
    case True
    then show ?thesis using f by (simp add: filling_def Finalize_def msg_ok_def msg_data_def segs_def n_def)
  next
    case False
    have w: "ss_msg T (st s)" "s_wf seg_blocks s" "s_packed seg_blocks s" "s_content seg_blocks s = c"
      using f by (simp_all add: filling_def)
    moreover have "ss_segs (st s) \<noteq> []" using w False by (auto simp: s_content_def seg_blocks_def)
    ultimately show ?thesis using Finalize_segs [of T s] filling_count [OF f] False
      by (simp add: segs_def n_def)
  qed
  then show "map hdr segs = map (fin_hdr T n (length c - 1000 * (n - 1))) [0..<n]" "msg_ok segs" "msg_data segs = c"
    by blast+
qed

lemma Inject_read:
  assumes "ss_inv (st r)" "msg_ok segs"
  shows "snd (ArrayRd SegStream_vt (SegmentInject segs r) (length (msg_data segs))) = msg_data segs"
proof -
  note i = Inject_spec [OF assms]
  then have "ss_inv (st (SegmentInject segs r)) \<and> s_wf seg_blocks (SegmentInject segs r)" by simp
  moreover obtain s' out where rd: "ArrayRd SegStream_vt (SegmentInject segs r) (length (msg_data segs)) = (s', out)"
    by fastforce
  ultimately have "out = take (length (msg_data segs)) (drop 0 (msg_data segs))"
    using ss.ArrayRd_spec [OF _ rd] i by (simp only:)
  then show ?thesis by (simp add: rd)
qed

text \<open>
  C12. A message of any length written in any number of pieces is cut into as many segments as
  its octets need, 1000 to a segment. Once finalized, their headers are those of the template with
  the fragments numbered from 1, every segment but the last full, the multipart flag on all and
  the initial flag on the last when there are several. Injected in another stream they read back
  as exactly the octets written.
\<close>

theorem SegStream_message:
  assumes "length tblk = 1024" and "\<And>k. \<exists>m. al k = Some m \<and> length m = 1024" and "seg_full t" and "ss_inv (st r)"
  shows "\<exists>s segs n. seg_writes ds (Template_set t (IpcStreamSeg_new tblk al 0)) = Some s \<and>
    snd (SegmentExtract (Finalize s)) = segs \<and> n = (length (concat ds) + 999) div 1000 \<and>
    map hdr segs = map (fin_hdr (hdr t) n (length (concat ds) - 1000 * (n - 1))) [0..<n] \<and>
    snd (ArrayRd SegStream_vt (SegmentInject segs r) (length (concat ds))) = concat ds"
proof -
  from seg_writes_spec [OF new_stream_filling [of tblk al, OF assms(1-3)], of ds] obtain s where
    s: "seg_writes ds (Template_set t (IpcStreamSeg_new tblk al 0)) = Some s" "filling (hdr t) (concat ds) s" by auto
  show ?thesis using s(1) finalized [OF s(2)] Inject_read [OF assms(4), of "ss_segs (st (Finalize s))"]
    by (intro exI [of _ s]) simp
qed

text \<open>A fresh segment and an empty stream.\<close>

lemma fresh_full: "length blk = 1024 \<Longrightarrow> seg_full (IpcSegment_new blk)"
  using new_spec [of blk] by (simp add: seg_full_def)

lemma fresh_stream: "length tblk = 1024 \<Longrightarrow> ss_inv (st (Stream_new (ss_null (IpcSegment_new tblk) (\<lambda>_. None))))"
  using fresh_full [of tblk] by (simp add: Stream_new_def ss_null_def ss_inv_def)

theorem SegStream_message_witness:
  "\<exists>s segs. seg_writes [[1], [2, 3]] (Template_set (IpcSegment_new (replicate 1024 0))
      (IpcStreamSeg_new (replicate 1024 0) (\<lambda>_. Some (replicate 1024 9)) 0)) = Some s \<and>
    snd (SegmentExtract (Finalize s)) = segs \<and> length segs = 1 \<and>
    snd (ArrayRd SegStream_vt (SegmentInject segs (Stream_new (ss_null (IpcSegment_new (replicate 1024 0)) (\<lambda>_. None)))) 3) = [1, 2, 3]"
proof -
  obtain s segs n where s: "seg_writes [[1], [2, 3]] (Template_set (IpcSegment_new (replicate 1024 0))
      (IpcStreamSeg_new (replicate 1024 0) (\<lambda>_. Some (replicate 1024 9)) 0)) = Some s"
    "snd (SegmentExtract (Finalize s)) = segs" "n = (length (concat [[1 :: u8], [2, 3]]) + 999) div 1000"
    "map hdr segs = map (fin_hdr (hdr (IpcSegment_new (replicate 1024 0))) n (length (concat [[1 :: u8], [2, 3]]) - 1000 * (n - 1))) [0..<n]"
    "snd (ArrayRd SegStream_vt (SegmentInject segs (Stream_new (ss_null (IpcSegment_new (replicate 1024 0)) (\<lambda>_. None))))
      (length (concat [[1 :: u8], [2, 3]]))) = concat [[1], [2, 3]]"
    using SegStream_message [of "replicate 1024 0" "\<lambda>_. Some (replicate 1024 9)" "IpcSegment_new (replicate 1024 0)"
      "Stream_new (ss_null (IpcSegment_new (replicate 1024 0)) (\<lambda>_. None))" "[[1], [2, 3]]"]
      fresh_full fresh_stream by (auto simp del: Extract_segs)
  have "length segs = 1" using arg_cong [OF s(4), of length] s(3) by simp
  moreover have "length (concat [[1 :: u8], [2, 3]]) = 3" by simp
  ultimately show ?thesis using s(1,2,5) by (intro exI [of _ s] exI [of _ segs]) (simp add: numeral_3_eq_3)
qed

text \<open>
  A stream built with a size of its own, more than one segment, and then filled with no more
  than the first segment holds, announces the unused segments as full: the finalized message
  has 1000 octets for each of them besides the data that was written.
\<close>

theorem SegStream_prealloc:
  assumes "length tblk = 1024" and "\<And>k. \<exists>m. al k = Some m \<and> length m = 1024"
    and "1000 < Size" and "data \<noteq> []" and "length data \<le> 1000"
  shows "\<exists>s n. ArrayWr SegStream_vt (IpcStreamSeg_new tblk al Size) (Some data) = Some (s, length data) \<and>
    n = length (ss_segs (st s)) \<and> 1 < n \<and>
    length (msg_data (snd (SegmentExtract (Finalize s)))) = 1000 * (n - 1) + length data"
proof -
  let ?x = "ss_null (IpcSegment_new tblk) al" and ?T = "hdr (IpcSegment_new tblk)"
  let ?s0 = "IpcStreamSeg_new tblk al Size"
  have al: "al k = Some m \<Longrightarrow> length m = 1024" "al k \<noteq> None" for k m using assms(2) [of k] by auto
  have x: "ss_inv ?x" "ss_frags ?x" "seg_blocks ?x = []" using new_null [of tblk al] assms(1) al(1) by simp_all
  obtain x' rv where add: "ss_MemoryAdd Size ?x = (x', rv)" by fastforce
  from ss_add_spec [OF x(1) add] x(2,3) al(2) assms(3) obtain ys where
    ys: "ss_inv x'" "seg_blocks x' = ys" "Size \<le> length (concat ys)" "ss_frags x'" "m_Template x' = IpcSegment_new tblk"
      "\<forall>k. ss_new x' k \<noteq> None" "ys \<noteq> []"
    by (auto simp: ss_null_def)
  have two: "1 < length ys"
  proof (rule ccontr)
    assume "\<not> 1 < length ys"
    then obtain y where "ys = [y]" using ys(7) by (cases ys) auto
    then show False using ys(3) assms(3) seg_block_length [OF ys(1), of y] ys(2) by simp
  qed
  have st0: "?s0 = Stream_new x'" by (simp add: IpcStreamSeg_new_def add)
  have w0: "ss_msg ?T (st ?s0) \<and> s_wf seg_blocks ?s0" using ys
    by (simp add: st0 Stream_new_def ss_msg_def s_wf_def Let_def)
  have c0: "s_content seg_blocks ?s0 = []" "s_pos seg_blocks ?s0 = 0"
    by (simp_all add: st0 Stream_new_def s_content_def s_len_def s_pos_def lin_def)
  from sm.ArrayWr_total [OF w0, of data] c0 obtain s where
    s: "ArrayWr SegStream_vt ?s0 (Some data) = Some (s, length data)" "ss_msg ?T (st s)" "s_wf seg_blocks s"
      "s_content seg_blocks s = data" "length ys \<le> length (seg_blocks (st s))"
    using ys(2) by (auto simp: patch_0 st0 Stream_new_def)
  let ?n = "length (ss_segs (st s))"
  have n: "1 < ?n" using two s(5) by (simp add: seg_blocks_def)
  have inv: "ss_inv (st s)" using s(2) by (simp add: ss_msg_def)
  have ne: "ss_segs (st s) \<noteq> []" using n by auto
  have L: "m_LastPos s = length data" using short_content [OF inv s(3) ne] s(4) assms(5) by simp
  note f = Finalize_hdrs [OF s(2) _ ne]
  let ?segs = "ss_segs (st (Finalize s))"
  have ok: "msg_ok ?segs" using f(4) L assms(4,5) by simp
  have "map payload ?segs = seg_blocks (st s)" using f(2) L assms(5) by (simp add: seg_blocks_def)
  from arg_cong [OF this, of length] have k: "length ?segs = ?n" by (simp add: seg_blocks_def)
  then have sne: "?segs \<noteq> []" using ne by auto
  then show ?thesis using s(1) n msg_length [OF ok sne] f(3) L assms(5) k by auto
qed

theorem SegStream_prealloc_witness:
  "\<exists>s n. ArrayWr SegStream_vt (IpcStreamSeg_new (replicate 1024 0) (\<lambda>_. Some (replicate 1024 9)) 2000) (Some [5]) = Some (s, 1) \<and>
    1 < n \<and> length (msg_data (snd (SegmentExtract (Finalize s)))) = 1000 * (n - 1) + 1"
  using SegStream_prealloc [of "replicate 1024 0" "\<lambda>_. Some (replicate 1024 9)" 2000 "[5]"] by fastforce

end
