(* ===== verification/IpcAccum.thy ===== *)
theory IpcAccum
  imports IpcStreamSeg "HOL-Library.Multiset"
begin

text \<open>
  \<open>cpIpcAccum\<close>: the accumulator that collects the segments of one message in the order of their
  fragment numbers. The list from \<open>m_PtrHead\<close> is \<open>acc_segs\<close>; a segment comes in alone, with no
  successor. The time of \<open>Time64()\<close> is the argument \<open>now\<close>. The properties compose it with the
  segment stream: a finalized message, in whatever order its segments arrive.
\<close>

section \<open>Operations\<close>

record ipcaccum =
  m_Timeout :: u64
  m_Total :: u32
  m_Received :: u32
  acc_segs :: "ipcsegment list"

definition k_IpcAccumulatorTimeout :: u32 where "k_IpcAccumulatorTimeout = 60000"

definition ResetTimeout :: "u64 \<Rightarrow> u32 \<Rightarrow> ipcaccum \<Rightarrow> ipcaccum" where
  "ResetTimeout now MilliSecs a = a\<lparr>m_Timeout := now + ucast MilliSecs\<rparr>"

definition IpcAccum_new :: "u64 \<Rightarrow> ipcaccum" where
  "IpcAccum_new now =
     ResetTimeout now k_IpcAccumulatorTimeout \<lparr>m_Timeout = 0, m_Total = 0, m_Received = 0, acc_segs = []\<rparr>"

text \<open>The search for the first higher fragment number, and the insertion in front of it.\<close>

fun acc_insert :: "ipcsegment \<Rightarrow> ipcsegment list \<Rightarrow> ipcsegment list" where
  "acc_insert pSegment [] = [pSegment]"
| "acc_insert pSegment (pCurr # rest) =
     (if FragNum pSegment < FragNum pCurr then pSegment # pCurr # rest
      else pCurr # acc_insert pSegment rest)"

definition SubmitSegment :: "ipcsegment option \<Rightarrow> ipcaccum \<Rightarrow> ipcaccum" where
  "SubmitSegment pSegment a =
     (case pSegment of
        None \<Rightarrow> a
      | Some seg \<Rightarrow>
          let a1 = a\<lparr>m_Received := m_Received a + 1\<rparr>;
              options = Options seg;
              a2 = (if options AND opt_Multipart \<noteq> 0 \<and> options AND opt_Initial \<noteq> 0
                    then a1\<lparr>m_Total := ucast (FragNum seg)\<rparr> else a1)
          in a2\<lparr>acc_segs := acc_insert seg (acc_segs a2)\<rparr>)"

text \<open>The delivered list, if any, and the accumulator afterwards.\<close>

definition MessageGet :: "ipcaccum \<Rightarrow> ipcaccum \<times> ipcsegment list option" where
  "MessageGet a = (if acc_segs a \<noteq> [] then (a\<lparr>acc_segs := []\<rparr>, Some (acc_segs a)) else (a, None))"

definition Complete :: "ipcaccum \<Rightarrow> bool" where
  "Complete a = (acc_segs a \<noteq> [] \<and> m_Total a > 0 \<and> m_Total a = m_Received a)"

definition Expired :: "u64 \<Rightarrow> ipcaccum \<Rightarrow> bool" where
  "Expired now a = (m_Timeout a \<le> now)"

definition IpcAccum_assign :: "ipcaccum \<Rightarrow> ipcaccum \<Rightarrow> ipcaccum" where
  "IpcAccum_assign rhs a =
     a\<lparr>m_Timeout := m_Timeout rhs, m_Total := m_Total rhs, m_Received := m_Received rhs, acc_segs := acc_segs rhs\<rparr>"

text \<open>A sequence of arrivals.\<close>

definition acc_run :: "ipcsegment list \<Rightarrow> ipcaccum \<Rightarrow> ipcaccum" where
  "acc_run segs a = foldl (\<lambda>a s. SubmitSegment (Some s) a) a segs"

section \<open>The accumulated list\<close>

lemma set_acc_insert [simp]: "set (acc_insert s xs) = insert s (set xs)"
  by (induction xs) auto

lemma mset_acc_insert [simp]: "mset (acc_insert s xs) = add_mset s (mset xs)"
  by (induction xs) auto

lemma acc_insert_ne [simp]: "acc_insert s xs \<noteq> []"
  by (cases xs) auto

lemma sorted_acc_insert: "sorted (map FragNum xs) \<Longrightarrow> sorted (map FragNum (acc_insert s xs))"
  by (induction xs) (auto simp: le_less)

lemma submit_segs [simp]: "acc_segs (SubmitSegment (Some s) a) = acc_insert s (acc_segs a)"
  by (simp add: SubmitSegment_def Let_def)

lemma submit_received [simp]: "m_Received (SubmitSegment (Some s) a) = m_Received a + 1"
  by (simp add: SubmitSegment_def Let_def)

definition final_seg :: "ipcsegment \<Rightarrow> bool" where
  "final_seg s \<longleftrightarrow> Options s AND opt_Multipart \<noteq> 0 \<and> Options s AND opt_Initial \<noteq> 0"

lemma submit_total [simp]:
  "m_Total (SubmitSegment (Some s) a) = (if final_seg s then ucast (FragNum s) else m_Total a)"
  by (simp add: SubmitSegment_def Let_def final_seg_def)

lemma acc_run_Nil [simp]: "acc_run [] a = a"
  by (simp add: acc_run_def)

lemma acc_run_snoc [simp]: "acc_run (xs @ [x]) a = SubmitSegment (Some x) (acc_run xs a)"
  by (simp add: acc_run_def)

lemma acc_run_spec:
  "mset (acc_segs (acc_run xs a)) = mset xs + mset (acc_segs a) \<and>
    (sorted (map FragNum (acc_segs a)) \<longrightarrow> sorted (map FragNum (acc_segs (acc_run xs a)))) \<and>
    m_Received (acc_run xs a) = m_Received a + of_nat (length xs)"
  by (induction xs rule: rev_induct) (auto intro: sorted_acc_insert)

lemma acc_run_total:
  assumes "\<And>s. s \<in> set xs \<Longrightarrow> final_seg s \<Longrightarrow> ucast (FragNum s) = t"
  shows "m_Total (acc_run xs a) = (if \<exists>s\<in>set xs. final_seg s then t else m_Total a)"
  using assms by (induction xs rule: rev_induct) auto

lemma new_accum [simp]:
  "acc_segs (IpcAccum_new now) = []" "m_Total (IpcAccum_new now) = 0" "m_Received (IpcAccum_new now) = 0"
  by (simp_all add: IpcAccum_new_def ResetTimeout_def)

section \<open>Finalized messages\<close>

text \<open>The segments of a finalized message of several fragments, in their order.\<close>

definition fin_msg :: "ipchdr \<Rightarrow> nat \<Rightarrow> nat \<Rightarrow> ipcsegment list \<Rightarrow> bool" where
  "fin_msg T n L segs \<longleftrightarrow> map hdr segs = map (fin_hdr T n L) [0..<n] \<and> 1 < n \<and> n < 2 ^ 16 \<and>
     h_Options T AND (opt_Multipart OR opt_Initial) = 0"

lemma fin_msg_length: "fin_msg T n L segs \<Longrightarrow> length segs = n"
  by (auto simp: fin_msg_def dest: map_eq_imp_length_eq)

lemma fin_msg_nth: "fin_msg T n L segs \<Longrightarrow> i < n \<Longrightarrow> hdr (segs ! i) = fin_hdr T n L i"
proof -
  assume m: "fin_msg T n L segs" and i: "i < n"
  then have "map hdr segs ! i = map (fin_hdr T n L) [0..<n] ! i" by (simp add: fin_msg_def)
  then show ?thesis using i fin_msg_length [OF m] by simp
qed

lemma fin_msg_FragNum: "fin_msg T n L segs \<Longrightarrow> i < n \<Longrightarrow> FragNum (segs ! i) = of_nat (i + 1)"
  using arg_cong [OF fin_msg_nth, of T n L segs i h_FragNum] by (simp add: hdr_def fin_hdr_def)

lemma fin_msg_final: "fin_msg T n L segs \<Longrightarrow> i < n \<Longrightarrow> final_seg (segs ! i) \<longleftrightarrow> i = n - 1"
proof -
  assume m: "fin_msg T n L segs" and i: "i < n"
  have o: "h_Options T AND opt_Multipart = 0" "h_Options T AND opt_Initial = 0"
  proof -
    have "(h_Options T AND (opt_Multipart OR opt_Initial)) AND opt_Multipart = 0"
      "(h_Options T AND (opt_Multipart OR opt_Initial)) AND opt_Initial = 0"
      using m by (simp_all add: fin_msg_def)
    then show "h_Options T AND opt_Multipart = 0" "h_Options T AND opt_Initial = 0"
      by (simp_all add: and.assoc opt_Multipart_def opt_Initial_def)
  qed
  have "Options (segs ! i) = h_Options T OR opt_Multipart OR (if i + 1 < n then 0 else opt_Initial)"
    using arg_cong [OF fin_msg_nth [OF m i], of h_Options] m by (simp add: hdr_def fin_hdr_def fin_msg_def)
  then show ?thesis using o i
    by (auto simp: final_seg_def bit.conj_disj_distrib2 opt_Multipart_def opt_Initial_def)
qed

lemma fin_msg_sorted: "fin_msg T n L segs \<Longrightarrow> sorted (map FragNum segs) \<and> distinct (map FragNum segs)"
proof -
  assume m: "fin_msg T n L segs"
  have n: "length segs = n" "n < 2 ^ 16" using fin_msg_length [OF m] m by (simp_all add: fin_msg_def)
  have u: "unat (FragNum (segs ! i)) = i + 1" if "i < n" for i
    using fin_msg_FragNum [OF m that] that n by (simp add: unat_of_nat del: of_nat_Suc of_nat_add)
  then show ?thesis unfolding sorted_iff_nth_mono distinct_conv_nth using n
    by (auto simp: word_le_nat_alt) (metis Suc_inject)
qed

lemma fin_msg_final_in:
  assumes m: "fin_msg T n L segs" and s: "s \<in> set segs" "final_seg s"
  shows "s = segs ! (n - 1)" "(ucast (FragNum s) :: u32) = of_nat n"
proof -
  obtain i where i: "i < n" "s = segs ! i" using s(1) fin_msg_length [OF m] by (auto simp: in_set_conv_nth)
  then have "i = n - 1" using fin_msg_final [OF m] s(2) by blast
  then show "s = segs ! (n - 1)" using i by simp
  have n: "1 < n" "n < 2 ^ 16" using m by (simp_all add: fin_msg_def)
  then have "FragNum s = of_nat n" using fin_msg_FragNum [OF m i(1)] i(2) \<open>i = n - 1\<close> by (simp del: of_nat_Suc)
  then have "unat (FragNum s) = n" using n by (simp add: unat_of_nat)
  then show "(ucast (FragNum s) :: u32) = of_nat n" by (metis of_nat_unat)
qed

lemma fin_msg_last_final: "fin_msg T n L segs \<Longrightarrow> segs ! (n - 1) \<in> set segs \<and> final_seg (segs ! (n - 1))"
  using fin_msg_final [of T n L segs "n - 1"] fin_msg_length [of T n L segs] by (simp add: fin_msg_def)

text \<open>The count of arrivals decides: complete with the last fragment seen and as many arrivals as fragments.\<close>

lemma acc_complete:
  assumes m: "fin_msg T n L segs" and sub: "set xs \<subseteq> set segs" and k: "length xs \<le> n"
  shows "Complete (acc_run xs (IpcAccum_new now)) \<longleftrightarrow> length xs = n \<and> segs ! (n - 1) \<in> set xs"
proof -
  let ?a = "acc_run xs (IpcAccum_new now)"
  have n: "1 < n" "n < 2 ^ 16" using m by (simp_all add: fin_msg_def)
  note r = acc_run_spec [of xs "IpcAccum_new now"]
  have recv: "m_Received ?a = of_nat (length xs)" using r by simp
  have tot: "m_Total ?a = (if \<exists>s\<in>set xs. final_seg s then of_nat n else 0)"
    by (subst acc_run_total [where t = "of_nat n"]) (use sub fin_msg_final_in [OF m] in auto)
  have last: "(\<exists>s\<in>set xs. final_seg s) \<longleftrightarrow> segs ! (n - 1) \<in> set xs"
    using sub fin_msg_final_in(1) [OF m] fin_msg_last_final [OF m] by blast
  have "acc_segs ?a \<noteq> []" if "xs \<noteq> []" using r that by (auto simp flip: size_mset)
  moreover have "(of_nat n :: u32) = of_nat (length xs) \<longleftrightarrow> length xs = n"
    using n k by (auto simp: word_unat_eq_iff unat_of_nat)
  moreover have "0 < (of_nat n :: u32)" using n by (simp add: word_less_nat_alt unat_of_nat)
  moreover have "xs \<noteq> []" if "segs ! (n - 1) \<in> set xs" using that by auto
  ultimately show ?thesis by (auto simp: Complete_def tot last recv)
qed

lemma acc_order:
  assumes m: "fin_msg T n L segs" and p: "mset xs = mset segs"
  shows "snd (MessageGet (acc_run xs (IpcAccum_new now))) = Some segs"
proof -
  let ?l = "acc_segs (acc_run xs (IpcAccum_new now))"
  note r = acc_run_spec [of xs "IpcAccum_new now"]
  have ms: "mset ?l = mset segs" using r p by simp
  have sd: "sorted (map FragNum segs)" "distinct (map FragNum segs)" using fin_msg_sorted [OF m] by simp_all
  have "mset (map FragNum ?l) = mset (map FragNum segs)" using ms by simp
  then have "distinct (map FragNum ?l)" using sd(2) mset_eq_imp_distinct_iff by blast
  moreover have "sorted (map FragNum ?l)" using r by simp
  moreover have "set ?l = set segs" using ms by (rule mset_eq_setD)
  moreover have "inj_on FragNum (set ?l \<union> set segs)" using sd(2) \<open>set ?l = set segs\<close> by (simp add: distinct_map)
  ultimately have "?l = segs" using sd by (intro map_sorted_distinct_set_unique)
  moreover have "segs \<noteq> []" using fin_msg_length [OF m] m by (auto simp: fin_msg_def)
  ultimately show ?thesis by (simp add: MessageGet_def)
qed

section \<open>From the stream to the accumulator\<close>

lemma filling_fin_msg:
  assumes "filling T c s" and "1000 < length c" and "length c \<le> 65535000"
    and "h_Options T AND (opt_Multipart OR opt_Initial) = 0"
  shows "\<exists>n L. fin_msg T n L (ss_segs (st (Finalize s)))"
proof -
  define n where "n = (length c + 999) div 1000"
  have "1 < n" "n < 2 ^ 16" using assms(2,3) by (simp_all add: n_def)
  then show ?thesis using finalized(1) [OF assms(1)] assms(4) by (auto simp: fin_msg_def n_def)
qed

lemma fresh_options: "length blk = 1024 \<Longrightarrow> h_Options (hdr (IpcSegment_new blk)) AND m = 0"
  using new_spec [of blk] by simp

lemma sample_filling:
  "\<exists>s. filling (hdr (IpcSegment_new (replicate 1024 0))) c s"
  using seg_writes_spec [OF new_stream_filling [of "replicate 1024 0" "\<lambda>_. Some (replicate 1024 9)"
    "IpcSegment_new (replicate 1024 0)"], of "[c]"] fresh_full by auto

lemma sample_message: "\<exists>T n L segs. fin_msg T n L segs \<and> 2 < n"
proof -
  obtain s where s: "filling (hdr (IpcSegment_new (replicate 1024 0))) (replicate 2001 7) s"
    using sample_filling by blast
  from filling_fin_msg [OF this] obtain n L where
    m: "fin_msg (hdr (IpcSegment_new (replicate 1024 0))) n L (ss_segs (st (Finalize s)))"
    by (auto simp: fresh_options)
  have "length (ss_segs (st (Finalize s))) = 3" using arg_cong [OF finalized(1) [OF s], of length] by simp
  then have "2 < n" using fin_msg_length [OF m] by simp
  then show ?thesis using m by blast
qed

text \<open>
  C24. The segments of a finalized message of several fragments, submitted in any order, are
  complete exactly when the last of them has arrived, never before, and are delivered in the
  order they were sent.
\<close>

theorem IpcAccum_reassembles:
  assumes "fin_msg T n L segs" and "mset arrivals = mset segs"
  shows "(\<forall>k<n. \<not> Complete (acc_run (take k arrivals) (IpcAccum_new now))) \<and>
    Complete (acc_run arrivals (IpcAccum_new now)) \<and>
    snd (MessageGet (acc_run arrivals (IpcAccum_new now))) = Some segs"
proof -
  have s: "set arrivals = set segs" using assms(2) by (rule mset_eq_setD)
  have l: "length arrivals = n" using assms fin_msg_length by (metis size_mset)
  have "\<not> Complete (acc_run (take k arrivals) (IpcAccum_new now))" if "k < n" for k
    using acc_complete [OF assms(1), of "take k arrivals" now] set_take_subset [of k arrivals] s l that by auto
  moreover have "Complete (acc_run arrivals (IpcAccum_new now))"
    using acc_complete [OF assms(1), of arrivals now] fin_msg_last_final [OF assms(1)] s l by simp
  ultimately show ?thesis using acc_order [OF assms] by blast
qed

theorem IpcAccum_reassembles_witness:
  "\<exists>segs. 2 < length segs \<and> Complete (acc_run (rev segs) (IpcAccum_new 5)) \<and>
    snd (MessageGet (acc_run (rev segs) (IpcAccum_new 5))) = Some segs"
proof -
  obtain T n L segs where m: "fin_msg T n L segs" "2 < n" using sample_message by blast
  then show ?thesis using IpcAccum_reassembles [OF m(1), of "rev segs" 5] fin_msg_length [OF m(1)] by auto
qed

text \<open>
  Message transport end to end: a message of 1001 to 65535000 octets, written to a segment
  stream in any pieces, finalized, its segments received in any order by an accumulator, is complete
  with the last arrival, and the delivered segments injected in the receiver's stream read back as
  exactly the octets written.
\<close>

theorem IpcMessage_end_to_end:
  assumes "length tblk = 1024" and "\<And>k. \<exists>m. al k = Some m \<and> length m = 1024" and "seg_full t"
    and "h_Options (hdr t) AND (opt_Multipart OR opt_Initial) = 0" and "ss_inv (st r)"
    and "1000 < length (concat ds)" and "length (concat ds) \<le> 65535000"
  shows "\<exists>s segs. seg_writes ds (Template_set t (IpcStreamSeg_new tblk al 0)) = Some s \<and>
    snd (SegmentExtract (Finalize s)) = segs \<and>
    (\<forall>arrivals. mset arrivals = mset segs \<longrightarrow> Complete (acc_run arrivals (IpcAccum_new now)) \<and>
      (\<exists>got. snd (MessageGet (acc_run arrivals (IpcAccum_new now))) = Some got \<and>
        snd (ArrayRd SegStream_vt (SegmentInject got r) (length (concat ds))) = concat ds))"
proof -
  from seg_writes_spec [OF new_stream_filling [of tblk al, OF assms(1-3)], of ds] obtain s where
    s: "seg_writes ds (Template_set t (IpcStreamSeg_new tblk al 0)) = Some s" "filling (hdr t) (concat ds) s" by auto
  from filling_fin_msg [OF s(2) assms(6,7,4)] obtain n L where m: "fin_msg (hdr t) n L (ss_segs (st (Finalize s)))" by blast
  have "snd (ArrayRd SegStream_vt (SegmentInject (ss_segs (st (Finalize s))) r) (length (concat ds))) = concat ds"
    using Inject_read [OF assms(5) finalized(2) [OF s(2)]] finalized(3) [OF s(2)] by simp
  moreover have "Complete (acc_run arrivals (IpcAccum_new now))" if "mset arrivals = mset (ss_segs (st (Finalize s)))" for arrivals
    using acc_complete [OF m, of arrivals now] fin_msg_last_final [OF m] fin_msg_length [OF m] mset_eq_setD [OF that]
      mset_eq_length [OF that] by simp
  ultimately show ?thesis using s(1) acc_order [OF m] by (intro exI [of _ s]) simp
qed

theorem IpcMessage_end_to_end_witness:
  "\<exists>s segs. seg_writes [replicate 2001 7] (Template_set (IpcSegment_new (replicate 1024 0))
      (IpcStreamSeg_new (replicate 1024 0) (\<lambda>_. Some (replicate 1024 9)) 0)) = Some s \<and>
    snd (SegmentExtract (Finalize s)) = segs \<and> Complete (acc_run (rev segs) (IpcAccum_new 5))"
  using IpcMessage_end_to_end [of "replicate 1024 0" "\<lambda>_. Some (replicate 1024 9)" "IpcSegment_new (replicate 1024 0)"
    "Stream_new (ss_null (IpcSegment_new (replicate 1024 0)) (\<lambda>_. None))" "[replicate 2001 7]" 5]
    fresh_full fresh_stream fresh_options by fastforce

text \<open>
  Arrivals are counted, not fragments: when the last fragment and enough copies of others
  have arrived, the accumulator is complete although fragments are missing, and what it delivers
  is not the message.
\<close>

theorem IpcAccum_counts_duplicates:
  assumes "fin_msg T n L segs" and "2 < n"
  shows "let xs = last segs # replicate (n - 1) (hd segs) in
    Complete (acc_run xs (IpcAccum_new now)) \<and>
    (\<exists>got. snd (MessageGet (acc_run xs (IpcAccum_new now))) = Some got \<and> segs ! 1 \<notin> set got)"
proof -
  let ?xs = "last segs # replicate (n - 1) (hd segs)"
  have l: "length segs = n" and ne: "segs \<noteq> []" using fin_msg_length [OF assms(1)] assms(2) by auto
  have c: "Complete (acc_run ?xs (IpcAccum_new now))"
    by (subst acc_complete [OF assms(1)]) (use l ne assms(2) in \<open>auto simp: last_conv_nth\<close>)
  have "distinct segs" using fin_msg_sorted [OF assms(1)] by (simp add: distinct_map)
  then have "segs ! 1 \<noteq> hd segs" "segs ! 1 \<noteq> last segs"
    using l ne assms(2) by (auto simp: hd_conv_nth last_conv_nth nth_eq_iff_index_eq)
  moreover have "set (acc_segs (acc_run ?xs (IpcAccum_new now))) = set ?xs"
    using acc_run_spec [of ?xs "IpcAccum_new now"] by (metis add_cancel_left_right mset.simps(1) new_accum(1) set_mset_mset)
  ultimately show ?thesis using c by (auto simp: Let_def MessageGet_def Complete_def)
qed

theorem IpcAccum_counts_duplicates_witness:
  "\<exists>segs got xs. 2 < length segs \<and> set xs \<subseteq> set segs \<and> Complete (acc_run xs (IpcAccum_new 5)) \<and>
    snd (MessageGet (acc_run xs (IpcAccum_new 5))) = Some got \<and> segs ! 1 \<notin> set got"
proof -
  obtain T n L segs where m: "fin_msg T n L segs" "2 < n" using sample_message by blast
  then have l: "2 < length segs" "segs \<noteq> []" using fin_msg_length [OF m(1)] by auto
  let ?xs = "last segs # replicate (n - 1) (hd segs)"
  obtain got where "Complete (acc_run ?xs (IpcAccum_new 5))"
    "snd (MessageGet (acc_run ?xs (IpcAccum_new 5))) = Some got" "segs ! 1 \<notin> set got"
    using IpcAccum_counts_duplicates [OF m, of 5] by (auto simp: Let_def)
  moreover have "set ?xs \<subseteq> set segs" using l by auto
  ultimately show ?thesis using l by blast
qed

end
