(* ===== verification/SyncQueue.thy ===== *)
theory SyncQueue
  imports Prelude
begin

text \<open>
  \<open>cpSemLite_I\<close> (the POSIX semaphore) and \<open>cpItcQueue\<close>, the bounded queue between threads that
  is built from two semaphores and a mutex. A take is described at the moment it ends: with a
  positive count it takes one, otherwise its wait timed out. The queue's operations run in many
  threads at once: the step relation \<open>itc_step\<close> interleaves their atomic parts.
\<close>

section \<open>The semaphore\<close>

record semlite =
  sl_valid :: bool
  sl_enabled :: bool
  sl_count :: u32
  sl_MaxCount :: u32

text \<open>\<open>l_ok\<close> and \<open>c_ok\<close> tell whether the mutex and the condition variable could be created.\<close>

definition SemLite_new :: "bool \<Rightarrow> bool \<Rightarrow> u32 \<Rightarrow> u32 \<Rightarrow> semlite" where
  "SemLite_new l_ok c_ok InitCount MaxCount =
     \<lparr>sl_valid = (l_ok \<and> c_ok), sl_enabled = (l_ok \<and> c_ok),
      sl_count = (if InitCount > MaxCount then MaxCount else InitCount), sl_MaxCount = MaxCount\<rparr>"

definition SemLite_Take :: "semlite \<Rightarrow> semlite \<times> bool" where
  "SemLite_Take s =
     (if \<not> sl_valid s then (s, False)
      else if \<not> sl_enabled s then (s, False)
      else if sl_count s = 0 then (s, False)
      else (s\<lparr>sl_count := sl_count s - 1\<rparr>, True))"

definition SemLite_TryTake :: "semlite \<Rightarrow> semlite \<times> bool" where
  "SemLite_TryTake s = (if \<not> sl_valid s then (s, False) else SemLite_Take s)"

definition SemLite_Give :: "semlite \<Rightarrow> semlite \<times> bool" where
  "SemLite_Give s =
     (if \<not> sl_valid s then (s, False)
      else if sl_count s < sl_MaxCount s then (s\<lparr>sl_count := sl_count s + 1\<rparr>, True)
      else (s, False))"

definition SemLite_GiveAll :: "semlite \<Rightarrow> semlite \<times> bool" where
  "SemLite_GiveAll s = (if \<not> sl_valid s then (s, False) else (s\<lparr>sl_count := sl_MaxCount s\<rparr>, True))"

definition SemLite_CountGet :: "semlite \<Rightarrow> u32" where
  "SemLite_CountGet s = sl_count s"

text \<open>A working semaphore that holds \<open>n\<close> of at most \<open>m\<close>.\<close>

definition sem_holds :: "semlite \<Rightarrow> nat \<Rightarrow> nat \<Rightarrow> bool" where
  "sem_holds s n m \<longleftrightarrow> sl_valid s \<and> sl_enabled s \<and> unat (sl_count s) = n \<and> unat (sl_MaxCount s) = m \<and> n \<le> m"

lemma Take_holds:
  "sem_holds s n m \<Longrightarrow> SemLite_Take s = (s', rv) \<Longrightarrow> rv = (0 < n) \<and> sem_holds s' (n - 1) m"
  by (auto simp: sem_holds_def SemLite_Take_def unat_eq_zero unat_minus_one split: if_splits)
    (metis unat_minus_one unat_gt_0 | simp add: word_gt_0_no unat_gt_0)+

lemma Give_holds:
  assumes "sem_holds s n m" "SemLite_Give s = (s', rv)"
  shows "rv = (n < m) \<and> sem_holds s' (if n < m then n + 1 else n) m"
proof -
  have v: "sl_valid s" "unat (sl_count s) = n" "unat (sl_MaxCount s) = m" "n \<le> m" using assms(1) by (auto simp: sem_holds_def)
  have "unat (sl_count s + 1) = n + 1" if "n < m"
  proof -
    have "m < 2 ^ 32" using v(3) unsigned_less [of "sl_MaxCount s", where 'a = nat] by simp
    then show ?thesis using v that by (subst unat_plus_simple [THEN iffD1]) (auto simp: no_olen_add_nat)
  qed
  then show ?thesis using assms v by (auto simp: SemLite_Give_def sem_holds_def word_less_nat_alt)
qed

lemma new_holds: "unat i \<le> unat m \<Longrightarrow> sem_holds (SemLite_new True True i m) (unat i) (unat m)"
  by (simp add: sem_holds_def SemLite_new_def word_less_nat_alt)

section \<open>The queue between threads\<close>

record 'e itcqueue =
  m_SemPut :: semlite
  m_SemGet :: semlite
  m_Queue :: "'e list"

definition ItcQueue_new :: "u32 \<Rightarrow> 'e itcqueue" where
  "ItcQueue_new MaxEntries =
     \<lparr>m_SemPut = SemLite_new True True MaxEntries MaxEntries, m_SemGet = SemLite_new True True 0 MaxEntries,
      m_Queue = []\<rparr>"

text \<open>
  The atomic parts of \<open>Put\<close> and \<open>Get\<close>: the take, which may block, and the part under the mutex.
  Removing from an empty queue is not defined; then there is no result.
\<close>

definition put_enter :: "'e itcqueue \<Rightarrow> 'e itcqueue \<times> bool" where
  "put_enter q = (case SemLite_Take (m_SemPut q) of (s, rv) \<Rightarrow> (q\<lparr>m_SemPut := s\<rparr>, rv))"

definition put_store :: "'e \<Rightarrow> 'e itcqueue \<Rightarrow> 'e itcqueue" where
  "put_store e q = q\<lparr>m_Queue := m_Queue q @ [e], m_SemGet := fst (SemLite_Give (m_SemGet q))\<rparr>"

definition get_enter :: "'e itcqueue \<Rightarrow> 'e itcqueue \<times> bool" where
  "get_enter q = (case SemLite_Take (m_SemGet q) of (s, rv) \<Rightarrow> (q\<lparr>m_SemGet := s\<rparr>, rv))"

definition get_take :: "'e itcqueue \<Rightarrow> ('e itcqueue \<times> 'e) option" where
  "get_take q =
     (case m_Queue q of
        [] \<Rightarrow> None
      | e # rest \<Rightarrow> Some (q\<lparr>m_Queue := rest, m_SemPut := fst (SemLite_Give (m_SemPut q))\<rparr>, e))"

definition ItcQueue_Put :: "'e \<Rightarrow> 'e itcqueue \<Rightarrow> 'e itcqueue \<times> bool" where
  "ItcQueue_Put e q = (case put_enter q of (q1, True) \<Rightarrow> (put_store e q1, True) | (q1, False) \<Rightarrow> (q1, False))"

definition ItcQueue_Get :: "'e itcqueue \<Rightarrow> ('e itcqueue \<times> 'e option) option" where
  "ItcQueue_Get q =
     (case get_enter q of
        (q1, True) \<Rightarrow> map_option (\<lambda>(q2, e). (q2, Some e)) (get_take q1)
      | (q1, False) \<Rightarrow> Some (q1, None))"

text \<open>
  The queue in the middle of its users: \<open>sys_putting\<close> are the elements of the threads between the
  take and the store of \<open>Put\<close>, \<open>sys_getting\<close> counts the threads between the take and the removal of
  \<open>Get\<close>; \<open>sys_stored\<close> and \<open>sys_removed\<close> are the elements stored and removed so far, in order. A thread may
  also give up when its take times out.
\<close>

record 'e itcsys =
  itc :: "'e itcqueue"
  sys_putting :: "'e list"
  sys_getting :: nat
  sys_stored :: "'e list"
  sys_removed :: "'e list"

inductive itc_step :: "'e itcsys \<Rightarrow> 'e itcsys \<Rightarrow> bool" where
  put_begin: "put_enter (itc s) = (q, True) \<Longrightarrow>
    itc_step s (s\<lparr>itc := q, sys_putting := e # sys_putting s\<rparr>)"
| put_timeout: "put_enter (itc s) = (q, False) \<Longrightarrow> itc_step s (s\<lparr>itc := q\<rparr>)"
| put_end: "sys_putting s = xs @ e # ys \<Longrightarrow>
    itc_step s (s\<lparr>itc := put_store e (itc s), sys_putting := xs @ ys, sys_stored := sys_stored s @ [e]\<rparr>)"
| get_begin: "get_enter (itc s) = (q, True) \<Longrightarrow>
    itc_step s (s\<lparr>itc := q, sys_getting := sys_getting s + 1\<rparr>)"
| get_timeout: "get_enter (itc s) = (q, False) \<Longrightarrow> itc_step s (s\<lparr>itc := q\<rparr>)"
| get_end: "0 < sys_getting s \<Longrightarrow> get_take (itc s) = Some (q, e) \<Longrightarrow>
    itc_step s (s\<lparr>itc := q, sys_getting := sys_getting s - 1, sys_removed := sys_removed s @ [e]\<rparr>)"

definition itc_start :: "u32 \<Rightarrow> 'e itcsys" where
  "itc_start n = \<lparr>itc = ItcQueue_new n, sys_putting = [], sys_getting = 0, sys_stored = [], sys_removed = []\<rparr>"

inductive itc_reach :: "u32 \<Rightarrow> 'e itcsys \<Rightarrow> bool" for n where
  itc_init: "itc_reach n (itc_start n)"
| itc_next: "itc_reach n s \<Longrightarrow> itc_step s s' \<Longrightarrow> itc_reach n s'"

definition itc_ok :: "nat \<Rightarrow> 'e itcsys \<Rightarrow> bool" where
  "itc_ok n s \<longleftrightarrow>
     (\<exists>p. sem_holds (m_SemPut (itc s)) p n \<and> p + length (sys_putting s) + length (m_Queue (itc s)) = n) \<and>
     (\<exists>g. sem_holds (m_SemGet (itc s)) g n \<and> g + sys_getting s = length (m_Queue (itc s))) \<and>
     sys_stored s = sys_removed s @ m_Queue (itc s)"

lemma itc_okI:
  "sem_holds (m_SemPut (itc s)) p n \<Longrightarrow> p + length (sys_putting s) + length (m_Queue (itc s)) = n \<Longrightarrow>
    sem_holds (m_SemGet (itc s)) g n \<Longrightarrow> g + sys_getting s = length (m_Queue (itc s)) \<Longrightarrow>
    sys_stored s = sys_removed s @ m_Queue (itc s) \<Longrightarrow> itc_ok n s"
  by (auto simp: itc_ok_def)

lemma itc_okE:
  assumes "itc_ok n s"
  obtains p g where "sem_holds (m_SemPut (itc s)) p n" "p + length (sys_putting s) + length (m_Queue (itc s)) = n"
    "sem_holds (m_SemGet (itc s)) g n" "g + sys_getting s = length (m_Queue (itc s))" "sys_stored s = sys_removed s @ m_Queue (itc s)"
  using assms by (auto simp: itc_ok_def)

lemma itc_ok_start: "itc_ok (unat n) (itc_start n)"
  using new_holds [of n n] new_holds [of 0 n]
  by (intro itc_okI [where p = "unat n" and g = 0]) (simp_all add: itc_start_def ItcQueue_new_def)

lemma put_enter_ok:
  "sem_holds (m_SemPut q) p n \<Longrightarrow> put_enter q = (q', rv) \<Longrightarrow>
    rv = (0 < p) \<and> m_SemGet q' = m_SemGet q \<and> m_Queue q' = m_Queue q \<and> sem_holds (m_SemPut q') (p - 1) n"
  by (auto simp: put_enter_def split: prod.splits dest: Take_holds)

lemma get_enter_ok:
  "sem_holds (m_SemGet q) g n \<Longrightarrow> get_enter q = (q', rv) \<Longrightarrow>
    rv = (0 < g) \<and> m_SemPut q' = m_SemPut q \<and> m_Queue q' = m_Queue q \<and> sem_holds (m_SemGet q') (g - 1) n"
  by (auto simp: get_enter_def split: prod.splits dest: Take_holds)

lemma give_holds: "sem_holds s n m \<Longrightarrow> n < m \<Longrightarrow> sem_holds (fst (SemLite_Give s)) (n + 1) m"
proof -
  assume a: "sem_holds s n m" "n < m"
  obtain s' rv where g: "SemLite_Give s = (s', rv)" by fastforce
  show ?thesis using Give_holds [OF a(1) g] a(2) g by simp
qed

lemma itc_ok_step: "itc_step s s' \<Longrightarrow> itc_ok n s \<Longrightarrow> itc_ok n s'"
proof (elim itc_okE)
  fix p g assume pg: "sem_holds (m_SemPut (itc s)) p n" "p + length (sys_putting s) + length (m_Queue (itc s)) = n"
    "sem_holds (m_SemGet (itc s)) g n" "g + sys_getting s = length (m_Queue (itc s))" "sys_stored s = sys_removed s @ m_Queue (itc s)"
  assume "itc_step s s'"
  then show ?thesis
  proof cases
    case (put_begin q e)
    then show ?thesis using pg put_enter_ok [OF pg(1) put_begin(2)]
      by (intro itc_okI [where p = "p - 1" and g = g]) simp_all
  next
    case (put_timeout q)
    then show ?thesis using pg put_enter_ok [OF pg(1) put_timeout(2)]
      by (intro itc_okI [where p = p and g = g]) auto
  next
    case (put_end xs e ys)
    then have "g < n" using pg by simp
    then show ?thesis using pg put_end give_holds [OF pg(3)]
      by (intro itc_okI [where p = p and g = "g + 1"]) (simp_all add: put_store_def)
  next
    case (get_begin q)
    then show ?thesis using pg get_enter_ok [OF pg(3) get_begin(2)]
      by (intro itc_okI [where p = p and g = "g - 1"]) auto
  next
    case (get_timeout q)
    then show ?thesis using pg get_enter_ok [OF pg(3) get_timeout(2)]
      by (intro itc_okI [where p = p and g = g]) auto
  next
    case (get_end q e)
    obtain rest where q: "m_Queue (itc s) = e # rest" "q = (itc s)\<lparr>m_Queue := rest, m_SemPut := fst (SemLite_Give (m_SemPut (itc s)))\<rparr>"
      using get_end(3) by (auto simp: get_take_def split: list.splits)
    then have "p < n" using pg by simp
    then show ?thesis using pg get_end q give_holds [OF pg(1)]
      by (intro itc_okI [where p = "p + 1" and g = g]) simp_all
  qed
qed

lemma itc_reach_ok: "itc_reach n s \<Longrightarrow> itc_ok (unat n) s"
  by (induction rule: itc_reach.induct) (auto intro: itc_ok_start itc_ok_step)

text \<open>
  C9. Whatever the interleaving of the threads that use a queue of \<open>n\<close> entries: the queue never holds
  more than \<open>n\<close> elements, a thread that got past the take of \<open>Get\<close> always finds an element to
  remove, and the elements come out in the order they were stored, none lost and none twice.
\<close>

theorem ItcQueue_fifo:
  assumes "itc_reach n s"
  shows "length (m_Queue (itc s)) \<le> unat n \<and> sys_stored s = sys_removed s @ m_Queue (itc s) \<and>
    (0 < sys_getting s \<longrightarrow> get_take (itc s) \<noteq> None)"
  using itc_reach_ok [OF assms] by (auto simp: itc_ok_def get_take_def split: list.splits)

theorem ItcQueue_fifo_witness:
  "\<exists>s :: nat itcsys. itc_reach 2 s \<and> m_Queue (itc s) = [7] \<and> length (m_Queue (itc s)) \<le> 2"
proof -
  let ?s0 = "itc_start 2 :: nat itcsys"
  let ?s1 = "?s0\<lparr>itc := fst (put_enter (itc ?s0)), sys_putting := [7]\<rparr>"
  let ?s2 = "?s1\<lparr>itc := put_store 7 (itc ?s1), sys_putting := [], sys_stored := [7]\<rparr>"
  have "put_enter (itc ?s0) = (fst (put_enter (itc ?s0)), True)"
    by (simp add: itc_start_def ItcQueue_new_def put_enter_def SemLite_new_def SemLite_Take_def)
  from put_begin [OF this, of 7] have "itc_step ?s0 ?s1" by (simp add: itc_start_def)
  moreover have "itc_step ?s1 ?s2" using put_end [of ?s1 "[]" 7 "[]"] by (simp add: itc_start_def)
  ultimately have r: "itc_reach 2 ?s2" by (meson itc_reach.intros)
  have "m_Queue (itc ?s2) = [7]"
    by (simp add: put_store_def itc_start_def ItcQueue_new_def put_enter_def SemLite_new_def SemLite_Take_def)
  then show ?thesis using ItcQueue_fifo [OF r] r by (intro exI [of _ ?s2]) simp
qed

end
