(* ===== verification/Dispatch.thy ===== *)
theory Dispatch
  imports SyncQueue
begin

text \<open>
  \<open>cpDispatch\<close>: a queue of events and a stack of handlers that run on each event between a pre-
  and a post-dispatch handler. A handler is a function pointer, an element of \<open>'h\<close>; what the function
  does is the parameter \<open>call\<close>, on the event and the world \<open>'w\<close>. NULL pointers are \<open>None\<close>. The
  worker threads take events from the queue of \<open>SyncQueue\<close>.
\<close>

section \<open>Operations\<close>

datatype opcode = opc_NoOp | opc_NewEvent | opc_Shutdown

record ('e, 'c) dispevent =
  OpCode :: opcode
  pEvent :: "'e option"
  pContext :: "'c option"

record ('h, 'c) handlerrecord =
  pHandler :: "'h option"
  hContext :: "'c option"

record ('h, 'e, 'c) dispatch =
  m_EventQueue :: "('e, 'c) dispevent option itcqueue"
  dq_Flag1 :: bool
  m_PreDispatch :: "('h, 'c) handlerrecord"
  m_PostDispatch :: "('h, 'c) handlerrecord"
  m_Handlers :: "('h, 'c) handlerrecord list"
  dq_Threads :: nat

definition no_handler :: "('h, 'c) handlerrecord" where
  "no_handler = \<lparr>pHandler = None, hContext = None\<rparr>"

text \<open>\<open>NumThreadsSet\<close>: the number of threads; creation is allowed by the flag of the queue.\<close>

definition NumThreadsSet :: "nat \<Rightarrow> ('h, 'e, 'c) dispatch \<Rightarrow> ('h, 'e, 'c) dispatch" where
  "NumThreadsSet NumThreads d =
     (let createThreads = NumThreads > dq_Threads d;
          deleteThreads = NumThreads < dq_Threads d;
          d1 = (if createThreads \<and> dq_Flag1 d then d\<lparr>dq_Threads := dq_Threads d + (NumThreads - dq_Threads d)\<rparr> else d)
      in if deleteThreads then d1\<lparr>dq_Threads := dq_Threads d1 - (dq_Threads d1 - NumThreads)\<rparr> else d1)"

definition Dispatch_new :: "nat \<Rightarrow> u32 \<Rightarrow> ('h, 'e, 'c) dispatch" where
  "Dispatch_new NumThreads EventQueueDepth =
     NumThreadsSet NumThreads
       \<lparr>m_EventQueue = ItcQueue_new EventQueueDepth, dq_Flag1 = True, m_PreDispatch = no_handler,
        m_PostDispatch = no_handler, m_Handlers = [], dq_Threads = 0\<rparr>"

text \<open>\<open>ok\<close> is the success of \<open>GenEvent\<close>.\<close>

definition submit_op :: "bool \<Rightarrow> opcode \<Rightarrow> 'e option \<Rightarrow> ('h, 'e, 'c) dispatch \<Rightarrow> ('h, 'e, 'c) dispatch \<times> bool" where
  "submit_op ok op ev d =
     (if ok then
        case ItcQueue_Put (Some \<lparr>OpCode = op, pEvent = ev, pContext = None\<rparr>) (m_EventQueue d) of
          (q, rv) \<Rightarrow> (d\<lparr>m_EventQueue := q\<rparr>, rv)
      else (d, False))"

definition SubmitEvent :: "bool \<Rightarrow> 'e option \<Rightarrow> ('h, 'e, 'c) dispatch \<Rightarrow> ('h, 'e, 'c) dispatch \<times> bool" where
  "SubmitEvent ok ev d = submit_op ok opc_NewEvent ev d"

definition Shutdown :: "bool \<Rightarrow> ('h, 'e, 'c) dispatch \<Rightarrow> ('h, 'e, 'c) dispatch \<times> bool" where
  "Shutdown ok d = submit_op ok opc_Shutdown None d"

definition PreDispatchSet :: "'h option \<Rightarrow> 'c option \<Rightarrow> ('h, 'e, 'c) dispatch \<Rightarrow> ('h, 'e, 'c) dispatch" where
  "PreDispatchSet h c d = d\<lparr>m_PreDispatch := \<lparr>pHandler = h, hContext = c\<rparr>\<rparr>"

definition PostDispatchSet :: "'h option \<Rightarrow> 'c option \<Rightarrow> ('h, 'e, 'c) dispatch \<Rightarrow> ('h, 'e, 'c) dispatch" where
  "PostDispatchSet h c d = d\<lparr>m_PostDispatch := \<lparr>pHandler = h, hContext = c\<rparr>\<rparr>"

fun handler_found :: "'h \<Rightarrow> ('h, 'c) handlerrecord list \<Rightarrow> bool" where
  "handler_found h [] = False"
| "handler_found h (i # rest) = (if pHandler i = Some h then True else handler_found h rest)"

definition EventHandlerAdd :: "'h option \<Rightarrow> 'c option \<Rightarrow> ('h, 'e, 'c) dispatch \<Rightarrow> ('h, 'e, 'c) dispatch \<times> bool" where
  "EventHandlerAdd ph c d =
     (case ph of
        None \<Rightarrow> (d, False)
      | Some h \<Rightarrow>
          if \<not> handler_found h (m_Handlers d)
          then (d\<lparr>m_Handlers := m_Handlers d @ [\<lparr>pHandler = Some h, hContext = c\<rparr>]\<rparr>, True)
          else (d, False))"

fun handler_erase :: "'h option \<Rightarrow> ('h, 'c) handlerrecord list \<Rightarrow> ('h, 'c) handlerrecord list \<times> bool" where
  "handler_erase h [] = ([], False)"
| "handler_erase h (i # rest) =
     (if pHandler i = h then (rest, True) else case handler_erase h rest of (l, rv) \<Rightarrow> (i # l, rv))"

definition EventHandlerDel :: "'h option \<Rightarrow> ('h, 'e, 'c) dispatch \<Rightarrow> ('h, 'e, 'c) dispatch \<times> bool" where
  "EventHandlerDel h d =
     (case handler_erase h (m_Handlers d) of (l, rv) \<Rightarrow> (d\<lparr>m_Handlers := l\<rparr>, rv))"

text \<open>
  Running one handler record on the event: the context is put in the event first. The stack holds
  no NULL handler; its record is run through the pointer.
\<close>

type_synonym ('h, 'e, 'c, 'w) caller = "'h \<Rightarrow> ('e, 'c) dispevent \<Rightarrow> 'w \<Rightarrow> ('e, 'c) dispevent \<times> 'w"

definition run_handler ::
  "('h, 'e, 'c, 'w) caller \<Rightarrow> ('h, 'c) handlerrecord \<Rightarrow> ('e, 'c) dispevent \<times> 'w \<Rightarrow> ('e, 'c) dispevent \<times> 'w" where
  "run_handler call i evw =
     (case pHandler i of
        Some h \<Rightarrow> call h ((fst evw)\<lparr>pContext := hContext i\<rparr>) (snd evw)
      | None \<Rightarrow> evw)"

fun run_stack ::
  "('h, 'e, 'c, 'w) caller \<Rightarrow> ('h, 'c) handlerrecord list \<Rightarrow> ('e, 'c) dispevent \<times> 'w \<Rightarrow> ('e, 'c) dispevent \<times> 'w" where
  "run_stack call [] evw = evw"
| "run_stack call (i # rest) evw = run_stack call rest (run_handler call i evw)"

text \<open>The treatment of one event: the world afterwards, and whether the thread is asked to exit.\<close>

definition thread_event ::
  "('h, 'e, 'c, 'w) caller \<Rightarrow> ('h, 'e, 'c) dispatch \<Rightarrow> ('e, 'c) dispevent option \<Rightarrow> 'w \<Rightarrow> 'w \<times> bool" where
  "thread_event call d pDispEvent w =
     (case pDispEvent of
        None \<Rightarrow> (w, False)
      | Some ev \<Rightarrow>
          (case OpCode ev of
             opc_NewEvent \<Rightarrow>
               let a = (if pHandler (m_PreDispatch d) \<noteq> None then run_handler call (m_PreDispatch d) (ev, w) else (ev, w));
                   b = run_stack call (m_Handlers d) a;
                   c = (if pHandler (m_PostDispatch d) \<noteq> None then run_handler call (m_PostDispatch d) b else b)
               in (snd c, False)
           | opc_Shutdown \<Rightarrow> (w, True)
           | opc_NoOp \<Rightarrow> (w, False)))"

section \<open>The handler stack\<close>

definition stack_ok :: "('h, 'e, 'c) dispatch \<Rightarrow> bool" where
  "stack_ok d \<longleftrightarrow> (\<forall>i\<in>set (m_Handlers d). pHandler i \<noteq> None) \<and> distinct (map pHandler (m_Handlers d))"

lemma handler_found_iff: "handler_found h l \<longleftrightarrow> Some h \<in> pHandler ` set l"
  by (induction l) (auto split: if_splits)

lemma handler_erase_spec:
  "distinct (map pHandler l) \<Longrightarrow> handler_erase h l = (filter (\<lambda>i. pHandler i \<noteq> h) l, h \<in> pHandler ` set l)"
proof (induction l)
  case (Cons i l)
  then show ?case by (auto simp: image_iff intro!: filter_True [symmetric])
qed simp

text \<open>
  The handler stack is a list of distinct handlers in the order of their registration:
  adding a handler appends it unless it is there, deleting removes exactly that handler, the
  results tell whether anything changed, and no operation stores a NULL handler.
\<close>

theorem Dispatch_handlers:
  assumes "stack_ok d"
  shows "(case EventHandlerAdd h c d of (d', rv) \<Rightarrow> stack_ok d' \<and> rv = (h \<noteq> None \<and> h \<notin> pHandler ` set (m_Handlers d)) \<and>
      m_Handlers d' = m_Handlers d @ (if rv then [\<lparr>pHandler = h, hContext = c\<rparr>] else [])) \<and>
    (case EventHandlerDel h d of (d', rv) \<Rightarrow> stack_ok d' \<and> rv = (h \<in> pHandler ` set (m_Handlers d)) \<and>
      m_Handlers d' = filter (\<lambda>i. pHandler i \<noteq> h) (m_Handlers d)) \<and>
    stack_ok (Dispatch_new n depth :: ('h, 'e, 'c) dispatch)"
proof -
  have del: "EventHandlerDel h d = (d\<lparr>m_Handlers := filter (\<lambda>i. pHandler i \<noteq> h) (m_Handlers d)\<rparr>, h \<in> pHandler ` set (m_Handlers d))"
    using assms by (simp add: EventHandlerDel_def handler_erase_spec stack_ok_def)
  have "stack_ok (Dispatch_new n depth :: ('h, 'e, 'c) dispatch)"
    by (simp add: Dispatch_new_def NumThreadsSet_def stack_ok_def Let_def)
  then show ?thesis using assms
    by (auto simp: EventHandlerAdd_def del handler_found_iff stack_ok_def distinct_map_filter split: option.splits)
qed

theorem Dispatch_handlers_witness:
  "m_Handlers (fst (EventHandlerAdd (Some (7 :: nat)) (None :: nat option) (Dispatch_new 1 64 :: (nat, nat, nat) dispatch))) =
    [\<lparr>pHandler = Some 7, hContext = None\<rparr>]"
proof -
  have ok: "stack_ok (Dispatch_new 1 64 :: (nat, nat, nat) dispatch)"
    by (simp add: Dispatch_new_def NumThreadsSet_def stack_ok_def Let_def)
  have "m_Handlers (Dispatch_new 1 64 :: (nat, nat, nat) dispatch) = []"
    by (simp add: Dispatch_new_def NumThreadsSet_def Let_def)
  then show ?thesis using Dispatch_handlers [OF ok, of "Some 7" None 0 0]
    by (cases "EventHandlerAdd (Some 7) None (Dispatch_new 1 64 :: (nat, nat, nat) dispatch)") auto
qed

text \<open>The calls of one event, as a log of the handlers with their contexts.\<close>

definition log_call :: "('h, 'e, 'c, ('h \<times> 'c option \<times> 'e option) list) caller" where
  "log_call h ev log = (ev, log @ [(h, pContext ev, pEvent ev)])"

definition handler_calls :: "'e option \<Rightarrow> ('h, 'c) handlerrecord list \<Rightarrow> ('h \<times> 'c option \<times> 'e option) list" where
  "handler_calls ev l = map (\<lambda>i. (the (pHandler i), hContext i, ev)) (filter (\<lambda>i. pHandler i \<noteq> None) l)"

lemma run_handler_log: "run_handler log_call i (ev, log) =
    (if pHandler i = None then ev else ev\<lparr>pContext := hContext i\<rparr>, log @ handler_calls (pEvent ev) [i])"
  by (simp add: run_handler_def log_call_def handler_calls_def split: option.splits)

lemma run_stack_log: "\<exists>ev'. run_stack log_call l (ev, log) = (ev', log @ handler_calls (pEvent ev) l) \<and> pEvent ev' = pEvent ev"
proof (induction l arbitrary: ev log)
  case (Cons i l)
  have "handler_calls (pEvent ev) (i # l) = handler_calls (pEvent ev) [i] @ handler_calls (pEvent ev) l"
    by (simp add: handler_calls_def)
  moreover have "pEvent (if pHandler i = None then ev else ev\<lparr>pContext := hContext i\<rparr>) = pEvent ev" by simp
  ultimately show ?case using Cons [of "if pHandler i = None then ev else ev\<lparr>pContext := hContext i\<rparr>" "log @ handler_calls (pEvent ev) [i]"]
    by (simp only: run_stack.simps run_handler_log append_assoc)
qed (simp add: handler_calls_def)

text \<open>
  C26. Every new event is shown to the pre-dispatch handler, then to each registered handler in the
  order of registration, then to the post-dispatch handler, each with the context it was registered with;
  a shutdown event runs nothing and ends the thread.
\<close>

theorem Dispatch_order:
  fixes d :: "('h, 'e, 'c) dispatch"
  shows "thread_event log_call d (Some \<lparr>OpCode = opc_NewEvent, pEvent = e, pContext = c\<rparr>) log =
     (log @ handler_calls e (m_PreDispatch d # m_Handlers d @ [m_PostDispatch d]), False) \<and>
   thread_event call d (Some \<lparr>OpCode = opc_Shutdown, pEvent = e, pContext = c\<rparr>) w = (w, True)"
proof -
  define ev where "ev = \<lparr>OpCode = opc_NewEvent, pEvent = e, pContext = c\<rparr>"
  define ev1 where "ev1 = (if pHandler (m_PreDispatch d) = None then ev else ev\<lparr>pContext := hContext (m_PreDispatch d)\<rparr>)"
  have e: "pEvent ev1 = e" by (simp add: ev1_def ev_def)
  have split: "handler_calls e (a # l @ [b]) = handler_calls e [a] @ handler_calls e l @ handler_calls e [b]"
    for a b :: "('h, 'c) handlerrecord" and l by (simp add: handler_calls_def)
  have none: "handler_calls e [i] = []" if "pHandler i = None" for i :: "('h, 'c) handlerrecord" and e :: "'e option"
    using that by (simp add: handler_calls_def)
  have a: "(if pHandler (m_PreDispatch d) \<noteq> None then run_handler log_call (m_PreDispatch d) (ev, log) else (ev, log)) =
      (ev1, log @ handler_calls e [m_PreDispatch d])"
    by (simp add: run_handler_log ev1_def none) (simp add: ev_def none)
  obtain ev2 where b: "run_stack log_call (m_Handlers d) (ev1, log @ handler_calls e [m_PreDispatch d]) =
      (ev2, (log @ handler_calls e [m_PreDispatch d]) @ handler_calls e (m_Handlers d))" "pEvent ev2 = e"
    using run_stack_log [of "m_Handlers d" ev1 "log @ handler_calls e [m_PreDispatch d]"] e by auto
  have "snd (if pHandler (m_PostDispatch d) \<noteq> None then run_handler log_call (m_PostDispatch d) (ev2, l) else (ev2, l)) =
      l @ handler_calls e [m_PostDispatch d]" for l
    by (simp add: run_handler_log b(2) none)
  moreover have "thread_event log_call d (Some ev) log =
      (snd (let b = run_stack log_call (m_Handlers d) (ev1, log @ handler_calls e [m_PreDispatch d])
        in if pHandler (m_PostDispatch d) \<noteq> None then run_handler log_call (m_PostDispatch d) b else b), False)"
    unfolding thread_event_def Let_def a [symmetric] by (simp add: ev_def)
  ultimately have "thread_event log_call d (Some ev) log =
      (log @ handler_calls e (m_PreDispatch d # m_Handlers d @ [m_PostDispatch d]), False)"
    by (simp add: b(1) split Let_def)
  then show ?thesis by (simp add: ev_def thread_event_def)
qed

end
