(* ===== verification/IpcXmit.thy ===== *)
theory IpcXmit
  imports IpcAccum SyncQueue
begin

text \<open>
  \<open>IpcTransmitQueue\<close> of \<open>cpIpcNodeUtil\<close>: messages wait in a priority queue and leave it one segment
  at a time. An entry is a pointer to a segment with the segments attached to it, or NULL. The
  queue is refined to the flat list of segments that will leave it, with their message numbers.
\<close>

section \<open>Operations\<close>

type_synonym chain = "ipcsegment \<times> ipcsegment list"

record xmitqueue =
  xq_MsgId :: u32
  xq_Sem :: semlite
  m_PriorityQueue :: "chain option list"

definition XmitQueue_new :: xmitqueue where
  "XmitQueue_new = \<lparr>xq_MsgId = 0, xq_Sem = SemLite_new True True 0 0xffffffff, m_PriorityQueue = []\<rparr>"

text \<open>
  The insertion before the first entry of lower priority (a higher number). Each entry it
  passes is dereferenced, so a NULL entry on the way leaves no result.
\<close>

fun xq_insert :: "u8 \<Rightarrow> chain \<Rightarrow> chain option list \<Rightarrow> chain option list option" where
  "xq_insert priority msg [] = Some [Some msg]"
| "xq_insert priority msg (None # rest) = None"
| "xq_insert priority msg (Some c # rest) =
     (if priority < Priority (fst c) then Some (Some msg # Some c # rest)
      else map_option (\<lambda>l. Some c # l) (xq_insert priority msg rest))"

definition TransmitMessage :: "chain option \<Rightarrow> xmitqueue \<Rightarrow> (xmitqueue \<times> u32) option" where
  "TransmitMessage pSegment q =
     (case pSegment of
        None \<Rightarrow> Some (q, 0)
      | Some (seg, attached) \<Rightarrow>
          let priority = Priority seg;
              mid = (if xq_MsgId q + 1 = 0 then xq_MsgId q + 2 else xq_MsgId q + 1);
              seg1 = MsgId_set mid seg
          in case xq_insert priority (seg1, attached) (m_PriorityQueue q) of
               None \<Rightarrow> None
             | Some l \<Rightarrow>
                 Some (q\<lparr>xq_MsgId := mid, m_PriorityQueue := l, xq_Sem := fst (SemLite_Give (xq_Sem q))\<rparr>, mid))"

text \<open>The delivered segment, if any: \<open>None\<close> is the return value false.\<close>

definition SegmentGet :: "xmitqueue \<Rightarrow> xmitqueue \<times> ipcsegment option" where
  "SegmentGet q =
     (case SemLite_Take (xq_Sem q) of
        (sem, False) \<Rightarrow> (q\<lparr>xq_Sem := sem\<rparr>, None)
      | (sem, True) \<Rightarrow>
          let (l, out) =
                (case m_PriorityQueue q of
                   [] \<Rightarrow> ([], None)
                 | None # rest \<Rightarrow> (rest, None)
                 | Some (seg, []) # rest \<Rightarrow> (rest, Some seg)
                 | Some (seg, pSeg # pMore) # rest \<Rightarrow> (Some (MsgId_set (MsgId seg) pSeg, pMore) # rest, Some seg));
              sem1 = (if length l > 0 \<and> SemLite_CountGet sem = 0 then fst (SemLite_Give sem) else sem)
          in (q\<lparr>xq_Sem := sem1, m_PriorityQueue := l\<rparr>, out))"

definition xq_ReleaseThread :: "xmitqueue \<Rightarrow> xmitqueue" where
  "xq_ReleaseThread q =
     q\<lparr>m_PriorityQueue := m_PriorityQueue q @ [None], xq_Sem := fst (SemLite_Give (xq_Sem q))\<rparr>"

section \<open>Reachable queues\<close>

text \<open>A message: valid segments of one priority.\<close>

definition chain_ok :: "chain \<Rightarrow> bool" where
  "chain_ok c \<longleftrightarrow> seg_full (fst c) \<and> (\<forall>t\<in>set (snd c). seg_full t \<and> Priority t = Priority (fst c))"

inductive xq_reach :: "xmitqueue \<Rightarrow> bool" where
  xq_new: "xq_reach XmitQueue_new"
| xq_put: "xq_reach q \<Longrightarrow> chain_ok c \<Longrightarrow> TransmitMessage (Some c) q = Some (q', mid) \<Longrightarrow> xq_reach q'"
| xq_get: "xq_reach q \<Longrightarrow> SegmentGet q = (q', out) \<Longrightarrow> xq_reach q'"

text \<open>What a chain sends, and what the queue will send.\<close>

definition sends :: "chain \<Rightarrow> ipcsegment list" where
  "sends c = fst c # map (MsgId_set (MsgId (fst c))) (snd c)"

definition xq_flat :: "xmitqueue \<Rightarrow> ipcsegment list" where
  "xq_flat q = concat (map (case_option [] sends) (m_PriorityQueue q))"

definition xq_ok :: "xmitqueue \<Rightarrow> bool" where
  "xq_ok q \<longleftrightarrow>
     (\<exists>n. sem_holds (xq_Sem q) n (2 ^ 32 - 1) \<and> (m_PriorityQueue q \<noteq> [] \<longrightarrow> 0 < n)) \<and>
     (\<forall>e\<in>set (m_PriorityQueue q). \<exists>c. e = Some c \<and> chain_ok c) \<and>
     sorted (map Priority (xq_flat q))"

lemma MsgId_set_full:
  "seg_full s \<Longrightarrow> seg_full (MsgId_set k s) \<and> Priority (MsgId_set k s) = Priority s \<and>
    MsgId (MsgId_set k s) = k \<and> hdr (MsgId_set k s) = (hdr s)\<lparr>h_MsgId := k\<rparr> \<and> payload (MsgId_set k s) = payload s"
proof -
  assume f: "seg_full s"
  then have s: "seg_sets (h_MsgId_update (\<lambda>_. k)) s (MsgId_set k s)" by (intro Id_set_sets seg_fullD)
  then have "h_Priority (hdr (MsgId_set k s)) = h_Priority (hdr s)" "h_MsgId (hdr (MsgId_set k s)) = k"
    by (simp_all add: seg_sets_def)
  then show ?thesis using s f by (simp add: hdr_def seg_sets_def seg_full_def) (simp add: MsgId_set_def)
qed

lemma sends_priority: "chain_ok c \<Longrightarrow> s \<in> set (sends c) \<Longrightarrow> seg_full s \<and> Priority s = Priority (fst c)"
  using MsgId_set_full by (auto simp: sends_def chain_ok_def)

lemma sends_map_priority: "chain_ok c \<Longrightarrow> map Priority (sends c) = replicate (length (sends c)) (Priority (fst c))"
proof (intro nth_equalityI)
  fix i assume c: "chain_ok c" "i < length (map Priority (sends c))"
  then have "sends c ! i \<in> set (sends c)" by simp
  then show "map Priority (sends c) ! i = replicate (length (sends c)) (Priority (fst c)) ! i"
    using sends_priority [OF c(1)] c(2) by simp
qed simp

lemma sends_next:
  "chain_ok (s, t # u) \<Longrightarrow> sends (s, t # u) = s # sends (MsgId_set (MsgId s) t, u) \<and> chain_ok (MsgId_set (MsgId s) t, u)"
  using MsgId_set_full [of t "MsgId s"] by (simp add: sends_def chain_ok_def)

lemma insert_spec:
  "\<forall>e\<in>set l. \<exists>c. e = Some c \<and> chain_ok c \<Longrightarrow> chain_ok m \<Longrightarrow> p = Priority (fst m) \<Longrightarrow>
    sorted (map Priority (concat (map (case_option [] sends) l))) \<Longrightarrow>
    \<exists>l'. xq_insert p m l = Some l' \<and> set l' = insert (Some m) (set l) \<and>
      concat (map (case_option [] sends) l') =
        filter (\<lambda>s. Priority s \<le> p) (concat (map (case_option [] sends) l)) @ sends m @
        filter (\<lambda>s. p < Priority s) (concat (map (case_option [] sends) l))"
proof (induction l)
  case (Cons e l)
  then obtain c where c: "e = Some c" "chain_ok c" by auto
  let ?fl = "concat (map (case_option [] sends) l)"
  have pr: "s \<in> set (sends c) \<Longrightarrow> Priority s = Priority (fst c)" for s using sends_priority [OF c(2)] by simp
  have c0: "fst c \<in> set (sends c)" by (simp add: sends_def)
  have later: "Priority (fst c) \<le> Priority s" if "s \<in> set ?fl" for s
    using Cons.prems(4) c c0 that by (auto simp: sorted_append c)
  show ?case
  proof (cases "p < Priority (fst c)")
    case True
    then have gt: "p < Priority s" if "s \<in> set (sends c @ ?fl)" for s
    proof (cases "s \<in> set (sends c)")
      case True
      then show ?thesis using pr \<open>p < Priority (fst c)\<close> by simp
    next
      case False
      then have "s \<in> set ?fl" using that by simp
      from later [OF this] \<open>p < Priority (fst c)\<close> show ?thesis by simp
    qed
    then have "filter (\<lambda>s. Priority s \<le> p) (sends c @ ?fl) = []"
      by (intro filter_False) (simp add: not_le)
    moreover have "filter (\<lambda>s. p < Priority s) (sends c @ ?fl) = sends c @ ?fl"
      using gt by (intro filter_True) simp
    ultimately show ?thesis using True c by simp
  next
    case False
    then have f: "filter (\<lambda>s. Priority s \<le> p) (sends c) = sends c" "filter (\<lambda>s. p < Priority s) (sends c) = []"
      using pr by (auto simp: filter_empty_conv filter_id_conv)
    have "sorted (map Priority ?fl)" using Cons.prems(4) by (auto simp: c sorted_append)
    then obtain l' where "xq_insert p m l = Some l'" "set l' = insert (Some m) (set l)"
      "concat (map (case_option [] sends) l') = filter (\<lambda>s. Priority s \<le> p) ?fl @ sends m @ filter (\<lambda>s. p < Priority s) ?fl"
      using Cons by auto
    then show ?thesis using False c f by auto
  qed
qed simp

lemma xq_flat_new: "xq_ok XmitQueue_new"
  using new_holds [of 0 "0xffffffff"] by (auto simp: xq_ok_def xq_flat_def XmitQueue_new_def intro!: exI [of _ 0])

lemma sem_give_pos:
  assumes "sem_holds s n (2 ^ 32 - 1)"
  shows "\<exists>m. sem_holds (fst (SemLite_Give s)) m (2 ^ 32 - 1) \<and> 0 < m"
proof -
  obtain s' rv where g: "SemLite_Give s = (s', rv)" by fastforce
  have "0 < (if n < 2 ^ 32 - 1 then n + 1 else n)" by simp
  then show ?thesis using Give_holds [OF assms g] g by (metis fst_conv)
qed

text \<open>The insertion, seen on the segments that will leave the queue.\<close>

lemma Transmit_spec:
  assumes ok: "xq_ok q" and c: "chain_ok c"
  shows "\<exists>q' mid. TransmitMessage (Some c) q = Some (q', mid) \<and> mid \<noteq> 0 \<and> xq_ok q' \<and> xq_MsgId q' = mid \<and>
    mid = (if xq_MsgId q + 1 = 0 then 1 else xq_MsgId q + 1) \<and>
    xq_flat q' = filter (\<lambda>s. Priority s \<le> Priority (fst c)) (xq_flat q) @ map (MsgId_set mid) (fst c # snd c) @
      filter (\<lambda>s. Priority (fst c) < Priority s) (xq_flat q)"
proof -
  obtain seg att where seg: "c = (seg, att)" by (cases c)
  define mid where "mid = (if xq_MsgId q + 1 = 0 then xq_MsgId q + 2 else xq_MsgId q + 1)"
  have full: "seg_full seg" using c seg by (simp add: chain_ok_def)
  note ms = MsgId_set_full [OF full, of mid]
  let ?m = "(MsgId_set mid seg, att)"
  have m: "chain_ok ?m" using c ms by (simp add: chain_ok_def seg)
  have ent: "\<forall>e\<in>set (m_PriorityQueue q). \<exists>c. e = Some c \<and> chain_ok c" and
    srt: "sorted (map Priority (concat (map (case_option [] sends) (m_PriorityQueue q))))"
    using ok by (simp_all add: xq_ok_def xq_flat_def)
  have pr: "Priority seg = Priority (fst ?m)" using ms by simp
  from insert_spec [OF ent m pr srt] obtain l where l: "xq_insert (Priority seg) ?m (m_PriorityQueue q) = Some l"
    "set l = insert (Some ?m) (set (m_PriorityQueue q))"
    "concat (map (case_option [] sends) l) = filter (\<lambda>s. Priority s \<le> Priority seg) (xq_flat q) @ sends ?m @
        filter (\<lambda>s. Priority seg < Priority s) (xq_flat q)"
    unfolding xq_flat_def by blast
  define q' where "q' = q\<lparr>xq_MsgId := mid, m_PriorityQueue := l, xq_Sem := fst (SemLite_Give (xq_Sem q))\<rparr>"
  have tm: "TransmitMessage (Some c) q = Some (q', mid)"
    using l(1) by (simp add: TransmitMessage_def seg Let_def q'_def mid_def)
  have two: "xq_MsgId q + 2 = 1" if "xq_MsgId q + 1 = 0"
  proof -
    have "xq_MsgId q + 2 = (xq_MsgId q + 1) + 1" by simp
    then show ?thesis using that by simp
  qed
  have id: "mid = (if xq_MsgId q + 1 = 0 then 1 else xq_MsgId q + 1)" unfolding mid_def using two by simp
  then have id0: "mid \<noteq> 0" by (cases "xq_MsgId q + 1 = 0") simp_all
  have snd: "sends ?m = map (MsgId_set mid) (seg # att)" using ms by (simp add: sends_def)
  have fl: "xq_flat q' = filter (\<lambda>s. Priority s \<le> Priority seg) (xq_flat q) @ sends ?m @
      filter (\<lambda>s. Priority seg < Priority s) (xq_flat q)"
    using l(3) by (simp add: xq_flat_def q'_def)
  have "sorted (map Priority (xq_flat q'))"
  proof -
    have "\<forall>s\<in>set (sends ?m). Priority s = Priority seg" using sends_priority [OF m] ms by simp
    moreover have "sorted (map Priority (filter P (xq_flat q)))" for P
      using ok by (simp add: xq_ok_def sorted_filter)
    moreover have "sorted (map Priority (sends ?m))" by (simp only: sends_map_priority [OF m] sorted_replicate)
    ultimately show ?thesis by (auto simp: fl sorted_append)
  qed
  moreover obtain n where "sem_holds (xq_Sem q) n (2 ^ 32 - 1)" using ok by (auto simp: xq_ok_def)
  from sem_give_pos [OF this] obtain k where "sem_holds (xq_Sem q') k (2 ^ 32 - 1)" "0 < k" by (auto simp: q'_def)
  moreover have "\<forall>e\<in>set (m_PriorityQueue q'). \<exists>c. e = Some c \<and> chain_ok c"
    using l(2) ent m by (auto simp: q'_def)
  ultimately have "xq_ok q'" unfolding xq_ok_def by blast
  then show ?thesis using tm id id0 fl snd by (intro exI [of _ q'] exI [of _ mid]) (simp add: seg q'_def)
qed

lemma Get_spec:
  assumes ok: "xq_ok q" and g: "SegmentGet q = (q', out)"
  shows "xq_ok q' \<and> (case xq_flat q of [] \<Rightarrow> out = None \<and> xq_flat q' = [] | s # rest \<Rightarrow> out = Some s \<and> xq_flat q' = rest)"
proof -
  obtain n where n: "sem_holds (xq_Sem q) n (2 ^ 32 - 1)" "m_PriorityQueue q \<noteq> [] \<longrightarrow> 0 < n" using ok by (auto simp: xq_ok_def)
  have ent: "\<forall>e\<in>set (m_PriorityQueue q). \<exists>c. e = Some c \<and> chain_ok c" and srt: "sorted (map Priority (xq_flat q))"
    using ok by (simp_all add: xq_ok_def)
  obtain sem rv where tk: "SemLite_Take (xq_Sem q) = (sem, rv)" by fastforce
  have sem: "rv = (0 < n)" "sem_holds sem (n - 1) (2 ^ 32 - 1)" using Take_holds [OF n(1) tk] by simp_all
  have fix_sem: "\<exists>k. sem_holds (if length l > 0 \<and> SemLite_CountGet sem = 0 then fst (SemLite_Give sem) else sem) k (2 ^ 32 - 1) \<and>
      (l \<noteq> [] \<longrightarrow> 0 < k)" for l :: "chain option list"
  proof (cases "length l > 0 \<and> SemLite_CountGet sem = 0")
    case True
    then show ?thesis using sem_give_pos [OF sem(2)] by auto
  next
    case False
    moreover have "0 < n - 1" if "sl_count sem \<noteq> 0" using sem(2) that by (metis sem_holds_def unat_gt_0)
    ultimately have "l \<noteq> [] \<longrightarrow> 0 < n - 1" by (auto simp: SemLite_CountGet_def)
    then show ?thesis using False sem(2) by auto
  qed
  show ?thesis
  proof (cases "m_PriorityQueue q")
    case Nil
    then show ?thesis using g tk sem n fix_sem [of "[]"]
      by (cases rv) (auto simp: SegmentGet_def xq_ok_def xq_flat_def)
  next
    case (Cons e rest)
    then have rv: "rv" using sem n by simp
    obtain s a where e: "e = Some (s, a)" "chain_ok (s, a)" using ent Cons by auto
    define l where "l = (case a of [] \<Rightarrow> rest | t # u \<Rightarrow> Some (MsgId_set (MsgId s) t, u) # rest)"
    have q': "q' = q\<lparr>xq_Sem := (if length l > 0 \<and> SemLite_CountGet sem = 0 then fst (SemLite_Give sem) else sem), m_PriorityQueue := l\<rparr>"
      "out = Some s"
      using g tk rv Cons e by (auto simp: SegmentGet_def l_def Let_def split: list.splits)
    have fl: "xq_flat q = s # concat (map (case_option [] sends) l)"
      using Cons e sends_next [of s] by (auto simp: xq_flat_def l_def sends_def split: list.splits)
    have "\<forall>e\<in>set l. \<exists>c. e = Some c \<and> chain_ok c"
      using ent Cons e(2) sends_next [of s] by (auto simp: l_def split: list.splits)
    moreover have "xq_flat q' = concat (map (case_option [] sends) l)" by (simp add: q' xq_flat_def)
    ultimately show ?thesis using fl q' srt fix_sem [of l] by (auto simp: xq_ok_def)
  qed
qed

lemma xq_reach_ok: "xq_reach q \<Longrightarrow> xq_ok q"
proof (induction rule: xq_reach.induct)
  case xq_new
  show ?case by (rule xq_flat_new)
next
  case (xq_put q c q' mid)
  then show ?case using Transmit_spec [of q c] by auto
next
  case (xq_get q q' out)
  then show ?case using Get_spec by blast
qed

text \<open>
  C8. The transmit queue is a priority queue of segments that never stalls: a new message gets
  the next number, zero being skipped, on all of its segments, which are sent together after every
  waiting segment of the same or a higher priority and before the others; and as long as anything
  waits, the semaphore lets the transmitter have the first segment in that order, one of the
  highest priority, for every history of messages and deliveries.
\<close>

theorem XmitQueue_order:
  assumes "xq_reach q"
  shows "(\<forall>c. chain_ok c \<longrightarrow> (\<exists>q' mid. TransmitMessage (Some c) q = Some (q', mid) \<and>
      mid = (if xq_MsgId q + 1 = 0 then 1 else xq_MsgId q + 1) \<and>
      xq_flat q' = filter (\<lambda>s. Priority s \<le> Priority (fst c)) (xq_flat q) @ map (MsgId_set mid) (fst c # snd c) @
        filter (\<lambda>s. Priority (fst c) < Priority s) (xq_flat q))) \<and>
    (\<forall>q' out. SegmentGet q = (q', out) \<longrightarrow>
      (case xq_flat q of [] \<Rightarrow> out = None
       | s # rest \<Rightarrow> out = Some s \<and> xq_flat q' = rest \<and> (\<forall>t\<in>set rest. Priority s \<le> Priority t)))"
proof -
  have ok: "xq_ok q" using assms by (rule xq_reach_ok)
  have "\<forall>t\<in>set rest. Priority s \<le> Priority t" if "xq_flat q = s # rest" for s rest
    using ok that by (simp add: xq_ok_def)
  moreover have "case xq_flat q of [] \<Rightarrow> out = None | s # rest \<Rightarrow> out = Some s \<and> xq_flat q' = rest"
    if "SegmentGet q = (q', out)" for q' out
    using Get_spec [OF ok that] by (simp split: list.splits)
  ultimately have "\<forall>q' out. SegmentGet q = (q', out) \<longrightarrow>
      (case xq_flat q of [] \<Rightarrow> out = None
       | s # rest \<Rightarrow> out = Some s \<and> xq_flat q' = rest \<and> (\<forall>t\<in>set rest. Priority s \<le> Priority t))"
    by (cases "xq_flat q") simp_all
  moreover have "\<exists>q' mid. TransmitMessage (Some c) q = Some (q', mid) \<and>
      mid = (if xq_MsgId q + 1 = 0 then 1 else xq_MsgId q + 1) \<and>
      xq_flat q' = filter (\<lambda>s. Priority s \<le> Priority (fst c)) (xq_flat q) @ map (MsgId_set mid) (fst c # snd c) @
        filter (\<lambda>s. Priority (fst c) < Priority s) (xq_flat q)" if "chain_ok c" for c
    using Transmit_spec [OF ok that] by blast
  ultimately show ?thesis by blast
qed

theorem XmitQueue_order_witness:
  "\<exists>q' mid. TransmitMessage (Some (IpcSegment_new (replicate 1024 0), [])) XmitQueue_new = Some (q', mid) \<and> mid = 1 \<and>
    xq_flat q' = [MsgId_set 1 (IpcSegment_new (replicate 1024 0))]"
proof -
  have c: "chain_ok (IpcSegment_new (replicate 1024 0), [])" using fresh_full by (simp add: chain_ok_def)
  have "xq_flat XmitQueue_new = []" by (simp add: xq_flat_def XmitQueue_new_def)
  moreover have "xq_MsgId XmitQueue_new = 0" by (simp add: XmitQueue_new_def)
  moreover obtain q' mid where
    "TransmitMessage (Some (IpcSegment_new (replicate 1024 0), [])) XmitQueue_new = Some (q', mid)"
    "mid = (if xq_MsgId XmitQueue_new + 1 = 0 then 1 else xq_MsgId XmitQueue_new + 1)"
    "xq_flat q' = filter (\<lambda>s. Priority s \<le> Priority (IpcSegment_new (replicate 1024 0))) (xq_flat XmitQueue_new) @
      map (MsgId_set mid) [IpcSegment_new (replicate 1024 0)] @
      filter (\<lambda>s. Priority (IpcSegment_new (replicate 1024 0)) < Priority s) (xq_flat XmitQueue_new)"
    using XmitQueue_order [OF xq_new, THEN conjunct1, rule_format, OF c] unfolding fst_conv snd_conv by blast
  ultimately show ?thesis by simp
qed

text \<open>
  Releasing the transmit thread leaves a NULL entry that the thread may not have taken yet;
  a message that does not overtake another one on its way to it is inserted through a NULL
  pointer.
\<close>

theorem Transmit_after_release:
  assumes "xq_reach q" and "chain_ok c" and "\<And>s. s \<in> set (xq_flat q) \<Longrightarrow> Priority s \<le> Priority (fst c)"
  shows "TransmitMessage (Some c) (xq_ReleaseThread q) = None"
proof -
  obtain seg att where seg: "c = (seg, att)" by (cases c)
  have "xq_insert (Priority seg) m (l @ [None]) = None"
    if "\<forall>e\<in>set l. \<exists>d. e = Some d \<and> Priority (fst d) \<le> Priority seg" for m l
    using that by (induction l) (auto simp: not_less)
  moreover have "\<forall>e\<in>set (m_PriorityQueue q). \<exists>d. e = Some d \<and> Priority (fst d) \<le> Priority seg"
  proof
    fix e assume e: "e \<in> set (m_PriorityQueue q)"
    then obtain d where d: "e = Some d" using xq_reach_ok [OF assms(1)] by (auto simp: xq_ok_def)
    have "fst d \<in> set (sends d)" by (simp add: sends_def)
    then have "fst d \<in> set (xq_flat q)" using e d by (cases d) (auto simp: xq_flat_def intro: bexI [of _ "Some d"])
    then show "\<exists>d. e = Some d \<and> Priority (fst d) \<le> Priority seg" using d assms(3) seg by simp
  qed
  ultimately show ?thesis by (simp add: TransmitMessage_def seg Let_def xq_ReleaseThread_def)
qed

theorem Transmit_after_release_witness:
  "TransmitMessage (Some (IpcSegment_new (replicate 1024 0), [])) (xq_ReleaseThread XmitQueue_new) = None"
proof -
  have c: "chain_ok (IpcSegment_new (replicate 1024 0), [])" using fresh_full by (simp add: chain_ok_def)
  show ?thesis by (rule Transmit_after_release [OF xq_new c]) (simp add: xq_flat_def XmitQueue_new_def)
qed

end
