(* ===== verification/IpcContext.thy ===== *)
theory IpcContext
  imports IpcAccum Dispatch
begin

text \<open>
  \<open>cpIpcContext\<close>: where a received message waits for the thread that asked for it, or is handed to
  a dispatcher. A message is the list of its segments, NULL is \<open>None\<close>; the semaphore that signals an
  arrival comes from a shared pool. The dispatcher's handlers are elements of \<open>'h\<close>.
\<close>

section \<open>Operations\<close>

type_synonym message = "ipcsegment list"

record ('h, 'c) ipccontext =
  ctx_Head :: "message option"
  m_PtrSem :: "semlite option"
  m_PtrDispatcher :: "('h, message, 'c) dispatch option"

text \<open>\<open>ok\<close> is the success of creating a semaphore; the results are the pointer, the pool and the status.\<close>

definition GetSemFromPool :: "bool \<Rightarrow> semlite option \<Rightarrow> semlite list \<Rightarrow> semlite option \<times> semlite list \<times> bool" where
  "GetSemFromPool ok pSem pool =
     (if pSem \<noteq> None then (pSem, pool, True)
      else
        let (p1, pool1) = (if pool \<noteq> [] then (Some (last pool), butlast pool) else (None, pool));
            p2 = (if p1 = None then (if ok then Some (SemLite_new True True 0 1) else None) else p1)
        in (p2, pool1, p2 \<noteq> None))"

definition PutSemIntoPool :: "semlite option \<Rightarrow> semlite list \<Rightarrow> semlite option \<times> semlite list" where
  "PutSemIntoPool pSem pool =
     (case pSem of None \<Rightarrow> (None, pool) | Some s \<Rightarrow> (None, pool @ [fst (SemLite_TryTake s)]))"

definition IpcContext_new :: "bool \<Rightarrow> semlite list \<Rightarrow> ('h, 'c) ipccontext \<times> semlite list" where
  "IpcContext_new ok pool =
     (case GetSemFromPool ok None pool of
        (sem, pool1, _) \<Rightarrow> (\<lparr>ctx_Head = None, m_PtrSem = sem, m_PtrDispatcher = None\<rparr>, pool1))"

text \<open>The destructor: the semaphore goes back to the pool.\<close>

definition IpcContext_delete :: "('h, 'c) ipccontext \<Rightarrow> semlite list \<Rightarrow> semlite list" where
  "IpcContext_delete ctx pool = snd (PutSemIntoPool (m_PtrSem ctx) pool)"

text \<open>
  The parts of \<open>MessagePut\<close> and \<open>MessageGet\<close>: what happens between two of them is up to the other threads.
\<close>

definition ctx_store :: "message \<Rightarrow> ('h, 'c) ipccontext \<Rightarrow> ('h, 'c) ipccontext" where
  "ctx_store msg ctx = ctx\<lparr>ctx_Head := Some msg\<rparr>"

definition ctx_signal :: "('h, 'c) ipccontext \<Rightarrow> ('h, 'c) ipccontext" where
  "ctx_signal ctx = ctx\<lparr>m_PtrSem := map_option (\<lambda>s. fst (SemLite_Give s)) (m_PtrSem ctx)\<rparr>"

definition ctx_take :: "('h, 'c) ipccontext \<Rightarrow> ('h, 'c) ipccontext \<times> bool" where
  "ctx_take ctx =
     (case m_PtrSem ctx of
        None \<Rightarrow> (ctx, False)
      | Some s \<Rightarrow> (case SemLite_Take s of (s1, rv) \<Rightarrow> (ctx\<lparr>m_PtrSem := Some s1\<rparr>, rv)))"

definition ctx_clear :: "('h, 'c) ipccontext \<Rightarrow> ('h, 'c) ipccontext" where
  "ctx_clear ctx = ctx\<lparr>ctx_Head := None\<rparr>"

definition MessagePut :: "bool \<Rightarrow> message option \<Rightarrow> ('h, 'c) ipccontext \<Rightarrow> ('h, 'c) ipccontext \<times> bool" where
  "MessagePut ok pSegment ctx =
     (case pSegment of
        None \<Rightarrow> (ctx, True)
      | Some msg \<Rightarrow>
          (case m_PtrDispatcher ctx of
             None \<Rightarrow> (ctx_signal (ctx_store msg ctx), True)
           | Some d \<Rightarrow> (ctx\<lparr>m_PtrDispatcher := Some (fst (SubmitEvent ok (Some msg) d))\<rparr>, False)))"

text \<open>The status, and what \<open>pSegment\<close> is set to, if it is set.\<close>

definition MessageGet :: "('h, 'c) ipccontext \<Rightarrow> ('h, 'c) ipccontext \<times> bool \<times> message option" where
  "MessageGet ctx =
     (if m_PtrDispatcher ctx \<noteq> None then (ctx, False, None)
      else
        let (ctx1, rv) = ctx_take ctx
        in if rv \<and> ctx_Head ctx1 \<noteq> None then (ctx_clear ctx1, rv, ctx_Head ctx1)
           else (ctx1, rv, None))"

text \<open>\<open>pre\<close> and \<open>post\<close> are the functions \<open>PreDispatch\<close> and \<open>PostDispatch\<close>; \<open>ok\<close> is the success of creation.\<close>

definition RegisterHandler ::
  "bool \<Rightarrow> 'h \<Rightarrow> 'h \<Rightarrow> 'h option \<Rightarrow> nat \<Rightarrow> 'c option \<Rightarrow> ('h, 'c) ipccontext \<Rightarrow> ('h, 'c) ipccontext \<times> bool" where
  "RegisterHandler ok pre post ph NumThreads c ctx =
     (let disp = (case m_PtrDispatcher ctx of
                    None \<Rightarrow> if ok then Some (Dispatch_new NumThreads 64) else None
                  | Some d \<Rightarrow> Some d);
          disp1 = (case disp of
                     None \<Rightarrow> None
                   | Some d \<Rightarrow>
                       if ph \<noteq> None then
                         Some (NumThreadsSet NumThreads
                           (fst (EventHandlerAdd ph c (PostDispatchSet (Some post) None (PreDispatchSet (Some pre) None d)))))
                       else Some d)
      in (ctx\<lparr>m_PtrDispatcher := disp1\<rparr>, disp1 \<noteq> None))"

definition RemoveHandler :: "'h option \<Rightarrow> ('h, 'c) ipccontext \<Rightarrow> ('h, 'c) ipccontext \<times> bool" where
  "RemoveHandler ph ctx =
     (case m_PtrDispatcher ctx of
        None \<Rightarrow> (ctx, False)
      | Some d \<Rightarrow> (case EventHandlerDel ph d of (d1, rv) \<Rightarrow> (ctx\<lparr>m_PtrDispatcher := Some d1\<rparr>, rv)))"

section \<open>The state of a context\<close>

text \<open>The semaphore tells whether a message waits; semaphores in the pool are empty.\<close>

definition ctx_ok :: "('h, 'c) ipccontext \<Rightarrow> bool" where
  "ctx_ok ctx \<longleftrightarrow> (case m_PtrSem ctx of None \<Rightarrow> True
     | Some s \<Rightarrow> sem_holds s (if ctx_Head ctx = None then 0 else 1) 1)"

definition pool_empty :: "semlite list \<Rightarrow> bool" where
  "pool_empty pool \<longleftrightarrow> (\<forall>s\<in>set pool. sem_holds s 0 1)"

lemma GetSem_empty:
  "pool_empty pool \<Longrightarrow> GetSemFromPool ok None pool = (sem, pool1, rv) \<Longrightarrow>
    pool_empty pool1 \<and> (case sem of None \<Rightarrow> \<not> ok | Some s \<Rightarrow> sem_holds s 0 1)"
  using new_holds [of 0 1] last_in_set [of pool]
  by (auto simp: GetSemFromPool_def pool_empty_def Let_def dest: in_set_butlastD split: if_splits)

lemma new_ctx_ok: "pool_empty pool \<Longrightarrow> IpcContext_new ok pool = (ctx, pool1) \<Longrightarrow>
    pool_empty pool1 \<and> ctx_ok ctx \<and> ctx_Head ctx = None \<and> m_PtrDispatcher ctx = None \<and> (ok \<longrightarrow> m_PtrSem ctx \<noteq> None)"
proof -
  assume p: "pool_empty pool" "IpcContext_new ok pool = (ctx, pool1)"
  obtain sem pool2 rv where g: "GetSemFromPool ok None pool = (sem, pool2, rv)" using prod_cases3 by blast
  from GetSem_empty [OF p(1) g] p(2) g show ?thesis
    by (auto simp: IpcContext_new_def ctx_ok_def split: option.splits)
qed

lemma delete_pool: "pool_empty pool \<Longrightarrow> ctx_ok ctx \<Longrightarrow> pool_empty (IpcContext_delete ctx pool)"
proof (cases "m_PtrSem ctx")
  case (Some s)
  assume p: "pool_empty pool" "ctx_ok ctx"
  obtain s1 rv where t: "SemLite_Take s = (s1, rv)" by fastforce
  have h: "sem_holds s (if ctx_Head ctx = None then 0 else 1) 1" using p(2) Some by (simp add: ctx_ok_def)
  have "sem_holds s1 0 1" using Take_holds [OF h t] by (simp split: if_splits)
  moreover have "sl_valid s" using h by (simp add: sem_holds_def)
  ultimately show ?thesis using p Some t
    by (auto simp: IpcContext_delete_def PutSemIntoPool_def pool_empty_def SemLite_TryTake_def)
qed (simp add: IpcContext_delete_def PutSemIntoPool_def)

lemma MessagePut_ok:
  "ctx_ok ctx \<Longrightarrow> MessagePut ok m ctx = (ctx', rv) \<Longrightarrow>
    ctx_ok ctx' \<and> rv = (m = None \<or> m_PtrDispatcher ctx = None) \<and>
    (m_PtrDispatcher ctx = None \<longrightarrow> m \<noteq> None \<longrightarrow> ctx_Head ctx' = m \<and> m_PtrDispatcher ctx' = None \<and>
      (m_PtrSem ctx' = None \<longleftrightarrow> m_PtrSem ctx = None))"
proof (cases "m = None \<or> m_PtrDispatcher ctx \<noteq> None")
  case True
  assume "ctx_ok ctx" "MessagePut ok m ctx = (ctx', rv)"
  then show ?thesis using True
    by (cases m; cases "m_PtrSem ctx"; cases "ctx_Head ctx") (auto simp: MessagePut_def ctx_store_def ctx_signal_def ctx_ok_def)
next
  case False
  assume a: "ctx_ok ctx" "MessagePut ok m ctx = (ctx', rv)"
  show ?thesis
  proof (cases "m_PtrSem ctx")
    case None
    then show ?thesis using a False by (auto simp: MessagePut_def ctx_store_def ctx_signal_def ctx_ok_def)
  next
    case (Some s)
    obtain s' r where g: "SemLite_Give s = (s', r)" by fastforce
    have "sem_holds s (if ctx_Head ctx = None then 0 else 1) 1" using a(1) Some by (simp add: ctx_ok_def)
    from Give_holds [OF this g] have "sem_holds s' 1 1" by (simp split: if_splits)
    then show ?thesis using a False Some g by (auto simp: MessagePut_def ctx_store_def ctx_signal_def ctx_ok_def)
  qed
qed

lemma MessageGet_ok:
  assumes c: "ctx_ok ctx" and g: "MessageGet ctx = (ctx', rv, out)"
  shows "ctx_ok ctx' \<and> rv = (m_PtrDispatcher ctx = None \<and> m_PtrSem ctx \<noteq> None \<and> ctx_Head ctx \<noteq> None) \<and>
    (rv \<longrightarrow> out = ctx_Head ctx \<and> ctx_Head ctx' = None) \<and> (\<not> rv \<longrightarrow> out = None \<and> ctx_Head ctx' = ctx_Head ctx) \<and>
    m_PtrDispatcher ctx' = m_PtrDispatcher ctx \<and> (m_PtrSem ctx' = None \<longleftrightarrow> m_PtrSem ctx = None)"
proof (cases "m_PtrDispatcher ctx = None \<and> m_PtrSem ctx \<noteq> None")
  case True
  then obtain s where s: "m_PtrSem ctx = Some s" by auto
  obtain s1 r where t: "SemLite_Take s = (s1, r)" by fastforce
  have h: "sem_holds s (if ctx_Head ctx = None then 0 else 1) 1" using c s by (simp add: ctx_ok_def)
  have "r = (ctx_Head ctx \<noteq> None)" "sem_holds s1 0 1" using Take_holds [OF h t] by (auto split: if_splits)
  then show ?thesis using True s t g c
    by (cases "ctx_Head ctx") (auto simp: MessageGet_def ctx_take_def ctx_clear_def ctx_ok_def Let_def, metis)
next
  case False
  then consider "m_PtrDispatcher ctx \<noteq> None" | "m_PtrDispatcher ctx = None" "m_PtrSem ctx = None" by auto
  then show ?thesis
  proof cases
    case 1
    then have "ctx' = ctx" "\<not> rv" "out = None" using g by (auto simp: MessageGet_def)
    then show ?thesis using c 1 by simp
  next
    case 2
    then have "ctx' = ctx" "\<not> rv" "out = None" using g by (auto simp: MessageGet_def ctx_take_def Let_def)
    then show ?thesis using 2 c by simp
  qed
qed

lemma handlers_ctx_ok:
  "ctx_ok ctx \<Longrightarrow> ctx_ok (fst (RegisterHandler ok pre post ph n c ctx))"
  "ctx_ok ctx \<Longrightarrow> ctx_ok (fst (RemoveHandler ph ctx))"
  by (auto simp: RegisterHandler_def RemoveHandler_def ctx_ok_def Let_def split: option.splits prod.splits)

lemma fresh_ctx:
  fixes ctx :: "('h, 'c) ipccontext"
  assumes "ctx = fst (IpcContext_new True [])"
  shows "ctx_ok ctx" "m_PtrSem ctx \<noteq> None" "m_PtrDispatcher ctx = None"
proof -
  obtain pool where "IpcContext_new True [] = (ctx, pool)"
    using assms by (cases "IpcContext_new True [] :: ('h, 'c) ipccontext \<times> semlite list") simp
  from new_ctx_ok [OF _ this] show "ctx_ok ctx" "m_PtrSem ctx \<noteq> None" "m_PtrDispatcher ctx = None"
    by (simp_all add: pool_empty_def)
qed

section \<open>All interleavings\<close>

text \<open>
  The accumulator thread puts messages, one at a time under the mutex of the context map, which also guards the
  handlers; any number of threads get messages, without a lock. A put is before the removal of the old message, the store
  or the signal; a get that took the semaphore is before the test, the read or the clearing of the pointer.
\<close>

datatype put_pc = Put_idle | Put_discard message | Put_store message | Put_signal

datatype get_pc = Get_test | Get_read | Get_clear "message option"

text \<open>What became of the messages: fetched, with what the get delivered, if anything; or replaced and deleted.\<close>

datatype fate = Fetched "message option" | Replaced message

fun fate_message :: "fate \<Rightarrow> message option" where
  "fate_message (Fetched r) = r"
| "fate_message (Replaced msg) = Some msg"

text \<open>
  A context among its users: \<open>cx_wait\<close> counts the threads that wait for the semaphore, \<open>cx_getting\<close> are those behind it;
  \<open>cx_begun\<close> counts the puts, \<open>cx_stored\<close> and \<open>cx_gone\<close> are the messages that were stored and their fates, in the
  order of time. \<open>cx_overlap\<close> tells that a put once began while a get was behind the semaphore, or that a get passed the semaphore
  during a put.
\<close>

record ('h, 'c) ctxsys =
  cx_ctx :: "('h, 'c) ipccontext"
  cx_put :: put_pc
  cx_wait :: nat
  cx_getting :: "get_pc list"
  cx_begun :: nat
  cx_stored :: "message list"
  cx_gone :: "fate list"
  cx_overlap :: bool

inductive cx_step :: "('h, 'c) ctxsys \<Rightarrow> ('h, 'c) ctxsys \<Rightarrow> bool" where
  put_begin: "cx_put s = Put_idle \<Longrightarrow> m_PtrDispatcher (cx_ctx s) = None \<Longrightarrow>
    cx_step s (s\<lparr>cx_put := Put_discard msg, cx_begun := cx_begun s + 1,
      cx_overlap := (cx_overlap s \<or> cx_getting s \<noteq> [])\<rparr>)"
| put_discard: "cx_put s = Put_discard msg \<Longrightarrow>
    cx_step s (s\<lparr>cx_put := Put_store msg,
      cx_gone := cx_gone s @ (case ctx_Head (cx_ctx s) of None \<Rightarrow> [] | Some old \<Rightarrow> [Replaced old])\<rparr>)"
| put_store: "cx_put s = Put_store msg \<Longrightarrow>
    cx_step s (s\<lparr>cx_ctx := ctx_store msg (cx_ctx s), cx_put := Put_signal, cx_stored := cx_stored s @ [msg]\<rparr>)"
| put_signal: "cx_put s = Put_signal \<Longrightarrow> cx_step s (s\<lparr>cx_ctx := ctx_signal (cx_ctx s), cx_put := Put_idle\<rparr>)"
| put_dispatch: "cx_put s = Put_idle \<Longrightarrow> m_PtrDispatcher (cx_ctx s) \<noteq> None \<Longrightarrow>
    cx_step s (s\<lparr>cx_ctx := fst (MessagePut ok (Some msg) (cx_ctx s))\<rparr>)"
| register: "cx_put s = Put_idle \<Longrightarrow>
    cx_step s (s\<lparr>cx_ctx := fst (RegisterHandler ok pre post ph n c (cx_ctx s))\<rparr>)"
| remove: "cx_put s = Put_idle \<Longrightarrow> cx_step s (s\<lparr>cx_ctx := fst (RemoveHandler ph (cx_ctx s))\<rparr>)"
| get_enter: "m_PtrDispatcher (cx_ctx s) = None \<Longrightarrow> cx_step s (s\<lparr>cx_wait := cx_wait s + 1\<rparr>)"
| get_timeout: "cx_wait s = Suc n \<Longrightarrow> cx_step s (s\<lparr>cx_wait := n\<rparr>)"
| get_take: "cx_wait s = Suc n \<Longrightarrow> ctx_take (cx_ctx s) = (ctx, True) \<Longrightarrow>
    cx_step s (s\<lparr>cx_ctx := ctx, cx_wait := n, cx_getting := cx_getting s @ [Get_test],
      cx_overlap := (cx_overlap s \<or> cx_put s \<noteq> Put_idle)\<rparr>)"
| get_test: "cx_getting s = xs @ Get_test # ys \<Longrightarrow> ctx_Head (cx_ctx s) \<noteq> None \<Longrightarrow>
    cx_step s (s\<lparr>cx_getting := xs @ Get_read # ys\<rparr>)"
| get_none: "cx_getting s = xs @ Get_test # ys \<Longrightarrow> ctx_Head (cx_ctx s) = None \<Longrightarrow>
    cx_step s (s\<lparr>cx_getting := xs @ ys, cx_gone := cx_gone s @ [Fetched None]\<rparr>)"
| get_read: "cx_getting s = xs @ Get_read # ys \<Longrightarrow>
    cx_step s (s\<lparr>cx_getting := xs @ Get_clear (ctx_Head (cx_ctx s)) # ys\<rparr>)"
| get_clear: "cx_getting s = xs @ Get_clear r # ys \<Longrightarrow>
    cx_step s (s\<lparr>cx_ctx := ctx_clear (cx_ctx s), cx_getting := xs @ ys, cx_gone := cx_gone s @ [Fetched r]\<rparr>)"

text \<open>All contexts of a program share the pool of semaphores; nobody uses a context that is deleted.\<close>

definition cx_start :: "('h, 'c) ipccontext \<Rightarrow> ('h, 'c) ctxsys" where
  "cx_start ctx =
     \<lparr>cx_ctx = ctx, cx_put = Put_idle, cx_wait = 0, cx_getting = [], cx_begun = 0, cx_stored = [], cx_gone = [], cx_overlap = False\<rparr>"

inductive ctxs_reach :: "(nat \<Rightarrow> ('h, 'c) ctxsys option) \<Rightarrow> semlite list \<Rightarrow> bool" where
  none: "ctxs_reach (\<lambda>_. None) []"
| create: "ctxs_reach m pool \<Longrightarrow> m k = None \<Longrightarrow> IpcContext_new ok pool = (ctx, pool') \<Longrightarrow>
    ctxs_reach (m(k \<mapsto> cx_start ctx)) pool'"
| destroy: "ctxs_reach m pool \<Longrightarrow> m k = Some s \<Longrightarrow> cx_put s = Put_idle \<Longrightarrow> cx_wait s = 0 \<Longrightarrow> cx_getting s = [] \<Longrightarrow>
    ctxs_reach (m(k := None)) (IpcContext_delete (cx_ctx s) pool)"
| use: "ctxs_reach m pool \<Longrightarrow> m k = Some s \<Longrightarrow> cx_step s s' \<Longrightarrow> ctxs_reach (m(k \<mapsto> s')) pool"

section \<open>Invariant of the interleavings\<close>

definition sem_fine :: "('h, 'c) ipccontext \<Rightarrow> bool" where
  "sem_fine ctx \<longleftrightarrow> (\<forall>s. m_PtrSem ctx = Some s \<longrightarrow> sem_holds s (unat (sl_count s)) 1)"

definition sem_cnt :: "('h, 'c) ipccontext \<Rightarrow> nat" where
  "sem_cnt ctx = (case m_PtrSem ctx of None \<Rightarrow> 0 | Some s \<Rightarrow> unat (sl_count s))"

text \<open>The message that waits to be fetched, unless it was deleted to be replaced.\<close>

fun old_deleted :: "put_pc \<Rightarrow> bool" where
  "old_deleted (Put_store msg) = True"
| "old_deleted _ = False"

definition cx_pending :: "('h, 'c) ctxsys \<Rightarrow> message option list" where
  "cx_pending s = (if old_deleted (cx_put s) \<or> ctx_Head (cx_ctx s) = None then [] else [ctx_Head (cx_ctx s)])"

definition cx_quiet :: "('h, 'c) ctxsys \<Rightarrow> bool" where
  "cx_quiet s \<longleftrightarrow>
     (if cx_put s = Put_signal
      then ctx_Head (cx_ctx s) \<noteq> None \<and> (sem_cnt (cx_ctx s) = 0 \<or> 2 \<le> length (cx_stored s))
      else (m_PtrSem (cx_ctx s) \<noteq> None \<longrightarrow> sem_cnt (cx_ctx s) = (if ctx_Head (cx_ctx s) = None then 0 else 1)) \<and>
           (ctx_Head (cx_ctx s) \<noteq> None \<longrightarrow> cx_stored s \<noteq> []))"

definition cx_busy :: "get_pc \<Rightarrow> ('h, 'c) ctxsys \<Rightarrow> bool" where
  "cx_busy g s \<longleftrightarrow> cx_put s = Put_idle \<and> sem_cnt (cx_ctx s) = 0 \<and> ctx_Head (cx_ctx s) \<noteq> None \<and>
     cx_stored s \<noteq> [] \<and> (\<forall>r. g = Get_clear r \<longrightarrow> r = ctx_Head (cx_ctx s))"

definition cx_ordered :: "('h, 'c) ctxsys \<Rightarrow> bool" where
  "cx_ordered s \<longleftrightarrow>
     map fate_message (cx_gone s) @ cx_pending s = map Some (cx_stored s) \<and>
     (cx_getting s = [] \<and> cx_quiet s \<or> (\<exists>g. cx_getting s = [g] \<and> cx_busy g s))"

definition puts_open :: "put_pc \<Rightarrow> nat" where
  "puts_open p = (case p of Put_discard _ \<Rightarrow> 1 | Put_store _ \<Rightarrow> 1 | _ \<Rightarrow> 0)"

definition cx_ok :: "('h, 'c) ctxsys \<Rightarrow> bool" where
  "cx_ok s \<longleftrightarrow> sem_fine (cx_ctx s) \<and> cx_begun s = length (cx_stored s) + puts_open (cx_put s) \<and>
     (cx_overlap s \<longrightarrow> 2 \<le> cx_begun s) \<and> (\<not> cx_overlap s \<longrightarrow> cx_ordered s)"

lemma take_fine:
  assumes "sem_fine ctx" "ctx_take ctx = (ctx', True)"
  shows "sem_fine ctx' \<and> sem_cnt ctx = 1 \<and> sem_cnt ctx' = 0 \<and> ctx_Head ctx' = ctx_Head ctx \<and> m_PtrSem ctx \<noteq> None"
proof -
  obtain s s' where s: "m_PtrSem ctx = Some s" "SemLite_Take s = (s', True)" "ctx' = ctx\<lparr>m_PtrSem := Some s'\<rparr>"
    using assms(2) by (auto simp: ctx_take_def split: option.splits prod.splits)
  have h: "sem_holds s (unat (sl_count s)) 1" using assms(1) s(1) by (simp add: sem_fine_def)
  from Take_holds [OF h s(2)] have "0 < unat (sl_count s)" "sem_holds s' (unat (sl_count s) - 1) 1" by simp_all
  moreover have "unat (sl_count s) \<le> 1" using h by (simp add: sem_holds_def)
  ultimately have "unat (sl_count s) = 1" "sem_holds s' 0 1" by simp_all
  then show ?thesis using s by (auto simp: sem_fine_def sem_cnt_def sem_holds_def)
qed

lemma take_exact: "sem_fine ctx \<Longrightarrow> snd (ctx_take ctx) = (m_PtrSem ctx \<noteq> None \<and> 0 < sem_cnt ctx)"
  using Take_holds by (fastforce simp: ctx_take_def sem_cnt_def sem_fine_def split: option.splits prod.splits)

lemma signal_fine:
  assumes "sem_fine ctx"
  shows "sem_fine (ctx_signal ctx) \<and> ctx_Head (ctx_signal ctx) = ctx_Head ctx \<and> (m_PtrSem ctx \<noteq> None \<longrightarrow> sem_cnt (ctx_signal ctx) = 1)"
proof (cases "m_PtrSem ctx")
  case (Some s)
  obtain s' rv where g: "SemLite_Give s = (s', rv)" by fastforce
  have h: "sem_holds s (unat (sl_count s)) 1" using assms Some by (simp add: sem_fine_def)
  have "unat (sl_count s) \<le> 1" using h by (simp add: sem_holds_def)
  then consider "unat (sl_count s) = 0" | "unat (sl_count s) = 1" by linarith
  then have "sem_holds s' 1 1" using Give_holds [OF h g] by cases simp_all
  then show ?thesis using Some g by (auto simp: sem_fine_def sem_cnt_def sem_holds_def ctx_signal_def)
qed (simp add: sem_fine_def ctx_signal_def)


lemmas cx_defs = cx_ordered_def cx_pending_def cx_quiet_def cx_busy_def puts_open_def

lemma one_getter: "xs @ g # ys = [g'] \<longleftrightarrow> xs = [] \<and> ys = [] \<and> g = g'"
  by (cases xs) auto

text \<open>The handlers do not touch the message and the semaphore.\<close>

lemma handlers_keep:
  "ctx_Head (fst (RegisterHandler ok pre post ph n c ctx)) = ctx_Head ctx \<and> m_PtrSem (fst (RegisterHandler ok pre post ph n c ctx)) = m_PtrSem ctx"
  "ctx_Head (fst (RemoveHandler ph ctx)) = ctx_Head ctx \<and> m_PtrSem (fst (RemoveHandler ph ctx)) = m_PtrSem ctx"
  "m_PtrDispatcher ctx \<noteq> None \<Longrightarrow>
    ctx_Head (fst (MessagePut ok (Some msg) ctx)) = ctx_Head ctx \<and> m_PtrSem (fst (MessagePut ok (Some msg) ctx)) = m_PtrSem ctx"
  by (auto simp: RegisterHandler_def RemoveHandler_def MessagePut_def Let_def split: option.splits prod.splits)

lemma cx_same_ok:
  assumes "cx_ok s" "ctx_Head c = ctx_Head (cx_ctx s)" "m_PtrSem c = m_PtrSem (cx_ctx s)"
  shows "cx_ok (s\<lparr>cx_ctx := c\<rparr>)"
proof -
  have f: "sem_fine c = sem_fine (cx_ctx s)" "sem_cnt c = sem_cnt (cx_ctx s)" by (simp_all add: sem_fine_def sem_cnt_def assms)
  let ?s = "s\<lparr>cx_ctx := c\<rparr>"
  have "cx_pending ?s = cx_pending s" "cx_quiet ?s = cx_quiet s" "\<And>g. cx_busy g ?s = cx_busy g s"
    by (simp_all add: cx_pending_def cx_quiet_def cx_busy_def assms(2,3) f(2))
  then show ?thesis using assms(1) by (auto simp: cx_ok_def cx_ordered_def f(1))
qed

lemma cx_wait_ok:
  assumes "cx_ok s"
  shows "cx_ok (s\<lparr>cx_wait := n\<rparr>)"
proof -
  let ?s = "s\<lparr>cx_wait := n\<rparr>"
  have "cx_pending ?s = cx_pending s" "cx_quiet ?s = cx_quiet s" "\<And>g. cx_busy g ?s = cx_busy g s"
    by (simp_all add: cx_pending_def cx_quiet_def cx_busy_def)
  then show ?thesis using assms by (auto simp: cx_ok_def cx_ordered_def)
qed

lemma put_begin_ok:
  assumes "cx_ok s" "cx_put s = Put_idle"
  shows "cx_ok (s\<lparr>cx_put := Put_discard msg, cx_begun := cx_begun s + 1, cx_overlap := (cx_overlap s \<or> cx_getting s \<noteq> [])\<rparr>)"
  using assms by (auto simp: cx_ok_def cx_defs Suc_le_eq)

lemma put_discard_ok:
  assumes "cx_ok s" "cx_put s = Put_discard msg"
  shows "cx_ok (s\<lparr>cx_put := Put_store msg,
      cx_gone := cx_gone s @ (case ctx_Head (cx_ctx s) of None \<Rightarrow> [] | Some old \<Rightarrow> [Replaced old])\<rparr>)"
  using assms by (auto simp: cx_ok_def cx_defs split: option.splits)

lemma put_store_ok:
  assumes "cx_ok s" "cx_put s = Put_store msg"
  shows "cx_ok (s\<lparr>cx_ctx := ctx_store msg (cx_ctx s), cx_put := Put_signal, cx_stored := cx_stored s @ [msg]\<rparr>)"
  using assms by (auto simp: cx_ok_def cx_defs ctx_store_def sem_fine_def sem_cnt_def Suc_le_eq split: option.splits if_splits)

lemma put_signal_ok:
  assumes "cx_ok s" "cx_put s = Put_signal"
  shows "cx_ok (s\<lparr>cx_ctx := ctx_signal (cx_ctx s), cx_put := Put_idle\<rparr>)"
proof -
  have "sem_fine (cx_ctx s)" using assms(1) by (simp add: cx_ok_def)
  note signal_fine [OF this]
  moreover have "m_PtrSem (ctx_signal (cx_ctx s)) \<noteq> None \<longleftrightarrow> m_PtrSem (cx_ctx s) \<noteq> None" by (simp add: ctx_signal_def)
  moreover have "cx_stored s \<noteq> []" if "cx_ordered s" using that assms(2) by (auto simp: cx_defs)
  ultimately show ?thesis using assms by (auto simp: cx_ok_def cx_defs)
qed

lemma get_take_ok:
  assumes "cx_ok s" "ctx_take (cx_ctx s) = (ctx, True)"
  shows "cx_ok (s\<lparr>cx_ctx := ctx, cx_wait := n, cx_getting := cx_getting s @ [Get_test],
      cx_overlap := (cx_overlap s \<or> cx_put s \<noteq> Put_idle)\<rparr>)"
proof -
  have "sem_fine (cx_ctx s)" using assms(1) by (simp add: cx_ok_def)
  note t = take_fine [OF this assms(2)]
  show ?thesis
  proof (cases "cx_put s")
    case Put_idle
    then show ?thesis using assms(1) t by (auto simp: cx_ok_def cx_defs split: if_splits)
  next
    case Put_signal
    then show ?thesis using assms(1) t by (auto simp: cx_ok_def cx_defs)
  next
    case (Put_discard msg)
    then show ?thesis using assms(1) t by (auto simp: cx_ok_def cx_defs Suc_le_eq split: if_splits)
  next
    case (Put_store msg)
    then show ?thesis using assms(1) t by (auto simp: cx_ok_def cx_defs Suc_le_eq split: if_splits)
  qed
qed

lemma get_rest_ok:
  assumes "cx_ok s"
  shows "cx_getting s = xs @ Get_test # ys \<Longrightarrow> cx_ok (s\<lparr>cx_getting := xs @ Get_read # ys\<rparr>)"
    and "cx_getting s = xs @ Get_test # ys \<Longrightarrow> ctx_Head (cx_ctx s) = None \<Longrightarrow>
      cx_ok (s\<lparr>cx_getting := xs @ ys, cx_gone := cx_gone s @ [Fetched None]\<rparr>)"
    and "cx_getting s = xs @ Get_read # ys \<Longrightarrow> cx_ok (s\<lparr>cx_getting := xs @ Get_clear (ctx_Head (cx_ctx s)) # ys\<rparr>)"
    and "cx_getting s = xs @ Get_clear r # ys \<Longrightarrow>
      cx_ok (s\<lparr>cx_ctx := ctx_clear (cx_ctx s), cx_getting := xs @ ys, cx_gone := cx_gone s @ [Fetched r]\<rparr>)"
  using assms by (auto simp: cx_ok_def cx_defs one_getter ctx_clear_def sem_fine_def sem_cnt_def)

lemma cx_ok_step: "cx_step s s' \<Longrightarrow> cx_ok s \<Longrightarrow> cx_ok s'"
  by (induction rule: cx_step.induct)
    (simp_all only: put_begin_ok put_discard_ok put_store_ok put_signal_ok cx_wait_ok get_take_ok get_rest_ok cx_same_ok handlers_keep
      not_False_eq_True)

lemma cx_start_ok:
  assumes "pool_empty pool" "IpcContext_new ok pool = (ctx, pool')"
  shows "cx_ok (cx_start ctx)"
proof -
  have "ctx_ok ctx" "ctx_Head ctx = None" using new_ctx_ok [OF assms] by simp_all
  then show ?thesis by (auto simp: cx_ok_def cx_defs cx_start_def ctx_ok_def sem_fine_def sem_cnt_def sem_holds_def split: option.splits)
qed

lemma fine_delete_pool: "pool_empty pool \<Longrightarrow> sem_fine ctx \<Longrightarrow> pool_empty (IpcContext_delete ctx pool)"
proof (cases "m_PtrSem ctx")
  case (Some s)
  assume p: "pool_empty pool" "sem_fine ctx"
  obtain s1 rv where t: "SemLite_Take s = (s1, rv)" by fastforce
  have h: "sem_holds s (unat (sl_count s)) 1" using p(2) Some by (simp add: sem_fine_def)
  have "sem_holds s1 (unat (sl_count s) - 1) 1" "unat (sl_count s) \<le> 1" using Take_holds [OF h t] h by (simp_all add: sem_holds_def)
  then have "sem_holds s1 0 1" by simp
  moreover have "sl_valid s" using h by (simp add: sem_holds_def)
  ultimately show ?thesis using p Some t
    by (auto simp: IpcContext_delete_def PutSemIntoPool_def pool_empty_def SemLite_TryTake_def)
qed (simp add: IpcContext_delete_def PutSemIntoPool_def)

lemma ctxs_reach_ok: "ctxs_reach m pool \<Longrightarrow> pool_empty pool \<and> (\<forall>k s. m k = Some s \<longrightarrow> cx_ok s)"
proof (induction rule: ctxs_reach.induct)
  case none
  then show ?case by (simp add: pool_empty_def)
next
  case (create m pool k ok ctx pool')
  then show ?case using new_ctx_ok [of pool ok ctx pool'] cx_start_ok [of pool ok ctx pool'] by simp
next
  case (destroy m pool k s)
  then have "sem_fine (cx_ctx s)" by (auto simp: cx_ok_def)
  with destroy show ?case using fine_delete_pool [of pool "cx_ctx s"] by simp
next
  case (use m pool k s s')
  then show ?case using cx_ok_step [of s s'] by auto
qed

section \<open>Properties\<close>

text \<open>A put and a get of which no part is interleaved with others are \<open>MessagePut\<close> and \<open>MessageGet\<close>.\<close>

lemma Put_run:
  assumes "cx_put s = Put_idle" "m_PtrDispatcher (cx_ctx s) = None"
  shows "\<exists>s'. cx_step\<^sup>*\<^sup>* s s' \<and> cx_ctx s' = fst (MessagePut ok (Some msg) (cx_ctx s)) \<and> cx_put s' = Put_idle \<and>
    cx_stored s' = cx_stored s @ [msg] \<and> cx_getting s' = cx_getting s \<and> cx_wait s' = cx_wait s \<and>
    cx_begun s' = cx_begun s + 1 \<and>
    cx_gone s' = cx_gone s @ (case ctx_Head (cx_ctx s) of None \<Rightarrow> [] | Some old \<Rightarrow> [Replaced old])"
proof -
  note a = put_begin [OF assms, of msg]
  note b = rtranclp.rtrancl_into_rtrancl [OF r_into_rtranclp [of cx_step, OF a] put_discard [of _ msg]]
  note c = rtranclp.rtrancl_into_rtrancl [OF b put_store [of _ msg]]
  note d = rtranclp.rtrancl_into_rtrancl [OF c put_signal]
  show ?thesis by (rule exI, rule conjI [OF d]) (simp_all add: assms MessagePut_def)
qed

lemma Get_run:
  assumes "m_PtrDispatcher (cx_ctx s) = None" "MessageGet (cx_ctx s) = (ctx', True, Some msg)"
  shows "\<exists>s'. cx_step\<^sup>*\<^sup>* s s' \<and> cx_ctx s' = ctx' \<and> cx_put s' = cx_put s \<and> cx_stored s' = cx_stored s \<and>
    cx_getting s' = cx_getting s \<and> cx_wait s' = cx_wait s \<and> cx_begun s' = cx_begun s \<and> cx_gone s' = cx_gone s @ [Fetched (Some msg)]"
proof -
  obtain c where c: "ctx_take (cx_ctx s) = (c, True)" "ctx_Head c = Some msg" "ctx' = ctx_clear c"
    using assms by (auto simp: MessageGet_def split: prod.splits if_splits)
  let ?t = "s\<lparr>cx_wait := cx_wait s + 1\<rparr>"
  let ?u = "?t\<lparr>cx_ctx := c, cx_wait := cx_wait s, cx_getting := cx_getting s @ [Get_test],
      cx_overlap := (cx_overlap s \<or> cx_put s \<noteq> Put_idle)\<rparr>"
  let ?v = "?u\<lparr>cx_getting := cx_getting s @ Get_read # []\<rparr>"
  let ?w = "?v\<lparr>cx_getting := cx_getting s @ Get_clear (Some msg) # []\<rparr>"
  let ?x = "?w\<lparr>cx_ctx := ctx_clear c, cx_getting := cx_getting s @ [], cx_gone := cx_gone s @ [Fetched (Some msg)]\<rparr>"
  have 1: "cx_step s ?t" by (rule get_enter [OF assms(1)])
  have 2: "cx_step ?t ?u" using get_take [of ?t "cx_wait s" c] c(1) by simp
  have 3: "cx_step ?u ?v" by (rule get_test) (simp_all add: c)
  have 4: "cx_step ?v ?w" using get_read [of ?v "cx_getting s" "[]"] c(2) by simp
  have 5: "cx_step ?w ?x" using get_clear [of ?w "cx_getting s" "Some msg" "[]"] by simp
  have "cx_step\<^sup>*\<^sup>* s ?x"
    by (rule converse_rtranclp_into_rtranclp [of cx_step, OF 1], rule converse_rtranclp_into_rtranclp [of cx_step, OF 2],
        rule converse_rtranclp_into_rtranclp [of cx_step, OF 3], rule converse_rtranclp_into_rtranclp [of cx_step, OF 4],
        rule r_into_rtranclp [of cx_step, OF 5])
  then show ?thesis by (intro exI [of _ ?x]) (simp add: c)
qed

lemma use_steps: "cx_step\<^sup>*\<^sup>* s s' \<Longrightarrow> ctxs_reach m pool \<Longrightarrow> m k = Some s \<Longrightarrow> ctxs_reach (m(k \<mapsto> s')) pool"
proof (induction rule: rtranclp_induct)
  case base
  then have "m(k \<mapsto> s) = m" by (intro ext) simp
  then show ?case using base by simp
next
  case (step y z)
  from use [OF step.IH [OF step.prems] fun_upd_same step.hyps(2)] show ?case by (simp only: fun_upd_upd)
qed

text \<open>
  C25. The contexts of a program, created and deleted in any order over the shared pool of semaphores, with puts and
  any number of gets interleaved in their parts: if no put overlaps with a get, or only one message is put, as it is for
  the response to a request, every message that is stored leaves once and in order, fetched by one get or replaced by the
  next message, a fetch never delivers anything else, and a get passes the semaphore exactly if a message waits.
\<close>

theorem IpcContext_mailbox:
  assumes "ctxs_reach m pool" and "m k = Some s" and "\<not> cx_overlap s \<or> cx_begun s \<le> 1"
  shows "map fate_message (cx_gone s) @ cx_pending s = map Some (cx_stored s) \<and> length (cx_getting s) \<le> 1 \<and>
    (cx_put s = Put_idle \<longrightarrow> cx_getting s = [] \<longrightarrow>
       snd (ctx_take (cx_ctx s)) = (m_PtrSem (cx_ctx s) \<noteq> None \<and> ctx_Head (cx_ctx s) \<noteq> None))"
proof -
  have k: "cx_ok s" using ctxs_reach_ok [OF assms(1)] assms(2) by blast
  then have "cx_ordered s" using assms(3) by (auto simp: cx_ok_def)
  then show ?thesis using k take_exact [of "cx_ctx s"] by (auto simp: cx_ok_def cx_defs split: if_splits)
qed

text \<open>A context that was just created, alone in a program.\<close>

lemma demo_context:
  obtains m pool and s :: "(nat, nat) ctxsys" where "ctxs_reach m pool" "m 0 = Some s" "cx_put s = Put_idle" "cx_getting s = []"
    "ctx_ok (cx_ctx s)" "m_PtrSem (cx_ctx s) \<noteq> None" "m_PtrDispatcher (cx_ctx s) = None" "ctx_Head (cx_ctx s) = None"
    "cx_stored s = []" "cx_gone s = []" "cx_begun s = 0" "\<not> cx_overlap s"
proof -
  obtain ctx :: "(nat, nat) ipccontext" and pool where n: "IpcContext_new True [] = (ctx, pool)" by fastforce
  from new_ctx_ok [OF _ this] have "ctx_ok ctx \<and> ctx_Head ctx = None \<and> m_PtrDispatcher ctx = None \<and> m_PtrSem ctx \<noteq> None"
    by (simp add: pool_empty_def)
  then show thesis using that [OF create [OF none _ n], of 0 "cx_start ctx"] by (simp add: cx_start_def)
qed

theorem IpcContext_mailbox_witness:
  "\<exists>m pool (s :: (nat, nat) ctxsys). ctxs_reach m pool \<and> m 0 = Some s \<and> cx_stored s = [[IpcSegment_new []]] \<and>
    cx_gone s = [Fetched (Some [IpcSegment_new []])] \<and> cx_pending s = [] \<and> \<not> snd (ctx_take (cx_ctx s))"
proof -
  let ?msg = "[IpcSegment_new []]"
  obtain m pool and s :: "(nat, nat) ctxsys" where s: "ctxs_reach m pool" "m 0 = Some s" "cx_put s = Put_idle" "cx_getting s = []"
    "ctx_ok (cx_ctx s)" "m_PtrSem (cx_ctx s) \<noteq> None" "m_PtrDispatcher (cx_ctx s) = None" "ctx_Head (cx_ctx s) = None"
    "cx_stored s = []" "cx_gone s = []" "cx_begun s = 0" by (rule demo_context)
  from Put_run [OF s(3,7), of True ?msg] obtain t where t: "cx_step\<^sup>*\<^sup>* s t" "cx_ctx t = fst (MessagePut True (Some ?msg) (cx_ctx s))"
    "cx_put t = Put_idle" "cx_stored t = [?msg]" "cx_getting t = []" "cx_begun t = 1" "cx_gone t = []" using s by auto
  obtain c kept where "MessagePut True (Some ?msg) (cx_ctx s) = (c, kept)" by fastforce
  with t(2) MessagePut_ok [OF s(5), of True "Some ?msg" c kept] s(6,7)
  have p: "ctx_ok (cx_ctx t)" "ctx_Head (cx_ctx t) = Some ?msg" "m_PtrDispatcher (cx_ctx t) = None" "m_PtrSem (cx_ctx t) \<noteq> None" by simp_all
  obtain c' rv out where g: "MessageGet (cx_ctx t) = (c', rv, out)" using prod_cases3 by blast
  with MessageGet_ok [OF p(1) g] p have "rv" "out = Some ?msg" "ctx_Head c' = None" by auto
  with Get_run [OF p(3), of c' ?msg] g t obtain u where u: "cx_step\<^sup>*\<^sup>* t u" "cx_ctx u = c'" "cx_put u = Put_idle"
    "cx_stored u = [?msg]" "cx_getting u = []" "cx_begun u = 1" "cx_gone u = [Fetched (Some ?msg)]" by auto
  have r: "ctxs_reach (m(0 \<mapsto> u)) pool" by (rule use_steps [OF rtranclp_trans [of cx_step, OF t(1) u(1)] s(1,2)])
  from IpcContext_mailbox [OF r, of 0 u] u \<open>ctx_Head c' = None\<close>
  have "cx_pending u = []" "\<not> snd (ctx_take (cx_ctx u))" by auto
  with r u show ?thesis by (intro exI [of _ "m(0 \<mapsto> u)"] exI [of _ pool] exI [of _ u]) simp
qed

text \<open>
  With a put that overlaps, a get may deliver a message that was deleted: the get has read the pointer, the put deletes the
  message to replace it.
\<close>

theorem IpcContext_overlap:
  "\<exists>m pool (s :: (nat, nat) ctxsys). ctxs_reach m pool \<and> m 0 = Some s \<and> cx_gone s = [Replaced msg, Fetched (Some msg)]"
proof -
  obtain m pool and s :: "(nat, nat) ctxsys" where s: "ctxs_reach m pool" "m 0 = Some s" "cx_put s = Put_idle" "cx_getting s = []"
    "ctx_ok (cx_ctx s)" "m_PtrSem (cx_ctx s) \<noteq> None" "m_PtrDispatcher (cx_ctx s) = None" "ctx_Head (cx_ctx s) = None"
    "cx_stored s = []" "cx_gone s = []" "cx_begun s = 0" "\<not> cx_overlap s" by (rule demo_context)
  from Put_run [OF s(3,7), of True msg] obtain t where t: "cx_step\<^sup>*\<^sup>* s t" "cx_ctx t = fst (MessagePut True (Some msg) (cx_ctx s))"
    "cx_put t = Put_idle" "cx_getting t = []" "cx_gone t = []" using s by auto
  obtain c kept where "MessagePut True (Some msg) (cx_ctx s) = (c, kept)" by fastforce
  with t(2) MessagePut_ok [OF s(5), of True "Some msg" c kept] s(6,7)
  have p: "ctx_ok (cx_ctx t)" "ctx_Head (cx_ctx t) = Some msg" "m_PtrDispatcher (cx_ctx t) = None" "m_PtrSem (cx_ctx t) \<noteq> None" by simp_all
  obtain x where x: "m_PtrSem (cx_ctx t) = Some x" using p(4) by blast
  then have "sem_holds x 1 1" using p(1,2) by (simp add: ctx_ok_def)
  then obtain x' where "SemLite_Take x = (x', True)" using Take_holds [of x 1 1] by (cases "SemLite_Take x") simp
  then obtain d where d: "ctx_take (cx_ctx t) = (d, True)" "ctx_Head d = Some msg" "m_PtrDispatcher d = None"
    using x p by (simp add: ctx_take_def)
  let ?a = "t\<lparr>cx_wait := cx_wait t + 1\<rparr>"
  let ?b = "?a\<lparr>cx_ctx := d, cx_wait := cx_wait t, cx_getting := [Get_test], cx_overlap := cx_overlap t\<rparr>"
  let ?c = "?b\<lparr>cx_getting := [] @ Get_read # []\<rparr>"
  let ?d = "?c\<lparr>cx_getting := [] @ Get_clear (Some msg) # []\<rparr>"
  let ?e = "?d\<lparr>cx_put := Put_discard msg, cx_begun := cx_begun t + 1, cx_overlap := True\<rparr>"
  let ?f = "?e\<lparr>cx_put := Put_store msg, cx_gone := [Replaced msg]\<rparr>"
  let ?g = "?f\<lparr>cx_ctx := ctx_clear d, cx_getting := [] @ [], cx_gone := [Replaced msg] @ [Fetched (Some msg)]\<rparr>"
  have 1: "cx_step t ?a" by (rule get_enter [OF p(3)])
  have 2: "cx_step ?a ?b" using get_take [of ?a "cx_wait t" d] d(1) t(3,4) by simp
  have 3: "cx_step ?b ?c" by (rule get_test) (simp_all add: d)
  have 4: "cx_step ?c ?d" using get_read [of ?c "[]" "[]"] d(2) by simp
  have 5: "cx_step ?d ?e" using put_begin [of ?d msg] d(3) t(3) by simp
  have 6: "cx_step ?e ?f" using put_discard [of ?e msg] d(2) t(5) by simp
  have 7: "cx_step ?f ?g" using get_clear [of ?f "[]" "Some msg" "[]"] by simp
  have "cx_step\<^sup>*\<^sup>* t ?g"
    by (rule converse_rtranclp_into_rtranclp [of cx_step, OF 1], rule converse_rtranclp_into_rtranclp [of cx_step, OF 2],
        rule converse_rtranclp_into_rtranclp [of cx_step, OF 3], rule converse_rtranclp_into_rtranclp [of cx_step, OF 4],
        rule converse_rtranclp_into_rtranclp [of cx_step, OF 5], rule converse_rtranclp_into_rtranclp [of cx_step, OF 6],
        rule r_into_rtranclp [of cx_step, OF 7])
  from use_steps [OF rtranclp_trans [of cx_step, OF t(1) this] s(1,2)]
  show ?thesis by (intro exI [of _ "m(0 \<mapsto> ?g)"] exI [of _ pool] exI [of _ ?g]) simp
qed

end
