(* ===== verification/IpcAccumMap.thy ===== *)
theory IpcAccumMap
  imports IpcContext
begin

text \<open>
  \<open>IpcAccumMap\<close> of \<open>cpIpcNodeUtil\<close>: the receiving side of a node. A map from message identities to
  accumulators reassembles the messages whose segments arrive interleaved, and a map from context
  numbers to contexts holds the completed ones. The bodies of the methods under the mutex are
  functions of the state; \<open>now\<close> is the time and \<open>ok\<close> the success of creating a semaphore or event.
\<close>

section \<open>Operations\<close>

record ('h, 'c) accummap =
  m_AccumQueue :: "ipcsegment option itcqueue"
  m_AccumMap :: "u64 \<Rightarrow> ipcaccum option"
  m_ContextMap :: "u32 \<Rightarrow> ('h, 'c) ipccontext option"
  am_pool :: "semlite list"

definition k_IpcAccumQueueDepth :: u32 where "k_IpcAccumQueueDepth = 64"

definition IpcAccumMap_new :: "('h, 'c) accummap" where
  "IpcAccumMap_new =
     \<lparr>m_AccumQueue = ItcQueue_new k_IpcAccumQueueDepth, m_AccumMap = (\<lambda>_. None), m_ContextMap = (\<lambda>_. None),
      am_pool = []\<rparr>"

text \<open>The segment is deleted when the queue does not take it; the result tells the caller.\<close>

definition am_SubmitSegment :: "ipcsegment option \<Rightarrow> ('h, 'c) accummap \<Rightarrow> ('h, 'c) accummap \<times> bool" where
  "am_SubmitSegment pSegment am =
     (case pSegment of
        None \<Rightarrow> (am, False)
      | Some s \<Rightarrow> (case ItcQueue_Put (Some s) (m_AccumQueue am) of (q, rv) \<Rightarrow> (am\<lparr>m_AccumQueue := q\<rparr>, rv)))"

definition am_ReleaseThread :: "('h, 'c) accummap \<Rightarrow> ('h, 'c) accummap" where
  "am_ReleaseThread am = am\<lparr>m_AccumQueue := fst (ItcQueue_Put None (m_AccumQueue am))\<rparr>"

text \<open>\<open>m_ContextMap[MsgId]\<close>: the entry, created if there is none.\<close>

definition context_at :: "bool \<Rightarrow> u32 \<Rightarrow> ('h, 'c) accummap \<Rightarrow> ('h, 'c) accummap \<times> ('h, 'c) ipccontext" where
  "context_at ok mid am =
     (case m_ContextMap am mid of
        Some ctx \<Rightarrow> (am, ctx)
      | None \<Rightarrow>
          (case IpcContext_new ok (am_pool am) of
             (ctx, pool) \<Rightarrow> (am\<lparr>m_ContextMap := (m_ContextMap am)(mid \<mapsto> ctx), am_pool := pool\<rparr>, ctx)))"

definition RemoveContext :: "u32 \<Rightarrow> ('h, 'c) accummap \<Rightarrow> ('h, 'c) accummap \<times> bool" where
  "RemoveContext mid am =
     (if mid = 0 then (am, False)
      else
        (case m_ContextMap am mid of
           Some ctx \<Rightarrow>
             (am\<lparr>m_ContextMap := (m_ContextMap am)(mid := None), am_pool := IpcContext_delete ctx (am_pool am)\<rparr>, True)
         | None \<Rightarrow> (am, False)))"

definition GetResponse :: "bool \<Rightarrow> u32 \<Rightarrow> ('h, 'c) accummap \<Rightarrow> ('h, 'c) accummap \<times> bool \<times> message option" where
  "GetResponse ok mid am =
     (case context_at ok mid am of
        (am1, ctx) \<Rightarrow>
          (case IpcContext.MessageGet ctx of
             (ctx1, rv, out) \<Rightarrow>
               let am2 = am1\<lparr>m_ContextMap := (m_ContextMap am1)(mid \<mapsto> ctx1)\<rparr>
               in (if rv then fst (RemoveContext mid am2) else am2, rv, out)))"

definition am_RegisterHandler ::
  "bool \<Rightarrow> bool \<Rightarrow> 'h \<Rightarrow> 'h \<Rightarrow> 'h option \<Rightarrow> u32 \<Rightarrow> nat \<Rightarrow> 'c option \<Rightarrow> ('h, 'c) accummap \<Rightarrow> ('h, 'c) accummap \<times> bool" where
  "am_RegisterHandler ok okd pre post ph mid NumThreads c am =
     (case context_at ok mid am of
        (am1, ctx) \<Rightarrow>
          (case RegisterHandler okd pre post ph NumThreads c ctx of
             (ctx1, rv) \<Rightarrow> (am1\<lparr>m_ContextMap := (m_ContextMap am1)(mid \<mapsto> ctx1)\<rparr>, rv)))"

definition am_RemoveHandler :: "'h option \<Rightarrow> u32 \<Rightarrow> ('h, 'c) accummap \<Rightarrow> ('h, 'c) accummap \<times> bool" where
  "am_RemoveHandler ph mid am =
     (case m_ContextMap am mid of
        Some ctx \<Rightarrow>
          (case RemoveHandler ph ctx of
             (ctx1, rv) \<Rightarrow> (am\<lparr>m_ContextMap := (m_ContextMap am)(mid \<mapsto> ctx1)\<rparr>, rv))
      | None \<Rightarrow> (am, False))"

text \<open>
  The accumulation of one segment: the accumulators afterwards, and the message that is now
  complete, if any. A segment without the multipart option is a message of its own.
\<close>

definition accumulate ::
  "u64 \<Rightarrow> ipcsegment \<Rightarrow> (u64 \<Rightarrow> ipcaccum option) \<Rightarrow> (u64 \<Rightarrow> ipcaccum option) \<times> message option" where
  "accumulate now seg m =
     (if Options seg AND opt_Multipart \<noteq> 0 then
        let guid = Guid seg;
            accum = (case m guid of Some a \<Rightarrow> a | None \<Rightarrow> IpcAccum_new now);
            accum1 = SubmitSegment (Some seg) accum
        in if Complete accum1 then (m(guid := None), snd (IpcAccum.MessageGet accum1))
           else (m(guid \<mapsto> ResetTimeout now k_IpcAccumulatorTimeout accum1), None)
      else (m, Some [seg]))"

text \<open>A complete message goes to the context its first segment names.\<close>

definition deliver :: "bool \<Rightarrow> bool \<Rightarrow> message \<Rightarrow> ('h, 'c) accummap \<Rightarrow> ('h, 'c) accummap" where
  "deliver ok oke msg am =
     (let msgId = Context (hd msg)
      in case context_at ok msgId am of
           (am1, ctx) \<Rightarrow>
             (case MessagePut oke (Some msg) ctx of
                (ctx1, stored) \<Rightarrow>
                  let am2 = am1\<lparr>m_ContextMap := (m_ContextMap am1)(msgId \<mapsto> ctx1)\<rparr>
                  in if \<not> stored \<and> msgId \<noteq> 0 then fst (RemoveContext msgId am2) else am2))"

text \<open>
  The housekeeping loop erases an entry and then steps the iterator that pointed to it, so it has a
  result only when nothing is erased.
\<close>

definition housekeeping :: "u64 \<Rightarrow> bool \<Rightarrow> ('h, 'c) accummap \<Rightarrow> ('h, 'c) accummap option" where
  "housekeeping now exit_flag am =
     (if \<exists>a \<in> ran (m_AccumMap am). Expired now a \<or> exit_flag then None else Some am)"

text \<open>One turn of the accumulator thread, for the element taken from the queue.\<close>

definition AccumThread_turn ::
  "u64 \<Rightarrow> bool \<Rightarrow> bool \<Rightarrow> bool \<Rightarrow> ipcsegment option \<Rightarrow> ('h, 'c) accummap \<Rightarrow> ('h, 'c) accummap option" where
  "AccumThread_turn now exit_flag ok oke pSegment am =
     (case pSegment of
        None \<Rightarrow> housekeeping now exit_flag am
      | Some seg \<Rightarrow>
          if exit_flag then housekeeping now exit_flag am
          else
            (case accumulate now seg (m_AccumMap am) of
               (m, None) \<Rightarrow> Some (am\<lparr>m_AccumMap := m\<rparr>)
             | (m, Some msg) \<Rightarrow> Some (deliver ok oke msg (am\<lparr>m_AccumMap := m\<rparr>))))"

section \<open>Interleaved messages\<close>

text \<open>
  The accumulation of a sequence of arrivals with their times. The log holds the completed
  messages; one that was reassembled is tagged with its identity.
\<close>

definition multi :: "ipcsegment \<Rightarrow> bool" where
  "multi s \<longleftrightarrow> Options s AND opt_Multipart \<noteq> 0"

fun accum_run ::
  "(u64 \<times> ipcsegment) list \<Rightarrow> (u64 \<Rightarrow> ipcaccum option) \<Rightarrow> (u64 \<Rightarrow> ipcaccum option) \<times> (u64 option \<times> message) list" where
  "accum_run [] m = (m, [])"
| "accum_run ((now, seg) # xs) m =
     (let (m1, out) = accumulate now seg m;
          (m2, log) = accum_run xs m1
      in (m2, (case out of None \<Rightarrow> [] | Some msg \<Rightarrow> [(if multi seg then Some (Guid seg) else None, msg)]) @ log))"

lemma accum_run_snoc:
  "accum_run (xs @ [(now, seg)]) m =
     (case accum_run xs m of (m1, log) \<Rightarrow>
       (case accumulate now seg m1 of (m2, out) \<Rightarrow>
         (m2, log @ (case out of None \<Rightarrow> [] | Some msg \<Rightarrow> [(if multi seg then Some (Guid seg) else None, msg)]))))"
  by (induction xs arbitrary: m) (auto split: prod.splits option.splits simp: Let_def)

text \<open>An accumulator up to its timeout.\<close>

definition acc_same :: "ipcaccum \<Rightarrow> ipcaccum \<Rightarrow> bool" where
  "acc_same a b \<longleftrightarrow> m_Total a = m_Total b \<and> m_Received a = m_Received b \<and> acc_segs a = acc_segs b"

lemma acc_same_submit: "acc_same a b \<Longrightarrow> acc_same (SubmitSegment (Some s) a) (SubmitSegment (Some s) b)"
  by (simp add: acc_same_def)

lemma acc_same_obs: "acc_same a b \<Longrightarrow> Complete a = Complete b \<and>
    snd (IpcAccum.MessageGet a) = snd (IpcAccum.MessageGet b)"
  by (simp add: acc_same_def Complete_def IpcAccum.MessageGet_def)

lemma acc_same_reset: "acc_same a b \<Longrightarrow> acc_same (ResetTimeout now t a) b"
  by (simp add: acc_same_def ResetTimeout_def)

lemma fin_msg_multi: "fin_msg T n L segs \<Longrightarrow> s \<in> set segs \<Longrightarrow> multi s"
proof -
  assume m: "fin_msg T n L segs" and s: "s \<in> set segs"
  then obtain i where i: "i < n" "s = segs ! i" using fin_msg_length [OF m] by (auto simp: in_set_conv_nth)
  have "Options s = h_Options T OR opt_Multipart OR (if i + 1 < n then 0 else opt_Initial)"
    using arg_cong [OF fin_msg_nth [OF m i(1)], of h_Options] m i(2) by (simp add: hdr_def fin_hdr_def fin_msg_def)
  then have "Options s AND opt_Multipart = opt_Multipart"
    by (simp add: bit.conj_disj_distrib2 opt_Multipart_def opt_Initial_def bit.disj_conj_distrib2 and.assoc)
  then show ?thesis by (simp add: multi_def opt_Multipart_def)
qed

text \<open>The arrivals that belong to the reassembly of the identity \<open>g\<close>.\<close>

definition arrivals :: "u64 \<Rightarrow> (u64 \<times> ipcsegment) list \<Rightarrow> ipcsegment list" where
  "arrivals g xs = filter (\<lambda>s. multi s \<and> Guid s = g) (map snd xs)"

definition completed :: "u64 \<Rightarrow> (u64 option \<times> message) list \<Rightarrow> message list" where
  "completed g log = map snd (filter (\<lambda>e. fst e = Some g) log)"

lemma accumulate_other:
  "\<not> (multi s \<and> Guid s = g) \<Longrightarrow> accumulate now s m = (m', out) \<Longrightarrow> m' g = m g"
  by (auto simp: accumulate_def multi_def Let_def split: if_splits)

lemma accumulate_own:
  assumes "multi s" "Guid s = g" and a: "acc_same (case m g of Some a \<Rightarrow> a | None \<Rightarrow> IpcAccum_new now) a0"
    and e: "accumulate now s m = (m', out)"
  shows "if Complete (SubmitSegment (Some s) a0)
    then m' g = None \<and> out = snd (IpcAccum.MessageGet (SubmitSegment (Some s) a0))
    else out = None \<and> (\<exists>a. m' g = Some a \<and> acc_same a (SubmitSegment (Some s) a0))"
proof -
  let ?a = "case m g of Some a \<Rightarrow> a | None \<Rightarrow> IpcAccum_new now"
  have s: "acc_same (SubmitSegment (Some s) ?a) (SubmitSegment (Some s) a0)" using a by (rule acc_same_submit)
  have acc: "accumulate now s m = (if Complete (SubmitSegment (Some s) ?a)
      then (m(g := None), snd (IpcAccum.MessageGet (SubmitSegment (Some s) ?a)))
      else (m(g \<mapsto> ResetTimeout now k_IpcAccumulatorTimeout (SubmitSegment (Some s) ?a)), None))"
    using assms(1,2) by (simp add: accumulate_def multi_def Let_def)
  show ?thesis using e acc_same_obs [OF s] acc_same_reset [OF s] unfolding acc by (auto split: if_splits)
qed

text \<open>
  While fewer than all fragments of a message have arrived, its accumulator is that of the arrivals
  alone; the last one completes it.
\<close>

lemma accum_run_own:
  assumes m: "fin_msg T n L segs" and g: "\<And>s. s \<in> set segs \<Longrightarrow> Guid s = g" and m0: "m0 g = None"
  shows "mset (arrivals g xs) \<subseteq># mset segs \<Longrightarrow> accum_run xs m0 = (m1, log) \<Longrightarrow>
    (if length (arrivals g xs) < n
     then completed g log = [] \<and>
       (case m1 g of None \<Rightarrow> arrivals g xs = [] | Some a \<Rightarrow> acc_same a (acc_run (arrivals g xs) (IpcAccum_new 0)))
     else completed g log = [segs] \<and> m1 g = None)"
proof (induction xs arbitrary: m1 log rule: rev_induct)
  case Nil
  then show ?case using m m0 by (simp add: arrivals_def completed_def fin_msg_def)
next
  case (snoc x xs)
  obtain now s where x: "x = (now, s)" by (cases x)
  let ?ys = "arrivals g xs"
  obtain m2 log2 where r: "accum_run xs m0 = (m2, log2)" by fastforce
  obtain out where a: "accumulate now s m2 = (m1, out)"
    and log: "log = log2 @ (case out of None \<Rightarrow> [] | Some msg \<Rightarrow> [(if multi s then Some (Guid s) else None, msg)])"
    using snoc.prems(2) by (auto simp: x accum_run_snoc r split: prod.splits)
  show ?case
  proof (cases "multi s \<and> Guid s = g")
    case False
    then have ys: "arrivals g (xs @ [x]) = ?ys" by (simp add: arrivals_def x)
    have "completed g log = completed g log2" using False by (auto simp: log completed_def split: option.splits)
    moreover have "mset ?ys \<subseteq># mset segs" using snoc.prems(1) by (simp add: ys)
    ultimately show ?thesis using snoc.IH [OF _ r] accumulate_other [OF False a] unfolding ys by simp
  next
    case True
    then have ys: "arrivals g (xs @ [x]) = ?ys @ [s]" by (simp add: arrivals_def x)
    have sub: "mset (?ys @ [s]) \<subseteq># mset segs" using snoc.prems(1) by (simp add: ys)
    then have sub1: "mset ?ys \<subseteq># mset segs" by (metis mset_subset_eq_add_left mset_append subset_mset.order_trans)
    have len: "length (?ys @ [s]) \<le> n" using size_mset_mono [OF sub] fin_msg_length [OF m] by simp
    then have IH: "completed g log2 = []"
      "case m2 g of None \<Rightarrow> ?ys = [] | Some a \<Rightarrow> acc_same a (acc_run ?ys (IpcAccum_new 0))"
      using snoc.IH [OF sub1 r] by simp_all
    have base: "acc_same (case m2 g of Some a \<Rightarrow> a | None \<Rightarrow> IpcAccum_new now) (acc_run ?ys (IpcAccum_new 0))"
      using IH(2) by (cases "m2 g") (simp_all add: acc_same_def)
    let ?b = "acc_run (?ys @ [s]) (IpcAccum_new 0)"
    have own: "if Complete ?b then m1 g = None \<and> out = snd (IpcAccum.MessageGet ?b)
      else out = None \<and> (\<exists>a. m1 g = Some a \<and> acc_same a ?b)"
      using accumulate_own [OF _ _ base a] True by simp
    have set: "set (?ys @ [s]) \<subseteq> set segs" using sub by (metis set_mset_mono set_mset_mset)
    have c: "Complete ?b \<longleftrightarrow> length (?ys @ [s]) = n \<and> segs ! (n - 1) \<in> set (?ys @ [s])"
      by (rule acc_complete [OF m set len])
    show ?thesis
    proof (cases "length (?ys @ [s]) = n")
      case full: True
      then have eq: "mset (?ys @ [s]) = mset segs"
        using sub fin_msg_length [OF m] by (metis mset_subset_size not_le order_refl size_mset subset_mset.le_neq_trans)
      have "segs ! (n - 1) \<in> set (?ys @ [s])" using fin_msg_last_final [OF m] unfolding mset_eq_setD [OF eq] by blast
      then have "Complete ?b" using c full by blast
      then have "m1 g = None" "out = Some segs" using own acc_order [OF m eq] by simp_all
      then show ?thesis using IH(1) True full ys by (simp add: log completed_def)
    next
      case False
      then have "\<not> Complete ?b" using c by simp
      then show ?thesis using own IH(1) False len ys by (auto simp: log completed_def)
    qed
  qed
qed

lemma fin_msg_Guid: "fin_msg T n L segs \<Longrightarrow> s \<in> set segs \<Longrightarrow> Guid s = push_bit 32 (ucast (h_SrcAddr T)) OR ucast (h_MsgId T)"
proof -
  assume m: "fin_msg T n L segs" and s: "s \<in> set segs"
  then obtain i where i: "i < n" "s = segs ! i" using fin_msg_length [OF m] by (auto simp: in_set_conv_nth)
  note h = fin_msg_nth [OF m i(1)]
  have "SrcAddr s = h_SrcAddr T" "MsgId s = h_MsgId T"
    using arg_cong [OF h, of h_SrcAddr] arg_cong [OF h, of h_MsgId] i(2) by (simp_all add: hdr_def fin_hdr_def)
  then show ?thesis by (simp add: Guid_def)
qed

text \<open>
  C23. Messages are reassembled independently of each other: in any sequence of arrivals, at any
  times, in which the multipart segments that bear the identity of a message are exactly its
  segments in some order, that message is completed exactly once, with its segments in the order they
  were sent, and its accumulator is gone afterwards. Nothing is assumed of the other
  arrivals.
\<close>

theorem AccumMap_independent:
  assumes "fin_msg T n L segs" and "g = Guid (hd segs)" and "m0 g = None"
    and "mset (arrivals g xs) = mset segs"
  shows "\<exists>m1 log. accum_run xs m0 = (m1, log) \<and> completed g log = [segs] \<and> m1 g = None"
proof -
  have ne: "segs \<noteq> []" using fin_msg_length [OF assms(1)] assms(1) by (auto simp: fin_msg_def)
  have g: "Guid s = g" if "s \<in> set segs" for s
    using fin_msg_Guid [OF assms(1) that] fin_msg_Guid [OF assms(1) hd_in_set [OF ne]] assms(2) by simp
  obtain m1 log where r: "accum_run xs m0 = (m1, log)" by fastforce
  have "length (arrivals g xs) = n" using assms(4) fin_msg_length [OF assms(1)] by (metis size_mset)
  then show ?thesis using accum_run_own [OF assms(1) g assms(3) _ r] assms(4) r by simp
qed

theorem AccumMap_independent_witness:
  "\<exists>segs m1 log. 2 < length segs \<and>
    accum_run (map (Pair 5) (rev segs @ [IpcSegment_new (replicate 1024 0)])) (\<lambda>_. None) = (m1, log) \<and>
    completed (Guid (hd segs)) log = [segs]"
proof -
  obtain T n L segs where m: "fin_msg T n L segs" "2 < n" using sample_message by blast
  have ne: "segs \<noteq> []" "length segs = n" using fin_msg_length [OF m(1)] m(2) by auto
  have g: "Guid s = Guid (hd segs)" if "s \<in> set segs" for s
    using fin_msg_Guid [OF m(1) that] fin_msg_Guid [OF m(1) hd_in_set [OF ne(1)]] by simp
  have "\<not> multi (IpcSegment_new (replicate 1024 0))"
    using fresh_options [of "replicate 1024 0" opt_Multipart] by (simp add: multi_def hdr_def)
  moreover have "filter (\<lambda>s. multi s \<and> Guid s = Guid (hd segs)) (rev segs) = rev segs"
    using fin_msg_multi [OF m(1)] g by (intro filter_True) auto
  ultimately have "mset (arrivals (Guid (hd segs)) (map (Pair 5) (rev segs @ [IpcSegment_new (replicate 1024 0)]))) = mset segs"
    by (simp add: arrivals_def comp_def)
  from AccumMap_independent [OF m(1) refl _ this, of "\<lambda>_. None"] show ?thesis using ne m(2) by auto
qed

section \<open>Requests and responses\<close>

definition am_ok :: "('h, 'c) accummap \<Rightarrow> bool" where
  "am_ok am \<longleftrightarrow> pool_empty (am_pool am) \<and> (\<forall>k ctx. m_ContextMap am k = Some ctx \<longrightarrow> ctx_ok ctx \<and> m_PtrSem ctx \<noteq> None)"

lemma context_at_ok:
  assumes a: "am_ok am" and c: "context_at True k am = (am1, ctx)"
  shows "am_ok am1 \<and> ctx_ok ctx \<and> m_PtrSem ctx \<noteq> None \<and> m_ContextMap am1 k = Some ctx \<and>
    (\<forall>j. j \<noteq> k \<longrightarrow> m_ContextMap am1 j = m_ContextMap am j) \<and>
    (m_ContextMap am k = None \<longrightarrow> ctx_Head ctx = None \<and> m_PtrDispatcher ctx = None) \<and>
    (\<forall>d. m_ContextMap am k = Some d \<longrightarrow> ctx = d)"
proof (cases "m_ContextMap am k")
  case None
  obtain ctx0 pool where n: "(IpcContext_new True (am_pool am) :: ('a, 'b) ipccontext \<times> _) = (ctx0, pool)" by fastforce
  have "pool_empty (am_pool am)" using a by (simp add: am_ok_def)
  from new_ctx_ok [OF this n] have "pool_empty pool" "ctx_ok ctx0" "ctx_Head ctx0 = None" "m_PtrDispatcher ctx0 = None"
    "m_PtrSem ctx0 \<noteq> None" by simp_all
  moreover have "am1 = am\<lparr>m_ContextMap := (m_ContextMap am)(k \<mapsto> ctx0), am_pool := pool\<rparr>" "ctx = ctx0"
    using c None n by (auto simp: context_at_def)
  ultimately show ?thesis using a None by (auto simp: am_ok_def)
next
  case (Some d)
  then show ?thesis using a c by (auto simp: context_at_def am_ok_def)
qed

lemma response_delivered:
  assumes "am_ok am" and "Context (hd msg) = k" and "k \<noteq> 0"
    and "\<And>ctx. m_ContextMap am k = Some ctx \<Longrightarrow> m_PtrDispatcher ctx = None"
  shows "\<exists>am'. GetResponse True k (deliver True oke msg am) = (am', True, Some msg) \<and> m_ContextMap am' k = None"
proof -
  obtain am1 ctx where at: "context_at True k am = (am1, ctx)" by fastforce
  note c = context_at_ok [OF assms(1) at]
  have disp: "m_PtrDispatcher ctx = None" using c assms(4) by (cases "m_ContextMap am k") auto
  obtain ctx1 kept where p: "MessagePut oke (Some msg) ctx = (ctx1, kept)" by fastforce
  have ctx1: "ctx_ok ctx1" "kept" "ctx_Head ctx1 = Some msg" "m_PtrDispatcher ctx1 = None" "m_PtrSem ctx1 \<noteq> None"
    using MessagePut_ok [OF _ p] c disp by simp_all
  have d: "deliver True oke msg am = am1\<lparr>m_ContextMap := (m_ContextMap am1)(k \<mapsto> ctx1)\<rparr>"
    using assms(2) at p ctx1(2) by (simp add: deliver_def Let_def)
  obtain ctx2 rv out where g: "IpcContext.MessageGet ctx1 = (ctx2, rv, out)" using prod_cases3 by blast
  have "rv" "out = Some msg" using MessageGet_ok [OF ctx1(1) g] ctx1 by simp_all
  then show "\<exists>am'. GetResponse True k (deliver True oke msg am) = (am', True, Some msg) \<and> m_ContextMap am' k = None"
    using assms(3) g by (simp add: GetResponse_def context_at_def d RemoveContext_def Let_def)
qed

text \<open>
  A response reaches the thread that waits for it: a complete message whose first segment names
  the context \<open>k\<close>, not 0, with no handler registered there, is what the next \<open>GetResponse\<close> for \<open>k\<close>
  returns, whether or not the request was waiting already, and the context is removed; until
  then a \<open>GetResponse\<close> whose wait ends without a message fails and leaves its context in the map.
\<close>

theorem AccumMap_response:
  assumes "am_ok am" and "Context (hd msg) = k" and "k \<noteq> 0"
    and "\<And>ctx. m_ContextMap am k = Some ctx \<Longrightarrow> m_PtrDispatcher ctx = None"
  shows "(\<exists>am'. GetResponse True k (deliver True oke msg am) = (am', True, Some msg) \<and> m_ContextMap am' k = None) \<and>
    (m_ContextMap am k = None \<longrightarrow>
      (\<exists>am'. GetResponse True k am = (am', False, None) \<and> m_ContextMap am' k \<noteq> None))"
proof -
  have "\<exists>am'. GetResponse True k am = (am', False, None) \<and> m_ContextMap am' k \<noteq> None" if new: "m_ContextMap am k = None"
  proof -
    obtain am1 ctx where at: "context_at True k am = (am1, ctx)" by fastforce
    note c = context_at_ok [OF assms(1) at]
    obtain ctx3 rv out where g: "IpcContext.MessageGet ctx = (ctx3, rv, out)" using prod_cases3 by blast
    have "\<not> rv" "out = None" using MessageGet_ok [OF _ g] c new by simp_all
    then show ?thesis using at g by (simp add: GetResponse_def Let_def)
  qed
  with response_delivered [OF assms, of oke] show ?thesis by blast
qed

theorem AccumMap_response_witness:
  "\<exists>am'. GetResponse True 9 (deliver True True [Context_set 9 (IpcSegment_new (replicate 1024 0))]
      (IpcAccumMap_new :: (nat, nat) accummap)) = (am', True, Some [Context_set 9 (IpcSegment_new (replicate 1024 0))])"
proof -
  have ok: "am_ok (IpcAccumMap_new :: (nat, nat) accummap)" by (simp add: am_ok_def IpcAccumMap_new_def pool_empty_def)
  have "seg_sets (h_Context_update (\<lambda>_. 9)) (IpcSegment_new (replicate 1024 0)) (Context_set 9 (IpcSegment_new (replicate 1024 0)))"
    by (rule Id_set_sets) (simp add: new_spec)
  then have "h_Context (hdr (Context_set 9 (IpcSegment_new (replicate 1024 0)))) = 9" by (simp add: seg_sets_def)
  then have "Context (hd [Context_set 9 (IpcSegment_new (replicate 1024 0))]) = 9" by (simp add: hdr_def)
  from AccumMap_response [OF ok this, of True] show ?thesis by (auto simp: IpcAccumMap_new_def)
qed

text \<open>
  The timeout of the queue's \<open>Get\<close> is the only turn without a segment that the thread ever takes, and
  it skips the loop body; the housekeeping runs for a NULL element alone, and then an expired accumulator
  leaves no result.
\<close>

lemma housekeeping_expired:
  "m_AccumMap am g = Some a \<Longrightarrow> Expired now a \<Longrightarrow> AccumThread_turn now exit_flag ok oke None am = None"
  by (auto simp: AccumThread_turn_def housekeeping_def ran_def)

end
