(* ===== verification/IpcNode.thy ===== *)
theory IpcNode
  imports IpcAccumMap IpcXmit
begin

text \<open>
  \<open>cpIpcNode\<close> and \<open>cpIpcResolver\<close>: a node sends messages through its transmit queue and receives them
  through its accumulators. The memory of new segments is an argument: \<open>blk\<close> for the segment of
  \<open>CreateSegment\<close>, \<open>tblk\<close> and \<open>al\<close> for the segment stream. No result stands for a use of a NULL or
  deleted object. The transport is given by the outcome of its \<open>Send\<close> and \<open>Recv\<close>.
\<close>

section \<open>Operations\<close>

record ('h, 'c) ipcnode =
  nd_Valid :: bool
  m_Flag1 :: bool
  m_NodeAddr :: u32
  m_SemStart :: semlite
  m_SemExit :: semlite
  nd_AccumMap :: "('h, 'c) accummap"
  m_TransmitQueue :: xmitqueue
  m_AddrMap :: "string \<Rightarrow> u32 option"
  m_ResolverNodeName :: string
  m_ResolverNodeAddr :: u32

text \<open>The resolver's cache; \<open>f\<close> is the resolver function, if one is set.\<close>

definition AddressAdd :: "string \<Rightarrow> u32 \<Rightarrow> ('h, 'c) ipcnode \<Rightarrow> ('h, 'c) ipcnode" where
  "AddressAdd name addr nd = nd\<lparr>m_AddrMap := (m_AddrMap nd)(name \<mapsto> addr)\<rparr>"

definition NodeAddrLookup :: "(string \<Rightarrow> u32) option \<Rightarrow> string \<Rightarrow> ('h, 'c) ipcnode \<Rightarrow> ('h, 'c) ipcnode \<times> u32" where
  "NodeAddrLookup f name nd =
     (let rv = (case m_AddrMap nd name of Some a \<Rightarrow> a | None \<Rightarrow> 0)
      in if rv = 0 then
           let rv1 = (case f of Some g \<Rightarrow> g name | None \<Rightarrow> rv)
           in (if rv1 \<noteq> 0 then AddressAdd name rv1 nd else nd, rv1)
         else (nd, rv))"

definition Resolver_Clear :: "('h, 'c) ipcnode \<Rightarrow> ('h, 'c) ipcnode" where
  "Resolver_Clear nd = nd\<lparr>m_AddrMap := (\<lambda>_. None)\<rparr>"

definition FlushAddrCache :: "('h, 'c) ipcnode \<Rightarrow> ('h, 'c) ipcnode" where
  "FlushAddrCache nd = AddressAdd (m_ResolverNodeName nd) (m_ResolverNodeAddr nd) (Resolver_Clear nd)"

definition SignalExit :: "('h, 'c) ipcnode \<Rightarrow> ('h, 'c) ipcnode" where
  "SignalExit nd = (case SemLite_Give (m_SemExit nd) of (s, rv) \<Rightarrow> nd\<lparr>m_SemExit := s, m_Flag1 := rv\<rparr>)"

definition StartSync :: "('h, 'c) ipcnode \<Rightarrow> ('h, 'c) ipcnode" where
  "StartSync nd = nd\<lparr>m_SemStart := fst (SemLite_Give (m_SemStart nd))\<rparr>"

definition msg_Control :: u8 where "msg_Control = 2"
definition msg_Datum :: u8 where "msg_Datum = 1"
definition ctl_Shutdown :: u8 where "ctl_Shutdown = 0x01"
definition ctl_WatchDog :: u8 where "ctl_WatchDog = 0x08"
definition ctl_FlushAddr :: u8 where "ctl_FlushAddr = 0x09"
definition ctl_StartSync :: u8 where "ctl_StartSync = 0x0a"

text \<open>The handler of control events, on the type and code of the packet; \<open>wd\<close> is the watchdog function.\<close>

definition ControlEvent :: "(('h, 'c) ipcnode \<Rightarrow> ('h, 'c) ipcnode) option \<Rightarrow> u8 \<Rightarrow> u8 \<Rightarrow> ('h, 'c) ipcnode \<Rightarrow> ('h, 'c) ipcnode" where
  "ControlEvent wd type code nd =
     (if type = msg_Control then
        if code = ctl_Shutdown then SignalExit nd
        else if code = ctl_WatchDog then (case wd of Some f \<Rightarrow> f nd | None \<Rightarrow> nd)
        else if code = ctl_FlushAddr then FlushAddrCache nd
        else if code = ctl_StartSync then StartSync nd
        else nd
      else nd)"

definition CreateSegment ::
  "octets option \<Rightarrow> u32 \<Rightarrow> u32 \<Rightarrow> u8 \<Rightarrow> u32 \<Rightarrow> u8 \<Rightarrow> u8 \<Rightarrow> ipcsegment option" where
  "CreateSegment blk src DestAddr pri ctx type code =
     (if DestAddr \<noteq> 0 then
        (case blk of
           None \<Rightarrow> None
         | Some b \<Rightarrow>
             Some (CtlCode_set code (MsgType_set type (Context_set ctx (DstAddr_set DestAddr
               (SrcAddr_set src (Priority_set pri (IpcSegment_new b))))))))
      else None)"

text \<open>A list of linked segments as the pointer to its head.\<close>

fun chain_of :: "ipcsegment list \<Rightarrow> chain option" where
  "chain_of [] = None"
| "chain_of (s # rest) = Some (s, rest)"

definition node_transmit :: "chain option \<Rightarrow> ('h, 'c) ipcnode \<Rightarrow> (('h, 'c) ipcnode \<times> u32) option" where
  "node_transmit pSeg nd =
     map_option (\<lambda>(q, rv). (nd\<lparr>m_TransmitQueue := q\<rparr>, rv)) (TransmitMessage pSeg (m_TransmitQueue nd))"

definition SendCtl ::
  "octets option \<Rightarrow> u32 \<Rightarrow> u8 \<Rightarrow> u32 \<Rightarrow> u8 \<Rightarrow> ('h, 'c) ipcnode \<Rightarrow> (('h, 'c) ipcnode \<times> u32) option" where
  "SendCtl blk addr code ctx pri nd =
     (if \<not> nd_Valid nd then Some (nd, 0)
      else
        (case CreateSegment blk (m_NodeAddr nd) addr pri ctx msg_Control code of
           None \<Rightarrow> Some (nd, 0)
         | Some seg \<Rightarrow> node_transmit (Some (Options_set opt_Control seg, [])) nd))"

text \<open>
  The common part of \<open>SendBuf\<close> and \<open>SendDat\<close>: the payload is put into a stream whose segments bear the
  fields of the created one, by the encoder \<open>enc\<close>.
\<close>

definition send_encoded ::
  "octets option \<Rightarrow> octets \<Rightarrow> (nat \<Rightarrow> octets option) \<Rightarrow> (segstore stream \<Rightarrow> (segstore stream \<times> bool) option) \<Rightarrow>
   u32 \<Rightarrow> u8 \<Rightarrow> u8 \<Rightarrow> u32 \<Rightarrow> u8 \<Rightarrow> ('h, 'c) ipcnode \<Rightarrow> (('h, 'c) ipcnode \<times> u32) option" where
  "send_encoded blk tblk al enc addr type code ctx pri nd =
     (if \<not> nd_Valid nd then Some (nd, 0)
      else
        (case CreateSegment blk (m_NodeAddr nd) addr pri ctx type code of
           None \<Rightarrow> Some (nd, 0)
         | Some seg \<Rightarrow>
             (case enc (Template_set seg (IpcStreamSeg_new tblk al 0)) of
                None \<Rightarrow> None
              | Some (strm, False) \<Rightarrow> Some (nd, 0)
              | Some (strm, True) \<Rightarrow> node_transmit (chain_of (snd (SegmentExtract (Finalize strm)))) nd)))"

definition SendBuf ::
  "octets option \<Rightarrow> octets \<Rightarrow> (nat \<Rightarrow> octets option) \<Rightarrow> u32 \<Rightarrow> octets option \<Rightarrow> u8 \<Rightarrow> u8 \<Rightarrow> u32 \<Rightarrow> u8 \<Rightarrow>
   ('h, 'c) ipcnode \<Rightarrow> (('h, 'c) ipcnode \<times> u32) option" where
  "SendBuf blk tblk al addr pBuf type code ctx pri nd =
     (case pBuf of
        None \<Rightarrow> Some (nd, 0)
      | Some msg \<Rightarrow>
          if msg = [] then Some (nd, 0)
          else send_encoded blk tblk al
            (\<lambda>s. map_option (\<lambda>(s1, n). (s1, n = length msg)) (ArrayWr SegStream_vt s (Some msg)))
            addr type code ctx pri nd)"

text \<open>\<open>SendDat\<close>: \<open>enc\<close> is the encoding of the datum.\<close>

definition SendDat ::
  "octets option \<Rightarrow> octets \<Rightarrow> (nat \<Rightarrow> octets option) \<Rightarrow> u32 \<Rightarrow> (segstore stream \<Rightarrow> (segstore stream \<times> bool) option) \<Rightarrow> u8 \<Rightarrow> u32 \<Rightarrow> u8 \<Rightarrow>
   ('h, 'c) ipcnode \<Rightarrow> (('h, 'c) ipcnode \<times> u32) option" where
  "SendDat blk tblk al addr enc code ctx pri nd =
     send_encoded blk tblk al enc addr msg_Datum code ctx pri nd"

definition SendSeg :: "chain option \<Rightarrow> ('h, 'c) ipcnode \<Rightarrow> (('h, 'c) ipcnode \<times> u32) option" where
  "SendSeg pSeg nd = (if nd_Valid nd \<and> pSeg \<noteq> None then node_transmit pSeg nd else Some (nd, 0))"

definition nd_GetResponse :: "bool \<Rightarrow> u32 \<Rightarrow> ('h, 'c) ipcnode \<Rightarrow> ('h, 'c) ipcnode \<times> bool \<times> message option" where
  "nd_GetResponse ok mid nd =
     (case GetResponse ok mid (nd_AccumMap nd) of (am, rv, out) \<Rightarrow> (nd\<lparr>nd_AccumMap := am\<rparr>, rv, out))"

text \<open>
  One turn of the transmit thread: \<open>sent\<close> is the result of the transport's \<open>Send\<close>, which disposes of
  the segment in any case; the thread deletes it once more when the result is false. The result is
  the segment given to the transport, if any.
\<close>

definition XmitThread_turn :: "bool \<Rightarrow> ('h, 'c) ipcnode \<Rightarrow> (('h, 'c) ipcnode \<times> ipcsegment option) option" where
  "XmitThread_turn sent nd =
     (case SegmentGet (m_TransmitQueue nd) of
        (q, None) \<Rightarrow> Some (nd\<lparr>m_TransmitQueue := q\<rparr>, None)
      | (q, Some seg) \<Rightarrow> if sent then Some (nd\<lparr>m_TransmitQueue := q\<rparr>, Some seg) else None)"

text \<open>
  One turn of the receive thread: \<open>rcvd\<close> is the segment filled by a successful \<open>Recv\<close> of the transport.
  \<open>SubmitSegment\<close> has already deleted a segment it refuses when the thread deletes it.
\<close>

definition RecvThread_turn :: "ipcsegment option \<Rightarrow> ('h, 'c) ipcnode \<Rightarrow> ('h, 'c) ipcnode option" where
  "RecvThread_turn rcvd nd =
     (case rcvd of
        None \<Rightarrow> Some nd
      | Some seg \<Rightarrow>
          (case am_SubmitSegment (Some seg) (nd_AccumMap nd) of
             (am, True) \<Rightarrow> Some (nd\<lparr>nd_AccumMap := am\<rparr>)
           | (am, False) \<Rightarrow> None))"

section \<open>The header of an outgoing message\<close>

definition out_hdr :: "u32 \<Rightarrow> u32 \<Rightarrow> u8 \<Rightarrow> u32 \<Rightarrow> u8 \<Rightarrow> u8 \<Rightarrow> ipchdr" where
  "out_hdr src dst pri ctx type code =
     \<lparr>h_Ver = 0, h_Options = 0, h_Priority = min pri 3, h_FragNum = 0, h_SrcAddr = src, h_DstAddr = dst,
      h_MsgId = 0, h_Context = ctx, h_MsgType = type, h_CtlCode = code, h_DataLen = 0\<rparr>"

lemma Buf_LenGet_setters2 [simp]:
  "Buf_LenGet (m_Buffer (Priority_set v s)) = Buf_LenGet (m_Buffer s)"
  "Buf_LenGet (m_Buffer (SrcAddr_set w s)) = Buf_LenGet (m_Buffer s)"
  "Buf_LenGet (m_Buffer (DstAddr_set w s)) = Buf_LenGet (m_Buffer s)"
  "Buf_LenGet (m_Buffer (Context_set w s)) = Buf_LenGet (m_Buffer s)"
  "Buf_LenGet (m_Buffer (MsgType_set v s)) = Buf_LenGet (m_Buffer s)"
  "Buf_LenGet (m_Buffer (CtlCode_set v s)) = Buf_LenGet (m_Buffer s)"
  by (simp_all add: Priority_set_def SrcAddr_set_def DstAddr_set_def Context_set_def MsgType_set_def CtlCode_set_def Let_def)

lemma CreateSegment_spec:
  assumes "length b = 1024" "dst \<noteq> 0"
  shows "\<exists>seg. CreateSegment (Some b) src dst pri ctx type code = Some seg \<and> seg_full seg \<and>
    hdr seg = out_hdr src dst pri ctx type code"
proof -
  let ?s0 = "IpcSegment_new b"
  note n = new_spec [OF assms(1)]
  define s1 where "s1 = Priority_set pri ?s0"
  define s2 where "s2 = SrcAddr_set src s1"
  define s3 where "s3 = DstAddr_set dst s2"
  define s4 where "s4 = Context_set ctx s3"
  define s5 where "s5 = MsgType_set type s4"
  define s6 where "s6 = CtlCode_set code s5"
  have 1: "seg_sets (h_Priority_update (\<lambda>_. min pri 3)) ?s0 s1" using n Priority_set_sets by (simp add: s1_def)
  then have 2: "seg_sets (h_SrcAddr_update (\<lambda>_. src)) s1 s2" using Addr_set_sets(1) by (simp add: s2_def seg_sets_def)
  then have 3: "seg_sets (h_DstAddr_update (\<lambda>_. dst)) s2 s3" using Addr_set_sets(2) by (simp add: s3_def seg_sets_def)
  then have 4: "seg_sets (h_Context_update (\<lambda>_. ctx)) s3 s4" using Id_set_sets(2) by (simp add: s4_def seg_sets_def)
  then have 5: "seg_sets (h_MsgType_update (\<lambda>_. type)) s4 s5" using Code_set_sets(1) by (simp add: s5_def seg_sets_def)
  then have 6: "seg_sets (h_CtlCode_update (\<lambda>_. code)) s5 s6" using Code_set_sets(2) by (simp add: s6_def seg_sets_def)
  have "CreateSegment (Some b) src dst pri ctx type code = Some s6"
    using assms(2) by (simp add: CreateSegment_def s1_def s2_def s3_def s4_def s5_def s6_def)
  moreover have "hdr s6 = out_hdr src dst pri ctx type code"
    using 1 2 3 4 5 6 n by (simp add: seg_sets_def out_hdr_def)
  moreover have "seg_full s6"
    using 6 n by (simp add: seg_full_def seg_sets_def) (simp add: s1_def s2_def s3_def s4_def s5_def s6_def)
  ultimately show ?thesis by blast
qed

section \<open>Sending a message\<close>

lemma stamp_data:
  assumes "seg_full s"
  shows "seg_data (MsgId_set k s) = seg_data s" "DataLen (MsgId_set k s) = DataLen s"
proof -
  note f = MsgId_set_full [OF assms, of k]
  then have "h_DataLen (hdr (MsgId_set k s)) = h_DataLen ((hdr s)\<lparr>h_MsgId := k\<rparr>)" by metis
  then show "DataLen (MsgId_set k s) = DataLen s" by simp
  then show "seg_data (MsgId_set k s) = seg_data s" using f by (simp add: seg_data_def)
qed

lemma stamp_msg:
  assumes "msg_ok segs"
  shows "msg_ok (map (MsgId_set k) segs)" "msg_data (map (MsgId_set k) segs) = msg_data segs"
proof -
  have f: "seg_full s" if "s \<in> set segs" for s using assms that by (simp add: msg_ok_def)
  then show "msg_data (map (MsgId_set k) segs) = msg_data segs"
    unfolding msg_data_def map_map by (intro arg_cong [of _ _ concat] map_cong) (simp_all add: stamp_data)
  have dl: "DataLen (MsgId_set k s) = DataLen s" if "s \<in> set segs" for s using stamp_data(2) f that by simp
  then have "DataLen (MsgId_set k s) = DataLen s" if "s \<in> set (butlast segs)" for s using in_set_butlastD [OF that] by simp
  then show "msg_ok (map (MsgId_set k) segs)" using assms f MsgId_set_full [of _ k] dl
    by (cases "segs = []") (auto simp: msg_ok_def map_butlast [symmetric] last_map dest: in_set_butlastD)
qed

lemma stamp_hdrs:
  assumes "\<forall>s\<in>set segs. seg_full s" "map hdr segs = map (fin_hdr T n L) [0..<n]"
  shows "map hdr (map (MsgId_set k) segs) = map (fin_hdr (T\<lparr>h_MsgId := k\<rparr>) n L) [0..<n]"
proof -
  have "map hdr (map (MsgId_set k) segs) = map (h_MsgId_update (\<lambda>_. k)) (map hdr segs)"
    using assms(1) MsgId_set_full by simp
  then show ?thesis by (simp add: assms(2) fin_hdr_def)
qed

lemma chain_of_split: "segs \<noteq> [] \<Longrightarrow> chain_of segs = Some (hd segs, tl segs)"
  by (cases segs) simp_all

lemma send_encoded_spec:
  fixes nd :: "('h, 'c) ipcnode" and pri type code :: u8 and ctx :: u32
  assumes v: "nd_Valid nd" and q: "xq_ok (m_TransmitQueue nd)" and b: "length b = 1024" "length tblk = 1024"
    and al: "\<And>k. \<exists>m. al k = Some m \<and> length m = 1024" and dst: "dst \<noteq> 0" and msg: "msg \<noteq> []"
    and enc: "\<And>s0. filling (out_hdr (m_NodeAddr nd) dst pri ctx type code) [] s0 \<Longrightarrow>
      \<exists>s. enc s0 = Some (s, True) \<and> filling (out_hdr (m_NodeAddr nd) dst pri ctx type code) msg s"
  defines "T \<equiv> out_hdr (m_NodeAddr nd) dst pri ctx type code" and "n \<equiv> (length msg + 999) div 1000"
  shows "\<exists>q' mid segs. send_encoded (Some b) tblk al enc dst type code ctx pri nd = Some (nd\<lparr>m_TransmitQueue := q'\<rparr>, mid) \<and>
    mid \<noteq> 0 \<and> xq_ok q' \<and> msg_ok segs \<and> msg_data segs = msg \<and>
    map hdr segs = map (fin_hdr (T\<lparr>h_MsgId := mid\<rparr>) n (length msg - 1000 * (n - 1))) [0..<n] \<and>
    xq_flat q' = filter (\<lambda>s. Priority s \<le> min pri 3) (xq_flat (m_TransmitQueue nd)) @ segs @
      filter (\<lambda>s. min pri 3 < Priority s) (xq_flat (m_TransmitQueue nd))"
proof -
  obtain seg where seg: "CreateSegment (Some b) (m_NodeAddr nd) dst pri ctx type code = Some seg" "seg_full seg" "hdr seg = T"
    using CreateSegment_spec [OF b(1) dst] unfolding T_def by blast
  let ?s0 = "Template_set seg (IpcStreamSeg_new tblk al 0)"
  have f0: "filling T [] ?s0" using new_stream_filling [of tblk al, OF b(2) al seg(2)] seg(3) by simp
  from enc [folded T_def, OF f0] obtain s where s: "enc ?s0 = Some (s, True)" "filling T msg s" by blast
  let ?segs = "ss_segs (st (Finalize s))"
  note fin = finalized [OF s(2), folded n_def]
  have n0: "0 < n" using msg by (cases msg) (auto simp: n_def)
  have len: "length ?segs = n" using arg_cong [OF fin(1), of length] by simp
  then have ne: "?segs \<noteq> []" using n0 by auto
  have full: "\<forall>x\<in>set ?segs. seg_full x" using fin(2) by (simp add: msg_ok_def)
  have pri: "Priority x = min pri 3" if "x \<in> set ?segs" for x
  proof -
    have "hdr x \<in> set (map hdr ?segs)" using that by simp
    then obtain i where "hdr x = fin_hdr T n (length msg - 1000 * (n - 1)) i" by (auto simp: fin(1))
    from arg_cong [OF this, of h_Priority] show ?thesis by (simp add: hdr_def fin_hdr_def T_def out_hdr_def)
  qed
  have c: "chain_ok (hd ?segs, tl ?segs)" using full pri ne list.set_sel [of ?segs] by (auto simp: chain_ok_def)
  from Transmit_spec [OF q c] obtain q' mid where
    t: "TransmitMessage (Some (hd ?segs, tl ?segs)) (m_TransmitQueue nd) = Some (q', mid)" "mid \<noteq> 0" "xq_ok q'"
    "xq_flat q' = filter (\<lambda>s. Priority s \<le> Priority (hd ?segs)) (xq_flat (m_TransmitQueue nd)) @
      map (MsgId_set mid) (hd ?segs # tl ?segs) @ filter (\<lambda>s. Priority (hd ?segs) < Priority s) (xq_flat (m_TransmitQueue nd))"
    by auto
  have "send_encoded (Some b) tblk al enc dst type code ctx pri nd = Some (nd\<lparr>m_TransmitQueue := q'\<rparr>, mid)"
    using v seg(1) s(1) t(1) ne by (simp add: send_encoded_def node_transmit_def chain_of_split)
  moreover have "xq_flat q' = filter (\<lambda>s. Priority s \<le> min pri 3) (xq_flat (m_TransmitQueue nd)) @ map (MsgId_set mid) ?segs @
      filter (\<lambda>s. min pri 3 < Priority s) (xq_flat (m_TransmitQueue nd))"
    using t(4) ne pri [of "hd ?segs"] by simp
  ultimately show ?thesis using t(2,3) stamp_msg [OF fin(2), of mid] stamp_hdrs [OF full fin(1), of mid] fin(3)
    by (intro exI [of _ q'] exI [of _ mid] exI [of _ "map (MsgId_set mid) ?segs"]) simp
qed

lemma SendBuf_spec:
  fixes nd :: "('h, 'c) ipcnode" and pri type code :: u8 and ctx :: u32
  assumes v: "nd_Valid nd" and q: "xq_ok (m_TransmitQueue nd)" and b: "length b = 1024" "length tblk = 1024"
    and al: "\<And>k. \<exists>m. al k = Some m \<and> length m = 1024" and dst: "dst \<noteq> 0" and msg: "msg \<noteq> []"
  defines "T \<equiv> out_hdr (m_NodeAddr nd) dst pri ctx type code" and "n \<equiv> (length msg + 999) div 1000"
  shows "\<exists>q' mid segs. SendBuf (Some b) tblk al dst (Some msg) type code ctx pri nd = Some (nd\<lparr>m_TransmitQueue := q'\<rparr>, mid) \<and>
    mid \<noteq> 0 \<and> xq_ok q' \<and> msg_ok segs \<and> msg_data segs = msg \<and>
    map hdr segs = map (fin_hdr (T\<lparr>h_MsgId := mid\<rparr>) n (length msg - 1000 * (n - 1))) [0..<n] \<and>
    xq_flat q' = filter (\<lambda>s. Priority s \<le> min pri 3) (xq_flat (m_TransmitQueue nd)) @ segs @
      filter (\<lambda>s. min pri 3 < Priority s) (xq_flat (m_TransmitQueue nd))"
proof -
  let ?enc = "\<lambda>s. map_option (\<lambda>(s1, n). (s1, n = length msg)) (ArrayWr SegStream_vt s (Some msg))"
  have enc: "\<exists>s. ?enc s0 = Some (s, True) \<and> filling T msg s" if f0: "filling T [] s0" for s0
  proof -
    have w: "ss_msg T (st s0) \<and> s_wf seg_blocks s0" using f0 by (simp add: filling_def)
    from sm.ArrayWr_total [OF w, of msg] obtain s where
      "ArrayWr SegStream_vt s0 (Some msg) = Some (s, length msg)" by blast
    with seg_writes_spec [OF f0, of "[msg]"] show ?thesis by auto
  qed
  have "SendBuf (Some b) tblk al dst (Some msg) type code ctx pri nd = send_encoded (Some b) tblk al ?enc dst type code ctx pri nd"
    using msg by (simp add: SendBuf_def)
  with send_encoded_spec [OF v q b al dst msg, of pri ctx type code ?enc] enc show ?thesis unfolding T_def n_def by simp
qed

text \<open>The fields of the segments sent, and what a receiver makes of several of them.\<close>

lemma sent_fields:
  assumes "map hdr segs = map (fin_hdr ((out_hdr src dst pri ctx type code)\<lparr>h_MsgId := mid\<rparr>) n L) [0..<n]" and "x \<in> set segs"
  shows "SrcAddr x = src \<and> DstAddr x = dst \<and> MsgId x = mid \<and> Context x = ctx \<and> MsgType x = type \<and> CtlCode x = code"
proof -
  have "hdr x \<in> set (map hdr segs)" using assms(2) by simp
  then obtain i where h: "hdr x = fin_hdr ((out_hdr src dst pri ctx type code)\<lparr>h_MsgId := mid\<rparr>) n L i" by (auto simp: assms(1))
  have "h_SrcAddr (hdr x) = src" "h_DstAddr (hdr x) = dst" "h_MsgId (hdr x) = mid" "h_Context (hdr x) = ctx"
    "h_MsgType (hdr x) = type" "h_CtlCode (hdr x) = code"
    unfolding h by (simp_all add: fin_hdr_def out_hdr_def)
  then show ?thesis by (simp add: hdr_def)
qed

lemma sent_completed:
  fixes msg :: octets
  defines "n \<equiv> (length msg + 999) div 1000"
  assumes h: "map hdr segs = map (fin_hdr ((out_hdr src dst pri ctx type code)\<lparr>h_MsgId := mid\<rparr>) n (length msg - 1000 * (n - 1))) [0..<n]"
    and len: "1000 < length msg" "length msg \<le> 65535000"
    and xs: "mset (arrivals (Guid (hd segs)) xs) = mset segs" "m0 (Guid (hd segs)) = None"
  shows "completed (Guid (hd segs)) (snd (accum_run xs m0)) = [segs]"
proof -
  let ?T = "out_hdr src dst pri ctx type code"
  have "1 < n" "n < 2 ^ 16" using len by (simp_all add: n_def)
  then have m: "fin_msg (?T\<lparr>h_MsgId := mid\<rparr>) n (length msg - 1000 * (n - 1)) segs"
    using h by (simp add: fin_msg_def out_hdr_def)
  have sne: "segs \<noteq> []" using fin_msg_length [OF m] m by (auto simp: fin_msg_def)
  have g: "Guid x = Guid (hd segs)" if "x \<in> set segs" for x
    using fin_msg_Guid [OF m that] fin_msg_Guid [OF m hd_in_set [OF sne]] by simp
  obtain m1 log where r: "accum_run xs m0 = (m1, log)" by fastforce
  have "length (arrivals (Guid (hd segs)) xs) = n" using xs(1) fin_msg_length [OF m] by (metis size_mset)
  then show ?thesis using accum_run_own [OF m g xs(2) _ r] xs(1) r by simp
qed

text \<open>
  C1. From one node to another: \<open>SendBuf\<close> of a buffer of 1001 to 65535000 octets on a node whose
  transmit queue came about by any history of messages and deliveries returns a message number that is
  not 0 and puts segments with the node's address, the number and the requested fields in the queue,
  after everything of the same or a higher priority. A receiver to which those segments come, in any
  order and interleaved with any others, completes that message exactly once, and its segments
  injected in a stream read back as exactly the octets of the buffer.
\<close>

theorem IpcNode_delivers:
  assumes "nd_Valid nd" and "xq_reach (m_TransmitQueue nd)" and "length b = 1024" and "length tblk = 1024"
    and "\<And>k. \<exists>m. al k = Some m \<and> length m = 1024" and "dst \<noteq> 0"
    and "1000 < length msg" and "length msg \<le> 65535000"
  shows "\<exists>nd' mid segs.
    SendBuf (Some b) tblk al dst (Some msg) type code ctx pri nd = Some (nd', mid) \<and> mid \<noteq> 0 \<and>
    xq_flat (m_TransmitQueue nd') = filter (\<lambda>s. Priority s \<le> min pri 3) (xq_flat (m_TransmitQueue nd)) @ segs @
      filter (\<lambda>s. min pri 3 < Priority s) (xq_flat (m_TransmitQueue nd)) \<and>
    (\<forall>s\<in>set segs. SrcAddr s = m_NodeAddr nd \<and> DstAddr s = dst \<and> MsgId s = mid \<and> Context s = ctx \<and> MsgType s = type \<and>
      CtlCode s = code) \<and>
    (\<forall>xs m0. mset (arrivals (Guid (hd segs)) xs) = mset segs \<and> m0 (Guid (hd segs)) = None \<longrightarrow>
      completed (Guid (hd segs)) (snd (accum_run xs m0)) = [segs]) \<and>
    (\<forall>r. ss_inv (st r) \<longrightarrow> snd (ArrayRd SegStream_vt (SegmentInject segs r) (length msg)) = msg)"
proof -
  let ?T = "out_hdr (m_NodeAddr nd) dst pri ctx type code"
  define n where "n = (length msg + 999) div 1000"
  have ne: "msg \<noteq> []" using assms(7) by auto
  from SendBuf_spec [of nd b tblk al dst msg type code ctx pri, OF assms(1) xq_reach_ok [OF assms(2)] assms(3-6) ne]
  obtain q' mid segs where s:
    "SendBuf (Some b) tblk al dst (Some msg) type code ctx pri nd = Some (nd\<lparr>m_TransmitQueue := q'\<rparr>, mid)" "mid \<noteq> 0"
    "msg_ok segs" "msg_data segs = msg"
    "map hdr segs = map (fin_hdr (?T\<lparr>h_MsgId := mid\<rparr>) n (length msg - 1000 * (n - 1))) [0..<n]"
    "xq_flat q' = filter (\<lambda>s. Priority s \<le> min pri 3) (xq_flat (m_TransmitQueue nd)) @ segs @
      filter (\<lambda>s. min pri 3 < Priority s) (xq_flat (m_TransmitQueue nd))"
    unfolding n_def by blast
  have "completed (Guid (hd segs)) (snd (accum_run xs m0)) = [segs]"
    if "mset (arrivals (Guid (hd segs)) xs) = mset segs" "m0 (Guid (hd segs)) = None" for xs m0
    by (rule sent_completed [where msg = msg and segs = segs and ?m0.0 = m0 and xs = xs and mid = mid and src = "m_NodeAddr nd" and dst = dst
        and pri = pri and ctx = ctx and type = type and code = code]) (use that assms(7,8) in \<open>simp_all add: s(5) [unfolded n_def, simplified]\<close>)
  moreover have "snd (ArrayRd SegStream_vt (SegmentInject segs r) (length msg)) = msg" if "ss_inv (st r)" for r
    using Inject_read [OF that s(3)] s(4) by simp
  ultimately show ?thesis using s(1,2,6) sent_fields [OF s(5)]
    by (intro exI [of _ "nd\<lparr>m_TransmitQueue := q'\<rparr>"] exI [of _ mid] exI [of _ segs]) simp
qed

definition sample_node :: "(nat, nat) ipcnode" where
  "sample_node = \<lparr>nd_Valid = True, m_Flag1 = False, m_NodeAddr = 17, m_SemStart = SemLite_new True True 0 1,
     m_SemExit = SemLite_new True True 0 1, nd_AccumMap = IpcAccumMap_new, m_TransmitQueue = XmitQueue_new,
     m_AddrMap = (\<lambda>_. None), m_ResolverNodeName = ''R'', m_ResolverNodeAddr = 16\<rparr>"

theorem IpcNode_delivers_witness:
  "\<exists>nd' mid segs. SendBuf (Some (replicate 1024 0)) (replicate 1024 0) (\<lambda>_. Some (replicate 1024 9)) 18
      (Some (replicate 2001 7)) 0 5 0 1 sample_node = Some (nd', mid) \<and> mid \<noteq> 0 \<and>
    (\<forall>r. ss_inv (st r) \<longrightarrow> snd (ArrayRd SegStream_vt (SegmentInject segs r) 2001) = replicate 2001 7)"
proof -
  have "xq_reach (m_TransmitQueue sample_node)" "nd_Valid sample_node" by (simp_all add: sample_node_def xq_new)
  from IpcNode_delivers [OF this(2,1), of "replicate 1024 0" "replicate 1024 0" "\<lambda>_. Some (replicate 1024 9)" 18
    "replicate 2001 7" 0 5 0 1] show ?thesis by fastforce
qed

end
