(* ===== verification/StrUtil.thy ===== *)
theory StrUtil
  imports Prelude "HOL-Library.Monad_Syntax" "HOL-Library.Sublist"
begin

text \<open>
  The string functions of \<open>cpUtil\<close>: trimming, numbers and their decimal texts, tokens and lines,
  prefixes and suffixes, paths. A \<open>String\<close> is a HOL string; \<open>npos\<close> is \<open>None\<close>. The integer types are
  words; signed ones are read with \<open>sint\<close>. The number parsers are those of the C library in base
  10 with a 64 bit \<open>long\<close>. The text buffers of the number formatters are granted.
\<close>

section \<open>Searching\<close>

fun str_find :: "string \<Rightarrow> string \<Rightarrow> nat option" where
  "str_find [] d = (if d = [] then Some 0 else None)"
| "str_find (c # s) d = (if take (length d) (c # s) = d then Some 0 else map_option Suc (str_find s d))"

text \<open>The last occurrence, as \<open>rfind\<close> and \<open>find_last_of\<close> of one character.\<close>

fun str_rfind :: "string \<Rightarrow> string \<Rightarrow> nat option" where
  "str_rfind [] d = (if d = [] then Some 0 else None)"
| "str_rfind (c # s) d =
     (case str_rfind s d of
        Some i \<Rightarrow> Some (Suc i)
      | None \<Rightarrow> if take (length d) (c # s) = d then Some 0 else None)"

lemma str_find_Some: "str_find s d = Some i \<Longrightarrow> s = take i s @ d @ drop (i + length d) s \<and> i + length d \<le> length s"
proof (induction s arbitrary: i)
  case (Cons c s)
  show ?case
  proof (cases "take (length d) (c # s) = d")
    case True
    then have "i = 0" "length d \<le> length (c # s)" using Cons.prems by (simp, metis True nat_le_linear take_all length_take min.bounded_iff order_refl)
    then show ?thesis using True append_take_drop_id [of "length d" "c # s"] by simp
  next
    case False
    then obtain j where j: "i = Suc j" "str_find s d = Some j" using Cons.prems by auto
    then show ?thesis using Cons.IH [OF j(2)] by simp
  qed
qed (simp split: if_splits)

lemma str_find_None: "str_find s d = None \<Longrightarrow> s \<noteq> a @ d @ b"
proof (induction s arbitrary: a)
  case (Cons c s)
  have f: "take (length d) (c # s) \<noteq> d" "str_find s d = None" using Cons.prems by (auto split: if_splits)
  show ?case
  proof (cases a)
    case Nil
    then show ?thesis using f(1) by (auto dest: arg_cong [of _ _ "take (length d)"])
  next
    case (Cons x a')
    then show ?thesis using Cons.IH [OF f(2), of a'] by simp
  qed
qed (simp split: if_splits)

lemma str_find_sublist: "str_find s d = None \<longleftrightarrow> \<not> sublist d s"
proof
  assume "\<not> sublist d s"
  then show "str_find s d = None" using str_find_Some [of s d] by (metis not_Some_eq sublist_def)
qed (auto simp: sublist_def dest: str_find_None)

text \<open>The first occurrence is the one with the shortest text before it.\<close>

lemma str_find_first: "str_find s d = Some i \<Longrightarrow> j < i \<Longrightarrow> take (length d) (drop j s) \<noteq> d"
proof (induction s arbitrary: i j)
  case (Cons c s)
  then show ?case by (cases j) (auto split: if_splits)
qed (simp split: if_splits)

section \<open>Trimming\<close>

definition is_white :: "char \<Rightarrow> bool" where
  "is_white c \<longleftrightarrow> c = CHR '' '' \<or> c = CHR 0x09 \<or> c = CHR 0x0D \<or> c = CHR 0x0A"

text \<open>\<open>GenStr\<close>: the count is capped at 65535; a NUL character adds nothing.\<close>

definition GenStr :: "nat \<Rightarrow> char \<Rightarrow> string" where
  "GenStr Count Ch =
     (let n = (if Count > 65535 then 65535 else Count)
      in if Ch = CHR 0x00 then [] else replicate n Ch)"

definition Ltrim :: "string \<Rightarrow> string" where
  "Ltrim Str = dropWhile is_white Str"

text \<open>The loop of \<open>Rtrim\<close> from the position \<open>pos\<close> down.\<close>

fun rtrim_loop :: "string \<Rightarrow> nat \<Rightarrow> string" where
  "rtrim_loop Str 0 = []"
| "rtrim_loop Str (Suc pos) = (if is_white (Str ! pos) then rtrim_loop Str pos else take (Suc pos) Str)"

definition Rtrim :: "string \<Rightarrow> string" where
  "Rtrim Str = rtrim_loop Str (length Str)"

definition Lchomp :: "string \<Rightarrow> nat \<Rightarrow> string" where
  "Lchomp Str Count = (if length Str > Count then drop Count Str else [])"

definition Rchomp :: "string \<Rightarrow> nat \<Rightarrow> string" where
  "Rchomp Str Count = (if length Str > Count then take (length Str - Count) Str else [])"

lemma rtrim_loop_spec: "n \<le> length s \<Longrightarrow> rtrim_loop s n = rev (dropWhile is_white (rev (take n s)))"
  by (induction n) (auto simp: take_Suc_conv_app_nth)

lemma Rtrim_spec: "Rtrim s = rev (Ltrim (rev s))"
  by (simp add: Rtrim_def Ltrim_def rtrim_loop_spec)

lemma Ltrim_idem: "Ltrim (Ltrim s) = Ltrim s"
  by (induction s) (auto simp: Ltrim_def)

lemma Lchomp_Rchomp: "Lchomp (a @ b) (length a) = b" "Rchomp (a @ b) (length b) = a"
  by (auto simp: Lchomp_def Rchomp_def)

section \<open>Numbers\<close>

definition digit :: "nat \<Rightarrow> char" where "digit n = char_of (48 + n)"

definition is_digit :: "char \<Rightarrow> bool" where "is_digit c \<longleftrightarrow> 48 \<le> (of_char c :: nat) \<and> (of_char c :: nat) < 58"

definition digit_val :: "char \<Rightarrow> nat" where "digit_val c = of_char c - 48"

definition is_space :: "char \<Rightarrow> bool" where
  "is_space c \<longleftrightarrow> c = CHR '' '' \<or> 9 \<le> (of_char c :: nat) \<and> (of_char c :: nat) \<le> 13"

text \<open>
  What \<open>strtol\<close> and its kin read: white space, an optional sign, digits; the sign and the
  magnitude. They then saturate; the unsigned ones negate a magnitude that is in range.
\<close>

definition c_scan :: "string \<Rightarrow> bool \<times> nat" where
  "c_scan s =
     (let s1 = dropWhile is_space s;
          neg = (s1 \<noteq> [] \<and> hd s1 = CHR ''-'');
          s2 = (if s1 \<noteq> [] \<and> (hd s1 = CHR ''-'' \<or> hd s1 = CHR ''+'') then tl s1 else s1)
      in (neg, foldl (\<lambda>a c. 10 * a + digit_val c) 0 (takeWhile is_digit s2)))"

definition strtoll :: "string \<Rightarrow> u64" where
  "strtoll s = (case c_scan s of (neg, m) \<Rightarrow>
     word_of_int (if neg then max (- int m) (- (2 ^ 63)) else min (int m) (2 ^ 63 - 1)))"

definition strtoull :: "string \<Rightarrow> u64" where
  "strtoull s = (case c_scan s of (neg, m) \<Rightarrow>
     if m \<ge> 2 ^ 64 then - 1 else if neg then - of_nat m else of_nat m)"

definition StrToInt :: "string \<Rightarrow> u32" where "StrToInt Str = ucast (strtoll Str)"

definition StrToUint :: "string \<Rightarrow> u32" where "StrToUint Str = ucast (strtoull Str)"

definition StrToInt64 :: "string \<Rightarrow> u64" where "StrToInt64 Str = strtoll Str"

definition StrToUint64 :: "string \<Rightarrow> u64" where "StrToUint64 Str = strtoull Str"

definition StrToBool :: "string \<Rightarrow> bool" where
  "StrToBool Str =
     (if length Str > 0 then \<not> (hd Str = CHR ''0'' \<or> hd Str = CHR ''f'' \<or> hd Str = CHR ''F'') else False)"

text \<open>The decimal text of a number, as \<open>printf\<close> writes it.\<close>

fun dec :: "nat \<Rightarrow> string" where
  "dec n = (if n < 10 then [digit n] else dec (n div 10) @ [digit (n mod 10)])"

declare dec.simps [simp del]

definition dec_int :: "int \<Rightarrow> string" where
  "dec_int i = (if i < 0 then CHR ''-'' # dec (nat (- i)) else dec (nat i))"

definition IntToStr :: "u32 \<Rightarrow> string" where "IntToStr Val = dec_int (sint Val)"

definition UintToStr :: "u32 \<Rightarrow> string" where "UintToStr Val = dec (unat Val)"

definition Int64ToStr :: "u64 \<Rightarrow> string" where "Int64ToStr Val = dec_int (sint Val)"

definition Uint64ToStr :: "u64 \<Rightarrow> string" where "Uint64ToStr Val = dec (unat Val)"

definition BoolToStr :: "bool \<Rightarrow> string" where "BoolToStr Val = (if Val then ''true'' else ''false'')"

lemma of_char_digit: "n < 10 \<Longrightarrow> (of_char (digit n) :: nat) = 48 + n"
  by (simp add: digit_def)

lemma digit_simps [simp]: "n < 10 \<Longrightarrow> is_digit (digit n)" "n < 10 \<Longrightarrow> digit_val (digit n) = n"
  by (simp_all add: is_digit_def digit_val_def of_char_digit)

lemma digit_not_space: "is_digit c \<Longrightarrow> \<not> is_space c" "is_digit c \<Longrightarrow> c \<noteq> CHR ''-''" "is_digit c \<Longrightarrow> c \<noteq> CHR ''+''"
  by (auto simp: is_digit_def is_space_def)

lemma dec_digits: "\<forall>c\<in>set (dec n). is_digit c" "dec n \<noteq> []"
proof (induction n rule: dec.induct)
  case (1 n)
  {
    case 1
    then show ?case using "1.IH" by (subst dec.simps) auto
  next
    case 2
    then show ?case by (subst dec.simps) simp
  }
qed

lemma dec_val: "foldl (\<lambda>a c. 10 * a + digit_val c) 0 (dec n) = n"
proof (induction n rule: dec.induct)
  case (1 n)
  then show ?case by (subst dec.simps) auto
qed

lemma takeWhile_dec: "takeWhile is_digit (dec n) = dec n"
  using dec_digits(1) [of n] by simp

lemma c_scan_dec: "c_scan (dec n) = (False, n)" "c_scan (CHR ''-'' # dec n) = (True, n)"
proof -
  have h: "is_digit (hd (dec n))" using dec_digits [of n] by simp
  have d: "dropWhile is_space (dec n) = dec n"
    using dec_digits [of n] digit_not_space(1) by (cases "dec n") auto
  show "c_scan (dec n) = (False, n)"
    using h digit_not_space(2,3) [OF h] by (simp add: c_scan_def Let_def d takeWhile_dec dec_val dec_digits(2))
  show "c_scan (CHR ''-'' # dec n) = (True, n)"
    by (simp add: c_scan_def Let_def is_space_def takeWhile_dec dec_val)
qed

lemma strtoll_dec_int: "- (2 ^ 63) \<le> i \<Longrightarrow> i < 2 ^ 63 \<Longrightarrow> strtoll (dec_int i) = word_of_int i"
  by (cases "i < 0") (simp_all add: strtoll_def dec_int_def c_scan_dec max.absorb1 min.absorb1)

lemma ucast_word_of_int: "(ucast (word_of_int x :: u64) :: u32) = word_of_int x"
  by transfer (simp add: take_bit_take_bit)

lemma strtoull_dec: "n < 2 ^ 64 \<Longrightarrow> strtoull (dec n) = of_nat n"
  by (simp add: strtoull_def c_scan_dec)

lemma ucast_down: "(ucast (ucast u :: u64) :: u32) = u" for u :: u32
  by transfer (simp add: take_bit_take_bit)

text \<open>
  A number survives its decimal text: for every value of the 32 and 64 bit types, signed and
  unsigned, parsing what was formatted gives the value back.
\<close>

theorem number_round_trip:
  "StrToInt (IntToStr i) = i \<and> StrToUint (UintToStr u) = u \<and> StrToInt64 (Int64ToStr l) = l \<and>
    StrToUint64 (Uint64ToStr m) = m"
proof -
  have i: "- (2 ^ 63) \<le> sint i" "sint i < 2 ^ 63" using sint_ge [of i] sint_lt [of i] by simp_all
  have l: "- (2 ^ 63) \<le> sint l" "sint l < 2 ^ 63" using sint_ge [of l] sint_lt [of l] by simp_all
  have u: "unat u < 2 ^ 64" using unsigned_less [of u, where 'a = nat] by simp
  have m: "unat m < 2 ^ 64" using unsigned_less [of m, where 'a = nat] by simp
  have "StrToInt (IntToStr i) = i"
    by (simp only: StrToInt_def IntToStr_def strtoll_dec_int [OF i] ucast_word_of_int) simp
  moreover have "StrToUint (UintToStr u) = u" by (simp add: StrToUint_def UintToStr_def strtoull_dec [OF u] ucast_down)
  ultimately show ?thesis
    using strtoll_dec_int [OF l] strtoull_dec [OF m] by (simp add: StrToInt64_def Int64ToStr_def StrToUint64_def Uint64ToStr_def)
qed

section \<open>Tokens and lines\<close>

text \<open>With an empty delimiter the loop never gets on; then there is no result.\<close>

partial_function (option) tokenize_loop :: "string \<Rightarrow> string \<Rightarrow> string list \<Rightarrow> string list option" where
  "tokenize_loop remains Delim TokensOut =
     (if length remains = 0 then Some TokensOut
      else (case str_find remains Delim of
              Some n \<Rightarrow> tokenize_loop (drop (n + length Delim) remains) Delim (TokensOut @ [take n remains])
            | None \<Rightarrow> tokenize_loop [] Delim (TokensOut @ [remains])))"

definition Tokenize :: "string \<Rightarrow> string \<Rightarrow> string list option" where
  "Tokenize StringIn Delim = tokenize_loop StringIn Delim []"

text \<open>The loop of \<open>BufferToLines\<close>: the octets left, the line since \<open>start\<close>, and the lines so far.\<close>

fun lines_loop :: "string \<Rightarrow> string \<Rightarrow> string list \<Rightarrow> string list" where
  "lines_loop [] cur LinesOut = LinesOut"
| "lines_loop (c # rest) cur LinesOut =
     (if c = CHR 0x0A \<or> c = CHR 0x0D \<or> c = CHR 0x00 then
        let out1 = (if cur \<noteq> [] then LinesOut @ [cur] else if c \<noteq> CHR 0x00 then LinesOut @ [[]] else LinesOut)
        in if rest \<noteq> [] \<and> (c = CHR 0x0A \<and> hd rest = CHR 0x0D \<or> c = CHR 0x0D \<and> hd rest = CHR 0x0A)
           then lines_loop (tl rest) [] out1
           else lines_loop rest [] out1
      else lines_loop rest (cur @ [c]) (if rest = [] then LinesOut @ [cur @ [c]] else LinesOut))"

definition BufferToLines :: "string option \<Rightarrow> string list" where
  "BufferToLines pBufferIn = (case pBufferIn of None \<Rightarrow> [] | Some b \<Rightarrow> lines_loop b [] [])"

lemma tokenize_joins:
  assumes "Delim \<noteq> []"
  shows "\<exists>toks. tokenize_loop s Delim out = Some (out @ toks) \<and>
    (concat (map (\<lambda>t. t @ Delim) toks) = s \<or> concat (map (\<lambda>t. t @ Delim) toks) = s @ Delim) \<and>
    (\<forall>t\<in>set toks. \<not> sublist Delim t)"
proof (induction "length s" arbitrary: s out rule: less_induct)
  case less
  show ?case
  proof (cases "s = []")
    case True
    then show ?thesis by (subst tokenize_loop.simps) simp
  next
    case False
    show ?thesis
    proof (cases "str_find s Delim")
      case None
      have "tokenize_loop s Delim out = Some (out @ [s])"
        using None False by (simp add: tokenize_loop.simps [of s] tokenize_loop.simps [of "[]"])
      then show ?thesis using None by (intro exI [of _ "[s]"]) (simp add: str_find_sublist)
    next
      case (Some n)
      note f = str_find_Some [OF Some]
      let ?s = "drop (n + length Delim) s" and ?t = "take n s"
      have "length ?s < length s" using False assms f by (cases Delim) auto
      from less.hyps [OF this, of "out @ [?t]"] obtain toks where
        t: "tokenize_loop ?s Delim (out @ [?t]) = Some ((out @ [?t]) @ toks)"
          "concat (map (\<lambda>t. t @ Delim) toks) = ?s \<or> concat (map (\<lambda>t. t @ Delim) toks) = ?s @ Delim"
          "\<forall>t\<in>set toks. \<not> sublist Delim t" by blast
      have "\<not> sublist Delim ?t"
      proof
        assume "sublist Delim ?t"
        then obtain a b where ab: "?t = a @ Delim @ b" by (auto simp: sublist_def)
        have "length ?t \<le> n" by simp
        then have "length a < n" using ab assms by (cases Delim) auto
        moreover have "s = (a @ Delim @ b) @ drop n s" using ab by (metis append_take_drop_id)
        then have "take (length Delim) (drop (length a) s) = Delim"
          by (metis append.assoc append_eq_conv_conj)
        ultimately show False using str_find_first [OF Some] by blast
      qed
      moreover have "tokenize_loop s Delim out = Some (out @ ?t # toks)"
        using t(1) Some False by (simp add: tokenize_loop.simps [of s])
      moreover have "concat (map (\<lambda>t. t @ Delim) (?t # toks)) = s \<or> concat (map (\<lambda>t. t @ Delim) (?t # toks)) = s @ Delim"
      proof -
        have s: "?t @ Delim @ ?s = s" using f by simp
        have "concat (map (\<lambda>t. t @ Delim) (?t # toks)) = ?t @ Delim @ concat (map (\<lambda>t. t @ Delim) toks)" by simp
        moreover have "?t @ Delim @ ?s @ Delim = s @ Delim" using arg_cong [OF s, of "\<lambda>x. x @ Delim"] by simp
        ultimately show ?thesis using t(2) s by (elim disjE) simp_all
      qed
      ultimately show ?thesis using t(3) by (intro exI [of _ "?t # toks"]) simp
    qed
  qed
qed

lemma tokenize_stuck: "s \<noteq> [] \<Longrightarrow> tokenize_loop s [] out = None"
proof (rule ccontr)
  assume s: "s \<noteq> []" "tokenize_loop s [] out \<noteq> None"
  have n: "str_find s [] = Some 0" for s by (cases s) auto
  have "s = []" if "tokenize_loop s d out = Some y" "d = []" for s d out y
    using that
  proof (induction rule: tokenize_loop.raw_induct [rotated, consumes 1, case_names step])
    case (step f s d out y)
    then show ?case using n [of s] by (auto split: if_splits)
  qed
  then show False using s by blast
qed

text \<open>
  C35. \<open>Tokenize\<close> with a delimiter that is not empty returns the pieces between the delimiters: no
  token contains the delimiter, and the tokens followed each by a delimiter are the input, up to
  a delimiter at its end. With an empty delimiter it does not return, unless the input is empty.
\<close>

theorem Tokenize_joins:
  "(d \<noteq> [] \<longrightarrow> (\<exists>toks. Tokenize s d = Some toks \<and> (\<forall>t\<in>set toks. \<not> sublist d t) \<and>
     concat (map (\<lambda>t. t @ d) toks) \<in> {s, s @ d})) \<and>
   (d = [] \<longrightarrow> s \<noteq> [] \<longrightarrow> Tokenize s d = None)"
  using tokenize_joins [of d s "[]"] tokenize_stuck [of s "[]"] by (auto simp: Tokenize_def)

theorem Tokenize_joins_witness:
  "\<exists>toks. Tokenize ''a/b/'' ''/'' = Some toks \<and> concat (map (\<lambda>t. t @ ''/'') toks) \<in> {''a/b/'', ''a/b//''}"
  using Tokenize_joins [of "''/''" "''a/b/''"] by fastforce

definition is_eol :: "char \<Rightarrow> bool" where
  "is_eol c \<longleftrightarrow> c = CHR 0x0A \<or> c = CHR 0x0D \<or> c = CHR 0x00"

lemma lines_loop_clean:
  "list_all (\<lambda>l. list_all (\<lambda>c. \<not> is_eol c) l) out \<Longrightarrow> list_all (\<lambda>c. \<not> is_eol c) cur \<Longrightarrow>
    list_all (\<lambda>l. list_all (\<lambda>c. \<not> is_eol c) l) (lines_loop s cur out)"
proof (induction s cur out rule: lines_loop.induct)
  case (2 c rest cur out)
  define out1 where "out1 = (if cur \<noteq> [] then out @ [cur] else if c \<noteq> CHR 0x00 then out @ [[]] else out)"
  have o: "list_all (\<lambda>l. list_all (\<lambda>c. \<not> is_eol c) l) out1" using 2(4,5) by (simp add: out1_def)
  show ?case
  proof (cases "is_eol c")
    case True
    note e = True [unfolded is_eol_def]
    show ?thesis
    proof (cases "rest \<noteq> [] \<and> (c = CHR 0x0A \<and> hd rest = CHR 0x0D \<or> c = CHR 0x0D \<and> hd rest = CHR 0x0A)")
      case True
      have "lines_loop (c # rest) cur out = lines_loop (tl rest) [] out1" using e True by (simp add: out1_def Let_def)
      then show ?thesis using 2(1) [OF e out1_def True o] by simp
    next
      case False
      have "lines_loop (c # rest) cur out = lines_loop rest [] out1" by (subst lines_loop.simps) (use e False in \<open>simp only: out1_def Let_def if_True if_False\<close>)
      then show ?thesis using 2(2) [OF e out1_def False o] by simp
    qed
  next
    case False
    note e = False [unfolded is_eol_def]
    have "lines_loop (c # rest) cur out = lines_loop rest (cur @ [c]) (if rest = [] then out @ [cur @ [c]] else out)"
      by (subst lines_loop.simps) (use e in \<open>simp only: if_False\<close>)
    then show ?thesis using 2(3) [OF e] 2(4,5) False by simp
  qed
qed simp

lemma BufferToLines_clean:
  "l \<in> set (BufferToLines b) \<Longrightarrow> c \<in> set l \<Longrightarrow> \<not> is_eol c"
  using lines_loop_clean [of "[]" "[]"] by (auto simp: BufferToLines_def list_all_iff split: option.splits)

section \<open>Prefixes, suffixes and replacement\<close>

definition is_alnum :: "char \<Rightarrow> bool" where
  "is_alnum ch \<longleftrightarrow>
     (let n = of_char ch :: nat
      in 48 \<le> n \<and> n \<le> 57 \<or> 65 \<le> n \<and> n \<le> 90 \<or> 97 \<le> n \<and> n \<le> 122)"

definition CheckAlphaNumeric :: "string \<Rightarrow> bool" where
  "CheckAlphaNumeric Input = foldl (\<lambda>rv ch. rv \<and> is_alnum ch) (Input \<noteq> []) Input"

definition CheckAlphaNumericHU :: "string \<Rightarrow> bool" where
  "CheckAlphaNumericHU Input =
     foldl (\<lambda>rv ch. rv \<and> (is_alnum ch \<or> ch = CHR ''_'' \<or> ch = CHR ''-'')) (Input \<noteq> []) Input"

definition toupper :: "char \<Rightarrow> char" where
  "toupper c = (let n = of_char c :: nat in if 97 \<le> n \<and> n \<le> 122 then char_of (n - 32) else c)"

definition tolower :: "char \<Rightarrow> char" where
  "tolower c = (let n = of_char c :: nat in if 65 \<le> n \<and> n \<le> 90 then char_of (n + 32) else c)"

definition UpperCase :: "string \<Rightarrow> string" where "UpperCase Input = map toupper Input"

definition LowerCase :: "string \<Rightarrow> string" where "LowerCase Input = map tolower Input"

definition CheckPrefix :: "string \<Rightarrow> string \<Rightarrow> bool" where
  "CheckPrefix Input Prefix = (take (length Prefix) Input = Prefix)"

definition RemovePrefix :: "string \<Rightarrow> string \<Rightarrow> string" where
  "RemovePrefix Input Prefix =
     (if length Input \<ge> length Prefix then
        if str_find Input Prefix = Some 0 then drop (length Prefix) Input else Input
      else Input)"

definition CheckSuffix :: "string \<Rightarrow> string \<Rightarrow> bool" where
  "CheckSuffix Input Suffix =
     (let baseLen = (if length Input \<ge> length Suffix then length Input - length Suffix else 0)
      in take (length Suffix) (drop baseLen Input) = Suffix)"

definition RemoveSuffix :: "string \<Rightarrow> string \<Rightarrow> string" where
  "RemoveSuffix Input Suffix =
     (if length Input \<ge> length Suffix then
        let baseLen = length Input - length Suffix
        in if str_rfind Input Suffix = Some baseLen then take baseLen Input else Input
      else Input)"

text \<open>The replacement goes on until the substring does not occur, so it may not return.\<close>

partial_function (option) replace_loop :: "string \<Rightarrow> string \<Rightarrow> string \<Rightarrow> string option" where
  "replace_loop rv OrigSub NewSub =
     (case str_find rv OrigSub of
        Some pos \<Rightarrow> replace_loop (take pos rv @ NewSub @ drop (pos + length OrigSub) rv) OrigSub NewSub
      | None \<Rightarrow> Some rv)"

definition ReplaceSubString :: "string \<Rightarrow> string \<Rightarrow> string \<Rightarrow> string option" where
  "ReplaceSubString Input OrigSub NewSub =
     (if str_find NewSub OrigSub \<noteq> None then Some Input else replace_loop Input OrigSub NewSub)"

lemma CheckAlphaNumeric_spec: "CheckAlphaNumeric s \<longleftrightarrow> s \<noteq> [] \<and> (\<forall>c\<in>set s. is_alnum c)"
proof -
  have "foldl (\<lambda>rv ch. rv \<and> is_alnum ch) b s = (b \<and> (\<forall>c\<in>set s. is_alnum c))" for b
    by (induction s arbitrary: b) auto
  then show ?thesis by (simp add: CheckAlphaNumeric_def)
qed

lemma RemovePrefix_spec: "RemovePrefix (p @ s) p = s" "\<not> prefix p s \<Longrightarrow> RemovePrefix s p = s"
proof -
  have "take (length p) (p @ s) = p" by simp
  then have "str_find (p @ s) p = Some 0" by (cases "p @ s") auto
  then show "RemovePrefix (p @ s) p = s" by (simp add: RemovePrefix_def)
  show "RemovePrefix s p = s" if "\<not> prefix p s"
    using str_find_Some [of s p 0] that by (auto simp: RemovePrefix_def prefix_def)
qed

lemma RemoveSuffix_keeps: "\<not> suffix p s \<Longrightarrow> RemoveSuffix s p = s"
proof -
  have r: "str_rfind s d = Some i \<Longrightarrow> take (length d) (drop i s) = d" for s d i
  proof (induction s arbitrary: i)
    case (Cons c s)
    then show ?case by (auto split: option.splits if_splits)
  qed (simp split: if_splits)
  assume n: "\<not> suffix p s"
  show ?thesis
  proof (cases "length p \<le> length s \<and> str_rfind s p = Some (length s - length p)")
    case True
    then have "drop (length s - length p) s = p" using r [of s p] by fastforce
    then have "suffix p s" by (metis append_take_drop_id suffix_def)
    then show ?thesis using n by blast
  qed (simp add: RemoveSuffix_def Let_def)
qed

text \<open>When the replacement returns, no occurrence is left.\<close>

lemma replace_loop_clean: "replace_loop s d n = Some r \<Longrightarrow> \<not> sublist d r"
proof (induction rule: replace_loop.raw_induct [rotated, consumes 1, case_names step])
  case (step f s d n r)
  then show ?case by (auto simp: str_find_sublist split: option.splits)
qed

lemma str_find_bs: "str_find (replicate k CHR ''b'' @ ''ab'' @ r) ''ab'' = Some k"
  by (induction k) auto

definition bab_words :: "string set" where
  "bab_words = {replicate k CHR ''b'' @ ''abb'' @ replicate j CHR ''a'' | k j. True} \<union>
     {replicate k CHR ''b'' @ ''aab'' @ replicate j CHR ''a'' | k j. True}"

lemma bab_wordsI:
  "replicate k CHR ''b'' @ ''abb'' @ replicate j CHR ''a'' \<in> bab_words"
  "replicate k CHR ''b'' @ ''aab'' @ replicate j CHR ''a'' \<in> bab_words"
  unfolding bab_words_def by blast+

text \<open>
  The guard of \<open>ReplaceSubString\<close> is not enough: it lets through replacements that do not
  contain the replaced text but make new occurrences of it together with their surroundings, and
  then the function never returns.
\<close>

theorem ReplaceSubString_diverges:
  "str_find ''bbaa'' ''ab'' = None \<and> ReplaceSubString ''abb'' ''ab'' ''bbaa'' = None"
proof -
  have stp: "\<exists>pos. str_find s ''ab'' = Some pos \<and> take pos s @ ''bbaa'' @ drop (pos + 2) s \<in> bab_words" if "s \<in> bab_words" for s
  proof -
    from that consider (1) k j where "s = replicate k CHR ''b'' @ ''abb'' @ replicate j CHR ''a''"
      | (2) k j where "s = replicate k CHR ''b'' @ ''aab'' @ replicate j CHR ''a''" by (auto simp: bab_words_def)
    then show ?thesis
    proof cases
      case 1
      have "str_find s ''ab'' = Some k" using str_find_bs [of k "''b'' @ replicate j CHR ''a''"] 1 by simp
      moreover have "take k s @ ''bbaa'' @ drop (k + 2) s = replicate (k + 2) CHR ''b'' @ ''aab'' @ replicate j CHR ''a''"
        using 1 by (simp add: replicate_add flip: replicate_append_same)
      ultimately show ?thesis using bab_wordsI(2) [of "k + 2" j] by metis
    next
      case 2
      have f: "str_find (replicate m CHR ''b'' @ ''aab'' @ r) ''ab'' = Some (m + 1)" for m r by (induction m) auto
      have "take (k + 1) s @ ''bbaa'' @ drop (k + 1 + 2) s = replicate k CHR ''b'' @ ''abb'' @ replicate (j + 2) CHR ''a''"
        using 2 by (simp add: replicate_add)
      moreover have "str_find s ''ab'' = Some (k + 1)" using f [of k] 2 by simp
      ultimately show ?thesis using bab_wordsI(1) [of k "j + 2"] by (metis add.assoc one_add_one)
    qed
  qed
  have "s \<notin> bab_words" if "replace_loop s d v = Some y" "d = ''ab''" "v = ''bbaa''" for s d v y
    using that
  proof (induction rule: replace_loop.raw_induct [rotated, consumes 1, case_names step])
    case (step f s d v y)
    show ?case
    proof
      assume "s \<in> bab_words"
      then obtain pos where "str_find s ''ab'' = Some pos" "take pos s @ ''bbaa'' @ drop (pos + 2) s \<in> bab_words" using stp by blast
      then show False using step by auto
    qed
  qed
  moreover have "''abb'' \<in> bab_words"
    unfolding bab_words_def by (rule UnI1) (rule CollectI, rule exI [of _ 0], rule exI [of _ 0], simp)
  ultimately have "replace_loop ''abb'' ''ab'' ''bbaa'' = None" by (metis not_Some_eq)
  then show ?thesis by (simp add: ReplaceSubString_def)
qed

end
