(* ===== verification/PathUtil.thy ===== *)
theory PathUtil
  imports StrUtil
begin

text \<open>
  The path functions of \<open>cpUtil\<close>: creation of a path directory by directory, the components of
  a path, and its normal form. The path separator is the one of the POSIX platform. What
  \<open>DirCreate\<close> does to the file system is an argument.
\<close>

definition PathSep :: string where "PathSep = ''/''"

text \<open>The loop of \<open>PathCreate\<close>: the number of the element, the directory so far, the file system.\<close>

fun path_create_loop ::
  "('fs \<Rightarrow> string \<Rightarrow> 'fs \<times> bool) \<Rightarrow> bool \<Rightarrow> string list \<Rightarrow> string \<Rightarrow> 'fs \<Rightarrow> 'fs \<times> bool" where
  "path_create_loop DirCreate first [] directory fs = (fs, True)"
| "path_create_loop DirCreate first (e # rest) directory fs =
     (let directory1 = directory @ (if first \<and> length e = 0 then PathSep else e)
      in case DirCreate fs directory1 of
           (fs1, True) \<Rightarrow>
             path_create_loop DirCreate False rest (if directory1 \<noteq> PathSep then directory1 @ PathSep else directory1) fs1
         | (fs1, False) \<Rightarrow> (fs1, False))"

definition PathCreate :: "('fs \<Rightarrow> string \<Rightarrow> 'fs \<times> bool) \<Rightarrow> string \<Rightarrow> 'fs \<Rightarrow> ('fs \<times> bool) option" where
  "PathCreate DirCreate PathName fs =
     map_option (\<lambda>els. path_create_loop DirCreate True els [] fs) (Tokenize PathName PathSep)"

text \<open>The directory, the file name and the extension.\<close>

definition split_extension :: "string \<Rightarrow> string \<times> string" where
  "split_extension Filename =
     (case str_rfind Filename ''.'' of
        Some loc \<Rightarrow> if loc \<noteq> 0 then (take loc Filename, drop (loc + 1) Filename) else (Filename, [])
      | None \<Rightarrow> (Filename, []))"

definition GetPathComponents :: "string \<Rightarrow> string \<times> string \<times> string" where
  "GetPathComponents Path =
     (if Path = ''.'' \<or> Path = ''..'' \<or> Path = ''~'' then (Path, [], [])
      else
        (case str_rfind Path PathSep of
           None \<Rightarrow> ([], split_extension Path)
         | Some loc \<Rightarrow> (take (loc + 1) Path, split_extension (drop (loc + 1) Path))))"

text \<open>One step of \<open>NormalizePath\<close> on the list of elements.\<close>

definition norm_elem :: "string list \<Rightarrow> string \<Rightarrow> string list" where
  "norm_elem elementList e =
     (if e = ''.'' \<or> e = [] then elementList
      else if e = ''..'' then (if elementList \<noteq> [] then butlast elementList else elementList)
      else elementList @ [e])"

definition NormalizePath :: "string \<Rightarrow> string option" where
  "NormalizePath Path = do {
     elements \<leftarrow> Tokenize Path PathSep;
     Some (concat (map (\<lambda>e. PathSep @ e) (foldl norm_elem [] elements)))
   }"

section \<open>Components\<close>

lemma str_rfind_char: "str_rfind s [c] = Some i \<Longrightarrow> s = take i s @ c # drop (i + 1) s \<and> c \<notin> set (drop (i + 1) s)"
proof (induction s arbitrary: i)
  case (Cons x s)
  show ?case
  proof (cases "str_rfind s [c]")
    case None
    have "c \<notin> set s" using None
    proof (induction s)
      case (Cons y s)
      then show ?case by (auto split: option.splits if_splits)
    qed simp
    then show ?thesis using None Cons.prems by (auto split: if_splits)
  next
    case (Some j)
    then show ?thesis using Cons by auto
  qed
qed simp

text \<open>
  The components are the path cut into three: a directory that is empty or ends in the separator (or is
  one of the three special paths), a name without separator, and the extension after the last
  dot of the name, without the dot.
\<close>

lemma components_join:
  assumes "GetPathComponents p = (d, f, x)"
  shows "p = d @ f \<and> x = [] \<or> p = d @ f @ ''.'' @ x"
proof -
  have s: "n = a \<and> b = [] \<or> n = a @ ''.'' @ b" if "split_extension n = (a, b)" for n a b
    using that str_rfind_char [of n "CHR ''.''"] by (auto simp: split_extension_def split: option.splits if_splits)
  show ?thesis
  proof (cases "p = ''.'' \<or> p = ''..'' \<or> p = ''~''")
    case True
    then show ?thesis using assms by (auto simp: GetPathComponents_def)
  next
    case False
    show ?thesis
    proof (cases "str_rfind p PathSep")
      case None
      then show ?thesis using False assms s [of p f x] by (auto simp: GetPathComponents_def)
    next
      case (Some loc)
      then have "split_extension (drop (loc + 1) p) = (f, x)" "d = take (loc + 1) p"
        using False assms by (auto simp: GetPathComponents_def)
      then show ?thesis using s [of "drop (loc + 1) p" f x] append_take_drop_id [of "loc + 1" p] by metis
    qed
  qed
qed

section \<open>The normal form\<close>

definition plain_elem :: "string \<Rightarrow> bool" where
  "plain_elem e \<longleftrightarrow> e \<noteq> [] \<and> e \<noteq> ''.'' \<and> e \<noteq> ''..'' \<and> CHR ''/'' \<notin> set e"

lemma norm_elem_plain: "list_all plain_elem l \<Longrightarrow> CHR ''/'' \<notin> set e \<Longrightarrow> list_all plain_elem (norm_elem l e)"
  by (auto simp: norm_elem_def plain_elem_def list_all_iff dest: in_set_butlastD)

lemma norm_plain: "list_all plain_elem l \<Longrightarrow> \<forall>e\<in>set es. CHR ''/'' \<notin> set e \<Longrightarrow> list_all plain_elem (foldl norm_elem l es)"
  by (induction es arbitrary: l) (simp_all add: norm_elem_plain)

lemma norm_of_plain: "list_all plain_elem es \<Longrightarrow> foldl norm_elem l es = l @ es"
  by (induction es arbitrary: l) (simp_all add: norm_elem_def plain_elem_def)

lemma find_sep: "CHR ''/'' \<notin> set e \<Longrightarrow> str_find (e @ ''/'' @ r) ''/'' = Some (length e)"
  "CHR ''/'' \<notin> set e \<Longrightarrow> str_find e ''/'' = None"
  by (induction e) auto

lemma tokenize_step: "CHR ''/'' \<notin> set e \<Longrightarrow> tokenize_loop (e @ ''/'' @ r) ''/'' out = tokenize_loop r ''/'' (out @ [e])"
  using find_sep(1) [of e r] by (subst tokenize_loop.simps) simp

lemma tokenize_elems:
  "list_all (\<lambda>e. CHR ''/'' \<notin> set e) es \<Longrightarrow> es \<noteq> [] \<Longrightarrow> last es \<noteq> [] \<Longrightarrow> CHR ''/'' \<notin> set e0 \<Longrightarrow>
    tokenize_loop (e0 @ concat (map (\<lambda>e. CHR ''/'' # e) es)) ''/'' out = Some (out @ e0 # es)"
proof (induction es arbitrary: e0 out)
  case (Cons e es)
  have "tokenize_loop (e0 @ concat (map (\<lambda>e. CHR ''/'' # e) (e # es))) ''/'' out =
      tokenize_loop (e @ concat (map (\<lambda>e. CHR ''/'' # e) es)) ''/'' (out @ [e0])"
    using Cons.prems tokenize_step [of e0 "e @ concat (map (\<lambda>e. CHR ''/'' # e) es)"] by simp
  also have "\<dots> = Some ((out @ [e0]) @ e # es)"
  proof (cases es)
    case Nil
    then show ?thesis using Cons.prems find_sep(2) [of e] by (simp add: tokenize_loop.simps [of e] tokenize_loop.simps [of "[]"])
  next
    case (Cons x xs)
    then show ?thesis using Cons.IH [of e "out @ [e0]"] Cons.prems by simp
  qed
  finally show ?case by simp
qed simp

lemma tokens_no_sep: "Tokenize p ''/'' = Some es \<Longrightarrow> \<forall>e\<in>set es. CHR ''/'' \<notin> set e"
proof
  fix e assume t: "Tokenize p ''/'' = Some es" "e \<in> set es"
  from tokenize_joins [of "''/''" p "[]"] obtain toks where
    "tokenize_loop p ''/'' [] = Some toks" "\<forall>t\<in>set toks. \<not> sublist ''/'' t" by auto
  then have "\<not> sublist ''/'' e" using t by (auto simp: Tokenize_def)
  then show "CHR ''/'' \<notin> set e" by (metis split_list sublist_def append_Cons append_Nil)
qed

text \<open>
  \<open>NormalizePath\<close> returns the separator-led sequence of names that are not empty, \<open>.\<close> or \<open>..\<close> and
  contain no separator; a path of that form is returned as it is, so normalizing twice is the
  same as once.
\<close>

theorem NormalizePath_normal:
  "\<exists>es. NormalizePath p = Some (concat (map (\<lambda>e. CHR ''/'' # e) es)) \<and> list_all plain_elem es \<and>
    NormalizePath (concat (map (\<lambda>e. CHR ''/'' # e) es)) = NormalizePath p"
proof -
  from tokenize_joins [of "''/''" p "[]"] obtain toks where t: "Tokenize p ''/'' = Some toks"
    by (auto simp: Tokenize_def)
  define es where "es = foldl norm_elem [] toks"
  have p: "list_all plain_elem es" using norm_plain [of "[]" toks] tokens_no_sep [OF t] by (simp add: es_def)
  have n: "NormalizePath p = Some (concat (map (\<lambda>e. CHR ''/'' # e) es))"
    by (simp add: NormalizePath_def PathSep_def t es_def)
  moreover have "NormalizePath (concat (map (\<lambda>e. CHR ''/'' # e) es)) = Some (concat (map (\<lambda>e. CHR ''/'' # e) es))"
  proof (cases "es = []")
    case True
    then show ?thesis by (simp add: NormalizePath_def PathSep_def Tokenize_def tokenize_loop.simps)
  next
    case False
    have "last es \<noteq> []" "list_all (\<lambda>e. CHR ''/'' \<notin> set e) es"
      using p False by (auto simp: list_all_iff plain_elem_def dest: last_in_set)
    then have "Tokenize (concat (map (\<lambda>e. CHR ''/'' # e) es)) ''/'' = Some ([] # es)"
      using tokenize_elems [of es "[]" "[]"] False by (simp add: Tokenize_def)
    then show ?thesis using norm_of_plain [OF p, of "[]"] by (simp add: NormalizePath_def PathSep_def norm_elem_def)
  qed
  ultimately show ?thesis using p by auto
qed

end
