(* ===== verification/HexIo.thy ===== *)
theory HexIo
  imports StrUtil Buffer
begin

text \<open>
  \<open>cpHexIo\<close>: encoding of a buffer to formatted hexadecimal text and decoding of such text, and the
  hexadecimal dump of \<open>cpUtil\<close>. Texts are HOL strings; lengths do not overflow.
\<close>

section \<open>Digits\<close>

definition hex_digit :: "nat \<Rightarrow> char" where
  "hex_digit n = char_of (if n < 10 then 48 + n else 87 + n)"

definition is_hex :: "char \<Rightarrow> bool" where
  "is_hex c \<longleftrightarrow> (let n = of_char c :: nat in 48 \<le> n \<and> n \<le> 57 \<or> 65 \<le> n \<and> n \<le> 70 \<or> 97 \<le> n \<and> n \<le> 102)"

definition hex_val :: "char \<Rightarrow> nat" where
  "hex_val c = (let n = of_char c :: nat in if n \<le> 57 then n - 48 else if n \<le> 70 then n - 55 else n - 87)"

definition hex2 :: "u8 \<Rightarrow> string" where
  "hex2 b = [hex_digit (unat b div 16), hex_digit (unat b mod 16)]"

fun hexs :: "nat \<Rightarrow> string" where
  "hexs n = (if n < 16 then [hex_digit n] else hexs (n div 16) @ [hex_digit (n mod 16)])"

declare hexs.simps [simp del]

section \<open>Encoding\<close>

record hexcfg =
  f_groupLenMax :: nat
  f_groupLen :: nat
  f_lineLenMax :: nat
  f_lineLen :: nat
  f_preLine :: bool
  f_postLine :: bool
  f_preserve :: bool
  f_finalPass :: bool
  f_prefix :: string
  f_suffix :: string
  f_separator :: string

definition HexIoCfg_new :: hexcfg where
  "HexIoCfg_new =
     \<lparr>f_groupLenMax = 1, f_groupLen = 0, f_lineLenMax = 0, f_lineLen = 0, f_preLine = False, f_postLine = False,
      f_preserve = False, f_finalPass = True, f_prefix = [], f_suffix = [], f_separator = '' ''\<rparr>"

text \<open>The output text grows by a string, and the line length with it.\<close>

definition emit :: "string \<Rightarrow> string \<times> hexcfg \<Rightarrow> string \<times> hexcfg" where
  "emit x p = (fst p @ x, (snd p)\<lparr>f_lineLen := f_lineLen (snd p) + length x\<rparr>)"

definition group_end :: "string \<times> hexcfg \<Rightarrow> string \<times> hexcfg" where
  "group_end p =
     (let p1 = (fst p, (snd p)\<lparr>f_groupLen := 0\<rparr>)
      in if length (f_suffix (snd p)) > 0 then emit (f_suffix (snd p)) p1 else p1)"

definition group_start :: "bool \<Rightarrow> string \<times> hexcfg \<Rightarrow> string \<times> hexcfg" where
  "group_start Final p =
     (let Form = snd p;
          tokenLen = length (f_prefix Form) + 2 * f_groupLenMax Form + length (f_suffix Form);
          sepLen = length (f_separator Form);
          p1 = (if Final \<or> (f_lineLenMax Form > 0 \<and>
                     f_lineLen Form + tokenLen + (if f_postLine Form then sepLen else 0) > f_lineLenMax Form)
                 then (fst p @ (if f_postLine Form then f_separator Form else []) @ [CHR 0x0A], Form\<lparr>f_lineLen := 0\<rparr>)
                 else if f_lineLen Form > 0 then emit (f_separator Form) p else p)
      in if \<not> Final then
           let p2 = (if f_preLine Form \<and> f_lineLen (snd p1) = 0 then emit (f_separator Form) p1 else p1)
           in if length (f_prefix Form) > 0 then emit (f_prefix Form) p2 else p2
         else p1)"

definition FormatOutput :: "bool \<Rightarrow> string \<times> hexcfg \<Rightarrow> string \<times> hexcfg" where
  "FormatOutput Final p =
     (let p1 = (if Final \<or> f_groupLen (snd p) \<ge> f_groupLenMax (snd p) then group_end p else p)
      in if Final \<or> f_groupLen (snd p1) = 0 then group_start Final p1 else p1)"

definition encode_octet :: "string \<times> hexcfg \<Rightarrow> u8 \<Rightarrow> string \<times> hexcfg" where
  "encode_octet p b =
     (case emit (hex2 b) (FormatOutput False p) of
        (Output, Form) \<Rightarrow> (Output, Form\<lparr>f_groupLen := f_groupLen Form + 1\<rparr>))"

definition HexEncode :: "buffer \<Rightarrow> hexcfg \<Rightarrow> string \<times> hexcfg" where
  "HexEncode Input Form =
     (let F1 = (if f_groupLenMax Form = 0 then Form\<lparr>f_groupLenMax := 1\<rparr> else Form);
          F2 = (if f_preserve F1 then F1 else F1\<lparr>f_groupLen := 0, f_lineLen := 0\<rparr>);
          p = foldl encode_octet ([], F2) (buf_data Input)
      in if f_finalPass (snd p) then FormatOutput True p else p)"

section \<open>Decoding\<close>

text \<open>The digits of the octet under way, the octets written so far, and the size of the buffer.\<close>

fun hexdec :: "string \<Rightarrow> string \<Rightarrow> octets \<Rightarrow> nat \<Rightarrow> octets" where
  "hexdec [] element out sz = out"
| "hexdec (ch # rest) element out sz =
     (let el1 = (if (ch = CHR ''x'' \<or> ch = CHR ''X'') \<and> element = ''0'' then [] else element);
          el2 = (if is_hex ch then el1 @ [ch] else el1)
      in if length el2 = 2
         then hexdec rest [] (if sz > length out then out @ [of_nat (16 * hex_val (el2 ! 0) + hex_val (el2 ! 1))] else out) sz
         else hexdec rest el2 out sz)"

definition HexDecode :: "(nat \<Rightarrow> octets option) \<Rightarrow> string \<Rightarrow> buffer \<Rightarrow> buffer \<times> nat" where
  "HexDecode al Input Output =
     (let b = fst (Buf_Resize al (length Input div 2) Output);
          out = hexdec Input [] [] (Buf_Size b)
      in (Buf_LenSet (length out) (b\<lparr>m_PtrBlock := map_option (patch 0 out) (m_PtrBlock b)\<rparr>), length out))"

section \<open>The dump\<close>

definition set_width :: "nat \<Rightarrow> string \<Rightarrow> string" where
  "set_width w s = replicate (w - length s) CHR ''0'' @ s"

definition dump_char :: "u8 \<Rightarrow> char" where
  "dump_char c = (if 0x20 \<le> c \<and> c < 0x7f then char_of_octet c else CHR ''.'')"

definition dump_line :: "octets \<Rightarrow> nat \<Rightarrow> nat \<Rightarrow> string" where
  "dump_line Data line LineLen =
     set_width 4 (hexs line) @ '': '' @
     concat (map (\<lambda>i. if line + i < length Data then '' '' @ set_width 2 (hexs (unat (Data ! (line + i)))) else ''   '') [0..<LineLen]) @
     ''  '' @
     concat (map (\<lambda>i. if line + i < length Data then [dump_char (Data ! (line + i))] else []) [0..<LineLen]) @ [CHR 0x0A]"

text \<open>With a line length of 0 the dump of data never ends.\<close>

partial_function (option) dump_loop :: "octets \<Rightarrow> nat \<Rightarrow> nat \<Rightarrow> string \<Rightarrow> string option" where
  "dump_loop Data line LineLen Out =
     (if line < length Data then dump_loop Data (line + LineLen) LineLen (Out @ dump_line Data line LineLen) else Some Out)"

definition HexDump :: "octets option \<Rightarrow> nat \<Rightarrow> string option \<times> bool" where
  "HexDump Data LineLen = (case Data of None \<Rightarrow> (Some [], False) | Some d \<Rightarrow> (dump_loop d 0 LineLen [], True))"

section \<open>Round trip\<close>

lemma of_char_hex_digit: "n < 16 \<Longrightarrow> (of_char (hex_digit n) :: nat) = (if n < 10 then 48 + n else 87 + n)"
  by (auto simp: hex_digit_def)

lemma hex_digit_simps: "n < 16 \<Longrightarrow> is_hex (hex_digit n)" "n < 16 \<Longrightarrow> hex_val (hex_digit n) = n"
  "n < 16 \<Longrightarrow> hex_digit n \<noteq> CHR ''x''" "n < 16 \<Longrightarrow> hex_digit n \<noteq> CHR ''X''"
proof -
  have *: "c = d \<Longrightarrow> (of_char c :: nat) = of_char d" for c d :: char by simp
  assume n: "n < 16"
  show "is_hex (hex_digit n)" "hex_val (hex_digit n) = n"
    using of_char_hex_digit [OF n] n by (auto simp: is_hex_def hex_val_def Let_def)
  show "hex_digit n \<noteq> CHR ''x''" "hex_digit n \<noteq> CHR ''X''"
    using of_char_hex_digit [OF n] n by (auto dest!: * split: if_splits)
qed

text \<open>A text between octets that the decoder passes over.\<close>

definition skipped :: "string \<Rightarrow> bool" where
  "skipped x \<longleftrightarrow> (\<forall>r out sz. hexdec (x @ r) [] out sz = hexdec r [] out sz)"

lemma skipped_append: "skipped x \<Longrightarrow> skipped y \<Longrightarrow> skipped (x @ y)"
  by (simp add: skipped_def)

lemma skipped_Nil [simp]: "skipped []"
  by (simp add: skipped_def)

lemma skipped_neutral: "\<forall>c\<in>set x. \<not> is_hex c \<Longrightarrow> skipped x"
proof (induction x)
  case (Cons c x)
  then show ?case by (simp add: skipped_def)
qed simp

lemma skipped_0x: "skipped ''0x''"
  by (simp add: skipped_def is_hex_def Let_def)

lemma hexdec_hex2: "hexdec (hex2 b @ r) [] out sz = hexdec r [] (if sz > length out then out @ [b] else out) sz"
proof -
  have d: "unat b div 16 < 16" "unat b mod 16 < 16" using unat_u8_bound [of b] by (simp_all add: less_mult_imp_div_less)
  have "of_nat (16 * (unat b div 16) + unat b mod 16) = b" by simp
  then have v: "16 * word_of_nat (unat b div 16) + word_of_nat (unat b mod 16) = b"
    by (simp only: of_nat_add of_nat_mult of_nat_numeral)
  show ?thesis
    unfolding hex2_def using hex_digit_simps [OF d(1)] hex_digit_simps [OF d(2)] v
    by (simp del: mult_div_mod_eq div_mult_mod_eq)
qed

definition fmt_ok :: "hexcfg \<Rightarrow> bool" where
  "fmt_ok F \<longleftrightarrow> skipped (f_prefix F) \<and> skipped (f_suffix F) \<and> skipped (f_separator F)"

text \<open>What formatting adds: a skipped text; the configured texts stay.\<close>

definition fmt_step :: "string \<times> hexcfg \<Rightarrow> string \<times> hexcfg \<Rightarrow> bool" where
  "fmt_step p q \<longleftrightarrow> (\<exists>x. fst q = fst p @ x \<and> skipped x) \<and> fmt_ok (snd q)"

lemma fmt_trans: "fmt_step p q \<Longrightarrow> fmt_step q r \<Longrightarrow> fmt_step p r"
  by (auto simp: fmt_step_def intro: skipped_append)

lemma emit_step: "fmt_ok (snd p) \<Longrightarrow> skipped x \<Longrightarrow> fmt_step p (emit x p)"
  by (auto simp: fmt_step_def emit_def fmt_ok_def)

lemma fmt_refl: "fmt_ok (snd p) \<Longrightarrow> fmt_step p p"
  by (auto simp: fmt_step_def)

lemma fmt_ok_of: "fmt_step p q \<Longrightarrow> fmt_ok (snd q)"
  by (simp add: fmt_step_def)

lemma group_end_step: "fmt_ok (snd p) \<Longrightarrow> fmt_step p (group_end p)"
  by (auto simp: group_end_def fmt_step_def fmt_ok_def emit_def Let_def)

lemma newline_skipped: "skipped [CHR 0x0A]"
  by (rule skipped_neutral) (simp add: is_hex_def)

lemma break_step: "fmt_ok (snd p) \<Longrightarrow> fmt_step p (fst p @ (if c then f_separator (snd p) else []) @ [CHR 0x0A], (snd p)\<lparr>f_lineLen := 0\<rparr>)"
  using newline_skipped by (auto simp: fmt_step_def fmt_ok_def intro!: skipped_append)

lemma group_start_step: "fmt_ok (snd p) \<Longrightarrow> fmt_step p (group_start Final p)"
proof -
  assume ok: "fmt_ok (snd p)"
  define p1 where "p1 = (if Final \<or> (f_lineLenMax (snd p) > 0 \<and>
      f_lineLen (snd p) + (length (f_prefix (snd p)) + 2 * f_groupLenMax (snd p) + length (f_suffix (snd p))) +
        (if f_postLine (snd p) then length (f_separator (snd p)) else 0) > f_lineLenMax (snd p))
    then (fst p @ (if f_postLine (snd p) then f_separator (snd p) else []) @ [CHR 0x0A], (snd p)\<lparr>f_lineLen := 0\<rparr>)
    else if f_lineLen (snd p) > 0 then emit (f_separator (snd p)) p else p)"
  have sk: "skipped (f_separator (snd p))" "skipped (f_prefix (snd p))" using ok by (simp_all add: fmt_ok_def)
  have s1: "fmt_step p p1"
    unfolding p1_def using ok break_step [OF ok] emit_step [OF ok sk(1)] fmt_refl [OF ok] by auto
  define p2 where "p2 = (if f_preLine (snd p) \<and> f_lineLen (snd p1) = 0 then emit (f_separator (snd p)) p1 else p1)"
  have s2: "fmt_step p1 p2" unfolding p2_def using emit_step [OF fmt_ok_of [OF s1] sk(1)] fmt_refl [OF fmt_ok_of [OF s1]] by auto
  have s3: "fmt_step p2 (if length (f_prefix (snd p)) > 0 then emit (f_prefix (snd p)) p2 else p2)"
    using emit_step [OF fmt_ok_of [OF s2] sk(2)] fmt_refl [OF fmt_ok_of [OF s2]] by auto
  have "group_start Final p = (if \<not> Final then if length (f_prefix (snd p)) > 0 then emit (f_prefix (snd p)) p2 else p2 else p1)"
    by (simp only: group_start_def Let_def p1_def [symmetric] p2_def [symmetric])
  also have "fmt_step p \<dots>" using s1 fmt_trans [OF fmt_trans [OF s1 s2] s3] by (cases Final) simp_all
  finally show ?thesis .
qed

lemma FormatOutput_step:
  assumes "fmt_ok (snd p)" shows "fmt_step p (FormatOutput Final p)"
proof -
  define p1 where "p1 = (if Final \<or> f_groupLen (snd p) \<ge> f_groupLenMax (snd p) then group_end p else p)"
  have s: "fmt_step p p1" using group_end_step [OF assms] fmt_refl [OF assms] by (simp add: p1_def)
  have "FormatOutput Final p = (if Final \<or> f_groupLen (snd p1) = 0 then group_start Final p1 else p1)"
    by (simp only: FormatOutput_def Let_def p1_def)
  then show ?thesis using s fmt_trans [OF s group_start_step [OF fmt_ok_of [OF s]]] by simp
qed

definition decodes :: "string \<Rightarrow> octets \<Rightarrow> bool" where
  "decodes x d \<longleftrightarrow> 2 * length d \<le> length x \<and>
     (\<forall>r out sz. length out + length d \<le> sz \<longrightarrow> hexdec (x @ r) [] out sz = hexdec r [] (out @ d) sz)"

lemma decodes_dec: "decodes x d \<Longrightarrow> length out + length d \<le> sz \<Longrightarrow> hexdec (x @ r) [] out sz = hexdec r [] (out @ d) sz"
  by (simp add: decodes_def)

lemma decodes_append: "decodes x d \<Longrightarrow> decodes y e \<Longrightarrow> decodes (x @ y) (d @ e)"
  by (simp add: decodes_def)

lemma decodes_skipped: "skipped x \<Longrightarrow> decodes x []"
  by (simp add: decodes_def skipped_def)

lemma decodes_hex2: "decodes (hex2 b) [b]"
  by (simp add: decodes_def hexdec_hex2) (simp add: hex2_def)

lemma encode_octet_step:
  assumes "fmt_ok (snd p)"
  shows "\<exists>x. fst (encode_octet p b) = fst p @ x \<and> decodes x [b] \<and> fmt_ok (snd (encode_octet p b))"
proof -
  let ?q = "FormatOutput False p"
  from FormatOutput_step [OF assms, of False] obtain x where x: "fst ?q = fst p @ x" "skipped x" "fmt_ok (snd ?q)"
    by (auto simp: fmt_step_def)
  have "decodes (x @ hex2 b) [b]" using decodes_append [OF decodes_skipped [OF x(2)] decodes_hex2] by simp
  moreover have "fst (encode_octet p b) = fst p @ x @ hex2 b" "fmt_ok (snd (encode_octet p b))"
    using x(1,3) by (simp_all add: encode_octet_def emit_def fmt_ok_def)
  ultimately show ?thesis by blast
qed

lemma encode_octets_step:
  "fmt_ok (snd p) \<Longrightarrow> \<exists>x. fst (foldl encode_octet p d) = fst p @ x \<and> decodes x d \<and> fmt_ok (snd (foldl encode_octet p d))"
proof (induction d arbitrary: p)
  case Nil
  then show ?case using decodes_skipped [OF skipped_Nil] by simp
next
  case (Cons b d)
  from encode_octet_step [OF Cons.prems, of b] obtain x where
    x: "fst (encode_octet p b) = fst p @ x" "decodes x [b]" "fmt_ok (snd (encode_octet p b))" by blast
  from Cons.IH [OF x(3)] obtain y where
    y: "fst (foldl encode_octet (encode_octet p b) d) = (fst p @ x) @ y" "decodes y d"
      "fmt_ok (snd (foldl encode_octet (encode_octet p b) d))" unfolding x(1) by blast
  then show ?case using decodes_append [OF x(2) y(2)] by (intro exI [of _ "x @ y"]) simp
qed

lemma HexEncode_decodes:
  assumes "fmt_ok Form" shows "decodes (fst (HexEncode b Form)) (buf_data b)"
proof -
  define F1 where "F1 = (if f_groupLenMax Form = 0 then Form\<lparr>f_groupLenMax := 1\<rparr> else Form)"
  define F2 where "F2 = (if f_preserve F1 then F1 else F1\<lparr>f_groupLen := 0, f_lineLen := 0\<rparr>)"
  define p where "p = foldl encode_octet ([], F2) (buf_data b)"
  have "fmt_ok F2" using assms by (simp add: F2_def F1_def fmt_ok_def)
  then have p: "decodes (fst p) (buf_data b)" "fmt_ok (snd p)"
    using encode_octets_step [of "([], F2)" "buf_data b"] by (auto simp: p_def)
  have e: "HexEncode b Form = (if f_finalPass (snd p) then FormatOutput True p else p)"
    by (simp only: HexEncode_def Let_def p_def F2_def F1_def)
  from FormatOutput_step [OF p(2), of True] obtain x where "fst (FormatOutput True p) = fst p @ x" "skipped x"
    by (auto simp: fmt_step_def)
  then have "decodes (fst (FormatOutput True p)) (buf_data b)"
    using decodes_append [OF p(1) decodes_skipped] by fastforce
  then show ?thesis using p(1) e by simp
qed

context allocator
begin

lemma HexDecode_decodes:
  assumes x: "decodes x d" and al: "al (length x div 2) \<noteq> None \<or> d = []"
  shows "buf_data (fst (HexDecode al x b)) = d" "snd (HexDecode al x b) = length d"
proof -
  have "2 * length d \<le> length x" using x by (simp add: decodes_def)
  then have len: "length d \<le> length x div 2" by linarith
  have h: "hexdec x [] [] sz = d" if "length d \<le> sz" for sz
    using decodes_dec [OF x, of "[]" sz "[]"] that by simp
  have z: "d = [] \<Longrightarrow> hexdec x [] [] sz = d" for sz using h [of sz] by simp
  have "buf_data (fst (HexDecode al x b)) = d \<and> snd (HexDecode al x b) = length d"
  proof (rule Resize_cases [of "length x div 2" b])
    fix b' assume b': "Buf_Resize al (length x div 2) b = (b', True)" "length x div 2 \<le> Buf_Size b'"
      "length x div 2 = 0 \<or> m_PtrBlock b' \<noteq> None"
    have e: "hexdec x [] [] (Buf_Size b') = d" using h len b'(2) by simp
    show ?thesis
    proof (cases "m_PtrBlock b'")
      case None
      then show ?thesis using b' e len by (simp add: HexDecode_def Let_def Buf_LenSet_def buf_data_def)
    next
      case (Some m)
      then have "length d \<le> length m" using b'(2) len by (simp add: Buf_Size_def)
      then show ?thesis using Some b'(1) e
        by (simp add: HexDecode_def Let_def Buf_LenSet_def buf_data_def take_patch_0 patch_all)
    qed
  next
    assume r: "0 < length x div 2" "al (length x div 2) = None"
      "Buf_Resize al (length x div 2) b = (\<lparr>m_PtrBlock = None, m_DataLen = 0\<rparr>, False)"
    then have d: "d = []" using al by simp
    show ?thesis using r(3) z [OF d] d by (simp add: HexDecode_def Let_def Buf_LenSet_def buf_data_def)
  qed
  then show "buf_data (fst (HexDecode al x b)) = d" "snd (HexDecode al x b) = length d" by simp_all
qed

end

text \<open>
  C33. Hexadecimal text carries a buffer: whatever the grouping, line length, and separators of the
  format, as long as the separator and the suffix have no hexadecimal digits and the prefix has
  none either or is \<open>0x\<close>, decoding the text that was encoded gives back the data, when the manager
  grants the buffer.
\<close>

theorem HexIo_round_trip:
  assumes "\<forall>c\<in>set (f_separator Form) \<union> set (f_suffix Form). \<not> is_hex c"
    and "f_prefix Form = ''0x'' \<or> (\<forall>c\<in>set (f_prefix Form). \<not> is_hex c)"
    and "hist_alloc grant ops mem (length (fst (HexEncode src Form)) div 2) \<noteq> None"
  shows "buf_data (fst (HexDecode (hist_alloc grant ops mem) (fst (HexEncode src Form)) dst)) = buf_data src \<and>
    snd (HexDecode (hist_alloc grant ops mem) (fst (HexEncode src Form)) dst) = length (buf_data src)"
proof -
  have "fmt_ok Form" using assms(1,2) skipped_neutral skipped_0x by (auto simp: fmt_ok_def)
  from HexEncode_decodes [OF this, of src] show ?thesis using assms(3) mgr.HexDecode_decodes [of _ _ grant ops mem] by blast
qed

theorem HexIo_round_trip_witness:
  "buf_data (fst (HexDecode (hist_alloc (\<lambda>_. True) [] (\<lambda>_. 0))
    (fst (HexEncode (Buf_LenSet 2 \<lparr>m_PtrBlock = Some [0x1F, 2], m_DataLen = 0\<rparr>) (HexIoCfg_new\<lparr>f_prefix := ''0x''\<rparr>)))
    Buf_null)) = [0x1F, 2]"
proof -
  let ?b = "Buf_LenSet 2 \<lparr>m_PtrBlock = Some [0x1F, 2], m_DataLen = 0\<rparr>"
  have d: "buf_data ?b = [0x1F, 2]" by (simp add: Buf_LenSet_def buf_data_def)
  have t: "fst (HexEncode ?b (HexIoCfg_new\<lparr>f_prefix := ''0x''\<rparr>)) = ''0x1f 0x02'' @ [CHR 0x0A]"
    by (simp add: HexEncode_def d HexIoCfg_new_def encode_octet_def FormatOutput_def group_start_def group_end_def emit_def
        hex2_def hex_digit_def Let_def char_of_def bit_0)
  show ?thesis
    using HexIo_round_trip [of "HexIoCfg_new\<lparr>f_prefix := ''0x''\<rparr>" "\<lambda>_. True" "[]" "\<lambda>_. 0" ?b Buf_null] t d
    by (simp add: HexIoCfg_new_def is_hex_def Let_def hist_alloc_first)
qed

end
