(* ===== verification/Variant.thy ===== *)
theory Variant
  imports StrUtil ByteOrder Buffer
begin

text \<open>
  \<open>cpVariant\<close>: a value of one of several types in the raw memory of a buffer, in the byte order of
  the host. The environment \<open>venv\<close> is the host, the memory manager's delivery and the text that the C
  library's \<open>printf\<close> makes of a double. A \<open>float\<close> or \<open>double\<close> is the word of its memory image. A
  getter that would read through NULL, outside of the block, or convert a floating point value
  that does not fit has no result.
\<close>

section \<open>Types and state\<close>

datatype dtype = dt_inert | dt_none | dt_uint8 | dt_int8 | dt_uint16 | dt_int16 | dt_uint32 | dt_int32 |
  dt_uint64 | dt_int64 | dt_float32 | dt_float64 | dt_bool | dt_string | dt_blob | dt_DatumList

text \<open>The number of a type, as it is cast to an octet and back.\<close>

definition all_dtypes :: "dtype list" where
  "all_dtypes = [dt_inert, dt_none, dt_uint8, dt_int8, dt_uint16, dt_int16, dt_uint32, dt_int32,
     dt_uint64, dt_int64, dt_float32, dt_float64, dt_bool, dt_string, dt_blob, dt_DatumList]"

fun dtype_code :: "dtype \<Rightarrow> u8" where
  "dtype_code dt_inert = 0" | "dtype_code dt_none = 1" | "dtype_code dt_uint8 = 2" | "dtype_code dt_int8 = 3"
| "dtype_code dt_uint16 = 4" | "dtype_code dt_int16 = 5" | "dtype_code dt_uint32 = 6" | "dtype_code dt_int32 = 7"
| "dtype_code dt_uint64 = 8" | "dtype_code dt_int64 = 9" | "dtype_code dt_float32 = 10" | "dtype_code dt_float64 = 11"
| "dtype_code dt_bool = 12" | "dtype_code dt_string = 13" | "dtype_code dt_blob = 14" | "dtype_code dt_DatumList = 15"

definition dtype_of :: "u8 \<Rightarrow> dtype option" where
  "dtype_of c = (if unat c < length all_dtypes then Some (all_dtypes ! unat c) else None)"

record venv =
  e_host :: host
  e_al :: "nat \<Rightarrow> octets option"
  e_ftext :: "u64 \<Rightarrow> string"

record variant =
  v_Type :: dtype
  v_Buf :: buffer

section \<open>Setters\<close>

definition ResizeBuffer :: "venv \<Rightarrow> nat \<Rightarrow> variant \<Rightarrow> variant \<times> bool" where
  "ResizeBuffer E Size v =
     (if v_Type v \<noteq> dt_inert then
        (case Buf_Resize (e_al E) Size (v_Buf v) of
           (b, True) \<Rightarrow> (v\<lparr>v_Buf := Buf_LenSet Size b\<rparr>, True)
         | (b, False) \<Rightarrow> (v\<lparr>v_Buf := b\<rparr>, False))
      else (v, False))"

definition Variant_new :: "venv \<Rightarrow> bool \<Rightarrow> variant" where
  "Variant_new E Inert =
     fst (ResizeBuffer E 8 \<lparr>v_Type = (if Inert then dt_inert else dt_none), v_Buf = Buf_null\<rparr>)"

definition Variant_assign :: "venv \<Rightarrow> variant \<Rightarrow> variant \<Rightarrow> variant" where
  "Variant_assign E rhs v =
     (if v_Type v \<noteq> dt_inert then \<lparr>v_Type = v_Type rhs, v_Buf = Buf_assign (e_al E) (v_Buf rhs) (v_Buf v)\<rparr> else v)"

definition Variant_copy :: "venv \<Rightarrow> variant \<Rightarrow> variant" where
  "Variant_copy E rhs = Variant_assign E rhs \<lparr>v_Type = dt_none, v_Buf = Buf_null\<rparr>"

text \<open>A store through the pointer to the block, and the new type.\<close>

definition data_poke :: "dtype \<Rightarrow> octets \<Rightarrow> variant \<Rightarrow> variant" where
  "data_poke t d v = \<lparr>v_Type = t, v_Buf = (v_Buf v)\<lparr>m_PtrBlock := map_option (patch 0 d) (m_PtrBlock (v_Buf v))\<rparr>\<rparr>"

definition scalar_set :: "venv \<Rightarrow> dtype \<Rightarrow> octets \<Rightarrow> variant \<Rightarrow> variant" where
  "scalar_set E t d v =
     (case ResizeBuffer E (length d) v of (v1, True) \<Rightarrow> data_poke t d v1 | (v1, False) \<Rightarrow> v1)"

definition Uint8Set :: "venv \<Rightarrow> u8 \<Rightarrow> variant \<Rightarrow> variant" where "Uint8Set E Val = scalar_set E dt_uint8 (host_mem (e_host E) Val)"

definition Int8Set :: "venv \<Rightarrow> u8 \<Rightarrow> variant \<Rightarrow> variant" where "Int8Set E Val = scalar_set E dt_int8 (host_mem (e_host E) Val)"

definition Uint16Set :: "venv \<Rightarrow> u16 \<Rightarrow> variant \<Rightarrow> variant" where "Uint16Set E Val = scalar_set E dt_uint16 (host_mem (e_host E) Val)"

definition Int16Set :: "venv \<Rightarrow> u16 \<Rightarrow> variant \<Rightarrow> variant" where "Int16Set E Val = scalar_set E dt_int16 (host_mem (e_host E) Val)"

definition Uint32Set :: "venv \<Rightarrow> u32 \<Rightarrow> variant \<Rightarrow> variant" where "Uint32Set E Val = scalar_set E dt_uint32 (host_mem (e_host E) Val)"

definition Int32Set :: "venv \<Rightarrow> u32 \<Rightarrow> variant \<Rightarrow> variant" where "Int32Set E Val = scalar_set E dt_int32 (host_mem (e_host E) Val)"

definition Uint64Set :: "venv \<Rightarrow> u64 \<Rightarrow> variant \<Rightarrow> variant" where "Uint64Set E Val = scalar_set E dt_uint64 (host_mem (e_host E) Val)"

definition Int64Set :: "venv \<Rightarrow> u64 \<Rightarrow> variant \<Rightarrow> variant" where "Int64Set E Val = scalar_set E dt_int64 (host_mem (e_host E) Val)"

definition Float32Set :: "venv \<Rightarrow> u32 \<Rightarrow> variant \<Rightarrow> variant" where "Float32Set E Val = scalar_set E dt_float32 (host_mem (e_host E) Val)"

definition Float64Set :: "venv \<Rightarrow> u64 \<Rightarrow> variant \<Rightarrow> variant" where "Float64Set E Val = scalar_set E dt_float64 (host_mem (e_host E) Val)"

definition BoolSet :: "venv \<Rightarrow> bool \<Rightarrow> variant \<Rightarrow> variant" where
  "BoolSet E Val = scalar_set E dt_bool [if Val then 0x31 else 0x30]"

text \<open>Neither of these looks at the inert state.\<close>

definition StrSet :: "venv \<Rightarrow> string \<Rightarrow> variant \<Rightarrow> variant" where
  "StrSet E Str v = \<lparr>v_Type = dt_string, v_Buf = Buf_assign_String (e_al E) Str (v_Buf v)\<rparr>"

definition BufSet :: "venv \<Rightarrow> buffer \<Rightarrow> variant \<Rightarrow> variant" where
  "BufSet E Buf v = \<lparr>v_Type = dt_blob, v_Buf = Buf_assign (e_al E) Buf (v_Buf v)\<rparr>"

definition BufSet_mem :: "venv \<Rightarrow> octets option \<Rightarrow> variant \<Rightarrow> variant" where
  "BufSet_mem E pBuf v = \<lparr>v_Type = dt_blob, v_Buf = fst (Buf_CopyIn (e_al E) pBuf (v_Buf v))\<rparr>"

definition Variant_Clear :: "venv \<Rightarrow> variant \<Rightarrow> variant" where
  "Variant_Clear E v =
     (if v_Type v \<noteq> dt_inert then \<lparr>v_Type = dt_none, v_Buf = fst (Buf_Resize (e_al E) 0 (v_Buf v))\<rparr> else v)"

section \<open>Getters\<close>

definition DataBuffer :: "variant \<Rightarrow> octets option" where
  "DataBuffer v = Buf_u_str (v_Buf v) 0"

definition mem_word :: "venv \<Rightarrow> variant \<Rightarrow> 'a::len word option" where
  "mem_word E v =
     (case DataBuffer v of
        Some m \<Rightarrow> if LENGTH('a) div 8 \<le> length m then Some (host_word (e_host E) (take (LENGTH('a) div 8) m)) else None
      | None \<Rightarrow> None)"

text \<open>The C string in the block: it needs its terminator.\<close>

definition mem_cstr :: "variant \<Rightarrow> string option" where
  "mem_cstr v = (case DataBuffer v of Some m \<Rightarrow> if 0 \<in> set m then Some (of_octets (cstr m)) else None | None \<Rightarrow> None)"

text \<open>Truncation of an IEEE value with \<open>p\<close> fraction bits and \<open>k\<close> exponent bits to an unsigned 64 bit integer.\<close>

definition float_trunc :: "nat \<Rightarrow> nat \<Rightarrow> nat \<Rightarrow> u64 option" where
  "float_trunc p k bits =
     (let neg = bits div 2 ^ (p + k) mod 2 = 1;
          e = bits div 2 ^ p mod 2 ^ k;
          f = bits mod 2 ^ p;
          z = 2 ^ (k - 1) - 1 + p;
          m = (if e = 0 then 0 else if e \<ge> z then (2 ^ p + f) * 2 ^ (e - z) else (2 ^ p + f) div 2 ^ (z - e))
      in if e = 2 ^ k - 1 \<or> (neg \<and> m > 0) \<or> m \<ge> 2 ^ 64 then None else Some (of_nat m))"

definition Uint64Get :: "venv \<Rightarrow> variant \<Rightarrow> u64 option" where
  "Uint64Get E v =
     (case v_Type v of
        dt_uint8 \<Rightarrow> map_option ucast (mem_word E v :: u8 option)
      | dt_int8 \<Rightarrow> map_option ucast (mem_word E v :: u8 option)
      | dt_uint16 \<Rightarrow> map_option ucast (mem_word E v :: u16 option)
      | dt_int16 \<Rightarrow> map_option ucast (mem_word E v :: u16 option)
      | dt_uint32 \<Rightarrow> map_option ucast (mem_word E v :: u32 option)
      | dt_int32 \<Rightarrow> map_option ucast (mem_word E v :: u32 option)
      | dt_uint64 \<Rightarrow> mem_word E v
      | dt_int64 \<Rightarrow> mem_word E v
      | dt_float32 \<Rightarrow> Option.bind (mem_word E v :: u32 option) (\<lambda>b. float_trunc 23 8 (unat b))
      | dt_float64 \<Rightarrow> Option.bind (mem_word E v :: u64 option) (\<lambda>b. float_trunc 52 11 (unat b))
      | dt_bool \<Rightarrow> map_option (\<lambda>c :: u8. if c = 0x31 then 1 else 0) (mem_word E v)
      | dt_string \<Rightarrow> map_option (\<lambda>s. ucast (StrToUint s)) (mem_cstr v)
      | dt_blob \<Rightarrow> Some (of_nat (Buf_LenGet (v_Buf v)))
      | _ \<Rightarrow> Some 0)"

definition Uint8Get :: "venv \<Rightarrow> variant \<Rightarrow> u8 option" where "Uint8Get E v = map_option ucast (Uint64Get E v)"

definition Int8Get :: "venv \<Rightarrow> variant \<Rightarrow> u8 option" where "Int8Get E v = map_option ucast (Uint64Get E v)"

definition Uint16Get :: "venv \<Rightarrow> variant \<Rightarrow> u16 option" where "Uint16Get E v = map_option ucast (Uint64Get E v)"

definition Int16Get :: "venv \<Rightarrow> variant \<Rightarrow> u16 option" where "Int16Get E v = map_option ucast (Uint64Get E v)"

definition Uint32Get :: "venv \<Rightarrow> variant \<Rightarrow> u32 option" where "Uint32Get E v = map_option ucast (Uint64Get E v)"

definition Int32Get :: "venv \<Rightarrow> variant \<Rightarrow> u32 option" where "Int32Get E v = map_option ucast (Uint64Get E v)"

definition Int64Get :: "venv \<Rightarrow> variant \<Rightarrow> u64 option" where "Int64Get E v = Uint64Get E v"

text \<open>The floating point getters on their own type; the conversions to it are not modelled.\<close>

definition Float32Get_same :: "venv \<Rightarrow> variant \<Rightarrow> u32 option" where
  "Float32Get_same E v = (if v_Type v = dt_float32 then mem_word E v else None)"

definition Float64Get_same :: "venv \<Rightarrow> variant \<Rightarrow> u64 option" where
  "Float64Get_same E v = (if v_Type v = dt_float64 then mem_word E v else None)"

definition BoolGet :: "venv \<Rightarrow> variant \<Rightarrow> bool option" where
  "BoolGet E v =
     (case v_Type v of
        dt_uint8 \<Rightarrow> map_option (\<lambda>c :: u8. c > 0) (mem_word E v)
      | dt_int8 \<Rightarrow> map_option (\<lambda>c :: u8. c > 0) (mem_word E v)
      | dt_uint16 \<Rightarrow> map_option (\<lambda>c :: u16. c > 0) (mem_word E v)
      | dt_int16 \<Rightarrow> map_option (\<lambda>c :: u16. c > 0) (mem_word E v)
      | dt_uint32 \<Rightarrow> map_option (\<lambda>c :: u32. c > 0) (mem_word E v)
      | dt_int32 \<Rightarrow> map_option (\<lambda>c :: u32. c > 0) (mem_word E v)
      | dt_uint64 \<Rightarrow> map_option (\<lambda>c :: u64. c > 0) (mem_word E v)
      | dt_int64 \<Rightarrow> map_option (\<lambda>c :: u64. c > 0) (mem_word E v)
      | dt_float32 \<Rightarrow> map_option (\<lambda>b :: u32. 0x3F000000 < b \<and> b \<le> 0x7F800000) (mem_word E v)
      | dt_float64 \<Rightarrow> map_option (\<lambda>b :: u64. 0x3FE0000000000000 < b \<and> b \<le> 0x7FF0000000000000) (mem_word E v)
      | dt_bool \<Rightarrow> map_option (\<lambda>c :: u8. c = 0x31) (mem_word E v)
      | dt_string \<Rightarrow> map_option (\<lambda>c :: u8. c \<noteq> 0) (mem_word E v)
      | dt_blob \<Rightarrow> Some (Buf_LenGet (v_Buf v) > 0)
      | _ \<Rightarrow> Some False)"

text \<open>The double with the value of a float.\<close>

definition float_widen :: "u32 \<Rightarrow> u64" where
  "float_widen b =
     (let s = unat b div 2 ^ 31; e = unat b div 2 ^ 23 mod 2 ^ 8; f = unat b mod 2 ^ 23;
          r = (if e = 255 then 2047 * 2 ^ 52 + f * 2 ^ 29
               else if e > 0 then (e + 896) * 2 ^ 52 + f * 2 ^ 29
               else if f = 0 then 0
               else let k = length (takeWhile (\<lambda>i. 2 ^ i \<le> f) [0..<23])
                    in (873 + k) * 2 ^ 52 + f * 2 ^ (53 - k) mod 2 ^ 52)
      in of_nat (s * 2 ^ 63 + r))"

definition StrGet :: "venv \<Rightarrow> variant \<Rightarrow> string option" where
  "StrGet E v =
     (case v_Type v of
        dt_uint8 \<Rightarrow> map_option (\<lambda>c :: u8. UintToStr (ucast c)) (mem_word E v)
      | dt_int8 \<Rightarrow> map_option (\<lambda>c :: u8. IntToStr (scast c)) (mem_word E v)
      | dt_uint16 \<Rightarrow> map_option (\<lambda>c :: u16. UintToStr (ucast c)) (mem_word E v)
      | dt_int16 \<Rightarrow> map_option (\<lambda>c :: u16. IntToStr (scast c)) (mem_word E v)
      | dt_uint32 \<Rightarrow> map_option UintToStr (mem_word E v)
      | dt_int32 \<Rightarrow> map_option IntToStr (mem_word E v)
      | dt_uint64 \<Rightarrow> map_option (\<lambda>c :: u64. UintToStr (ucast c)) (mem_word E v)
      | dt_int64 \<Rightarrow> map_option (\<lambda>c :: u64. IntToStr (ucast c)) (mem_word E v)
      | dt_float32 \<Rightarrow> map_option (\<lambda>b. e_ftext E (float_widen b)) (mem_word E v)
      | dt_float64 \<Rightarrow> map_option (e_ftext E) (mem_word E v)
      | dt_bool \<Rightarrow> map_option (\<lambda>c :: u8. if c = 0x31 then ''1'' else ''0'') (mem_word E v)
      | dt_string \<Rightarrow> (if DataBuffer v \<noteq> None then mem_cstr v else Some [])
      | dt_blob \<Rightarrow> (if DataBuffer v \<noteq> None then mem_cstr v else Some [])
      | _ \<Rightarrow> Some [])"

section \<open>Values\<close>

text \<open>
  The abstract values, and the octets that represent them; the types without a value have any. An
  environment is good when the manager grants every request below 4 GB.
\<close>

datatype vval = V_none | V_u8 u8 | V_i8 u8 | V_u16 u16 | V_i16 u16 | V_u32 u32 | V_i32 u32 | V_u64 u64 | V_i64 u64 |
  V_f32 u32 | V_f64 u64 | V_bool bool | V_str octets | V_blob octets

fun vtype :: "vval \<Rightarrow> dtype" where
  "vtype V_none = dt_none" | "vtype (V_u8 _) = dt_uint8" | "vtype (V_i8 _) = dt_int8" | "vtype (V_u16 _) = dt_uint16"
| "vtype (V_i16 _) = dt_int16" | "vtype (V_u32 _) = dt_uint32" | "vtype (V_i32 _) = dt_int32" | "vtype (V_u64 _) = dt_uint64"
| "vtype (V_i64 _) = dt_int64" | "vtype (V_f32 _) = dt_float32" | "vtype (V_f64 _) = dt_float64" | "vtype (V_bool _) = dt_bool"
| "vtype (V_str _) = dt_string" | "vtype (V_blob _) = dt_blob"

fun vdata :: "host \<Rightarrow> vval \<Rightarrow> octets \<Rightarrow> bool" where
  "vdata h V_none d = True" | "vdata h (V_u8 w) d = (d = host_mem h w)" | "vdata h (V_i8 w) d = (d = host_mem h w)"
| "vdata h (V_u16 w) d = (d = host_mem h w)" | "vdata h (V_i16 w) d = (d = host_mem h w)"
| "vdata h (V_u32 w) d = (d = host_mem h w)" | "vdata h (V_i32 w) d = (d = host_mem h w)"
| "vdata h (V_u64 w) d = (d = host_mem h w)" | "vdata h (V_i64 w) d = (d = host_mem h w)"
| "vdata h (V_f32 w) d = (d = host_mem h w)" | "vdata h (V_f64 w) d = (d = host_mem h w)"
| "vdata h (V_bool b) d = (d = [if b then 0x31 else 0x30])" | "vdata h (V_str s) d = (d = s @ [0] \<and> 0 \<notin> set s)"
| "vdata h (V_blob x) d = (d = x)"

definition has :: "venv \<Rightarrow> variant \<Rightarrow> vval \<Rightarrow> bool" where
  "has E v x \<longleftrightarrow> v_Type v = vtype x \<and> buf_ok (v_Buf v) \<and> m_DataLen (v_Buf v) < 2 ^ 32 \<and> vdata (e_host E) x (buf_data (v_Buf v))"

definition env_ok :: "venv \<Rightarrow> bool" where
  "env_ok E \<longleftrightarrow> allocator (e_al E) \<and> (\<forall>n. n < 2 ^ 32 \<longrightarrow> e_al E n \<noteq> None)"

lemma env_ok_manager: "env_ok \<lparr>e_host = h, e_al = hist_alloc (\<lambda>_. True) [] mem, e_ftext = f\<rparr>"
  using mgr.allocator_axioms [of "\<lambda>_. True" "[]" mem] by (simp add: env_ok_def hist_alloc_first)

lemma Resize_granted:
  assumes "env_ok E" "n < 2 ^ 32"
  obtains b' where "Buf_Resize (e_al E) n b = (b', True)" "n \<le> Buf_Size b'" "n = 0 \<or> m_PtrBlock b' \<noteq> None"
    "m_DataLen b' = m_DataLen b \<and> b' = b \<or> m_DataLen b' = 0"
proof -
  have a: "allocator (e_al E)" using assms by (simp add: env_ok_def)
  show thesis using assms by (cases rule: allocator.Resize_cases [OF a, of n b]) (auto simp: env_ok_def intro: that)
qed

lemma data_nonempty: "buf_data b \<noteq> [] \<Longrightarrow> m_PtrBlock b \<noteq> None"
  by (auto simp: buf_data_def split: option.splits)

lemma length_buf_data: "buf_ok b \<Longrightarrow> length (buf_data b) = m_DataLen b"
  by (auto simp: buf_ok_def buf_data_def Buf_Size_def split: option.splits)

lemma scalar_set_data:
  assumes "env_ok E" "v_Type v \<noteq> dt_inert" "d \<noteq> []" "length d < 2 ^ 32"
  shows "v_Type (scalar_set E t d v) = t" "buf_ok (v_Buf (scalar_set E t d v))" "buf_data (v_Buf (scalar_set E t d v)) = d"
    "m_DataLen (v_Buf (scalar_set E t d v)) = length d"
proof -
  from Resize_granted [OF assms(1,4), of "v_Buf v"] obtain b where
    b: "Buf_Resize (e_al E) (length d) (v_Buf v) = (b, True)" "length d \<le> Buf_Size b" "length d = 0 \<or> m_PtrBlock b \<noteq> None" by blast
  then obtain m where m: "m_PtrBlock b = Some m" "length d \<le> length m" using assms(3) by (auto simp: Buf_Size_def)
  have "scalar_set E t d v = data_poke t d (v\<lparr>v_Buf := Buf_LenSet (length d) b\<rparr>)"
    using assms(2) b(1) by (simp add: scalar_set_def ResizeBuffer_def)
  also have "\<dots> = \<lparr>v_Type = t, v_Buf = \<lparr>m_PtrBlock = Some (patch 0 d m), m_DataLen = length d\<rparr>\<rparr>"
    using m by (simp add: data_poke_def Buf_LenSet_def)
  finally have e: "scalar_set E t d v = \<lparr>v_Type = t, v_Buf = \<lparr>m_PtrBlock = Some (patch 0 d m), m_DataLen = length d\<rparr>\<rparr>" .
  show "v_Type (scalar_set E t d v) = t" "buf_ok (v_Buf (scalar_set E t d v))" "buf_data (v_Buf (scalar_set E t d v)) = d"
    "m_DataLen (v_Buf (scalar_set E t d v)) = length d"
    using m(2) by (simp_all add: e buf_ok_def Buf_Size_def buf_data_def take_patch_0)
qed

lemma host_mem_ne: "16 \<le> LENGTH('a) \<or> LENGTH('a) = 8 \<Longrightarrow> host_mem h (w :: 'a::len word) \<noteq> []"
proof -
  assume "16 \<le> LENGTH('a) \<or> LENGTH('a) = 8"
  then have "0 < LENGTH('a) div 8" by auto
  then show ?thesis by (metis length_host_mem length_greater_0_conv)
qed

lemma setters_has:
  assumes "env_ok E" "v_Type v \<noteq> dt_inert"
  shows "has E (Uint8Set E w8 v) (V_u8 w8)" "has E (Int8Set E w8 v) (V_i8 w8)"
    "has E (Uint16Set E w16 v) (V_u16 w16)" "has E (Int16Set E w16 v) (V_i16 w16)"
    "has E (Uint32Set E w32 v) (V_u32 w32)" "has E (Int32Set E w32 v) (V_i32 w32)"
    "has E (Uint64Set E w64 v) (V_u64 w64)" "has E (Int64Set E w64 v) (V_i64 w64)"
    "has E (Float32Set E w32 v) (V_f32 w32)" "has E (Float64Set E w64 v) (V_f64 w64)" "has E (BoolSet E b v) (V_bool b)"
  using scalar_set_data [OF assms] host_mem_ne [of "e_host E" w8] host_mem_ne [of "e_host E" w16] host_mem_ne [of "e_host E" w32]
    host_mem_ne [of "e_host E" w64]
  by (simp_all add: has_def Uint8Set_def Int8Set_def Uint16Set_def Int16Set_def Uint32Set_def Int32Set_def Uint64Set_def
      Int64Set_def Float32Set_def Float64Set_def BoolSet_def)

lemma assign_granted:
  assumes "env_ok E" "buf_ok r" "m_DataLen r < 2 ^ 32"
  shows "buf_data (Buf_assign (e_al E) r b) = buf_data r" "buf_ok (Buf_assign (e_al E) r b)" "m_DataLen (Buf_assign (e_al E) r b) = m_DataLen r"
proof -
  have a: "allocator (e_al E)" "e_al E (m_DataLen r) \<noteq> None" using assms by (auto simp: env_ok_def)
  show d: "buf_data (Buf_assign (e_al E) r b) = buf_data r" using allocator.assign_data [OF a(1) assms(2) a(2)] .
  from Resize_granted [OF assms(1,3), of b] obtain b' where
    b': "Buf_Resize (e_al E) (m_DataLen r) b = (b', True)" "m_DataLen r \<le> Buf_Size b'" by blast
  then show "m_DataLen (Buf_assign (e_al E) r b) = m_DataLen r"
    by (auto simp: Buf_assign_def Let_def split: option.splits)
  show "buf_ok (Buf_assign (e_al E) r b)"
    using b' assms(2) by (auto simp: Buf_assign_def Let_def buf_ok_def Buf_Size_def split: option.splits)
qed

lemma assign_has:
  assumes "env_ok E" "v_Type v \<noteq> dt_inert" "has E r x"
  shows "has E (Variant_assign E r v) x"
  using assms assign_granted [OF assms(1), of "v_Buf r" "v_Buf v"] by (simp add: has_def Variant_assign_def)

lemma copy_has: "env_ok E \<Longrightarrow> has E r x \<Longrightarrow> has E (Variant_copy E r) x"
  using assign_has [of E "\<lparr>v_Type = dt_none, v_Buf = Buf_null\<rparr>" r x] by (simp add: Variant_copy_def)

lemma BufSet_has:
  assumes "env_ok E" "buf_ok r" "m_DataLen r < 2 ^ 32"
  shows "has E (BufSet E r v) (V_blob (buf_data r))"
  using assign_granted [OF assms, of "v_Buf v"] assms(3) by (simp add: has_def BufSet_def)

lemma cstr_to_octets: "cstr (to_octets s @ [0]) = cstr (to_octets s)"
  by (induction s) (auto simp: cstr_def to_octets_def)

lemma StrSet_has:
  assumes "env_ok E" "length s < 2 ^ 32 - 1"
  shows "has E (StrSet E s v) (V_str (cstr (to_octets s)))"
proof -
  let ?c = "cstr (to_octets s)"
  have "length ?c \<le> length s" unfolding cstr_def using length_takeWhile_le [of "\<lambda>b. b \<noteq> 0" "to_octets s"] by simp
  then have l: "length ?c + 1 < 2 ^ 32" using assms(2) by simp
  have a: "allocator (e_al E)" "e_al E (length ?c + 1) \<noteq> None" using assms(1) l by (auto simp: env_ok_def)
  have d: "buf_data (Buf_assign_String (e_al E) s (v_Buf v)) = ?c @ [0]"
    using allocator.assign_cstr_data [OF a(1), of "to_octets s @ [0]" "v_Buf v"] a(2) by (simp add: Buf_assign_String_def cstr_to_octets)
  from Resize_granted [OF assms(1) l, of "v_Buf v"] obtain b where
    "Buf_Resize (e_al E) (length ?c + 1) (v_Buf v) = (b, True)" "length ?c + 1 \<le> Buf_Size b" "length ?c + 1 = 0 \<or> m_PtrBlock b \<noteq> None" by blast
  then have "m_DataLen (Buf_assign_String (e_al E) s (v_Buf v)) = length ?c + 1" "buf_ok (Buf_assign_String (e_al E) s (v_Buf v))"
    by (auto simp: Buf_assign_String_def Buf_assign_cstr_def cstr_to_octets Let_def buf_ok_def Buf_Size_def split: option.splits)
  then show ?thesis using d l cstr_no_nul [of "to_octets s"] by (simp add: has_def StrSet_def)
qed

lemma host_word_u8 [simp]: "host_word h (host_mem h (w :: u8)) = w"
  by (simp add: host_word_def host_mem_def be_octets_def be_word_def split: host.splits)

lemma mem_word_data:
  fixes w :: "'a::len word"
  assumes "has E v x" "buf_data (v_Buf v) = host_mem (e_host E) w" "host_word (e_host E) (host_mem (e_host E) w) = w" "0 < LENGTH('a) div 8"
  shows "mem_word E v = Some w"
proof -
  have l: "length (buf_data (v_Buf v)) = LENGTH('a) div 8" using assms(2) by simp
  then obtain m where m: "m_PtrBlock (v_Buf v) = Some m" using data_nonempty [of "v_Buf v"] assms(4) by fastforce
  have dl: "m_DataLen (v_Buf v) = LENGTH('a) div 8" using l assms(1) length_buf_data by (simp add: has_def)
  then have t: "take (LENGTH('a) div 8) m = host_mem (e_host E) w" using assms(2) m by (simp add: buf_data_def)
  have "LENGTH('a) div 8 \<le> length m" using assms(1) m dl by (simp add: has_def buf_ok_def Buf_Size_def)
  then show ?thesis using m t assms(3) by (simp add: mem_word_def DataBuffer_def Buf_u_str_def)
qed

lemma mem_cstr_data:
  assumes "has E v (V_str s)"
  shows "mem_cstr v = Some (of_octets s)" "DataBuffer v \<noteq> None"
proof -
  have d: "buf_data (v_Buf v) = s @ [0]" "0 \<notin> set s" using assms by (auto simp: has_def)
  then obtain m where m: "m_PtrBlock (v_Buf v) = Some m" using data_nonempty [of "v_Buf v"] by auto
  have "take (m_DataLen (v_Buf v)) m = s @ [0]" using d m by (simp add: buf_data_def)
  then have "m = s @ 0 # drop (m_DataLen (v_Buf v)) m" by (metis append.assoc append_Cons append_Nil append_take_drop_id)
  then obtain r where "m = s @ 0 # r" by blast
  then show "mem_cstr v = Some (of_octets s)" "DataBuffer v \<noteq> None"
    using m d(2) by (simp_all add: mem_cstr_def DataBuffer_def Buf_u_str_def)
qed

lemma getters_has:
  "has E v (V_u8 w8) \<Longrightarrow> Uint8Get E v = Some w8" "has E v (V_i8 w8) \<Longrightarrow> Int8Get E v = Some w8"
  "has E v (V_u16 w16) \<Longrightarrow> Uint16Get E v = Some w16" "has E v (V_i16 w16) \<Longrightarrow> Int16Get E v = Some w16"
  "has E v (V_u32 w32) \<Longrightarrow> Uint32Get E v = Some w32" "has E v (V_i32 w32) \<Longrightarrow> Int32Get E v = Some w32"
  "has E v (V_u64 w64) \<Longrightarrow> Uint64Get E v = Some w64" "has E v (V_i64 w64) \<Longrightarrow> Int64Get E v = Some w64"
  "has E v (V_f32 w32) \<Longrightarrow> Float32Get_same E v = Some w32" "has E v (V_f64 w64) \<Longrightarrow> Float64Get_same E v = Some w64"
  "has E v (V_bool b) \<Longrightarrow> BoolGet E v = Some b" "has E v (V_str s) \<Longrightarrow> StrGet E v = Some (of_octets s)"
proof -
  have u: "(ucast (ucast w8 :: u64) :: u8) = w8" "(ucast (ucast w16 :: u64) :: u16) = w16" "(ucast (ucast w32 :: u64) :: u32) = w32"
    by (transfer, simp add: take_bit_take_bit)+
  show "has E v (V_u8 w8) \<Longrightarrow> Uint8Get E v = Some w8"
    using mem_word_data [of E v "V_u8 w8" w8] u by (simp add: has_def Uint8Get_def Uint64Get_def)
  show "has E v (V_i8 w8) \<Longrightarrow> Int8Get E v = Some w8"
    using mem_word_data [of E v "V_i8 w8" w8] u by (simp add: has_def Int8Get_def Uint64Get_def)
  show "has E v (V_u16 w16) \<Longrightarrow> Uint16Get E v = Some w16"
    using mem_word_data [of E v "V_u16 w16" w16] u by (simp add: has_def Uint16Get_def Uint64Get_def)
  show "has E v (V_i16 w16) \<Longrightarrow> Int16Get E v = Some w16"
    using mem_word_data [of E v "V_i16 w16" w16] u by (simp add: has_def Int16Get_def Uint64Get_def)
  show "has E v (V_u32 w32) \<Longrightarrow> Uint32Get E v = Some w32"
    using mem_word_data [of E v "V_u32 w32" w32] u by (simp add: has_def Uint32Get_def Uint64Get_def)
  show "has E v (V_i32 w32) \<Longrightarrow> Int32Get E v = Some w32"
    using mem_word_data [of E v "V_i32 w32" w32] u by (simp add: has_def Int32Get_def Uint64Get_def)
  show "has E v (V_u64 w64) \<Longrightarrow> Uint64Get E v = Some w64"
    using mem_word_data [of E v "V_u64 w64" w64] by (simp add: has_def Uint64Get_def)
  show "has E v (V_i64 w64) \<Longrightarrow> Int64Get E v = Some w64"
    using mem_word_data [of E v "V_i64 w64" w64] by (simp add: has_def Int64Get_def Uint64Get_def)
  show "has E v (V_f32 w32) \<Longrightarrow> Float32Get_same E v = Some w32"
    using mem_word_data [of E v "V_f32 w32" w32] by (simp add: has_def Float32Get_same_def)
  show "has E v (V_f64 w64) \<Longrightarrow> Float64Get_same E v = Some w64"
    using mem_word_data [of E v "V_f64 w64" w64] by (simp add: has_def Float64Get_same_def)
  have one: "host_mem h (if b then 0x31 else 0x30 :: u8) = [if b then 0x31 else 0x30]" for h
    by (simp add: host_mem_def be_octets_def split: host.splits)
  show "BoolGet E v = Some b" if h: "has E v (V_bool b)"
  proof -
    have "mem_word E v = Some (if b then 0x31 else 0x30 :: u8)"
      by (rule mem_word_data [OF h _ host_word_u8]) (use h one in \<open>simp_all add: has_def\<close>)
    then show ?thesis using h by (simp add: has_def BoolGet_def)
  qed
  show "has E v (V_str s) \<Longrightarrow> StrGet E v = Some (of_octets s)"
    using mem_cstr_data [of E v s] by (simp add: has_def StrGet_def)
qed

lemma inert_scalar: "v_Type v = dt_inert \<Longrightarrow> scalar_set E t d v = v"
  by (simp add: scalar_set_def ResizeBuffer_def)

section \<open>Properties\<close>

text \<open>
  C34. A variant that is not inert keeps what it is given, whatever it held before, when the manager
  grants memory: each getter returns the value its setter stored, of the integer types, signed
  or not, the floating point types, booleans and strings without NUL; so it does on a copy of the variant.
\<close>

theorem Variant_keeps:
  assumes "env_ok E" and "v_Type v \<noteq> dt_inert" and "length s < 2 ^ 32 - 1" and "0 \<notin> set (to_octets s)"
  shows "Uint8Get E (Uint8Set E a v) = Some a \<and> Int8Get E (Int8Set E a v) = Some a \<and>
    Uint16Get E (Uint16Set E b v) = Some b \<and> Int16Get E (Int16Set E b v) = Some b \<and>
    Uint32Get E (Uint32Set E c v) = Some c \<and> Int32Get E (Int32Set E c v) = Some c \<and>
    Uint64Get E (Uint64Set E d v) = Some d \<and> Int64Get E (Int64Set E d v) = Some d \<and>
    Float32Get_same E (Float32Set E c v) = Some c \<and> Float64Get_same E (Float64Set E d v) = Some d \<and>
    BoolGet E (BoolSet E t v) = Some t \<and> StrGet E (StrSet E s v) = Some s \<and>
    Uint8Get E (Variant_copy E (Uint8Set E a v)) = Some a \<and> Int8Get E (Variant_copy E (Int8Set E a v)) = Some a \<and>
    Uint16Get E (Variant_copy E (Uint16Set E b v)) = Some b \<and> Int16Get E (Variant_copy E (Int16Set E b v)) = Some b \<and>
    Uint32Get E (Variant_copy E (Uint32Set E c v)) = Some c \<and> Int32Get E (Variant_copy E (Int32Set E c v)) = Some c \<and>
    Uint64Get E (Variant_copy E (Uint64Set E d v)) = Some d \<and> Int64Get E (Variant_copy E (Int64Set E d v)) = Some d \<and>
    Float32Get_same E (Variant_copy E (Float32Set E c v)) = Some c \<and>
    Float64Get_same E (Variant_copy E (Float64Set E d v)) = Some d \<and>
    BoolGet E (Variant_copy E (BoolSet E t v)) = Some t \<and>
    StrGet E (Variant_copy E (StrSet E s v)) = Some s"
proof -
  have s: "has E (StrSet E s v) (V_str (to_octets s))" using StrSet_has [OF assms(1,3), of v] cstr_id [OF assms(4)] by simp
  note set = setters_has [OF assms(1,2)]
  show ?thesis
    using getters_has(1-11) set set [THEN copy_has [OF assms(1)]] getters_has(12) [OF s] getters_has(12) [OF copy_has [OF assms(1) s]]
    by simp
qed

definition plain_env :: venv where
  "plain_env = \<lparr>e_host = HostLE, e_al = hist_alloc (\<lambda>_. True) [] (\<lambda>_. 0), e_ftext = (\<lambda>_. [])\<rparr>"

theorem Variant_keeps_witness:
  "Int16Get plain_env (Int16Set plain_env (-2) (Variant_new plain_env False)) = Some (-2) \<and>
    StrGet plain_env (StrSet plain_env ''ab'' (Variant_new plain_env False)) = Some ''ab''"
proof -
  have e: "env_ok plain_env" unfolding plain_env_def by (rule env_ok_manager)
  have t: "v_Type (Variant_new plain_env False) \<noteq> dt_inert"
    by (auto simp: Variant_new_def ResizeBuffer_def split: prod.splits bool.splits)
  show ?thesis
    using Variant_keeps [OF e t, of "''ab''" 0 "-2" 0 0 True] by (simp add: to_octets_def octet_of_char_def)
qed

text \<open>
  Two gaps of the variant. The wide getters do not extend the sign of a stored signed value: -1 put
  in with 8 bits comes out of \<open>Int64Get\<close> as 255. And \<open>StrSet\<close> does not look at the inert state: it makes
  a string of the inert variant, which then takes any value.
\<close>

theorem Variant_gaps:
  assumes "env_ok E" and "v_Type v \<noteq> dt_inert" and "length s < 2 ^ 32 - 1" and "v_Type i = dt_inert"
  shows "Int64Get E (Int8Set E (-1) v) = Some 255 \<and> Uint32Set E n i = i \<and>
    v_Type (StrSet E s i) = dt_string \<and> Uint32Get E (Uint32Set E n (StrSet E s i)) = Some n"
proof -
  have u: "(ucast (-1 :: u8) :: u64) = 255" by code_simp
  have "has E (Int8Set E (-1) v) (V_i8 (-1))" by (rule setters_has(2) [OF assms(1,2)])
  then have "Int64Get E (Int8Set E (-1) v) = Some 255"
    using mem_word_data [of E "Int8Set E (-1) v" "V_i8 (-1)" "-1 :: u8"] u by (simp add: has_def Int64Get_def Uint64Get_def)
  moreover have t: "v_Type (StrSet E s i) = dt_string" by (simp add: StrSet_def)
  ultimately show ?thesis
    using inert_scalar [OF assms(4)] setters_has(5) [OF assms(1), of "StrSet E s i" n] getters_has(5) by (simp add: Uint32Set_def)
qed

theorem Variant_gaps_witness:
  "\<exists>i. v_Type i = dt_inert \<and> Uint32Set plain_env 7 i = i \<and>
    Uint32Get plain_env (Uint32Set plain_env 7 (StrSet plain_env ''x'' i)) = Some 7"
proof -
  let ?i = "\<lparr>v_Type = dt_inert, v_Buf = Buf_null\<rparr>" and ?v = "\<lparr>v_Type = dt_none, v_Buf = Buf_null\<rparr>"
  have e: "env_ok plain_env" unfolding plain_env_def by (rule env_ok_manager)
  show ?thesis using Variant_gaps [OF e, of ?v "''x''" ?i 7] by (intro exI [of _ ?i]) simp
qed

end
