(* ===== verification/Datum.thy ===== *)
theory Datum
  imports Variant
begin

text \<open>
  \<open>cpDatum\<close>: a tree of data. A datum has attributes, which are variants, and sub-data in order, with
  a cursor: itself or the sub-datum of an iterator. The iterator is the index of its element, the
  length of the list for \<open>end()\<close>. A returned reference is the path of indices to the datum, or
  \<open>None\<close> for the global inert datum. An operation has no result when it reads a name through a
  variant that cannot be read. Arguments are not parts of the datum they are given to; an
  assignment to a list assigns to its present elements and copies the rest.
\<close>

section \<open>State\<close>

datatype attrib = attr_None | attr_Name | attr_Val | attr_Min | attr_Max | attr_Def | attr_Units | attr_Info | attr_Choices

definition all_attribs :: "attrib list" where
  "all_attribs = [attr_None, attr_Name, attr_Val, attr_Min, attr_Max, attr_Def, attr_Units, attr_Info, attr_Choices]"

datatype datum = Datum (m_Inert: bool) (m_Self: bool) (m_Attribs: "attrib \<Rightarrow> variant option") (m_IterData: nat)
  (m_Datums: "datum list")

definition with_attribs :: "(attrib \<Rightarrow> variant option) \<Rightarrow> datum \<Rightarrow> datum" where
  "with_attribs a d = Datum (m_Inert d) (m_Self d) a (m_IterData d) (m_Datums d)"

definition with_cursor :: "bool \<Rightarrow> nat \<Rightarrow> datum \<Rightarrow> datum" where
  "with_cursor self i d = Datum (m_Inert d) self (m_Attribs d) i (m_Datums d)"

definition with_datums :: "datum list \<Rightarrow> datum \<Rightarrow> datum" where
  "with_datums ds d = Datum (m_Inert d) (m_Self d) (m_Attribs d) (m_IterData d) ds"

section \<open>Attributes\<close>

text \<open>\<open>m_Attribs[Type]\<close>: the attribute, a new one if it is missing.\<close>

definition attr_at :: "venv \<Rightarrow> attrib \<Rightarrow> datum \<Rightarrow> variant" where
  "attr_at E t d = (case m_Attribs d t of Some v \<Rightarrow> v | None \<Rightarrow> Variant_new E False)"

definition Attr :: "venv \<Rightarrow> attrib \<Rightarrow> datum \<Rightarrow> variant" where
  "Attr E t d = (case m_Attribs d t of Some v \<Rightarrow> v | None \<Rightarrow> Variant_new E True)"

definition NameGet :: "venv \<Rightarrow> datum \<Rightarrow> string option" where "NameGet E d = StrGet E (Attr E attr_Name d)"

definition UnitsGet :: "venv \<Rightarrow> datum \<Rightarrow> string option" where "UnitsGet E d = StrGet E (Attr E attr_Units d)"

definition InfoGet :: "venv \<Rightarrow> datum \<Rightarrow> string option" where "InfoGet E d = StrGet E (Attr E attr_Info d)"

definition ChoicesGet :: "venv \<Rightarrow> datum \<Rightarrow> string option" where "ChoicesGet E d = StrGet E (Attr E attr_Choices d)"

definition AttrSet :: "venv \<Rightarrow> attrib \<Rightarrow> variant \<Rightarrow> datum \<Rightarrow> datum" where
  "AttrSet E t Var d =
     (if \<not> m_Inert d then with_attribs ((m_Attribs d)(t \<mapsto> Variant_assign E Var (attr_at E t d))) d else d)"

definition AttrDel :: "attrib \<Rightarrow> datum \<Rightarrow> datum" where
  "AttrDel t d = (if \<not> m_Inert d then with_attribs ((m_Attribs d)(t := None)) d else d)"

text \<open>
  \<open>AttrSet(Type)\<close> returns a reference to the attribute; \<open>f\<close> is what is done through it. For an inert
  datum the reference is the global inert variant.
\<close>

definition AttrMod :: "venv \<Rightarrow> attrib \<Rightarrow> (variant \<Rightarrow> variant) \<Rightarrow> datum \<Rightarrow> datum" where
  "AttrMod E t f d = (if \<not> m_Inert d then with_attribs ((m_Attribs d)(t \<mapsto> f (attr_at E t d))) d else d)"

definition NameSet :: "venv \<Rightarrow> string \<Rightarrow> datum \<Rightarrow> datum" where
  "NameSet E Name d =
     (if \<not> m_Inert d then if length Name > 0 then AttrMod E attr_Name (StrSet E Name) d else AttrDel attr_Name d else d)"

definition UnitsSet :: "venv \<Rightarrow> string \<Rightarrow> datum \<Rightarrow> datum" where "UnitsSet E s d = AttrMod E attr_Units (StrSet E s) d"

definition InfoSet :: "venv \<Rightarrow> string \<Rightarrow> datum \<Rightarrow> datum" where "InfoSet E s d = AttrMod E attr_Info (StrSet E s) d"

definition ChoicesSet :: "venv \<Rightarrow> string \<Rightarrow> datum \<Rightarrow> datum" where "ChoicesSet E s d = AttrMod E attr_Choices (StrSet E s) d"

text \<open>The converting assignments.\<close>

definition datum_set_u32 :: "venv \<Rightarrow> u32 \<Rightarrow> datum \<Rightarrow> datum" where "datum_set_u32 E rhs d = AttrMod E attr_Val (Uint32Set E rhs) d"

definition datum_set_i32 :: "venv \<Rightarrow> u32 \<Rightarrow> datum \<Rightarrow> datum" where "datum_set_i32 E rhs d = AttrMod E attr_Val (Int32Set E rhs) d"

definition datum_set_u64 :: "venv \<Rightarrow> u64 \<Rightarrow> datum \<Rightarrow> datum" where "datum_set_u64 E rhs d = AttrMod E attr_Val (Uint64Set E rhs) d"

definition datum_set_i64 :: "venv \<Rightarrow> u64 \<Rightarrow> datum \<Rightarrow> datum" where "datum_set_i64 E rhs d = AttrMod E attr_Val (Int64Set E rhs) d"

definition datum_set_f32 :: "venv \<Rightarrow> u32 \<Rightarrow> datum \<Rightarrow> datum" where "datum_set_f32 E rhs d = AttrMod E attr_Val (Float32Set E rhs) d"

definition datum_set_f64 :: "venv \<Rightarrow> u64 \<Rightarrow> datum \<Rightarrow> datum" where "datum_set_f64 E rhs d = AttrMod E attr_Val (Float64Set E rhs) d"

definition datum_set_bool :: "venv \<Rightarrow> bool \<Rightarrow> datum \<Rightarrow> datum" where "datum_set_bool E rhs d = AttrMod E attr_Val (BoolSet E rhs) d"

definition datum_set_String :: "venv \<Rightarrow> string \<Rightarrow> datum \<Rightarrow> datum" where "datum_set_String E rhs d = AttrMod E attr_Val (StrSet E rhs) d"

definition datum_set_Buffer :: "venv \<Rightarrow> buffer \<Rightarrow> datum \<Rightarrow> datum" where "datum_set_Buffer E rhs d = AttrMod E attr_Val (BufSet E rhs) d"

text \<open>The conversions.\<close>

definition datum_bool :: "venv \<Rightarrow> datum \<Rightarrow> bool option" where "datum_bool E d = BoolGet E (Attr E attr_Val d)"

definition datum_u32 :: "venv \<Rightarrow> datum \<Rightarrow> u32 option" where "datum_u32 E d = Uint32Get E (Attr E attr_Val d)"

definition datum_i32 :: "venv \<Rightarrow> datum \<Rightarrow> u32 option" where "datum_i32 E d = Int32Get E (Attr E attr_Val d)"

definition datum_u64 :: "venv \<Rightarrow> datum \<Rightarrow> u64 option" where "datum_u64 E d = Uint64Get E (Attr E attr_Val d)"

definition datum_i64 :: "venv \<Rightarrow> datum \<Rightarrow> u64 option" where "datum_i64 E d = Int64Get E (Attr E attr_Val d)"

definition datum_String :: "venv \<Rightarrow> datum \<Rightarrow> string option" where "datum_String E d = StrGet E (Attr E attr_Val d)"

section \<open>Copies\<close>

definition Rewind :: "datum \<Rightarrow> datum \<times> bool" where
  "Rewind d = (with_cursor True 0 d, m_Datums d \<noteq> [])"

fun datum_copy :: "venv \<Rightarrow> datum \<Rightarrow> datum" where
  "datum_copy E (Datum i s a it ds) = Datum i True (\<lambda>k. map_option (Variant_copy E) (a k)) 0 (map (datum_copy E) ds)"

text \<open>Assignment: an inert target stays as it is.\<close>

fun datum_assign :: "venv \<Rightarrow> datum \<Rightarrow> datum \<Rightarrow> datum"
  and assign_list :: "venv \<Rightarrow> datum list \<Rightarrow> datum list \<Rightarrow> datum list"
where
  "datum_assign E l (Datum i s a it ds) =
     (if m_Inert l then l
      else Datum i True (\<lambda>k. map_option (Variant_copy E) (a k)) 0 (assign_list E (m_Datums l) ds))"
| "assign_list E ls [] = []"
| "assign_list E [] (r # rs) = datum_copy E r # assign_list E [] rs"
| "assign_list E (l # ls) (r # rs) = datum_assign E l r # assign_list E ls rs"

definition Datum_new :: "venv \<Rightarrow> string \<Rightarrow> bool \<Rightarrow> datum" where
  "Datum_new E Name Inert =
     (let d0 = Datum Inert True (\<lambda>_. None) 0 [];
          d1 = (if Inert then with_attribs ((m_Attribs d0)(attr_Name \<mapsto> StrSet E Name (attr_at E attr_Name d0))) d0 else d0)
      in fst (Rewind (NameSet E Name d1)))"

definition Datum_Clear :: "venv \<Rightarrow> datum \<Rightarrow> datum option" where
  "Datum_Clear E d =
     (if m_Inert d then Some d
      else map_option (\<lambda>n. datum_assign E d (Datum_new E n False)) (NameGet E d))"

section \<open>Sub-data\<close>

text \<open>The index of the first datum of that name, the length of the list if there is none.\<close>

fun Find :: "venv \<Rightarrow> string \<Rightarrow> datum list \<Rightarrow> nat option" where
  "Find E Name [] = Some 0"
| "Find E Name (d # ds) =
     (case NameGet E d of
        None \<Rightarrow> None
      | Some n \<Rightarrow> if n = Name then Some 0 else map_option Suc (Find E Name ds))"

definition Find_attr :: "attrib \<Rightarrow> datum \<Rightarrow> variant option" where "Find_attr t d = m_Attribs d t"

definition Select :: "venv \<Rightarrow> string \<Rightarrow> datum \<Rightarrow> (datum \<times> bool) option" where
  "Select E Name d =
     (if m_Inert d then Some (d, False)
      else
        (case Find E Name (m_Datums d) of
           None \<Rightarrow> None
         | Some i \<Rightarrow>
             if i \<noteq> length (m_Datums d) then Some (with_cursor False i d, True)
             else Some (with_cursor (m_Self d) i d, False)))"

definition Get :: "datum \<Rightarrow> nat list option" where
  "Get d = (if m_Self d then Some [] else if m_IterData d = length (m_Datums d) then None else Some [m_IterData d])"

definition Get_named :: "venv \<Rightarrow> string \<Rightarrow> datum \<Rightarrow> nat list option option" where
  "Get_named E Name d =
     (if m_Inert d then Some None
      else map_option (\<lambda>i. if i = length (m_Datums d) then None else Some [i]) (Find E Name (m_Datums d)))"

definition datum_index :: "nat \<Rightarrow> datum \<Rightarrow> nat list option" where
  "datum_index Index d = (if m_Inert d then None else if Index < length (m_Datums d) then Some [Index] else None)"

fun GetRecursive :: "datum \<Rightarrow> nat list option"
  and get_rec_nth :: "datum list \<Rightarrow> nat \<Rightarrow> nat \<Rightarrow> nat list option"
where
  "GetRecursive (Datum i s a it ds) = (if s then Some [] else get_rec_nth ds it 0)"
| "get_rec_nth [] n k = None"
| "get_rec_nth (d # ds) 0 k = map_option (Cons k) (GetRecursive d)"
| "get_rec_nth (d # ds) (Suc n) k = get_rec_nth ds n (Suc k)"

text \<open>The datum at a path, and a change of it.\<close>

fun datum_at :: "nat list \<Rightarrow> datum \<Rightarrow> datum option" where
  "datum_at [] d = Some d"
| "datum_at (i # p) d = (if i < length (m_Datums d) then datum_at p (m_Datums d ! i) else None)"

fun datum_upd :: "nat list \<Rightarrow> (datum \<Rightarrow> datum) \<Rightarrow> datum \<Rightarrow> datum" where
  "datum_upd [] f d = f d"
| "datum_upd (i # p) f d =
     (if i < length (m_Datums d) then with_datums ((m_Datums d)[i := datum_upd p f (m_Datums d ! i)]) d else d)"

definition Erase :: "datum \<Rightarrow> datum \<times> bool" where
  "Erase d =
     (if m_IterData d \<noteq> length (m_Datums d) then
        let ds = take (m_IterData d) (m_Datums d) @ drop (m_IterData d + 1) (m_Datums d)
        in (with_cursor (m_Self d) (length ds) (with_datums ds d), True)
      else (d, False))"

definition Erase_named :: "venv \<Rightarrow> string \<Rightarrow> datum \<Rightarrow> (datum \<times> bool) option" where
  "Erase_named E Name d =
     (case Find E Name (m_Datums d) of
        None \<Rightarrow> None
      | Some i \<Rightarrow>
          if i \<noteq> length (m_Datums d) then
            let ds = take i (m_Datums d) @ drop (i + 1) (m_Datums d)
            in Some (with_cursor (m_Self d) (length ds) (with_datums ds d), True)
          else Some (d, False))"

definition Add_datum :: "venv \<Rightarrow> datum \<Rightarrow> datum \<Rightarrow> (datum \<times> nat list option) option" where
  "Add_datum E rhs d =
     (if m_Inert d then Some (d, None)
      else do {
        name \<leftarrow> NameGet E rhs;
        i \<leftarrow> Find E name (m_Datums d);
        let (ds, j) = (if i \<noteq> length (m_Datums d) \<and> length name > 0
                       then ((m_Datums d)[i := datum_assign E (m_Datums d ! i) rhs], i)
                       else (m_Datums d @ [datum_copy E rhs], length (m_Datums d)));
        Some (with_cursor False j (with_datums ds d), Some [j])
      })"

definition Add_named :: "venv \<Rightarrow> string \<Rightarrow> datum \<Rightarrow> (datum \<times> nat list option) option" where
  "Add_named E Name d = Add_datum E (Datum_new E Name False) d"

definition Add_anon :: "venv \<Rightarrow> datum \<Rightarrow> (datum \<times> nat list option) option" where
  "Add_anon E d = (if m_Inert d then Some (d, None) else Add_named E [] d)"

text \<open>The step of the cursor, into the tree or over the sub-data.\<close>

lemma size_nth_datum: "i < length ds \<Longrightarrow> size (ds ! i) < Suc (size_list size ds)"
  using size_list_estimation' [OF nth_mem, of i ds "size (ds ! i)" size] by simp

function Advance :: "bool \<Rightarrow> datum \<Rightarrow> datum \<times> bool" where
  "Advance Recurse (Datum inert self a it ds) =
     (if inert then (Datum inert self a it ds, False)
      else
        let (it1, ds1, rewind) =
              (if self then (0, ds, True)
               else if it < length ds then
                 (if Recurse then
                    (case Advance True (ds ! it) of
                       (d1, True) \<Rightarrow> (it, ds[it := d1], False)
                     | (d1, False) \<Rightarrow> (Suc it, ds[it := d1], True))
                  else (Suc it, ds, True))
               else (it, ds, True));
            rv = (it1 \<noteq> length ds1);
            ds2 = (if rv \<and> rewind then ds1[it1 := fst (Rewind (ds1 ! it1))] else ds1)
        in (Datum inert False a it1 ds2, rv))"
  by pat_completeness auto

termination
  by (relation "measure (\<lambda>(_, d). size d)") (simp_all add: size_nth_datum)

definition datum_next :: "datum \<Rightarrow> datum \<times> nat list option" where
  "datum_next d =
     (if \<not> m_Inert d then (case Advance True d of (d1, True) \<Rightarrow> (d1, GetRecursive d1) | (d1, False) \<Rightarrow> (d1, None))
      else (d, None))"

end
