(* ===== verification/SerDes.thy ===== *)
theory SerDes
  imports Datum StreamProps
begin

text \<open>
  \<open>cpSerDes\<close> and the encoding and decoding of \<open>cpDatum\<close>: what every serializer shares. The virtual
  functions of a serializer are a table; the encoding functions act on the stream, together with the
  state of the serializer where it has one, the decoding ones on the world of a decoder, which is the
  stream, the datum and the stack of the data under way, as paths, the current one first. A sequence
  of insertions stops at the first that fails.
\<close>

datatype cksum = ck_None | ck_Crc32 | ck_Md5Sum | ck_Sha1Sum

fun cksum_code :: "cksum \<Rightarrow> u8" where
  "cksum_code ck_None = 0" | "cksum_code ck_Crc32 = 1" | "cksum_code ck_Md5Sum = 2" | "cksum_code ck_Sha1Sum = 3"

datatype decstate = st_ident | st_version | st_elements | st_check | st_done

record 's decworld =
  dw_stream :: "'s stream"
  dw_root :: datum
  dw_stack :: "nat list list"

type_synonym 'w act = "'w \<Rightarrow> ('w \<times> bool) option"

type_synonym 's insertion = "'s stream act"

type_synonym 's decoding = "'s decworld act"

text \<open>The virtual functions: the encoder's act on a world \<open>'e\<close>, the decoder's on a world \<open>'d\<close>.\<close>

record ('e, 'd) serdes =
  sd_Open :: "u8 \<Rightarrow> 'e act"
  sd_Close :: "cksum \<Rightarrow> 'e act"
  sd_Start :: "datum \<Rightarrow> 'e act"
  sd_End :: "datum \<Rightarrow> 'e act"
  sd_DecodeIdent :: "'d act"
  sd_DecodeVersion :: "'d act"
  sd_DecodeElement :: "'d act"
  sd_DecodeChecksum :: "'d act"

text \<open>The functions of the base class.\<close>

definition SerDes_base :: "('e, 'd) serdes" where
  "SerDes_base =
     \<lparr>sd_Open = (\<lambda>_ s. Some (s, True)), sd_Close = (\<lambda>_ s. Some (s, True)), sd_Start = (\<lambda>_ s. Some (s, True)),
      sd_End = (\<lambda>_ s. Some (s, True)), sd_DecodeIdent = (\<lambda>w. Some (w, True)), sd_DecodeVersion = (\<lambda>w. Some (w, True)),
      sd_DecodeElement = (\<lambda>w. Some (w, True)), sd_DecodeChecksum = (\<lambda>w. Some (w, True))\<rparr>"

definition ins_then :: "'w act \<Rightarrow> 'w act \<Rightarrow> 'w act" where
  "ins_then f g s = do { (s1, rv) \<leftarrow> f s; if rv then g s1 else Some (s1, False) }"

section \<open>Encoding a datum\<close>

text \<open>The result is the sum of the results of \<open>Start\<close> and \<open>End\<close>, of all the data.\<close>

fun dat_encode :: "('e, 'd) serdes \<Rightarrow> datum \<Rightarrow> 'e \<Rightarrow> ('e \<times> nat) option"
  and dat_encode_list :: "('e, 'd) serdes \<Rightarrow> datum list \<Rightarrow> 'e \<Rightarrow> ('e \<times> nat) option"
where
  "dat_encode sd (Datum i sf a it ds) s = do {
     (s1, r1) \<leftarrow> sd_Start sd (Datum i sf a it ds) s;
     (s2, n) \<leftarrow> dat_encode_list sd ds s1;
     (s3, r3) \<leftarrow> sd_End sd (Datum i sf a it ds) s2;
     Some (s3, of_bool r1 + n + of_bool r3)
   }"
| "dat_encode_list sd [] s = Some (s, 0)"
| "dat_encode_list sd (d # ds) s = do {
     (s1, n) \<leftarrow> dat_encode sd d s;
     (s2, m) \<leftarrow> dat_encode_list sd ds s1;
     Some (s2, n + m)
   }"

definition DatumVersion :: u8 where "DatumVersion = 0"

text \<open>\<open>sdo\<close> is the serializer that the factory gives for the requested encoding.\<close>

definition Datum_Encode :: "('e, 'd) serdes option \<Rightarrow> datum \<Rightarrow> cksum \<Rightarrow> 'e act" where
  "Datum_Encode sdo d ChkMode s =
     (if m_Inert d then Some (s, False)
      else
        (case sdo of
           None \<Rightarrow> Some (s, False)
         | Some sd \<Rightarrow>
             ins_then (ins_then (sd_Open sd DatumVersion)
               (\<lambda>s1. map_option (\<lambda>(s2, n). (s2, n \<noteq> 0)) (dat_encode sd d s1))) (sd_Close sd ChkMode) s))"

section \<open>Decoding a datum\<close>

definition ExecDecodeState ::
  "('e, 'd) serdes \<Rightarrow> bool \<Rightarrow> decstate \<Rightarrow> 'd \<Rightarrow> (decstate \<times> 'd \<times> bool) option" where
  "ExecDecodeState sd Check State w =
     (case State of
        st_ident \<Rightarrow> map_option (\<lambda>(w1, rv). (if rv then st_version else State, w1, rv)) (sd_DecodeIdent sd w)
      | st_version \<Rightarrow> map_option (\<lambda>(w1, rv). (if rv then st_elements else State, w1, rv)) (sd_DecodeVersion sd w)
      | st_elements \<Rightarrow>
          map_option (\<lambda>(w1, rv). (if rv then if Check then st_check else st_done else State, w1, rv)) (sd_DecodeElement sd w)
      | st_check \<Rightarrow> map_option (\<lambda>(w1, rv). (if rv then st_done else State, w1, rv)) (sd_DecodeChecksum sd w)
      | st_done \<Rightarrow> Some (State, w, False))"

fun decstate_rank :: "decstate \<Rightarrow> nat" where
  "decstate_rank st_ident = 4" | "decstate_rank st_version = 3" | "decstate_rank st_elements = 2" | "decstate_rank st_check = 1"
| "decstate_rank st_done = 0"

lemma ExecDecodeState_rank:
  "ExecDecodeState sd Check state w = Some (state1, w1, True) \<Longrightarrow> decstate_rank state1 < decstate_rank state"
  by (auto simp: ExecDecodeState_def split: decstate.splits if_splits)

function decode_loop :: "('e, 'd) serdes \<Rightarrow> bool \<Rightarrow> decstate \<Rightarrow> 'd act" where
  "decode_loop sd Check state w =
     (case ExecDecodeState sd Check state w of
        None \<Rightarrow> None
      | Some (state1, w1, rv) \<Rightarrow>
          if rv then if state1 = st_done then Some (w1, True) else decode_loop sd Check state1 w1 else Some (w1, False))"
  by pat_completeness auto

termination
  by (relation "measure (\<lambda>(sd, Check, state, w). decstate_rank state)") (auto dest: ExecDecodeState_rank)

declare decode_loop.simps [simp del]

text \<open>\<open>SerDes::Decode\<close>: the stream and the datum afterwards, and the result.\<close>

definition SerDes_Decode ::
  "venv \<Rightarrow> 's vtable \<Rightarrow> ('e, 's decworld) serdes \<Rightarrow> 's stream \<Rightarrow> datum \<Rightarrow> bool \<Rightarrow> ('s stream \<times> datum \<times> bool) option" where
  "SerDes_Decode E vt sd Stream Dat Check = do {
     Dat1 \<leftarrow> Datum_Clear E Dat;
     (w, rv) \<leftarrow> decode_loop sd Check st_ident \<lparr>dw_stream = fst (Seek vt Stream 0), dw_root = Dat1, dw_stack = [[]]\<rparr>;
     Dat2 \<leftarrow> (if \<not> rv then Datum_Clear E (dw_root w) else Some (dw_root w));
     Some (dw_stream w, Dat2, rv)
   }"

definition Datum_Decode ::
  "venv \<Rightarrow> 's vtable \<Rightarrow> ('e, 's decworld) serdes option \<Rightarrow> 's stream \<Rightarrow> datum \<Rightarrow> bool \<Rightarrow> ('s stream \<times> datum \<times> bool) option" where
  "Datum_Decode E vt sdo Stream d Check =
     (if m_Inert d then Some (Stream, d, False)
      else
        (case sdo of
           None \<Rightarrow> Some (Stream, d, False)
         | Some sd \<Rightarrow> SerDes_Decode E vt sd Stream d Check))"

end
