(* ===== verification/SerDesNative.thy ===== *)
theory SerDesNative
  imports SerDes
begin

text \<open>
  \<open>cpSerDesNative\<close>: the binary encoding of data. Numbers go out with the most significant octet first
  on either host; a block has its length before it in one, three or five octets; data are nested
  between markers. A local variable that an extraction which failed would have left without a
  value is not used afterwards.
\<close>

definition mk_Magic :: u8 where "mk_Magic = 0x88"
definition mk_Pkg :: u8 where "mk_Pkg = 0xa0"
definition mk_PkgEnd :: u8 where "mk_PkgEnd = 0xa1"
definition mk_Dat :: u8 where "mk_Dat = 0xa2"
definition mk_DatEnd :: u8 where "mk_DatEnd = 0xa3"
definition mk_Chk :: u8 where "mk_Chk = 0xa4"
definition mk_ChkEnd :: u8 where "mk_ChkEnd = 0xa5"

text \<open>The two maps of the constructor; an attribute without entry gets 0, the tag \<open>mk_None\<close>.\<close>

fun m_AttribMap :: "attrib \<Rightarrow> u8" where
  "m_AttribMap attr_Name = 0xb0" | "m_AttribMap attr_Val = 0xc0" | "m_AttribMap attr_Min = 0xc1" | "m_AttribMap attr_Max = 0xc2"
| "m_AttribMap attr_Def = 0xc3" | "m_AttribMap attr_Units = 0xc4" | "m_AttribMap attr_Info = 0xc5"
| "m_AttribMap attr_Choices = 0xc6" | "m_AttribMap attr_None = 0"

definition m_TagMap :: "u8 \<Rightarrow> attrib option" where
  "m_TagMap ch =
     (if ch = 0xb0 then Some attr_Name else if ch = 0xc0 then Some attr_Val else if ch = 0xc1 then Some attr_Min
      else if ch = 0xc2 then Some attr_Max else if ch = 0xc3 then Some attr_Def else if ch = 0xc4 then Some attr_Units
      else if ch = 0xc5 then Some attr_Info else if ch = 0xc6 then Some attr_Choices else None)"

definition k_OctetFalse :: u8 where "k_OctetFalse = 0"
definition k_OctetTrue :: u8 where "k_OctetTrue = 1"

section \<open>Insertion\<close>

definition OctetInsert :: "'s vtable \<Rightarrow> u8 \<Rightarrow> 's insertion" where
  "OctetInsert vt Val s = Write_octet vt s Val"

definition net_insert :: "host \<Rightarrow> 's vtable \<Rightarrow> octets \<Rightarrow> 's insertion" where
  "net_insert h vt pSrc = (if HostLittleEndian h then octets_insert vt (rev pSrc) else octets_insert vt pSrc)"

definition ShortInsert :: "host \<Rightarrow> 's vtable \<Rightarrow> u16 \<Rightarrow> 's insertion" where "ShortInsert h vt Val = net_insert h vt (host_mem h Val)"

definition LongInsert :: "host \<Rightarrow> 's vtable \<Rightarrow> u32 \<Rightarrow> 's insertion" where "LongInsert h vt Val = net_insert h vt (host_mem h Val)"

definition LongLongInsert :: "host \<Rightarrow> 's vtable \<Rightarrow> u64 \<Rightarrow> 's insertion" where "LongLongInsert h vt Val = net_insert h vt (host_mem h Val)"

definition nat_Float32Insert :: "host \<Rightarrow> 's vtable \<Rightarrow> u32 \<Rightarrow> 's insertion" where "nat_Float32Insert h vt Val = net_insert h vt (host_mem h Val)"

definition nat_Float64Insert :: "host \<Rightarrow> 's vtable \<Rightarrow> u64 \<Rightarrow> 's insertion" where "nat_Float64Insert h vt Val = net_insert h vt (host_mem h Val)"

definition LenInsert :: "host \<Rightarrow> 's vtable \<Rightarrow> nat \<Rightarrow> 's insertion" where
  "LenInsert h vt Len =
     (if Len < 128 then OctetInsert vt (of_nat Len)
      else if Len < 65536 then
        ins_then (OctetInsert vt 128) (ins_then (OctetInsert vt (of_nat (Len div 256 mod 256))) (OctetInsert vt (of_nat (Len mod 256))))
      else ins_then (OctetInsert vt 129) (LongInsert h vt (of_nat Len)))"

definition nat_StringInsert :: "host \<Rightarrow> 's vtable \<Rightarrow> string \<Rightarrow> 's insertion" where
  "nat_StringInsert h vt Str = ins_then (LenInsert h vt (length Str)) (StringInsert vt (to_octets Str))"

definition nat_BlobInsert :: "host \<Rightarrow> 's vtable \<Rightarrow> buffer \<Rightarrow> 's insertion" where
  "nat_BlobInsert h vt Buf = ins_then (LenInsert h vt (Buf_LenGet Buf)) (BlobInsert vt Buf)"

text \<open>An insertion of what a getter returns.\<close>

definition with_value :: "'a option \<Rightarrow> ('a \<Rightarrow> 'w act) \<Rightarrow> 'w act" where
  "with_value x f s = (case x of None \<Rightarrow> None | Some a \<Rightarrow> f a s)"

definition value_insert :: "venv \<Rightarrow> 's vtable \<Rightarrow> variant \<Rightarrow> 's insertion" where
  "value_insert E vt v =
     (case v_Type v of
        dt_uint8 \<Rightarrow> with_value (Uint8Get E v) (OctetInsert vt)
      | dt_int8 \<Rightarrow> with_value (Int8Get E v) (OctetInsert vt)
      | dt_uint16 \<Rightarrow> with_value (Uint16Get E v) (ShortInsert (e_host E) vt)
      | dt_int16 \<Rightarrow> with_value (Int16Get E v) (ShortInsert (e_host E) vt)
      | dt_uint32 \<Rightarrow> with_value (Uint32Get E v) (LongInsert (e_host E) vt)
      | dt_int32 \<Rightarrow> with_value (Int32Get E v) (LongInsert (e_host E) vt)
      | dt_uint64 \<Rightarrow> with_value (Uint64Get E v) (LongLongInsert (e_host E) vt)
      | dt_int64 \<Rightarrow> with_value (Int64Get E v) (LongLongInsert (e_host E) vt)
      | dt_float32 \<Rightarrow> with_value (Float32Get_same E v) (nat_Float32Insert (e_host E) vt)
      | dt_float64 \<Rightarrow> with_value (Float64Get_same E v) (nat_Float64Insert (e_host E) vt)
      | dt_bool \<Rightarrow> with_value (BoolGet E v) (\<lambda>b. OctetInsert vt (if b then k_OctetTrue else k_OctetFalse))
      | dt_string \<Rightarrow> with_value (StrGet E v) (nat_StringInsert (e_host E) vt)
      | dt_blob \<Rightarrow> nat_BlobInsert (e_host E) vt (v_Buf v)
      | dt_none \<Rightarrow> (\<lambda>s. Some (s, True))
      | _ \<Rightarrow> (\<lambda>s. Some (s, False)))"

definition attrib_insert :: "venv \<Rightarrow> 's vtable \<Rightarrow> attrib \<times> variant \<Rightarrow> 's insertion" where
  "attrib_insert E vt av =
     ins_then (OctetInsert vt (m_AttribMap (fst av)))
       (ins_then (OctetInsert vt (dtype_code (v_Type (snd av)))) (value_insert E vt (snd av)))"

fun ins_list :: "'w act list \<Rightarrow> 'w act" where
  "ins_list [] s = Some (s, True)"
| "ins_list (f # fs) s = ins_then f (ins_list fs) s"

text \<open>The attributes in the order of their types.\<close>

definition attrib_list :: "datum \<Rightarrow> (attrib \<times> variant) list" where
  "attrib_list Dat = concat (map (\<lambda>k. case m_Attribs Dat k of Some v \<Rightarrow> [(k, v)] | None \<Rightarrow> []) all_attribs)"

definition nat_Start :: "venv \<Rightarrow> 's vtable \<Rightarrow> datum \<Rightarrow> 's insertion" where
  "nat_Start E vt Dat = ins_then (OctetInsert vt mk_Dat) (ins_list (map (attrib_insert E vt) (attrib_list Dat)))"

definition nat_End :: "'s vtable \<Rightarrow> datum \<Rightarrow> 's insertion" where
  "nat_End vt Dat = OctetInsert vt mk_DatEnd"

definition nat_Open :: "'s vtable \<Rightarrow> u8 \<Rightarrow> 's insertion" where
  "nat_Open vt Ver Stream =
     ins_list [OctetInsert vt mk_Magic, OctetInsert vt mk_Pkg, OctetInsert vt Ver] (Stream_Clear vt Stream)"

text \<open>The checksum of the octets before it; each of its blocks has an octet, so \<open>pos\<close> blocks are enough.\<close>

definition crc_insert :: "host \<Rightarrow> 's vtable \<Rightarrow> nat \<Rightarrow> 's insertion" where
  "crc_insert h vt pos s = LongInsert h vt (Stream_Crc32Get pos vt s pos) s"

definition nat_Close :: "host \<Rightarrow> 's vtable \<Rightarrow> cksum \<Rightarrow> 's insertion" where
  "nat_Close h vt ChkMode s = do {
     (s1, rv) \<leftarrow> OctetInsert vt mk_PkgEnd s;
     let pos = Pos vt s1;
     if ChkMode = ck_None then Some (s1, rv)
     else if rv then
       ins_list ([OctetInsert vt mk_Chk, OctetInsert vt (cksum_code ChkMode)] @
         (if ChkMode = ck_Crc32 then [crc_insert h vt pos] else []) @ [OctetInsert vt mk_ChkEnd]) s1
     else Some (s1, False)
   }"

section \<open>Extraction\<close>

type_synonym ('s, 'a) extraction = "'s stream \<Rightarrow> 's stream \<times> 'a option"

fun octets_extract :: "'s vtable \<Rightarrow> nat \<Rightarrow> ('s, octets) extraction" where
  "octets_extract vt 0 s = (s, Some [])"
| "octets_extract vt (Suc n) s =
     (case Read_octet vt s of
        (s1, None) \<Rightarrow> (s1, None)
      | (s1, Some b) \<Rightarrow> (case octets_extract vt n s1 of (s2, r) \<Rightarrow> (s2, map_option (Cons b) r)))"

text \<open>On a host with the low octet first the octets are put from the last place to the first.\<close>

definition net_extract :: "host \<Rightarrow> 's vtable \<Rightarrow> ('s, 'a::len word) extraction" where
  "net_extract h vt s =
     (case octets_extract vt (LENGTH('a) div 8) s of
        (s1, r) \<Rightarrow> (s1, map_option (\<lambda>d. host_word h (if HostLittleEndian h then rev d else d)) r))"

definition ShortExtract :: "host \<Rightarrow> 's vtable \<Rightarrow> ('s, u16) extraction" where "ShortExtract = net_extract"

definition LongExtract :: "host \<Rightarrow> 's vtable \<Rightarrow> ('s, u32) extraction" where "LongExtract = net_extract"

definition LongLongExtract :: "host \<Rightarrow> 's vtable \<Rightarrow> ('s, u64) extraction" where "LongLongExtract = net_extract"

definition Float32Extract :: "host \<Rightarrow> 's vtable \<Rightarrow> ('s, u32) extraction" where "Float32Extract = net_extract"

definition Float64Extract :: "host \<Rightarrow> 's vtable \<Rightarrow> ('s, u64) extraction" where "Float64Extract = net_extract"

definition LenExtract :: "host \<Rightarrow> 's vtable \<Rightarrow> ('s, nat) extraction" where
  "LenExtract h vt s =
     (case Read_octet vt s of
        (s1, None) \<Rightarrow> (s1, None)
      | (s1, Some ch) \<Rightarrow>
          if ch < 128 then (s1, Some (unat ch))
          else if ch = 128 then
            (case Read_octet vt s1 of
               (s2, None) \<Rightarrow> (s2, None)
             | (s2, Some hi) \<Rightarrow>
                 (case Read_octet vt s2 of
                    (s3, None) \<Rightarrow> (s3, None)
                  | (s3, Some lo) \<Rightarrow> (s3, Some (unat hi * 256 + unat lo))))
          else if ch = 129 then (case LongExtract h vt s1 of (s2, r) \<Rightarrow> (s2, map_option unat r))
          else (s1, None))"

definition StringExtract :: "venv \<Rightarrow> 's vtable \<Rightarrow> ('s, string) extraction" where
  "StringExtract E vt s =
     (case LenExtract (e_host E) vt s of
        (s1, None) \<Rightarrow> (s1, None)
      | (s1, Some len) \<Rightarrow>
          if len > 0 then
            (case Buf_Resize (e_al E) (len + 1) Buf_null of
               (b, False) \<Rightarrow> (s1, None)
             | (b, True) \<Rightarrow>
                 (case Read_Buf (e_al E) vt s1 b len of
                    (s2, b2, n) \<Rightarrow>
                      (s2, if n = len then map_option (\<lambda>m. of_octets (cstr (patch len [0] m))) (m_PtrBlock b2) else None)))
          else (s1, Some []))"

text \<open>The buffer is a fresh local one; it is given to the variant even when the block was cut short.\<close>

definition BlobExtract :: "venv \<Rightarrow> 's vtable \<Rightarrow> 's stream \<Rightarrow> 's stream \<times> buffer \<times> bool" where
  "BlobExtract E vt s =
     (case LenExtract (e_host E) vt s of
        (s1, None) \<Rightarrow> (s1, Buf_null, False)
      | (s1, Some len) \<Rightarrow>
          if len > 0 then
            (case Buf_Resize (e_al E) len Buf_null of
               (b, False) \<Rightarrow> (s1, b, False)
             | (b, True) \<Rightarrow> (case Read_Buf (e_al E) vt s1 b len of (s2, b2, n) \<Rightarrow> (s2, b2, n = len)))
          else (s1, fst (Buf_Resize (e_al E) 0 Buf_null), True))"

text \<open>What is extracted is set in the variant.\<close>

definition set_value :: "('a \<Rightarrow> variant \<Rightarrow> variant) \<Rightarrow> 's stream \<times> 'a option \<Rightarrow> variant \<Rightarrow> 's stream \<times> variant \<times> bool" where
  "set_value f x Var = (case x of (s, Some a) \<Rightarrow> (s, f a Var, True) | (s, None) \<Rightarrow> (s, Var, False))"

definition VariantExtract :: "venv \<Rightarrow> 's vtable \<Rightarrow> dtype \<Rightarrow> variant \<Rightarrow> 's stream \<Rightarrow> 's stream \<times> variant \<times> bool" where
  "VariantExtract E vt Type Var s =
     (case Type of
        dt_uint8 \<Rightarrow> set_value (Uint8Set E) (Read_octet vt s) Var
      | dt_int8 \<Rightarrow> set_value (Int8Set E) (Read_octet vt s) Var
      | dt_uint16 \<Rightarrow> set_value (Uint16Set E) (ShortExtract (e_host E) vt s) Var
      | dt_int16 \<Rightarrow> set_value (Int16Set E) (ShortExtract (e_host E) vt s) Var
      | dt_uint32 \<Rightarrow> set_value (Uint32Set E) (LongExtract (e_host E) vt s) Var
      | dt_int32 \<Rightarrow> set_value (Int32Set E) (LongExtract (e_host E) vt s) Var
      | dt_uint64 \<Rightarrow> set_value (Uint64Set E) (LongLongExtract (e_host E) vt s) Var
      | dt_int64 \<Rightarrow> set_value (Int64Set E) (LongLongExtract (e_host E) vt s) Var
      | dt_float32 \<Rightarrow> set_value (Float32Set E) (Float32Extract (e_host E) vt s) Var
      | dt_float64 \<Rightarrow> set_value (Float64Set E) (Float64Extract (e_host E) vt s) Var
      | dt_bool \<Rightarrow> set_value (\<lambda>ch. BoolSet E (ch \<noteq> k_OctetFalse)) (Read_octet vt s) Var
      | dt_string \<Rightarrow> set_value (StrSet E) (StringExtract E vt s) Var
      | dt_blob \<Rightarrow> (case BlobExtract E vt s of (s1, b, rv) \<Rightarrow> (s1, BufSet E b Var, rv))
      | dt_none \<Rightarrow> (s, Variant_assign E (Variant_new E False) Var, True)
      | _ \<Rightarrow> (s, Var, False))"

section \<open>Decoding\<close>

text \<open>An octet that must be there, and the octet that follows it.\<close>

definition octets_expect :: "'s vtable \<Rightarrow> u8 \<Rightarrow> ('s, u8) extraction" where
  "octets_expect vt mark s =
     (case Read_octet vt s of
        (s1, None) \<Rightarrow> (s1, None)
      | (s1, Some ch) \<Rightarrow> if ch = mark then Read_octet vt s1 else (s1, None))"

definition nat_DecodeIdent :: "'s vtable \<Rightarrow> 's decoding" where
  "nat_DecodeIdent vt w =
     (case octets_expect vt mk_Magic (dw_stream w) of
        (s1, r) \<Rightarrow> Some (w\<lparr>dw_stream := s1\<rparr>, r = Some mk_Pkg))"

definition nat_DecodeVersion :: "'s vtable \<Rightarrow> 's decoding" where
  "nat_DecodeVersion vt w = (case Read_octet vt (dw_stream w) of (s1, r) \<Rightarrow> Some (w\<lparr>dw_stream := s1\<rparr>, r \<noteq> None))"

text \<open>One attribute: its type octet and its value.\<close>

definition attrib_extract :: "venv \<Rightarrow> 's vtable \<Rightarrow> variant \<Rightarrow> 's stream \<Rightarrow> 's stream \<times> variant \<times> bool" where
  "attrib_extract E vt var s =
     (case Read_octet vt s of
        (s1, None) \<Rightarrow> (s1, var, False)
      | (s1, Some ch) \<Rightarrow>
          (case dtype_of ch of
             None \<Rightarrow> (s1, var, False)
           | Some type \<Rightarrow> VariantExtract E vt type var s1))"

text \<open>A new sub-datum of the current datum: the tree and the path. Decoded data are not inert.\<close>

definition open_datum :: "venv \<Rightarrow> nat list \<Rightarrow> datum \<Rightarrow> (datum \<times> nat list) option" where
  "open_datum E p root = do {
     d \<leftarrow> datum_at p root;
     (d1, _) \<leftarrow> Add_named E [] d;
     sub \<leftarrow> Get d1;
     Some (datum_upd p (\<lambda>_. d1) root, p @ sub)
   }"

text \<open>
  The loop of \<open>DecodeElement\<close>: the world, whether the root datum is still to come, and the variant that
  the attributes go through.
\<close>

partial_function (option) elem_loop ::
  "venv \<Rightarrow> 's vtable \<Rightarrow> bool \<Rightarrow> variant \<Rightarrow> 's decworld \<Rightarrow> ('s decworld \<times> bool) option" where
  "elem_loop E vt rootDatum var w =
     (case Read_octet vt (dw_stream w) of
        (s1, None) \<Rightarrow> Some (w\<lparr>dw_stream := s1\<rparr>, False)
      | (s1, Some ch) \<Rightarrow>
          if ch = mk_PkgEnd then Some (w\<lparr>dw_stream := s1\<rparr>, True)
          else if ch = mk_Dat then
            (if rootDatum then elem_loop E vt False var (w\<lparr>dw_stream := s1\<rparr>)
             else (case open_datum E (hd (dw_stack w)) (dw_root w) of
                     None \<Rightarrow> None
                   | Some (root1, p1) \<Rightarrow>
                       elem_loop E vt False var (w\<lparr>dw_stream := s1, dw_root := root1, dw_stack := p1 # dw_stack w\<rparr>)))
          else if ch = mk_DatEnd then
            elem_loop E vt rootDatum var
              (w\<lparr>dw_stream := s1, dw_stack := (if length (dw_stack w) > 1 then tl (dw_stack w) else dw_stack w)\<rparr>)
          else if ch = mk_Chk \<or> ch = mk_ChkEnd then elem_loop E vt rootDatum var (w\<lparr>dw_stream := s1\<rparr>)
          else
            (case m_TagMap ch of
               None \<Rightarrow> Some (w\<lparr>dw_stream := s1\<rparr>, False)
             | Some attrib \<Rightarrow>
                 (case attrib_extract E vt var s1 of
                    (s2, var1, rv) \<Rightarrow>
                      if rv then
                        elem_loop E vt rootDatum var1
                          (w\<lparr>dw_stream := s2, dw_root := datum_upd (hd (dw_stack w)) (AttrSet E attrib var1) (dw_root w)\<rparr>)
                      else Some (w\<lparr>dw_stream := s2\<rparr>, False))))"

definition nat_DecodeElement :: "venv \<Rightarrow> 's vtable \<Rightarrow> 's decoding" where
  "nat_DecodeElement E vt w =
     (if dw_stack w = [] then Some (w, False) else elem_loop E vt True (Variant_new E False) w)"

text \<open>The last octet is read but not compared with the closing marker.\<close>

definition nat_DecodeChecksum :: "host \<Rightarrow> 's vtable \<Rightarrow> 's decoding" where
  "nat_DecodeChecksum h vt w =
     (let pos = Pos vt (dw_stream w)
      in case octets_expect vt mk_Chk (dw_stream w) of
           (s1, None) \<Rightarrow> Some (w\<lparr>dw_stream := s1\<rparr>, False)
         | (s1, Some ch) \<Rightarrow>
             (case (if ch = 1 then
                      (case LongExtract h vt s1 of
                         (s2, None) \<Rightarrow> (s2, False)
                       | (s2, Some crcs) \<Rightarrow> (s2, crcs = Stream_Crc32Get pos vt s2 pos))
                    else (s1, ch \<noteq> 2 \<and> ch \<noteq> 3)) of
                (s2, rv) \<Rightarrow>
                  if rv then (case Read_octet vt s2 of (s3, r) \<Rightarrow> Some (w\<lparr>dw_stream := s3\<rparr>, r \<noteq> None))
                  else Some (w\<lparr>dw_stream := s2\<rparr>, False)))"

definition SerDesNative :: "venv \<Rightarrow> 's vtable \<Rightarrow> ('s stream, 's decworld) serdes" where
  "SerDesNative E vt =
     \<lparr>sd_Open = nat_Open vt, sd_Close = nat_Close (e_host E) vt, sd_Start = nat_Start E vt, sd_End = nat_End vt,
      sd_DecodeIdent = nat_DecodeIdent vt, sd_DecodeVersion = nat_DecodeVersion vt,
      sd_DecodeElement = nat_DecodeElement E vt, sd_DecodeChecksum = nat_DecodeChecksum (e_host E) vt\<rparr>"

definition nat_CheckEncoding :: "'s vtable \<Rightarrow> 's stream \<Rightarrow> ('s stream \<times> bool) option" where
  "nat_CheckEncoding vt Stream =
     (case Seek vt Stream 0 of
        (s1, False) \<Rightarrow> Some (s1, False)
      | (s1, True) \<Rightarrow>
          map_option (\<lambda>(w, rv). (dw_stream w, rv))
            (nat_DecodeIdent vt \<lparr>dw_stream = s1, dw_root = Datum False True (\<lambda>_. None) 0 [], dw_stack = []\<rparr>))"

end
