(* ===== verification/TreeCodec.thy ===== *)
theory TreeCodec
  imports SerDesNative StreamGrow
begin

text \<open>
  What the serializers have in common: the abstract tree that a datum represents, the output for a
  tree as the outputs for its beginnings, attributes and ends, and the contracts of an encoder and of a
  decoder of such a format, as locales. In them it is proved once that the encoder writes exactly the
  output of the tree, and that the decoder, standing before it, builds a datum that represents the tree.
\<close>

section \<open>Trees\<close>

datatype dtree = DT "attrib \<Rightarrow> vval option" "dtree list"

fun rep :: "venv \<Rightarrow> datum \<Rightarrow> dtree \<Rightarrow> bool"
  and rep_list :: "venv \<Rightarrow> datum list \<Rightarrow> dtree list \<Rightarrow> bool"
where
  "rep E d (DT av ts) =
     (\<not> m_Inert d \<and> (\<forall>k \<in> set all_attribs. rel_option (has E) (m_Attribs d k) (av k)) \<and> rep_list E (m_Datums d) ts)"
| "rep_list E ds [] = (ds = [])"
| "rep_list E ds (t # ts) = (case ds of [] \<Rightarrow> False | d # ds' \<Rightarrow> rep E d t \<and> rep_list E ds' ts)"

text \<open>
  The trees of the encoding: no attribute under \<open>attr_None\<close>, names and strings that can be read as such, lengths
  of 32 bits.
\<close>

fun val_ok :: "vval \<Rightarrow> bool" where
  "val_ok (V_str s) = (length s < 2 ^ 32 - 1 \<and> 0 \<notin> set s)"
| "val_ok (V_blob b) = (length b < 2 ^ 32)"
| "val_ok x = True"

definition attrs_ok :: "(attrib \<Rightarrow> vval option) \<Rightarrow> bool" where
  "attrs_ok av \<longleftrightarrow> av attr_None = None \<and> (\<forall>b. av attr_Name \<noteq> Some (V_blob b)) \<and> (\<forall>k x. av k = Some x \<longrightarrow> val_ok x)"

fun tree_ok :: "dtree \<Rightarrow> bool" where
  "tree_ok (DT av ts) = (attrs_ok av \<and> (\<forall>t \<in> set ts. tree_ok t))"

fun root_named :: "dtree \<Rightarrow> bool" where
  "root_named (DT av ts) = (av attr_Name \<noteq> None)"

fun tree_depth :: "dtree \<Rightarrow> nat" where
  "tree_depth (DT av ts) = Suc (foldr max (map tree_depth ts) 0)"

lemma foldr_max_le: "t \<in> set ts \<Longrightarrow> f t \<le> foldr max (map f ts) (0 :: nat)"
  by (induction ts) (auto simp: max.coboundedI2)

lemma set_all_attribs [simp]: "set all_attribs = UNIV"
  by (auto simp: all_attribs_def intro: attrib.exhaust)

lemma rep_list_app: "rep_list E (ds1 @ ds2) (ts1 @ ts2) = (rep_list E ds1 ts1 \<and> rep_list E ds2 ts2)"
  if "length ds1 = length ts1"
  using that by (induction ds1 ts1 rule: list_induct2) simp_all

lemma rep_list_length: "rep_list E ds ts \<Longrightarrow> length ds = length ts"
  by (induction ts arbitrary: ds) (auto split: list.splits)

text \<open>The attributes of a tree in the order of their types, and the type of its value.\<close>

definition attr_pairs :: "('k \<Rightarrow> 'v option) \<Rightarrow> 'k list \<Rightarrow> ('k \<times> 'v) list" where
  "attr_pairs av ks = concat (map (\<lambda>k. case av k of Some x \<Rightarrow> [(k, x)] | None \<Rightarrow> []) ks)"

lemma attr_pairs_simps [simp]:
  "attr_pairs av [] = []"
  "attr_pairs av (k # ks) = (case av k of Some x \<Rightarrow> [(k, x)] | None \<Rightarrow> []) @ attr_pairs av ks"
  by (simp_all add: attr_pairs_def)

lemma attrib_list_pairs: "attrib_list d = attr_pairs (m_Attribs d) all_attribs"
  by (simp add: attrib_list_def attr_pairs_def)

lemma attr_pairs_map:
  "distinct ks \<Longrightarrow> map_of (attr_pairs av ks) k = (if k \<in> set ks then av k else None) \<and>
    fst ` set (attr_pairs av ks) = {k \<in> set ks. av k \<noteq> None} \<and> distinct (map fst (attr_pairs av ks))"
  by (induction ks) (auto split: option.splits)

lemma attr_pairs_all: "map_of (attr_pairs av all_attribs) = av" "distinct (map fst (attr_pairs av all_attribs))"
proof -
  have "distinct all_attribs" by (simp add: all_attribs_def)
  then show "map_of (attr_pairs av all_attribs) = av" "distinct (map fst (attr_pairs av all_attribs))"
    using attr_pairs_map [of all_attribs av] by (auto simp: fun_eq_iff)
qed

definition val_type :: "(attrib \<Rightarrow> vval option) \<Rightarrow> dtype" where
  "val_type av = (case av attr_Val of Some x \<Rightarrow> vtype x | None \<Rightarrow> dt_inert)"

text \<open>
  The output for a tree whose root is at the level \<open>lv\<close>; beginnings and attributes may depend on the
  type of the datum's value.
\<close>

fun tree_out :: "(nat \<Rightarrow> dtype \<Rightarrow> octets) \<Rightarrow> (nat \<Rightarrow> dtype \<Rightarrow> attrib \<times> vval \<Rightarrow> octets) \<Rightarrow> (nat \<Rightarrow> octets) \<Rightarrow> nat \<Rightarrow> dtree \<Rightarrow> octets" where
  "tree_out beg att fin lv (DT av ts) =
     beg lv (val_type av) @ concat (map (att lv (val_type av)) (attr_pairs av all_attribs)) @
     concat (map (tree_out beg att fin (Suc lv)) ts) @ fin lv"

section \<open>Encoders\<close>

text \<open>
  An act that succeeds in every world with \<open>P\<close>, leaves one with \<open>Q\<close>, and writes the data \<open>D\<close>, as the
  relation \<open>grows\<close> of worlds has it.
\<close>

definition puts :: "('e \<Rightarrow> octets \<Rightarrow> 'e \<Rightarrow> bool) \<Rightarrow> 'e act \<Rightarrow> ('e \<Rightarrow> bool) \<Rightarrow> octets \<Rightarrow> ('e \<Rightarrow> bool) \<Rightarrow> bool" where
  "puts grows f P D Q \<longleftrightarrow> (\<forall>w. P w \<longrightarrow> (\<exists>w'. f w = Some (w', True) \<and> Q w' \<and> grows w D w'))"

lemma puts_obtain:
  assumes "puts grows f P D Q" "P w"
  obtains w' where "f w = Some (w', True)" "Q w'" "grows w D w'"
  using assms unfolding puts_def by blast

lemma ins_list_fun: "ins_list [] = (\<lambda>s. Some (s, True))" "ins_list (f # fs) = ins_then f (ins_list fs)"
  by (simp_all add: fun_eq_iff)

locale growth =
  fixes grows :: "'e \<Rightarrow> octets \<Rightarrow> 'e \<Rightarrow> bool"
  assumes grows_none: "grows w [] w"
    and grows_trans: "grows w D w1 \<Longrightarrow> grows w1 D1 w2 \<Longrightarrow> grows w (D @ D1) w2"
begin

lemma puts_done: "puts grows (\<lambda>w. Some (w, True)) P [] P"
  by (simp add: puts_def grows_none)

lemma puts_then: "puts grows (ins_then f g) P (D @ D1) R" if "puts grows f P D Q" "puts grows g Q D1 R"
  unfolding puts_def
proof (intro allI impI)
  fix w assume "P w"
  with that(1) obtain w1 where 1: "f w = Some (w1, True)" "Q w1" "grows w D w1" by (rule puts_obtain)
  from that(2) 1(2) obtain w2 where 2: "g w1 = Some (w2, True)" "R w2" "grows w1 D1 w2" by (rule puts_obtain)
  show "\<exists>w'. ins_then f g w = Some (w', True) \<and> R w' \<and> grows w (D @ D1) w'"
    using 1(1) 2(1,2) grows_trans [OF 1(3) 2(3)] by (intro exI [of _ w2]) (simp add: ins_then_def)
qed

lemma puts_nil: "puts grows (ins_list []) P [] P"
  unfolding ins_list_fun by (rule puts_done)

lemma puts_cons: "puts grows f P D Q \<Longrightarrow> puts grows (ins_list fs) Q D1 R \<Longrightarrow> puts grows (ins_list (f # fs)) P (D @ D1) R"
  unfolding ins_list_fun by (rule puts_then)

lemma puts_map: "list_all2 (\<lambda>f D. puts grows f P D P) fs Ds \<Longrightarrow> puts grows (ins_list fs) P (concat Ds) P"
  by (induction rule: list_all2_induct) (auto intro: puts_nil puts_cons simp del: ins_list.simps)

lemma puts_attribs:
  assumes "\<And>k v x. has E v x \<Longrightarrow> k \<noteq> attr_None \<Longrightarrow> puts grows (f (k, v)) P (D (k, x)) P"
    and "rep E d (DT av ts)" and "av attr_None = None"
  shows "puts grows (ins_list (map f (attrib_list d))) P (concat (map D (attr_pairs av all_attribs))) P"
proof (rule puts_map)
  have r: "rel_option (has E) (m_Attribs d k) (av k)" for k using assms(2) by simp
  have "list_all2 (\<lambda>f D. puts grows f P D P) (map f (attr_pairs (m_Attribs d) ks)) (map D (attr_pairs av ks))" for ks
  proof (induction ks)
    case (Cons k ks)
    show ?case
    proof (cases "av k")
      case None
      then show ?thesis using r [of k] Cons by simp
    next
      case (Some x)
      then have "k \<noteq> attr_None" using assms(3) by auto
      then show ?thesis using r [of k] Cons assms(1) Some by (cases "m_Attribs d k") simp_all
    qed
  qed simp
  then show "list_all2 (\<lambda>f D. puts grows f P D P) (map f (attrib_list d)) (map D (attr_pairs av all_attribs))"
    unfolding attrib_list_pairs .
qed

end

text \<open>
  An encoder: its worlds at the nesting level \<open>lv\<close>, the outputs, and the levels it can take.
\<close>

locale tree_writer = growth grows for grows :: "'e \<Rightarrow> octets \<Rightarrow> 'e \<Rightarrow> bool" +
  fixes E :: venv and sd :: "('e, 'd) serdes" and level :: "nat \<Rightarrow> 'e \<Rightarrow> bool"
    and beg :: "nat \<Rightarrow> dtype \<Rightarrow> octets" and att :: "nat \<Rightarrow> dtype \<Rightarrow> attrib \<times> vval \<Rightarrow> octets" and fin :: "nat \<Rightarrow> octets"
    and deep :: "nat \<Rightarrow> bool"
  assumes start: "rep E d (DT av ts) \<Longrightarrow> av attr_None = None \<Longrightarrow> deep lv \<Longrightarrow>
      puts grows (sd_Start sd d) (level lv) (beg lv (val_type av) @ concat (map (att lv (val_type av)) (attr_pairs av all_attribs))) (level (Suc lv))"
    and finish: "deep lv \<Longrightarrow> puts grows (sd_End sd d) (level (Suc lv)) (fin lv) (level lv)"
begin

definition writes :: "dtree \<Rightarrow> bool" where
  "writes t \<longleftrightarrow>
     (\<forall>d lv w. rep E d t \<and> (\<forall>i < tree_depth t. deep (lv + i)) \<and> level lv w \<longrightarrow>
        (\<exists>w1 n. dat_encode sd d w = Some (w1, n) \<and> n \<noteq> 0 \<and> level lv w1 \<and> grows w (tree_out beg att fin lv t) w1))"

lemma writes_list:
  "\<forall>t \<in> set ts. writes t \<Longrightarrow> rep_list E ds ts \<Longrightarrow> \<forall>t \<in> set ts. \<forall>i < tree_depth t. deep (lv + i) \<Longrightarrow> level lv w \<Longrightarrow>
    \<exists>w1 n. dat_encode_list sd ds w = Some (w1, n) \<and> level lv w1 \<and> grows w (concat (map (tree_out beg att fin lv) ts)) w1"
proof (induction ts arbitrary: ds w)
  case Nil
  then show ?case by (simp add: grows_none)
next
  case (Cons t ts)
  then obtain d ds' where ds: "ds = d # ds'" "rep E d t" "rep_list E ds' ts" by (cases ds) simp_all
  have "writes t" "\<forall>i < tree_depth t. deep (lv + i)" using Cons.prems by simp_all
  with ds(2) Cons.prems(4) obtain w1 n where 1: "dat_encode sd d w = Some (w1, n)" "level lv w1" "grows w (tree_out beg att fin lv t) w1"
    unfolding writes_def by blast
  have "\<forall>t \<in> set ts. writes t" "\<forall>t \<in> set ts. \<forall>i < tree_depth t. deep (lv + i)" using Cons.prems by simp_all
  from Cons.IH [OF this(1) ds(3) this(2) 1(2)] obtain w2 m where
    2: "dat_encode_list sd ds' w1 = Some (w2, m)" "level lv w2" "grows w1 (concat (map (tree_out beg att fin lv) ts)) w2" by blast
  show ?case using 1(1) 2(1,2) grows_trans [OF 1(3) 2(3)] by (simp add: ds(1))
qed

lemma writes_tree: "tree_ok t \<Longrightarrow> writes t"
proof (induction t)
  case (DT av ts)
  have sub: "\<forall>t \<in> set ts. writes t" and n: "av attr_None = None" using DT by (auto simp: attrs_ok_def)
  show ?case
    unfolding writes_def
  proof (intro allI impI, elim conjE)
    fix d lv w
    assume r: "rep E d (DT av ts)" and dp: "\<forall>i < tree_depth (DT av ts). deep (lv + i)" and l: "level lv w"
    obtain i sf a it ds where d: "d = Datum i sf a it ds" by (cases d)
    have dl: "deep lv" using spec [OF dp, of 0] by simp
    from start [OF r n dl] l obtain w1 where 1: "sd_Start sd d w = Some (w1, True)" "level (Suc lv) w1"
      "grows w (beg lv (val_type av) @ concat (map (att lv (val_type av)) (attr_pairs av all_attribs))) w1" by (rule puts_obtain)
    have dsub: "\<forall>t \<in> set ts. \<forall>i < tree_depth t. deep (Suc lv + i)"
    proof (intro ballI allI impI)
      fix t i assume "t \<in> set ts" "i < tree_depth t"
      then have "Suc i < tree_depth (DT av ts)" using foldr_max_le [of t ts tree_depth] by simp
      then show "deep (Suc lv + i)" using spec [OF dp, of "Suc i"] by simp
    qed
    have rl: "rep_list E ds ts" using r d by simp
    from writes_list [OF sub rl dsub 1(2)] obtain w2 m where 2: "dat_encode_list sd ds w1 = Some (w2, m)" "level (Suc lv) w2"
      "grows w1 (concat (map (tree_out beg att fin (Suc lv)) ts)) w2" by blast
    from finish [OF dl, of d] 2(2) obtain w3 where 3: "sd_End sd d w2 = Some (w3, True)" "level lv w3" "grows w2 (fin lv) w3"
      by (rule puts_obtain)
    have "dat_encode sd d w = Some (w3, of_bool True + m + of_bool True)" unfolding d using 1(1) 2(1) 3(1) d by simp
    moreover have "grows w (tree_out beg att fin lv (DT av ts)) w3"
      using grows_trans [OF grows_trans [OF 1(3) 2(3)] 3(3)] by simp
    ultimately show "\<exists>w1 n. dat_encode sd d w = Some (w1, n) \<and> n \<noteq> 0 \<and> level lv w1 \<and> grows w (tree_out beg att fin lv (DT av ts)) w1"
      using 3(2) by (intro exI [of _ w3]) simp
  qed
qed

lemma puts_tree:
  assumes "rep E d t" and "tree_ok t" and "\<And>i. i < tree_depth t \<Longrightarrow> deep (lv + i)"
  shows "puts grows (\<lambda>w. map_option (\<lambda>(w1, n). (w1, n \<noteq> 0)) (dat_encode sd d w)) (level lv) (tree_out beg att fin lv t) (level lv)"
  unfolding puts_def
proof (intro allI impI)
  fix w assume "level lv w"
  with writes_tree [OF assms(2)] assms(1,3) obtain w1 n where
    "dat_encode sd d w = Some (w1, n)" "n \<noteq> 0" "level lv w1" "grows w (tree_out beg att fin lv t) w1"
    unfolding writes_def by blast
  then show "\<exists>w'. map_option (\<lambda>(w1, n). (w1, n \<noteq> 0)) (dat_encode sd d w) = Some (w', True) \<and> level lv w' \<and>
      grows w (tree_out beg att fin lv t) w'"
    by (intro exI [of _ w1]) simp
qed

end

section \<open>Data under way\<close>

lemma datum_at_snoc:
  "datum_at p r = Some d \<Longrightarrow> i < length (m_Datums d) \<Longrightarrow> datum_at (p @ [i]) r = Some (m_Datums d ! i)"
  by (induction p r rule: datum_at.induct) (auto split: if_splits)

lemma with_datums_simps [simp]: "m_Datums (with_datums ds d) = ds" "m_Inert (with_datums ds d) = m_Inert d"
  "m_Attribs (with_datums ds d) = m_Attribs d" "with_datums es (with_datums ds d) = with_datums es d"
  by (simp_all add: with_datums_def)

lemma with_attribs_simps [simp]: "m_Datums (with_attribs a d) = m_Datums d" "m_Inert (with_attribs a d) = m_Inert d"
  "m_Attribs (with_attribs a d) = a" "with_attribs b (with_attribs a d) = with_attribs b d" "with_attribs (m_Attribs d) d = d"
  by (simp_all add: with_attribs_def)

lemma with_cursor_simps [simp]: "m_Datums (with_cursor s i d) = m_Datums d" "m_Inert (with_cursor s i d) = m_Inert d"
  "m_Attribs (with_cursor s i d) = m_Attribs d"
  by (simp_all add: with_cursor_def)

lemma datum_at_upd: "datum_at p r = Some d \<Longrightarrow> datum_at p (datum_upd p f r) = Some (f d)"
  by (induction p r rule: datum_at.induct) (auto split: if_splits)

lemma datum_upd_const: "datum_at p r = Some d \<Longrightarrow> datum_upd p f r = datum_upd p (\<lambda>_. f d) r"
  by (induction p r rule: datum_at.induct) (auto split: if_splits)

lemma datum_upd_upd: "datum_at p r = Some d \<Longrightarrow> datum_upd p (\<lambda>_. y) (datum_upd p (\<lambda>_. x) r) = datum_upd p (\<lambda>_. y) r"
  by (induction p r rule: datum_at.induct) (auto split: if_splits)

lemma datum_upd_same: "datum_at p r = Some d \<Longrightarrow> datum_upd p (\<lambda>_. d) r = r"
proof (induction p r rule: datum_at.induct)
  case (2 i p d')
  then show ?case by (cases d') (auto simp: with_datums_def split: if_splits)
qed simp

lemma datum_upd_snoc: "datum_at p r = Some d \<Longrightarrow> i < length (m_Datums d) \<Longrightarrow>
    datum_upd (p @ [i]) (\<lambda>_. x) r = datum_upd p (\<lambda>_. with_datums ((m_Datums d)[i := x]) d) r"
  by (induction p r rule: datum_at.induct) (auto split: if_splits)

lemma StrGet_readable:
  assumes h: "has E v x" and b: "\<And>b. x \<noteq> V_blob b"
  shows "StrGet E v \<noteq> None"
proof (cases x)
  case V_none
  then show ?thesis using h by (simp add: has_def StrGet_def)
qed (use h b in simp_all, (frule getters_has, force simp: has_def StrGet_def Uint8Get_def Int8Get_def Uint16Get_def Int16Get_def
      Uint32Get_def Int32Get_def Uint64Get_def Int64Get_def Float32Get_same_def Float64Get_same_def BoolGet_def)+)

lemma new_inert_name: "StrGet E (Variant_new E True) = Some []"
  by (simp add: Variant_new_def ResizeBuffer_def StrGet_def)

text \<open>The name of a datum that represents a good tree can be read.\<close>

lemma rep_name:
  assumes "rep E d t" "tree_ok t"
  shows "NameGet E d \<noteq> None"
proof -
  obtain av ts where t: "t = DT av ts" by (cases t)
  have r: "rel_option (has E) (m_Attribs d attr_Name) (av attr_Name)" using assms(1) t by simp
  have "\<forall>b. av attr_Name \<noteq> Some (V_blob b)" using assms(2) t by (simp add: attrs_ok_def)
  with r show ?thesis using StrGet_readable [of E] new_inert_name [of E]
    by (cases "m_Attribs d attr_Name"; cases "av attr_Name") (auto simp: NameGet_def Attr_def)
qed

lemma Find_readable: "\<forall>d \<in> set ds. NameGet E d \<noteq> None \<Longrightarrow> \<exists>i. Find E n ds = Some i"
  by (induction ds) auto

lemma Datum_new_empty: "Datum_new E [] False = Datum False True (\<lambda>_. None) 0 []"
  by (simp add: Datum_new_def NameSet_def AttrDel_def Rewind_def with_cursor_def with_attribs_def fun_upd_idem)

lemma Add_named_anon:
  assumes "\<not> m_Inert d" "\<forall>e \<in> set (m_Datums d). NameGet E e \<noteq> None"
  shows "Add_named E [] d = Some (with_cursor False (length (m_Datums d))
    (with_datums (m_Datums d @ [Datum False True (\<lambda>_. None) 0 []]) d), Some [length (m_Datums d)])"
proof -
  obtain i where "Find E [] (m_Datums d) = Some i" using Find_readable [OF assms(2)] by blast
  moreover have "NameGet E (Datum False True (\<lambda>_. None) 0 []) = Some []" by (simp add: NameGet_def Attr_def new_inert_name)
  ultimately show ?thesis using assms(1) by (simp add: Add_named_def Add_datum_def Datum_new_empty)
qed

lemma open_datum_spec:
  assumes "datum_at p root = Some d" "\<not> m_Inert d" "\<forall>e \<in> set (m_Datums d). NameGet E e \<noteq> None"
  shows "open_datum E p root = Some (datum_upd p (\<lambda>_. with_cursor False (length (m_Datums d))
    (with_datums (m_Datums d @ [Datum False True (\<lambda>_. None) 0 []]) d)) root, p @ [length (m_Datums d)])"
  using assms by (simp add: open_datum_def Add_named_anon Get_def with_cursor_def with_datums_def)

definition attr_ready :: "datum \<Rightarrow> bool" where
  "attr_ready d \<longleftrightarrow> (\<forall>k v. m_Attribs d k = Some v \<longrightarrow> v_Type v \<noteq> dt_inert)"

lemma new_has: "env_ok E \<Longrightarrow> has E (Variant_new E False) V_none"
proof -
  assume E: "env_ok E"
  from Resize_granted [OF E, of 8 Buf_null] obtain b where b: "Buf_Resize (e_al E) 8 Buf_null = (b, True)" "8 \<le> Buf_Size b"
    by auto
  then have "m_DataLen (Buf_LenSet 8 b) = 8" by (auto simp: Buf_LenSet_def Buf_Size_def split: option.splits)
  then show ?thesis using b Buf_LenSet_ok [of 8 b] by (simp add: has_def Variant_new_def ResizeBuffer_def)
qed

lemma has_not_inert: "has E v x \<Longrightarrow> v_Type v \<noteq> dt_inert"
  by (cases x) (simp_all add: has_def)

lemma Clear_ready:
  assumes "\<not> m_Inert r" "NameGet E r = Some n"
  obtains r1 where "Datum_Clear E r = Some r1" "\<not> m_Inert r1" "m_Datums r1 = []" "attr_ready r1"
    "\<And>k. m_Attribs r1 k \<noteq> None \<Longrightarrow> k = attr_Name \<and> n \<noteq> []"
proof -
  let ?new = "Datum_new E n False"
  have new: "\<not> m_Inert ?new" "m_Datums ?new = []" "\<And>k. m_Attribs ?new k = (if k = attr_Name \<and> n \<noteq> []
      then Some (StrSet E n (Variant_new E False)) else None)"
    by (simp_all add: Datum_new_def NameSet_def AttrDel_def AttrMod_def Rewind_def with_cursor_def with_attribs_def attr_at_def Let_def)
  define r1 where "r1 = datum_assign E r ?new"
  obtain i s a it where e: "?new = Datum i s a it []" using new(2) by (cases ?new) simp
  have "r1 = Datum i True (\<lambda>k. map_option (Variant_copy E) (a k)) 0 []" using e assms(1) by (simp add: r1_def)
  then have r1: "\<not> m_Inert r1" "m_Datums r1 = []" "\<And>k. m_Attribs r1 k = map_option (Variant_copy E) (m_Attribs ?new k)"
    using new(1) e by simp_all
  have "attr_ready r1" unfolding attr_ready_def r1(3) new(3) by (simp add: Variant_copy_def Variant_assign_def StrSet_def)
  moreover have "Datum_Clear E r = Some r1" using assms by (simp add: Datum_Clear_def r1_def)
  ultimately show thesis using r1 new(3) by (intro that [of r1]) (simp_all split: if_splits)
qed

section \<open>Decoders\<close>

definition opened :: "datum \<Rightarrow> datum" where
  "opened d = with_cursor False (length (m_Datums d)) (with_datums (m_Datums d @ [Datum False True (\<lambda>_. None) 0 []]) d)"

text \<open>The trees whose attributes all are kept by a format, beside a value of the given type.\<close>

fun tree_fits :: "(dtype \<Rightarrow> attrib \<times> vval \<Rightarrow> bool) \<Rightarrow> dtree \<Rightarrow> bool" where
  "tree_fits okv (DT av ts) = ((\<forall>k x. av k = Some x \<longrightarrow> okv (val_type av) (k, x)) \<and> (\<forall>t \<in> set ts. tree_fits okv t))"

text \<open>The given attributes of a datum represent values, its others are those of another datum.\<close>

definition attrs_of :: "venv \<Rightarrow> (attrib \<Rightarrow> vval option) \<Rightarrow> datum \<Rightarrow> datum \<Rightarrow> bool" where
  "attrs_of E av d0 d \<longleftrightarrow>
     (\<forall>k. case av k of Some y \<Rightarrow> \<exists>v. m_Attribs d k = Some v \<and> has E v y | None \<Rightarrow> m_Attribs d k = m_Attribs d0 k)"

lemma attrs_of_rep: "attrs_of E av d0 d \<Longrightarrow> (\<And>k. av k = None \<Longrightarrow> m_Attribs d0 k = None) \<Longrightarrow> rel_option (has E) (m_Attribs d k) (av k)"
  unfolding attrs_of_def by (drule spec [of _ k]) (auto split: option.splits)

text \<open>
  A decoder: the result of its loop from a world, and the worlds that stand with a stack, a root
  datum and a type of values before some input. It takes the output of each beginning, attribute and
  end in a number of passes of the loop.
\<close>

locale tree_reader =
  fixes E :: venv and run :: "'w \<Rightarrow> 'r" and at :: "'w \<Rightarrow> nat list list \<Rightarrow> datum \<Rightarrow> dtype \<Rightarrow> octets \<Rightarrow> bool"
    and beg :: "nat \<Rightarrow> dtype \<Rightarrow> octets" and att :: "nat \<Rightarrow> dtype \<Rightarrow> attrib \<times> vval \<Rightarrow> octets" and fin :: "nat \<Rightarrow> octets"
    and okv :: "dtype \<Rightarrow> attrib \<times> vval \<Rightarrow> bool"
  assumes read_beg: "at w p root ty (beg lv ty1 @ rest) \<Longrightarrow> p \<noteq> [] \<Longrightarrow> datum_at (hd p) root = Some d \<Longrightarrow> \<not> m_Inert d \<Longrightarrow>
      \<forall>e \<in> set (m_Datums d). NameGet E e \<noteq> None \<Longrightarrow>
      \<exists>w1. run w = run w1 \<and> at w1 ((hd p @ [length (m_Datums d)]) # p) (datum_upd (hd p) (\<lambda>_. opened d) root) ty1 rest"
    and read_att: "at w p root ty (att lv ty (k, x) @ rest) \<Longrightarrow> p \<noteq> [] \<Longrightarrow> okv ty (k, x) \<Longrightarrow> env_ok E \<Longrightarrow>
      \<exists>w1 v. run w = run w1 \<and> has E v x \<and> at w1 p (datum_upd (hd p) (AttrSet E k v) root) ty rest"
    and read_fin: "at w (q # p) root ty (fin lv @ rest) \<Longrightarrow> p \<noteq> [] \<Longrightarrow> \<exists>w1 ty1. run w = run w1 \<and> at w1 p root ty1 rest"
begin

text \<open>The loop moves from \<open>w\<close>, with the stack \<open>p\<close> and the root \<open>root\<close>, to the end of an input, and the current datum becomes \<open>d1\<close>.\<close>

definition moves :: "'w \<Rightarrow> nat list list \<Rightarrow> datum \<Rightarrow> datum \<Rightarrow> dtype \<Rightarrow> octets \<Rightarrow> bool" where
  "moves w p root d1 ty rest \<longleftrightarrow> (\<exists>w1. run w = run w1 \<and> at w1 p (datum_upd (hd p) (\<lambda>_. d1) root) ty rest)"

lemma moves_none: "at w p root ty rest \<Longrightarrow> datum_at (hd p) root = Some d \<Longrightarrow> moves w p root d ty rest"
  unfolding moves_def by (intro exI [of _ w]) (simp add: datum_upd_same)

lemma moves_on:
  assumes "run w = run w1" and "datum_at (hd p) root = Some d" and "moves w1 p (datum_upd (hd p) (\<lambda>_. d1) root) d2 ty rest"
  shows "moves w p root d2 ty rest"
  using assms datum_upd_upd [OF assms(2), of d2 d1] unfolding moves_def by auto

lemma read_attrs:
  assumes "env_ok E" and "p \<noteq> []"
  shows "at w p root ty (concat (map (att lv ty) kxs) @ rest) \<Longrightarrow> datum_at (hd p) root = Some d \<Longrightarrow> \<not> m_Inert d \<Longrightarrow>
    attr_ready d \<Longrightarrow> distinct (map fst kxs) \<Longrightarrow> \<forall>kx \<in> set kxs. okv ty kx \<Longrightarrow>
    \<exists>a. moves w p root (with_attribs a d) ty rest \<and> attrs_of E (map_of kxs) d (with_attribs a d)"
proof (induction kxs arbitrary: w root d)
  case Nil
  then show ?case using moves_none [of w p root ty rest d]
    by (intro exI [of _ "m_Attribs d"]) (simp add: attrs_of_def)
next
  case (Cons kx kxs)
  obtain k x where kx: "kx = (k, x)" by fastforce
  have "at w p root ty (att lv ty (k, x) @ concat (map (att lv ty) kxs) @ rest)" "okv ty (k, x)"
    using Cons.prems(1,6) kx by simp_all
  from read_att [OF this(1) assms(2) this(2) assms(1)] obtain w1 var where 1: "run w = run w1" "has E var x"
    "at w1 p (datum_upd (hd p) (AttrSet E k var) root) ty (concat (map (att lv ty) kxs) @ rest)" by blast
  define v where "v = Variant_assign E var (attr_at E k d)"
  have "v_Type (attr_at E k d) \<noteq> dt_inert"
    using Cons.prems(4) has_not_inert [OF new_has [OF assms(1)]] by (auto simp: attr_at_def attr_ready_def split: option.splits)
  then have hv: "has E v x" unfolding v_def using assign_has [OF assms(1) _ 1(2)] by simp
  let ?d1 = "with_attribs ((m_Attribs d)(k \<mapsto> v)) d"
  have set: "datum_upd (hd p) (AttrSet E k var) root = datum_upd (hd p) (\<lambda>_. ?d1) root"
    using datum_upd_const [OF Cons.prems(2), of "AttrSet E k var"] Cons.prems(3) by (simp add: AttrSet_def v_def)
  have at1: "at w1 p (datum_upd (hd p) (\<lambda>_. ?d1) root) ty (concat (map (att lv ty) kxs) @ rest)" using 1(3) set by simp
  have d1: "datum_at (hd p) (datum_upd (hd p) (\<lambda>_. ?d1) root) = Some ?d1" using datum_at_upd [OF Cons.prems(2)] by simp
  have rd: "attr_ready ?d1" using Cons.prems(4) has_not_inert [OF hv] by (simp add: attr_ready_def)
  have ok: "k \<notin> fst ` set kxs" "distinct (map fst kxs)" "\<forall>kx \<in> set kxs. okv ty kx" using Cons.prems(5,6) kx by auto
  from Cons.IH [OF at1 d1 _ rd ok(2,3)] Cons.prems(3) obtain b where
    b: "moves w1 p (datum_upd (hd p) (\<lambda>_. ?d1) root) (with_attribs b d) ty rest" "attrs_of E (map_of kxs) ?d1 (with_attribs b d)" by auto
  have "map_of kxs k = None" using ok(1) by (simp add: map_of_eq_None_iff)
  then have bk: "b k = Some v" using b(2) by (auto simp: attrs_of_def dest: spec [of _ k])
  have "attrs_of E (map_of (kx # kxs)) d (with_attribs b d)"
    unfolding attrs_of_def
  proof
    fix j
    have "case map_of kxs j of Some y \<Rightarrow> \<exists>v. b j = Some v \<and> has E v y | None \<Rightarrow> b j = ((m_Attribs d)(k \<mapsto> v)) j"
      using b(2) unfolding attrs_of_def with_attribs_simps by blast
    then show "case map_of (kx # kxs) j of Some y \<Rightarrow> \<exists>v. m_Attribs (with_attribs b d) j = Some v \<and> has E v y
        | None \<Rightarrow> m_Attribs (with_attribs b d) j = m_Attribs d j"
      using bk hv kx by (cases "j = k") (simp_all split: option.splits)
  qed
  then show ?case using moves_on [OF 1(1) Cons.prems(2) b(1)] by blast
qed

text \<open>A tree is read into a new sub-datum of the current datum.\<close>

definition reads_sub :: "dtree \<Rightarrow> bool" where
  "reads_sub t \<longleftrightarrow>
     (\<forall>w p root ty lv rest d. at w p root ty (tree_out beg att fin lv t @ rest) \<and> p \<noteq> [] \<and> datum_at (hd p) root = Some d \<and>
        \<not> m_Inert d \<and> (\<forall>e \<in> set (m_Datums d). NameGet E e \<noteq> None) \<longrightarrow>
      (\<exists>ty1 d1 e. moves w p root d1 ty1 rest \<and> \<not> m_Inert d1 \<and> m_Datums d1 = m_Datums d @ [e] \<and> m_Attribs d1 = m_Attribs d \<and> rep E e t))"

lemma read_subs:
  assumes "\<forall>t \<in> set ts. tree_ok t \<and> reads_sub t" and "p \<noteq> []"
  shows "at w p root ty (concat (map (tree_out beg att fin lv) ts) @ rest) \<Longrightarrow> datum_at (hd p) root = Some d \<Longrightarrow>
    \<not> m_Inert d \<Longrightarrow> \<forall>e \<in> set (m_Datums d). NameGet E e \<noteq> None \<Longrightarrow>
    \<exists>ty1 d1 es. moves w p root d1 ty1 rest \<and> \<not> m_Inert d1 \<and> m_Datums d1 = m_Datums d @ es \<and> m_Attribs d1 = m_Attribs d \<and> rep_list E es ts"
  using assms(1)
proof (induction ts arbitrary: w root ty d)
  case Nil
  then show ?case using moves_none [of w p root ty rest d] by (intro exI [of _ ty] exI [of _ d] exI [of _ "[]"]) simp
next
  case (Cons t ts)
  have t: "tree_ok t" "reads_sub t" and ts: "\<forall>t \<in> set ts. tree_ok t \<and> reads_sub t" using Cons.prems(5) by simp_all
  have a: "at w p root ty (tree_out beg att fin lv t @ concat (map (tree_out beg att fin lv) ts) @ rest)" using Cons.prems(1) by simp
  from t(2) a Cons.prems(2-4) assms(2) obtain ty1 d1 e where
    1: "moves w p root d1 ty1 (concat (map (tree_out beg att fin lv) ts) @ rest)" "\<not> m_Inert d1" "m_Datums d1 = m_Datums d @ [e]"
      "m_Attribs d1 = m_Attribs d" "rep E e t"
    unfolding reads_sub_def by blast
  from 1(1) obtain w1 where w1: "run w = run w1"
    "at w1 p (datum_upd (hd p) (\<lambda>_. d1) root) ty1 (concat (map (tree_out beg att fin lv) ts) @ rest)" unfolding moves_def by blast
  have d1: "datum_at (hd p) (datum_upd (hd p) (\<lambda>_. d1) root) = Some d1" using datum_at_upd [OF Cons.prems(2)] by simp
  have n: "\<forall>e \<in> set (m_Datums d1). NameGet E e \<noteq> None" using 1(3) Cons.prems(4) rep_name [OF 1(5) t(1)] by simp
  from Cons.IH [OF w1(2) d1 1(2) n ts] obtain ty2 d2 es where
    2: "moves w1 p (datum_upd (hd p) (\<lambda>_. d1) root) d2 ty2 rest" "\<not> m_Inert d2" "m_Datums d2 = m_Datums d1 @ es" "m_Attribs d2 = m_Attribs d1"
      "rep_list E es ts" by blast
  show ?case using moves_on [OF w1(1) Cons.prems(2) 2(1)] 1(3-5) 2(2-5)
    by (intro exI [of _ ty2] exI [of _ d2] exI [of _ "e # es"]) simp
qed

text \<open>The attributes and the sub-data of a tree, read into a datum without sub-data.\<close>

lemma read_body:
  assumes E: "env_ok E" and p: "p \<noteq> []" and ok: "tree_ok (DT av ts)" "tree_fits okv (DT av ts)" and sub: "\<forall>t \<in> set ts. reads_sub t"
    and a: "at w p root (val_type av) (concat (map (att lv (val_type av)) (attr_pairs av all_attribs)) @
      concat (map (tree_out beg att fin (Suc lv)) ts) @ rest)"
    and d: "datum_at (hd p) root = Some d" "\<not> m_Inert d" "attr_ready d" "m_Datums d = []"
  shows "\<exists>ty1 d1. moves w p root d1 ty1 rest \<and> \<not> m_Inert d1 \<and> rep_list E (m_Datums d1) ts \<and> attrs_of E av d d1"
proof -
  have "okv (val_type av) kx" if "kx \<in> set (attr_pairs av all_attribs)" for kx
  proof -
    obtain k x where kx: "kx = (k, x)" by fastforce
    then have "av k = Some x" using that attr_pairs_all [of av] by (metis map_of_is_SomeI)
    then show ?thesis using ok(2) kx by simp
  qed
  then have "\<forall>kx \<in> set (attr_pairs av all_attribs). okv (val_type av) kx" by blast
  from read_attrs [OF E p a d(1-3) attr_pairs_all(2) this, unfolded attr_pairs_all(1)] obtain b where
    b: "moves w p root (with_attribs b d) (val_type av) (concat (map (tree_out beg att fin (Suc lv)) ts) @ rest)"
      "attrs_of E av d (with_attribs b d)" by blast
  from b(1) obtain w1 where w1: "run w = run w1" "at w1 p (datum_upd (hd p) (\<lambda>_. with_attribs b d) root) (val_type av)
      (concat (map (tree_out beg att fin (Suc lv)) ts) @ rest)" unfolding moves_def by blast
  have d1: "datum_at (hd p) (datum_upd (hd p) (\<lambda>_. with_attribs b d) root) = Some (with_attribs b d)" using datum_at_upd [OF d(1)] by simp
  have "\<forall>t \<in> set ts. tree_ok t \<and> reads_sub t" using ok(1) sub by simp
  from read_subs [OF this p w1(2) d1] d(2,4) obtain ty2 d2 where
    2: "moves w1 p (datum_upd (hd p) (\<lambda>_. with_attribs b d) root) d2 ty2 rest" "\<not> m_Inert d2" "m_Attribs d2 = b" "rep_list E (m_Datums d2) ts" by auto
  have "attrs_of E av d d2" using b(2) unfolding attrs_of_def with_attribs_simps 2(3) .
  then show ?thesis using moves_on [OF w1(1) d(1) 2(1)] 2(2,4) by blast
qed

lemma reads_tree:
  assumes E: "env_ok E"
  shows "tree_ok t \<Longrightarrow> tree_fits okv t \<Longrightarrow> reads_sub t"
proof (induction t)
  case (DT av ts)
  have sub: "\<forall>t \<in> set ts. reads_sub t" using DT by simp
  show ?case
    unfolding reads_sub_def
  proof (intro allI impI, elim conjE)
    fix w p root ty lv rest d
    assume a: "at w p root ty (tree_out beg att fin lv (DT av ts) @ rest)" and p: "p \<noteq> []" and d: "datum_at (hd p) root = Some d"
      "\<not> m_Inert d" and n: "\<forall>e \<in> set (m_Datums d). NameGet E e \<noteq> None"
    let ?body = "concat (map (att lv (val_type av)) (attr_pairs av all_attribs)) @ concat (map (tree_out beg att fin (Suc lv)) ts)"
    let ?k = "length (m_Datums d)" and ?new = "Datum False True (\<lambda>_. None) 0 []"
    let ?q = "hd p @ [?k]" and ?root0 = "datum_upd (hd p) (\<lambda>_. opened d) root"
    have "at w p root ty (beg lv (val_type av) @ ?body @ fin lv @ rest)" using a by simp
    from read_beg [OF this p d n] obtain w0 where w0: "run w = run w0" "at w0 (?q # p) ?root0 (val_type av) (?body @ fin lv @ rest)" by blast
    have root0: "datum_at (hd p) ?root0 = Some (opened d)" using datum_at_upd [OF d(1)] by simp
    then have "datum_at ?q ?root0 = Some ?new" using datum_at_snoc [OF root0, of ?k] by (simp add: opened_def)
    then have q: "datum_at (hd (?q # p)) ?root0 = Some ?new" by simp
    have "at w0 (?q # p) ?root0 (val_type av) (concat (map (att lv (val_type av)) (attr_pairs av all_attribs)) @
      concat (map (tree_out beg att fin (Suc lv)) ts) @ fin lv @ rest)" using w0(2) by simp
    from read_body [OF E _ DT.prems sub this q] obtain ty1 e where
      e: "moves w0 (?q # p) ?root0 e ty1 (fin lv @ rest)" "\<not> m_Inert e" "rep_list E (m_Datums e) ts" "attrs_of E av ?new e"
      by (auto simp: attr_ready_def)
    let ?d1 = "with_datums (m_Datums d @ [e]) (opened d)"
    have "datum_upd ?q (\<lambda>_. e) ?root0 = datum_upd (hd p) (\<lambda>_. with_datums ((m_Datums (opened d))[?k := e]) (opened d)) ?root0"
      using datum_upd_snoc [OF root0, of ?k e] by (simp add: opened_def)
    also have "with_datums ((m_Datums (opened d))[?k := e]) (opened d) = ?d1" by (simp add: opened_def)
    finally have root1: "datum_upd ?q (\<lambda>_. e) ?root0 = datum_upd (hd p) (\<lambda>_. ?d1) root"
      using datum_upd_upd [OF d(1), of ?d1 "opened d"] by simp
    from e(1) obtain w1 where w1: "run w0 = run w1" "at w1 (?q # p) (datum_upd (hd p) (\<lambda>_. ?d1) root) ty1 (fin lv @ rest)"
      unfolding moves_def list.sel root1 by blast
    from read_fin [OF w1(2) p] obtain w2 ty2 where w2: "run w1 = run w2" "at w2 p (datum_upd (hd p) (\<lambda>_. ?d1) root) ty2 rest" by blast
    have "moves w p root ?d1 ty2 rest" unfolding moves_def using w0(1) w1(1) w2 by (intro exI [of _ w2]) simp
    moreover have "rep E e (DT av ts)" using e(2,3) attrs_of_rep [OF e(4)] by simp
    ultimately show "\<exists>ty1 d1 e. moves w p root d1 ty1 rest \<and> \<not> m_Inert d1 \<and> m_Datums d1 = m_Datums d @ [e] \<and> m_Attribs d1 = m_Attribs d \<and>
        rep E e (DT av ts)"
      using d(2) by (intro exI [of _ ty2] exI [of _ ?d1] exI [of _ e]) (simp add: opened_def)
  qed
qed

text \<open>The root: the datum that the decoder starts from has no sub-data and at most attributes that the tree brings.\<close>

lemma read_root:
  assumes E: "env_ok E" and ok: "tree_ok (DT av ts)" "tree_fits okv (DT av ts)"
    and a: "at w [[]] root (val_type av) (concat (map (att lv (val_type av)) (attr_pairs av all_attribs)) @
      concat (map (tree_out beg att fin (Suc lv)) ts) @ rest)"
    and d: "\<not> m_Inert root" "attr_ready root" "m_Datums root = []" "\<And>k. av k = None \<Longrightarrow> m_Attribs root k = None"
  shows "\<exists>w1 ty1 e. run w = run w1 \<and> at w1 [[]] e ty1 rest \<and> rep E e (DT av ts)"
proof -
  have sub: "\<forall>t \<in> set ts. reads_sub t" using ok reads_tree [OF E] by simp
  from read_body [OF E _ ok sub a _ d(1-3)] obtain ty1 e where
    e: "moves w [[]] root e ty1 rest" "\<not> m_Inert e" "rep_list E (m_Datums e) ts" "attrs_of E av root e" by auto
  have "rep E e (DT av ts)" using e(2,3) attrs_of_rep [OF e(4) d(4)] by simp
  then show ?thesis using e(1) by (auto simp: moves_def)
qed

end

end
