(* ===== verification/NativeWire.thy ===== *)
theory NativeWire
  imports TreeCodec
begin

text \<open>
  What the native encoding of a datum is: the octets of its tree, and the encoder's promise, on any growing storage, to append exactly these octets to
  the stream. Where an insertion cannot fail it is enough to follow the streams that stand at
  their end.
\<close>

section \<open>Octets\<close>

definition len_octets :: "nat \<Rightarrow> octets" where
  "len_octets n =
     (if n < 128 then [of_nat n] else if n < 65536 then [128, of_nat (n div 256), of_nat (n mod 256)]
      else 129 # be_octets (of_nat n :: u32))"

fun val_octets :: "vval \<Rightarrow> octets" where
  "val_octets V_none = []" | "val_octets (V_u8 w) = [w]" | "val_octets (V_i8 w) = [w]"
| "val_octets (V_u16 w) = be_octets w" | "val_octets (V_i16 w) = be_octets w"
| "val_octets (V_u32 w) = be_octets w" | "val_octets (V_i32 w) = be_octets w"
| "val_octets (V_u64 w) = be_octets w" | "val_octets (V_i64 w) = be_octets w"
| "val_octets (V_f32 w) = be_octets w" | "val_octets (V_f64 w) = be_octets w"
| "val_octets (V_bool b) = [if b then 1 else 0]"
| "val_octets (V_str s) = len_octets (length s) @ s" | "val_octets (V_blob s) = len_octets (length s) @ s"

definition attr_octets :: "attrib \<times> vval \<Rightarrow> octets" where
  "attr_octets kx = m_AttribMap (fst kx) # dtype_code (vtype (snd kx)) # val_octets (snd kx)"

fun tree_octets :: "dtree \<Rightarrow> octets" where
  "tree_octets (DT av ts) =
     mk_Dat # concat (map attr_octets (attr_pairs av all_attribs)) @ concat (map tree_octets ts) @ [mk_DatEnd]"

text \<open>The packet: header, tree, end marker, and the checksum of these under the given function.\<close>

definition packet_octets :: "dtree \<Rightarrow> octets" where
  "packet_octets t = [mk_Magic, mk_Pkg, DatumVersion] @ tree_octets t @ [mk_PkgEnd]"

definition trailer_octets :: "cksum \<Rightarrow> u32 \<Rightarrow> octets" where
  "trailer_octets chk crc =
     (if chk = ck_None then []
      else [mk_Chk, cksum_code chk] @ (if chk = ck_Crc32 then be_octets crc else []) @ [mk_ChkEnd])"

lemma tree_octets_out: "tree_out (\<lambda>_ _. [mk_Dat]) (\<lambda>_ _. attr_octets) (\<lambda>_. [mk_DatEnd]) lv t = tree_octets t"
proof (induction t arbitrary: lv)
  case (DT av ts)
  then have "map (tree_out (\<lambda>_ _. [mk_Dat]) (\<lambda>_ _. attr_octets) (\<lambda>_. [mk_DatEnd]) (Suc lv)) ts = map tree_octets ts" by simp
  then show ?case by (simp del: map_eq_conv)
qed

section \<open>Appending\<close>

text \<open>
  The insertion \<open>f\<close> always succeeds on a stream that stands at its end and appends \<open>data\<close>; the blocks it
  had keep their lengths, and data that reached into the last block still does.
\<close>

definition s_end :: "('s \<Rightarrow> bool) \<Rightarrow> ('s \<Rightarrow> octets list) \<Rightarrow> 's stream \<Rightarrow> bool" where
  "s_end ok blocks s \<longleftrightarrow> ok (st s) \<and> s_wf blocks s \<and> s_pos blocks s = length (s_content blocks s)"

definition s_grown :: "('s \<Rightarrow> octets list) \<Rightarrow> 's stream \<Rightarrow> 's stream \<Rightarrow> bool" where
  "s_grown blocks s s' \<longleftrightarrow>
     take (length (blocks (st s))) (map length (blocks (st s'))) = map length (blocks (st s)) \<and>
     (s_packed blocks s \<longrightarrow> s_packed blocks s')"

definition s_out :: "('s \<Rightarrow> octets list) \<Rightarrow> 's stream \<Rightarrow> octets \<Rightarrow> 's stream \<Rightarrow> bool" where
  "s_out blocks s data s' \<longleftrightarrow> s_content blocks s' = s_content blocks s @ data \<and> s_grown blocks s s'"

definition s_appends :: "('s \<Rightarrow> bool) \<Rightarrow> ('s \<Rightarrow> octets list) \<Rightarrow> ('s stream \<Rightarrow> ('s stream \<times> bool) option) \<Rightarrow> octets \<Rightarrow> bool"
  where
  "s_appends ok blocks f data \<longleftrightarrow> puts (s_out blocks) f (s_end ok blocks) data (s_end ok blocks)"

lemma s_appends_iff: "s_appends ok blocks f data \<longleftrightarrow>
    (\<forall>s. s_end ok blocks s \<longrightarrow>
       (\<exists>s'. f s = Some (s', True) \<and> s_end ok blocks s' \<and> s_content blocks s' = s_content blocks s @ data \<and>
          s_grown blocks s s'))"
  by (simp add: s_appends_def puts_def s_out_def)

lemma s_grown_refl: "s_grown blocks s s"
  by (simp add: s_grown_def)

lemma s_grown_trans: "s_grown blocks s s1 \<Longrightarrow> s_grown blocks s1 s2 \<Longrightarrow> s_grown blocks s s2"
proof -
  assume a: "s_grown blocks s s1" "s_grown blocks s1 s2"
  let ?n = "length (blocks (st s))" and ?m = "length (blocks (st s1))"
  have "?n \<le> ?m" using a(1) unfolding s_grown_def by (metis length_map length_take min.absorb_iff2 min.commute)
  then have "take ?n (map length (blocks (st s2))) = take ?n (take ?m (map length (blocks (st s2))))" by (simp add: min_absorb1)
  also have "\<dots> = take ?n (map length (blocks (st s1)))" using a(2) by (simp only: s_grown_def)
  finally show ?thesis using a by (simp add: s_grown_def)
qed

interpretation stream_growth: growth "s_out blocks" for blocks
  by unfold_locales (auto simp: s_out_def s_grown_refl intro: s_grown_trans)

lemma appends_obtain:
  assumes "s_appends ok blocks f data" "s_end ok blocks s"
  obtains s' where "f s = Some (s', True)" "s_end ok blocks s'" "s_content blocks s' = s_content blocks s @ data" "s_grown blocks s s'"
  using assms unfolding s_appends_iff by blast

lemma appends_done: "s_appends ok blocks (\<lambda>s. Some (s, True)) []"
  unfolding s_appends_def by (rule stream_growth.puts_done)

lemma appends_then: "s_appends ok blocks f d1 \<Longrightarrow> s_appends ok blocks g d2 \<Longrightarrow> s_appends ok blocks (ins_then f g) (d1 @ d2)"
  unfolding s_appends_def by (rule stream_growth.puts_then)

lemma appends_Cons: "s_appends ok blocks f [b] \<Longrightarrow> s_appends ok blocks g d2 \<Longrightarrow> s_appends ok blocks (ins_then f g) (b # d2)"
  using appends_then [of ok blocks f "[b]" g d2] by simp

lemmas append_intros = appends_done appends_then appends_Cons

section \<open>The checksum over the blocks\<close>

fun crc_walk :: "octets list \<Rightarrow> nat \<Rightarrow> u32 \<Rightarrow> u32" where
  "crc_walk [] L c = c"
| "crc_walk (b # bs) L c = (if L > 0 then crc_walk bs (L - length b) (CalcCrc32 (Some b) (min (length b) L) c) else c)"

lemma crc_walk_0 [simp]: "crc_walk bs 0 c = c"
  by (cases bs) simp_all

lemma crc_blocks_0 [simp]: "crc_blocks vt x fuel i 0 c = c"
  by (cases fuel) simp_all

lemma CalcCrc32_take: "take n a = take n b \<Longrightarrow> CalcCrc32 (Some a) n c = CalcCrc32 (Some b) n c"
  by (simp add: CalcCrc32_Some)

lemma crc_walk_prefix:
  "take (length bs) (map length bs') = map length bs \<Longrightarrow> L \<le> length (concat bs) \<Longrightarrow>
   take L (concat bs') = take L (concat bs) \<Longrightarrow> crc_walk bs' L c = crc_walk bs L c"
proof (induction bs arbitrary: bs' L c)
  case Nil
  then show ?case by (cases bs') simp_all
next
  case (Cons b bs)
  then obtain b' bs2 where b': "bs' = b' # bs2" "length b' = length b" "take (length bs) (map length bs2) = map length bs"
    by (cases bs') auto
  have "take L b' @ take (L - length b) (concat bs2) = take L b @ take (L - length b) (concat bs)"
    using Cons.prems(3) b'(1,2) by simp
  then have t: "take L b' = take L b" "take (L - length b) (concat bs2) = take (L - length b) (concat bs)"
    using b'(2) by (simp_all add: append_eq_append_conv)
  have "take (min (length b) L) b' = take (length b) (take L b')" by simp
  also have "\<dots> = take (min (length b) L) b" unfolding t(1) by simp
  finally have "take (min (length b) L) b' = take (min (length b) L) b" .
  from CalcCrc32_take [OF this, of c] have
    "CalcCrc32 (Some b') (min (length b) L) c = CalcCrc32 (Some b) (min (length b) L) c" .
  moreover have "crc_walk bs2 (L - length b) c1 = crc_walk bs (L - length b) c1" for c1
    using Cons.IH [OF b'(3) _ t(2)] Cons.prems(2) by simp
  ultimately show ?case unfolding b'(1) using b'(2) by simp
qed

section \<open>The encoder on a growing storage\<close>

lemma BlobInsert_form:
  "buf_ok b \<Longrightarrow> BlobInsert vt b = (\<lambda>s. map_option (\<lambda>(s1, n). (s1, n = length (buf_data b))) (ArrayWr vt s (Some (buf_data b))))"
proof (cases "m_PtrBlock b")
  case (Some m)
  assume ok: "buf_ok b"
  then have "length (take (m_DataLen b) m) = m_DataLen b" using Some by (simp add: buf_ok_def Buf_Size_def)
  then show ?thesis using Some
    by (auto simp: BlobInsert_def Write_Buf_def Buf_u_str_def buf_data_def Buf_LenGet_def fun_eq_iff split: option.splits bind_splits)
qed (simp add: BlobInsert_def Write_Buf_def Buf_u_str_def ArrayWr_def buf_data_def buf_ok_def Buf_LenGet_def Buf_Size_def fun_eq_iff)

context growing_store
begin

abbreviation at_fin :: "'s stream \<Rightarrow> bool" where "at_fin \<equiv> s_end inv blocks"

abbreviation appends :: "('s stream \<Rightarrow> ('s stream \<times> bool) option) \<Rightarrow> octets \<Rightarrow> bool" where
  "appends \<equiv> s_appends inv blocks"

lemma ArrayWr_shape: "wf s \<Longrightarrow> ArrayWr vt s (Some data) = Some (s', j) \<Longrightarrow>
    take (length (bs s)) (map length (bs s')) = map length (bs s)"
proof (cases "bs s = [] \<or> data = []")
  case True
  assume "ArrayWr vt s (Some data) = Some (s', j)"
  then show ?thesis using True by (auto simp: ArrayWr_def)
next
  case False
  assume w: "wf s" and r: "ArrayWr vt s (Some data) = Some (s', j)"
  have i: "inv (st s)" using w by simp
  then have c: "v_MemoryChk vt (st s)" using chk False by simp
  have at: "wr_at s" using w False by (auto simp: wr_at_def wf_def split: if_splits)
  from wr_loop_spec [OF at, of data 0] obtain s1 k where l: "wr_loop vt s data 0 = Some (s1, k)" "wrote s data k s1" by auto
  have "s' = adjust_last s1" using r l(1) c False by (simp add: ArrayWr_def)
  then have "st s' = st s1" by (simp add: adjust_last_def)
  then show ?thesis using l(2) by (auto simp: wrote_def intro!: nth_equalityI)
qed

lemma ArrayWr_grown:
  assumes w: "wf s" and r: "ArrayWr vt s (Some data) = Some (s', j)"
  shows "s_grown blocks s s'"
  using ArrayWr_shape [OF w r] ArrayWr_total [OF w, of data] r by (auto simp: s_grown_def)

lemma appends_ArrayWr: "appends (\<lambda>s. map_option (\<lambda>(s1, n). (s1, n = length data)) (ArrayWr vt s (Some data))) data"
  unfolding s_appends_iff
proof (intro allI impI)
  fix s assume e: "at_fin s"
  then have w: "wf s" and p: "ps s = length (content s)" by (simp_all add: s_end_def)
  from ArrayWr_total [OF w, of data] obtain s' where r: "ArrayWr vt s (Some data) = Some (s', length data)" "wf s'"
    "content s' = patch (ps s) data (content s)" "ps s' = ps s + length data" by blast
  show "\<exists>s'. map_option (\<lambda>(s1, n). (s1, n = length data)) (ArrayWr vt s (Some data)) = Some (s', True) \<and> at_fin s' \<and>
      content s' = content s @ data \<and> s_grown blocks s s'"
    using r p ArrayWr_grown [OF w r(1)] by (intro exI [of _ s']) (simp add: s_end_def patch_def)
qed

lemma appends_octet: "appends (OctetInsert vt b) [b]"
proof -
  have "OctetInsert vt b = (\<lambda>s. map_option (\<lambda>(s1, n). (s1, n = length [b])) (ArrayWr vt s (Some [b])))"
    by (simp add: OctetInsert_def Write_octet_def fun_eq_iff)
  then show ?thesis using appends_ArrayWr [of "[b]"] by simp
qed

lemma appends_octets: "appends (octets_insert vt data) data"
proof (induction data)
  case Nil
  have "octets_insert vt [] = (\<lambda>s. Some (s, True))" by (simp add: fun_eq_iff)
  then show ?case by (simp add: appends_done)
next
  case (Cons b data)
  have "octets_insert vt (b # data) = ins_then (OctetInsert vt b) (octets_insert vt data)"
    by (simp add: fun_eq_iff ins_then_def OctetInsert_def)
  then show ?case using appends_Cons [OF appends_octet Cons.IH] by simp
qed

lemma appends_String: "appends (StringInsert vt data) data"
proof -
  have "StringInsert vt data = (\<lambda>s. map_option (\<lambda>(s1, n). (s1, n = length data)) (ArrayWr vt s (Some data)))"
    by (auto simp: StringInsert_def fun_eq_iff split: option.splits bind_splits)
  then show ?thesis using appends_ArrayWr by simp
qed

lemma appends_net: "appends (net_insert h vt (host_mem h (w :: 'a::len word))) (be_octets w)"
  using appends_octets by (cases h) (simp_all add: net_insert_def host_mem_def)

lemma appends_len: "appends (LenInsert h vt n) (len_octets n)"
proof -
  have m: "of_nat (n div 256 mod 256) = (of_nat (n div 256) :: u8)"
    by (simp add: word_unat_eq_iff unat_of_nat)
  show ?thesis
    unfolding LenInsert_def len_octets_def LongInsert_def m
    by (auto intro: appends_octet appends_Cons appends_net)
qed

lemmas prim_appends = appends_octet appends_len appends_String appends_net

lemma appends_value:
  assumes "has E v x"
  shows "appends (value_insert E vt v) (val_octets x)"
proof -
  have t: "v_Type v = vtype x" using assms by (simp add: has_def)
  note g = getters_has [of E v]
  show ?thesis
  proof (cases x)
    case (V_str s)
    then have "StrGet E v = Some (of_octets s)" using assms g(12) by simp
    then have "value_insert E vt v = nat_StringInsert (e_host E) vt (of_octets s)"
      using t V_str by (simp add: value_insert_def with_value_def fun_eq_iff)
    then show ?thesis using V_str
      by (simp add: nat_StringInsert_def length_of_octets appends_then prim_appends)
  next
    case (V_blob b)
    then have ok: "buf_ok (v_Buf v)" "buf_data (v_Buf v) = b" using assms by (simp_all add: has_def)
    then have "Buf_LenGet (v_Buf v) = length b" using length_buf_data [OF ok(1)] by (simp add: Buf_LenGet_def)
    then show ?thesis using t V_blob ok appends_ArrayWr [of b]
      by (simp add: value_insert_def nat_BlobInsert_def BlobInsert_form appends_then prim_appends)
  qed (use t g assms in \<open>simp_all add: value_insert_def with_value_def [abs_def] appends_done prim_appends ShortInsert_def LongInsert_def
        LongLongInsert_def nat_Float32Insert_def nat_Float64Insert_def k_OctetTrue_def k_OctetFalse_def\<close>)
qed

lemma appends_attr: "has E v x \<Longrightarrow> appends (attrib_insert E vt (k, v)) (attr_octets (k, x))"
  using appends_Cons [OF appends_octet appends_Cons [OF appends_octet appends_value]]
  by (simp add: attrib_insert_def attr_octets_def has_def)

lemma appends_start:
  assumes "rep E d (DT av ts)" and "av attr_None = None"
  shows "appends (nat_Start E vt d) (mk_Dat # concat (map attr_octets (attr_pairs av all_attribs)))"
  unfolding nat_Start_def
proof (rule appends_Cons [OF appends_octet])
  show "appends (ins_list (map (attrib_insert E vt) (attrib_list d))) (concat (map attr_octets (attr_pairs av all_attribs)))"
    unfolding s_appends_def
    by (rule stream_growth.puts_attribs [OF _ assms]) (use appends_attr in \<open>simp add: s_appends_def\<close>)
qed

lemma native_writer:
  "tree_writer (s_out blocks) E (SerDesNative E vt) (\<lambda>_. at_fin) (\<lambda>_ _. [mk_Dat]) (\<lambda>_ _. attr_octets) (\<lambda>_. [mk_DatEnd]) (\<lambda>_. True)"
proof unfold_locales
  show "rep E d (DT av ts) \<Longrightarrow> av attr_None = None \<Longrightarrow> puts (s_out blocks) (sd_Start (SerDesNative E vt) d) at_fin
      ([mk_Dat] @ concat (map attr_octets (attr_pairs av all_attribs))) at_fin" for d av ts
    using appends_start by (simp add: SerDesNative_def s_appends_def)
  show "puts (s_out blocks) (sd_End (SerDesNative E vt) d) at_fin [mk_DatEnd] at_fin" for d
    using appends_octet by (simp add: SerDesNative_def s_appends_def nat_End_def [abs_def])
qed

lemma appends_tree:
  "rep E d t \<Longrightarrow> tree_ok t \<Longrightarrow>
    appends (\<lambda>s. map_option (\<lambda>(s1, n). (s1, n \<noteq> 0)) (dat_encode (SerDesNative E vt) d s)) (tree_octets t)"
  unfolding s_appends_def using tree_writer.puts_tree [OF native_writer, of E d t] by (simp add: tree_octets_out)

lemma crc_blocks_walk: "inv x \<Longrightarrow> L \<le> fuel \<Longrightarrow> crc_blocks vt x fuel i L c = crc_walk (drop i (blocks x)) L c"
proof (induction fuel arbitrary: i L c)
  case 0
  then show ?case by (cases "drop i (blocks x)") simp_all
next
  case (Suc fuel)
  show ?case
  proof (cases "i < length (blocks x) \<and> 0 < L")
    case False
    have "crc_walk (drop i (blocks x)) L c = c"
    proof (cases "i < length (blocks x)")
      case True
      then show ?thesis using False by (cases "drop i (blocks x)") simp_all
    qed simp
    moreover have "\<not> (v_ValidBlock vt x i \<and> 0 < L)" using False valid [OF Suc.prems(1), of i] by simp
    then have "crc_blocks vt x (Suc fuel) i L c = c" by (simp only: crc_blocks.simps if_False)
    ultimately show ?thesis by simp
  next
    case True
    let ?b = "blocks x ! i"
    have d: "drop i (blocks x) = ?b # drop (Suc i) (blocks x)" using True by (simp add: Cons_nth_drop_Suc)
    have "?b \<noteq> []" using pos [OF Suc.prems(1)] True by simp
    then have "L - length ?b \<le> fuel" using Suc.prems(2) True by (cases ?b) auto
    from Suc.IH [OF Suc.prems(1) this] show ?thesis
      unfolding d using True valid [OF Suc.prems(1), of i] mem [OF Suc.prems(1), of i] size [OF Suc.prems(1), of i]
      by (simp add: Let_def min_def)
  qed
qed

lemma crc_stable:
  assumes w: "wf s" "wf s'" and g: "s_grown blocks s s'" and c: "content s' = content s @ data" and L: "0 < L" "L \<le> length (content s)"
    and n: "L \<le> n" "L \<le> n'"
  shows "Stream_Crc32Get n vt s' L = Stream_Crc32Get n' vt s L"
proof -
  have t: "take L (concat (bs u)) = take L (content u)" if "L \<le> length (content u)" "wf u" for u
  proof -
    have "content u = take (length (content u)) (concat (bs u))" using length_content [OF that(2)] by (simp add: content_def)
    then have "take L (content u) = take (min L (length (content u))) (concat (bs u))" by (metis take_take)
    then show ?thesis using that(1) by (simp add: min_absorb1)
  qed
  have "L \<le> length (concat (bs s))" using L(2) wf_bounds(2) [OF w(1)] length_content [OF w(1)] by simp
  moreover have "take L (concat (bs s')) = take L (concat (bs s))" using t [OF L(2) w(1)] t [OF _ w(2), unfolded c] L(2) by simp
  ultimately have "crc_walk (bs s') L 0xffffffff = crc_walk (bs s) L 0xffffffff"
    using g by (intro crc_walk_prefix) (simp_all add: s_grown_def)
  then show ?thesis using L(1) crc_blocks_walk [of "st s'" L n 0] crc_blocks_walk [of "st s" L n' 0] w n
    by (simp add: Stream_Crc32Get_def)
qed

lemma encode_packet:
  assumes r: "rep E d t" and ok: "tree_ok t" and w: "wf s"
  shows "\<exists>s'. Datum_Encode (Some (SerDesNative E vt)) d chk s = Some (s', True) \<and> wf s' \<and>
    content s' = packet_octets t @
      trailer_octets chk (Stream_Crc32Get (length (packet_octets t)) vt s' (length (packet_octets t))) \<and>
    at_fin s' \<and> packed s'"
proof -
  let ?sd = "SerDesNative E vt" and ?P = "packet_octets t"
  have ni: "\<not> m_Inert d" using r by (cases t) simp
  have sd: "sd_Open ?sd = nat_Open vt" "sd_Close ?sd = nat_Close (e_host E) vt" by (simp_all add: SerDesNative_def)
  have c0: "at_fin (Stream_Clear vt s)" "content (Stream_Clear vt s) = []" using Clear_spec [OF w] by (simp_all add: s_end_def)
  have "appends (ins_list [OctetInsert vt mk_Magic, OctetInsert vt mk_Pkg, OctetInsert vt DatumVersion]) [mk_Magic, mk_Pkg, DatumVersion]"
    by (simp only: ins_list_fun) (intro appends_Cons appends_octet appends_done)
  from this c0(1) obtain s1 where
    1: "nat_Open vt DatumVersion s = Some (s1, True)" "at_fin s1" "content s1 = [mk_Magic, mk_Pkg, DatumVersion]"
      "s_grown blocks (Stream_Clear vt s) s1"
    by (rule appends_obtain) (use c0(2) in \<open>simp add: nat_Open_def\<close>)
  from appends_tree [OF r ok] 1(2) obtain s2 where
    2: "map_option (\<lambda>(s1, n). (s1, n \<noteq> 0)) (dat_encode ?sd d s1) = Some (s2, True)" "at_fin s2" "content s2 = content s1 @ tree_octets t"
      "s_grown blocks s1 s2"
    by (rule appends_obtain)
  from appends_octet 2(2) obtain s3 where 3: "OctetInsert vt mk_PkgEnd s2 = Some (s3, True)" "at_fin s3" "content s3 = ?P"
      "s_grown blocks s2 s3"
    by (rule appends_obtain) (use 1(3) 2(3) in \<open>simp add: packet_octets_def\<close>)
  have pk3: "packed s3" using Clear_packed [OF w] 1(4) 2(4) 3(4) by (simp add: s_grown_def)
  have w3: "wf s3" "Pos vt s3 = length ?P" using 3(2,3) Pos_spec [of s3] by (simp_all add: s_end_def)
  have open_enc: "Datum_Encode (Some ?sd) d chk s = nat_Close (e_host E) vt chk s2"
    using ni 1(1) 2(1) by (auto simp: Datum_Encode_def ins_then_def sd)
  define crc where "crc = Stream_Crc32Get (length ?P) vt s3 (length ?P)"
  have crc: "Stream_Crc32Get (length ?P) vt u (length ?P) = crc" if "wf u" "s_grown blocks s3 u" "content u = ?P @ x" for u x
    unfolding crc_def by (rule crc_stable [OF w3(1) that(1,2), of x]) (use that(3) 3(3) in \<open>simp_all add: packet_octets_def\<close>)
  have crc_ins: "crc_insert (e_host E) vt (length ?P) u = LongInsert (e_host E) vt crc u" if "at_fin u" "s_grown blocks s3 u" "content u = ?P @ x" for u x
    using crc [of u x] that by (simp add: crc_insert_def s_end_def)
  have bare: ?thesis if "chk \<noteq> ck_None" "chk \<noteq> ck_Crc32"
  proof -
    have "appends (ins_list [OctetInsert vt mk_Chk, OctetInsert vt (cksum_code chk), OctetInsert vt mk_ChkEnd]) [mk_Chk, cksum_code chk, mk_ChkEnd]"
      by (simp only: ins_list_fun) (intro appends_Cons appends_octet appends_done)
    from this 3(2) show ?thesis
      by (rule appends_obtain) (use that open_enc 3 w3 pk3 in \<open>auto simp: nat_Close_def Let_def trailer_octets_def s_end_def s_grown_def\<close>)
  qed
  show ?thesis
  proof (cases chk)
    case ck_None
    then show ?thesis using open_enc 3 w3 pk3 by (intro exI [of _ s3]) (simp add: nat_Close_def trailer_octets_def Let_def s_end_def)
  next
    case ck_Crc32
    have "appends (ins_list [OctetInsert vt mk_Chk, OctetInsert vt (cksum_code chk)]) [mk_Chk, cksum_code chk]"
      by (simp only: ins_list_fun) (intro appends_Cons appends_octet appends_done)
    from this 3(2) obtain s4 where 4: "ins_list [OctetInsert vt mk_Chk, OctetInsert vt (cksum_code chk)] s3 = Some (s4, True)" "at_fin s4"
      "content s4 = ?P @ [mk_Chk, cksum_code chk]" "s_grown blocks s3 s4" by (rule appends_obtain) (use 3(3) in simp)
    have "appends (ins_list [LongInsert (e_host E) vt crc, OctetInsert vt mk_ChkEnd]) (be_octets crc @ [mk_ChkEnd])"
      unfolding LongInsert_def by (simp only: ins_list_fun) (intro appends_then appends_net appends_Cons appends_octet appends_done)
    from this 4(2) obtain s5 where 5: "ins_list [LongInsert (e_host E) vt crc, OctetInsert vt mk_ChkEnd] s4 = Some (s5, True)" "at_fin s5"
      "content s5 = content s4 @ be_octets crc @ [mk_ChkEnd]" "s_grown blocks s4 s5" by (rule appends_obtain)
    have "ins_list [OctetInsert vt mk_Chk, OctetInsert vt (cksum_code chk), crc_insert (e_host E) vt (length ?P), OctetInsert vt mk_ChkEnd] s3 = Some (s5, True)"
      using 4 5(1) crc_ins [OF 4(2,4,3)] by (auto simp: ins_then_def split: bind_splits if_splits)
    then have "Datum_Encode (Some ?sd) d chk s = Some (s5, True)"
      using open_enc 3(1) w3(2) ck_Crc32 by (simp add: nat_Close_def Let_def)
    moreover have "wf s5" "packed s5" using 5(2,4) 4(4) pk3 by (simp_all add: s_end_def s_grown_def)
    ultimately show ?thesis using 4(3) 5(3) crc [OF _ s_grown_trans [OF 4(4) 5(4)]] ck_Crc32 5(2)
      by (intro exI [of _ s5]) (simp add: trailer_octets_def)
  qed (use bare in simp_all)
qed

end

end
