(* ===== verification/NativeRead.thy ===== *)
theory NativeRead
  imports NativeWire
begin

text \<open>
  The decoder of the native encoding on the octets of a tree: each extraction reads back what the
  insertion of its kind appended, and the loop of \<open>DecodeElement\<close> builds a datum that represents the
  tree. With \<open>NativeWire\<close> this is the round trip of the serializer.
\<close>

section \<open>Reading\<close>

text \<open>
  The stream over the storage \<open>x\<close> with the content \<open>c\<close> stands before \<open>rest\<close>; an extraction that reads
  \<open>data\<close> as the value \<open>a\<close>.
\<close>

definition s_sees :: "('s \<Rightarrow> bool) \<Rightarrow> ('s \<Rightarrow> octets list) \<Rightarrow> 's \<Rightarrow> octets \<Rightarrow> 's stream \<Rightarrow> octets \<Rightarrow> bool" where
  "s_sees ok blocks x c s rest \<longleftrightarrow>
     st s = x \<and> ok x \<and> s_wf blocks s \<and> s_content blocks s = c \<and> drop (s_pos blocks s) c = rest"

definition s_reads :: "('s \<Rightarrow> bool) \<Rightarrow> ('s \<Rightarrow> octets list) \<Rightarrow> ('s, 'a) extraction \<Rightarrow> octets \<Rightarrow> 'a \<Rightarrow> bool" where
  "s_reads ok blocks f data a \<longleftrightarrow>
     (\<forall>x c s rest. s_sees ok blocks x c s (data @ rest) \<longrightarrow> (\<exists>s'. f s = (s', Some a) \<and> s_sees ok blocks x c s' rest))"

lemma reads_obtain:
  assumes "s_reads ok blocks f data a" "s_sees ok blocks x c s (data @ rest)"
  obtains s' where "f s = (s', Some a)" "s_sees ok blocks x c s' rest"
  using assms unfolding s_reads_def by blast

lemma reads_intro:
  "(\<And>x c s rest. s_sees ok blocks x c s (data @ rest) \<Longrightarrow> \<exists>s'. f s = (s', Some a) \<and> s_sees ok blocks x c s' rest) \<Longrightarrow>
   s_reads ok blocks f data a"
  by (simp add: s_reads_def)

lemma dtype_of_code [simp]: "dtype_of (dtype_code t) = Some t"
  by (cases t) (simp_all add: dtype_of_def all_dtypes_def)

lemma TagMap_AttribMap: "k \<noteq> attr_None \<Longrightarrow> m_TagMap (m_AttribMap k) = Some k \<and>
    m_AttribMap k \<notin> {mk_PkgEnd, mk_Dat, mk_DatEnd, mk_Chk, mk_ChkEnd}"
  by (cases k) (simp_all add: m_TagMap_def mk_PkgEnd_def mk_Dat_def mk_DatEnd_def mk_Chk_def mk_ChkEnd_def)

text \<open>The loop of the elements from a variant and a world, where it stands, and the attributes that are kept.\<close>

definition nat_run :: "venv \<Rightarrow> 's vtable \<Rightarrow> variant \<times> 's decworld \<Rightarrow> ('s decworld \<times> bool) option" where
  "nat_run E vt vw = (case vw of (var, w) \<Rightarrow> elem_loop E vt False var w)"

definition nat_at :: "('s \<Rightarrow> bool) \<Rightarrow> ('s \<Rightarrow> octets list) \<Rightarrow> 's \<Rightarrow> octets \<Rightarrow> variant \<times> 's decworld \<Rightarrow> nat list list \<Rightarrow> datum \<Rightarrow> dtype \<Rightarrow>
    octets \<Rightarrow> bool" where
  "nat_at ok blocks x c vw p root ty rest \<longleftrightarrow>
     v_Type (fst vw) \<noteq> dt_inert \<and> dw_stack (snd vw) = p \<and> dw_root (snd vw) = root \<and> s_sees ok blocks x c (dw_stream (snd vw)) rest"

definition nat_keeps :: "dtype \<Rightarrow> attrib \<times> vval \<Rightarrow> bool" where
  "nat_keeps ty kx \<longleftrightarrow> fst kx \<noteq> attr_None \<and> val_ok (snd kx)"

lemma tree_ok_fits: "tree_ok t \<Longrightarrow> tree_fits nat_keeps t"
  by (induction t) (auto simp: nat_keeps_def attrs_ok_def)

context block_store
begin

abbreviation sees :: "'s \<Rightarrow> octets \<Rightarrow> 's stream \<Rightarrow> octets \<Rightarrow> bool" where "sees \<equiv> s_sees inv blocks"

abbreviation reads :: "('s, 'a) extraction \<Rightarrow> octets \<Rightarrow> 'a \<Rightarrow> bool" where "reads \<equiv> s_reads inv blocks"

lemma sees_len: "sees x c s rest \<Longrightarrow> length rest \<le> length c \<and> Pos vt s = length c - length rest"
  using Pos_spec [of s] ps_le [of s] by (auto simp: s_sees_def)

lemma reads_octet: "reads (Read_octet vt) [b] b"
proof (rule reads_intro)
  fix x c s rest assume a: "sees x c s ([b] @ rest)"
  then have w: "wf s" and d: "drop (ps s) (content s) = b # rest" and c: "content s = c" "st s = x" "inv x" by (auto simp: s_sees_def)
  then have lt: "ps s < length (content s)" by (metis drop_all list.distinct(1) not_le)
  have h: "content s ! ps s = b" using d lt by (metis hd_drop_conv_nth list.sel(1))
  from Read_octet_spec [OF w] lt obtain s' where r: "Read_octet vt s = (s', Some (content s ! ps s))" "wf s'" "st s' = st s"
    "content s' = content s" "ps s' = ps s + 1" by auto
  have "drop (ps s + 1) (content s) = rest" using d by (metis drop_drop add.commute drop0 drop_Suc_Cons One_nat_def)
  then show "\<exists>s'. Read_octet vt s = (s', Some b) \<and> sees x c s' rest" using r h c by (auto simp: s_sees_def)
qed

lemma reads_octets: "reads (octets_extract vt (length data)) data data"
proof (induction data)
  case Nil
  show ?case by (rule reads_intro) simp
next
  case (Cons b data)
  show ?case
  proof (rule reads_intro)
    fix x c s rest assume "sees x c s ((b # data) @ rest)"
    then have "sees x c s ([b] @ data @ rest)" by simp
    with reads_octet obtain s1 where 1: "Read_octet vt s = (s1, Some b)" "sees x c s1 (data @ rest)" by (rule reads_obtain)
    from Cons.IH 1(2) obtain s2 where "octets_extract vt (length data) s1 = (s2, Some data)" "sees x c s2 rest" by (rule reads_obtain)
    then show "\<exists>s'. octets_extract vt (length (b # data)) s = (s', Some (b # data)) \<and> sees x c s' rest" using 1(1) by simp
  qed
qed

lemma reads_net:
  assumes "be_word (be_octets w) = (w :: 'a::len word)"
  shows "reads (net_extract h vt) (be_octets w) w"
proof (rule reads_intro)
  fix x c s rest assume a: "sees x c s (be_octets w @ rest)"
  from reads_octets this obtain s1 where 1: "octets_extract vt (length (be_octets w)) s = (s1, Some (be_octets w))" "sees x c s1 rest"
    by (rule reads_obtain)
  then show "\<exists>s'. net_extract h vt s = (s', Some w) \<and> sees x c s' rest"
    using assms by (cases h) (simp_all add: net_extract_def host_word_def)
qed

lemmas reads_words = reads_net [OF be_word_be_octets_16] reads_net [OF be_word_be_octets_32] reads_net [OF be_word_be_octets_64]

lemma reads_len:
  assumes n: "n < 2 ^ 32"
  shows "reads (LenExtract h vt) (len_octets n) n"
proof (rule reads_intro)
  fix x c s rest assume a: "sees x c s (len_octets n @ rest)"
  consider "n < 128" | "128 \<le> n" "n < 65536" | "65536 \<le> n" by linarith
  then show "\<exists>s'. LenExtract h vt s = (s', Some n) \<and> sees x c s' rest"
  proof cases
    case 1
    have "sees x c s ([of_nat n] @ rest)" using a 1 by (simp add: len_octets_def)
    with reads_octet obtain s1 where r: "Read_octet vt s = (s1, Some (of_nat n))" "sees x c s1 rest" by (rule reads_obtain)
    have u: "unat (of_nat n :: u8) = n" using 1 by (simp add: unat_of_nat)
    then have "(of_nat n :: u8) < 128" using 1 by (simp add: word_less_nat_alt)
    then show ?thesis using r u by (simp add: LenExtract_def)
  next
    case 2
    have "sees x c s ([128] @ [of_nat (n div 256)] @ [of_nat (n mod 256)] @ rest)" using a 2 by (simp add: len_octets_def)
    with reads_octet obtain s1 where 1: "Read_octet vt s = (s1, Some 128)" "sees x c s1 ([of_nat (n div 256)] @ [of_nat (n mod 256)] @ rest)"
      by (rule reads_obtain)
    from reads_octet 1(2) obtain s2 where 2: "Read_octet vt s1 = (s2, Some (of_nat (n div 256)))" "sees x c s2 ([of_nat (n mod 256)] @ rest)"
      by (rule reads_obtain)
    from reads_octet 2(2) obtain s3 where 3: "Read_octet vt s2 = (s3, Some (of_nat (n mod 256)))" "sees x c s3 rest"
      by (rule reads_obtain)
    have "unat (of_nat (n div 256) :: u8) = n div 256" "unat (of_nat (n mod 256) :: u8) = n mod 256"
      using \<open>n < 65536\<close> by (simp_all add: unat_of_nat)
    then have "unat (of_nat (n div 256) :: u8) * 256 + unat (of_nat (n mod 256) :: u8) = n" by simp
    then show ?thesis using 1(1) 2(1) 3 by (simp add: LenExtract_def)
  next
    case 3
    have "sees x c s ([129] @ be_octets (of_nat n :: u32) @ rest)" using a 3 by (simp add: len_octets_def)
    with reads_octet obtain s1 where 1: "Read_octet vt s = (s1, Some 129)" "sees x c s1 (be_octets (of_nat n :: u32) @ rest)"
      by (rule reads_obtain)
    from reads_words(2) 1(2) obtain s2 where 2: "(net_extract h vt :: ('s, u32) extraction) s1 = (s2, Some (of_nat n))" "sees x c s2 rest"
      by (rule reads_obtain)
    have "unat (of_nat n :: u32) = n" using n by (simp add: unat_of_nat)
    then show ?thesis using 1(1) 2 by (simp add: LenExtract_def LongExtract_def)
  qed
qed

lemma Read_Buf_block:
  assumes a: "sees x c s (data @ rest)" and b: "m_PtrBlock b = Some m" "length data \<le> length m"
  obtains s' where "Read_Buf al vt s b (length data) =
      (s', Buf_LenSet (length data) (b\<lparr>m_PtrBlock := Some (patch 0 data m)\<rparr>), length data)" "sees x c s' rest"
proof -
  have w: "wf s" "content s = c" "st s = x" "inv x" "drop (ps s) (content s) = data @ rest" using a by (auto simp: s_sees_def)
  have L: "length data \<le> LenGet vt s" using sees_len [OF a] LenGet_spec [OF w(1)] w(2) by simp
  obtain s' out where rd: "ArrayRd vt s (length data) = (s', out)" by fastforce
  from ArrayRd_spec [OF w(1) rd] w have o: "out = data" "wf s'" "st s' = st s" "content s' = content s"
    "ps s' = min (ps s + length data) (length (content s))" by simp_all
  have "length (content s) = ps s + (length data + length rest)" using w(5) ps_le [OF w(1)]
    by (metis append_take_drop_id length_append length_take min.absorb2)
  then have "ps s' = ps s + length data" using o(5) by simp
  then have "drop (ps s') c = rest" using w(2,5) by (metis append_eq_conv_conj drop_drop add.commute)
  then have sees: "sees x c s' rest" using o w by (simp add: s_sees_def)
  have "(if length data < LenGet vt s then length data else LenGet vt s) = length data" using L by simp
  then have "Read_Buf al vt s b (length data) =
      (s', Buf_LenSet (length data) (b\<lparr>m_PtrBlock := Some (patch 0 data m)\<rparr>), length data)"
    using rd o(1) b by (simp add: Read_Buf_def Buf_Size_def Let_def)
  then show thesis using sees by (rule that)
qed

lemma reads_string:
  assumes E: "env_ok E" and t: "length t < 2 ^ 32 - 1" "0 \<notin> set t"
  shows "reads (StringExtract E vt) (len_octets (length t) @ t) (of_octets t)"
proof (rule reads_intro)
  fix x c s rest assume "sees x c s ((len_octets (length t) @ t) @ rest)"
  then have a: "sees x c s (len_octets (length t) @ t @ rest)" by simp
  have "length t < 2 ^ 32" using t(1) by simp
  from reads_len [OF this] a obtain s1 where 1: "LenExtract (e_host E) vt s = (s1, Some (length t))" "sees x c s1 (t @ rest)"
    by (rule reads_obtain)
  show "\<exists>s'. StringExtract E vt s = (s', Some (of_octets t)) \<and> sees x c s' rest"
  proof (cases "t = []")
    case True
    then show ?thesis using 1 by (simp add: StringExtract_def of_octets_def)
  next
    case False
    have "length t + 1 < 2 ^ 32" using t(1) by simp
    from Resize_granted [OF E this, of Buf_null] obtain b where b: "Buf_Resize (e_al E) (length t + 1) Buf_null = (b, True)"
      "length t + 1 \<le> Buf_Size b" "length t + 1 = 0 \<or> m_PtrBlock b \<noteq> None" by blast
    then obtain m where m: "m_PtrBlock b = Some m" "length t \<le> length m" by (auto simp: Buf_Size_def)
    from Read_Buf_block [OF 1(2) m, of "e_al E"] obtain s2 where 2: "Read_Buf (e_al E) vt s1 b (length t) =
      (s2, Buf_LenSet (length t) (b\<lparr>m_PtrBlock := Some (patch 0 t m)\<rparr>), length t)" "sees x c s2 rest" .
    have "cstr (patch (length t) [0] (patch 0 t m)) = t"
      using t(2) cstr_id [OF t(2)] by (simp add: patch_def cstr_def takeWhile_append takeWhile_eq_all_conv split: if_splits)
    then show ?thesis using 1 2 b(1) False by (simp add: StringExtract_def Buf_LenSet_def)
  qed
qed

lemma reads_blob:
  assumes E: "env_ok E" and t: "length t < 2 ^ 32" and a: "sees x c s (len_octets (length t) @ t @ rest)"
  obtains s' b where "BlobExtract E vt s = (s', b, True)" "sees x c s' rest" "buf_ok b" "buf_data b = t" "m_DataLen b < 2 ^ 32"
proof -
  from reads_len [OF t] a obtain s1 where 1: "LenExtract (e_host E) vt s = (s1, Some (length t))" "sees x c s1 (t @ rest)"
    by (rule reads_obtain)
  show thesis
  proof (cases "t = []")
    case True
    then show ?thesis using 1 by (intro that [of s1 "fst (Buf_Resize (e_al E) 0 Buf_null)"])
      (simp_all add: BlobExtract_def Buf_Resize_def Buf_Clear_def Buf_null_def buf_ok_def buf_data_def)
  next
    case False
    from Resize_granted [OF E t, of Buf_null] obtain b where b: "Buf_Resize (e_al E) (length t) Buf_null = (b, True)"
      "length t \<le> Buf_Size b" "length t = 0 \<or> m_PtrBlock b \<noteq> None" by blast
    then obtain m where m: "m_PtrBlock b = Some m" "length t \<le> length m" using False by (auto simp: Buf_Size_def)
    from Read_Buf_block [OF 1(2) m, of "e_al E"] obtain s2 where 2: "Read_Buf (e_al E) vt s1 b (length t) =
      (s2, Buf_LenSet (length t) (b\<lparr>m_PtrBlock := Some (patch 0 t m)\<rparr>), length t)" "sees x c s2 rest" .
    let ?b = "Buf_LenSet (length t) (b\<lparr>m_PtrBlock := Some (patch 0 t m)\<rparr>)"
    have "?b = \<lparr>m_PtrBlock = Some (patch 0 t m), m_DataLen = length t\<rparr>" using m by (simp add: Buf_LenSet_def)
    then have "buf_ok ?b" "buf_data ?b = t" "m_DataLen ?b < 2 ^ 32"
      using m t by (simp_all add: buf_ok_def Buf_Size_def buf_data_def take_patch_0)
    then show ?thesis using 1 2 b(1) False by (intro that [of s2 ?b]) (simp_all add: BlobExtract_def)
  qed
qed

lemma set_value_reads:
  assumes "reads f data a" "sees x c s (data @ rest)"
  obtains s' where "set_value g (f s) Var = (s', g a Var, True)" "sees x c s' rest"
  using assms(1,2) by (rule reads_obtain) (auto simp: set_value_def intro: that)

lemma reads_value:
  assumes E: "env_ok E" and V: "v_Type Var \<noteq> dt_inert" and x: "val_ok x" and a: "sees y c s (val_octets x @ rest)"
  shows "\<exists>s' Var'. VariantExtract E vt (vtype x) Var s = (s', Var', True) \<and> has E Var' x \<and> sees y c s' rest"
proof -
  note sets = setters_has [OF E V]
  have R: ?thesis if "reads f (val_octets x) z" "VariantExtract E vt (vtype x) Var s = set_value g (f s) Var" "has E (g z Var) x"
    for f :: "('s, 'z) extraction" and z g
    using that(1) a by (rule reads_obtain) (use that(2,3) in \<open>simp add: set_value_def\<close>)
  show ?thesis
  proof (cases x)
    case V_none
    have "has E (Variant_assign E (Variant_new E False) Var) V_none" using assign_has [OF E V new_has [OF E]] .
    then show ?thesis using V_none a by (simp add: VariantExtract_def)
  next
    case (V_u8 w)
    show ?thesis by (rule R [of "Read_octet vt" w "Uint8Set E"]) (use V_u8 sets reads_octet in \<open>simp_all add: VariantExtract_def\<close>)
  next
    case (V_i8 w)
    show ?thesis by (rule R [of "Read_octet vt" w "Int8Set E"]) (use V_i8 sets reads_octet in \<open>simp_all add: VariantExtract_def\<close>)
  next
    case (V_u16 w)
    show ?thesis by (rule R [of "ShortExtract (e_host E) vt" w "Uint16Set E"]) (use V_u16 sets reads_words in \<open>simp_all add: VariantExtract_def ShortExtract_def\<close>)
  next
    case (V_i16 w)
    show ?thesis by (rule R [of "ShortExtract (e_host E) vt" w "Int16Set E"]) (use V_i16 sets reads_words in \<open>simp_all add: VariantExtract_def ShortExtract_def\<close>)
  next
    case (V_u32 w)
    show ?thesis by (rule R [of "LongExtract (e_host E) vt" w "Uint32Set E"]) (use V_u32 sets reads_words in \<open>simp_all add: VariantExtract_def LongExtract_def\<close>)
  next
    case (V_i32 w)
    show ?thesis by (rule R [of "LongExtract (e_host E) vt" w "Int32Set E"]) (use V_i32 sets reads_words in \<open>simp_all add: VariantExtract_def LongExtract_def\<close>)
  next
    case (V_u64 w)
    show ?thesis by (rule R [of "LongLongExtract (e_host E) vt" w "Uint64Set E"]) (use V_u64 sets reads_words in \<open>simp_all add: VariantExtract_def LongLongExtract_def\<close>)
  next
    case (V_i64 w)
    show ?thesis by (rule R [of "LongLongExtract (e_host E) vt" w "Int64Set E"]) (use V_i64 sets reads_words in \<open>simp_all add: VariantExtract_def LongLongExtract_def\<close>)
  next
    case (V_f32 w)
    show ?thesis by (rule R [of "Float32Extract (e_host E) vt" w "Float32Set E"]) (use V_f32 sets reads_words in \<open>simp_all add: VariantExtract_def Float32Extract_def\<close>)
  next
    case (V_f64 w)
    show ?thesis by (rule R [of "Float64Extract (e_host E) vt" w "Float64Set E"]) (use V_f64 sets reads_words in \<open>simp_all add: VariantExtract_def Float64Extract_def\<close>)
  next
    case (V_bool b)
    show ?thesis
      by (rule R [of "Read_octet vt" "if b then 1 else 0" "\<lambda>ch. BoolSet E (ch \<noteq> k_OctetFalse)"])
        (use V_bool sets reads_octet in \<open>simp_all add: VariantExtract_def k_OctetFalse_def\<close>)
  next
    case (V_str t)
    then have t: "length t < 2 ^ 32 - 1" "0 \<notin> set t" using x by simp_all
    have "has E (StrSet E (of_octets t) Var) (V_str t)" using StrSet_has [OF E, of "of_octets t" Var] t cstr_id [OF t(2)] by (simp add: length_of_octets)
    then show ?thesis
      by (intro R [of "StringExtract E vt" "of_octets t" "StrSet E"])
        (use V_str reads_string [OF E t] in \<open>simp_all add: VariantExtract_def\<close>)
  next
    case (V_blob t)
    then have "length t < 2 ^ 32" "sees y c s (len_octets (length t) @ t @ rest)" using x a by simp_all
    from reads_blob [OF E this] obtain s' b where "BlobExtract E vt s = (s', b, True)" "sees y c s' rest" "buf_ok b" "buf_data b = t" "m_DataLen b < 2 ^ 32" .
    then show ?thesis using BufSet_has [OF E, of b Var] V_blob by (simp add: VariantExtract_def)
  qed
qed

text \<open>An octet that the loop takes at an element boundary.\<close>

lemma sees_octet:
  assumes "sees x c s (b # rest)"
  obtains s1 where "Read_octet vt s = (s1, Some b)" "sees x c s1 rest"
  using reads_octet [of b] assms by (auto elim: reads_obtain [where data = "[b]"])

text \<open>The loop as a decoder of trees.\<close>

lemma native_reader:
  "tree_reader E (nat_run E vt) (nat_at inv blocks x c) (\<lambda>_ _. [mk_Dat]) (\<lambda>_ _. attr_octets) (\<lambda>_. [mk_DatEnd]) nat_keeps"
proof unfold_locales
  fix vw :: "variant \<times> 's decworld" and p root ty ty1 rest d and lv :: nat
  obtain var w where vw: "vw = (var, w)" by fastforce
  assume "nat_at inv blocks x c vw p root ty ([mk_Dat] @ rest)" and p: "p \<noteq> []" "datum_at (hd p) root = Some d" "\<not> m_Inert d"
    and n: "\<forall>e \<in> set (m_Datums d). NameGet E e \<noteq> None"
  then have a: "v_Type var \<noteq> dt_inert" "dw_stack w = p" "dw_root w = root" and s: "sees x c (dw_stream w) (mk_Dat # rest)"
    by (simp_all add: nat_at_def vw)
  from sees_octet [OF s] obtain s1 where 1: "Read_octet vt (dw_stream w) = (s1, Some mk_Dat)" "sees x c s1 rest" .
  let ?w1 = "w\<lparr>dw_stream := s1, dw_root := datum_upd (hd p) (\<lambda>_. opened d) root, dw_stack := (hd p @ [length (m_Datums d)]) # p\<rparr>"
  have "nat_run E vt vw = nat_run E vt (var, ?w1)" unfolding vw nat_run_def prod.case
    by (subst elem_loop.simps) (simp add: 1(1) a open_datum_spec [OF p(2,3) n] opened_def mk_Dat_def mk_PkgEnd_def)
  then show "\<exists>w1. nat_run E vt vw = nat_run E vt w1 \<and>
      nat_at inv blocks x c w1 ((hd p @ [length (m_Datums d)]) # p) (datum_upd (hd p) (\<lambda>_. opened d) root) ty1 rest"
    using a 1(2) by (intro exI [of _ "(var, ?w1)"]) (simp add: nat_at_def)
next
  fix vw :: "variant \<times> 's decworld" and p root ty k y rest and lv :: nat
  obtain var w where vw: "vw = (var, w)" by fastforce
  assume "nat_at inv blocks x c vw p root ty (attr_octets (k, y) @ rest)" and p: "p \<noteq> []" and o: "nat_keeps ty (k, y)" and E: "env_ok E"
  then have a: "v_Type var \<noteq> dt_inert" "dw_stack w = p" "dw_root w = root"
    and s: "sees x c (dw_stream w) (m_AttribMap k # dtype_code (vtype y) # val_octets y @ rest)"
    by (simp_all add: nat_at_def vw attr_octets_def)
  have k: "k \<noteq> attr_None" and y: "val_ok y" using o by (simp_all add: nat_keeps_def)
  from sees_octet [OF s] obtain s1 where 1: "Read_octet vt (dw_stream w) = (s1, Some (m_AttribMap k))"
    "sees x c s1 (dtype_code (vtype y) # val_octets y @ rest)" .
  from sees_octet [OF 1(2)] obtain s2 where 2: "Read_octet vt s1 = (s2, Some (dtype_code (vtype y)))" "sees x c s2 (val_octets y @ rest)" .
  from reads_value [OF E a(1) y 2(2)] obtain s3 var1 where 3: "VariantExtract E vt (vtype y) var s2 = (s3, var1, True)" "has E var1 y"
    "sees x c s3 rest" by blast
  have ex: "attrib_extract E vt var s1 = (s3, var1, True)" using 2(1) 3(1) by (simp add: attrib_extract_def)
  let ?w1 = "w\<lparr>dw_stream := s3, dw_root := datum_upd (hd p) (AttrSet E k var1) root\<rparr>"
  have ch: "m_AttribMap k \<noteq> mk_PkgEnd" "m_AttribMap k \<noteq> mk_Dat" "m_AttribMap k \<noteq> mk_DatEnd" "m_AttribMap k \<noteq> mk_Chk"
    "m_AttribMap k \<noteq> mk_ChkEnd" "m_TagMap (m_AttribMap k) = Some k"
    using TagMap_AttribMap [OF k] by simp_all
  have "nat_run E vt vw = nat_run E vt (var1, ?w1)" unfolding vw nat_run_def prod.case
    by (subst elem_loop.simps) (simp add: 1(1) ch ex a)
  then show "\<exists>w1 v. nat_run E vt vw = nat_run E vt w1 \<and> has E v y \<and> nat_at inv blocks x c w1 p (datum_upd (hd p) (AttrSet E k v) root) ty rest"
    using a 3(2,3) has_not_inert [OF 3(2)] by (intro exI [of _ "(var1, ?w1)"] exI [of _ var1]) (simp add: nat_at_def)
next
  fix vw :: "variant \<times> 's decworld" and q p root ty rest and lv :: nat
  obtain var w where vw: "vw = (var, w)" by fastforce
  assume "nat_at inv blocks x c vw (q # p) root ty ([mk_DatEnd] @ rest)" and p: "p \<noteq> []"
  then have a: "v_Type var \<noteq> dt_inert" "dw_stack w = q # p" "dw_root w = root" and s: "sees x c (dw_stream w) (mk_DatEnd # rest)"
    by (simp_all add: nat_at_def vw)
  from sees_octet [OF s] obtain s1 where 1: "Read_octet vt (dw_stream w) = (s1, Some mk_DatEnd)" "sees x c s1 rest" .
  let ?w1 = "w\<lparr>dw_stream := s1, dw_stack := p\<rparr>"
  have "nat_run E vt vw = nat_run E vt (var, ?w1)" unfolding vw nat_run_def prod.case
    by (subst elem_loop.simps) (simp add: 1(1) a p mk_DatEnd_def mk_Dat_def mk_PkgEnd_def)
  then show "\<exists>w1 ty1. nat_run E vt vw = nat_run E vt w1 \<and> nat_at inv blocks x c w1 p root ty1 rest"
    using a 1(2) by (intro exI [of _ "(var, ?w1)"]) (simp add: nat_at_def)
qed

text \<open>The datum that the decoder starts from has no sub-data and at most a name.\<close>

lemma element_step:
  assumes E: "env_ok E" and ok: "tree_ok t" and s: "sees x c (dw_stream w) (tree_octets t @ mk_PkgEnd # rest)"
    and st0: "dw_stack w = [[]]" and d: "\<not> m_Inert (dw_root w)" "m_Datums (dw_root w) = []" "attr_ready (dw_root w)"
    and nm: "\<forall>k. m_Attribs (dw_root w) k \<noteq> None \<longrightarrow> (case t of DT av ts \<Rightarrow> av k \<noteq> None)"
  shows "\<exists>w1. nat_DecodeElement E vt w = Some (w1, True) \<and> rep E (dw_root w1) t \<and> sees x c (dw_stream w1) rest"
proof -
  obtain av ts where t: "t = DT av ts" by (cases t)
  let ?out = "tree_out (\<lambda>_ _. [mk_Dat]) (\<lambda>_ _. attr_octets) (\<lambda>_. [mk_DatEnd])"
  let ?body = "concat (map attr_octets (attr_pairs av all_attribs)) @ concat (map (?out (Suc 0)) ts) @ mk_DatEnd # mk_PkgEnd # rest"
  let ?var = "Variant_new E False"
  have "tree_octets t = ?out 0 t" by (simp only: tree_octets_out)
  then have s0: "sees x c (dw_stream w) (mk_Dat # ?body)" using s t by simp
  from sees_octet [OF s0] obtain s1 where 1: "Read_octet vt (dw_stream w) = (s1, Some mk_Dat)" "sees x c s1 ?body" .
  have V: "v_Type ?var \<noteq> dt_inert" using has_not_inert [OF new_has [OF E]] .
  have "nat_DecodeElement E vt w = elem_loop E vt True ?var w" using st0 by (simp add: nat_DecodeElement_def)
  also have "\<dots> = nat_run E vt (?var, w\<lparr>dw_stream := s1\<rparr>)"
    by (subst elem_loop.simps) (simp add: 1(1) nat_run_def mk_Dat_def mk_PkgEnd_def)
  finally have e0: "nat_DecodeElement E vt w = nat_run E vt (?var, w\<lparr>dw_stream := s1\<rparr>)" .
  have a0: "nat_at inv blocks x c (?var, w\<lparr>dw_stream := s1\<rparr>) [[]] (dw_root w) (val_type av) ?body"
    using 1(2) st0 V by (simp add: nat_at_def)
  have ok1: "tree_ok (DT av ts)" "tree_fits nat_keeps (DT av ts)" using ok t tree_ok_fits [of t] by simp_all
  have nm1: "av k = None \<Longrightarrow> m_Attribs (dw_root w) k = None" for k using nm t by auto
  from tree_reader.read_root [where lv = 0, OF native_reader E ok1 a0 d(1,3,2) nm1] obtain vw ty1 e where
    e: "nat_run E vt (?var, w\<lparr>dw_stream := s1\<rparr>) = nat_run E vt vw" "nat_at inv blocks x c vw [[]] e ty1 (mk_DatEnd # mk_PkgEnd # rest)"
      "rep E e t" unfolding t by auto
  obtain var1 w1 where vw: "vw = (var1, w1)" by fastforce
  have w1: "dw_stack w1 = [[]]" "dw_root w1 = e" and s2: "sees x c (dw_stream w1) (mk_DatEnd # mk_PkgEnd # rest)"
    using e(2) by (simp_all add: nat_at_def vw)
  from sees_octet [OF s2] obtain s3 where 3: "Read_octet vt (dw_stream w1) = (s3, Some mk_DatEnd)" "sees x c s3 (mk_PkgEnd # rest)" .
  from sees_octet [OF 3(2)] obtain s4 where 4: "Read_octet vt s3 = (s4, Some mk_PkgEnd)" "sees x c s4 rest" .
  have "elem_loop E vt False var1 w1 = elem_loop E vt False var1 (w1\<lparr>dw_stream := s3, dw_stack := [[]]\<rparr>)"
    by (subst elem_loop.simps) (simp add: 3(1) w1 mk_DatEnd_def mk_Dat_def mk_PkgEnd_def)
  also have "\<dots> = Some (w1\<lparr>dw_stream := s4, dw_stack := [[]]\<rparr>, True)"
    by (subst elem_loop.simps) (simp add: 4(1))
  finally have "nat_DecodeElement E vt w = Some (w1\<lparr>dw_stream := s4, dw_stack := [[]]\<rparr>, True)"
    using e0 e(1) vw by (simp add: nat_run_def)
  then show ?thesis using w1 e(3) 4(2) by simp
qed

end

section \<open>The round trip\<close>

context block_store
begin

lemma checksum_step:
  assumes s: "sees x c (dw_stream w) (trailer_octets ck_Crc32 crc)" and k: "length (trailer_octets ck_Crc32 crc) < length c"
    and crc: "\<And>s. st s = x \<Longrightarrow> Stream_Crc32Get (length c - length (trailer_octets ck_Crc32 crc)) vt s
      (length c - length (trailer_octets ck_Crc32 crc)) = crc"
  shows "\<exists>w1. nat_DecodeChecksum h vt w = Some (w1, True) \<and> dw_root w1 = dw_root w"
proof -
  have s0: "sees x c (dw_stream w) (mk_Chk # 1 # be_octets crc @ [mk_ChkEnd])" using s by (simp add: trailer_octets_def)
  have pos: "Pos vt (dw_stream w) = length c - length (trailer_octets ck_Crc32 crc)" using sees_len [OF s] by simp
  from sees_octet [OF s0] obtain s1 where 1: "Read_octet vt (dw_stream w) = (s1, Some mk_Chk)" "sees x c s1 (1 # be_octets crc @ [mk_ChkEnd])" .
  from sees_octet [OF 1(2)] obtain s2 where 2: "Read_octet vt s1 = (s2, Some 1)" "sees x c s2 (be_octets crc @ [mk_ChkEnd])" .
  from reads_words(2) 2(2) obtain s3 where 3: "(net_extract h vt :: ('s, u32) extraction) s2 = (s3, Some crc)" "sees x c s3 [mk_ChkEnd]"
    by (rule reads_obtain)
  from sees_octet [OF 3(2)] obtain s4 where 4: "Read_octet vt s3 = (s4, Some mk_ChkEnd)" "sees x c s4 []" .
  have "Stream_Crc32Get (Pos vt (dw_stream w)) vt s3 (Pos vt (dw_stream w)) = crc"
    unfolding pos by (rule crc) (use 3(2) in \<open>simp add: s_sees_def\<close>)
  then show ?thesis using 1(1) 2(1) 3(1) 4(1)
    by (simp add: nat_DecodeChecksum_def Let_def octets_expect_def LongExtract_def)
qed

lemma native_decode:
  assumes E: "env_ok E" and w: "wf s1" and ok: "tree_ok t"
    and cont: "content s1 = packet_octets t @
      trailer_octets chk (Stream_Crc32Get (length (packet_octets t)) vt s1 (length (packet_octets t)))"
    and rc: "\<not> m_Inert r" "NameGet E r = Some n" "n = [] \<or> root_named t" and chk: "Check \<longrightarrow> chk = ck_Crc32"
  shows "\<exists>s2 r1. Datum_Decode E vt (Some (SerDesNative E vt)) s1 r Check = Some (s2, r1, True) \<and> rep E r1 t"
proof -
  let ?sd = "SerDesNative E vt" and ?P = "packet_octets t"
  define crc where "crc = Stream_Crc32Get (length ?P) vt s1 (length ?P)"
  define tr where "tr = trailer_octets chk crc"
  have c: "content s1 = ?P @ tr" using cont by (simp add: tr_def crc_def)
  have P0: "?P \<noteq> []" by (simp add: packet_octets_def)
  then have ne: "bs s1 \<noteq> []" using c by (auto simp: content_def)
  from Seek_spec [OF w ne, of 0] obtain s2 where s2: "Seek vt s1 0 = (s2, True)" "wf s2" "st s2 = st s1" "content s2 = content s1" "ps s2 = 0"
    by auto
  from Clear_ready [OF rc(1,2)] obtain r1 where r1: "Datum_Clear E r = Some r1" "\<not> m_Inert r1" "m_Datums r1 = []" "attr_ready r1"
    "\<And>k. m_Attribs r1 k \<noteq> None \<Longrightarrow> k = attr_Name \<and> n \<noteq> []" by blast
  let ?x = "st s1" and ?c = "content s1"
  have v0: "sees ?x ?c s2 (mk_Magic # mk_Pkg # DatumVersion # tree_octets t @ mk_PkgEnd # tr)"
    using s2 c w by (simp add: s_sees_def packet_octets_def)
  from sees_octet [OF v0] obtain s3 where 3: "Read_octet vt s2 = (s3, Some mk_Magic)" "sees ?x ?c s3 (mk_Pkg # DatumVersion # tree_octets t @ mk_PkgEnd # tr)" .
  from sees_octet [OF 3(2)] obtain s4 where 4: "Read_octet vt s3 = (s4, Some mk_Pkg)" "sees ?x ?c s4 (DatumVersion # tree_octets t @ mk_PkgEnd # tr)" .
  from sees_octet [OF 4(2)] obtain s5 where 5: "Read_octet vt s4 = (s5, Some DatumVersion)" "sees ?x ?c s5 (tree_octets t @ mk_PkgEnd # tr)" .
  let ?w = "\<lparr>dw_stream = s5, dw_root = r1, dw_stack = [[]]\<rparr>"
  have nm: "\<forall>k. m_Attribs (dw_root ?w) k \<noteq> None \<longrightarrow> (case t of DT av ts \<Rightarrow> av k \<noteq> None)"
    using r1(5) rc(3) by (cases t) auto
  have "\<exists>w1. nat_DecodeElement E vt ?w = Some (w1, True) \<and> rep E (dw_root w1) t \<and> sees ?x ?c (dw_stream w1) tr"
    by (rule element_step [OF E ok]) (use 5(2) r1 nm in simp_all)
  then obtain w1 where w1: "nat_DecodeElement E vt ?w = Some (w1, True)" "rep E (dw_root w1) t" "sees ?x ?c (dw_stream w1) tr" by blast
  have sd: "sd_DecodeIdent ?sd = nat_DecodeIdent vt" "sd_DecodeVersion ?sd = nat_DecodeVersion vt"
    "sd_DecodeElement ?sd = nat_DecodeElement E vt" "sd_DecodeChecksum ?sd = nat_DecodeChecksum (e_host E) vt"
    by (simp_all add: SerDesNative_def)
  let ?wi = "\<lparr>dw_stream = s2, dw_root = r1, dw_stack = [[]]\<rparr>"
  have "decode_loop ?sd Check st_ident ?wi = decode_loop ?sd Check st_version \<lparr>dw_stream = s4, dw_root = r1, dw_stack = [[]]\<rparr>"
    by (subst decode_loop.simps) (simp add: ExecDecodeState_def sd nat_DecodeIdent_def octets_expect_def 3(1) 4(1))
  also have "\<dots> = decode_loop ?sd Check st_elements ?w"
    by (subst decode_loop.simps) (simp add: ExecDecodeState_def sd nat_DecodeVersion_def 5(1))
  finally have D: "decode_loop ?sd Check st_ident ?wi = decode_loop ?sd Check st_elements ?w" .
  have "\<exists>w2. decode_loop ?sd Check st_elements ?w = Some (w2, True) \<and> dw_root w2 = dw_root w1"
  proof (cases Check)
    case False
    then show ?thesis by (simp add: decode_loop.simps [of _ _ st_elements] ExecDecodeState_def sd w1(1))
  next
    case True
    then have tr: "tr = trailer_octets ck_Crc32 crc" using chk by (simp add: tr_def)
    have l: "length ?c - length (trailer_octets ck_Crc32 crc) = length ?P" unfolding c tr by simp
    have "\<exists>w2. nat_DecodeChecksum (e_host E) vt w1 = Some (w2, True) \<and> dw_root w2 = dw_root w1"
    proof (rule checksum_step)
      show "sees ?x ?c (dw_stream w1) (trailer_octets ck_Crc32 crc)" using w1(3) tr by simp
      show "length (trailer_octets ck_Crc32 crc) < length ?c" unfolding c tr using P0 by simp
      show "\<And>u. st u = ?x \<Longrightarrow> Stream_Crc32Get (length ?c - length (trailer_octets ck_Crc32 crc)) vt u
          (length ?c - length (trailer_octets ck_Crc32 crc)) = crc"
        unfolding l using P0 by (simp add: Stream_Crc32Get_def crc_def)
    qed
    then show ?thesis using True
      by (auto simp: decode_loop.simps [of _ _ st_elements] decode_loop.simps [of _ _ st_check] ExecDecodeState_def sd w1(1))
  qed
  then obtain w2 where w2: "decode_loop ?sd Check st_ident ?wi = Some (w2, True)" "dw_root w2 = dw_root w1" using D by auto
  have "Datum_Decode E vt (Some ?sd) s1 r Check = Some (dw_stream w2, dw_root w2, True)"
    using rc(1) r1(1) w2(1) s2(1) by (simp add: Datum_Decode_def SerDes_Decode_def)
  then show ?thesis using w1(2) w2(2) by auto
qed

end

context growing_store
begin

lemma native_round_trip:
  assumes E: "env_ok E" and w: "wf s" and r: "rep E d t" and ok: "tree_ok t"
    and rc: "\<not> m_Inert r" "NameGet E r = Some n" "n = [] \<or> root_named t" and chk: "Check \<longrightarrow> chk = ck_Crc32"
  shows "\<exists>s1 s2 r1. Datum_Encode (Some (SerDesNative E vt)) d chk s = Some (s1, True) \<and>
    Datum_Decode E vt (Some (SerDesNative E vt)) s1 r Check = Some (s2, r1, True) \<and> rep E r1 t"
proof -
  from encode_packet [OF r ok w, of chk] obtain s1 where s1: "Datum_Encode (Some (SerDesNative E vt)) d chk s = Some (s1, True)" "wf s1"
    "content s1 = packet_octets t @
      trailer_octets chk (Stream_Crc32Get (length (packet_octets t)) vt s1 (length (packet_octets t)))" by blast
  from native_decode [OF E s1(2) ok s1(3) rc chk] show ?thesis using s1(1) by blast
qed

end

end
