(* ===== verification/NativeCodec.thy ===== *)
theory NativeCodec
  imports NativeRead
begin

text \<open>
  The round trip of the native serializer over stream buffers whose memory manager grants every
  request, and an input for it.
\<close>

text \<open>Over stream buffers the native format keeps the contracts of an encoder and of a decoder of trees.\<close>

interpretation native_writer: tree_writer "s_out m_VecBlocks" E "SerDesNative E StreamBuf_vt" "\<lambda>_. s_end sb_rich m_VecBlocks"
    "\<lambda>_ _. [mk_Dat]" "\<lambda>_ _. attr_octets" "\<lambda>_. [mk_DatEnd]" "\<lambda>_. True" for E
  by (rule sbg.native_writer)

interpretation native_reader: tree_reader E "nat_run E StreamBuf_vt" "nat_at sb_rich m_VecBlocks x c"
    "\<lambda>_ _. [mk_Dat]" "\<lambda>_ _. attr_octets" "\<lambda>_. [mk_DatEnd]" nat_keeps for E x c
  by (rule sbg.native_reader)

text \<open>
  C13. A datum encoded in the native format and decoded again, with the CRC checked or not, represents
  the same tree: the same attributes with the same types and values, the same sub-data in the same
  order, to any depth. The receiving datum may have held anything that is not inert; its own name is
  empty, or the tree brings a name.
\<close>

theorem Native_round_trip:
  assumes "env_ok E" and "sb_rich (st s)" and "s_wf m_VecBlocks s" and "rep E d t" and "tree_ok t"
    and "\<not> m_Inert r" and "NameGet E r = Some n" and "n = [] \<or> root_named t" and "Check \<longrightarrow> chk = ck_Crc32"
  shows "\<exists>s1 s2 r1. Datum_Encode (Some (SerDesNative E StreamBuf_vt)) d chk s = Some (s1, True) \<and>
    Datum_Decode E StreamBuf_vt (Some (SerDesNative E StreamBuf_vt)) s1 r Check = Some (s2, r1, True) \<and> rep E r1 t"
  using sbg.native_round_trip assms by blast

definition demo_stream :: "streambuf stream" where
  "demo_stream = Stream_new (sb_null (\<lambda>k n. Some (replicate n 0)))"

definition demo_tree :: dtree where
  "demo_tree = DT ((\<lambda>_. None)(attr_Name := Some (V_str [97]), attr_Val := Some (V_i16 (-2)))) [DT (\<lambda>_. None) []]"

definition demo_datum :: datum where
  "demo_datum = Datum False True ((\<lambda>_. None)(attr_Name \<mapsto> StrSet plain_env ''a'' (Variant_new plain_env False),
     attr_Val \<mapsto> Int16Set plain_env (-2) (Variant_new plain_env False))) 0 [Datum False True (\<lambda>_. None) 0 []]"

lemma demo_rep: "rep plain_env demo_datum demo_tree"
proof -
  have e: "env_ok plain_env" unfolding plain_env_def by (rule env_ok_manager)
  have t: "v_Type (Variant_new plain_env False) \<noteq> dt_inert"
    by (auto simp: Variant_new_def ResizeBuffer_def split: prod.splits bool.splits)
  have "has plain_env (StrSet plain_env ''a'' (Variant_new plain_env False)) (V_str [97])"
    using StrSet_has [OF e, of "''a''"] by (simp add: to_octets_def octet_of_char_def cstr_def)
  then show ?thesis using setters_has(4) [OF e t] by (simp add: demo_datum_def demo_tree_def)
qed

theorem Native_round_trip_witness:
  "\<exists>s1 s2 r1. Datum_Encode (Some (SerDesNative plain_env StreamBuf_vt)) demo_datum ck_Crc32 demo_stream = Some (s1, True) \<and>
    Datum_Decode plain_env StreamBuf_vt (Some (SerDesNative plain_env StreamBuf_vt)) s1 (Datum_new plain_env [] False) True = Some (s2, r1, True) \<and>
    rep plain_env r1 demo_tree"
proof (rule Native_round_trip)
  show "env_ok plain_env" unfolding plain_env_def by (rule env_ok_manager)
  show "rep plain_env demo_datum demo_tree" by (rule demo_rep)
  show "sb_rich (st demo_stream)" "s_wf m_VecBlocks demo_stream"
    by (auto simp: demo_stream_def Stream_new_def sb_null_def sb_rich_def sb_inv_def allocator_def s_wf_def)
  show "tree_ok demo_tree" by (auto simp: demo_tree_def attrs_ok_def)
  show "\<not> m_Inert (Datum_new plain_env [] False)" by (simp add: Datum_new_empty)
  show "NameGet plain_env (Datum_new plain_env [] False) = Some []" by (simp add: Datum_new_empty NameGet_def Attr_def new_inert_name)
qed simp_all

end
