(* ===== verification/DatumTree.thy ===== *)
theory DatumTree
  imports NativeCodec
begin

text \<open>
  The datum against two simpler views: the walk with \<open>operator++\<close> is the preorder of the paths, and
  the changing operations act on the abstract tree that the datum represents as list operations.
\<close>

section \<open>The walk\<close>

text \<open>The paths below a datum in preorder; an inert datum is not entered.\<close>

fun desc :: "datum \<Rightarrow> nat list list" and desc_list :: "nat \<Rightarrow> datum list \<Rightarrow> nat list list" where
  "desc (Datum i s a it ds) = (if i then [] else desc_list 0 ds)"
| "desc_list k [] = []"
| "desc_list k (d # ds) = [k] # map (Cons k) (desc d) @ desc_list (Suc k) ds"

text \<open>The paths that the cursor has not come to.\<close>

function remaining :: "datum \<Rightarrow> nat list list" where
  "remaining (Datum i s a it ds) =
     (if i then [] else if s then desc_list 0 ds
      else if it < length ds then map (Cons it) (remaining (ds ! it)) @ desc_list (Suc it) (drop (Suc it) ds) else [])"
  by pat_completeness auto

termination by (relation "measure size") (simp_all add: size_nth_datum)

text \<open>The tree without its cursors.\<close>

fun bare :: "datum \<Rightarrow> datum" where
  "bare (Datum i s a it ds) = Datum i True a 0 (map bare ds)"

lemma desc_bare: "desc (bare d) = desc d" "desc_list k (map bare ds) = desc_list k ds"
  by (induction d and k ds rule: desc_desc_list.induct) auto

lemma desc_cong: "bare d = bare d' \<Longrightarrow> desc d = desc d'"
  by (metis desc_bare(1))

lemma desc_list_cong: "map bare ds = map bare ds' \<Longrightarrow> desc_list k ds = desc_list k ds'"
  by (metis desc_bare(2))

lemma Rewind_simps [simp]: "bare (fst (Rewind d)) = bare d" "remaining (fst (Rewind d)) = desc d"
  "GetRecursive (fst (Rewind d)) = Some []" "m_Inert (fst (Rewind d)) = m_Inert d"
  by (cases d; simp add: Rewind_def with_cursor_def)+

lemma get_rec_nth_spec: "get_rec_nth ds n k = (if n < length ds then map_option (Cons (k + n)) (GetRecursive (ds ! n)) else None)"
  by (induction ds arbitrary: n k) (auto simp: nth_Cons split: nat.splits)

lemma map_bare_upd: "i < length ds \<Longrightarrow> bare x = bare (ds ! i) \<Longrightarrow> map bare (ds[i := x]) = map bare ds"
  by (rule nth_equalityI) (auto simp: nth_list_update)

text \<open>The cursor enters the sub-datum \<open>j\<close>.\<close>

lemma enter_sub:
  fixes ds :: "datum list" and a :: "attrib \<Rightarrow> variant option"
  assumes "j < length ds"
  defines "d' \<equiv> Datum False False a j (ds[j := fst (Rewind (ds ! j))])"
  shows "GetRecursive d' = Some (hd (desc_list j (drop j ds)))" "remaining d' = tl (desc_list j (drop j ds))"
  using assms by (simp_all add: get_rec_nth_spec Cons_nth_drop_Suc [symmetric])

lemma enter_sub_ne: "j < length ds \<Longrightarrow> desc_list j (drop j ds) \<noteq> []"
  by (simp add: Cons_nth_drop_Suc [symmetric])

text \<open>Iterators within their lists.\<close>

fun cursors_ok :: "datum \<Rightarrow> bool" where
  "cursors_ok (Datum i s a it ds) = (it \<le> length ds \<and> (\<forall>d \<in> set ds. cursors_ok d))"

lemma Rewind_cursors: "cursors_ok d \<Longrightarrow> cursors_ok (fst (Rewind d))"
  by (cases d) (simp add: Rewind_def with_cursor_def)

definition advanced :: "datum \<Rightarrow> datum \<Rightarrow> bool \<Rightarrow> bool" where
  "advanced d d' rv \<longleftrightarrow> rv = (remaining d \<noteq> []) \<and> bare d' = bare d \<and> remaining d' = tl (remaining d) \<and> cursors_ok d' \<and>
     (rv \<longrightarrow> GetRecursive d' = Some (hd (remaining d)))"

lemma advanced_enter:
  assumes d: "d = Datum False s a it ds" and ds1: "map bare ds1 = map bare ds" "\<forall>x \<in> set ds1. cursors_ok x"
    and j: "j \<le> length ds" "remaining d = desc_list j (drop j ds)"
  shows "advanced d (Datum False False a j (if j \<noteq> length ds1 then ds1[j := fst (Rewind (ds1 ! j))] else ds1)) (j \<noteq> length ds1)"
proof -
  have l: "length ds1 = length ds" using ds1(1) map_eq_imp_length_eq by metis
  have dl: "desc_list j (drop j ds1) = desc_list j (drop j ds)" using ds1(1) by (metis desc_list_cong drop_map)
  show ?thesis
  proof (cases "j < length ds")
    case True
    then have c: "cursors_ok (fst (Rewind (ds1 ! j)))" using ds1(2) l Rewind_cursors by simp
    then have "\<forall>x \<in> set (ds1[j := fst (Rewind (ds1 ! j))]). cursors_ok x"
      using ds1(2) by (auto dest: subsetD [OF set_update_subset_insert])
    then show ?thesis
      using enter_sub [of j ds1 a] enter_sub_ne [of j ds1] True l dl ds1(1) j d map_bare_upd [of j ds1 "fst (Rewind (ds1 ! j))"] by (simp add: advanced_def)
  next
    case False
    then show ?thesis using l ds1 j d by (simp add: advanced_def)
  qed
qed

lemma Advance_spec: "cursors_ok d \<Longrightarrow> Advance True d = (d', rv) \<Longrightarrow> advanced d d' rv"
proof (induction d arbitrary: d' rv rule: measure_induct_rule [of size])
  case (less d)
  obtain inert s a it ds where d: "d = Datum inert s a it ds" by (cases d)
  have c: "it \<le> length ds" "\<forall>x \<in> set ds. cursors_ok x" using less.prems(1) d by simp_all
  consider "inert" | "\<not> inert" "s" | "\<not> inert" "\<not> s" "it = length ds" | "\<not> inert" "\<not> s" "it < length ds" using c(1) by fastforce
  then show ?case
  proof cases
    case 1
    then show ?thesis using less.prems d by (auto simp: advanced_def)
  next
    case 2
    then have "advanced d (Datum False False a 0 (if 0 \<noteq> length ds then ds[0 := fst (Rewind (ds ! 0))] else ds)) (0 \<noteq> length ds)"
      using d c(2) by (intro advanced_enter) simp_all
    then show ?thesis using less.prems(2) d 2 by (simp split: if_splits)
  next
    case 3
    then show ?thesis using less.prems d by (auto simp: advanced_def)
  next
    case 4
    obtain d1 r1 where A: "Advance True (ds ! it) = (d1, r1)" by fastforce
    have "size (ds ! it) < size d" using 4(3) d size_nth_datum by simp
    from less.IH [OF this _ A] have ih: "advanced (ds ! it) d1 r1" using c(2) 4(3) by simp
    have m: "map bare (ds[it := d1]) = map bare ds" using ih 4(3) by (intro map_bare_upd) (simp_all add: advanced_def)
    have c1: "\<forall>x \<in> set (ds[it := d1]). cursors_ok x"
      using c(2) ih by (auto simp: advanced_def dest: subsetD [OF set_update_subset_insert])
    have dl: "desc_list (Suc it) (drop (Suc it) (ds[it := d1])) = desc_list (Suc it) (drop (Suc it) ds)" by simp
    show ?thesis
    proof (cases r1)
      case True
      then have "d' = Datum False False a it (ds[it := d1])" "rv" using less.prems(2) d 4 A by (auto split: if_splits)
      then show ?thesis using ih True m c1 4 d by (simp add: advanced_def get_rec_nth_spec hd_map map_tl)
    next
      case False
      have "advanced d (Datum False False a (Suc it) (if Suc it \<noteq> length (ds[it := d1]) then (ds[it := d1])[Suc it := fst (Rewind (ds[it := d1] ! Suc it))]
          else ds[it := d1])) (Suc it \<noteq> length (ds[it := d1]))"
        using False ih m c1 4 d by (intro advanced_enter) (simp_all add: advanced_def)
      then show ?thesis using less.prems(2) d 4 A False by (simp split: if_splits)
    qed
  qed
qed

text \<open>What \<open>operator++\<close> yields until it comes to the end, at most \<open>n\<close> times.\<close>

fun visit :: "nat \<Rightarrow> datum \<Rightarrow> nat list list" where
  "visit 0 d = []"
| "visit (Suc n) d = (case datum_next d of (d1, Some p) \<Rightarrow> p # visit n d1 | (d1, None) \<Rightarrow> [])"

fun active :: "datum \<Rightarrow> bool" where
  "active (Datum i s a it ds) = (\<not> i \<and> (\<forall>d \<in> set ds. active d))"

lemma m_Inert_bare: "bare d = bare d' \<Longrightarrow> m_Inert d = m_Inert d'"
  by (cases d; cases d') simp

lemma visit_remaining: "\<not> m_Inert d \<Longrightarrow> cursors_ok d \<Longrightarrow> length (remaining d) < n \<Longrightarrow> visit n d = remaining d"
proof (induction n arbitrary: d)
  case (Suc n)
  obtain d1 rv where A: "Advance True d = (d1, rv)" by fastforce
  from Advance_spec [OF Suc.prems(2) A] have a: "rv = (remaining d \<noteq> [])" "bare d1 = bare d" "remaining d1 = tl (remaining d)"
    "cursors_ok d1" "rv \<longrightarrow> GetRecursive d1 = Some (hd (remaining d))" by (simp_all add: advanced_def)
  show ?case
  proof (cases "remaining d")
    case Nil
    then show ?thesis using A a(1) Suc.prems(1) by (simp add: datum_next_def)
  next
    case (Cons p r)
    have "visit n d1 = remaining d1"
      using Suc.IH [of d1] m_Inert_bare [OF a(2)] Suc.prems a(3,4) Cons by simp
    then show ?thesis using A a Suc.prems(1) Cons by (simp add: datum_next_def)
  qed
qed simp

lemma desc_heads: "p \<in> set (desc_list k ds) \<Longrightarrow> p \<noteq> [] \<and> k \<le> hd p"
  by (induction ds arbitrary: k) (auto dest: Suc_leD)

lemma desc_distinct: "distinct (desc d)" "distinct (desc_list k ds)"
proof (induction d and k ds rule: desc_desc_list.induct)
  case (3 k d ds)
  have "[k] \<notin> set (desc_list (Suc k) ds)" "\<And>p. k # p \<notin> set (desc_list (Suc k) ds)" using desc_heads by fastforce+
  moreover have "[] \<notin> set (desc d)" using desc_heads by (cases d) (auto dest: desc_heads)
  ultimately show ?case using 3 by (auto simp: distinct_map)
qed simp_all

lemma ex_nat_Suc: "(\<exists>i. Q i) \<longleftrightarrow> Q 0 \<or> (\<exists>i. Q (Suc i))"
  by (metis not0_implies_Suc)

lemma desc_paths:
  "active d \<Longrightarrow> p \<in> set (desc d) \<longleftrightarrow> p \<noteq> [] \<and> datum_at p d \<noteq> None"
  "\<forall>d \<in> set ds. active d \<Longrightarrow> p \<in> set (desc_list k ds) \<longleftrightarrow>
     (\<exists>i q. p = (k + i) # q \<and> i < length ds \<and> datum_at q (ds ! i) \<noteq> None)"
proof (induction d and k ds arbitrary: p and p rule: desc_desc_list.induct)
  case (1 i s a it ds)
  then show ?case by (cases p) (auto simp del: not_None_eq)
next
  case (3 k d ds)
  have d: "p \<in> set ([k] # map (Cons k) (desc d)) \<longleftrightarrow> (\<exists>q. p = k # q \<and> datum_at q d \<noteq> None)" for p
    using 3(1) 3(3) by (cases p) auto
  have r: "p \<in> set (desc_list (Suc k) ds) \<longleftrightarrow> (\<exists>i q. p = (Suc k + i) # q \<and> i < length ds \<and> datum_at q (ds ! i) \<noteq> None)"
    using 3(2) 3(3) by simp
  have "p \<in> set (desc_list k (d # ds)) \<longleftrightarrow> (\<exists>q. p = k # q \<and> datum_at q d \<noteq> None) \<or>
      (\<exists>i q. p = (Suc k + i) # q \<and> i < length ds \<and> datum_at q (ds ! i) \<noteq> None)"
    using d r by auto
  also have "\<dots> \<longleftrightarrow> (\<exists>i q. p = (k + i) # q \<and> i < length (d # ds) \<and> datum_at q ((d # ds) ! i) \<noteq> None)"
    by (subst (2) ex_nat_Suc) simp
  finally show ?case .
qed simp

text \<open>
  C21. The walk over a datum without inert parts, from \<open>Rewind\<close> on: \<open>operator++\<close> comes to every datum below
  it exactly once, each before its own sub-data and these in order, and then reports the end.
\<close>

theorem Datum_walk:
  assumes "active d" and "cursors_ok d"
  shows "visit (Suc (length (desc d))) (fst (Rewind d)) = desc d \<and> distinct (desc d) \<and>
    (\<forall>p. p \<in> set (desc d) \<longleftrightarrow> p \<noteq> [] \<and> datum_at p d \<noteq> None)"
proof -
  have "\<not> m_Inert (fst (Rewind d))" "cursors_ok (fst (Rewind d))" using assms Rewind_cursors by (cases d; simp)+
  then have "visit (Suc (length (desc d))) (fst (Rewind d)) = desc d"
    using visit_remaining [of "fst (Rewind d)" "Suc (length (desc d))"] by (simp del: visit.simps)
  then show ?thesis using desc_distinct(1) desc_paths(1) [OF assms(1)] by blast
qed

theorem Datum_walk_witness:
  "visit 2 (fst (Rewind demo_datum)) = [[0]] \<and> desc demo_datum = [[0]]"
proof -
  have d: "desc demo_datum = [[0]]" "active demo_datum" "cursors_ok demo_datum" by (simp_all add: demo_datum_def)
  show ?thesis using Datum_walk [OF d(2,3)] d(1) by (simp add: numeral_2_eq_2 del: visit.simps)
qed

section \<open>Operations on trees\<close>

fun str_named :: "dtree \<Rightarrow> bool" where
  "str_named (DT av ts) = (case av attr_Name of None \<Rightarrow> True | Some x \<Rightarrow> vtype x = dt_string)"

fun tree_name :: "dtree \<Rightarrow> string" where
  "tree_name (DT av ts) = (case av attr_Name of Some (V_str s) \<Rightarrow> of_octets s | _ \<Rightarrow> [])"

definition tree_find :: "string \<Rightarrow> dtree list \<Rightarrow> nat" where
  "tree_find n ts = length (takeWhile (\<lambda>t. tree_name t \<noteq> n) ts)"

definition tree_add :: "dtree \<Rightarrow> dtree list \<Rightarrow> dtree list" where
  "tree_add u ts =
     (if tree_find (tree_name u) ts < length ts \<and> tree_name u \<noteq> [] then ts[tree_find (tree_name u) ts := u] else ts @ [u])"

definition tree_del :: "string \<Rightarrow> dtree list \<Rightarrow> dtree list" where
  "tree_del n ts = take (tree_find n ts) ts @ drop (Suc (tree_find n ts)) ts"

definition tree_names :: "dtree list \<Rightarrow> string list" where
  "tree_names ts = filter (\<lambda>n. n \<noteq> []) (map tree_name ts)"

lemma rep_list_all2: "rep_list E ds ts = list_all2 (rep E) ds ts"
  by (induction ts arbitrary: ds) (auto split: list.splits simp: list_all2_Cons2)

lemma rep_NameGet: "rep E d t \<Longrightarrow> str_named t \<Longrightarrow> NameGet E d = Some (tree_name t)"
proof (cases t)
  case (DT av ts)
  assume a: "rep E d t" "str_named t"
  then have "rel_option (has E) (m_Attribs d attr_Name) (av attr_Name)" using DT by simp
  then show ?thesis
  proof (cases rule: option.rel_cases)
    case None
    then show ?thesis using DT new_inert_name by (simp add: NameGet_def Attr_def)
  next
    case (Some v x)
    then obtain s where "x = V_str s" using a(2) DT by (cases x) simp_all
    then show ?thesis using DT Some getters_has(12) [of E v s] by (simp add: NameGet_def Attr_def)
  qed
qed

lemma Find_rep: "list_all2 (rep E) ds ts \<Longrightarrow> \<forall>t \<in> set ts. str_named t \<Longrightarrow> Find E n ds = Some (tree_find n ts)"
  by (induction ds ts rule: list_all2_induct) (auto simp: tree_find_def rep_NameGet)

lemma copy_rel: "env_ok E \<Longrightarrow> rel_option (has E) a x \<Longrightarrow> rel_option (has E) (map_option (Variant_copy E) a) x"
  by (auto simp: copy_has elim: option.rel_cases)

lemma copy_rep:
  assumes E: "env_ok E"
  shows "rep E d t \<Longrightarrow> rep E (datum_copy E d) t"
proof (induction t arbitrary: d)
  case (DT av ts)
  obtain i s a it ds where d: "d = Datum i s a it ds" by (cases d)
  have l: "list_all2 (rep E) ds ts" using DT.prems d by (simp add: rep_list_all2)
  then have "list_all2 (rep E) (map (datum_copy E) ds) ts"
    unfolding list.rel_map by (rule list.rel_mono_strong) (use DT.IH in blast)
  then show ?case using DT.prems d copy_rel [OF E] by (simp add: rep_list_all2)
qed

lemma copies_rep: "list_all2 (rep E) rs ts \<Longrightarrow> list_all2 (rep E) (assign_list E [] rs) ts" if "env_ok E"
  by (induction rs ts rule: list_all2_induct) (simp_all add: copy_rep [OF that])

lemma assign_rep:
  "env_ok E \<Longrightarrow> rep E l u \<Longrightarrow> rep E r t \<Longrightarrow> rep E (datum_assign E l r) t"
  "env_ok E \<Longrightarrow> list_all2 (rep E) ls us \<Longrightarrow> list_all2 (rep E) rs ts \<Longrightarrow> list_all2 (rep E) (assign_list E ls rs) ts"
proof (induction E l r and E ls rs arbitrary: u t and us ts rule: datum_assign_assign_list.induct)
  case (1 E l i s a it ds)
  obtain av ts where t: "t = DT av ts" by (cases t)
  obtain bv us where u: "u = DT bv us" by (cases u)
  have l: "\<not> m_Inert l" "list_all2 (rep E) (m_Datums l) us" "list_all2 (rep E) ds ts"
    using 1(3,4) t u by (simp_all add: rep_list_all2)
  have "list_all2 (rep E) (assign_list E (m_Datums l) ds) ts" by (rule 1(1) [OF l(1) 1(2) l(2,3)])
  then show ?case using 1(4) l(1) t copy_rel [OF 1(2)] by (simp add: rep_list_all2)
next
  case (4 E l ls r rs)
  then show ?case by (auto simp: list_all2_Cons1)
qed (auto simp: list_all2_Cons1 copy_rep copies_rep)

lemma rep_cursor: "rep E (with_cursor s i d) t = rep E d t"
  by (cases t) simp

lemma rep_datums: "rep E d (DT av ts) \<Longrightarrow> list_all2 (rep E) ds us \<Longrightarrow> rep E (with_datums ds d) (DT av us)"
  by (simp add: rep_list_all2)

lemma rep_attrs: "rep E d (DT av ts) \<Longrightarrow> \<forall>k. rel_option (has E) (b k) (bv k) \<Longrightarrow> rep E (with_attribs b d) (DT bv ts)"
  by (simp add: rep_list_all2)

lemma Add_rep:
  assumes E: "env_ok E" and d: "rep E d (DT av ts)" and r: "rep E r u" and n: "\<forall>t \<in> set (u # ts). str_named t"
  shows "\<exists>d1 j. Add_datum E r d = Some (d1, Some [j]) \<and> rep E d1 (DT av (tree_add u ts)) \<and>
    (\<exists>e. datum_at [j] d1 = Some e \<and> rep E e u)"
proof -
  let ?i = "tree_find (tree_name u) ts"
  have l: "list_all2 (rep E) (m_Datums d) ts" "\<not> m_Inert d" using d by (simp_all add: rep_list_all2)
  have len: "length (m_Datums d) = length ts" using list_all2_lengthD [OF l(1)] .
  have f: "NameGet E r = Some (tree_name u)" "Find E (tree_name u) (m_Datums d) = Some ?i"
    using rep_NameGet [OF r] Find_rep [OF l(1)] n by simp_all
  show ?thesis
  proof (cases "?i < length ts \<and> tree_name u \<noteq> []")
    case True
    let ?e = "datum_assign E (m_Datums d ! ?i) r"
    have e: "rep E ?e u" using assign_rep(1) [OF E _ r] list_all2_nthD [OF l(1), of ?i] True len by simp
    have "list_all2 (rep E) ((m_Datums d)[?i := ?e]) (ts[?i := u])" using l(1) e by (rule list_all2_update_cong)
    then show ?thesis using f l(2) True len e rep_datums [OF d]
      by (intro exI [of _ "with_cursor False ?i (with_datums ((m_Datums d)[?i := ?e]) d)"] exI [of _ ?i])
        (simp add: Add_datum_def tree_add_def rep_cursor)
  next
    case False
    let ?e = "datum_copy E r"
    have e: "rep E ?e u" using copy_rep [OF E r] .
    have "list_all2 (rep E) (m_Datums d @ [?e]) (ts @ [u])" using l(1) e by (simp add: list_all2_appendI)
    moreover have "tree_add u ts = ts @ [u]" using False by (auto simp: tree_add_def)
    ultimately have "rep E (with_datums (m_Datums d @ [?e]) d) (DT av (tree_add u ts))" using rep_datums [OF d] by simp
    moreover have "\<not> (?i \<noteq> length (m_Datums d) \<and> 0 < length (tree_name u))"
      using False len length_takeWhile_le [of "\<lambda>t. tree_name t \<noteq> tree_name u" ts] by (auto simp: tree_find_def)
    ultimately show ?thesis using f l(2) e
      by (intro exI [of _ "with_cursor False (length (m_Datums d)) (with_datums (m_Datums d @ [?e]) d)"] exI [of _ "length (m_Datums d)"])
        (auto simp: Add_datum_def rep_cursor)
  qed
qed

lemma Erase_rep:
  assumes d: "rep E d (DT av ts)" and n: "\<forall>t \<in> set ts. str_named t"
  shows "\<exists>d2. Erase_named E n d = Some (d2, tree_find n ts < length ts) \<and> rep E d2 (DT av (tree_del n ts))"
proof -
  let ?i = "tree_find n ts" and ?ds = "take (tree_find n ts) (m_Datums d) @ drop (Suc (tree_find n ts)) (m_Datums d)"
  have l: "list_all2 (rep E) (m_Datums d) ts" using d by (simp add: rep_list_all2)
  have len: "length (m_Datums d) = length ts" "?i \<le> length ts"
    using list_all2_lengthD [OF l] length_takeWhile_le by (simp_all add: tree_find_def)
  have f: "Find E n (m_Datums d) = Some ?i" by (rule Find_rep [OF l n])
  have "list_all2 (rep E) ?ds (tree_del n ts)"
    unfolding tree_del_def by (intro list_all2_appendI list_all2_takeI list_all2_dropI l)
  then have r: "rep E (with_datums ?ds d) (DT av (tree_del n ts))" using rep_datums [OF d] by simp
  show ?thesis
  proof (cases "?i = length ts")
    case True
    then show ?thesis using f d len by (intro exI [of _ d]) (simp add: Erase_named_def tree_del_def)
  next
    case False
    then show ?thesis using f len r
      by (intro exI [of _ "with_cursor (m_Self d) (length ?ds) (with_datums ?ds d)"]) (simp add: Erase_named_def rep_cursor Let_def)
  qed
qed

lemma tree_find_name: "tree_find n ts < length ts \<Longrightarrow> tree_name (ts ! tree_find n ts) = n"
  using nth_length_takeWhile [of "\<lambda>t. tree_name t \<noteq> n" ts] by (simp add: tree_find_def)

lemma tree_find_none: "\<not> tree_find n ts < length ts \<Longrightarrow> n \<notin> tree_name ` set ts"
proof -
  assume "\<not> tree_find n ts < length ts"
  then have "length (takeWhile (\<lambda>t. tree_name t \<noteq> n) ts) = length ts"
    using length_takeWhile_le [of "\<lambda>t. tree_name t \<noteq> n" ts] by (simp add: tree_find_def)
  then have "takeWhile (\<lambda>t. tree_name t \<noteq> n) ts = ts" by (metis takeWhile_eq_take take_all_iff order_refl)
  then show ?thesis by (auto simp: takeWhile_eq_all_conv)
qed

lemma tree_names_add: "distinct (tree_names ts) \<Longrightarrow> distinct (tree_names (tree_add u ts))"
proof (cases "tree_find (tree_name u) ts < length ts \<and> tree_name u \<noteq> []")
  case True
  let ?i = "tree_find (tree_name u) ts"
  have "map tree_name (ts[?i := u]) = map tree_name ts"
    using True tree_find_name by (intro nth_equalityI) (auto simp: nth_list_update)
  then show "distinct (tree_names ts) \<Longrightarrow> ?thesis" using True by (simp add: tree_add_def tree_names_def)
next
  case False
  then have "tree_name u \<notin> tree_name ` set ts \<or> tree_name u = []" using tree_find_none by blast
  then show "distinct (tree_names ts) \<Longrightarrow> ?thesis" using False by (auto simp: tree_add_def tree_names_def)
qed

lemma tree_names_del: "distinct (tree_names ts) \<Longrightarrow> distinct (tree_names (tree_del n ts))"
proof -
  assume d: "distinct (tree_names ts)"
  let ?i = "tree_find n ts"
  have "ts = take ?i ts @ take 1 (drop ?i ts) @ drop (Suc ?i) ts"
    by (metis append_take_drop_id drop_drop plus_1_eq_Suc)
  then have "tree_names ts = tree_names (take ?i ts) @ tree_names (take 1 (drop ?i ts)) @ tree_names (drop (Suc ?i) ts)"
    by (metis tree_names_def filter_append map_append)
  moreover have "tree_names (tree_del n ts) = tree_names (take ?i ts) @ tree_names (drop (Suc ?i) ts)"
    by (simp add: tree_del_def tree_names_def)
  ultimately show ?thesis using d by auto
qed

text \<open>
  C20. The operations of a datum act on the tree it represents: adding a datum replaces the first sub-datum
  of its name or appends it, and the result refers to it; erasing removes the first of the name;
  looking up finds it; copies and assignments represent the source; setting and deleting an attribute
  changes that attribute only. Names that are not empty stay unique among sub-data.
\<close>

theorem Datum_refines:
  assumes "env_ok E" and "rep E d (DT av ts)" and "rep E r u" and "\<forall>t \<in> set (u # ts). str_named t" and "has E v x"
  shows "(\<exists>d1 j. Add_datum E r d = Some (d1, Some [j]) \<and> rep E d1 (DT av (tree_add u ts)) \<and>
      (\<exists>e. datum_at [j] d1 = Some e \<and> rep E e u)) \<and>
    (\<exists>d2. Erase_named E n d = Some (d2, tree_find n ts < length ts) \<and> rep E d2 (DT av (tree_del n ts))) \<and>
    Get_named E n d = Some (if tree_find n ts < length ts then Some [tree_find n ts] else None) \<and>
    rep E (datum_copy E d) (DT av ts) \<and> rep E (datum_assign E d r) u \<and>
    rep E (AttrSet E k v d) (DT (av(k \<mapsto> x)) ts) \<and> rep E (AttrDel k d) (DT (av(k := None)) ts) \<and>
    (distinct (tree_names ts) \<longrightarrow> distinct (tree_names (tree_add u ts)) \<and> distinct (tree_names (tree_del n ts)))"
proof -
  have l: "list_all2 (rep E) (m_Datums d) ts" "\<not> m_Inert d" "\<And>k. rel_option (has E) (m_Attribs d k) (av k)"
    using assms(2) by (simp_all add: rep_list_all2)
  have n: "\<forall>t \<in> set ts. str_named t" using assms(4) by simp
  have "tree_find n ts \<le> length ts" by (simp add: tree_find_def length_takeWhile_le)
  then have g: "Get_named E n d = Some (if tree_find n ts < length ts then Some [tree_find n ts] else None)"
    using l(2) Find_rep [OF l(1) n] list_all2_lengthD [OF l(1)] by (auto simp: Get_named_def)
  have "v_Type (attr_at E k d) \<noteq> dt_inert"
    using l(3) [of k] has_not_inert [OF new_has [OF assms(1)]] has_not_inert
    by (cases rule: option.rel_cases) (auto simp: attr_at_def)
  then have "has E (Variant_assign E v (attr_at E k d)) x" using assign_has [OF assms(1) _ assms(5)] by blast
  then have s: "rep E (AttrSet E k v d) (DT (av(k \<mapsto> x)) ts)" "rep E (AttrDel k d) (DT (av(k := None)) ts)"
    using l rep_attrs [OF assms(2)] by (simp_all add: AttrSet_def AttrDel_def rep_list_all2)
  show ?thesis
    using Add_rep [OF assms(1-4)] Erase_rep [OF assms(2) n, of n] g copy_rep [OF assms(1,2)] assign_rep(1) [OF assms(1-3)] s
      tree_names_add [of ts u] tree_names_del [of ts n] by blast
qed

theorem Datum_refines_witness:
  "\<exists>d1 j e. Add_datum plain_env demo_datum demo_datum = Some (d1, Some [j]) \<and> datum_at [j] d1 = Some e \<and> rep plain_env e demo_tree"
proof -
  have e: "env_ok plain_env" unfolding plain_env_def by (rule env_ok_manager)
  have v: "has plain_env (Variant_new plain_env False) V_none" using new_has [OF e] .
  have n: "\<forall>t \<in> set [demo_tree, DT (\<lambda>_. None) []]. str_named t" by (simp add: demo_tree_def)
  show ?thesis using Datum_refines [OF e demo_rep [unfolded demo_tree_def] demo_rep n v] by blast
qed

end
