(* ===== verification/IoDev.thy ===== *)
theory IoDev
  imports Buffer
begin

text \<open>
  \<open>cpIoDev_I\<close> (POSIX): the transfer loops that every device shares. What a device does with the
  octets is its driver, the virtual functions of \<open>IoDev\<close> (the destructor is one) as a record of functions on
  the world of the device; the drivers of the code are in theory Devices and theory MsgQueue. The
  lemmas say what a transfer reports about the octets that passed, whatever the driver does.
\<close>

section \<open>Operations\<close>

definition k_InfiniteTimeout :: u32 where "k_InfiniteTimeout = 0xffffffff"
definition k_DefaultTimeout :: u32 where "k_DefaultTimeout = 1000"
definition k_TransmitTimeout :: u32 where "k_TransmitTimeout = 100"
definition k_ReceiveTimeout :: u32 where "k_ReceiveTimeout = 3000"
definition k_InvalidDescriptor :: int where "k_InvalidDescriptor = -1"

text \<open>
  The virtual functions. \<open>dr_SendData buf n\<close> sends what is left of \<open>buf\<close> after \<open>n\<close> octets;
  \<open>dr_RecvData len n\<close> gives the octets it stored behind the first \<open>n\<close> and the value returned.
\<close>

record 'w driver =
  dr_SendReady :: "u32 \<Rightarrow> 'w \<Rightarrow> 'w \<times> bool"
  dr_RecvReady :: "u32 \<Rightarrow> 'w \<Rightarrow> 'w \<times> bool"
  dr_SendData :: "octets \<Rightarrow> nat \<Rightarrow> u32 \<Rightarrow> 'w \<Rightarrow> 'w \<times> int"
  dr_RecvData :: "nat \<Rightarrow> nat \<Rightarrow> u32 \<Rightarrow> 'w \<Rightarrow> 'w \<times> octets \<times> int"
  dr_delete :: "'w \<Rightarrow> 'w"

record 'w iodev =
  io_Valid :: bool
  m_FullRead :: bool
  m_Retries :: u8
  m_RetryDelay :: u16
  io_drv :: "'w driver"

definition IoDev_new :: "'w driver \<Rightarrow> 'w iodev" where
  "IoDev_new drv = \<lparr>io_Valid = False, m_FullRead = False, m_Retries = 0, m_RetryDelay = 100, io_drv = drv\<rparr>"

text \<open>The destructor: the descriptors it closes, given the write and the read descriptor.\<close>

definition IoDev_delete :: "int \<Rightarrow> int \<Rightarrow> int list" where
  "IoDev_delete dWrite dRead =
     (let dRead' = (if dWrite = dRead then k_InvalidDescriptor else dRead)
      in (if dWrite \<noteq> k_InvalidDescriptor then [dWrite] else []) @
         (if dRead' \<noteq> k_InvalidDescriptor then [dRead'] else []))"

definition FullRead :: "bool \<Rightarrow> 'w iodev \<Rightarrow> 'w iodev" where
  "FullRead Val d = d\<lparr>m_FullRead := Val\<rparr>"

definition Retries :: "u8 \<Rightarrow> 'w iodev \<Rightarrow> 'w iodev" where
  "Retries Val d = d\<lparr>m_Retries := Val\<rparr>"

definition RetryDelay :: "u16 \<Rightarrow> 'w iodev \<Rightarrow> 'w iodev" where
  "RetryDelay Val d = d\<lparr>m_RetryDelay := Val\<rparr>"

text \<open>The seconds and microseconds of the default \<open>SendReady\<close> and \<open>RecvReady\<close>, which ask \<open>select\<close>.\<close>

definition ready_timeval :: "u32 \<Rightarrow> int \<times> int" where
  "ready_timeval Timeout =
     (let sec = uint Timeout div 1000 in (sec, (uint Timeout - sec * 1000) * 1000))"

definition IoDev_Ready :: "(int \<Rightarrow> int \<times> int \<Rightarrow> 'w \<Rightarrow> 'w \<times> int) \<Rightarrow> int \<Rightarrow> u32 \<Rightarrow> 'w \<Rightarrow> 'w \<times> bool" where
  "IoDev_Ready select desc Timeout w =
     (case select desc (ready_timeval Timeout) w of (w', n) \<Rightarrow> (w', \<not> n \<le> 0))"

text \<open>A count as the \<open>int\<close> that is returned.\<close>

definition int_of_size :: "nat \<Rightarrow> int" where
  "int_of_size n = sint (of_nat n :: u32)"

text \<open>The retry delay only lets time pass.\<close>

function send_loop :: "'w iodev \<Rightarrow> octets \<Rightarrow> u32 \<Rightarrow> 'w \<Rightarrow> nat \<Rightarrow> nat \<Rightarrow> int \<Rightarrow> 'w \<times> int" where
  "send_loop d buf Timeout w bytesWritten retries rv =
     (if bytesWritten < length buf then
        (case (if Timeout \<noteq> k_InfiniteTimeout then dr_SendReady (io_drv d) Timeout w else (w, True)) of
           (w1, writeReady) \<Rightarrow>
             if writeReady then
               (case dr_SendData (io_drv d) buf bytesWritten Timeout w1 of
                  (w2, n) \<Rightarrow>
                    if n \<le> 0 then
                      if retries = 0 then (w2, int_of_size bytesWritten)
                      else send_loop d buf Timeout w2 bytesWritten (retries - 1) (int_of_size bytesWritten)
                    else send_loop d buf Timeout w2 (bytesWritten + nat n) retries
                           (int_of_size (bytesWritten + nat n)))
             else (w1, int_of_size bytesWritten))
      else (w, rv))"
  by pat_completeness auto
termination
  by (relation "measure (\<lambda>(d, buf, t, w, n, r, rv). (length buf - n) + r)") auto

function recv_loop :: "'w iodev \<Rightarrow> nat \<Rightarrow> u32 \<Rightarrow> 'w \<Rightarrow> octets \<Rightarrow> nat \<Rightarrow> nat \<Rightarrow> 'w \<times> octets \<times> nat" where
  "recv_loop d RcvLen Timeout w mem bytesRead retries =
     (if bytesRead < RcvLen then
        (case (if Timeout \<noteq> k_InfiniteTimeout then dr_RecvReady (io_drv d) Timeout w else (w, True)) of
           (w1, readReady) \<Rightarrow>
             if readReady then
               (case dr_RecvData (io_drv d) RcvLen bytesRead Timeout w1 of
                  (w2, stored, n) \<Rightarrow>
                    let mem' = patch bytesRead stored mem in
                    if n \<le> 0 then
                      if retries = 0 then (w2, mem', bytesRead)
                      else recv_loop d RcvLen Timeout w2 mem' bytesRead (retries - 1)
                    else if \<not> m_FullRead d then (w2, mem', bytesRead + nat n)
                    else recv_loop d RcvLen Timeout w2 mem' (bytesRead + nat n) retries)
             else (w1, mem, bytesRead))
      else (w, mem, bytesRead))"
  by pat_completeness auto
termination
  by (relation "measure (\<lambda>(d, len, t, w, mem, n, r). (len - n) + r)") auto

declare send_loop.simps [simp del] recv_loop.simps [simp del]

text \<open>The transfers from and to a pointer, given the octets at it.\<close>

definition Send_ptr :: "'w iodev \<Rightarrow> octets option \<Rightarrow> nat \<Rightarrow> u32 \<Rightarrow> 'w \<Rightarrow> 'w \<times> int" where
  "Send_ptr d pBuf SndLen Timeout w =
     (case pBuf of
        None \<Rightarrow> (w, -1)
      | Some p \<Rightarrow>
          if \<not> io_Valid d then (w, -1)
          else send_loop d (take SndLen p) Timeout w 0 (unat (m_Retries d)) (-1))"

definition Recv_ptr :: "'w iodev \<Rightarrow> octets option \<Rightarrow> nat \<Rightarrow> u32 \<Rightarrow> 'w \<Rightarrow> 'w \<times> octets option \<times> int" where
  "Recv_ptr d pBuf RcvLen Timeout w =
     (case pBuf of
        None \<Rightarrow> (w, pBuf, -1)
      | Some p \<Rightarrow>
          if \<not> io_Valid d then (w, pBuf, -1)
          else (case recv_loop d RcvLen Timeout w p 0 (unat (m_Retries d)) of
                  (w', mem, n) \<Rightarrow> (w', Some mem, int_of_size n)))"

definition Send_Buf :: "'w iodev \<Rightarrow> buffer \<Rightarrow> nat \<Rightarrow> u32 \<Rightarrow> 'w \<Rightarrow> 'w \<times> int" where
  "Send_Buf d Buf SndLen Timeout w =
     (let len = (if Buf_LenGet Buf > SndLen then SndLen else Buf_LenGet Buf)
      in Send_ptr d (Buf_u_str Buf 0) len Timeout w)"

definition Recv_Buf :: "(nat \<Rightarrow> octets option) \<Rightarrow> 'w iodev \<Rightarrow> buffer \<Rightarrow> nat \<Rightarrow> u32 \<Rightarrow> 'w \<Rightarrow> 'w \<times> buffer \<times> int" where
  "Recv_Buf al d Buf RcvLen Timeout w =
     (case Buf_Resize al RcvLen Buf of
        (b1, ok) \<Rightarrow>
          (case (if ok then Recv_ptr d (m_PtrBlock b1) RcvLen Timeout w else (w, m_PtrBlock b1, -1)) of
             (w', mem, rv) \<Rightarrow>
               (w', Buf_LenSet (if rv > 0 then nat rv else 0) (b1\<lparr>m_PtrBlock := mem\<rparr>), rv)))"

section \<open>What a transfer reports\<close>

text \<open>
  Hypotheses on a driver. \<open>sent w\<close> are the octets the other side was given so far; \<open>avail w\<close> are the
  octets that wait to be received. A driver takes or gives a prefix and reports its length; with a
  value of 0 or less it moved nothing.
\<close>

definition sends_to :: "'w driver \<Rightarrow> ('w \<Rightarrow> octets) \<Rightarrow> bool" where
  "sends_to drv sent \<longleftrightarrow>
     (\<forall>t w. sent (fst (dr_SendReady drv t w)) = sent w) \<and>
     (\<forall>buf k t w. k < length buf \<longrightarrow>
        (case dr_SendData drv buf k t w of
           (w', n) \<Rightarrow> n \<le> int (length buf - k) \<and> sent w' = sent w @ take (nat n) (drop k buf)))"

definition receives_from :: "'w driver \<Rightarrow> ('w \<Rightarrow> octets) \<Rightarrow> bool" where
  "receives_from drv avail \<longleftrightarrow>
     (\<forall>t w. avail (fst (dr_RecvReady drv t w)) = avail w) \<and>
     (\<forall>len k t w. k < len \<longrightarrow>
        (case dr_RecvData drv len k t w of
           (w', stored, n) \<Rightarrow> n \<le> int (len - k) \<and> nat n \<le> length (avail w) \<and>
             stored = take (nat n) (avail w) \<and> avail w' = drop (nat n) (avail w)))"

text \<open>A driver that never gives up while there is something to do.\<close>

definition keeps_sending :: "'w driver \<Rightarrow> bool" where
  "keeps_sending drv \<longleftrightarrow>
     (\<forall>t w. snd (dr_SendReady drv t w)) \<and>
     (\<forall>buf k t w. k < length buf \<longrightarrow> 0 < snd (dr_SendData drv buf k t w))"

definition keeps_receiving :: "'w driver \<Rightarrow> ('w \<Rightarrow> octets) \<Rightarrow> bool" where
  "keeps_receiving drv avail \<longleftrightarrow>
     (\<forall>t w. avail w \<noteq> [] \<longrightarrow> snd (dr_RecvReady drv t w)) \<and>
     (\<forall>len k t w. k < len \<longrightarrow> avail w \<noteq> [] \<longrightarrow> 0 < snd (snd (dr_RecvData drv len k t w)))"

lemma int_of_size_small: "n < 2 ^ 31 \<Longrightarrow> int_of_size n = int n"
  by (simp add: int_of_size_def signed_of_nat signed_take_bit_int_eq_self)

lemma sends_toD:
  assumes "sends_to drv sent"
  shows "sent (fst (dr_SendReady drv t w)) = sent w"
    "k < length buf \<Longrightarrow> dr_SendData drv buf k t w = (w', n) \<Longrightarrow>
      n \<le> int (length buf - k) \<and> sent w' = sent w @ take (nat n) (drop k buf)"
  using assms by (auto simp: sends_to_def split: prod.splits)

lemma receives_fromD:
  assumes "receives_from drv avail"
  shows "avail (fst (dr_RecvReady drv t w)) = avail w"
    "k < len \<Longrightarrow> dr_RecvData drv len k t w = (w', stored, n) \<Longrightarrow>
      n \<le> int (len - k) \<and> nat n \<le> length (avail w) \<and> stored = take (nat n) (avail w) \<and> avail w' = drop (nat n) (avail w)"
  using assms by (auto simp: receives_from_def split: prod.splits)

text \<open>The answer of the readiness test, which is only asked with a finite timeout.\<close>

definition send_ready :: "'w iodev \<Rightarrow> u32 \<Rightarrow> 'w \<Rightarrow> 'w \<times> bool" where
  "send_ready d Timeout w = (if Timeout \<noteq> k_InfiniteTimeout then dr_SendReady (io_drv d) Timeout w else (w, True))"

definition recv_ready :: "'w iodev \<Rightarrow> u32 \<Rightarrow> 'w \<Rightarrow> 'w \<times> bool" where
  "recv_ready d Timeout w = (if Timeout \<noteq> k_InfiniteTimeout then dr_RecvReady (io_drv d) Timeout w else (w, True))"

lemma send_ready_sent: "sends_to (io_drv d) sent \<Longrightarrow> send_ready d t w = (w1, b) \<Longrightarrow> sent w1 = sent w"
  using sends_toD(1) [of "io_drv d" sent t w] by (auto simp: send_ready_def split: if_splits)

lemma recv_ready_avail: "receives_from (io_drv d) avail \<Longrightarrow> recv_ready d t w = (w1, b) \<Longrightarrow> avail w1 = avail w"
  using receives_fromD(1) [of "io_drv d" avail t w] by (auto simp: recv_ready_def split: if_splits)

lemma send_ready_keeps: "keeps_sending (io_drv d) \<Longrightarrow> send_ready d t w = (w1, b) \<Longrightarrow> b"
  by (auto simp: send_ready_def keeps_sending_def split: if_splits) (metis snd_conv)

lemma recv_ready_keeps: "keeps_receiving (io_drv d) avail \<Longrightarrow> avail w \<noteq> [] \<Longrightarrow> recv_ready d t w = (w1, b) \<Longrightarrow> b"
  by (auto simp: recv_ready_def keeps_receiving_def split: if_splits) (metis snd_conv)

lemma take_drop_join: "k \<le> j \<Longrightarrow> take (k - i) (drop i xs) @ take (j - k) (drop k xs) = take (j - i) (drop i xs)" if "i \<le> k"
proof -
  assume "k \<le> j"
  have "take (j - i) (drop i xs) = take ((k - i) + (j - k)) (drop i xs)" using that \<open>k \<le> j\<close> by simp
  also have "\<dots> = take (k - i) (drop i xs) @ take (j - k) (drop (k - i) (drop i xs))" by (rule take_add)
  also have "drop (k - i) (drop i xs) = drop k xs" using that by simp
  finally show ?thesis by simp
qed

lemma send_loop_step:
  "i < length buf \<Longrightarrow> send_ready d t w = (w1, b) \<Longrightarrow> dr_SendData (io_drv d) buf i t w1 = (w2, m) \<Longrightarrow>
    send_loop d buf t w i r rv = (if b then if m \<le> 0 then if r = 0 then (w2, int_of_size i)
        else send_loop d buf t w2 i (r - 1) (int_of_size i)
        else send_loop d buf t w2 (i + nat m) r (int_of_size (i + nat m)) else (w1, int_of_size i))"
  by (subst send_loop.simps) (simp add: send_ready_def)

lemma recv_loop_step:
  "i < len \<Longrightarrow> recv_ready d t w = (w1, b) \<Longrightarrow> dr_RecvData (io_drv d) len i t w1 = (w2, stored, m) \<Longrightarrow>
    recv_loop d len t w mem i r = (if b then if m \<le> 0 then if r = 0 then (w2, patch i stored mem, i)
        else recv_loop d len t w2 (patch i stored mem) i (r - 1)
        else if \<not> m_FullRead d then (w2, patch i stored mem, i + nat m)
        else recv_loop d len t w2 (patch i stored mem) (i + nat m) r else (w1, mem, i))"
  by (subst recv_loop.simps) (simp add: recv_ready_def Let_def)

lemma send_loop_sent:
  assumes "sends_to (io_drv d) sent" "i \<le> length buf" "i < length buf \<or> rv = int_of_size i"
    "send_loop d buf t w i r rv = (w', n)"
  shows "\<exists>k. i \<le> k \<and> k \<le> length buf \<and> n = int_of_size k \<and> sent w' = sent w @ take (k - i) (drop i buf) \<and>
    (keeps_sending (io_drv d) \<longrightarrow> k = length buf)"
  using assms
proof (induction d buf t w i r rv rule: send_loop.induct)
  case (1 d buf t w i r rv)
  show ?case
  proof (cases "i < length buf")
    case False
    then show ?thesis using 1(4-6) by (intro exI [of _ i]) (simp add: send_loop.simps)
  next
    case less: True
    obtain w1 b where rdy: "send_ready d t w = (w1, b)" by fastforce
    have w1: "sent w1 = sent w" by (rule send_ready_sent [OF 1(3) rdy])
    obtain w2 m where sd: "dr_SendData (io_drv d) buf i t w1 = (w2, m)" by fastforce
    note m = sends_toD(2) [OF 1(3) less sd]
    have pos: "keeps_sending (io_drv d) \<Longrightarrow> b \<and> 0 < m"
      using send_ready_keeps [OF _ rdy] less sd by (auto simp: keeps_sending_def) (metis snd_conv)
    note step = send_loop_step [OF less rdy sd, of r rv]
    consider "\<not> b" | "b" "m \<le> 0" "r = 0" | (retry) "b" "m \<le> 0" "r \<noteq> 0" | (more) "b" "0 < m" by linarith
    then show ?thesis
    proof cases
      case retry
      have l: "send_loop d buf t w2 i (r - 1) (int_of_size i) = (w', n)" using 1(6) step retry by simp
      from 1(1) [OF less rdy [unfolded send_ready_def, symmetric] retry(1) sd [symmetric] retry(2,3) 1(3,4) disjI2 [OF refl] l]
      have "\<exists>k. i \<le> k \<and> k \<le> length buf \<and> n = int_of_size k \<and> sent w' = sent w2 @ take (k - i) (drop i buf) \<and>
        (keeps_sending (io_drv d) \<longrightarrow> k = length buf)" .
      then show ?thesis using m w1 retry by simp
    next
      case more
      have l: "send_loop d buf t w2 (i + nat m) r (int_of_size (i + nat m)) = (w', n)" using 1(6) step more by simp
      have le: "i + nat m \<le> length buf" using m less more by linarith
      have nm: "\<not> m \<le> 0" using more by simp
      from 1(2) [OF less rdy [unfolded send_ready_def, symmetric] more(1) sd [symmetric] nm 1(3) le disjI2 [OF refl] l]
      obtain k where k: "i + nat m \<le> k" "k \<le> length buf" "n = int_of_size k"
        "sent w' = sent w2 @ take (k - (i + nat m)) (drop (i + nat m) buf)" "keeps_sending (io_drv d) \<longrightarrow> k = length buf"
        by blast
      then show ?thesis using m w1 take_drop_join [of i "i + nat m" k buf]
        by (intro exI [of _ k]) simp
    qed (use 1(6) step m w1 pos less in \<open>auto intro!: exI [of _ i]\<close>)
  qed
qed

lemma recv_loop_avail:
  assumes "receives_from (io_drv d) avail" "i \<le> len" "len \<le> length mem"
    "recv_loop d len t w mem i r = (w', mem', k)"
  shows "i \<le> k \<and> k \<le> len \<and> length mem' = length mem \<and> avail w = take (k - i) (drop i mem') @ avail w' \<and>
    take i mem' = take i mem \<and> drop k mem' = drop k mem \<and>
    (m_FullRead d \<and> keeps_receiving (io_drv d) avail \<and> len - i \<le> length (avail w) \<longrightarrow> k = len)"
  using assms
proof (induction d len t w mem i r rule: recv_loop.induct)
  case (1 d len t w mem i r)
  show ?case
  proof (cases "i < len")
    case False
    then show ?thesis using 1(4-6) by (simp add: recv_loop.simps)
  next
    case less: True
    obtain w1 b where rdy: "recv_ready d t w = (w1, b)" by fastforce
    have w1: "avail w1 = avail w" by (rule recv_ready_avail [OF 1(3) rdy])
    obtain w2 stored m where rd: "dr_RecvData (io_drv d) len i t w1 = (w2, stored, m)" by (metis prod_cases3)
    note m = receives_fromD(2) [OF 1(3) less rd]
    define mem1 where "mem1 = patch i stored mem"
    have mi: "i + nat m \<le> len" using m less by linarith
    have sl: "length stored = nat m" using m w1 by simp
    have mem1: "length mem1 = length mem" "take i mem1 = take i mem" "drop (i + nat m) mem1 = drop (i + nat m) mem"
      "take (nat m) (drop i mem1) = stored"
      using 1(5) mi sl less take_drop_patch [of i mem stored]
      by (simp_all add: mem1_def take_patch_before drop_patch_after)
    have av: "avail w = stored @ avail w2" using m w1 by simp
    have pos: "keeps_receiving (io_drv d) avail \<Longrightarrow> len - i \<le> length (avail w) \<Longrightarrow> b \<and> 0 < m"
    proof -
      assume k: "keeps_receiving (io_drv d) avail" "len - i \<le> length (avail w)"
      then have ne: "avail w \<noteq> []" using less by auto
      then have "b" using recv_ready_keeps [OF k(1) ne rdy] by blast
      moreover have "0 < m" using k(1) less ne w1 rd unfolding keeps_receiving_def by (metis snd_conv)
      ultimately show ?thesis by blast
    qed
    note step = recv_loop_step [OF less rdy rd, of mem r, folded mem1_def]
    consider (notready) "\<not> b" | (ended) "b" "m \<le> 0" "r = 0" | (retry) "b" "m \<le> 0" "r \<noteq> 0" | (short) "b" "0 < m" "\<not> m_FullRead d"
      | (more) "b" "0 < m" "m_FullRead d" by linarith
    then show ?thesis
    proof cases
      case retry
      have l: "recv_loop d len t w2 mem1 i (r - 1) = (w', mem', k)" using 1(6) step retry by simp
      have len1: "len \<le> length mem1" using 1(5) mem1 by simp
      have "i \<le> k \<and> k \<le> len \<and> length mem' = length mem1 \<and> avail w2 = take (k - i) (drop i mem') @ avail w' \<and>
        take i mem' = take i mem1 \<and> drop k mem' = drop k mem1 \<and>
        (m_FullRead d \<and> keeps_receiving (io_drv d) avail \<and> len - i \<le> length (avail w2) \<longrightarrow> k = len)"
        by (rule 1(1) [OF less rdy [unfolded recv_ready_def, symmetric] retry(1) rd [symmetric] refl mem1_def retry(2,3) 1(3,4) len1 l])
      moreover have "stored = []" using sl retry by simp
      moreover have "mem1 = mem" using \<open>stored = []\<close> by (simp add: mem1_def)
      ultimately show ?thesis using av by (metis append_Nil)
    next
      case more
      have nm: "\<not> m \<le> 0" and nf: "\<not> \<not> m_FullRead d" using more by simp_all
      have l: "recv_loop d len t w2 mem1 (i + nat m) r = (w', mem', k)" using 1(6) step more by simp
      have len1: "len \<le> length mem1" using 1(5) mem1 by simp
      have ih: "i + nat m \<le> k \<and> k \<le> len \<and> length mem' = length mem1 \<and>
        avail w2 = take (k - (i + nat m)) (drop (i + nat m) mem') @ avail w' \<and>
        take (i + nat m) mem' = take (i + nat m) mem1 \<and> drop k mem' = drop k mem1 \<and>
        (m_FullRead d \<and> keeps_receiving (io_drv d) avail \<and> len - (i + nat m) \<le> length (avail w2) \<longrightarrow> k = len)"
        by (rule 1(2) [OF less rdy [unfolded recv_ready_def, symmetric] more(1) rd [symmetric] refl mem1_def nm nf 1(3) mi len1 l])
      from ih have t1: "take (i + nat m) mem' = take (i + nat m) mem1" and d1: "drop k mem' = drop k mem1"
        and a1: "avail w2 = take (k - (i + nat m)) (drop (i + nat m) mem') @ avail w'"
        and k1: "i + nat m \<le> k" "k \<le> len" and l1: "length mem' = length mem1"
        and f1: "m_FullRead d \<and> keeps_receiving (io_drv d) avail \<and> len - (i + nat m) \<le> length (avail w2) \<longrightarrow> k = len"
        by blast+
      have "drop i (take (i + nat m) mem') = drop i (take (i + nat m) mem1)" by (simp only: t1)
      then have st: "take (nat m) (drop i mem') = stored" using mem1(4) by (simp add: drop_take)
      have "avail w = take (i + nat m - i) (drop i mem') @ take (k - (i + nat m)) (drop (i + nat m) mem') @ avail w'"
        using av st a1 by simp
      then have a2: "avail w = take (k - i) (drop i mem') @ avail w'"
        using take_drop_join [of i "i + nat m" k mem'] k1 by (metis append_assoc le_add1)
      have "take i (take (i + nat m) mem') = take i (take (i + nat m) mem1)" by (simp only: t1)
      then have t2: "take i mem' = take i mem" using mem1(2) by simp
      have "drop (k - (i + nat m)) (drop (i + nat m) mem1) = drop (k - (i + nat m)) (drop (i + nat m) mem)"
        by (simp only: mem1(3))
      then have d2: "drop k mem' = drop k mem" using k1 d1 by simp
      have "length (avail w) = nat m + length (avail w2)" using av sl by simp
      then have f2: "m_FullRead d \<and> keeps_receiving (io_drv d) avail \<and> len - i \<le> length (avail w) \<longrightarrow> k = len"
        using f1 by auto
      have "i \<le> k" "length mem' = length mem" using k1(1) l1 mem1(1) by simp_all
      then show ?thesis using a2 t2 d2 f2 k1(2) by blast
    next
      case notready
      then have "w' = w1" "mem' = mem" "k = i" using 1(6) step by simp_all
      moreover have "\<not> (keeps_receiving (io_drv d) avail \<and> len - i \<le> length (avail w))" using notready pos by blast
      ultimately show ?thesis using less w1 by auto
    next
      case ended
      then have "w' = w2" "mem' = mem1" "k = i" using 1(6) step by simp_all
      moreover have "stored = []" using sl ended by simp
      moreover have "mem1 = mem" using \<open>stored = []\<close> by (simp add: mem1_def)
      moreover have "\<not> (keeps_receiving (io_drv d) avail \<and> len - i \<le> length (avail w))" using ended pos by auto
      ultimately show ?thesis using less av by auto
    next
      case short
      then have "w' = w2" "mem' = mem1" "k = i + nat m" using 1(6) step by simp_all
      moreover have "avail w = take (nat m) (drop i mem1) @ avail w2" using av mem1(4) by simp
      ultimately show ?thesis using short(3) mi mem1(1,2,3) by simp
    qed
  qed
qed

lemma same_block: "m_PtrBlock b = x \<Longrightarrow> b\<lparr>m_PtrBlock := x\<rparr> = b"
  by (cases b) simp

lemma Send_Buf_sent:
  assumes "sends_to (io_drv d) sent" "Send_Buf d b SndLen t w = (w', n)" "Buf_Size b < 2 ^ 31" "buf_ok b"
  shows "(\<exists>k. sent w' = sent w @ take k (buf_data b) \<and> k \<le> min SndLen (m_DataLen b) \<and> (n = int k \<or> n = -1 \<and> k = 0)) \<and>
    (io_Valid d \<and> keeps_sending (io_drv d) \<and> 0 < min SndLen (m_DataLen b) \<and> m_PtrBlock b \<noteq> None \<longrightarrow>
      n = int (min SndLen (m_DataLen b)))"
proof -
  define L where "L = min SndLen (m_DataLen b)"
  have send: "Send_ptr d (m_PtrBlock b) L t w = (w', n)"
    using assms(2) by (cases "m_PtrBlock b")
      (auto simp: Send_Buf_def Buf_LenGet_def Buf_u_str_def L_def min_def Let_def split: if_splits)
  show ?thesis
  proof (cases "m_PtrBlock b = None \<or> \<not> io_Valid d \<or> L = 0")
    case True
    then have "w' = w" "n = -1"
      using send by (auto simp: Send_ptr_def send_loop.simps split: option.splits if_splits)
    then show ?thesis using True by (auto simp: L_def)
  next
    case False
    then obtain m where m: "m_PtrBlock b = Some m" "io_Valid d" "0 < L" by auto
    have lm: "m_DataLen b \<le> length m" "length m < 2 ^ 31" using assms(3,4) m by (auto simp: buf_ok_def Buf_Size_def)
    have loop: "send_loop d (take L m) t w 0 (unat (m_Retries d)) (-1) = (w', n)"
      using send m by (simp add: Send_ptr_def)
    have "0 < length (take L m)" using m lm by (simp add: L_def)
    then obtain k where k: "k \<le> length (take L m)" "n = int_of_size k" "sent w' = sent w @ take k (take L m)"
      "keeps_sending (io_drv d) \<longrightarrow> k = length (take L m)"
      using send_loop_sent [OF assms(1) le0 disjI1 loop] by (metis diff_zero drop0)
    have len: "length (take L m) = L" using lm by (simp add: L_def)
    then have "k < 2 ^ 31" using k(1) lm by (simp add: L_def)
    then have n: "n = int k" using k(2) int_of_size_small by simp
    have kL: "k \<le> L" "k \<le> m_DataLen b" using k(1) len by (auto simp: L_def)
    have "take k (take L m) = take k (buf_data b)" using kL m by (simp add: buf_data_def min_absorb1)
    then show ?thesis using n k len m by (intro conjI exI [of _ k]) (simp_all add: L_def)
  qed
qed

context allocator
begin

lemma Recv_Buf_avail:
  assumes "receives_from (io_drv d) avail" "RcvLen < 2 ^ 31" "Recv_Buf al d b RcvLen t w = (w', b', rv)"
  shows "buf_ok b' \<and> avail w = buf_data b' @ avail w' \<and> length (buf_data b') \<le> RcvLen \<and>
    (rv = int (length (buf_data b')) \<or> rv = -1 \<and> buf_data b' = []) \<and>
    (io_Valid d \<and> m_FullRead d \<and> keeps_receiving (io_drv d) avail \<and> 0 < RcvLen \<and> RcvLen \<le> length (avail w) \<and>
      (\<exists>b1. Buf_Resize al RcvLen b = (b1, True)) \<longrightarrow> rv = int RcvLen) \<and>
    (\<exists>b1 ok. Buf_Resize al RcvLen b = (b1, ok) \<and> Buf_Size b' = Buf_Size b1 \<and> (m_PtrBlock b' = None \<longleftrightarrow> m_PtrBlock b1 = None))"
proof -
  obtain b1 ok where rz: "Buf_Resize al RcvLen b = (b1, ok)" by fastforce
  show ?thesis
  proof (cases "ok \<and> io_Valid d \<and> m_PtrBlock b1 \<noteq> None")
    case False
    then have "w' = w" "rv = -1" "b' = Buf_LenSet 0 b1"
      using assms(3) rz by (auto simp: Recv_Buf_def Recv_ptr_def same_block split: if_splits option.splits)
    moreover have "ok \<and> 0 < RcvLen \<longrightarrow> m_PtrBlock b1 \<noteq> None"
      using rz by (rule_tac Resize_cases [of RcvLen b]) auto
    moreover have "buf_ok (Buf_LenSet 0 b1)" "buf_data (Buf_LenSet 0 b1) = []"
      "Buf_Size (Buf_LenSet 0 b1) = Buf_Size b1" "m_PtrBlock (Buf_LenSet 0 b1) = m_PtrBlock b1"
      by (rule Buf_LenSet_ok, auto simp: buf_data_def Buf_LenSet_def Buf_Size_def split: option.splits)
    ultimately show ?thesis using False rz by auto
  next
    case True
    then obtain m where m: "m_PtrBlock b1 = Some m" "io_Valid d" "ok" by auto
    have lm: "RcvLen \<le> length m" using rz m by (rule_tac Resize_cases [of RcvLen b]) (auto simp: Buf_Size_def)
    obtain v mem k where loop: "recv_loop d RcvLen t w m 0 (unat (m_Retries d)) = (v, mem, k)" by (metis prod_cases3)
    from recv_loop_avail [OF assms(1) le0 lm loop]
    have k: "k \<le> RcvLen" "length mem = length m" "avail w = take k mem @ avail v"
      "m_FullRead d \<and> keeps_receiving (io_drv d) avail \<and> RcvLen \<le> length (avail w) \<longrightarrow> k = RcvLen"
      by (metis diff_zero drop0)+
    have lk: "k < 2 ^ 31" using k(1) assms(2) by linarith
    have "Recv_Buf al d b RcvLen t w = (v, Buf_LenSet k (b1\<lparr>m_PtrBlock := Some mem\<rparr>), int k)"
      using rz m loop by (simp add: Recv_Buf_def Recv_ptr_def int_of_size_small [OF lk])
    then have e: "w' = v" "rv = int k" "b' = Buf_LenSet k (b1\<lparr>m_PtrBlock := Some mem\<rparr>)" using assms(3) by simp_all
    have len: "length mem = length m" "k \<le> length m" using k(1,2) lm by simp_all
    have b': "buf_data b' = take k mem" "Buf_Size b' = Buf_Size b1" "m_PtrBlock b' \<noteq> None"
      using e(3) len m by (auto simp: buf_data_def Buf_LenSet_def Buf_Size_def)
    have lt: "length (take k mem) = k" using len by simp
    have "buf_ok b'" using e(3) by (simp add: Buf_LenSet_ok)
    moreover have "length (buf_data b') = k" using b'(1) lt by simp
    moreover have "m_PtrBlock b' = None \<longleftrightarrow> m_PtrBlock b1 = None" using b'(3) m(1) by simp
    moreover have "length (take k mem) \<le> RcvLen" "int k = int (length (take k mem))" using k(1) lt by simp_all
    moreover have "m_FullRead d \<and> keeps_receiving (io_drv d) avail \<and> RcvLen \<le> length (avail w) \<longrightarrow> int k = int RcvLen"
      using k(4) by blast
    moreover have "\<exists>b2 ok. Buf_Resize al RcvLen b = (b2, ok) \<and> Buf_Size b1 = Buf_Size b2 \<and>
        (m_PtrBlock b' = None \<longleftrightarrow> m_PtrBlock b2 = None)" using rz calculation(3)
      by (intro exI [of _ b1] exI [of _ ok]) simp
    ultimately show ?thesis unfolding e(1,2) b'(1,2) using k(3) by blast
  qed
qed

end

end
