(* ===== verification/Devices.thy ===== *)
theory Devices
  imports IoDev
begin

text \<open>
  The devices on descriptors: \<open>cpPipe_I\<close>, \<open>cpNamedPipe_I\<close> (POSIX), \<open>cpTcp\<close> and \<open>cpUdp\<close>. The calls of the
  operating system are the parameter \<open>fdos\<close> on its state \<open>'o\<close>. Every device here keeps, beside its
  fields, the list \<open>closed\<close> of the descriptors it passed to \<open>close\<close>, for the lemmas that each
  is closed once.
\<close>

section \<open>The calls of the operating system\<close>

record 'o fdos =
  os_select_write :: "int \<Rightarrow> int \<times> int \<Rightarrow> 'o \<Rightarrow> 'o \<times> int"
  os_select_read :: "int \<Rightarrow> int \<times> int \<Rightarrow> 'o \<Rightarrow> 'o \<times> int"
  os_write :: "int \<Rightarrow> octets \<Rightarrow> 'o \<Rightarrow> 'o \<times> int"
  os_read :: "int \<Rightarrow> nat \<Rightarrow> 'o \<Rightarrow> 'o \<times> octets \<times> int"
  os_send :: "int \<Rightarrow> octets \<Rightarrow> 'o \<Rightarrow> 'o \<times> int"
  os_recv :: "int \<Rightarrow> nat \<Rightarrow> 'o \<Rightarrow> 'o \<times> octets \<times> int"
  os_sendto :: "int \<Rightarrow> octets \<Rightarrow> u32 \<times> u16 \<Rightarrow> 'o \<Rightarrow> 'o \<times> int"
  os_recvfrom :: "int \<Rightarrow> nat \<Rightarrow> 'o \<Rightarrow> 'o \<times> octets \<times> int \<times> u32 \<times> u16"
  os_close :: "int \<Rightarrow> 'o \<Rightarrow> 'o \<times> int"
  os_shutdown :: "int \<Rightarrow> int \<Rightarrow> 'o \<Rightarrow> 'o \<times> int"
  os_connect :: "int \<Rightarrow> u32 \<times> u16 \<Rightarrow> 'o \<Rightarrow> 'o \<times> int"
  os_bind :: "int \<Rightarrow> u32 \<times> u16 \<Rightarrow> 'o \<Rightarrow> 'o \<times> int"
  os_listen :: "int \<Rightarrow> int \<Rightarrow> 'o \<Rightarrow> 'o \<times> int"
  os_accept :: "int \<Rightarrow> 'o \<Rightarrow> 'o \<times> int \<times> u32 \<times> u16"
  os_setsockopt :: "int \<Rightarrow> u32 \<Rightarrow> 'o \<Rightarrow> 'o"

text \<open>The state of a device on descriptors together with the system it calls.\<close>

record 'o fddev =
  fd_Valid :: bool
  m_dWrite :: int
  m_dRead :: int
  m_AutoShutdown :: bool
  m_DestAddr :: "u32 \<times> u16"
  m_Cleanup :: bool
  m_SysName :: string
  closed :: "int list"
  fd_os :: 'o

definition fd_call :: "('o \<Rightarrow> 'o \<times> 'r) \<Rightarrow> 'o fddev \<Rightarrow> 'o fddev \<times> 'r" where
  "fd_call f d = (case f (fd_os d) of (o', r) \<Rightarrow> (d\<lparr>fd_os := o'\<rparr>, r))"

definition fd_close :: "'o fdos \<Rightarrow> int \<Rightarrow> 'o fddev \<Rightarrow> 'o fddev" where
  "fd_close os desc d = (fst (fd_call (os_close os desc) d))\<lparr>closed := closed d @ [desc]\<rparr>"

text \<open>The destructor of \<open>IoDev\<close> on such a device.\<close>

definition fd_delete :: "'o fdos \<Rightarrow> 'o fddev \<Rightarrow> 'o fddev" where
  "fd_delete os d = foldl (\<lambda>s desc. fd_close os desc s) d (IoDev_delete (m_dWrite d) (m_dRead d))"

definition fd_SendReady :: "'o fdos \<Rightarrow> u32 \<Rightarrow> 'o fddev \<Rightarrow> 'o fddev \<times> bool" where
  "fd_SendReady os Timeout d = IoDev_Ready (\<lambda>f tv. fd_call (os_select_write os f tv)) (m_dWrite d) Timeout d"

definition fd_RecvReady :: "'o fdos \<Rightarrow> u32 \<Rightarrow> 'o fddev \<Rightarrow> 'o fddev \<times> bool" where
  "fd_RecvReady os Timeout d = IoDev_Ready (\<lambda>f tv. fd_call (os_select_read os f tv)) (m_dRead d) Timeout d"

section \<open>Pipes\<close>

definition fd_new :: "'o \<Rightarrow> 'o fddev" where
  "fd_new os_state =
     \<lparr>fd_Valid = False, m_dWrite = k_InvalidDescriptor, m_dRead = k_InvalidDescriptor, m_AutoShutdown = False,
      m_DestAddr = (0, 0), m_Cleanup = False, m_SysName = '''', closed = [], fd_os = os_state\<rparr>"

text \<open>The constructor, given what \<open>pipe\<close> returned: the read and the write end.\<close>

definition Pipe_new :: "(int \<times> int) option \<Rightarrow> 'o \<Rightarrow> 'o fddev" where
  "Pipe_new fds s =
     (case fds of
        Some (rd, wr) \<Rightarrow> (fd_new s)\<lparr>m_dRead := rd, m_dWrite := wr, fd_Valid := True\<rparr>
      | None \<Rightarrow> fd_new s)"

definition Pipe_SendData :: "'o fdos \<Rightarrow> octets \<Rightarrow> nat \<Rightarrow> u32 \<Rightarrow> 'o fddev \<Rightarrow> 'o fddev \<times> int" where
  "Pipe_SendData os buf BytesWritten Timeout d = fd_call (os_write os (m_dWrite d) (drop BytesWritten buf)) d"

definition Pipe_RecvData :: "'o fdos \<Rightarrow> nat \<Rightarrow> nat \<Rightarrow> u32 \<Rightarrow> 'o fddev \<Rightarrow> 'o fddev \<times> octets \<times> int" where
  "Pipe_RecvData os RcvLen BytesRead Timeout d = fd_call (os_read os (m_dRead d) (RcvLen - BytesRead)) d"

definition Pipe_Complete :: "'o fdos \<Rightarrow> 'o fddev \<Rightarrow> 'o fddev" where
  "Pipe_Complete os d =
     (if m_dWrite d \<noteq> k_InvalidDescriptor
      then (fd_close os (m_dWrite d) d)\<lparr>m_dWrite := k_InvalidDescriptor\<rparr> else d)"

definition Pipe_driver :: "'o fdos \<Rightarrow> 'o fddev driver" where
  "Pipe_driver os =
     \<lparr>dr_SendReady = fd_SendReady os, dr_RecvReady = fd_RecvReady os,
      dr_SendData = Pipe_SendData os, dr_RecvData = Pipe_RecvData os, dr_delete = fd_delete os\<rparr>"

text \<open>
  The named pipe: \<open>create\<close> makes the device file and \<open>open_fifo\<close> opens it in a direction, with -1
  for a failure.
\<close>

definition NamedPipe_new ::
  "(string \<Rightarrow> 'o \<Rightarrow> 'o \<times> bool) \<Rightarrow> (string \<Rightarrow> bool \<Rightarrow> 'o \<Rightarrow> 'o \<times> int) \<Rightarrow> string \<Rightarrow> bool \<Rightarrow> bool \<Rightarrow> 'o \<Rightarrow> 'o fddev" where
  "NamedPipe_new create open_fifo Path reading Create s =
     (let d0 = (fd_new s)\<lparr>m_Cleanup := Create\<rparr>
      in if length Path > 0 then
           let d1 = d0\<lparr>m_SysName := Path\<rparr>;
               d2 = (if Create then fst (fd_call (create Path) d1) else d1)
           in case fd_call (open_fifo Path reading) d2 of
                (d3, fd) \<Rightarrow>
                  if fd = k_InvalidDescriptor then d3
                  else if reading then d3\<lparr>m_dRead := fd, fd_Valid := True\<rparr>
                  else d3\<lparr>m_dWrite := fd, fd_Valid := True\<rparr>
         else d0)"

definition NamedPipe_Complete :: "'o fdos \<Rightarrow> 'o fddev \<Rightarrow> 'o fddev" where
  "NamedPipe_Complete os d =
     (let d1 = (if m_dRead d \<noteq> k_InvalidDescriptor
                then (fd_close os (m_dRead d) d)\<lparr>m_dRead := k_InvalidDescriptor\<rparr> else d)
      in if m_dWrite d1 \<noteq> k_InvalidDescriptor
         then (fd_close os (m_dWrite d1) d1)\<lparr>m_dWrite := k_InvalidDescriptor\<rparr> else d1)"

definition NamedPipe_delete :: "'o fdos \<Rightarrow> (string \<Rightarrow> 'o \<Rightarrow> 'o) \<Rightarrow> 'o fddev \<Rightarrow> 'o fddev" where
  "NamedPipe_delete os unlink d =
     (let d1 = NamedPipe_Complete os d;
          d2 = (if m_Cleanup d1 then d1\<lparr>fd_os := unlink (m_SysName d1) (fd_os d1)\<rparr> else d1)
      in fd_delete os d2)"

definition NamedPipe_driver :: "'o fdos \<Rightarrow> (string \<Rightarrow> 'o \<Rightarrow> 'o) \<Rightarrow> 'o fddev driver" where
  "NamedPipe_driver os unlink = (Pipe_driver os)\<lparr>dr_delete := NamedPipe_delete os unlink\<rparr>"

section \<open>TCP\<close>

definition so_ReuseAddr :: u32 where "so_ReuseAddr = 1"
definition so_TcpNoDelay :: u32 where "so_TcpNoDelay = 2"

definition Tcp_SetOptions :: "'o fdos \<Rightarrow> u32 \<Rightarrow> 'o fddev \<Rightarrow> 'o fddev" where
  "Tcp_SetOptions os Options d =
     (let d1 = (if Options AND so_ReuseAddr \<noteq> 0
                then d\<lparr>fd_os := os_setsockopt os (m_dWrite d) so_ReuseAddr (fd_os d)\<rparr> else d)
      in if Options AND so_TcpNoDelay \<noteq> 0
         then d1\<lparr>fd_os := os_setsockopt os (m_dWrite d1) so_TcpNoDelay (fd_os d1)\<rparr> else d1)"

text \<open>\<open>Shutdown\<close> acts on the read descriptor, which is also the write descriptor.\<close>

definition Tcp_Shutdown :: "'o fdos \<Rightarrow> int \<Rightarrow> 'o fddev \<Rightarrow> 'o fddev \<times> bool" where
  "Tcp_Shutdown os Type d = (case fd_call (os_shutdown os (m_dRead d) Type) d of (d', n) \<Rightarrow> (d', n = 0))"

definition CloseSocket :: "'o fdos \<Rightarrow> int \<Rightarrow> 'o fddev \<Rightarrow> 'o fddev" where
  "CloseSocket os Socket d =
     (if Socket \<noteq> k_InvalidDescriptor
      then fd_close os Socket (if m_AutoShutdown d then fst (Tcp_Shutdown os 2 d) else d) else d)"

text \<open>The constructor, given the socket that was created.\<close>

definition Tcp_new :: "'o fdos \<Rightarrow> int \<Rightarrow> u32 \<Rightarrow> u16 \<Rightarrow> int \<Rightarrow> u32 \<Rightarrow> 'o \<Rightarrow> 'o fddev" where
  "Tcp_new os sock RecvAddr RecvPort ListenQueue Options s =
     (let d0 = (fd_new s)\<lparr>m_dWrite := sock\<rparr>
      in if sock = k_InvalidDescriptor then d0
         else
           let d1 = (Tcp_SetOptions os Options (d0\<lparr>m_dRead := sock\<rparr>))\<lparr>m_DestAddr := (0, 0), fd_Valid := True\<rparr>
           in if ListenQueue > 0 then
                (case fd_call (os_bind os (m_dRead d1) (RecvAddr, RecvPort)) d1 of
                   (d2, b) \<Rightarrow>
                     if b = -1 then d2\<lparr>fd_Valid := False\<rparr>
                     else (case fd_call (os_listen os (m_dRead d2) ListenQueue) d2 of
                             (d3, l) \<Rightarrow> d3\<lparr>fd_Valid := (l \<noteq> -1)\<rparr>))
              else d1)"

definition Tcp_attach :: "int \<Rightarrow> int \<Rightarrow> 'o \<Rightarrow> 'o fddev" where
  "Tcp_attach Read Write s = (fd_new s)\<lparr>m_dRead := Read, m_dWrite := Write, fd_Valid := True\<rparr>"

definition Tcp_delete :: "'o fdos \<Rightarrow> 'o fddev \<Rightarrow> 'o fddev" where
  "Tcp_delete os d =
     fd_delete os ((CloseSocket os (m_dRead d) d)\<lparr>m_dRead := k_InvalidDescriptor, m_dWrite := k_InvalidDescriptor\<rparr>)"

definition DestPortSet :: "u16 \<Rightarrow> 'o fddev \<Rightarrow> 'o fddev" where
  "DestPortSet DestPort d = d\<lparr>m_DestAddr := (fst (m_DestAddr d), DestPort)\<rparr>"

definition DestAddrSet :: "u32 \<Rightarrow> 'o fddev \<Rightarrow> 'o fddev" where
  "DestAddrSet DestAddr d = d\<lparr>m_DestAddr := (DestAddr, snd (m_DestAddr d))\<rparr>"

definition Tcp_Connect :: "'o fdos \<Rightarrow> 'o fddev \<Rightarrow> 'o fddev \<times> bool" where
  "Tcp_Connect os d = (case fd_call (os_connect os (m_dWrite d) (m_DestAddr d)) d of (d', n) \<Rightarrow> (d', n \<noteq> -1))"

definition Tcp_Closed :: "'o fddev \<Rightarrow> bool" where
  "Tcp_Closed d = (m_dRead d = k_InvalidDescriptor)"

definition Tcp_AutoShutdown :: "bool \<Rightarrow> 'o fddev \<Rightarrow> 'o fddev" where
  "Tcp_AutoShutdown Auto d = d\<lparr>m_AutoShutdown := Auto\<rparr>"

text \<open>
  An accepted connection: the new socket with the address and the port of the client. The
  instance on it is \<open>Tcp_attach sock sock\<close>; when it cannot be created, the socket is closed.
\<close>

definition WaitForConnection ::
  "'o fdos \<Rightarrow> bool \<Rightarrow> u32 \<Rightarrow> 'o fddev \<Rightarrow> 'o fddev \<times> (int \<times> u32 \<times> u16) option" where
  "WaitForConnection os created Timeout d =
     (case fd_RecvReady os Timeout d of
        (d1, ready) \<Rightarrow>
          if ready then
            (case fd_call (os_accept os (m_dRead d1)) d1 of
               (d2, sock, addr, port) \<Rightarrow>
                 if sock = k_InvalidDescriptor then (d2, None)
                 else if created then (d2, Some (sock, addr, port))
                 else (CloseSocket os sock d2, None))
          else (d1, None))"

text \<open>A transfer that moves nothing closes the socket.\<close>

definition Tcp_SendData :: "'o fdos \<Rightarrow> octets \<Rightarrow> nat \<Rightarrow> u32 \<Rightarrow> 'o fddev \<Rightarrow> 'o fddev \<times> int" where
  "Tcp_SendData os buf BytesWritten Timeout d =
     (if length buf \<noteq> 0 then
        (case fd_call (os_send os (m_dWrite d) (drop BytesWritten buf)) d of
           (d1, rv) \<Rightarrow>
             if rv \<le> 0
             then ((CloseSocket os (m_dWrite d1) d1)\<lparr>m_dWrite := k_InvalidDescriptor, m_dRead := k_InvalidDescriptor\<rparr>, rv)
             else (d1, rv))
      else (d, -1))"

definition Tcp_RecvData :: "'o fdos \<Rightarrow> nat \<Rightarrow> nat \<Rightarrow> u32 \<Rightarrow> 'o fddev \<Rightarrow> 'o fddev \<times> octets \<times> int" where
  "Tcp_RecvData os RcvLen BytesRead Timeout d =
     (if RcvLen \<noteq> 0 then
        (case fd_call (os_recv os (m_dRead d) (RcvLen - BytesRead)) d of
           (d1, stored, rv) \<Rightarrow>
             if rv \<le> 0
             then ((CloseSocket os (m_dRead d1) d1)\<lparr>m_dRead := k_InvalidDescriptor, m_dWrite := k_InvalidDescriptor\<rparr>, stored, rv)
             else (d1, stored, rv))
      else (d, [], -1))"

definition Tcp_driver :: "'o fdos \<Rightarrow> 'o fddev driver" where
  "Tcp_driver os =
     \<lparr>dr_SendReady = fd_SendReady os, dr_RecvReady = fd_RecvReady os,
      dr_SendData = Tcp_SendData os, dr_RecvData = Tcp_RecvData os, dr_delete = Tcp_delete os\<rparr>"

section \<open>UDP\<close>

definition k_UdpMaxMsgLen :: nat where "k_UdpMaxMsgLen = 1400"

text \<open>The constructor, given the socket that was created.\<close>

definition Udp_new :: "'o fdos \<Rightarrow> int \<Rightarrow> u32 \<Rightarrow> u16 \<Rightarrow> bool \<Rightarrow> 'o \<Rightarrow> 'o fddev" where
  "Udp_new os sock RecvAddr RecvPort Bind s =
     (let d0 = (fd_new s)\<lparr>m_dWrite := sock\<rparr>
      in if sock = k_InvalidDescriptor then d0
         else
           let d1 = d0\<lparr>m_dRead := sock, m_DestAddr := (0, 0), fd_Valid := True\<rparr>
           in if Bind then
                (case fd_call (os_bind os (m_dRead d1) (RecvAddr, RecvPort)) d1 of
                   (d2, b) \<Rightarrow> d2\<lparr>fd_Valid := (b \<noteq> -1)\<rparr>)
              else d1)"

text \<open>The test of the length joins its two parts with \<open>or\<close>.\<close>

definition Udp_SendData :: "'o fdos \<Rightarrow> octets \<Rightarrow> nat \<Rightarrow> u32 \<Rightarrow> 'o fddev \<Rightarrow> 'o fddev \<times> int" where
  "Udp_SendData os buf BytesWritten Timeout d =
     (if length buf \<noteq> 0 \<or> length buf \<le> k_UdpMaxMsgLen
      then fd_call (os_sendto os (m_dWrite d) (drop BytesWritten buf) (m_DestAddr d)) d else (d, -1))"

definition Udp_RecvData :: "'o fdos \<Rightarrow> nat \<Rightarrow> nat \<Rightarrow> u32 \<Rightarrow> 'o fddev \<Rightarrow> 'o fddev \<times> octets \<times> int" where
  "Udp_RecvData os RcvLen BytesRead Timeout d =
     (case fd_call (os_recvfrom os (m_dRead d) (RcvLen - BytesRead)) d of
        (d1, stored, rv, addr, port) \<Rightarrow> (d1, stored, rv))"

text \<open>The datagram and its sender, when the device was ready and the pointer was not NULL.\<close>

definition ReadDatagram :: "'o fdos \<Rightarrow> bool \<Rightarrow> nat \<Rightarrow> u32 \<Rightarrow> 'o fddev \<Rightarrow> 'o fddev \<times> int \<times> (octets \<times> u32 \<times> u16) option" where
  "ReadDatagram os has_buf BufSize Timeout d =
     (if \<not> has_buf then (d, -1, None)
      else
        (case fd_RecvReady os Timeout d of
           (d1, ready) \<Rightarrow>
             if ready then
               (case fd_call (os_recvfrom os (m_dRead d1) BufSize) d1 of
                  (d2, stored, n, addr, port) \<Rightarrow> (d2, n, Some (stored, addr, port)))
             else (d1, 0, None)))"

definition Udp_driver :: "'o fdos \<Rightarrow> 'o fddev driver" where
  "Udp_driver os =
     \<lparr>dr_SendReady = fd_SendReady os, dr_RecvReady = fd_RecvReady os,
      dr_SendData = Udp_SendData os, dr_RecvData = Udp_RecvData os, dr_delete = fd_delete os\<rparr>"

section \<open>Each descriptor is closed once\<close>

lemma fd_call_fields:
  "fd_call f d = (d', r) \<Longrightarrow> m_dWrite d' = m_dWrite d \<and> m_dRead d' = m_dRead d \<and> closed d' = closed d \<and> fd_Valid d' = fd_Valid d"
  by (auto simp: fd_call_def split: prod.splits)

lemma fd_call_fst [simp]:
  "m_dWrite (fst (fd_call f d)) = m_dWrite d" "m_dRead (fst (fd_call f d)) = m_dRead d" "closed (fst (fd_call f d)) = closed d"
  by (auto simp: fd_call_def split: prod.splits)

lemma fd_close_fields [simp]:
  "m_dWrite (fd_close os x d) = m_dWrite d" "m_dRead (fd_close os x d) = m_dRead d" "closed (fd_close os x d) = closed d @ [x]"
  by (simp_all add: fd_close_def)

lemma fd_delete_closed: "closed (fd_delete os d) = closed d @ IoDev_delete (m_dWrite d) (m_dRead d)"
  by (auto simp: fd_delete_def IoDev_delete_def Let_def)

lemma CloseSocket_fields [simp]:
  "closed (CloseSocket os x d) = (if x = k_InvalidDescriptor then closed d else closed d @ [x])"
  by (auto simp: CloseSocket_def Tcp_Shutdown_def split: prod.splits dest!: fd_call_fields)

lemma Ready_fields:
  "fd_SendReady os t d = (d', b) \<Longrightarrow> m_dWrite d' = m_dWrite d \<and> m_dRead d' = m_dRead d \<and> closed d' = closed d"
  "fd_RecvReady os t d = (d', b) \<Longrightarrow> m_dWrite d' = m_dWrite d \<and> m_dRead d' = m_dRead d \<and> closed d' = closed d"
  by (auto simp: fd_SendReady_def fd_RecvReady_def IoDev_Ready_def split: prod.splits dest!: fd_call_fields)

text \<open>The life of a TCP device on the socket \<open>s\<close>: made by one of its constructors, then used in any order.\<close>

inductive tcp_reach :: "'o fdos \<Rightarrow> int \<Rightarrow> 'o fddev \<Rightarrow> bool" for os s where
  tcp_made: "tcp_reach os s (Tcp_new os s addr port listen opts o0)"
| tcp_attached: "tcp_reach os s (Tcp_attach s s o0)"
| tcp_ready: "tcp_reach os s d \<Longrightarrow> fd_SendReady os t d = (d', b) \<or> fd_RecvReady os t d = (d', b) \<Longrightarrow> tcp_reach os s d'"
| tcp_send: "tcp_reach os s d \<Longrightarrow> Tcp_SendData os buf k t d = (d', n) \<Longrightarrow> tcp_reach os s d'"
| tcp_recv: "tcp_reach os s d \<Longrightarrow> Tcp_RecvData os len k t d = (d', st, n) \<Longrightarrow> tcp_reach os s d'"
| tcp_shutdown: "tcp_reach os s d \<Longrightarrow> Tcp_Shutdown os ty d = (d', b) \<Longrightarrow> tcp_reach os s d'"
| tcp_connect: "tcp_reach os s d \<Longrightarrow> Tcp_Connect os d = (d', b) \<Longrightarrow> tcp_reach os s d'"
| tcp_accept: "tcp_reach os s d \<Longrightarrow> WaitForConnection os True t d = (d', r) \<Longrightarrow> tcp_reach os s d'"
| tcp_auto: "tcp_reach os s d \<Longrightarrow> tcp_reach os s (Tcp_AutoShutdown a d)"
| tcp_dest: "tcp_reach os s d \<Longrightarrow> tcp_reach os s (DestAddrSet addr (DestPortSet port d))"

definition tcp_ok :: "int \<Rightarrow> 'o fddev \<Rightarrow> bool" where
  "tcp_ok s d \<longleftrightarrow> m_dWrite d = m_dRead d \<and>
     (m_dRead d = s \<and> closed d = [] \<or> m_dRead d = k_InvalidDescriptor \<and> closed d = [s])"

lemma tcp_ok_cong:
  "tcp_ok s d \<Longrightarrow> m_dWrite d' = m_dWrite d \<Longrightarrow> m_dRead d' = m_dRead d \<Longrightarrow> closed d' = closed d \<Longrightarrow> tcp_ok s d'"
  by (simp add: tcp_ok_def)

lemma SetOptions_fields [simp]:
  "m_dWrite (Tcp_SetOptions os v d) = m_dWrite d" "m_dRead (Tcp_SetOptions os v d) = m_dRead d"
  "closed (Tcp_SetOptions os v d) = closed d"
  by (simp_all add: Tcp_SetOptions_def Let_def)

lemma Tcp_new_ok: "s \<noteq> k_InvalidDescriptor \<Longrightarrow> tcp_ok s (Tcp_new os s addr port l v o0)"
  by (auto simp: Tcp_new_def Let_def fd_new_def tcp_ok_def split: prod.splits dest!: fd_call_fields)

lemma Tcp_transfer_ok:
  assumes "tcp_ok s d" "s \<noteq> k_InvalidDescriptor"
  shows "Tcp_SendData os buf k t d = (d', n) \<Longrightarrow> tcp_ok s d'" "Tcp_RecvData os len k t d = (d', st, n) \<Longrightarrow> tcp_ok s d'"
  using assms
  by (auto simp: Tcp_SendData_def Tcp_RecvData_def tcp_ok_def split: prod.splits if_splits dest!: fd_call_fields)

lemma tcp_reach_ok: "tcp_reach os s d \<Longrightarrow> s \<noteq> k_InvalidDescriptor \<Longrightarrow> tcp_ok s d"
proof (induction rule: tcp_reach.induct)
  case (tcp_ready d t d' b)
  then show ?case using Ready_fields [of os t d d' b] by (auto intro: tcp_ok_cong)
next
  case (tcp_shutdown d ty d' b)
  then show ?case by (auto simp: Tcp_Shutdown_def split: prod.splits dest!: fd_call_fields intro: tcp_ok_cong)
next
  case (tcp_connect d d' b)
  then show ?case by (auto simp: Tcp_Connect_def split: prod.splits dest!: fd_call_fields intro: tcp_ok_cong)
next
  case (tcp_accept d t d' r)
  then show ?case
    by (auto simp: WaitForConnection_def split: prod.splits if_splits dest!: fd_call_fields Ready_fields(2) intro: tcp_ok_cong)
qed (auto simp: Tcp_new_ok Tcp_attach_def Tcp_AutoShutdown_def DestAddrSet_def DestPortSet_def fd_new_def
  intro: Tcp_transfer_ok tcp_ok_cong, simp add: tcp_ok_def)

lemma NamedPipe_closes:
  "closed (NamedPipe_delete os u (NamedPipe_new cr op path dir crt o2)) =
    filter (\<lambda>x. x \<noteq> -1) [m_dRead (NamedPipe_new cr op path dir crt o2), m_dWrite (NamedPipe_new cr op path dir crt o2)]"
proof -
  define f where "f = NamedPipe_new cr op path dir crt o2"
  have "closed f = []"
    unfolding f_def by (auto simp: NamedPipe_new_def Let_def fd_new_def split: prod.splits dest!: fd_call_fields)
  then have "closed (NamedPipe_delete os u f) = filter (\<lambda>x. x \<noteq> -1) [m_dRead f, m_dWrite f]"
    by (simp add: NamedPipe_delete_def NamedPipe_Complete_def Let_def fd_delete_closed IoDev_delete_def k_InvalidDescriptor_def)
  then show ?thesis by (simp only: f_def)
qed

text \<open>
  C31. A TCP device that owns a socket passes it to \<open>close\<close> exactly once in its life, whatever it did
  before it is deleted, and once the socket is closed, by a transfer that failed, its descriptors
  are invalid, so no later call reaches a descriptor that was given away. A pipe closes each of
  its two ends once, whether or not \<open>Complete\<close> was called, and a named pipe its only end.
\<close>

theorem Devices_close_once:
  assumes "tcp_reach os s d" "s \<noteq> k_InvalidDescriptor"
    and "rd \<noteq> wr" "rd \<noteq> k_InvalidDescriptor" "wr \<noteq> k_InvalidDescriptor" "p = Pipe_new (Some (rd, wr)) o1"
  shows "closed (Tcp_delete os d) = [s] \<and> (s \<in> set (closed d) \<longrightarrow> m_dRead d = -1 \<and> m_dWrite d = -1) \<and>
    closed (fd_delete os p) = [wr, rd] \<and> closed (fd_delete os ((Pipe_Complete os ^^ Suc n) p)) = [wr, rd] \<and>
    (let f = NamedPipe_new cr op path dir crt o2
     in closed (NamedPipe_delete os u f) = filter (\<lambda>x. x \<noteq> -1) [m_dRead f, m_dWrite f])"
proof -
  have ok: "tcp_ok s d" by (rule tcp_reach_ok [OF assms(1,2)])
  have pc: "m_dRead (Pipe_Complete os p) = rd \<and> m_dWrite (Pipe_Complete os p) = k_InvalidDescriptor \<and> closed (Pipe_Complete os p) = [wr]"
    using assms by (simp add: Pipe_Complete_def Pipe_new_def fd_new_def)
  from pc have c: "(Pipe_Complete os ^^ Suc n) p = Pipe_Complete os p"
    by (induction n) (simp_all add: Pipe_Complete_def)
  have "closed (Tcp_delete os d) = closed (CloseSocket os (m_dRead d) d)"
    by (simp add: Tcp_delete_def fd_delete_closed IoDev_delete_def k_InvalidDescriptor_def)
  then have "closed (Tcp_delete os d) = [s] \<and> (s \<in> set (closed d) \<longrightarrow> m_dRead d = -1 \<and> m_dWrite d = -1)"
    using ok assms(2) by (auto simp: tcp_ok_def k_InvalidDescriptor_def)
  moreover have "closed (fd_delete os p) = [wr, rd]"
    using assms(3-6) by (simp add: fd_delete_closed IoDev_delete_def Pipe_new_def fd_new_def)
  moreover have "closed (fd_delete os (Pipe_Complete os p)) = [wr, rd]"
    using pc assms(4) by (simp add: fd_delete_closed IoDev_delete_def Let_def)
  ultimately show ?thesis unfolding Let_def c using NamedPipe_closes [of os u cr op path dir crt o2] by blast
qed

text \<open>A system whose calls all fail.\<close>

definition dead_os :: "unit fdos" where
  "dead_os =
     \<lparr>os_select_write = \<lambda>_ _ s. (s, -1), os_select_read = \<lambda>_ _ s. (s, -1), os_write = \<lambda>_ _ s. (s, -1),
      os_read = \<lambda>_ _ s. (s, [], -1), os_send = \<lambda>_ _ s. (s, -1), os_recv = \<lambda>_ _ s. (s, [], -1),
      os_sendto = \<lambda>_ _ _ s. (s, -1), os_recvfrom = \<lambda>_ _ s. (s, [], -1, 0, 0), os_close = \<lambda>_ s. (s, 0),
      os_shutdown = \<lambda>_ _ s. (s, 0), os_connect = \<lambda>_ _ s. (s, -1), os_bind = \<lambda>_ _ s. (s, -1),
      os_listen = \<lambda>_ _ s. (s, -1), os_accept = \<lambda>_ s. (s, -1, 0, 0), os_setsockopt = \<lambda>_ _ s. s\<rparr>"

theorem Devices_close_once_witness:
  "let d = fst (Tcp_SendData dead_os [1, 2] 0 100 (Tcp_attach 5 5 ()))
   in m_dRead d = -1 \<and> closed (Tcp_delete dead_os d) = [5]"
proof -
  let ?d = "Tcp_SendData dead_os [1, 2] 0 100 (Tcp_attach 5 5 ())"
  have "tcp_reach dead_os 5 (fst ?d)" by (rule tcp_send [OF tcp_attached]) (rule prod.collapse [symmetric])
  from Devices_close_once [OF this, of 1 2 "Pipe_new (Some (1, 2)) ()" "()"]
  have "closed (Tcp_delete dead_os (fst ?d)) = [5]" by (simp add: k_InvalidDescriptor_def)
  moreover have "m_dRead (fst ?d) = -1"
    by (simp add: Tcp_SendData_def fd_call_def dead_os_def Tcp_attach_def k_InvalidDescriptor_def)
  ultimately show ?thesis by (simp only: Let_def simp_thms)
qed

end
