(* ===== verification/MsgQueue.thy ===== *)
theory MsgQueue
  imports IoDev
begin

text \<open>
  \<open>cpQueue_I\<close> (POSIX): a queue of messages between processes, a device on a message queue of the
  system. The calls of the system are the parameter \<open>mqos\<close> on its state \<open>'o\<close>, with descriptors \<open>'q\<close>;
  what the code relies on of them is the predicate \<open>mq_works\<close>.
\<close>

section \<open>Operations\<close>

record ('q, 'o) mqos =
  os_clock :: "'o \<Rightarrow> int \<times> int"
  mq_open :: "string \<Rightarrow> (u32 \<times> nat) option \<Rightarrow> 'o \<Rightarrow> 'o \<times> 'q option"
  mq_close :: "'q \<Rightarrow> 'o \<Rightarrow> 'o"
  mq_unlink :: "string \<Rightarrow> 'o \<Rightarrow> 'o"
  mq_getattr :: "'q \<Rightarrow> 'o \<Rightarrow> (nat \<times> nat \<times> nat) option"
  mq_timedsend :: "'q \<Rightarrow> octets \<Rightarrow> int \<times> int \<Rightarrow> 'o \<Rightarrow> 'o \<times> int"
  mq_timedreceive :: "'q \<Rightarrow> nat \<Rightarrow> int \<times> int \<Rightarrow> 'o \<Rightarrow> 'o \<times> octets \<times> int"

text \<open>A queue object; it is valid when it holds a descriptor.\<close>

record 'q queue =
  q_Cleanup :: bool
  m_MsgSize :: nat
  m_MaxMsgs :: u32
  m_MsgQueue :: "'q option"
  q_SysName :: string

definition LegalChars :: "char \<Rightarrow> char" where
  "LegalChars c = (if c = CHR '' '' then CHR ''_'' else c)"

definition q_name :: "string \<Rightarrow> string" where
  "q_name Name = map LegalChars (''/'' @ Name)"

text \<open>The two constructors: the owner creates the queue of the system, the user opens it.\<close>

definition Queue_new :: "('q, 'o) mqos \<Rightarrow> string \<Rightarrow> nat \<Rightarrow> u32 \<Rightarrow> 'o \<Rightarrow> 'o \<times> 'q queue" where
  "Queue_new os Name MsgSize MaxMsgs s =
     (case mq_open os (q_name Name) (Some (MaxMsgs, MsgSize)) s of
        (s', h) \<Rightarrow>
          (s', \<lparr>q_Cleanup = True, m_MsgSize = MsgSize, m_MaxMsgs = MaxMsgs, m_MsgQueue = h, q_SysName = q_name Name\<rparr>))"

definition Queue_open :: "('q, 'o) mqos \<Rightarrow> string \<Rightarrow> 'o \<Rightarrow> 'o \<times> 'q queue" where
  "Queue_open os Name s =
     (let q0 = \<lparr>q_Cleanup = False, m_MsgSize = 0, m_MaxMsgs = 0, m_MsgQueue = None, q_SysName = q_name Name\<rparr>
      in case mq_open os (q_name Name) None s of
           (s', None) \<Rightarrow> (s', q0)
         | (s', Some h) \<Rightarrow>
             (case mq_getattr os h s' of
                Some (mx, sz, cur) \<Rightarrow> (s', q0\<lparr>m_MaxMsgs := of_nat mx, m_MsgSize := sz, m_MsgQueue := Some h\<rparr>)
              | None \<Rightarrow> (s', q0)))"

definition Queue_delete :: "('q, 'o) mqos \<Rightarrow> 'q queue \<Rightarrow> 'o \<Rightarrow> 'o" where
  "Queue_delete os q s =
     (case m_MsgQueue q of
        None \<Rightarrow> s
      | Some h \<Rightarrow>
          let s1 = mq_close os h s in if q_Cleanup q then mq_unlink os (q_SysName q) s1 else s1)"

text \<open>
  The absolute time of a timeout: the milliseconds become nanoseconds in 32 bits, and at most one
  second is carried.
\<close>

definition abs_timeout :: "u32 \<Rightarrow> int \<times> int \<Rightarrow> int \<times> int" where
  "abs_timeout Timeout now =
     (case now of
        (sec, nsec) \<Rightarrow>
          let n = nsec + uint (Timeout * 1000000)
          in if n > 999999999 then (sec + 1, n - 1000000000) else (sec, n))"

definition Queue_SendData :: "('q, 'o) mqos \<Rightarrow> 'q \<Rightarrow> octets \<Rightarrow> nat \<Rightarrow> u32 \<Rightarrow> 'o \<Rightarrow> 'o \<times> int" where
  "Queue_SendData os h buf BytesWritten Timeout s =
     (case mq_timedsend os h (drop BytesWritten buf) (abs_timeout Timeout (os_clock os s)) s of
        (s', r) \<Rightarrow> (s', if r = 0 then int_of_size (length buf - BytesWritten) else -1))"

definition Queue_RecvData :: "('q, 'o) mqos \<Rightarrow> 'q \<Rightarrow> nat \<Rightarrow> nat \<Rightarrow> u32 \<Rightarrow> 'o \<Rightarrow> 'o \<times> octets \<times> int" where
  "Queue_RecvData os h RcvLen BytesRead Timeout s =
     mq_timedreceive os h (RcvLen - BytesRead) (abs_timeout Timeout (os_clock os s)) s"

text \<open>The queue as a device. The transfers of a queue without a descriptor are never called.\<close>

definition Queue_driver :: "('q, 'o) mqos \<Rightarrow> 'q queue \<Rightarrow> 'o driver" where
  "Queue_driver os q =
     \<lparr>dr_SendReady = \<lambda>Timeout s. (s, True), dr_RecvReady = \<lambda>Timeout s. (s, True),
      dr_SendData = Queue_SendData os (the (m_MsgQueue q)), dr_RecvData = Queue_RecvData os (the (m_MsgQueue q)),
      dr_delete = Queue_delete os q\<rparr>"

definition Queue_dev :: "('q, 'o) mqos \<Rightarrow> 'q queue \<Rightarrow> 'o iodev" where
  "Queue_dev os q = (IoDev_new (Queue_driver os q))\<lparr>io_Valid := (m_MsgQueue q \<noteq> None)\<rparr>"

definition NumUsed :: "('q, 'o) mqos \<Rightarrow> 'q queue \<Rightarrow> 'o \<Rightarrow> u32" where
  "NumUsed os q s =
     (case m_MsgQueue q of
        None \<Rightarrow> 0
      | Some h \<Rightarrow> (case mq_getattr os h s of Some (mx, sz, cur) \<Rightarrow> of_nat cur | None \<Rightarrow> 0))"

definition NumFree :: "('q, 'o) mqos \<Rightarrow> 'q queue \<Rightarrow> 'o \<Rightarrow> u32" where
  "NumFree os q s =
     (case m_MsgQueue q of
        None \<Rightarrow> 0
      | Some h \<Rightarrow> (case mq_getattr os h s of Some (mx, sz, cur) \<Rightarrow> m_MaxMsgs q - of_nat cur | None \<Rightarrow> 0))"

definition Queue_IsEmpty :: "('q, 'o) mqos \<Rightarrow> 'q queue \<Rightarrow> 'o \<Rightarrow> bool" where
  "Queue_IsEmpty os q s = (NumUsed os q s = 0)"

definition Queue_IsFull :: "('q, 'o) mqos \<Rightarrow> 'q queue \<Rightarrow> 'o \<Rightarrow> bool" where
  "Queue_IsFull os q s = (NumUsed os q s = m_MaxMsgs q)"

definition MaxMsgsGet :: "'q queue \<Rightarrow> u32" where
  "MaxMsgsGet q = m_MaxMsgs q"

text \<open>Messages are received until none is left; without a message that arrives, there is no end.\<close>

partial_function (option) flush_loop ::
  "(nat \<Rightarrow> octets option) \<Rightarrow> ('q, 'o) mqos \<Rightarrow> 'q queue \<Rightarrow> buffer \<Rightarrow> 'o \<Rightarrow> 'o option" where
  "flush_loop al os q buf s =
     (if Queue_IsEmpty os q s then Some s
      else (case Recv_Buf al (Queue_dev os q) buf (Buf_Size buf) k_InfiniteTimeout s of
              (s', buf', rv) \<Rightarrow> flush_loop al os q buf' s'))"

definition Queue_Flush :: "(nat \<Rightarrow> octets option) \<Rightarrow> ('q, 'o) mqos \<Rightarrow> 'q queue \<Rightarrow> 'o \<Rightarrow> 'o option" where
  "Queue_Flush al os q s =
     (if m_MsgQueue q = None then Some s else flush_loop al os q (Buf_new al (m_MsgSize q)) s)"

section \<open>Deadlines\<close>

lemma uint_mult_million: "unat t \<le> 4294 \<Longrightarrow> uint (t * 1000000 :: u32) = uint t * 1000000"
proof -
  assume "unat t \<le> 4294"
  moreover have "uint t = int (unat t)" by simp
  ultimately have "uint t \<le> 4294" by linarith
  then have "uint t * uint (1000000 :: u32) < 2 ^ LENGTH(32)" by simp
  then have "uint (t * 1000000) = uint t * uint (1000000 :: u32)" by (simp only: uint_mult_lem)
  then show ?thesis by simp
qed

lemma infinite_deadline:
  "0 \<le> nsec \<Longrightarrow> nsec < 1000000000 \<Longrightarrow> 1000000000 \<le> snd (abs_timeout k_InfiniteTimeout (sec, nsec))"
proof -
  have "uint (k_InfiniteTimeout * 1000000) = 4293967296" by (simp add: k_InfiniteTimeout_def)
  then show "0 \<le> nsec \<Longrightarrow> nsec < 1000000000 \<Longrightarrow> ?thesis" by (simp add: abs_timeout_def Let_def)
qed

text \<open>
  The deadline a queue passes to the system: up to one second it is a legal time, exactly the
  timeout after the present; for the timeouts of the library above a second, the receive timeout
  and the infinite one, the nanoseconds are never legal, whatever the time.
\<close>

theorem Queue_deadline:
  assumes "0 \<le> nsec" "nsec < 1000000000"
  shows "(unat Timeout \<le> 1000 \<longrightarrow>
      (case abs_timeout Timeout (sec, nsec) of
         (sec', nsec') \<Rightarrow> 0 \<le> nsec' \<and> nsec' < 1000000000 \<and>
           sec' * 1000000000 + nsec' = sec * 1000000000 + nsec + uint Timeout * 1000000)) \<and>
    1000000000 \<le> snd (abs_timeout k_ReceiveTimeout (sec, nsec)) \<and>
    1000000000 \<le> snd (abs_timeout k_InfiniteTimeout (sec, nsec))"
proof (intro conjI impI)
  assume t: "unat Timeout \<le> 1000"
  have "uint Timeout = int (unat Timeout)" by simp
  then have "uint Timeout \<le> 1000" using t by linarith
  moreover have "uint (Timeout * 1000000) = uint Timeout * 1000000" using uint_mult_million [of Timeout] t by linarith
  ultimately show "case abs_timeout Timeout (sec, nsec) of
      (sec', nsec') \<Rightarrow> 0 \<le> nsec' \<and> nsec' < 1000000000 \<and>
        sec' * 1000000000 + nsec' = sec * 1000000000 + nsec + uint Timeout * 1000000"
    using assms by (simp add: abs_timeout_def Let_def)
next
  have "uint (k_ReceiveTimeout * 1000000) = 3000000000" by (simp add: k_ReceiveTimeout_def)
  then show "1000000000 \<le> snd (abs_timeout k_ReceiveTimeout (sec, nsec))" using assms by (simp add: abs_timeout_def Let_def)
next
  show "1000000000 \<le> snd (abs_timeout k_InfiniteTimeout (sec, nsec))" by (rule infinite_deadline [OF assms])
qed

theorem Queue_deadline_witness:
  "abs_timeout 100 (7, 950000000) = (8, 50000000) \<and> 1000000000 \<le> snd (abs_timeout k_ReceiveTimeout (7, 950000000))"
  using Queue_deadline [of 950000000 100 7] by (simp add: abs_timeout_def)

section \<open>Messages\<close>

text \<open>
  The documented behaviour of a message queue of the system: \<open>msgs h s\<close> are the messages in it. All are
  sent with the same priority, so they leave in the order they came.
\<close>

definition mq_works :: "('q, 'o) mqos \<Rightarrow> ('q \<Rightarrow> 'o \<Rightarrow> octets list) \<Rightarrow> bool" where
  "mq_works os msgs \<longleftrightarrow>
     (\<forall>h m dl s. case mq_timedsend os h m dl s of
        (s', r) \<Rightarrow> msgs h s' = (if r = 0 then msgs h s @ [m] else msgs h s) \<and> (\<forall>g. g \<noteq> h \<longrightarrow> msgs g s' = msgs g s)) \<and>
     (\<forall>h len dl s. case mq_timedreceive os h len dl s of
        (s', stored, r) \<Rightarrow> (\<forall>g. g \<noteq> h \<longrightarrow> msgs g s' = msgs g s) \<and>
          (if r < 0 then stored = [] \<and> msgs h s' = msgs h s
           else msgs h s = stored # msgs h s' \<and> r = int (length stored) \<and> length stored \<le> len)) \<and>
     (\<forall>h s. case mq_getattr os h s of Some (mx, sz, cur) \<Rightarrow> cur = length (msgs h s) | None \<Rightarrow> True)"

lemma mq_worksD:
  assumes "mq_works os msgs"
  shows "mq_timedsend os h m dl s = (s', r) \<Longrightarrow>
      msgs h s' = (if r = 0 then msgs h s @ [m] else msgs h s) \<and> (\<forall>g. g \<noteq> h \<longrightarrow> msgs g s' = msgs g s)"
    "mq_timedreceive os h len dl s = (s', stored, n) \<Longrightarrow> (\<forall>g. g \<noteq> h \<longrightarrow> msgs g s' = msgs g s) \<and>
      (if n < 0 then stored = [] \<and> msgs h s' = msgs h s
       else msgs h s = stored # msgs h s' \<and> n = int (length stored) \<and> length stored \<le> len)"
    "mq_getattr os h s = Some (mx, sz, cur) \<Longrightarrow> cur = length (msgs h s)"
  using assms [unfolded mq_works_def, THEN conjunct1, THEN spec [of _ h], THEN spec [of _ m], THEN spec [of _ dl], THEN spec [of _ s]]
    assms [unfolded mq_works_def, THEN conjunct2, THEN conjunct1, THEN spec [of _ h], THEN spec [of _ len],
      THEN spec [of _ dl], THEN spec [of _ s]]
    assms [unfolded mq_works_def, THEN conjunct2, THEN conjunct2, THEN spec [of _ h], THEN spec [of _ s]]
  by simp_all

text \<open>A send is one message or nothing.\<close>

lemma Queue_Send_spec:
  assumes "mq_works os msgs" "m_MsgQueue q = Some h" "m_PtrBlock b \<noteq> None" "buf_ok b" "Buf_Size b < 2 ^ 31"
    "0 < min SndLen (m_DataLen b)" "Send_Buf (Queue_dev os q) b SndLen t s = (s', n)"
  shows "(if snd (mq_timedsend os h (take SndLen (buf_data b)) (abs_timeout t (os_clock os s)) s) = 0
      then n = int (min SndLen (m_DataLen b)) \<and> msgs h s' = msgs h s @ [take SndLen (buf_data b)]
      else n = 0 \<and> msgs h s' = msgs h s) \<and>
    (\<forall>g. g \<noteq> h \<longrightarrow> msgs g s' = msgs g s)"
proof -
  obtain m where m: "m_PtrBlock b = Some m" using assms(3) by auto
  define L where "L = min SndLen (m_DataLen b)"
  have lm: "m_DataLen b \<le> length m" "length m < 2 ^ 31" using assms(4,5) m by (auto simp: buf_ok_def Buf_Size_def)
  have len: "length (take L m) = L" and L: "0 < L" "L < 2 ^ 31" using lm assms(6) by (auto simp: L_def)
  have send: "send_loop (Queue_dev os q) (take L m) t s 0 0 (-1) = (s', n)"
    using assms(7) m assms(2)
    by (auto simp: Send_Buf_def Send_ptr_def Buf_LenGet_def Buf_u_str_def L_def min_def Let_def Queue_dev_def IoDev_new_def
      split: if_splits)
  have drv: "io_drv (Queue_dev os q) = Queue_driver os q" using assms(2) by (simp add: Queue_dev_def IoDev_new_def)
  obtain s1 r where sr: "mq_timedsend os h (take L m) (abs_timeout t (os_clock os s)) s = (s1, r)" by fastforce
  have i: "int_of_size L = int L" "int_of_size 0 = 0" using int_of_size_small L by simp_all
  have rdy: "send_ready (Queue_dev os q) t s = (s, True)" by (simp add: send_ready_def drv Queue_driver_def)
  have sd: "dr_SendData (io_drv (Queue_dev os q)) (take L m) 0 t s = (s1, if r = 0 then int L else -1)"
    using sr len i by (simp add: drv Queue_driver_def Queue_SendData_def assms(2))
  have "s' = s1 \<and> n = (if r = 0 then int L else 0)"
    using send L len i by (simp add: send_loop_step [OF _ rdy sd] send_loop.simps [of _ _ _ s1] split: if_splits)
  moreover have "take L m = take SndLen (buf_data b)" using m by (simp add: L_def buf_data_def)
  ultimately show ?thesis using mq_worksD(1) [OF assms(1) sr] sr by (auto simp: L_def)
qed

lemma Resize_own_size: "m_PtrBlock b \<noteq> None \<Longrightarrow> 0 < Buf_Size b \<Longrightarrow> Buf_Resize al (Buf_Size b) b = (b, True)"
  by (simp add: Buf_Resize_def)

text \<open>A receive is one message or nothing.\<close>

lemma Queue_Recv_spec:
  assumes "mq_works os msgs" "m_MsgQueue q = Some h" "m_PtrBlock b = Some m" "0 < length m" "length m < 2 ^ 31"
    "Recv_Buf al (Queue_dev os q) b (Buf_Size b) t s = (s', b', n)"
  shows "(\<forall>g. g \<noteq> h \<longrightarrow> msgs g s' = msgs g s) \<and> buf_ok b' \<and> Buf_Size b' = length m \<and> m_PtrBlock b' \<noteq> None \<and>
    n = int (length (buf_data b')) \<and>
    (if snd (snd (mq_timedreceive os h (length m) (abs_timeout t (os_clock os s)) s)) < 0
     then msgs h s' = msgs h s \<and> buf_data b' = []
     else msgs h s = buf_data b' # msgs h s')"
proof -
  define L where "L = length m"
  have bs: "Buf_Size b = L" using assms(3) by (simp add: Buf_Size_def L_def)
  have rz: "Buf_Resize al L b = (b, True)" using Resize_own_size [of b al] assms(3,4) bs by (simp add: L_def)
  have drv: "io_drv (Queue_dev os q) = Queue_driver os q" using assms(2) by (simp add: Queue_dev_def IoDev_new_def)
  have dev: "io_Valid (Queue_dev os q)" "\<not> m_FullRead (Queue_dev os q)" "m_Retries (Queue_dev os q) = 0"
    using assms(2) by (simp_all add: Queue_dev_def IoDev_new_def)
  have rdy: "recv_ready (Queue_dev os q) t s = (s, True)" by (simp add: recv_ready_def drv Queue_driver_def)
  obtain s1 st r where tr: "mq_timedreceive os h L (abs_timeout t (os_clock os s)) s = (s1, st, r)" by (metis prod_cases3)
  have rd: "dr_RecvData (io_drv (Queue_dev os q)) L 0 t s = (s1, st, r)"
    using tr by (simp add: drv Queue_driver_def Queue_RecvData_def assms(2))
  note w = mq_worksD(2) [OF assms(1) tr]
  have st: "length st = nat r \<and> length st \<le> L" using w by (auto split: if_splits)
  have lp: "recv_loop (Queue_dev os q) L t s m 0 0 = (s1, patch 0 st m, nat r)"
    using recv_loop_step [OF _ rdy rd, of m 0] dev(2) assms(4) by (simp add: L_def)
  have ir: "int_of_size (nat r) = int (nat r)" using st assms(5) by (intro int_of_size_small) (simp add: L_def)
  have "Recv_Buf al (Queue_dev os q) b (Buf_Size b) t s =
      (s1, Buf_LenSet (nat r) (b\<lparr>m_PtrBlock := Some (patch 0 st m)\<rparr>), int (nat r))"
    using rz bs assms(3) dev lp ir by (simp add: Recv_Buf_def Recv_ptr_def)
  then have e: "s' = s1" "b' = Buf_LenSet (nat r) (b\<lparr>m_PtrBlock := Some (patch 0 st m)\<rparr>)" "n = int (nat r)"
    using assms(6) by simp_all
  have lpm: "length (patch 0 st m) = L" using st by (simp add: L_def)
  have "buf_data b' = st"
    using e(2) st lpm take_patch_0 [of st m] by (auto simp: buf_data_def Buf_LenSet_def L_def)
  moreover have "buf_ok b'" "Buf_Size b' = L" "m_PtrBlock b' \<noteq> None"
    using e(2) lpm by (simp_all add: Buf_LenSet_ok, simp_all add: Buf_LenSet_def Buf_Size_def)
  moreover have "n = int (length st)" using e(3) st by simp
  ultimately show ?thesis using w tr e(1) by (auto simp: L_def split: if_splits)
qed

section \<open>Flushing\<close>

text \<open>
  What flushing depends on: the system counts the messages, it hands one over whenever there is one
  that fits (\<open>mq_gives\<close>), or it refuses a deadline whose nanoseconds are not legal (\<open>mq_rejects\<close>),
  which the standard allows.
\<close>

definition mq_counts :: "('q, 'o) mqos \<Rightarrow> ('q \<Rightarrow> 'o \<Rightarrow> octets list) \<Rightarrow> bool" where
  "mq_counts os msgs \<longleftrightarrow>
     (\<forall>h s. mq_getattr os h s \<noteq> None \<and> length (msgs h s) < 2 ^ 32) \<and>
     (\<forall>s. 0 \<le> snd (os_clock os s) \<and> snd (os_clock os s) < 1000000000)"

definition mq_gives :: "('q, 'o) mqos \<Rightarrow> ('q \<Rightarrow> 'o \<Rightarrow> octets list) \<Rightarrow> bool" where
  "mq_gives os msgs \<longleftrightarrow>
     (\<forall>h len dl s. case msgs h s of
        [] \<Rightarrow> True
      | m # rest \<Rightarrow> length m \<le> len \<longrightarrow> 0 \<le> snd (snd (mq_timedreceive os h len dl s)))"

definition mq_rejects :: "('q, 'o) mqos \<Rightarrow> bool" where
  "mq_rejects os \<longleftrightarrow>
     (\<forall>h len sec nsec s. 1000000000 \<le> nsec \<longrightarrow> snd (snd (mq_timedreceive os h len (sec, nsec) s)) < 0)"

lemma mq_givesD:
  "mq_gives os msgs \<Longrightarrow> msgs h s = x # r \<Longrightarrow> length x \<le> len \<Longrightarrow> 0 \<le> snd (snd (mq_timedreceive os h len dl s))"
  unfolding mq_gives_def
  by (drule spec [of _ h], drule spec [of _ len], drule spec [of _ dl], drule spec [of _ s]) simp

lemma IsEmpty_msgs:
  "mq_works os msgs \<Longrightarrow> mq_counts os msgs \<Longrightarrow> m_MsgQueue q = Some h \<Longrightarrow> Queue_IsEmpty os q s = (msgs h s = [])"
proof -
  assume a: "mq_works os msgs" "mq_counts os msgs" "m_MsgQueue q = Some h"
  obtain mx sz cur where g: "mq_getattr os h s = Some (mx, sz, cur)"
    using a(2) by (auto simp: mq_counts_def) (metis prod_cases3)
  have "cur = length (msgs h s)" by (rule mq_worksD(3) [OF a(1) g])
  moreover have "length (msgs h s) < 2 ^ 32" using a(2) by (simp add: mq_counts_def)
  ultimately have "unat (of_nat cur :: u32) = length (msgs h s)" by (simp add: unat_of_nat)
  then show ?thesis using a(3) g by (auto simp: Queue_IsEmpty_def NumUsed_def unat_eq_zero)
qed

lemma flush_ends:
  assumes "mq_works os msgs" "mq_counts os msgs" "mq_gives os msgs" "m_MsgQueue q = Some h"
    "m_PtrBlock b = Some m" "0 < length m" "length m < 2 ^ 31" "\<forall>x\<in>set (msgs h s). length x \<le> length m"
  shows "\<exists>s'. flush_loop al os q b s = Some s' \<and> msgs h s' = [] \<and> (\<forall>g. g \<noteq> h \<longrightarrow> msgs g s' = msgs g s)"
  using assms(5-8)
proof (induction "msgs h s" arbitrary: s b m)
  case Nil
  then show ?case using IsEmpty_msgs [OF assms(1,2,4), of s] by (subst flush_loop.simps) simp
next
  case (Cons x xs)
  obtain s1 b1 n where rc: "Recv_Buf al (Queue_dev os q) b (Buf_Size b) k_InfiniteTimeout s = (s1, b1, n)" by (metis prod_cases3)
  note sp = Queue_Recv_spec [OF assms(1,4) Cons(3-5) rc]
  have "0 \<le> snd (snd (mq_timedreceive os h (length m) (abs_timeout k_InfiniteTimeout (os_clock os s)) s))"
    using mq_givesD [OF assms(3) Cons(2) [symmetric]] Cons(2,6) by (metis list.set_intros(1))
  then have s1: "msgs h s = buf_data b1 # msgs h s1" "\<forall>g. g \<noteq> h \<longrightarrow> msgs g s1 = msgs g s" using sp by auto
  obtain m1 where m1: "m_PtrBlock b1 = Some m1" "length m1 = length m" using sp by (auto simp: Buf_Size_def)
  have "xs = msgs h s1" using s1(1) Cons(2) by simp
  then obtain s' where "flush_loop al os q b1 s1 = Some s'" "msgs h s' = []" "\<forall>g. g \<noteq> h \<longrightarrow> msgs g s' = msgs g s1"
    using Cons(1) [of s1 b1 m1] m1 Cons(4,5,6) s1(1) by auto
  moreover have "flush_loop al os q b s = flush_loop al os q b1 s1"
    using IsEmpty_msgs [OF assms(1,2,4), of s] Cons(2) [symmetric] rc by (subst flush_loop.simps) simp
  ultimately show ?case using s1(2) by auto
qed

lemma flush_stuck:
  assumes "mq_works os msgs" "mq_counts os msgs" "mq_rejects os"
  shows "flush_loop al os' q b s = Some s' \<Longrightarrow> os' = os \<Longrightarrow> m_MsgQueue q = Some h \<Longrightarrow> m_PtrBlock b = Some m \<Longrightarrow>
    0 < length m \<Longrightarrow> length m < 2 ^ 31 \<Longrightarrow> msgs h s = []"
proof (induction arbitrary: m rule: flush_loop.raw_induct [rotated, consumes 1, case_names step])
  case (step f al os' q b s s')
  obtain s1 b1 n where rc: "Recv_Buf al (Queue_dev os q) b (Buf_Size b) k_InfiniteTimeout s = (s1, b1, n)" by (metis prod_cases3)
  note sp = Queue_Recv_spec [OF assms(1) step(4-7) rc]
  obtain sec nsec where c: "os_clock os s = (sec, nsec)" by fastforce
  then have "0 \<le> nsec" "nsec < 1000000000" using assms(2) by (auto simp: mq_counts_def) (metis snd_conv)+
  then have "1000000000 \<le> snd (abs_timeout k_InfiniteTimeout (os_clock os s))"
    unfolding c by (rule infinite_deadline)
  then have "snd (snd (mq_timedreceive os h (length m) (abs_timeout k_InfiniteTimeout (os_clock os s)) s)) < 0"
    using assms(3) unfolding mq_rejects_def by (metis prod.collapse)
  then have s1: "msgs h s1 = msgs h s" using sp by auto
  obtain m1 where m1: "m_PtrBlock b1 = Some m1" "length m1 = length m" using sp by (auto simp: Buf_Size_def)
  show ?case
  proof (cases "Queue_IsEmpty os q s")
    case True
    then show ?thesis using IsEmpty_msgs [OF assms(1,2) step(4)] by blast
  next
    case False
    then have "f al os q b1 s1 = Some s'" using step(2,3) rc by simp
    then have "msgs h s1 = []" using step(1) [of al os q b1 s1 s' m1] step(4-7) m1 by simp
    then show ?thesis using s1 by simp
  qed
qed

lemma flush_buffer:
  "al n = Some blk \<Longrightarrow> n \<le> length blk \<Longrightarrow> 0 < n \<Longrightarrow> \<exists>m. m_PtrBlock (Buf_new al n) = Some m \<and> length m = length blk"
  by (auto simp: Buf_new_def Buf_Resize_def Buf_Clear_def Let_def)

text \<open>
  C32. Flushing a queue: where the system hands over a message that is waiting whatever the deadline,
  \<open>Flush\<close> ends with the queue empty and no other queue changed; where the system refuses a
  deadline that is not a legal time, \<open>Flush\<close> of a queue with a message in it never ends.
\<close>

theorem Queue_Flush_ends:
  assumes "mq_works os msgs" "mq_counts os msgs" "m_MsgQueue q = Some h"
    "al (m_MsgSize q) = Some blk" "m_MsgSize q \<le> length blk" "length blk < 2 ^ 31" "0 < m_MsgSize q"
    "\<forall>x\<in>set (msgs h s). length x \<le> m_MsgSize q"
  shows "(mq_gives os msgs \<longrightarrow>
      (\<exists>s'. Queue_Flush al os q s = Some s' \<and> msgs h s' = [] \<and> (\<forall>g. g \<noteq> h \<longrightarrow> msgs g s' = msgs g s))) \<and>
    (mq_rejects os \<and> msgs h s \<noteq> [] \<longrightarrow> Queue_Flush al os q s = None)"
proof -
  obtain m where m: "m_PtrBlock (Buf_new al (m_MsgSize q)) = Some m" "length m = length blk"
    using flush_buffer [of al "m_MsgSize q" blk] assms(4,5,7) by blast
  have len: "0 < length m" "length m < 2 ^ 31" "\<forall>x\<in>set (msgs h s). length x \<le> length m" using m assms(5-8) by auto
  have "Queue_Flush al os q s = flush_loop al os q (Buf_new al (m_MsgSize q)) s" using assms(3) by (simp add: Queue_Flush_def)
  moreover have "flush_loop al os q (Buf_new al (m_MsgSize q)) s = None" if "mq_rejects os" "msgs h s \<noteq> []"
    using flush_stuck [OF assms(1,2) that(1) _ refl assms(3) m(1) len(1,2)] that(2) by (metis not_Some_eq)
  ultimately show ?thesis using flush_ends [OF assms(1,2) _ assms(3) m(1) len] by simp
qed

text \<open>A system whose queues hold up to 16 messages and are their own descriptors, strict about deadlines or not.\<close>

definition sample_msgs :: "string \<Rightarrow> (string \<Rightarrow> octets list) \<Rightarrow> octets list" where
  "sample_msgs h s = take 16 (s h)"

definition sample_mq :: "bool \<Rightarrow> (string, string \<Rightarrow> octets list) mqos" where
  "sample_mq strict =
     \<lparr>os_clock = \<lambda>s. (0, 0), mq_open = \<lambda>n a s. (s, Some n), mq_close = \<lambda>h s. s, mq_unlink = \<lambda>n s. s(n := []),
      mq_getattr = \<lambda>h s. Some (16, 1024, length (sample_msgs h s)),
      mq_timedsend = \<lambda>h m dl s. if length (s h) < 16 then (s(h := s h @ [m]), 0) else (s, -1),
      mq_timedreceive = \<lambda>h len dl s.
        (case sample_msgs h s of
           [] \<Rightarrow> (s, [], -1)
         | m # rest \<Rightarrow>
             if length m \<le> len \<and> (strict \<longrightarrow> snd dl < 1000000000) then (s(h := rest), m, int (length m)) else (s, [], -1))\<rparr>"

lemma sample_mq_works: "mq_works (sample_mq strict) sample_msgs"
proof -
  have "take 16 rest = rest" if "take 16 xs = m # rest" for xs :: "octets list" and m rest
  proof -
    have "length (take 16 xs) \<le> 16" by simp
    then show ?thesis unfolding that by simp
  qed
  then show ?thesis
    by (auto simp: mq_works_def sample_mq_def sample_msgs_def split: list.splits)
qed

lemma sample_mq_counts: "mq_counts (sample_mq strict) sample_msgs"
  by (auto simp: mq_counts_def sample_mq_def sample_msgs_def min_def)

theorem Queue_Flush_ends_witness:
  "let q = snd (Queue_new (sample_mq True) ''a b'' 1024 16 (\<lambda>_. [[1], [2]]));
       al = (\<lambda>n. Some (replicate n 0))
   in Queue_Flush al (sample_mq True) q (\<lambda>_. [[1], [2]]) = None \<and>
      (\<exists>s'. Queue_Flush al (sample_mq False) q (\<lambda>_. [[1], [2]]) = Some s' \<and> sample_msgs ''/a_b'' s' = [])"
proof -
  define q where "q = snd (Queue_new (sample_mq True) ''a b'' 1024 16 (\<lambda>_. [[1], [2]]))"
  define al :: "nat \<Rightarrow> octets option" where "al = (\<lambda>n. Some (replicate n 0))"
  have q: "m_MsgQueue q = Some ''/a_b''" "m_MsgSize q = 1024"
    by (simp_all add: q_def Queue_new_def sample_mq_def q_name_def LegalChars_def)
  have blk: "al (m_MsgSize q) = Some (replicate 1024 0)" by (simp add: al_def q)
  have rej: "mq_rejects (sample_mq True)" by (auto simp: mq_rejects_def sample_mq_def split: list.splits)
  have giv: "mq_gives (sample_mq False) sample_msgs" by (auto simp: mq_gives_def sample_mq_def split: list.splits)
  have ms: "sample_msgs ''/a_b'' (\<lambda>_. [[1], [2]]) = [[1], [2]]" by (simp add: sample_msgs_def)
  have "Queue_Flush al (sample_mq True) q (\<lambda>_. [[1], [2]]) = None"
    using Queue_Flush_ends [where os = "sample_mq True" and msgs = sample_msgs and s = "\<lambda>_. [[1], [2]]" and al = al and q = q,
      OF sample_mq_works sample_mq_counts q(1) blk] rej ms q by simp
  moreover have "\<exists>s'. Queue_Flush al (sample_mq False) q (\<lambda>_. [[1], [2]]) = Some s' \<and> sample_msgs ''/a_b'' s' = []"
    using Queue_Flush_ends [where os = "sample_mq False" and msgs = sample_msgs and s = "\<lambda>_. [[1], [2]]" and al = al and q = q,
      OF sample_mq_works sample_mq_counts q(1) blk] giv ms q by auto
  ultimately show ?thesis by (simp add: q_def al_def Let_def)
qed

end
