(* ===== verification/IpcTransport.thy ===== *)
theory IpcTransport
  imports MsgQueue IpcSegment
begin

text \<open>
  \<open>cpIpcTransport\<close> and \<open>cpIpcStrmTransport\<close>: segments travel over a pair of devices, one message to a
  segment, or, on a byte stream, each behind a header of eight octets. The device objects are in
  the store \<open>tp_heap\<close>, so that a pointer may be shared and a deleted object is gone; an operation
  that uses or deletes an object that is gone has no result. The framing of a stream is shown to
  carry any sequence of segments.
\<close>

section \<open>The transport\<close>

record 'w transport =
  tp_Valid :: bool
  m_PtrSendDevice :: "nat option"
  m_PtrRecvDevice :: "nat option"
  m_SendDevices :: "u32 \<Rightarrow> nat option"
  tp_heap :: "nat \<Rightarrow> 'w iodev option"

definition IpcTransport_new :: "(nat \<Rightarrow> 'w iodev option) \<Rightarrow> 'w transport" where
  "IpcTransport_new heap =
     \<lparr>tp_Valid = False, m_PtrSendDevice = None, m_PtrRecvDevice = None, m_SendDevices = (\<lambda>_. None), tp_heap = heap\<rparr>"

text \<open>\<open>delete\<close> of a device object: its destructor runs and the object is gone.\<close>

definition tp_delete :: "nat option \<Rightarrow> 'w transport \<times> 'w \<Rightarrow> ('w transport \<times> 'w) option" where
  "tp_delete p Tw =
     (case (p, Tw) of
        (None, _) \<Rightarrow> Some Tw
      | (Some a, T, w) \<Rightarrow>
          map_option (\<lambda>d. (T\<lparr>tp_heap := (tp_heap T)(a := None)\<rparr>, dr_delete (io_drv d) w)) (tp_heap T a))"

definition Transport_delete :: "'w transport \<times> 'w \<Rightarrow> ('w transport \<times> 'w) option" where
  "Transport_delete Tw =
     Option.bind (tp_delete (m_PtrSendDevice (fst Tw)) Tw)
       (\<lambda>T1. if m_PtrSendDevice (fst T1) \<noteq> m_PtrRecvDevice (fst T1) then tp_delete (m_PtrRecvDevice (fst T1)) T1 else Some T1)"

definition SendDeviceGet :: "u32 \<Rightarrow> 'w transport \<Rightarrow> nat option" where
  "SendDeviceGet NodeAddr T = (case m_SendDevices T NodeAddr of Some a \<Rightarrow> Some a | None \<Rightarrow> m_PtrSendDevice T)"

text \<open>A send through the device at a pointer: the number sent, none for a NULL pointer.\<close>

definition tp_send :: "nat option \<Rightarrow> buffer \<Rightarrow> u32 \<Rightarrow> 'w transport \<Rightarrow> 'w \<Rightarrow> ('w \<times> int option) option" where
  "tp_send p b Timeout T w =
     (case p of
        None \<Rightarrow> Some (w, None)
      | Some a \<Rightarrow>
          map_option (\<lambda>d. case Send_Buf d b (Buf_Size b) Timeout w of (w', n) \<Rightarrow> (w', Some n)) (tp_heap T a))"

text \<open>\<open>Send\<close>: the segment is disposed of in every case.\<close>

definition Transport_Send :: "ipcsegment option \<Rightarrow> u32 \<Rightarrow> 'w transport \<Rightarrow> 'w \<Rightarrow> ('w \<times> bool) option" where
  "Transport_Send pSeg Timeout T w =
     (case pSeg of
        None \<Rightarrow> Some (w, False)
      | Some seg \<Rightarrow>
          map_option (\<lambda>(w', sent). (w', sent = Some (int (SegLen seg))))
            (tp_send (SendDeviceGet (DstAddr seg) T) (m_Buffer seg) Timeout T w))"

text \<open>What arrived in a segment counts when it has a header and is not longer than a segment.\<close>

definition tp_accept :: "ipcsegment \<Rightarrow> int \<Rightarrow> ipcsegment \<times> bool" where
  "tp_accept seg rcvd =
     (if rcvd > 0 then
        if int seg_Data \<le> rcvd \<and> rcvd \<le> int seg_MaxLen then (seg, True) else (IpcSegment_Clear seg, False)
      else (seg, False))"

definition Transport_Recv ::
  "(nat \<Rightarrow> octets option) \<Rightarrow> ipcsegment option \<Rightarrow> u32 \<Rightarrow> 'w transport \<Rightarrow> 'w \<Rightarrow> ('w \<times> ipcsegment option \<times> bool) option" where
  "Transport_Recv al pSeg Timeout T w =
     (case (pSeg, m_PtrRecvDevice T) of
        (None, _) \<Rightarrow> Some (w, None, False)
      | (Some seg, None) \<Rightarrow> Some (w, Some seg, False)
      | (Some seg, Some a) \<Rightarrow>
          map_option
            (\<lambda>d. case Recv_Buf al d (m_Buffer seg) (Buf_Size (m_Buffer seg)) Timeout w of
                   (w', b, rcvd) \<Rightarrow>
                     (case tp_accept (seg\<lparr>m_Buffer := b\<rparr>) rcvd of (seg', rv) \<Rightarrow> (w', Some seg', rv)))
            (tp_heap T a))"

text \<open>
  \<open>Validate\<close> sends a segment to its own node and waits for it; \<open>blk1\<close> and \<open>blk2\<close> are the blocks of the two
  segments, \<open>send\<close> and \<open>recv\<close> the operations of the instance, which a subclass overrides.
\<close>

definition Validate ::
  "(ipcsegment option \<Rightarrow> u32 \<Rightarrow> 'w transport \<Rightarrow> 'w \<Rightarrow> ('w \<times> bool) option) \<Rightarrow>
   (ipcsegment option \<Rightarrow> u32 \<Rightarrow> 'w transport \<Rightarrow> 'w \<Rightarrow> ('w \<times> ipcsegment option \<times> bool) option) \<Rightarrow>
   octets option \<Rightarrow> octets \<Rightarrow> u32 \<Rightarrow> u32 \<Rightarrow> 'w transport \<Rightarrow> 'w \<Rightarrow> ('w \<times> bool) option" where
  "Validate send recv blk1 blk2 time NodeAddr T w =
     (case blk1 of
        None \<Rightarrow> Some (w, False)
      | Some blk \<Rightarrow>
          let seg1 = fst (DataSet32 time (DstAddr_set NodeAddr (SrcAddr_set NodeAddr (IpcSegment_new blk))))
          in case send (Some seg1) k_InfiniteTimeout T w of
               None \<Rightarrow> None
             | Some (w1, False) \<Rightarrow> Some (w1, False)
             | Some (w1, True) \<Rightarrow>
                 (case recv (Some (IpcSegment_new blk2)) k_ReceiveTimeout T w1 of
                    Some (w2, Some seg2, rv) \<Rightarrow> Some (w2, rv \<and> DataGet32 seg2 = time)
                  | Some (w2, None, rv) \<Rightarrow> None
                  | None \<Rightarrow> None))"

text \<open>The devices in place are deleted, each pointer by itself. \<open>validate\<close> is the validation of the node.\<close>

definition DevicesSet ::
  "('w transport \<Rightarrow> 'w \<Rightarrow> ('w \<times> bool) option) \<Rightarrow> nat option \<Rightarrow> nat option \<Rightarrow> u32 \<Rightarrow> 'w transport \<times> 'w \<Rightarrow>
   (('w transport \<times> 'w) \<times> bool) option" where
  "DevicesSet validate pSendDevice pRecvDevice ValidateNode Tw =
     (if pSendDevice = None \<or> pRecvDevice = None then Some (Tw, False)
      else
        Option.bind (tp_delete (m_PtrSendDevice (fst Tw)) Tw)
          (\<lambda>T1. Option.bind (tp_delete (m_PtrRecvDevice (fst T1)) T1)
             (\<lambda>(T2, w2).
                let T3 = T2\<lparr>m_PtrSendDevice := pSendDevice, m_PtrRecvDevice := pRecvDevice\<rparr>
                in if ValidateNode \<noteq> 0
                   then map_option (\<lambda>(w3, v). ((T3\<lparr>tp_Valid := v\<rparr>, w3), True)) (validate T3 w2)
                   else Some ((T3\<lparr>tp_Valid := True\<rparr>, w2), True))))"

definition SendDeviceDel :: "u32 \<Rightarrow> 'w transport \<times> 'w \<Rightarrow> (('w transport \<times> 'w) \<times> bool) option" where
  "SendDeviceDel NodeAddr Tw =
     (case m_SendDevices (fst Tw) NodeAddr of
        None \<Rightarrow> Some (Tw, False)
      | Some a \<Rightarrow>
          map_option (\<lambda>(T, w). ((T\<lparr>m_SendDevices := (m_SendDevices T)(NodeAddr := None)\<rparr>, w), True))
            (tp_delete (Some a) Tw))"

text \<open>The new device is a queue opened by name, at the address \<open>p\<close> that \<open>new\<close> delivered.\<close>

definition SendDeviceAdd ::
  "('q, 'w) mqos \<Rightarrow> nat option \<Rightarrow> u32 \<Rightarrow> string \<Rightarrow> 'w transport \<times> 'w \<Rightarrow> (('w transport \<times> 'w) \<times> bool) option" where
  "SendDeviceAdd os p NodeAddr DevName Tw =
     (case (p, Tw) of
        (None, _) \<Rightarrow> Some (Tw, False)
      | (Some a, T, w) \<Rightarrow>
          (case Queue_open os DevName w of
             (w1, q) \<Rightarrow>
               map_option
                 (\<lambda>((T2, w2), rv). ((T2\<lparr>m_SendDevices := (m_SendDevices T2)(NodeAddr \<mapsto> a)\<rparr>, w2), True))
                 (SendDeviceDel NodeAddr (T\<lparr>tp_heap := (tp_heap T)(a \<mapsto> Queue_dev os q)\<rparr>, w1))))"

definition Transport_ReleaseThread :: "(nat \<Rightarrow> octets option) \<Rightarrow> 'w transport \<Rightarrow> 'w \<Rightarrow> 'w option" where
  "Transport_ReleaseThread al T w =
     (let buf = Buf_LenSet 4 (Buf_new al 4)
      in map_option fst (tp_send (m_PtrRecvDevice T) buf k_TransmitTimeout T w))"

section \<open>The transport on a stream\<close>

definition k_IpcStrmHeaderLen :: nat where "k_IpcStrmHeaderLen = 0x0008"
definition k_IpcStrmHeaderId :: u16 where "k_IpcStrmHeaderId = 0x1a19"
definition OpCode_None :: u16 where "OpCode_None = 0x0000"
definition OpCode_RegMsg :: u16 where "OpCode_RegMsg = 0x0001"
definition OpCode_DevMsg :: u16 where "OpCode_DevMsg = 0x0002"
definition OpCode_IpcMsg :: u16 where "OpCode_IpcMsg = 0x0003"

lemmas strm_consts = k_IpcStrmHeaderLen_def k_IpcStrmHeaderId_def OpCode_None_def OpCode_RegMsg_def
  OpCode_DevMsg_def OpCode_IpcMsg_def

definition EncodeHeader :: "(nat \<Rightarrow> octets option) \<Rightarrow> buffer \<Rightarrow> u16 \<Rightarrow> nat \<Rightarrow> buffer \<times> bool" where
  "EncodeHeader al Header OpCode Len =
     (case Buf_Resize al k_IpcStrmHeaderLen Header of
        (b, True) \<Rightarrow>
          (Buf_LenSet k_IpcStrmHeaderLen
             (b\<lparr>m_PtrBlock :=
                  map_option
                    (\<lambda>m. WriteUint32B (of_nat Len) (WriteUint16B OpCode (WriteUint16B k_IpcStrmHeaderId m 0) 2) 4)
                    (m_PtrBlock b)\<rparr>),
           m_PtrBlock b \<noteq> None)
      | (b, False) \<Rightarrow> (b, False))"

text \<open>The opcode and the length, when the header is long enough and has the id.\<close>

definition DecodeHeader :: "buffer \<Rightarrow> (u16 \<times> nat) option" where
  "DecodeHeader Header =
     (if Buf_LenGet Header \<ge> k_IpcStrmHeaderLen then
        (case m_PtrBlock Header of
           Some m \<Rightarrow>
             if ReadUint16B m 0 = k_IpcStrmHeaderId then Some (ReadUint16B m 2, unat (ReadUint32B m 4)) else None
         | None \<Rightarrow> None)
      else None)"

definition StrmTransport_Send ::
  "(nat \<Rightarrow> octets option) \<Rightarrow> ipcsegment option \<Rightarrow> u32 \<Rightarrow> 'w transport \<Rightarrow> 'w \<Rightarrow> ('w \<times> bool) option" where
  "StrmTransport_Send al pSeg Timeout T w =
     (case pSeg of
        None \<Rightarrow> Some (w, False)
      | Some seg \<Rightarrow>
          (case EncodeHeader al (Buf_new al k_IpcStrmHeaderLen) OpCode_IpcMsg (SegLen seg) of
             (header, False) \<Rightarrow> Some (w, False)
           | (header, True) \<Rightarrow>
               (case tp_send (SendDeviceGet (DstAddr seg) T) header Timeout T w of
                  None \<Rightarrow> None
                | Some (w1, sent) \<Rightarrow>
                    if sent \<noteq> Some (int (Buf_LenGet header)) then Some (w1, False)
                    else map_option (\<lambda>(w2, sent). (w2, sent = Some (int (SegLen seg))))
                           (tp_send (SendDeviceGet (DstAddr seg) T) (m_Buffer seg) Timeout T w1))))"

text \<open>
  \<open>Recv\<close>: a message that is not for the segment is read into a buffer of its own; the payload is read
  into the segment after a message that could not be read.
\<close>

definition StrmTransport_Recv ::
  "(nat \<Rightarrow> octets option) \<Rightarrow> ipcsegment option \<Rightarrow> u32 \<Rightarrow> 'w transport \<Rightarrow> 'w \<Rightarrow>
   ('w transport \<times> 'w \<times> ipcsegment option \<times> bool) option" where
  "StrmTransport_Recv al pSeg Timeout T w =
     (case (pSeg, m_PtrRecvDevice T) of
        (None, _) \<Rightarrow> Some (T, w, None, False)
      | (Some seg, None) \<Rightarrow> Some (T, w, Some seg, False)
      | (Some seg, Some a) \<Rightarrow>
          (case tp_heap T a of
             None \<Rightarrow> None
           | Some d0 \<Rightarrow>
               let d = FullRead True d0;
                   T1 = T\<lparr>tp_heap := (tp_heap T)(a \<mapsto> d)\<rparr>
               in case Recv_Buf al d (Buf_new al k_IpcStrmHeaderLen) k_IpcStrmHeaderLen Timeout w of
                    (w1, header, rcvd) \<Rightarrow>
                      (case (if rcvd = int k_IpcStrmHeaderLen then DecodeHeader header else None) of
                         None \<Rightarrow> Some (T1, w1, Some seg, False)
                       | Some (opCode, rcvLen) \<Rightarrow>
                           let ipc = (opCode = OpCode_IpcMsg \<and> rcvLen > 0 \<and> rcvLen \<le> Buf_Size (m_Buffer seg))
                           in case (if ipc then (w1, True)
                                    else (case Recv_Buf al d Buf_null rcvLen Timeout w1 of
                                            (w2, tmp, n) \<Rightarrow> (w2, n \<noteq> int rcvLen))) of
                                (w2, False) \<Rightarrow> Some (T1, w2, Some seg, False)
                              | (w2, True) \<Rightarrow>
                                  (case Recv_Buf al d (m_Buffer seg) rcvLen Timeout w2 of
                                     (w3, b, n) \<Rightarrow>
                                       (case tp_accept (seg\<lparr>m_Buffer := b\<rparr>) n of
                                          (seg', rv) \<Rightarrow> Some (T1, w3, Some seg', rv))))))"

section \<open>Framing\<close>

text \<open>A manager that serves every request up to the size of a segment.\<close>

definition serves :: "(nat \<Rightarrow> octets option) \<Rightarrow> bool" where
  "serves al \<longleftrightarrow> allocator al \<and> (\<forall>n. 0 < n \<and> n \<le> 1024 \<longrightarrow> (\<exists>m. al n = Some m \<and> length m < 2 ^ 31))"

lemma serves_manager: "serves (hist_alloc (\<lambda>_. True) [] mem)"
  using mgr.allocator_axioms [of "\<lambda>_. True" "[]" mem] by (simp add: serves_def hist_alloc_first)

definition strm_header :: "u16 \<Rightarrow> nat \<Rightarrow> octets" where
  "strm_header op n = be_octets k_IpcStrmHeaderId @ be_octets op @ be_octets (of_nat n :: u32)"

text \<open>A segment that is ready to travel: its buffer holds exactly the header and the payload.\<close>

definition wire_ok :: "ipcsegment \<Rightarrow> bool" where
  "wire_ok s \<longleftrightarrow> seg_ok s \<and> m_DataLen (m_Buffer s) = SegLen s"

definition seg_frame :: "ipcsegment \<Rightarrow> octets" where
  "seg_frame s = strm_header OpCode_IpcMsg (SegLen s) @ buf_data (m_Buffer s)"

lemma length_strm_header [simp]: "length (strm_header op n) = 8"
  by (simp add: strm_header_def be_octets_16 be_octets_32)

lemma length_be [simp]: "length (be_octets (v :: u16)) = 2" "length (be_octets (w :: u32)) = 4"
  by (simp_all add: be_octets_16 be_octets_32)

lemma hdr_of_prefix: "take 24 (seg_mem s) = take 24 (seg_mem t) \<Longrightarrow> hdr s = hdr t"
proof -
  assume eq: "take 24 (seg_mem s) = take 24 (seg_mem t)"
  have "seg_mem s ! i = seg_mem t ! i" if "i < 24" for i
    using arg_cong [OF eq, of "\<lambda>m. m ! i"] that by simp
  then show ?thesis
    by (simp add: hdr_def seg_getters seg_offsets ReadUint16B_def ReadUint32B_def)
qed

lemma Read_at: "length x = p \<Longrightarrow> ReadUint16B (x @ be_octets (v :: u16) @ y) p = v"
  "length x = p \<Longrightarrow> ReadUint32B (x @ be_octets (w :: u32) @ y) p = w"
proof -
  assume l: "length x = p"
  have "x @ be_octets v @ y = patch p (be_octets v) (x @ be_octets v @ y)" using l by (simp add: patch_def)
  then show "ReadUint16B (x @ be_octets v @ y) p = v"
    using ReadUint16B_patch [of p "x @ be_octets v @ y" v] l by simp
  have "x @ be_octets w @ y = patch p (be_octets w) (x @ be_octets w @ y)" using l by (simp add: patch_def)
  then show "ReadUint32B (x @ be_octets w @ y) p = w"
    using ReadUint32B_patch [of p "x @ be_octets w @ y" w] l by simp
qed

lemma header_written:
  "8 \<le> length m \<Longrightarrow>
    WriteUint32B (of_nat n) (WriteUint16B op (WriteUint16B k_IpcStrmHeaderId m 0) 2) 4 = strm_header op n @ drop 8 m"
  by (simp add: WriteUint16B_patch WriteUint32B_patch strm_header_def patch_def)

lemma served_block:
  assumes "serves al" "0 < n" "n \<le> 1024" "Buf_Size b < 2 ^ 31"
  obtains b' where "Buf_Resize al n b = (b', True)" "n \<le> Buf_Size b'" "Buf_Size b' < 2 ^ 31" "m_PtrBlock b' \<noteq> None"
proof -
  have a: "allocator al" using assms(1) by (simp add: serves_def)
  obtain m where m: "al n = Some m" "length m < 2 ^ 31" using assms by (auto simp: serves_def)
  then have "n \<le> length m" using allocator.al_size [OF a] by blast
  then show thesis
    using that [of b] that [of "Buf_Clear 0 (b\<lparr>m_PtrBlock := Some m\<rparr>)"] m assms(2,4)
    by (cases "m_PtrBlock b \<noteq> None \<and> Buf_Size b \<ge> n \<and> n > 0 \<and> Buf_Size b div n < 2")
      (auto simp: Buf_Resize_def Let_def, auto simp: Buf_Clear_def Buf_Size_def)
qed

lemma new_block:
  assumes "serves al" "0 < n" "n \<le> 1024"
  shows "n \<le> Buf_Size (Buf_new al n)" "Buf_Size (Buf_new al n) < 2 ^ 31" "m_PtrBlock (Buf_new al n) \<noteq> None"
  by (rule served_block [OF assms, of Buf_null]; simp add: Buf_new_def Buf_Size_def)+

lemma EncodeHeader_served:
  assumes "serves al" "EncodeHeader al (Buf_new al 8) op n = (b, rv)"
  shows "rv \<and> buf_data b = strm_header op n \<and> m_DataLen b = 8 \<and> buf_ok b \<and> Buf_Size b < 2 ^ 31 \<and> m_PtrBlock b \<noteq> None"
proof -
  obtain b1 where b1: "Buf_Resize al 8 (Buf_new al 8) = (b1, True)" "8 \<le> Buf_Size b1" "Buf_Size b1 < 2 ^ 31" "m_PtrBlock b1 \<noteq> None"
    using served_block [OF assms(1), of 8 "Buf_new al 8"] new_block [OF assms(1), of 8] by auto
  obtain m where m: "m_PtrBlock b1 = Some m" "8 \<le> length m" "length m < 2 ^ 31" using b1 by (auto simp: Buf_Size_def)
  have "b = Buf_LenSet 8 (b1\<lparr>m_PtrBlock := Some (strm_header op n @ drop 8 m)\<rparr>) \<and> rv"
    using assms(2) b1(1) m header_written [of m n op] by (simp add: EncodeHeader_def k_IpcStrmHeaderLen_def)
  then show ?thesis using m by (auto simp: Buf_LenSet_def buf_data_def buf_ok_def Buf_Size_def)
qed

lemma DecodeHeader_encoded:
  assumes "buf_data b = strm_header op n" "n < 2 ^ 32" "buf_ok b"
  shows "DecodeHeader b = Some (op, n)"
proof -
  have "length (buf_data b) = 8" using assms(1) by simp
  then obtain m where m: "m_PtrBlock b = Some m" by (auto simp: buf_data_def split: option.splits)
  then have dl: "m_DataLen b = 8" using assms by (simp add: buf_ok_def Buf_Size_def buf_data_def) (metis length_strm_header length_take min.absorb2)
  have e: "m = strm_header op n @ drop 8 m" using assms(1) m dl by (metis append_take_drop_id buf_data_def option.simps(5))
  have "ReadUint16B m 0 = k_IpcStrmHeaderId" "ReadUint16B m 2 = op" "ReadUint32B m 4 = of_nat n"
    by (subst e, simp add: strm_header_def Read_at(1) [of "[]", simplified])
      (subst e, use Read_at [of "be_octets k_IpcStrmHeaderId" 2] Read_at(2) [of "be_octets k_IpcStrmHeaderId @ be_octets op" 4]
        in \<open>simp add: strm_header_def\<close>)+
  then show ?thesis using m dl assms(2) by (simp add: DecodeHeader_def k_IpcStrmHeaderLen_def Buf_LenGet_def unat_of_nat)
qed

lemma wire_okD:
  assumes "wire_ok s"
  obtains m where "m_PtrBlock (m_Buffer s) = Some m" "length m = 1024" "m_DataLen (m_Buffer s) = SegLen s"
    "24 \<le> SegLen s" "SegLen s \<le> 1024" "buf_ok (m_Buffer s)" "Buf_Size (m_Buffer s) = 1024"
    "buf_data (m_Buffer s) = take (SegLen s) m" "seg_mem s = m"
  using assms by (auto simp: wire_ok_def seg_ok_def seg_offsets SegLen_def buf_ok_def Buf_Size_def buf_data_def seg_mem_def
    split: option.splits)

lemma tp_send_all:
  assumes "tp_heap T a = Some d" "io_Valid d" "sends_to (io_drv d) sent" "keeps_sending (io_drv d)"
    "m_PtrBlock b \<noteq> None" "buf_ok b" "Buf_Size b < 2 ^ 31" "0 < m_DataLen b"
  shows "\<exists>w'. tp_send (Some a) b t T w = Some (w', Some (int (m_DataLen b))) \<and> sent w' = sent w @ buf_data b"
proof -
  obtain w' n where sb: "Send_Buf d b (Buf_Size b) t w = (w', n)" by fastforce
  have mn: "min (Buf_Size b) (m_DataLen b) = m_DataLen b" using assms(6) by (simp add: buf_ok_def)
  note sp = Send_Buf_sent [OF assms(3) sb assms(7,6), unfolded mn]
  have n: "n = int (m_DataLen b)" using sp assms by blast
  then have "sent w' = sent w @ take (m_DataLen b) (buf_data b)" using sp assms(8) by auto
  moreover have "take (m_DataLen b) (buf_data b) = buf_data b" by (simp add: buf_data_def split: option.splits)
  ultimately show ?thesis using assms(1) sb n by (simp add: tp_send_def)
qed

lemma StrmSend_frame:
  assumes "serves al" "wire_ok seg" "SendDeviceGet (DstAddr seg) T = Some a" "tp_heap T a = Some d" "io_Valid d"
    "sends_to (io_drv d) sent" "keeps_sending (io_drv d)"
  shows "\<exists>w'. StrmTransport_Send al (Some seg) t T w = Some (w', True) \<and> sent w' = sent w @ seg_frame seg"
proof -
  have sb: "m_PtrBlock (m_Buffer seg) \<noteq> None" "buf_ok (m_Buffer seg)" "Buf_Size (m_Buffer seg) < 2 ^ 31"
    "0 < m_DataLen (m_Buffer seg)" "m_DataLen (m_Buffer seg) = SegLen seg"
    by (rule wire_okD [OF assms(2)]; simp)+
  obtain hb rv where e: "EncodeHeader al (Buf_new al 8) OpCode_IpcMsg (SegLen seg) = (hb, rv)" by fastforce
  note h = EncodeHeader_served [OF assms(1) e]
  obtain w1 where w1: "tp_send (Some a) hb t T w = Some (w1, Some 8)"
    "sent w1 = sent w @ strm_header OpCode_IpcMsg (SegLen seg)"
    using tp_send_all [OF assms(4-7), of hb t w] h by auto
  obtain w2 where w2: "tp_send (Some a) (m_Buffer seg) t T w1 = Some (w2, Some (int (SegLen seg)))"
    "sent w2 = sent w1 @ buf_data (m_Buffer seg)"
    using tp_send_all [OF assms(4-7), of "m_Buffer seg" t w1] sb by auto
  have "StrmTransport_Send al (Some seg) t T w = Some (w2, True)"
    using e h w1(1) w2(1) assms(3) by (simp add: StrmTransport_Send_def k_IpcStrmHeaderLen_def Buf_LenGet_def)
  then show ?thesis using w1(2) w2(2) by (simp add: seg_frame_def)
qed

text \<open>A receive of what is waiting.\<close>

lemma Recv_Buf_all:
  assumes "allocator al" "receives_from (io_drv d) avail" "keeps_receiving (io_drv d) avail" "io_Valid d" "m_FullRead d"
    "Buf_Resize al n b = (b1, True)" "0 < n" "n < 2 ^ 31" "avail w = x @ rest" "length x = n"
  shows "\<exists>w' b'. Recv_Buf al d b n t w = (w', b', int n) \<and> buf_data b' = x \<and> buf_ok b' \<and> avail w' = rest \<and>
    Buf_Size b' = Buf_Size b1"
proof -
  obtain w' b' rv where rc: "Recv_Buf al d b n t w = (w', b', rv)" by (metis prod_cases3)
  note sp = allocator.Recv_Buf_avail [OF assms(1,2,8) rc]
  have "n \<le> length (avail w)" using assms(9,10) by simp
  then have rv: "rv = int n" using sp assms(3-7) by blast
  then have len: "length (buf_data b') = n" using sp assms(7) by auto
  have "avail w = buf_data b' @ avail w'" using sp by blast
  then have "buf_data b' = x" "avail w' = rest" using assms(9,10) len by (metis append_eq_append_conv)+
  moreover have "Buf_Size b' = Buf_Size b1" using sp assms(6) by auto
  ultimately show ?thesis using rc rv sp by blast
qed

text \<open>The state in which the header has been read, from a receiver that is in order.\<close>

definition strm_ready :: "'w transport \<Rightarrow> nat \<Rightarrow> 'w iodev \<Rightarrow> ('w \<Rightarrow> octets) \<Rightarrow> bool" where
  "strm_ready T a d avail \<longleftrightarrow>
     m_PtrRecvDevice T = Some a \<and> tp_heap T a = Some d \<and> io_Valid d \<and>
     receives_from (io_drv d) avail \<and> keeps_receiving (io_drv d) avail"

definition full_reading :: "'w transport \<Rightarrow> nat \<Rightarrow> 'w iodev \<Rightarrow> 'w transport" where
  "full_reading T a d = T\<lparr>tp_heap := (tp_heap T)(a \<mapsto> FullRead True d)\<rparr>"

lemma full_ready: "strm_ready T a d avail \<Longrightarrow> strm_ready (full_reading T a d) a (FullRead True d) avail"
  by (simp add: strm_ready_def full_reading_def FullRead_def)

lemma full_twice: "full_reading (full_reading T a d) a (FullRead True d) = full_reading T a d"
  by (simp add: full_reading_def FullRead_def)

lemma Strm_header:
  assumes "serves al" "strm_ready T a d avail" "avail w = strm_header op n @ rest" "n < 2 ^ 32"
  obtains w1 where "avail w1 = rest"
    "StrmTransport_Recv al (Some seg) t T w =
       (let ipc = (op = OpCode_IpcMsg \<and> n > 0 \<and> n \<le> Buf_Size (m_Buffer seg)); D = FullRead True d
        in case (if ipc then (w1, True)
                 else (case Recv_Buf al D Buf_null n t w1 of (w2, tmp, k) \<Rightarrow> (w2, k \<noteq> int n))) of
             (w2, False) \<Rightarrow> Some (full_reading T a d, w2, Some seg, False)
           | (w2, True) \<Rightarrow>
               (case Recv_Buf al D (m_Buffer seg) n t w2 of
                  (w3, b, k) \<Rightarrow>
                    (case tp_accept (seg\<lparr>m_Buffer := b\<rparr>) k of (seg', rv) \<Rightarrow> Some (full_reading T a d, w3, Some seg', rv))))"
proof -
  define D where "D = FullRead True d"
  have a: "allocator al" using assms(1) by (simp add: serves_def)
  have D: "io_drv D = io_drv d" "io_Valid D" "m_FullRead D"
    using assms(2) by (simp_all add: D_def FullRead_def strm_ready_def)
  obtain b1 where b1: "Buf_Resize al 8 (Buf_new al 8) = (b1, True)"
    using served_block [OF assms(1), of 8 "Buf_new al 8"] new_block [OF assms(1), of 8] by auto
  obtain w1 hb where h: "Recv_Buf al D (Buf_new al 8) 8 t w = (w1, hb, 8)" "buf_data hb = strm_header op n" "buf_ok hb"
    "avail w1 = rest"
    using Recv_Buf_all [OF a _ _ _ _ b1, of D avail w "strm_header op n" rest t] D assms(2,3)
    by (auto simp: strm_ready_def)
  have dh: "DecodeHeader hb = Some (op, n)" by (rule DecodeHeader_encoded [OF h(2) assms(4) h(3)])
  show thesis
    by (rule that [OF h(4)])
      (use assms(2) h(1) dh in \<open>simp add: StrmTransport_Recv_def strm_ready_def k_IpcStrmHeaderLen_def Let_def
        full_reading_def D_def cong: if_cong\<close>)
qed

lemma StrmRecv_frame:
  assumes "serves al" "strm_ready T a d avail" "avail w = seg_frame seg @ rest" "wire_ok seg"
    "Buf_Size (m_Buffer seg0) = 1024"
  shows "\<exists>w' seg'. StrmTransport_Recv al (Some seg0) t T w = Some (full_reading T a d, w', Some seg', True) \<and>
    buf_data (m_Buffer seg') = buf_data (m_Buffer seg) \<and> hdr seg' = hdr seg \<and> avail w' = rest"
proof -
  obtain m where m: "length m = 1024" "24 \<le> SegLen seg" "SegLen seg \<le> 1024"
    "buf_data (m_Buffer seg) = take (SegLen seg) m" "seg_mem seg = m"
    using wire_okD [OF assms(4)] by metis
  define D where "D = FullRead True d"
  have a: "allocator al" using assms(1) by (simp add: serves_def)
  have D: "io_drv D = io_drv d" "io_Valid D" "m_FullRead D"
    using assms(2) by (simp_all add: D_def FullRead_def strm_ready_def)
  have av: "avail w = strm_header OpCode_IpcMsg (SegLen seg) @ buf_data (m_Buffer seg) @ rest"
    using assms(3) by (simp add: seg_frame_def)
  have n32: "SegLen seg < 2 ^ 32" using m(3) by simp
  obtain b1 where b1: "Buf_Resize al (SegLen seg) (m_Buffer seg0) = (b1, True)"
    using served_block [OF assms(1), of "SegLen seg" "m_Buffer seg0"] m(2,3) assms(5) by auto
  show ?thesis
  proof (rule Strm_header [OF assms(1,2) av n32, of seg0 t])
    fix w1 assume w1: "avail w1 = buf_data (m_Buffer seg) @ rest" and
      rc: "StrmTransport_Recv al (Some seg0) t T w =
       (let ipc = (OpCode_IpcMsg = OpCode_IpcMsg \<and> SegLen seg > 0 \<and> SegLen seg \<le> Buf_Size (m_Buffer seg0)); D = FullRead True d
        in case (if ipc then (w1, True)
                 else (case Recv_Buf al D Buf_null (SegLen seg) t w1 of (w2, tmp, k) \<Rightarrow> (w2, k \<noteq> int (SegLen seg)))) of
             (w2, False) \<Rightarrow> Some (full_reading T a d, w2, Some seg0, False)
           | (w2, True) \<Rightarrow>
               (case Recv_Buf al D (m_Buffer seg0) (SegLen seg) t w2 of
                  (w3, b, k) \<Rightarrow>
                    (case tp_accept (seg0\<lparr>m_Buffer := b\<rparr>) k of (seg', rv) \<Rightarrow> Some (full_reading T a d, w3, Some seg', rv))))"
    have len: "length (buf_data (m_Buffer seg)) = SegLen seg" using m by simp
    obtain w2 b where b: "Recv_Buf al D (m_Buffer seg0) (SegLen seg) t w1 = (w2, b, int (SegLen seg))"
      "buf_data b = buf_data (m_Buffer seg)" "buf_ok b" "avail w2 = rest"
      using Recv_Buf_all [where avail = avail and d = D and t = t, OF a _ _ _ _ b1 _ _ w1 len] D assms(2) m(2,3) by (auto simp: strm_ready_def)
    define seg' where "seg' = seg0\<lparr>m_Buffer := b\<rparr>"
    have "tp_accept seg' (int (SegLen seg)) = (seg', True)" using m(2,3) by (simp add: tp_accept_def seg_offsets)
    then have "StrmTransport_Recv al (Some seg0) t T w = Some (full_reading T a d, w2, Some seg', True)"
      using rc m(2,3) assms(5) b(1) by (simp add: Let_def D_def seg'_def)
    moreover have "hdr seg' = hdr seg"
    proof (rule hdr_of_prefix)
      obtain bm where bm: "m_PtrBlock b = Some bm" using b(2) len m(2) by (auto simp: buf_data_def split: option.splits)
      then have "take (m_DataLen b) bm = take (SegLen seg) m" using b(2) m(4) by (simp add: buf_data_def)
      then have "take 24 (take (m_DataLen b) bm) = take 24 m" using m(2) by (simp add: min_absorb1)
      moreover have "length (buf_data b) = SegLen seg" using b(2) len by simp
      then have "24 \<le> m_DataLen b" using m(2) by (simp add: buf_data_def bm)
      ultimately show "take 24 (seg_mem seg') = take 24 (seg_mem seg)" using bm m(5)
        by (simp add: seg'_def seg_mem_def min_absorb1)
    qed
    ultimately show ?thesis using b by (auto simp: seg'_def)
  qed
qed

text \<open>A sequence of sends, each of which must succeed, and a sequence of receives into fresh segments.\<close>

fun strm_sends :: "(nat \<Rightarrow> octets option) \<Rightarrow> u32 \<Rightarrow> 'w transport \<Rightarrow> ipcsegment list \<Rightarrow> 'w \<Rightarrow> 'w option" where
  "strm_sends al t T [] w = Some w"
| "strm_sends al t T (s # ss) w =
     (case StrmTransport_Send al (Some s) t T w of Some (w', True) \<Rightarrow> strm_sends al t T ss w' | _ \<Rightarrow> None)"

fun strm_recvs ::
  "(nat \<Rightarrow> octets option) \<Rightarrow> u32 \<Rightarrow> 'w transport \<Rightarrow> octets list \<Rightarrow> 'w \<Rightarrow> ('w \<times> ipcsegment list) option" where
  "strm_recvs al t T [] w = Some (w, [])"
| "strm_recvs al t T (blk # blks) w =
     (case StrmTransport_Recv al (Some (IpcSegment_new blk)) t T w of
        Some (T', w', Some seg, True) \<Rightarrow> map_option (\<lambda>(v, segs). (v, seg # segs)) (strm_recvs al t T' blks w')
      | _ \<Rightarrow> None)"

lemma strm_sends_frames:
  assumes "serves al" "tp_heap T a = Some d" "io_Valid d" "sends_to (io_drv d) sent" "keeps_sending (io_drv d)"
  shows "\<forall>seg\<in>set segs. wire_ok seg \<and> SendDeviceGet (DstAddr seg) T = Some a \<Longrightarrow>
    \<exists>w'. strm_sends al t T segs w = Some w' \<and> sent w' = sent w @ concat (map seg_frame segs)"
proof (induction segs arbitrary: w)
  case (Cons s ss)
  then obtain w1 where w1: "StrmTransport_Send al (Some s) t T w = Some (w1, True)" "sent w1 = sent w @ seg_frame s"
    using StrmSend_frame [OF assms(1) _ _ assms(2-5), of s t w] by auto
  obtain w2 where "strm_sends al t T ss w1 = Some w2" "sent w2 = sent w1 @ concat (map seg_frame ss)"
    using Cons by (metis list.set_intros(2))
  then show ?case using w1 by simp
qed simp

lemma new_size: "length blk = 1024 \<Longrightarrow> Buf_Size (m_Buffer (IpcSegment_new blk)) = 1024"
  using new_spec [of blk] by (auto simp: seg_ok_def Buf_Size_def seg_MaxLen_def split: option.splits)

lemma strm_recvs_frames:
  assumes "serves al"
  shows "strm_ready T a d avail \<Longrightarrow> avail w = concat (map seg_frame segs) @ rest \<Longrightarrow> \<forall>seg\<in>set segs. wire_ok seg \<Longrightarrow>
    length blks = length segs \<Longrightarrow> \<forall>blk\<in>set blks. length blk = 1024 \<Longrightarrow>
    \<exists>w' got. strm_recvs al t T blks w = Some (w', got) \<and> avail w' = rest \<and> map hdr got = map hdr segs \<and>
      map (\<lambda>s. buf_data (m_Buffer s)) got = map (\<lambda>s. buf_data (m_Buffer s)) segs"
proof (induction segs arbitrary: w blks T d)
  case (Cons s ss)
  obtain blk bs where blks: "blks = blk # bs" "length bs = length ss" "length blk = 1024" "\<forall>blk\<in>set bs. length blk = 1024"
    using Cons(5,6) by (cases blks) auto
  have av: "avail w = seg_frame s @ concat (map seg_frame ss) @ rest" using Cons(3) by simp
  have s: "wire_ok s" using Cons(4) by simp
  obtain w1 s' where r1: "StrmTransport_Recv al (Some (IpcSegment_new blk)) t T w = Some (full_reading T a d, w1, Some s', True)"
    "buf_data (m_Buffer s') = buf_data (m_Buffer s)" "hdr s' = hdr s" "avail w1 = concat (map seg_frame ss) @ rest"
    using StrmRecv_frame [OF assms Cons(2) av s new_size [OF blks(3)], of t] by auto
  obtain w2 got where "strm_recvs al t (full_reading T a d) bs w1 = Some (w2, got)" "avail w2 = rest" "map hdr got = map hdr ss"
    "map (\<lambda>s. buf_data (m_Buffer s)) got = map (\<lambda>s. buf_data (m_Buffer s)) ss"
    using Cons(1) [OF full_ready [OF Cons(2)] r1(4) _ blks(2,4)] Cons(4) by auto
  then show ?case using r1 blks(1) by simp
qed simp

text \<open>A device that is a pipe of octets to itself; it takes at most five at a time and gives at most three.\<close>

definition loop_driver :: "octets driver" where
  "loop_driver =
     \<lparr>dr_SendReady = \<lambda>t w. (w, True), dr_RecvReady = \<lambda>t w. (w, True),
      dr_SendData = \<lambda>buf k t w. (w @ take 5 (drop k buf), int (min 5 (length buf - k))),
      dr_RecvData = \<lambda>len k t w.
        (let n = min (len - k) (min 3 (length w)) in (drop n w, take n w, int n)),
      dr_delete = \<lambda>w. w\<rparr>"

lemma loop_driver_works:
  "sends_to loop_driver (\<lambda>w. w)" "keeps_sending loop_driver" "receives_from loop_driver (\<lambda>w. w)"
  "keeps_receiving loop_driver (\<lambda>w. w)"
  by (auto simp: sends_to_def keeps_sending_def receives_from_def keeps_receiving_def loop_driver_def Let_def min_def)

definition loop_dev :: "octets iodev" where
  "loop_dev = (IoDev_new loop_driver)\<lparr>io_Valid := True\<rparr>"

definition loop_transport :: "octets transport" where
  "loop_transport =
     (IpcTransport_new [1 \<mapsto> loop_dev])\<lparr>m_PtrSendDevice := Some 1, m_PtrRecvDevice := Some 1\<rparr>"

lemma loop_transport_dev:
  "tp_heap loop_transport 1 = Some loop_dev" "m_PtrRecvDevice loop_transport = Some 1"
  "SendDeviceGet n loop_transport = Some 1" "io_Valid loop_dev"
  "sends_to (io_drv loop_dev) (\<lambda>w. w)" "keeps_sending (io_drv loop_dev)" "receives_from (io_drv loop_dev) (\<lambda>w. w)"
  "keeps_receiving (io_drv loop_dev) (\<lambda>w. w)"
  using loop_driver_works by (simp_all add: loop_transport_def IpcTransport_new_def SendDeviceGet_def IoDev_new_def loop_dev_def)

definition blank_seg :: ipcsegment where
  "blank_seg = IpcSegment_new (replicate 1024 7)"

lemma blank_wire: "wire_ok blank_seg"
  using new_spec [of "replicate 1024 7"]
  by (auto simp: wire_ok_def blank_seg_def SegLen_def hdr_def Buf_LenGet_def seg_Data_def)

text \<open>
  C19. A stream carries segments: over a device that takes what it is given, in pieces of any size,
  sending any segments in turn writes one frame for each; and from a device that delivers these
  octets, in pieces of any size, as many receives give the same headers and the same octets in
  the same order, and leave what follows untouched.
\<close>

theorem StrmTransport_framing:
  assumes "serves al" "\<forall>seg\<in>set segs. wire_ok seg \<and> SendDeviceGet (DstAddr seg) T = Some a"
    "tp_heap T a = Some d" "io_Valid d" "sends_to (io_drv d) sent" "keeps_sending (io_drv d)"
    and "m_PtrRecvDevice R = Some b" "tp_heap R b = Some e" "io_Valid e" "receives_from (io_drv e) avail"
    "keeps_receiving (io_drv e) avail" "length blks = length segs" "\<forall>blk\<in>set blks. length blk = 1024"
  shows "\<exists>w' stream. strm_sends al t T segs w = Some w' \<and> sent w' = sent w @ stream \<and>
    (\<forall>v rest. avail v = stream @ rest \<longrightarrow>
      (\<exists>v' got. strm_recvs al t' R blks v = Some (v', got) \<and> avail v' = rest \<and> map hdr got = map hdr segs \<and>
        map (\<lambda>s. buf_data (m_Buffer s)) got = map (\<lambda>s. buf_data (m_Buffer s)) segs))"
proof -
  obtain w' where "strm_sends al t T segs w = Some w'" "sent w' = sent w @ concat (map seg_frame segs)"
    using strm_sends_frames [OF assms(1,3-6,2)] by blast
  moreover have "strm_ready R b e avail" using assms(7-11) by (simp add: strm_ready_def)
  moreover have "\<forall>seg\<in>set segs. wire_ok seg" using assms(2) by blast
  ultimately show ?thesis using strm_recvs_frames [OF assms(1) _ _ _ assms(12,13), where avail = avail and t = t']
    by (intro exI [of _ w'] exI [of _ "concat (map seg_frame segs)"]) blast
qed

theorem StrmTransport_framing_witness:
  "\<exists>w' v' got. strm_sends (hist_alloc (\<lambda>_. True) [] (\<lambda>_. 0)) 100 loop_transport [blank_seg, blank_seg] [] = Some w' \<and>
    strm_recvs (hist_alloc (\<lambda>_. True) [] (\<lambda>_. 0)) 100 loop_transport [replicate 1024 1, replicate 1024 2] w' = Some (v', got) \<and>
    v' = [] \<and> map hdr got = [hdr blank_seg, hdr blank_seg]"
proof -
  note dev = loop_transport_dev
  have b: "\<forall>seg\<in>set [blank_seg, blank_seg]. wire_ok seg \<and> SendDeviceGet (DstAddr seg) loop_transport = Some 1"
    using blank_wire dev(3) by simp
  have l: "length [replicate 1024 1, replicate 1024 2 :: octets] = length [blank_seg, blank_seg]"
    "\<forall>blk\<in>set [replicate 1024 1, replicate 1024 2 :: octets]. length blk = 1024" by simp_all
  note r = StrmTransport_framing [where sent = "\<lambda>w. w" and avail = "\<lambda>w. w" and w = "[]" and t' = 100 and t = 100,
      OF serves_manager [of "\<lambda>_. 0"] b dev(1,4-6,2,1,4,7,8) l]
  show ?thesis using r
    by (elim exE conjE, drule_tac x = "stream" in spec, drule_tac x = "[]" in spec)
      (auto simp del: strm_sends.simps strm_recvs.simps)
qed

text \<open>
  A message on the stream that is not for the segment: one with another opcode, of at most 1024
  octets, is read and dropped, the receive fails and the segment and what follows on the stream
  are as they were. A segment header with length 0 is mistaken for a message that could not be
  read: the payload of length 0 is then received into the segment, which loses its block.
\<close>

theorem StrmTransport_other_message:
  assumes "serves al" "m_PtrRecvDevice R = Some b" "tp_heap R b = Some e" "io_Valid e"
    "receives_from (io_drv e) avail" "keeps_receiving (io_drv e) avail"
  shows "(op \<noteq> OpCode_IpcMsg \<and> 0 < length msg \<and> length msg \<le> 1024 \<and> avail v = strm_header op (length msg) @ msg @ rest \<longrightarrow>
      (\<exists>R' v'. StrmTransport_Recv al (Some seg) t R v = Some (R', v', Some seg, False) \<and> avail v' = rest)) \<and>
    (avail v = strm_header OpCode_IpcMsg 0 @ rest \<longrightarrow>
      (\<exists>R' v' seg'. StrmTransport_Recv al (Some seg) t R v = Some (R', v', Some seg', False) \<and> avail v' = rest \<and>
        m_PtrBlock (m_Buffer seg') = None))"
proof (intro conjI impI)
  have rdy: "strm_ready R b e avail" using assms(2-6) by (simp add: strm_ready_def)
  have a: "allocator al" using assms(1) by (simp add: serves_def)
  define D where "D = FullRead True e"
  have D: "io_drv D = io_drv e" "io_Valid D" "m_FullRead D" using assms(4) by (simp_all add: D_def FullRead_def)
  show "\<exists>R' v'. StrmTransport_Recv al (Some seg) t R v = Some (R', v', Some seg, False) \<and> avail v' = rest"
    if "op \<noteq> OpCode_IpcMsg \<and> 0 < length msg \<and> length msg \<le> 1024 \<and> avail v = strm_header op (length msg) @ msg @ rest"
  proof -
    have n: "0 < length msg" "length msg \<le> 1024" "length msg < 2 ^ 32" using that by auto
    obtain b1 where b1: "Buf_Resize al (length msg) Buf_null = (b1, True)"
      using served_block [OF assms(1) n(1,2), of Buf_null] by (auto simp: Buf_Size_def)
    have av: "avail v = strm_header op (length msg) @ msg @ rest" using that by blast
    show ?thesis
    proof (rule Strm_header [OF assms(1) rdy av n(3), of seg t], goal_cases)
      case (1 w1)
      obtain w2 tmp where "Recv_Buf al D Buf_null (length msg) t w1 = (w2, tmp, int (length msg))" "avail w2 = rest"
        using Recv_Buf_all [where avail = avail and d = D and t = t, OF a _ _ _ _ b1 n(1) _ 1(1) refl] D assms(5,6) n(2) by auto
      then show ?case using 1(2) that by (simp add: Let_def D_def)
    qed
  qed
  show "\<exists>R' v' seg'. StrmTransport_Recv al (Some seg) t R v = Some (R', v', Some seg', False) \<and> avail v' = rest \<and>
        m_PtrBlock (m_Buffer seg') = None"
    if "avail v = strm_header OpCode_IpcMsg 0 @ rest"
  proof (rule Strm_header [OF assms(1) rdy that _, of seg t], simp, goal_cases)
    case (1 w1)
    have r: "Recv_Buf al D x 0 t w1 = (w1, Buf_LenSet 0 (Buf_Clear 0 (x\<lparr>m_PtrBlock := None\<rparr>)), -1)" for x
      by (cases x) (auto simp: Recv_Buf_def Buf_Resize_def Recv_ptr_def Buf_Clear_def Let_def)
    show ?case using 1 r [of Buf_null] r [of "m_Buffer seg"]
      by (auto simp: Let_def D_def tp_accept_def Buf_LenSet_def Buf_Clear_def)
  qed
qed

theorem StrmTransport_other_message_witness:
  "\<exists>R' v' seg'. StrmTransport_Recv (hist_alloc (\<lambda>_. True) [] (\<lambda>_. 0)) (Some blank_seg) 100 loop_transport
      (strm_header OpCode_IpcMsg 0 @ [9]) = Some (R', v', Some seg', False) \<and> v' = [9] \<and> m_PtrBlock (m_Buffer seg') = None"
  using StrmTransport_other_message [where avail = "\<lambda>w. w" and v = "strm_header OpCode_IpcMsg 0 @ [9]" and t = 100 and
      seg = blank_seg and rest = "[9]", OF serves_manager [of "\<lambda>_. 0"] loop_transport_dev(2,1,4,7,8)] by simp

end
