(* ===== verification/IpcRouter.thy ===== *)
theory IpcRouter
  imports IpcTransport StrUtil "HOL-Library.List_Lexorder" "HOL-Library.Char_ord"
begin

text \<open>
  \<open>cpIpcRouter\<close>: nodes register by name, get an address and a queue of their own, and the router's
  thread forwards each message to the queue of its destination, or to all. The two maps are
  lists in the order of \<open>std::map\<close>. Nodes register from many threads: the relation \<open>rt_step\<close>
  interleaves the parts of the operations that run under the lock.
\<close>

section \<open>Operations\<close>

definition k_IpcNodeAddrMinVal :: u32 where "k_IpcNodeAddrMinVal = 16"
definition k_IpcNodeDevNameMinLen :: nat where "k_IpcNodeDevNameMinLen = 8"
definition k_IpcCommsQueueDepth :: u32 where "k_IpcCommsQueueDepth = 16"
definition k_BroadcastNode :: string where "k_BroadcastNode = ''BROADCAST''"

text \<open>A map as the list of its entries in the order of the keys.\<close>

fun map_put :: "'k::linorder \<Rightarrow> 'v \<Rightarrow> ('k \<times> 'v) list \<Rightarrow> ('k \<times> 'v) list" where
  "map_put k v [] = [(k, v)]"
| "map_put k v ((a, b) # r) =
     (if k < a then (k, v) # (a, b) # r else if k = a then (k, v) # r else (a, b) # map_put k v r)"

definition map_del :: "'k \<Rightarrow> ('k \<times> 'v) list \<Rightarrow> ('k \<times> 'v) list" where
  "map_del k m = filter (\<lambda>(a, b). a \<noteq> k) m"

text \<open>The first entry with a value is erased; the result tells whether there was one.\<close>

fun erase_value :: "'v \<Rightarrow> ('k \<times> 'v) list \<Rightarrow> ('k \<times> 'v) list \<times> bool" where
  "erase_value v [] = ([], False)"
| "erase_value v ((a, b) # r) = (if b = v then (r, True) else apfst (Cons (a, b)) (erase_value v r))"

record 'q router =
  m_NextNodeAddr :: u32
  m_RecvDevice :: "'q queue"
  m_NodeQueues :: "(u32 \<times> 'q queue) list"
  m_NodeAddresses :: "(string \<times> u32) list"

definition IpcRouter_new ::
  "(nat \<Rightarrow> octets option) \<Rightarrow> ('q, 'o) mqos \<Rightarrow> 'o \<Rightarrow> ('q router \<times> 'o) option" where
  "IpcRouter_new al os s =
     (case Queue_new os ''00000000'' seg_MaxLen k_IpcCommsQueueDepth s of
        (s1, q) \<Rightarrow>
          map_option
            (\<lambda>s2. (\<lparr>m_NextNodeAddr = k_IpcNodeAddrMinVal, m_RecvDevice = q, m_NodeQueues = [],
                    m_NodeAddresses = map_put k_BroadcastNode (- 1) []\<rparr>, s2))
            (Queue_Flush al os q s1))"

definition NodeFind :: "string \<Rightarrow> 'q router \<Rightarrow> u32" where
  "NodeFind NodeName R = (case map_of (m_NodeAddresses R) NodeName of Some a \<Rightarrow> a | None \<Rightarrow> 0)"

definition QueueFind :: "u32 \<Rightarrow> 'q router \<Rightarrow> 'q queue option" where
  "QueueFind Address R = map_of (m_NodeQueues R) Address"

text \<open>The parts of \<open>NodeAdd\<close> under the lock: a new address, 0 when none is left, and the two entries.\<close>

definition addr_take :: "'q router \<Rightarrow> 'q router \<times> u32" where
  "addr_take R =
     (if m_NextNodeAddr R < - 1 then (R\<lparr>m_NextNodeAddr := m_NextNodeAddr R + 1\<rparr>, m_NextNodeAddr R) else (R, 0))"

definition node_store :: "string \<Rightarrow> u32 \<Rightarrow> 'q queue \<Rightarrow> 'q router \<Rightarrow> 'q router" where
  "node_store NodeName a q R =
     R\<lparr>m_NodeQueues := map_put a q (m_NodeQueues R), m_NodeAddresses := map_put NodeName a (m_NodeAddresses R)\<rparr>"

definition dev_name :: "u32 \<Rightarrow> string" where
  "dev_name a =
     (let s = UintToStr a
      in if length s < k_IpcNodeDevNameMinLen then GenStr (k_IpcNodeDevNameMinLen - length s) CHR ''0'' @ s else s)"

text \<open>\<open>created\<close> tells whether the queue object could be allocated. The last result is the device name.\<close>

definition NodeAdd ::
  "(nat \<Rightarrow> octets option) \<Rightarrow> ('q, 'o) mqos \<Rightarrow> bool \<Rightarrow> string \<Rightarrow> string \<Rightarrow> 'q router \<times> 'o \<Rightarrow>
   (('q router \<times> 'o) \<times> u32 \<times> string) option" where
  "NodeAdd al os created NodeName IoDevice Rs =
     (case Rs of
        (R, s) \<Rightarrow>
          (case addr_take R of
             (R1, nodeAddr) \<Rightarrow>
               if nodeAddr = 0 then Some ((R1, s), 0, IoDevice)
               else
                 let dev = dev_name nodeAddr
                 in if \<not> created then Some ((R1, s), 0, dev)
                    else
                      (case Queue_new os dev seg_MaxLen k_IpcCommsQueueDepth s of
                         (s1, q) \<Rightarrow>
                           if m_MsgQueue q \<noteq> None then
                             map_option (\<lambda>s2. ((node_store NodeName nodeAddr q R1, s2), nodeAddr, dev))
                               (Queue_Flush al os q s1)
                           else Some ((R1, Queue_delete os q s1), 0, dev))))"

definition NodeCreate ::
  "(nat \<Rightarrow> octets option) \<Rightarrow> ('q, 'o) mqos \<Rightarrow> bool \<Rightarrow> string \<Rightarrow> string \<Rightarrow> 'q router \<times> 'o \<Rightarrow>
   (('q router \<times> 'o) \<times> u32 \<times> string) option" where
  "NodeCreate al os created NodeName IoDevice Rs =
     (if NodeFind NodeName (fst Rs) = 0 then NodeAdd al os created NodeName IoDevice Rs
      else Some (Rs, 0, IoDevice))"

definition NodeDel :: "('q, 'o) mqos \<Rightarrow> u32 \<Rightarrow> 'q router \<times> 'o \<Rightarrow> ('q router \<times> 'o) \<times> bool" where
  "NodeDel os Address Rs =
     (case Rs of
        (R, s) \<Rightarrow>
          let (R1, s1, rv1) =
                (case map_of (m_NodeQueues R) Address of
                   Some q \<Rightarrow> (R\<lparr>m_NodeQueues := map_del Address (m_NodeQueues R)\<rparr>, Queue_delete os q s, True)
                 | None \<Rightarrow> (R, s, False));
              (names, rv2) = erase_value Address (m_NodeAddresses R1)
          in ((R1\<lparr>m_NodeAddresses := names\<rparr>, s1), rv1 \<or> rv2))"

definition Router_ReleaseThread :: "(nat \<Rightarrow> octets option) \<Rightarrow> ('q, 'o) mqos \<Rightarrow> 'q router \<Rightarrow> 'o \<Rightarrow> 'o" where
  "Router_ReleaseThread al os R s =
     (let buf = Buf_LenSet 4 (Buf_new al 4)
      in fst (Send_Buf (Queue_dev os (m_RecvDevice R)) buf (Buf_Size buf) k_TransmitTimeout s))"

definition send_to :: "('q, 'o) mqos \<Rightarrow> ipcsegment \<Rightarrow> u32 \<Rightarrow> 'q queue \<Rightarrow> 'o \<Rightarrow> 'o \<times> int" where
  "send_to os Seg Timeout q s = Send_Buf (Queue_dev os q) (m_Buffer Seg) (Buf_Size (m_Buffer Seg)) Timeout s"

text \<open>A broadcast goes to the queues from the last to the first, and always counts as sent.\<close>

definition Router_Send :: "('q, 'o) mqos \<Rightarrow> ipcsegment \<Rightarrow> u32 \<Rightarrow> 'q router \<Rightarrow> 'o \<Rightarrow> 'o \<times> bool" where
  "Router_Send os Seg Timeout R s =
     (case QueueFind (DstAddr Seg) R of
        Some q \<Rightarrow> (case send_to os Seg Timeout q s of (s', n) \<Rightarrow> (s', n > 0))
      | None \<Rightarrow>
          if DstAddr Seg = - 1
          then (foldl (\<lambda>s q. fst (send_to os Seg Timeout q s)) s (rev (map snd (m_NodeQueues R))), True)
          else (s, False))"

definition Router_Recv ::
  "(nat \<Rightarrow> octets option) \<Rightarrow> ('q, 'o) mqos \<Rightarrow> 'q router \<Rightarrow> ipcsegment \<Rightarrow> u32 \<Rightarrow> 'o \<Rightarrow> 'o \<times> ipcsegment \<times> bool" where
  "Router_Recv al os R Seg Timeout s =
     (case Recv_Buf al (Queue_dev os (m_RecvDevice R)) (m_Buffer Seg) (Buf_Size (m_Buffer Seg)) Timeout s of
        (s', b, n) \<Rightarrow> (s', Seg\<lparr>m_Buffer := b\<rparr>, n \<ge> int seg_Data))"

text \<open>One turn of the router's thread, with the segment it uses for every message.\<close>

definition RtrThread_turn ::
  "(nat \<Rightarrow> octets option) \<Rightarrow> ('q, 'o) mqos \<Rightarrow> 'q router \<Rightarrow> ipcsegment \<Rightarrow> 'o \<Rightarrow> 'o \<times> ipcsegment" where
  "RtrThread_turn al os R seg s =
     (case Router_Recv al os R seg k_ReceiveTimeout s of
        (s1, seg1, True) \<Rightarrow> (fst (Router_Send os seg1 k_TransmitTimeout R s1), seg1)
      | (s1, seg1, False) \<Rightarrow> (s1, seg1))"

text \<open>The destructor, after the thread has ended: every node's queue is flushed and deleted.\<close>

fun queues_delete ::
  "(nat \<Rightarrow> octets option) \<Rightarrow> ('q, 'o) mqos \<Rightarrow> (u32 \<times> 'q queue) list \<Rightarrow> 'o \<Rightarrow> 'o option" where
  "queues_delete al os [] s = Some s"
| "queues_delete al os ((a, q) # r) s =
     Option.bind (Queue_Flush al os q s) (\<lambda>s1. queues_delete al os r (Queue_delete os q s1))"

definition Router_delete ::
  "(nat \<Rightarrow> octets option) \<Rightarrow> ('q, 'o) mqos \<Rightarrow> 'q router \<Rightarrow> 'o \<Rightarrow> 'o option" where
  "Router_delete al os R s =
     map_option (Queue_delete os (m_RecvDevice R))
       (queues_delete al os (m_NodeQueues R) (Router_ReleaseThread al os R s))"

section \<open>The maps\<close>

lemma map_put_keys: "set (map fst (map_put k v m)) = insert k (set (map fst m))"
  by (induction k v m rule: map_put.induct) auto

lemma map_put_get [simp]: "map_of (map_put k v m) k = Some v"
  by (induction k v m rule: map_put.induct) auto

lemma map_put_sorted: "sorted (map fst m) \<and> distinct (map fst m) \<Longrightarrow>
    sorted (map fst (map_put k v m)) \<and> distinct (map fst (map_put k v m))"
proof (induction k v m rule: map_put.induct)
  case (2 k v a b r)
  then have s: "sorted (map fst r)" "distinct (map fst r)" "\<forall>x\<in>set (map fst r). a < x"
    by (auto simp: order.strict_iff_order)
  show ?case
  proof (cases "k < a \<or> k = a")
    case True
    then show ?thesis using s 2(2) by (auto intro: less_imp_le order.strict_trans)
  next
    case False
    then have "sorted (map fst (map_put k v r)) \<and> distinct (map fst (map_put k v r))" using 2(1) s by simp
    moreover have "\<forall>x\<in>set (map fst (map_put k v r)). a < x" unfolding map_put_keys using False s(3) by auto
    ultimately show ?thesis using False by (auto intro: less_imp_le)
  qed
qed simp

lemma map_put_set: "sorted (map fst m) \<and> distinct (map fst m) \<Longrightarrow>
    set (map_put k v m) = insert (k, v) {e \<in> set m. fst e \<noteq> k}"
proof (induction k v m rule: map_put.induct)
  case (2 k v a b r)
  then have s: "sorted (map fst r)" "distinct (map fst r)" "\<forall>x\<in>set r. a < fst x"
    by (auto simp: order.strict_iff_order)
  then show ?case using 2(1) by (cases "k < a \<or> k = a") (fastforce, auto)
qed simp

lemma erase_value_sub: "erase_value v m = (m', rv) \<Longrightarrow>
    set m' \<subseteq> set m \<and> (sorted (map fst m) \<longrightarrow> sorted (map fst m')) \<and> (distinct (map fst m) \<longrightarrow> distinct (map fst m')) \<and>
    (distinct (filter (\<lambda>x. x \<noteq> w) (map snd m)) \<longrightarrow> distinct (filter (\<lambda>x. x \<noteq> w) (map snd m'))) \<and>
    (v \<noteq> w \<and> distinct (filter (\<lambda>x. x \<noteq> w) (map snd m)) \<longrightarrow> v \<notin> snd ` set m')"
proof (induction m arbitrary: m' rv)
  case (Cons e r)
  obtain a b where e: "e = (a, b)" by fastforce
  obtain r' rv' where er: "erase_value v r = (r', rv')" by fastforce
  note ih = Cons(1) [OF er]
  show ?case
  proof (cases "b = v")
    case True
    then show ?thesis using Cons(2) e by (auto simp: image_iff)
  next
    case False
    then have m': "m' = (a, b) # r'" using Cons(2) e er by simp
    then show ?thesis using ih e False by (auto simp: image_iff)
  qed
qed simp

lemma map_put_values: "snd ` set (map_put k v m) \<subseteq> insert v (snd ` set m)"
  by (induction k v m rule: map_put.induct) auto

lemma map_put_distinct: "distinct (filter (\<lambda>x. x \<noteq> w) (map snd m)) \<Longrightarrow> v \<notin> snd ` set m \<Longrightarrow>
    distinct (filter (\<lambda>x. x \<noteq> w) (map snd (map_put k v m)))"
proof (induction k v m rule: map_put.induct)
  case (2 k v a b r)
  then show ?case using map_put_values [of k v r] by (auto simp: image_iff) fastforce+
qed simp

lemma map_del_keys: "sorted (map fst m) \<and> distinct (map fst m) \<Longrightarrow>
    sorted (map fst (map_del k m)) \<and> distinct (map fst (map_del k m)) \<and> set (map_del k m) = {e \<in> set m. fst e \<noteq> k}"
proof -
  assume a: "sorted (map fst m) \<and> distinct (map fst m)"
  have e: "map fst (map_del k m) = filter (\<lambda>a. a \<noteq> k) (map fst m)"
    by (induction m) (auto simp: map_del_def)
  show ?thesis unfolding e using a by (auto simp: map_del_def sorted_wrt_filter)
qed

section \<open>Registration from many threads\<close>

text \<open>
  The threads in the middle of \<open>NodeAdd\<close> are \<open>pending\<close>, with the address each took and the name it
  registers; \<open>issued\<close> are all addresses given out so far, in order. The lookup before \<open>NodeAdd\<close> changes
  nothing, so a thread may start at any time, also with a name that is being registered.
\<close>

record 'q rtsys =
  rt :: "'q router"
  rt_pending :: "(u32 \<times> string) list"
  rt_issued :: "u32 list"

inductive rt_step :: "('q, 'o) mqos \<Rightarrow> 'q rtsys \<Rightarrow> 'q rtsys \<Rightarrow> bool" for os where
  rt_take: "addr_take (rt S) = (R, a) \<Longrightarrow> a \<noteq> 0 \<Longrightarrow>
    rt_step os S (S\<lparr>rt := R, rt_pending := (a, NodeName) # rt_pending S, rt_issued := rt_issued S @ [a]\<rparr>)"
| rt_exhausted: "addr_take (rt S) = (R, 0) \<Longrightarrow> rt_step os S (S\<lparr>rt := R\<rparr>)"
| rt_store: "rt_pending S = xs @ (a, NodeName) # ys \<Longrightarrow>
    Queue_new os (dev_name a) seg_MaxLen k_IpcCommsQueueDepth s = (s', q) \<Longrightarrow> m_MsgQueue q \<noteq> None \<Longrightarrow>
    rt_step os S (S\<lparr>rt := node_store NodeName a q (rt S), rt_pending := xs @ ys\<rparr>)"
| rt_fail: "rt_pending S = xs @ e # ys \<Longrightarrow> rt_step os S (S\<lparr>rt_pending := xs @ ys\<rparr>)"
| rt_del: "NodeDel os a (rt S, s) = ((R, s'), rv) \<Longrightarrow> rt_step os S (S\<lparr>rt := R\<rparr>)"

inductive rt_reach :: "('q, 'o) mqos \<Rightarrow> 'q rtsys \<Rightarrow> bool" for os where
  rt_init: "IpcRouter_new al os s = Some (R, s') \<Longrightarrow> rt_reach os \<lparr>rt = R, rt_pending = [], rt_issued = []\<rparr>"
| rt_next: "rt_reach os S \<Longrightarrow> rt_step os S S' \<Longrightarrow> rt_reach os S'"

definition rt_ok :: "'q rtsys \<Rightarrow> bool" where
  "rt_ok S \<longleftrightarrow>
     (let Q = m_NodeQueues (rt S); N = m_NodeAddresses (rt S)
      in (sorted (map fst Q) \<and> distinct (map fst Q)) \<and> (sorted (map fst N) \<and> distinct (map fst N)) \<and>
         16 \<le> unat (m_NextNodeAddr (rt S)) \<and> map unat (rt_issued S) = [16 ..< unat (m_NextNodeAddr (rt S))] \<and>
         fst ` set Q \<union> fst ` set (rt_pending S) \<subseteq> set (rt_issued S) \<and> fst ` set Q \<inter> fst ` set (rt_pending S) = {} \<and>
         distinct (map fst (rt_pending S)) \<and>
         (\<forall>e\<in>set Q. q_SysName (snd e) = q_name (dev_name (fst e)) \<and> m_MsgQueue (snd e) \<noteq> None) \<and>
         (\<forall>e\<in>set N. snd e \<noteq> - 1 \<longrightarrow> snd e \<in> fst ` set Q) \<and> distinct (filter (\<lambda>x. x \<noteq> - 1) (map snd N)))"

lemma issued_bounds:
  assumes "map unat xs = [16 ..< unat (n :: u32)]" "x \<in> set xs"
  shows "16 \<le> unat x \<and> x < n \<and> x \<noteq> - 1"
proof -
  have "unat x \<in> set (map unat xs)" using assms(2) by simp
  then have "16 \<le> unat x" "unat x < unat n" unfolding assms(1) by simp_all
  moreover have "x < n" using calculation(2) by (simp add: word_less_nat_alt)
  ultimately show ?thesis using word_n1_ge [of n] by auto
qed

lemma addr_take_spec:
  assumes "addr_take R = (R', a)" "16 \<le> unat (m_NextNodeAddr R)"
  shows "if a = 0 then R' = R else a = m_NextNodeAddr R \<and> R' = R\<lparr>m_NextNodeAddr := a + 1\<rparr> \<and> unat (a + 1) = unat a + 1"
proof (cases "m_NextNodeAddr R < - 1")
  case True
  then have "m_NextNodeAddr R \<noteq> - 1" by auto
  then have "1 + m_NextNodeAddr R \<noteq> 0" by (metis add.commute add_eq_0_iff)
  then have "unat (m_NextNodeAddr R + 1) = unat (m_NextNodeAddr R) + 1"
    using unatSuc [of "m_NextNodeAddr R"] by (simp add: add.commute)
  then show ?thesis using assms True by (auto simp: addr_take_def)
qed (use assms in \<open>auto simp: addr_take_def\<close>)

lemma rt_ok_take:
  assumes "addr_take (rt S) = (R, a)" "a \<noteq> 0" "rt_ok S"
  shows "rt_ok (S\<lparr>rt := R, rt_pending := (a, n) # rt_pending S, rt_issued := rt_issued S @ [a]\<rparr>)"
proof -
  note ok = assms(3) [unfolded rt_ok_def Let_def]
  have t: "a = m_NextNodeAddr (rt S)" "R = (rt S)\<lparr>m_NextNodeAddr := a + 1\<rparr>" "unat (a + 1) = unat a + 1"
    using addr_take_spec [OF assms(1)] ok assms(2) by auto
  have new: "a \<notin> set (rt_issued S)" using issued_bounds [of "rt_issued S" a a] ok t(1) by auto
  have "map unat (rt_issued S @ [a]) = [16 ..< unat (a + 1)]" using ok t(1,3) by simp
  then show ?thesis unfolding rt_ok_def Let_def using ok t new by auto
qed

lemma rt_ok_pending:
  assumes "rt_ok S" "rt_pending S = xs @ e # ys"
  shows "rt_ok (S\<lparr>rt_pending := xs @ ys\<rparr>)"
  using assms unfolding rt_ok_def Let_def by auto

lemma rt_ok_store:
  assumes "rt_ok S" "rt_pending S = xs @ (a, n) # ys" "q_SysName q = q_name (dev_name a)" "m_MsgQueue q \<noteq> None"
  shows "rt_ok (S\<lparr>rt := node_store n a q (rt S), rt_pending := xs @ ys\<rparr>)"
proof -
  define Q N where "Q = m_NodeQueues (rt S)" and "N = m_NodeAddresses (rt S)"
  note ok = assms(1) [unfolded rt_ok_def Let_def, folded Q_def N_def]
  have a: "a \<in> set (rt_issued S)" "a \<notin> fst ` set Q" "a \<notin> fst ` set (xs @ ys)" using ok assms(2) by auto
  have a1: "a \<noteq> - 1" using issued_bounds [of "rt_issued S" _ a] ok a(1) by blast
  have v: "a \<notin> snd ` set N" using ok a(2) a1 by auto
  have Q: "sorted (map fst (map_put a q Q)) \<and> distinct (map fst (map_put a q Q))"
    "set (map_put a q Q) = insert (a, q) {e \<in> set Q. fst e \<noteq> a}" "fst ` set (map_put a q Q) = insert a (fst ` set Q)"
    using ok map_put_sorted [of Q a q] map_put_set [of Q a q] map_put_keys [of a q Q] by auto
  have N: "sorted (map fst (map_put n a N)) \<and> distinct (map fst (map_put n a N))"
    "set (map_put n a N) = insert (n, a) {e \<in> set N. fst e \<noteq> n}"
    "distinct (filter (\<lambda>x. x \<noteq> - 1) (map snd (map_put n a N)))"
    using ok map_put_sorted [of N n a] map_put_set [of N n a] map_put_distinct [OF _ v] by auto
  have eq: "m_NodeQueues (node_store n a q (rt S)) = map_put a q Q" "m_NodeAddresses (node_store n a q (rt S)) = map_put n a N"
    "m_NextNodeAddr (node_store n a q (rt S)) = m_NextNodeAddr (rt S)"
    by (simp_all add: node_store_def Q_def N_def)
  have qs: "\<forall>e\<in>set (map_put a q Q). q_SysName (snd e) = q_name (dev_name (fst e)) \<and> m_MsgQueue (snd e) \<noteq> None"
    unfolding Q(2) using ok assms(3,4) by auto
  have ns: "\<forall>e\<in>set (map_put n a N). snd e \<noteq> - 1 \<longrightarrow> snd e \<in> fst ` set (map_put a q Q)"
    unfolding Q(3) N(2) using ok by auto
  have pend: "fst ` set (map_put a q Q) \<union> fst ` set (xs @ ys) \<subseteq> set (rt_issued S)"
    "fst ` set (map_put a q Q) \<inter> fst ` set (xs @ ys) = {}" "distinct (map fst (xs @ ys))"
    unfolding Q(3) using ok a assms(2) by auto
  show ?thesis
    unfolding rt_ok_def Let_def using ok Q(1) N(1,3) qs ns pend by (simp add: eq)
qed

lemma rt_ok_del:
  assumes "rt_ok S" "NodeDel os a (rt S, s) = ((R, s'), rv)"
  shows "rt_ok (S\<lparr>rt := R\<rparr>)"
proof -
  define Q N where "Q = m_NodeQueues (rt S)" and "N = m_NodeAddresses (rt S)"
  note ok = assms(1) [unfolded rt_ok_def Let_def, folded Q_def N_def]
  obtain N' r where er: "erase_value a N = (N', r)" by fastforce
  note N' = erase_value_sub [OF er, of "- 1"]
  have "sorted (map fst Q) \<and> distinct (map fst Q)" using ok by blast
  note Q' = map_del_keys [OF this, of a]
  have "map_of Q a = None \<Longrightarrow> map_del a Q = Q"
    by (auto simp: map_del_def filter_id_conv map_of_eq_None_iff image_iff)
  then have R: "m_NodeQueues R = map_del a Q" "m_NodeAddresses R = N'" "m_NextNodeAddr R = m_NextNodeAddr (rt S)"
    using assms(2) er by (auto simp: NodeDel_def Let_def Q_def N_def split: option.splits prod.splits)
  have ns: "\<forall>e\<in>set N'. snd e \<noteq> - 1 \<longrightarrow> snd e \<in> fst ` set (map_del a Q)"
  proof (intro ballI impI)
    fix e assume e: "e \<in> set N'" "snd e \<noteq> - 1"
    then have "snd e \<in> fst ` set Q" using ok N' by blast
    moreover have "snd e \<noteq> a" using e N' ok by blast
    ultimately show "snd e \<in> fst ` set (map_del a Q)" using Q' by auto
  qed
  have "sorted (map fst N') \<and> distinct (map fst N')" "distinct (filter (\<lambda>x. x \<noteq> - 1) (map snd N'))"
    using ok N' by blast+
  moreover have "fst ` set (map_del a Q) \<subseteq> fst ` set Q" using Q' by auto
  moreover have "\<forall>e\<in>set (map_del a Q). q_SysName (snd e) = q_name (dev_name (fst e)) \<and> m_MsgQueue (snd e) \<noteq> None"
    using ok Q' by blast
  ultimately show ?thesis unfolding rt_ok_def Let_def using ok Q' ns R by (auto; blast)
qed

lemma rt_ok_step: "rt_step os S S' \<Longrightarrow> rt_ok S \<Longrightarrow> rt_ok S'"
proof (induction rule: rt_step.cases)
  case (rt_take S R a n)
  then show ?case using rt_ok_take by blast
next
  case (rt_exhausted S R)
  then have "R = rt S" using addr_take_spec [of "rt S" R 0] by (auto simp: rt_ok_def Let_def)
  then show ?case using rt_exhausted by simp
next
  case (rt_store S xs a n ys s s' q)
  then show ?case using rt_ok_store [of S xs a n ys q] by (auto simp: Queue_new_def split: prod.splits)
next
  case (rt_fail S xs e ys)
  then show ?case using rt_ok_pending by blast
next
  case (rt_del a U s R s' rv)
  then show ?case using rt_ok_del [OF _ rt_del(3)] by simp
qed

lemma rt_ok_new: "IpcRouter_new al os s = Some (R, s') \<Longrightarrow> rt_ok \<lparr>rt = R, rt_pending = [], rt_issued = []\<rparr>"
  by (auto simp: IpcRouter_new_def rt_ok_def Let_def k_IpcNodeAddrMinVal_def split: prod.splits)

lemma rt_reach_ok: "rt_reach os S \<Longrightarrow> rt_ok S"
  by (induction rule: rt_reach.induct) (auto intro: rt_ok_new rt_ok_step)

text \<open>Device names tell addresses apart.\<close>

lemma LegalChars_digits: "\<forall>c\<in>set s. is_digit c \<Longrightarrow> map LegalChars s = s"
  by (induction s) (auto simp: LegalChars_def is_digit_def)

lemma dev_name_val: "foldl (\<lambda>a c. 10 * a + digit_val c) 0 (dev_name a) = unat a" "\<forall>c\<in>set (dev_name a). is_digit c"
proof -
  have z: "is_digit CHR ''0''" "digit_val CHR ''0'' = 0" by (simp_all add: is_digit_def digit_val_def)
  have "foldl (\<lambda>a c. 10 * a + digit_val c) 0 (replicate k CHR ''0'') = 0" for k by (induction k) (simp_all add: z)
  then show "foldl (\<lambda>a c. 10 * a + digit_val c) 0 (dev_name a) = unat a"
    by (simp add: dev_name_def GenStr_def Let_def UintToStr_def dec_val)
  show "\<forall>c\<in>set (dev_name a). is_digit c"
    using dec_digits(1) [of "unat a"] z by (auto simp: dev_name_def GenStr_def Let_def UintToStr_def)
qed

lemma dev_name_inj: "q_name (dev_name a) = q_name (dev_name b) \<longleftrightarrow> a = b"
proof
  assume "q_name (dev_name a) = q_name (dev_name b)"
  then have "dev_name a = dev_name b"
    using LegalChars_digits [OF dev_name_val(2)] by (simp add: q_name_def)
  then show "a = b" using dev_name_val(1) [of a] dev_name_val(1) [of b] by (simp add: word_unat_eq_iff)
qed simp

text \<open>
  C22. However the registrations and removals of any threads interleave, also of threads that register
  the same name: addresses are given out in order from 16 and never twice, so a removed node's
  address does not come back; every queue is valid and lies under an address given out, two
  queues never share a device of the system, and a name, except a broadcast name, leads to a
  queue, a different one for every name.
\<close>

theorem IpcRouter_consistent:
  assumes "rt_reach os S"
  shows "map unat (rt_issued S) = [16 ..< unat (m_NextNodeAddr (rt S))] \<and> 0xffffffff \<notin> set (rt_issued S) \<and>
    (\<forall>a q. QueueFind a (rt S) = Some q \<longrightarrow> a \<in> set (rt_issued S) \<and> m_MsgQueue q \<noteq> None \<and>
      (\<forall>b r. b \<noteq> a \<and> QueueFind b (rt S) = Some r \<longrightarrow> q_SysName r \<noteq> q_SysName q)) \<and>
    (\<forall>n. let a = NodeFind n (rt S) in a = 0 \<or> a = 0xffffffff \<or> QueueFind a (rt S) \<noteq> None \<and>
      (\<forall>m. m \<noteq> n \<longrightarrow> NodeFind m (rt S) \<noteq> a))"
proof -
  define Q N where "Q = m_NodeQueues (rt S)" and "N = m_NodeAddresses (rt S)"
  note ok = rt_reach_ok [OF assms, unfolded rt_ok_def Let_def, folded Q_def N_def]
  have m1: "(0xffffffff :: u32) = - 1" by simp
  have q: "QueueFind a (rt S) = Some q \<longleftrightarrow> (a, q) \<in> set Q" for a q
    using ok by (simp add: QueueFind_def Q_def)
  have names: "\<forall>e\<in>set N. snd e \<noteq> - 1 \<longrightarrow> snd e \<in> fst ` set Q"
    and uniq: "distinct (filter (\<lambda>x. x \<noteq> - 1) (map snd N))" using ok by blast+
  have sys: "\<forall>e\<in>set Q. q_SysName (snd e) = q_name (dev_name (fst e)) \<and> m_MsgQueue (snd e) \<noteq> None"
    and keys: "fst ` set Q \<subseteq> set (rt_issued S)" using ok by blast+
  have "a \<in> set (rt_issued S) \<and> m_MsgQueue q \<noteq> None \<and> (\<forall>b r. b \<noteq> a \<and> QueueFind b (rt S) = Some r \<longrightarrow> q_SysName r \<noteq> q_SysName q)"
    if "QueueFind a (rt S) = Some q" for a q
  proof (intro conjI allI impI)
    have aq: "(a, q) \<in> set Q" using that q by blast
    show "a \<in> set (rt_issued S)" "m_MsgQueue q \<noteq> None" using aq keys sys by force+
    fix b r assume b: "b \<noteq> a \<and> QueueFind b (rt S) = Some r"
    then have "(b, r) \<in> set Q" using q by blast
    then show "q_SysName r \<noteq> q_SysName q" using bspec [OF sys aq] bspec [OF sys, of "(b, r)"] b dev_name_inj by simp
  qed
  moreover have "let a = NodeFind n (rt S) in a = 0 \<or> a = 0xffffffff \<or> QueueFind a (rt S) \<noteq> None \<and>
      (\<forall>m. m \<noteq> n \<longrightarrow> NodeFind m (rt S) \<noteq> a)" for n
  proof (cases "map_of N n")
    case None
    then show ?thesis by (simp add: NodeFind_def N_def)
  next
    case (Some a)
    have na: "(n, a) \<in> set N" using Some by (rule map_of_SomeD)
    have a: "NodeFind n (rt S) = a" using Some by (simp add: NodeFind_def N_def)
    show ?thesis
    proof (cases "a = 0 \<or> a = - 1")
      case False
      then have "a \<in> fst ` set Q" using bspec [OF names na] by simp
      then have "QueueFind a (rt S) \<noteq> None" using q by fastforce
      moreover have "NodeFind m (rt S) \<noteq> a" if "m \<noteq> n" for m
      proof
        assume "NodeFind m (rt S) = a"
        then have ma: "(m, a) \<in> set N" using False by (auto simp: NodeFind_def N_def split: option.splits dest: map_of_SomeD)
        obtain xs ys where "N = xs @ (n, a) # ys" using na by (meson split_list)
        then show False using uniq ma that False by (auto simp: image_iff)
      qed
      ultimately show ?thesis using a by (simp add: Let_def)
    qed (use a in auto)
  qed
  moreover have "0xffffffff \<notin> set (rt_issued S)" using issued_bounds [of "rt_issued S"] ok by fastforce
  ultimately show ?thesis using ok by blast
qed

text \<open>A router on queues that are empty, and a node that registered.\<close>

definition empty_router :: "string router" where
  "empty_router =
     \<lparr>m_NextNodeAddr = 16,
      m_RecvDevice = snd (Queue_new (sample_mq False) ''00000000'' seg_MaxLen k_IpcCommsQueueDepth (\<lambda>_. [])),
      m_NodeQueues = [], m_NodeAddresses = [(k_BroadcastNode, - 1)]\<rparr>"

lemma empty_router_new:
  "IpcRouter_new al (sample_mq False) (\<lambda>_. []) = Some (empty_router, \<lambda>_. [])"
proof -
  have "Queue_Flush al (sample_mq False) q (\<lambda>_. []) = Some (\<lambda>_. [])" for q
    by (auto simp: Queue_Flush_def flush_loop.simps Queue_IsEmpty_def NumUsed_def sample_mq_def sample_msgs_def split: option.splits)
  then show ?thesis
    by (simp add: IpcRouter_new_def Queue_new_def empty_router_def k_IpcNodeAddrMinVal_def, simp add: sample_mq_def)
qed

theorem IpcRouter_consistent_witness:
  "\<exists>S. rt_reach (sample_mq False) S \<and> NodeFind ''n'' (rt S) = 16 \<and> QueueFind 16 (rt S) \<noteq> None \<and> rt_issued S = [16]"
proof -
  let ?os = "sample_mq False"
  let ?S0 = "\<lparr>rt = empty_router, rt_pending = [], rt_issued = []\<rparr>"
  let ?R1 = "empty_router\<lparr>m_NextNodeAddr := 17\<rparr>"
  let ?S1 = "\<lparr>rt = ?R1, rt_pending = [(16, ''n'')], rt_issued = [16]\<rparr>"
  let ?q = "snd (Queue_new ?os (dev_name 16) seg_MaxLen k_IpcCommsQueueDepth (\<lambda>_. []))"
  let ?S2 = "?S1\<lparr>rt := node_store ''n'' 16 ?q ?R1, rt_pending := []\<rparr>"
  have "rt_reach ?os ?S0" by (rule rt_init [OF empty_router_new])
  moreover have "rt_step ?os ?S0 ?S1" using rt_take [of ?S0 ?R1 16 ?os "''n''"] by (simp add: addr_take_def empty_router_def)
  moreover have "rt_step ?os ?S1 ?S2"
    using rt_store [of ?S1 "[]" 16 "''n''" "[]" ?os "\<lambda>_. []" "fst (Queue_new ?os (dev_name 16) seg_MaxLen k_IpcCommsQueueDepth (\<lambda>_. []))" ?q]
    by (simp add: Queue_new_def, simp add: sample_mq_def)
  ultimately have r: "rt_reach ?os ?S2" by (meson rt_reach.intros)
  have f: "NodeFind ''n'' (rt ?S2) = 16"
    by (simp add: NodeFind_def node_store_def del: map_put.simps)
  show ?thesis using IpcRouter_consistent [OF r] r f
    by (intro exI [of _ ?S2]) (simp add: node_store_def QueueFind_def del: map_put.simps)
qed

section \<open>Messages across the router\<close>

definition mq_accepts :: "('q, 'o) mqos \<Rightarrow> ('q \<Rightarrow> 'o \<Rightarrow> octets list) \<Rightarrow> bool" where
  "mq_accepts os msgs \<longleftrightarrow>
     (\<forall>h m dl s. length (msgs h s) < 16 \<and> length m \<le> 1024 \<longrightarrow> snd (mq_timedsend os h m dl s) = 0)"

lemma mq_acceptsD:
  "mq_accepts os msgs \<Longrightarrow> length (msgs h s) < 16 \<Longrightarrow> length m \<le> 1024 \<Longrightarrow> snd (mq_timedsend os h m dl s) = 0"
  unfolding mq_accepts_def
  by (drule spec [of _ h], drule spec [of _ m], drule spec [of _ dl], drule spec [of _ s]) simp

text \<open>A segment that is ready to travel is one message.\<close>

lemma Queue_Send_seg:
  assumes "mq_works os msgs" "mq_accepts os msgs" "m_MsgQueue q = Some h" "wire_ok seg" "length (msgs h s) < 16"
  shows "\<exists>s'. Send_Buf (Queue_dev os q) (m_Buffer seg) (Buf_Size (m_Buffer seg)) t s = (s', int (SegLen seg)) \<and>
    msgs h s' = msgs h s @ [buf_data (m_Buffer seg)] \<and> (\<forall>g. g \<noteq> h \<longrightarrow> msgs g s' = msgs g s)"
proof -
  obtain m where m: "m_PtrBlock (m_Buffer seg) = Some m" "m_DataLen (m_Buffer seg) = SegLen seg" "24 \<le> SegLen seg"
    "SegLen seg \<le> 1024" "buf_ok (m_Buffer seg)" "Buf_Size (m_Buffer seg) = 1024" "buf_data (m_Buffer seg) = take (SegLen seg) m"
    "length m = 1024"
    using wire_okD [OF assms(4)] by metis
  obtain s' n where sb: "Send_Buf (Queue_dev os q) (m_Buffer seg) (Buf_Size (m_Buffer seg)) t s = (s', n)" by fastforce
  have tk: "take 1024 (buf_data (m_Buffer seg)) = buf_data (m_Buffer seg)" using m by simp
  have ac: "snd (mq_timedsend os h (buf_data (m_Buffer seg)) (abs_timeout t (os_clock os s)) s) = 0"
    by (rule mq_acceptsD [OF assms(2,5)]) (use m in simp)
  have mn: "min 1024 (SegLen seg) = SegLen seg" using m(4) by simp
  show ?thesis
    using Queue_Send_spec [OF assms(1,3) _ m(5) _ _ sb, unfolded m(2,6) tk mn] ac m(1,3) sb m(6) by auto
qed

lemma Queue_Recv_seg:
  assumes "mq_works os msgs" "mq_gives os msgs" "m_MsgQueue q = Some h" "wire_ok seg" "seg_ok seg0"
    "msgs h s = buf_data (m_Buffer seg) # rest"
  obtains s' seg1 where
    "Recv_Buf al (Queue_dev os q) (m_Buffer seg0) (Buf_Size (m_Buffer seg0)) t s = (s', m_Buffer seg1, int (SegLen seg))"
    "seg0\<lparr>m_Buffer := m_Buffer seg1\<rparr> = seg1" "msgs h s' = rest" "\<forall>g. g \<noteq> h \<longrightarrow> msgs g s' = msgs g s" "wire_ok seg1"
    "hdr seg1 = hdr seg" "buf_data (m_Buffer seg1) = buf_data (m_Buffer seg)"
proof -
  obtain m where m: "24 \<le> SegLen seg" "SegLen seg \<le> 1024" "buf_data (m_Buffer seg) = take (SegLen seg) m"
    "length m = 1024" "seg_mem seg = m"
    using wire_okD [OF assms(4)] by metis
  obtain m0 where m0: "m_PtrBlock (m_Buffer seg0) = Some m0" "length m0 = 1024"
    using assms(5) by (auto simp: seg_ok_def seg_MaxLen_def split: option.splits)
  then have l0: "0 < length m0" "length m0 < 2 ^ 31" by simp_all
  obtain s' b n where rc: "Recv_Buf al (Queue_dev os q) (m_Buffer seg0) (Buf_Size (m_Buffer seg0)) t s = (s', b, n)"
    by (metis prod_cases3)
  note sp = Queue_Recv_spec [OF assms(1,3) m0(1) l0 rc]
  have "length (buf_data (m_Buffer seg)) \<le> length m0" using m m0 by simp
  from mq_givesD [OF assms(2,6) this]
  have r: "msgs h s = buf_data b # msgs h s'" "\<forall>g. g \<noteq> h \<longrightarrow> msgs g s' = msgs g s" "buf_ok b" "Buf_Size b = 1024"
    "n = int (length (buf_data b))" using sp m0(2) by (auto simp: not_less)
  then have b: "buf_data b = take (SegLen seg) m" "msgs h s' = rest" using assms(6) m(3) by simp_all
  obtain bm where bm: "m_PtrBlock b = Some bm" "length bm = 1024" using r(4) by (auto simp: Buf_Size_def split: option.splits)
  define seg1 where "seg1 = seg0\<lparr>m_Buffer := b\<rparr>"
  have len: "length (buf_data b) = SegLen seg" using b(1) m by simp
  have dl: "m_DataLen b = SegLen seg" using len bm r(3,4) by (simp add: buf_data_def buf_ok_def)
  have "take (SegLen seg) bm = take (SegLen seg) m" using b(1) bm(1) dl by (simp add: buf_data_def)
  then have "take 24 (take (SegLen seg) bm) = take 24 (take (SegLen seg) m)" by simp
  then have "take 24 (seg_mem seg1) = take 24 (seg_mem seg)"
    using m(1,5) bm(1) by (simp add: seg1_def seg_mem_def min_absorb1)
  then have h: "hdr seg1 = hdr seg" by (rule hdr_of_prefix)
  then have "SegLen seg1 = SegLen seg" by (simp add: SegLen_def hdr_def)
  then have "wire_ok seg1" using bm dl m(2) by (simp add: wire_ok_def seg_ok_def seg1_def seg_MaxLen_def)
  then show thesis
    using that [of s' seg1] rc r(2,5) b h len m(3) by (simp add: seg1_def)
qed

text \<open>
  C4. A segment crosses the router: sent by a transport whose device is the router's queue, forwarded by
  one turn of the router's thread and received by the transport of the node that the destination
  address belongs to, it arrives with the same header and the same octets, and nothing else is
  left in, or has entered, any queue.
\<close>

theorem IpcNet_delivers:
  assumes "mq_works os msgs" "mq_gives os msgs" "mq_accepts os msgs" "wire_ok seg"
    and "SendDeviceGet (DstAddr seg) T = Some p" "tp_heap T p = Some (Queue_dev os qa)" "m_MsgQueue qa = Some h0"
    and "m_MsgQueue (m_RecvDevice R) = Some h0" "QueueFind (DstAddr seg) R = Some q" "m_MsgQueue q = Some h" "h \<noteq> h0"
    and "m_PtrRecvDevice U = Some r" "tp_heap U r = Some (Queue_dev os qb)" "m_MsgQueue qb = Some h"
    and "seg_ok rseg" "seg_ok useg" "msgs h0 s = []" "msgs h s = []"
  shows "\<exists>s1 s2 s3 rseg' seg'. Transport_Send (Some seg) t T s = Some (s1, True) \<and>
    RtrThread_turn al os R rseg s1 = (s2, rseg') \<and>
    Transport_Recv al (Some useg) u U s2 = Some (s3, Some seg', True) \<and>
    hdr seg' = hdr seg \<and> buf_data (m_Buffer seg') = buf_data (m_Buffer seg) \<and> (\<forall>g. msgs g s3 = msgs g s)"
proof -
  have len: "24 \<le> SegLen seg" "SegLen seg \<le> 1024" by (rule wire_okD [OF assms(4)]; simp)+
  obtain s1 where s1: "Send_Buf (Queue_dev os qa) (m_Buffer seg) (Buf_Size (m_Buffer seg)) t s = (s1, int (SegLen seg))"
    "msgs h0 s1 = [buf_data (m_Buffer seg)]" "\<forall>g. g \<noteq> h0 \<longrightarrow> msgs g s1 = msgs g s"
    using Queue_Send_seg [OF assms(1,3,7,4), of s t] assms(17) by auto
  have T: "Transport_Send (Some seg) t T s = Some (s1, True)"
    using assms(5,6) s1(1) by (simp add: Transport_Send_def tp_send_def)
  obtain s1' seg1 where rr: "Recv_Buf al (Queue_dev os (m_RecvDevice R)) (m_Buffer rseg) (Buf_Size (m_Buffer rseg)) k_ReceiveTimeout s1
      = (s1', m_Buffer seg1, int (SegLen seg))"
    "rseg\<lparr>m_Buffer := m_Buffer seg1\<rparr> = seg1" "msgs h0 s1' = []" "\<forall>g. g \<noteq> h0 \<longrightarrow> msgs g s1' = msgs g s1" "wire_ok seg1"
    "hdr seg1 = hdr seg" "buf_data (m_Buffer seg1) = buf_data (m_Buffer seg)"
    by (rule Queue_Recv_seg [OF assms(1,2,8,4,15), of s1 "[]"]) (use s1(2) in simp)
  have d1: "DstAddr seg1 = DstAddr seg" "SegLen seg1 = SegLen seg" using rr(6) by (simp_all add: hdr_def SegLen_def)
  have e1: "msgs h s1' = []" using rr(4) s1(3) assms(11,18) by simp
  obtain s2 where s2: "Send_Buf (Queue_dev os q) (m_Buffer seg1) (Buf_Size (m_Buffer seg1)) k_TransmitTimeout s1' = (s2, int (SegLen seg1))"
    "msgs h s2 = [buf_data (m_Buffer seg)]" "\<forall>g. g \<noteq> h \<longrightarrow> msgs g s2 = msgs g s1'"
    using Queue_Send_seg [OF assms(1,3,10) rr(5), of s1' k_TransmitTimeout] e1 rr(7) by auto
  have "Router_Recv al os R rseg k_ReceiveTimeout s1 = (s1', seg1, True)"
    using rr(1,2) len by (simp add: Router_Recv_def seg_Data_def)
  then have turn: "RtrThread_turn al os R rseg s1 = (s2, seg1)"
    using s2(1) assms(9) d1 by (simp add: RtrThread_turn_def Router_Send_def send_to_def)
  obtain s3 seg2 where r3: "Recv_Buf al (Queue_dev os qb) (m_Buffer useg) (Buf_Size (m_Buffer useg)) u s2 = (s3, m_Buffer seg2, int (SegLen seg))"
    "useg\<lparr>m_Buffer := m_Buffer seg2\<rparr> = seg2" "msgs h s3 = []" "\<forall>g. g \<noteq> h \<longrightarrow> msgs g s3 = msgs g s2"
    "hdr seg2 = hdr seg" "buf_data (m_Buffer seg2) = buf_data (m_Buffer seg)"
    by (rule Queue_Recv_seg [OF assms(1,2,14,4,16), of s2 "[]"]) (use s2(2) in simp)
  have "Transport_Recv al (Some useg) u U s2 = Some (s3, Some seg2, True)"
    using assms(12,13) r3(1,2) len by (simp add: Transport_Recv_def tp_accept_def seg_offsets)
  moreover have "msgs g s3 = msgs g s" for g
    using r3(3,4) s2(3) rr(3,4) s1(3) assms(17,18) by (cases "g = h"; cases "g = h0") auto
  ultimately show ?thesis using T turn r3(5,6) by blast
qed

text \<open>A network on the sample system: a router with one node at address 16, and both ends.\<close>

definition net_queue :: "string \<Rightarrow> string queue" where
  "net_queue n = snd (Queue_open (sample_mq False) n (\<lambda>_. []))"

definition net_router :: "string router" where
  "net_router = node_store ''n'' 16 (net_queue (dev_name 16)) empty_router"

definition net_transport :: "string \<Rightarrow> (string \<Rightarrow> octets list) transport" where
  "net_transport n =
     (IpcTransport_new [1 \<mapsto> Queue_dev (sample_mq False) (net_queue n)])\<lparr>m_PtrSendDevice := Some 1, m_PtrRecvDevice := Some 1\<rparr>"

definition net_seg :: "u32 \<Rightarrow> ipcsegment" where
  "net_seg a = DstAddr_set a blank_seg"

lemma net_simps:
  "m_MsgQueue (net_queue n) = Some (q_name n)" "m_MsgQueue (m_RecvDevice net_router) = Some (q_name ''00000000'')"
  "QueueFind 16 net_router = Some (net_queue (dev_name 16))" "SendDeviceGet a (net_transport n) = Some 1"
  "tp_heap (net_transport n) 1 = Some (Queue_dev (sample_mq False) (net_queue n))" "m_PtrRecvDevice (net_transport n) = Some 1"
  "m_NodeQueues net_router = [(16, net_queue (dev_name 16))]"
  by (simp_all add: net_queue_def net_router_def net_transport_def node_store_def empty_router_def QueueFind_def Queue_open_def
      Queue_new_def Let_def SendDeviceGet_def IpcTransport_new_def, simp_all add: sample_mq_def)

lemma net_seg_wire: "wire_ok (net_seg a)" "DstAddr (net_seg a) = a" "seg_ok blank_seg"
proof -
  show ok: "seg_ok blank_seg" using blank_wire by (simp add: wire_ok_def)
  have h: "seg_ok (net_seg a)" "hdr (net_seg a) = (hdr blank_seg)\<lparr>h_DstAddr := a\<rparr>"
    using Addr_set_sets(2) [OF ok, of a] by (simp_all add: seg_sets_def net_seg_def)
  show "DstAddr (net_seg a) = a" using h(2) by (simp add: hdr_def)
  have "m_DataLen (m_Buffer (net_seg a)) = m_DataLen (m_Buffer blank_seg)" by (simp add: net_seg_def DstAddr_set_def seg_poke_def)
  then show "wire_ok (net_seg a)" using h blank_wire by (simp add: wire_ok_def hdr_def SegLen_def)
qed

lemma net_names: "q_name (dev_name 16) \<noteq> q_name ''00000000''"
proof -
  have "dev_name 0 = ''00000000''" by code_simp
  then show ?thesis using dev_name_inj [of 16 0] by simp
qed

lemma sample_gives: "mq_gives (sample_mq False) sample_msgs"
  by (auto simp: mq_gives_def sample_mq_def split: list.splits)

lemma sample_accepts: "mq_accepts (sample_mq False) sample_msgs"
  by (auto simp: mq_accepts_def sample_mq_def sample_msgs_def min_def split: if_splits)

theorem IpcNet_delivers_witness:
  "\<exists>s1 s2 s3 rseg' seg'. Transport_Send (Some (net_seg 16)) 100 (net_transport ''00000000'') (\<lambda>_. []) = Some (s1, True) \<and>
    RtrThread_turn (\<lambda>_. None) (sample_mq False) net_router blank_seg s1 = (s2, rseg') \<and>
    Transport_Recv (\<lambda>_. None) (Some blank_seg) 100 (net_transport (dev_name 16)) s2 = Some (s3, Some seg', True) \<and>
    DstAddr seg' = 16"
proof -
  have e: "sample_msgs h (\<lambda>_. []) = []" for h by (simp add: sample_msgs_def)
  have q: "QueueFind (DstAddr (net_seg 16)) net_router = Some (net_queue (dev_name 16))" by (simp add: net_seg_wire net_simps)
  from IpcNet_delivers [where os = "sample_mq False" and msgs = sample_msgs and seg = "net_seg 16" and s = "\<lambda>_. []" and
      T = "net_transport ''00000000''" and U = "net_transport (dev_name 16)" and t = 100 and u = 100 and al = "\<lambda>_. None",
      OF sample_mq_works sample_gives sample_accepts net_seg_wire(1) net_simps(4,5,1,2) q
      net_simps(1) net_names net_simps(6,5,1) net_seg_wire(3,3) e e]
  obtain s1 s2 s3 rseg' seg' where
    r: "Transport_Send (Some (net_seg 16)) 100 (net_transport ''00000000'') (\<lambda>_. []) = Some (s1, True)"
    "RtrThread_turn (\<lambda>_. None) (sample_mq False) net_router blank_seg s1 = (s2, rseg')"
    "Transport_Recv (\<lambda>_. None) (Some blank_seg) 100 (net_transport (dev_name 16)) s2 = Some (s3, Some seg', True)"
    "hdr seg' = hdr (net_seg 16)" by blast
  have "DstAddr seg' = 16" using r(4) net_seg_wire(2) [of 16] by (simp add: hdr_def)
  then show ?thesis using r by blast
qed

lemma broadcast_each:
  assumes "mq_works os msgs" "mq_accepts os msgs" "wire_ok seg"
  shows "distinct (map m_MsgQueue qs) \<Longrightarrow> \<forall>q\<in>set qs. \<exists>h. m_MsgQueue q = Some h \<and> length (msgs h s) < 16 \<Longrightarrow>
    \<forall>h. msgs h (foldl (\<lambda>s q. fst (send_to os seg t q s)) s qs) =
      (if Some h \<in> set (map m_MsgQueue qs) then msgs h s @ [buf_data (m_Buffer seg)] else msgs h s)"
proof (induction qs arbitrary: s)
  case (Cons q qs)
  obtain h0 where h0: "m_MsgQueue q = Some h0" "length (msgs h0 s) < 16" using Cons(3) by auto
  obtain s1 where s1: "send_to os seg t q s = (s1, int (SegLen seg))" "msgs h0 s1 = msgs h0 s @ [buf_data (m_Buffer seg)]"
    "\<forall>g. g \<noteq> h0 \<longrightarrow> msgs g s1 = msgs g s"
    using Queue_Send_seg [OF assms(1,2) h0(1) assms(3) h0(2), of t] by (auto simp: send_to_def)
  have "\<exists>h. m_MsgQueue r = Some h \<and> length (msgs h s1) < 16" if r: "r \<in> set qs" for r
  proof -
    obtain h where h: "m_MsgQueue r = Some h" "length (msgs h s) < 16" using Cons(3) r by (meson list.set_intros(2))
    then have "h \<noteq> h0" using Cons(2) r h0(1) by (metis distinct.simps(2) image_eqI list.set_map list.simps(9))
    then show ?thesis using h s1(3) by auto
  qed
  then have "\<forall>h. msgs h (foldl (\<lambda>s q. fst (send_to os seg t q s)) s1 qs) =
      (if Some h \<in> set (map m_MsgQueue qs) then msgs h s1 @ [buf_data (m_Buffer seg)] else msgs h s1)"
    using Cons(1,2) by simp
  moreover have "Some h0 \<notin> set (map m_MsgQueue qs)" using Cons(2) h0(1) by simp
  ultimately show ?case using s1 h0(1) by auto
qed simp

text \<open>
  A broadcast reaches every node: each registered queue that has room gets the message once, behind
  what it holds, and no other queue of the system changes.
\<close>

theorem IpcRouter_broadcast:
  assumes "mq_works os msgs" "mq_accepts os msgs" "wire_ok seg" "DstAddr seg = 0xffffffff" "QueueFind 0xffffffff R = None"
    and "distinct (map (m_MsgQueue \<circ> snd) (m_NodeQueues R))"
    and "\<forall>e\<in>set (m_NodeQueues R). \<exists>h. m_MsgQueue (snd e) = Some h \<and> length (msgs h s) < 16"
  shows "\<exists>s'. Router_Send os seg t R s = (s', True) \<and>
    (\<forall>h. msgs h s' = (if \<exists>e\<in>set (m_NodeQueues R). m_MsgQueue (snd e) = Some h
                       then msgs h s @ [buf_data (m_Buffer seg)] else msgs h s))"
proof -
  let ?qs = "rev (map snd (m_NodeQueues R))"
  have "map m_MsgQueue ?qs = rev (map (m_MsgQueue \<circ> snd) (m_NodeQueues R))" by (simp add: rev_map)
  then have "distinct (map m_MsgQueue ?qs)" using assms(6) by (simp only: distinct_rev)
  moreover have "\<forall>q\<in>set ?qs. \<exists>h. m_MsgQueue q = Some h \<and> length (msgs h s) < 16" using assms(7) by auto
  ultimately have "\<forall>h. msgs h (foldl (\<lambda>s q. fst (send_to os seg t q s)) s ?qs) =
      (if Some h \<in> set (map m_MsgQueue ?qs) then msgs h s @ [buf_data (m_Buffer seg)] else msgs h s)"
    using broadcast_each [OF assms(1-3)] by blast
  moreover have "Some h \<in> set (map m_MsgQueue ?qs) \<longleftrightarrow> (\<exists>e\<in>set (m_NodeQueues R). m_MsgQueue (snd e) = Some h)" for h
    by force
  ultimately show ?thesis using assms(4,5) by (simp add: Router_Send_def)
qed

theorem IpcRouter_broadcast_witness:
  "\<exists>s'. Router_Send (sample_mq False) (net_seg 0xffffffff) 100 net_router (\<lambda>_. []) = (s', True) \<and>
    sample_msgs (q_name (dev_name 16)) s' = [buf_data (m_Buffer (net_seg 0xffffffff))]"
proof -
  have d: "DstAddr (net_seg 0xffffffff) = 0xffffffff" by (rule net_seg_wire(2))
  have q: "QueueFind 0xffffffff net_router = None" by (simp add: QueueFind_def net_simps)
  have r: "\<forall>e\<in>set (m_NodeQueues net_router). \<exists>h. m_MsgQueue (snd e) = Some h \<and> length (sample_msgs h (\<lambda>_. [])) < 16"
    by (simp add: net_simps sample_msgs_def)
  have m: "distinct (map (m_MsgQueue \<circ> snd) (m_NodeQueues net_router))" by (simp add: net_simps)
  have e: "sample_msgs h (\<lambda>_. []) = []" for h by (simp add: sample_msgs_def)
  show ?thesis
    using IpcRouter_broadcast [where t = 100 and os = "sample_mq False" and msgs = sample_msgs and seg = "net_seg 0xffffffff" and
      s = "\<lambda>_. []", OF sample_mq_works sample_accepts net_seg_wire(1) d q m r]
    by (auto simp: net_simps e)
qed

end
