(* ===== verification/FloatText.thy ===== *)
theory FloatText
  imports StrUtil
begin

text \<open>
  Floating point numbers as texts: what the C library makes of a \<open>double\<close> with a fixed number of
  places, and what \<open>strtod\<close> reads, as the functions of \<open>cpUtil\<close> and of the text serializers use them.
  A \<open>float\<close> or \<open>double\<close> is the word of its IEEE 754 image; a finite one is a fraction of natural
  numbers with a sign. Results are rounded to the nearest, halves to even.
\<close>

section \<open>Fractions and images\<close>

text \<open>The sign, the numerator and the denominator of an image with \<open>p\<close> fraction and \<open>k\<close> exponent bits.\<close>

definition ieee_fields :: "nat \<Rightarrow> nat \<Rightarrow> nat \<Rightarrow> bool \<times> nat \<times> nat" where
  "ieee_fields p k bits = (bits div 2 ^ (p + k) mod 2 = 1, bits div 2 ^ p mod 2 ^ k, bits mod 2 ^ p)"

definition ieee_value :: "nat \<Rightarrow> nat \<Rightarrow> nat \<Rightarrow> nat \<Rightarrow> nat \<times> nat" where
  "ieee_value p k e f =
     (let m = (if e = 0 then f else 2 ^ p + f);
          e1 = (if e = 0 then 1 else e);
          z = 2 ^ (k - 1) - 1 + p
      in if e1 \<ge> z then (m * 2 ^ (e1 - z), 1) else (m, 2 ^ (z - e1)))"

definition round_half_even :: "nat \<Rightarrow> nat \<Rightarrow> nat" where
  "round_half_even a b =
     (let q = a div b; r = a mod b
      in if 2 * r < b \<or> (2 * r = b \<and> even q) then q else q + 1)"

fun nbits :: "nat \<Rightarrow> nat" where
  "nbits n = (if n = 0 then 0 else Suc (nbits (n div 2)))"

declare nbits.simps [simp del]

text \<open>The exponent of a positive fraction: the largest power of two not above it.\<close>

definition frac_log2 :: "nat \<Rightarrow> nat \<Rightarrow> int" where
  "frac_log2 a b =
     (let e = int (nbits a) - int (nbits b)
      in if (if e \<ge> 0 then b * 2 ^ nat e \<le> a else b \<le> a * 2 ^ nat (- e)) then e else e - 1)"

text \<open>
  The image of a fraction, sign apart. The last place counts \<open>2 ^ s\<close>; a carry out of the fraction
  runs into the exponent, and the image of infinity is the first one that is too large.
\<close>

definition ieee_of_frac :: "nat \<Rightarrow> nat \<Rightarrow> nat \<Rightarrow> nat \<Rightarrow> nat" where
  "ieee_of_frac p k a b =
     (if a = 0 then 0
      else
        let lo = 2 - 2 ^ (k - 1);
            x = max (frac_log2 a b) lo;
            s = x - int p;
            q = (if s \<ge> 0 then round_half_even a (b * 2 ^ nat s) else round_half_even (a * 2 ^ nat (- s)) b);
            bits = nat (x - lo) * 2 ^ p + q
        in min bits ((2 ^ k - 1) * 2 ^ p))"

text \<open>A \<open>double\<close> converted to \<open>float\<close>, and a \<open>float\<close> to \<open>double\<close>.\<close>

definition signed_image :: "nat \<Rightarrow> nat \<Rightarrow> bool \<Rightarrow> nat \<Rightarrow> nat" where
  "signed_image p k neg bits = (if neg then 2 ^ (p + k) else 0) + bits"

definition ieee_convert :: "nat \<Rightarrow> nat \<Rightarrow> nat \<Rightarrow> nat \<Rightarrow> nat \<Rightarrow> nat" where
  "ieee_convert p k p' k' bits =
     (case ieee_fields p k bits of (neg, e, f) \<Rightarrow>
        signed_image p' k' neg
          (if e = 2 ^ k - 1 then (2 ^ k' - 1) * 2 ^ p' + (if f = 0 then 0 else 2 ^ (p' - 1))
           else (case ieee_value p k e f of (a, b) \<Rightarrow> ieee_of_frac p' k' a b)))"

definition double_of_float :: "u32 \<Rightarrow> u64" where "double_of_float b = of_nat (ieee_convert 23 8 52 11 (unat b))"

definition float_of_double :: "u64 \<Rightarrow> u32" where "float_of_double b = of_nat (ieee_convert 52 11 23 8 (unat b))"

section \<open>Writing\<close>

text \<open>The text of a \<open>double\<close> with \<open>n\<close> places after the point, of one at least.\<close>

definition fixed_text :: "nat \<Rightarrow> u64 \<Rightarrow> string" where
  "fixed_text n bits =
     (case ieee_fields 52 11 (unat bits) of (neg, e, f) \<Rightarrow>
        (if neg then ''-'' else []) @
        (if e = 2047 then if f = 0 then ''inf'' else ''nan''
         else (case ieee_value 52 11 e f of (a, b) \<Rightarrow>
           let q = round_half_even (a * 10 ^ n) b; fr = dec (q mod 10 ^ n)
           in dec (q div 10 ^ n) @ ''.'' @ replicate (n - length fr) CHR ''0'' @ fr)))"

text \<open>The buffer has 32 octets, one for the terminator.\<close>

definition FloatToStr :: "u64 \<Rightarrow> string" where
  "FloatToStr Val = take 31 (fixed_text 6 Val)"

section \<open>Reading\<close>

definition lower_char :: "char \<Rightarrow> char" where
  "lower_char c = (let n = of_char c :: nat in if 65 \<le> n \<and> n \<le> 90 then char_of (n + 32) else c)"

definition starts_nocase :: "string \<Rightarrow> string \<Rightarrow> bool" where
  "starts_nocase w s \<longleftrightarrow> map lower_char (take (length w) s) = w"

definition digits_val :: "string \<Rightarrow> nat" where
  "digits_val s = foldl (\<lambda>a c. 10 * a + digit_val c) 0 s"

text \<open>
  The exponent after a mantissa, if there is one: a sign and digits after \<open>e\<close>. The mantissa is
  digits with at most one point and at least one digit; what follows it is not read. No result
  stands for a text that is no number. Hexadecimal mantissas, which the library also takes and no
  serializer writes, are not modelled: they end at their \<open>x\<close>.
\<close>

definition scan_exp :: "string \<Rightarrow> int" where
  "scan_exp s =
     (if s \<noteq> [] \<and> lower_char (hd s) = CHR ''e'' then
        let t = tl s;
            neg = (t \<noteq> [] \<and> hd t = CHR ''-'');
            t1 = (if t \<noteq> [] \<and> (hd t = CHR ''-'' \<or> hd t = CHR ''+'') then tl t else t);
            v = int (digits_val (takeWhile is_digit t1))
        in if neg then - v else v
      else 0)"

definition strtod_mag :: "string \<Rightarrow> nat option" where
  "strtod_mag s =
     (let ip = takeWhile is_digit s; r = dropWhile is_digit s;
          fp = (if r \<noteq> [] \<and> hd r = CHR ''.'' then takeWhile is_digit (tl r) else []);
          r1 = (if r \<noteq> [] \<and> hd r = CHR ''.'' then dropWhile is_digit (tl r) else r);
          m = digits_val (ip @ fp);
          x = scan_exp r1 - int (length fp)
      in if starts_nocase ''inf'' s then Some (2047 * 2 ^ 52)
         else if starts_nocase ''nan'' s then Some (2047 * 2 ^ 52 + 2 ^ 51)
         else if ip @ fp = [] then None
         else Some (if x \<ge> 0 then ieee_of_frac 52 11 (m * 10 ^ nat x) 1 else ieee_of_frac 52 11 m (10 ^ nat (- x))))"

definition StrToFloat :: "string \<Rightarrow> u64" where
  "StrToFloat Str =
     (let s = dropWhile is_space Str;
          neg = (s \<noteq> [] \<and> hd s = CHR ''-'');
          s1 = (if s \<noteq> [] \<and> (hd s = CHR ''-'' \<or> hd s = CHR ''+'') then tl s else s)
      in case strtod_mag s1 of Some m \<Rightarrow> of_nat (signed_image 52 11 neg m) | None \<Rightarrow> 0)"

end
