(* ===== verification/SerDesIdl.thy ===== *)
theory SerDesIdl
  imports SerDesNative FloatText HexIo
begin

text \<open>
  \<open>cpSerDesIdl\<close>: the text encoding of data, one line for each attribute and for each begin and end.
  The serializer keeps, beside its stream, whether it stands at the start of a line and how deep the
  data are nested; both outlive an encoding. The map from tags to attributes is ordered by the
  addresses of the tags, which the compiler chooses: \<open>ord\<close> is that order. No result stands for a read
  through a NULL pointer or past the end of a text.
\<close>

definition tag_Begin :: string where "tag_Begin = ''Begin: ''"
definition tag_End :: string where "tag_End = ''End''"
definition tag_Hdr :: string where "tag_Hdr = ''// DATUM IDL''"
definition tag_Pkg :: string where "tag_Pkg = ''Package ''"
definition tag_Ver :: string where "tag_Ver = ''Version: ''"
definition tag_Dat :: string where "tag_Dat = ''Datum ''"
definition tag_Comment :: string where "tag_Comment = ''//''"
definition tag_CommentEnd :: string where "tag_CommentEnd = []"
definition tag_LineEnd :: string where "tag_LineEnd = [CHR 0x0A]"
definition tag_Crc32 :: string where "tag_Crc32 = '' CRC32:''"
definition tag_Md5Sum :: string where "tag_Md5Sum = '' MD5SUM:''"
definition tag_Sha1Sum :: string where "tag_Sha1Sum = '' SHA1SUM:''"

text \<open>The tags of the attributes, without an entry for \<open>attr_None\<close>: the map makes one, a NULL pointer.\<close>

fun idl_tag :: "attrib \<Rightarrow> string option" where
  "idl_tag attr_Name = Some ''Name: ''" | "idl_tag attr_Val = Some ''Value: ''" | "idl_tag attr_Min = Some ''MinVal: ''"
| "idl_tag attr_Max = Some ''MaxVal: ''" | "idl_tag attr_Def = Some ''Default: ''" | "idl_tag attr_Units = Some ''Units: ''"
| "idl_tag attr_Info = Some ''Info: ''" | "idl_tag attr_Choices = Some ''Choices: ''" | "idl_tag attr_None = None"

definition idl_attribs :: "attrib list" where
  "idl_attribs = [attr_Name, attr_Val, attr_Min, attr_Max, attr_Def, attr_Units, attr_Info, attr_Choices]"

definition g_DataTypeNames :: "string list" where
  "g_DataTypeNames = [''Inert'', ''None'', ''Uint8'', ''Int8'', ''Uint16'', ''Int16'', ''Uint32'', ''Int32'',
     ''Uint64'', ''Int64'', ''Float32'', ''Float64'', ''Bool'', ''String'', ''BLOB'', ''DatumList'']"

definition type_name :: "dtype \<Rightarrow> string" where
  "type_name t = g_DataTypeNames ! unat (dtype_code t)"

section \<open>Encoding\<close>

record 's textworld =
  tw_Stream :: "'s stream"
  tw_Ptr :: bool
  m_NewLine :: bool
  m_IndentLevel :: nat

definition m_IndentSize :: nat where "m_IndentSize = 4"

definition tw_write :: "'s vtable \<Rightarrow> string \<Rightarrow> 's textworld act" where
  "tw_write vt Str w =
     map_option (\<lambda>(s1, n). (w\<lparr>tw_Stream := s1\<rparr>, n = length Str)) (ArrayWr vt (tw_Stream w) (Some (to_octets Str)))"

text \<open>\<open>GenStr\<close> makes at most 65535 blanks and a terminator; more would be read past its end.\<close>

definition tw_indent :: "'s vtable \<Rightarrow> 's textworld act" where
  "tw_indent vt w =
     (let indent = m_IndentSize * m_IndentLevel w; blanks = GenStr indent CHR '' ''
      in if indent \<le> length blanks + 1 then tw_write vt (take indent (blanks @ [CHR 0x00])) w else None)"

definition idl_StringInsert :: "'s vtable \<Rightarrow> string \<Rightarrow> 's textworld act" where
  "idl_StringInsert vt Str w =
     (if \<not> tw_Ptr w then Some (w\<lparr>m_NewLine := False\<rparr>, False)
      else ins_then (\<lambda>w. if m_NewLine w then map_option (\<lambda>(w1, rv). (w1\<lparr>m_NewLine := False\<rparr>, rv)) (tw_indent vt w) else Some (w, True))
             (tw_write vt Str) w)"

definition idl_NewLineInsert :: "'s vtable \<Rightarrow> 's textworld act" where
  "idl_NewLineInsert vt w = map_option (\<lambda>(w1, rv). (w1\<lparr>m_NewLine := rv\<rparr>, rv)) (idl_StringInsert vt tag_LineEnd w)"

definition idl_UnsignedLongInsert :: "'s vtable \<Rightarrow> u32 \<Rightarrow> 's textworld act" where
  "idl_UnsignedLongInsert vt Val = idl_StringInsert vt (dec (unat Val))"

definition idl_SignedLongInsert :: "'s vtable \<Rightarrow> u32 \<Rightarrow> 's textworld act" where
  "idl_SignedLongInsert vt Val = idl_StringInsert vt (dec_int (sint Val))"

definition idl_UnsignedLongLongInsert :: "'s vtable \<Rightarrow> u64 \<Rightarrow> 's textworld act" where
  "idl_UnsignedLongLongInsert vt Val = idl_StringInsert vt (dec (unat Val))"

definition idl_SignedLongLongInsert :: "'s vtable \<Rightarrow> u64 \<Rightarrow> 's textworld act" where
  "idl_SignedLongLongInsert vt Val = idl_StringInsert vt (dec_int (sint Val))"

definition k_FloatDigits :: nat where "k_FloatDigits = 7"
definition k_DoubleDigits :: nat where "k_DoubleDigits = 16"

definition idl_Float32Insert :: "'s vtable \<Rightarrow> u32 \<Rightarrow> 's textworld act" where
  "idl_Float32Insert vt Val = idl_StringInsert vt (fixed_text k_FloatDigits (double_of_float Val))"

definition idl_Float64Insert :: "'s vtable \<Rightarrow> u64 \<Rightarrow> 's textworld act" where
  "idl_Float64Insert vt Val = idl_StringInsert vt (fixed_text k_DoubleDigits Val)"

text \<open>Each octet overwrites the three characters of the one before in the string stream.\<close>

definition idl_BlobInsert :: "'s vtable \<Rightarrow> buffer \<Rightarrow> 's textworld act" where
  "idl_BlobInsert vt Buf = ins_list (map (\<lambda>b. idl_StringInsert vt (hex2 b @ '' '')) (buf_data Buf))"

definition idl_OpenTagInsert :: "'s vtable \<Rightarrow> string \<Rightarrow> bool \<Rightarrow> 's textworld act" where
  "idl_OpenTagInsert vt TagName Attribute w =
     map_option (\<lambda>(w1, rv). (w1\<lparr>m_IndentLevel := m_IndentLevel w1 + 1\<rparr>, rv))
       (ins_list ([idl_StringInsert vt TagName, idl_StringInsert vt tag_Begin] @ (if Attribute then [] else [idl_NewLineInsert vt])) w)"

definition idl_CloseTagInsert :: "'s vtable \<Rightarrow> string \<Rightarrow> 's textworld act" where
  "idl_CloseTagInsert vt TagName w =
     ins_list [idl_StringInsert vt TagName, idl_StringInsert vt tag_End] (w\<lparr>m_IndentLevel := m_IndentLevel w - 1\<rparr>)"

definition idl_AttribInsert :: "'s vtable \<Rightarrow> string \<Rightarrow> string \<Rightarrow> bool \<Rightarrow> 's textworld act" where
  "idl_AttribInsert vt AttrName Value Final =
     ins_list ([idl_StringInsert vt AttrName, idl_StringInsert vt Value] @ (if Final then [idl_NewLineInsert vt] else []))"

definition idl_value_insert :: "venv \<Rightarrow> 's vtable \<Rightarrow> variant \<Rightarrow> 's textworld act" where
  "idl_value_insert E vt v =
     (case v_Type v of
        dt_uint8 \<Rightarrow> with_value (Uint8Get E v) (\<lambda>x. idl_UnsignedLongInsert vt (ucast x))
      | dt_int8 \<Rightarrow> with_value (Int8Get E v) (\<lambda>x. idl_SignedLongInsert vt (scast x))
      | dt_uint16 \<Rightarrow> with_value (Uint16Get E v) (\<lambda>x. idl_UnsignedLongInsert vt (ucast x))
      | dt_int16 \<Rightarrow> with_value (Int16Get E v) (\<lambda>x. idl_SignedLongInsert vt (scast x))
      | dt_uint32 \<Rightarrow> with_value (Uint32Get E v) (idl_UnsignedLongInsert vt)
      | dt_int32 \<Rightarrow> with_value (Int32Get E v) (idl_SignedLongInsert vt)
      | dt_uint64 \<Rightarrow> with_value (Uint64Get E v) (idl_UnsignedLongLongInsert vt)
      | dt_int64 \<Rightarrow> with_value (Int64Get E v) (idl_SignedLongLongInsert vt)
      | dt_float32 \<Rightarrow> with_value (Float32Get_same E v) (idl_Float32Insert vt)
      | dt_float64 \<Rightarrow> with_value (Float64Get_same E v) (idl_Float64Insert vt)
      | dt_bool \<Rightarrow> with_value (BoolGet E v) (\<lambda>b. idl_StringInsert vt (if b then ''true'' else ''false''))
      | dt_string \<Rightarrow> with_value (StrGet E v) (idl_StringInsert vt)
      | dt_blob \<Rightarrow> idl_BlobInsert vt (v_Buf v)
      | dt_none \<Rightarrow> (\<lambda>w. Some (w, True))
      | _ \<Rightarrow> (\<lambda>w. Some (w, False)))"

definition idl_attrib_insert :: "venv \<Rightarrow> 's vtable \<Rightarrow> attrib \<times> variant \<Rightarrow> 's textworld act" where
  "idl_attrib_insert E vt av =
     ins_list [with_value (idl_tag (fst av)) (idl_StringInsert vt), idl_value_insert E vt (snd av), idl_NewLineInsert vt]"

definition idl_Start :: "venv \<Rightarrow> 's vtable \<Rightarrow> datum \<Rightarrow> 's textworld act" where
  "idl_Start E vt Dat =
     ins_list ([idl_OpenTagInsert vt tag_Dat True, idl_StringInsert vt (type_name (v_Type (Attr E attr_Val Dat))), idl_NewLineInsert vt] @
       map (idl_attrib_insert E vt) (attrib_list Dat))"

definition idl_End :: "'s vtable \<Rightarrow> datum \<Rightarrow> 's textworld act" where
  "idl_End vt Dat = ins_list [idl_CloseTagInsert vt tag_Dat, idl_NewLineInsert vt]"

text \<open>\<open>Clear\<close> of the base class leaves the new line flag and the level as they are.\<close>

definition idl_Open :: "'s vtable \<Rightarrow> u8 \<Rightarrow> 's textworld act" where
  "idl_Open vt Ver w =
     ins_list [idl_StringInsert vt tag_Hdr, idl_NewLineInsert vt, idl_OpenTagInsert vt tag_Pkg True,
         idl_AttribInsert vt tag_Ver (dec (unat Ver)) True]
       (w\<lparr>tw_Ptr := True, tw_Stream := Stream_Clear vt (tw_Stream w)\<rparr>)"

definition crc_text :: "u32 \<Rightarrow> string" where
  "crc_text c = set_width 8 (hexs (unat c))"

definition idl_crc_insert :: "'s vtable \<Rightarrow> nat \<Rightarrow> 's textworld act" where
  "idl_crc_insert vt pos w = idl_StringInsert vt (crc_text (Stream_Crc32Get pos vt (tw_Stream w) pos)) w"

definition idl_Close :: "'s vtable \<Rightarrow> cksum \<Rightarrow> 's textworld act" where
  "idl_Close vt ChkMode w = do {
     (w1, rv) \<leftarrow> (if tw_Ptr w then ins_list [idl_CloseTagInsert vt tag_Pkg, idl_NewLineInsert vt] w else Some (w, False));
     if \<not> tw_Ptr w then None
     else do {
       let pos = Pos vt (tw_Stream w1);
       (w2, rv2) \<leftarrow> (if ChkMode \<noteq> ck_None \<and> rv then
           ins_list ([idl_StringInsert vt tag_Comment] @
             (case ChkMode of
                ck_Crc32 \<Rightarrow> [idl_StringInsert vt tag_Crc32, idl_crc_insert vt pos]
              | ck_Md5Sum \<Rightarrow> [idl_StringInsert vt tag_Md5Sum]
              | ck_Sha1Sum \<Rightarrow> [idl_StringInsert vt tag_Sha1Sum]
              | ck_None \<Rightarrow> []) @
             [idl_StringInsert vt tag_CommentEnd, idl_NewLineInsert vt]) w1
         else Some (w1, rv));
       Some (w2\<lparr>tw_Ptr := False\<rparr>, rv2)
     }
   }"

section \<open>Lines and tags\<close>

definition LineGet :: "'s vtable \<Rightarrow> 's stream \<Rightarrow> ('s stream \<times> string \<times> bool) option" where
  "LineGet vt s = map_option (\<lambda>(s1, Line, rv). (s1, of_octets Line, rv)) (ReadLine vt s 10 True)"

definition idl_TagTrim :: "string \<Rightarrow> string \<Rightarrow> string \<times> bool" where
  "idl_TagTrim Line TagName =
     (let Line1 = Ltrim Line; tag = Ltrim TagName; len = length tag;
          str = (if len \<le> length Line1 then take len Line1 else [])
      in if str = tag then (drop len Line1, True) else (Line1, False))"

definition idl_TagValGet :: "string \<Rightarrow> string \<Rightarrow> string \<times> string \<times> bool" where
  "idl_TagValGet Line TagName =
     (case idl_TagTrim Line TagName of (Line1, rv) \<Rightarrow> (Line1, if rv then Line1 else [], rv))"

definition idl_TagParse :: "string \<Rightarrow> (string \<times> string) option" where
  "idl_TagParse Line =
     (let local = Ltrim Line
      in map_option (\<lambda>colpos. (take (colpos + 2) local, drop (colpos + 2) local)) (str_find local '': ''))"

text \<open>
  The search for a type name runs over the array's end when the name is unknown: it compares with the
  NULL pointer there. So does \<open>TypeParse\<close> of the base class.
\<close>

fun find_type :: "string \<Rightarrow> string list \<Rightarrow> dtype list \<Rightarrow> dtype option" where
  "find_type Line (n # ns) (t # ts) = (if Line = n then Some t else find_type Line ns ts)"
| "find_type Line _ _ = None"

definition idl_DataTypeGet :: "string \<Rightarrow> dtype option" where
  "idl_DataTypeGet Line = find_type Line g_DataTypeNames all_dtypes"

definition TypeParse :: "string \<Rightarrow> dtype option" where
  "TypeParse Type = find_type Type g_DataTypeNames all_dtypes"

definition idl_VariantExtract :: "venv \<Rightarrow> dtype \<Rightarrow> string \<Rightarrow> variant \<Rightarrow> variant \<times> bool" where
  "idl_VariantExtract E Type Value Var =
     (case Type of
        dt_int8 \<Rightarrow> (Int8Set E (ucast (StrToInt Value)) Var, True)
      | dt_uint8 \<Rightarrow> (Uint8Set E (ucast (StrToUint Value)) Var, True)
      | dt_int16 \<Rightarrow> (Int16Set E (ucast (StrToInt Value)) Var, True)
      | dt_uint16 \<Rightarrow> (Uint16Set E (ucast (StrToUint Value)) Var, True)
      | dt_int32 \<Rightarrow> (Int32Set E (StrToInt Value) Var, True)
      | dt_uint32 \<Rightarrow> (Uint32Set E (StrToUint Value) Var, True)
      | dt_int64 \<Rightarrow> (Int64Set E (scast (StrToInt Value)) Var, True)
      | dt_uint64 \<Rightarrow> (Uint64Set E (ucast (StrToUint Value)) Var, True)
      | dt_float32 \<Rightarrow> (Float32Set E (float_of_double (StrToFloat Value)) Var, True)
      | dt_float64 \<Rightarrow> (Float64Set E (StrToFloat Value) Var, True)
      | dt_bool \<Rightarrow> (BoolSet E (StrToBool Value) Var, True)
      | dt_string \<Rightarrow> (StrSet E Value Var, True)
      | dt_blob \<Rightarrow> (BufSet E (fst (HexDecode (e_al E) Value Buf_null)) Var, True)
      | dt_none \<Rightarrow> (Var, True)
      | _ \<Rightarrow> (Var, False))"

section \<open>Decoding\<close>

partial_function (option) idl_ident_loop :: "'s vtable \<Rightarrow> 's stream \<Rightarrow> ('s stream \<times> bool) option" where
  "idl_ident_loop vt s =
     (case LineGet vt s of
        None \<Rightarrow> None
      | Some (s1, line, got) \<Rightarrow>
          if \<not> got then Some (s1, False) else if snd (idl_TagTrim line tag_Hdr) then Some (s1, True) else idl_ident_loop vt s1)"

definition idl_DecodeIdent :: "'s vtable \<Rightarrow> 's decoding" where
  "idl_DecodeIdent vt w = map_option (\<lambda>(s1, rv). (w\<lparr>dw_stream := s1\<rparr>, rv)) (idl_ident_loop vt (dw_stream w))"

definition idl_version_line :: "string \<Rightarrow> bool" where
  "idl_version_line line =
     (case idl_TagTrim line tag_Pkg of
        (line1, True) \<Rightarrow>
          (case idl_TagTrim line1 tag_Begin of
             (line2, True) \<Rightarrow> (case idl_TagValGet line2 tag_Ver of (_, _, rv) \<Rightarrow> rv)
           | (_, False) \<Rightarrow> False)
      | (_, False) \<Rightarrow> False)"

partial_function (option) idl_version_loop :: "'s vtable \<Rightarrow> 's stream \<Rightarrow> ('s stream \<times> bool) option" where
  "idl_version_loop vt s =
     (case LineGet vt s of
        None \<Rightarrow> None
      | Some (s1, line, got) \<Rightarrow>
          if \<not> got then Some (s1, False) else if idl_version_line line then Some (s1, True) else idl_version_loop vt s1)"

definition idl_DecodeVersion :: "'s vtable \<Rightarrow> 's decoding" where
  "idl_DecodeVersion vt w = map_option (\<lambda>(s1, rv). (w\<lparr>dw_stream := s1\<rparr>, rv)) (idl_version_loop vt (dw_stream w))"

text \<open>
  The state of the loop of \<open>DecodeElement\<close> beside the stream: whether the root datum is still to come, the type
  of the values, the datum and its stack. The current datum is the front of the stack throughout.
\<close>

record elemstate =
  es_rootDatum :: bool
  es_type :: dtype
  es_root :: datum
  es_stack :: "nat list list"

text \<open>The begin and the end of a datum: the rest of the line, the state and the result.\<close>

definition idl_datum_line :: "venv \<Rightarrow> string \<Rightarrow> elemstate \<Rightarrow> (string \<times> elemstate \<times> bool) option" where
  "idl_datum_line E line es =
     (case idl_TagTrim line tag_Dat of
        (line1, False) \<Rightarrow> Some (line1, es, False)
      | (line1, True) \<Rightarrow>
          (case idl_TagTrim line1 tag_Begin of
             (line2, True) \<Rightarrow> do {
               type \<leftarrow> idl_DataTypeGet line2;
               if es_rootDatum es then Some (line2, es\<lparr>es_type := type, es_rootDatum := False\<rparr>, True)
               else do {
                 (root1, p1) \<leftarrow> open_datum E (hd (es_stack es)) (es_root es);
                 Some (line2, es\<lparr>es_type := type, es_root := root1, es_stack := p1 # es_stack es\<rparr>, True)
               }
             }
           | (line2, False) \<Rightarrow>
               (case idl_TagTrim line2 tag_End of
                  (line3, True) \<Rightarrow>
                    Some (line3, es\<lparr>es_stack := (if length (es_stack es) > 1 then tl (es_stack es) else es_stack es)\<rparr>, True)
                | (line3, False) \<Rightarrow> Some (line3, es, False))))"

text \<open>The attributes, in the order of the map, until one is taken. A value that cannot be read is set none the less.\<close>

definition idl_attrib_type :: "attrib \<Rightarrow> dtype \<Rightarrow> dtype" where
  "idl_attrib_type a type = (if a \<in> {attr_Name, attr_Units, attr_Info, attr_Choices} then dt_string else type)"

fun idl_attrib_loop :: "venv \<Rightarrow> attrib list \<Rightarrow> string \<Rightarrow> elemstate \<Rightarrow> string \<times> elemstate \<times> bool" where
  "idl_attrib_loop E [] line es = (line, es, False)"
| "idl_attrib_loop E (a # as) line es =
     (case idl_TagValGet line (case idl_tag a of Some t \<Rightarrow> t | None \<Rightarrow> []) of
        (line1, _, False) \<Rightarrow> idl_attrib_loop E as line1 es
      | (line1, val, True) \<Rightarrow>
          (case idl_VariantExtract E (idl_attrib_type a (es_type es)) val (Variant_new E False) of
             (var, rv) \<Rightarrow>
               let es1 = es\<lparr>es_root := datum_upd (hd (es_stack es)) (AttrSet E a var) (es_root es)\<rparr>
               in if rv then (line1, es1, True) else idl_attrib_loop E as line1 es1))"

text \<open>The rest of a line that is neither: the end of the package, with the exit flag, or a comment.\<close>

definition idl_other_line :: "string \<Rightarrow> bool \<times> bool" where
  "idl_other_line line =
     (case idl_TagTrim line tag_Pkg of
        (line1, True) \<Rightarrow>
          (case idl_TagTrim line1 tag_End of
             (_, True) \<Rightarrow> (True, True)
           | (line2, False) \<Rightarrow> (snd (idl_TagTrim line2 tag_Comment), False))
      | (line1, False) \<Rightarrow> (snd (idl_TagTrim line1 tag_Comment), False))"

text \<open>One line: the state, the result and the exit flag.\<close>

definition idl_line :: "venv \<Rightarrow> attrib list \<Rightarrow> string \<Rightarrow> elemstate \<Rightarrow> (elemstate \<times> bool \<times> bool) option" where
  "idl_line E ord line es =
     (if line = [] then Some (es, True, False)
      else do {
        (line1, es1, rv1) \<leftarrow> idl_datum_line E line es;
        if rv1 then Some (es1, True, False)
        else
          (case idl_attrib_loop E ord line1 es1 of
             (line2, es2, True) \<Rightarrow> Some (es2, True, False)
           | (line2, es2, False) \<Rightarrow> (case idl_other_line line2 of (rv, exitFlag) \<Rightarrow> Some (es2, rv, exitFlag)))
      })"

partial_function (option) idl_elem_loop ::
  "venv \<Rightarrow> 's vtable \<Rightarrow> attrib list \<Rightarrow> 's stream \<Rightarrow> elemstate \<Rightarrow> ('s stream \<times> elemstate \<times> bool) option" where
  "idl_elem_loop E vt ord s es =
     (case LineGet vt s of
        None \<Rightarrow> None
      | Some (s1, line, got) \<Rightarrow>
          if \<not> got then Some (s1, es, False)
          else
            (case idl_line E ord (Ltrim line) es of
               None \<Rightarrow> None
             | Some (es1, rv, exitFlag) \<Rightarrow>
                 if rv \<and> \<not> exitFlag then idl_elem_loop E vt ord s1 es1 else Some (s1, es1, rv)))"

definition idl_DecodeElement :: "venv \<Rightarrow> 's vtable \<Rightarrow> attrib list \<Rightarrow> 's decoding" where
  "idl_DecodeElement E vt ord w =
     (if dw_stack w = [] then Some (w, False)
      else map_option (\<lambda>(s1, es, rv). (w\<lparr>dw_stream := s1, dw_root := es_root es, dw_stack := es_stack es\<rparr>, rv))
        (idl_elem_loop E vt ord (dw_stream w)
           \<lparr>es_rootDatum = True, es_type = dt_none, es_root = dw_root w, es_stack = dw_stack w\<rparr>))"

text \<open>The checksum's line: the buffer, the result and the exit flag.\<close>

definition idl_check_line :: "(nat \<Rightarrow> octets option) \<Rightarrow> u32 \<Rightarrow> string \<Rightarrow> buffer \<Rightarrow> (buffer \<times> bool \<times> bool) option" where
  "idl_check_line al crcr line buf =
     (case idl_TagTrim line tag_Comment of
        (_, False) \<Rightarrow> Some (buf, True, False)
      | (line1, True) \<Rightarrow>
          (case idl_TagTrim line1 tag_Crc32 of
             (_, False) \<Rightarrow> Some (buf, True, False)
           | (line2, True) \<Rightarrow>
               (case HexDecode al line2 buf of
                  (buf1, n) \<Rightarrow>
                    if n = 4 then
                      (case m_PtrBlock buf1 of
                         None \<Rightarrow> None
                       | Some m \<Rightarrow> let rv = (be_word (take 4 m) = crcr) in Some (buf1, rv, rv))
                    else Some (buf1, True, False))))"

partial_function (option) idl_check_loop ::
  "(nat \<Rightarrow> octets option) \<Rightarrow> 's vtable \<Rightarrow> nat \<Rightarrow> buffer \<Rightarrow> 's stream \<Rightarrow> ('s stream \<times> bool) option" where
  "idl_check_loop al vt pos buf s =
     (case LineGet vt s of
        None \<Rightarrow> None
      | Some (s1, line, got) \<Rightarrow>
          if \<not> got then Some (s1, False)
          else if line = [] then idl_check_loop al vt pos buf s1
          else
            (case idl_check_line al (Stream_Crc32Get pos vt s1 pos) line buf of
               None \<Rightarrow> None
             | Some (buf1, rv, exitFlag) \<Rightarrow>
                 if rv \<and> \<not> exitFlag then idl_check_loop al vt pos buf1 s1 else Some (s1, rv)))"

definition idl_DecodeChecksum :: "venv \<Rightarrow> 's vtable \<Rightarrow> 's decoding" where
  "idl_DecodeChecksum E vt w =
     map_option (\<lambda>(s1, rv). (w\<lparr>dw_stream := s1\<rparr>, rv))
       (idl_check_loop (e_al E) vt (Pos vt (dw_stream w)) Buf_null (dw_stream w))"

definition SerDesIdl :: "venv \<Rightarrow> 's vtable \<Rightarrow> attrib list \<Rightarrow> ('s textworld, 's decworld) serdes" where
  "SerDesIdl E vt ord =
     \<lparr>sd_Open = idl_Open vt, sd_Close = idl_Close vt, sd_Start = idl_Start E vt, sd_End = idl_End vt,
      sd_DecodeIdent = idl_DecodeIdent vt, sd_DecodeVersion = idl_DecodeVersion vt,
      sd_DecodeElement = idl_DecodeElement E vt ord, sd_DecodeChecksum = idl_DecodeChecksum E vt\<rparr>"

definition idl_CheckEncoding :: "'s vtable \<Rightarrow> 's stream \<Rightarrow> ('s stream \<times> bool) option" where
  "idl_CheckEncoding vt Stream =
     (case Seek vt Stream 0 of
        (s1, False) \<Rightarrow> Some (s1, False)
      | (s1, True) \<Rightarrow> idl_ident_loop vt s1)"

end
