(* ===== verification/SerDesXml.thy ===== *)
theory SerDesXml
  imports SerDesIdl
begin

text \<open>
  \<open>cpSerDesXml\<close>: the encoding of data as XML. The encoder keeps the same members as the one of the text
  format, \<open>m_NewLine\<close> and \<open>m_IndentLevel\<close>, so it acts on the same worlds; its insertions of texts, line
  ends and numbers are written like the text format's, line by line, and are defined as them. The
  decoder is a stub: it finds no tags.
\<close>

definition xml_OpenTagStart :: string where "xml_OpenTagStart = ''<''"
definition xml_CloseTagStart :: string where "xml_CloseTagStart = ''</''"
definition xml_TagEnd :: string where "xml_TagEnd = ''>''"
definition xml_Hdr :: string where "xml_Hdr = ''<?xml version='' @ [CHR 0x22] @ ''1.0'' @ [CHR 0x22] @ '' encoding='' @ [CHR 0x22] @ ''UTF-8'' @ [CHR 0x22] @ ''?>''"
definition xml_Pkg :: string where "xml_Pkg = ''pkg''"
definition xml_Ver :: string where "xml_Ver = ''ver''"
definition xml_Dat :: string where "xml_Dat = ''dat''"
definition xml_Type :: string where "xml_Type = ''type''"
definition xml_Comment :: string where "xml_Comment = ''<!--''"
definition xml_CommentEnd :: string where "xml_CommentEnd = ''-->''"
definition xml_LineEnd :: string where "xml_LineEnd = [CHR 0x0A]"
definition xml_Crc32 :: string where "xml_Crc32 = ''CRC32:''"
definition xml_Md5Sum :: string where "xml_Md5Sum = ''MD5SUM:''"
definition xml_Sha1Sum :: string where "xml_Sha1Sum = ''SHA1SUM:''"

text \<open>The tags of the attributes; the map makes a NULL pointer for \<open>attr_None\<close>.\<close>

fun xml_tag :: "attrib \<Rightarrow> string option" where
  "xml_tag attr_Name = Some ''name''" | "xml_tag attr_Val = Some ''val''" | "xml_tag attr_Min = Some ''min''"
| "xml_tag attr_Max = Some ''max''" | "xml_tag attr_Def = Some ''def''" | "xml_tag attr_Units = Some ''units''"
| "xml_tag attr_Info = Some ''info''" | "xml_tag attr_Choices = Some ''choices''" | "xml_tag attr_None = None"

section \<open>Encoding\<close>

definition xml_StringInsert :: "'s vtable \<Rightarrow> string \<Rightarrow> 's textworld act" where
  "xml_StringInsert = idl_StringInsert"

definition xml_NewLineInsert :: "'s vtable \<Rightarrow> 's textworld act" where
  "xml_NewLineInsert vt w = map_option (\<lambda>(w1, rv). (w1\<lparr>m_NewLine := rv\<rparr>, rv)) (xml_StringInsert vt xml_LineEnd w)"

definition xml_UnsignedLongInsert :: "'s vtable \<Rightarrow> u32 \<Rightarrow> 's textworld act" where
  "xml_UnsignedLongInsert vt Val = xml_StringInsert vt (dec (unat Val))"

definition xml_SignedLongInsert :: "'s vtable \<Rightarrow> u32 \<Rightarrow> 's textworld act" where
  "xml_SignedLongInsert vt Val = xml_StringInsert vt (dec_int (sint Val))"

definition xml_UnsignedLongLongInsert :: "'s vtable \<Rightarrow> u64 \<Rightarrow> 's textworld act" where
  "xml_UnsignedLongLongInsert vt Val = xml_StringInsert vt (dec (unat Val))"

definition xml_SignedLongLongInsert :: "'s vtable \<Rightarrow> u64 \<Rightarrow> 's textworld act" where
  "xml_SignedLongLongInsert vt Val = xml_StringInsert vt (dec_int (sint Val))"

definition xml_Float32Insert :: "'s vtable \<Rightarrow> u32 \<Rightarrow> 's textworld act" where
  "xml_Float32Insert vt Val = xml_StringInsert vt (fixed_text k_FloatDigits (double_of_float Val))"

definition xml_Float64Insert :: "'s vtable \<Rightarrow> u64 \<Rightarrow> 's textworld act" where
  "xml_Float64Insert vt Val = xml_StringInsert vt (fixed_text k_DoubleDigits Val)"

text \<open>A new line before every sixteenth octet and after the last.\<close>

definition xml_BlobInsert :: "'s vtable \<Rightarrow> buffer \<Rightarrow> 's textworld act" where
  "xml_BlobInsert vt Buf =
     ins_list (concat (map (\<lambda>i. (if i mod 16 = 0 then [xml_NewLineInsert vt] else []) @
         [xml_StringInsert vt (hex2 (buf_data Buf ! i) @ '' '')]) [0..<length (buf_data Buf)]) @
       [xml_NewLineInsert vt])"

definition xml_OpenTagInsert :: "'s vtable \<Rightarrow> string \<Rightarrow> bool \<Rightarrow> 's textworld act" where
  "xml_OpenTagInsert vt TagName Attribute w =
     map_option (\<lambda>(w1, rv). (w1\<lparr>m_IndentLevel := m_IndentLevel w1 + 1\<rparr>, rv))
       (ins_list ([xml_StringInsert vt xml_OpenTagStart, xml_StringInsert vt TagName] @
          (if Attribute then [] else [xml_StringInsert vt xml_TagEnd])) w)"

definition xml_CloseTagInsert :: "'s vtable \<Rightarrow> string \<Rightarrow> 's textworld act" where
  "xml_CloseTagInsert vt TagName w =
     ins_list [xml_StringInsert vt xml_CloseTagStart, xml_StringInsert vt TagName, xml_StringInsert vt xml_TagEnd, xml_NewLineInsert vt]
       (w\<lparr>m_IndentLevel := m_IndentLevel w - 1\<rparr>)"

definition xml_AttribInsert :: "'s vtable \<Rightarrow> string \<Rightarrow> string \<Rightarrow> bool \<Rightarrow> 's textworld act" where
  "xml_AttribInsert vt AttrName Value Final =
     ins_list ([xml_StringInsert vt '' '', xml_StringInsert vt AttrName, xml_StringInsert vt (''='' @ [CHR 0x22]),
         xml_StringInsert vt Value, xml_StringInsert vt [CHR 0x22]] @
       (if Final then [xml_StringInsert vt xml_TagEnd, xml_NewLineInsert vt] else []))"

definition xml_value_insert :: "venv \<Rightarrow> 's vtable \<Rightarrow> variant \<Rightarrow> 's textworld act" where
  "xml_value_insert E vt v =
     (case v_Type v of
        dt_uint8 \<Rightarrow> with_value (Uint8Get E v) (\<lambda>x. xml_UnsignedLongInsert vt (ucast x))
      | dt_int8 \<Rightarrow> with_value (Int8Get E v) (\<lambda>x. xml_SignedLongInsert vt (scast x))
      | dt_uint16 \<Rightarrow> with_value (Uint16Get E v) (\<lambda>x. xml_UnsignedLongInsert vt (ucast x))
      | dt_int16 \<Rightarrow> with_value (Int16Get E v) (\<lambda>x. xml_SignedLongInsert vt (scast x))
      | dt_uint32 \<Rightarrow> with_value (Uint32Get E v) (xml_UnsignedLongInsert vt)
      | dt_int32 \<Rightarrow> with_value (Int32Get E v) (xml_SignedLongInsert vt)
      | dt_uint64 \<Rightarrow> with_value (Uint64Get E v) (xml_UnsignedLongLongInsert vt)
      | dt_int64 \<Rightarrow> with_value (Int64Get E v) (xml_SignedLongLongInsert vt)
      | dt_float32 \<Rightarrow> with_value (Float32Get_same E v) (xml_Float32Insert vt)
      | dt_float64 \<Rightarrow> with_value (Float64Get_same E v) (xml_Float64Insert vt)
      | dt_bool \<Rightarrow> with_value (BoolGet E v) (\<lambda>b. xml_StringInsert vt (if b then ''true'' else ''false''))
      | dt_string \<Rightarrow> with_value (StrGet E v) (xml_StringInsert vt)
      | dt_blob \<Rightarrow> xml_BlobInsert vt (v_Buf v)
      | dt_none \<Rightarrow> (\<lambda>w. Some (w, True))
      | _ \<Rightarrow> (\<lambda>w. Some (w, False)))"

definition xml_attrib_insert :: "venv \<Rightarrow> 's vtable \<Rightarrow> attrib \<times> variant \<Rightarrow> 's textworld act" where
  "xml_attrib_insert E vt av =
     ins_list [with_value (xml_tag (fst av)) (\<lambda>tag. xml_OpenTagInsert vt tag False), xml_value_insert E vt (snd av),
       with_value (xml_tag (fst av)) (xml_CloseTagInsert vt)]"

definition xml_Start :: "venv \<Rightarrow> 's vtable \<Rightarrow> datum \<Rightarrow> 's textworld act" where
  "xml_Start E vt Dat =
     ins_list ([xml_OpenTagInsert vt xml_Dat True, xml_AttribInsert vt xml_Type (type_name (v_Type (Attr E attr_Val Dat))) True] @
       map (xml_attrib_insert E vt) (attrib_list Dat))"

definition xml_End :: "'s vtable \<Rightarrow> datum \<Rightarrow> 's textworld act" where
  "xml_End vt Dat = xml_CloseTagInsert vt xml_Dat"

definition xml_Open :: "'s vtable \<Rightarrow> u8 \<Rightarrow> 's textworld act" where
  "xml_Open vt Ver w =
     ins_list [xml_StringInsert vt xml_Hdr, xml_NewLineInsert vt, xml_OpenTagInsert vt xml_Pkg True,
         xml_AttribInsert vt xml_Ver (dec (unat Ver)) True]
       (w\<lparr>tw_Ptr := True, tw_Stream := Stream_Clear vt (tw_Stream w)\<rparr>)"

definition xml_crc_insert :: "'s vtable \<Rightarrow> nat \<Rightarrow> 's textworld act" where
  "xml_crc_insert vt pos w = xml_StringInsert vt (crc_text (Stream_Crc32Get pos vt (tw_Stream w) pos)) w"

definition xml_Close :: "'s vtable \<Rightarrow> cksum \<Rightarrow> 's textworld act" where
  "xml_Close vt ChkMode w = do {
     (w1, rv) \<leftarrow> (if tw_Ptr w then xml_CloseTagInsert vt xml_Pkg w else Some (w, False));
     if \<not> tw_Ptr w then None
     else do {
       let pos = Pos vt (tw_Stream w1);
       (w2, rv2) \<leftarrow> (if ChkMode \<noteq> ck_None \<and> rv then
           ins_list ([xml_StringInsert vt xml_Comment] @
             (case ChkMode of
                ck_Crc32 \<Rightarrow> [xml_StringInsert vt xml_Crc32, xml_crc_insert vt pos]
              | ck_Md5Sum \<Rightarrow> [xml_StringInsert vt xml_Md5Sum]
              | ck_Sha1Sum \<Rightarrow> [xml_StringInsert vt xml_Sha1Sum]
              | ck_None \<Rightarrow> []) @
             [xml_StringInsert vt xml_CommentEnd, xml_NewLineInsert vt]) w1
         else Some (w1, rv));
       Some (w2\<lparr>tw_Ptr := False\<rparr>, rv2)
     }
   }"

section \<open>Decoding\<close>

text \<open>Tags are never found.\<close>

definition xml_TagTrim :: "string \<Rightarrow> string \<Rightarrow> string \<times> bool" where
  "xml_TagTrim Line TagName = (Line, False)"

definition xml_TagParse :: "string \<Rightarrow> string \<Rightarrow> string \<Rightarrow> string \<times> string \<times> bool" where
  "xml_TagParse Line TagName Value = (TagName, Value, False)"

definition xml_TagValGet :: "string \<Rightarrow> string \<Rightarrow> string \<times> string \<times> bool" where
  "xml_TagValGet Line TagName =
     (case xml_TagTrim Line TagName of (Line1, rv) \<Rightarrow> (Line1, if rv then Line1 else [], rv))"

definition xml_DataTypeGet :: "string \<Rightarrow> dtype option" where
  "xml_DataTypeGet Line = find_type Line g_DataTypeNames all_dtypes"

definition xml_VariantExtract :: "venv \<Rightarrow> dtype \<Rightarrow> string \<Rightarrow> variant \<Rightarrow> variant \<times> bool" where
  "xml_VariantExtract = idl_VariantExtract"

partial_function (option) xml_ident_loop :: "'s vtable \<Rightarrow> 's stream \<Rightarrow> ('s stream \<times> bool) option" where
  "xml_ident_loop vt s =
     (case LineGet vt s of
        None \<Rightarrow> None
      | Some (s1, line, got) \<Rightarrow>
          if \<not> got then Some (s1, False) else if snd (xml_TagTrim line xml_Hdr) then Some (s1, True) else xml_ident_loop vt s1)"

definition xml_DecodeIdent :: "'s vtable \<Rightarrow> 's decoding" where
  "xml_DecodeIdent vt w = map_option (\<lambda>(s1, rv). (w\<lparr>dw_stream := s1\<rparr>, rv)) (xml_ident_loop vt (dw_stream w))"

definition xml_DecodeVersion :: "'s decoding" where
  "xml_DecodeVersion w = Some (w, False)"

definition xml_DecodeElement :: "'s decoding" where
  "xml_DecodeElement w = Some (w, False)"

text \<open>The checksum's line: the buffer, the result and the exit flag.\<close>

definition xml_check_line :: "(nat \<Rightarrow> octets option) \<Rightarrow> u32 \<Rightarrow> string \<Rightarrow> buffer \<Rightarrow> (buffer \<times> bool \<times> bool) option" where
  "xml_check_line al crcr line buf =
     (case xml_TagTrim line xml_Comment of
        (_, False) \<Rightarrow> Some (buf, True, False)
      | (line1, True) \<Rightarrow>
          (case HexDecode al line1 buf of
             (buf1, n) \<Rightarrow>
               if n = 4 then
                 (case m_PtrBlock buf1 of
                    None \<Rightarrow> None
                  | Some m \<Rightarrow> let rv = (be_word (take 4 m) = crcr) in Some (buf1, rv, rv))
               else Some (buf1, True, False)))"

partial_function (option) xml_check_loop ::
  "(nat \<Rightarrow> octets option) \<Rightarrow> 's vtable \<Rightarrow> nat \<Rightarrow> buffer \<Rightarrow> 's stream \<Rightarrow> ('s stream \<times> bool) option" where
  "xml_check_loop al vt pos buf s =
     (case LineGet vt s of
        None \<Rightarrow> None
      | Some (s1, line, got) \<Rightarrow>
          if \<not> got then Some (s1, False)
          else if line = [] then xml_check_loop al vt pos buf s1
          else
            (case xml_check_line al (Stream_Crc32Get pos vt s1 pos) line buf of
               None \<Rightarrow> None
             | Some (buf1, rv, exitFlag) \<Rightarrow>
                 if rv \<and> \<not> exitFlag then xml_check_loop al vt pos buf1 s1 else Some (s1, rv)))"

definition xml_DecodeChecksum :: "venv \<Rightarrow> 's vtable \<Rightarrow> 's decoding" where
  "xml_DecodeChecksum E vt w =
     map_option (\<lambda>(s1, rv). (w\<lparr>dw_stream := s1\<rparr>, rv))
       (xml_check_loop (e_al E) vt (Pos vt (dw_stream w)) Buf_null (dw_stream w))"

definition SerDesXml :: "venv \<Rightarrow> 's vtable \<Rightarrow> ('s textworld, 's decworld) serdes" where
  "SerDesXml E vt =
     \<lparr>sd_Open = xml_Open vt, sd_Close = xml_Close vt, sd_Start = xml_Start E vt, sd_End = xml_End vt,
      sd_DecodeIdent = xml_DecodeIdent vt, sd_DecodeVersion = xml_DecodeVersion,
      sd_DecodeElement = xml_DecodeElement, sd_DecodeChecksum = xml_DecodeChecksum E vt\<rparr>"

definition xml_CheckEncoding :: "'s vtable \<Rightarrow> 's stream \<Rightarrow> ('s stream \<times> bool) option" where
  "xml_CheckEncoding vt Stream =
     (case Seek vt Stream 0 of
        (s1, False) \<Rightarrow> Some (s1, False)
      | (s1, True) \<Rightarrow> xml_ident_loop vt s1)"

end
