(* ===== verification/TextWire.thy ===== *)
theory TextWire
  imports SerDesXml NativeRead
begin

text \<open>
  What the encoders of text share: lines, the texts of values, the worlds of an encoder with its level and
  its place in a line, and the promise, on any growing storage, that an encoder with such pieces appends
  its header, the output of the tree, its last line and its checksum to the stream.
\<close>

section \<open>Lines\<close>

definition text_line :: "nat \<Rightarrow> string \<Rightarrow> octets" where
  "text_line lv s = replicate (4 * lv) 32 @ to_octets s @ [10]"

fun val_text :: "vval \<Rightarrow> string" where
  "val_text V_none = []" | "val_text (V_u8 w) = dec (unat w)" | "val_text (V_i8 w) = dec_int (sint w)"
| "val_text (V_u16 w) = dec (unat w)" | "val_text (V_i16 w) = dec_int (sint w)"
| "val_text (V_u32 w) = dec (unat w)" | "val_text (V_i32 w) = dec_int (sint w)"
| "val_text (V_u64 w) = dec (unat w)" | "val_text (V_i64 w) = dec_int (sint w)"
| "val_text (V_f32 w) = fixed_text k_FloatDigits (double_of_float w)" | "val_text (V_f64 w) = fixed_text k_DoubleDigits w"
| "val_text (V_bool b) = (if b then ''true'' else ''false'')"
| "val_text (V_str s) = of_octets s" | "val_text (V_blob s) = concat (map (\<lambda>b. hex2 b @ '' '') s)"

section \<open>Worlds\<close>

definition t_out :: "('s \<Rightarrow> octets list) \<Rightarrow> 's textworld \<Rightarrow> octets \<Rightarrow> 's textworld \<Rightarrow> bool" where
  "t_out blocks w data w' \<longleftrightarrow> s_out blocks (tw_Stream w) data (tw_Stream w')"

text \<open>An encoder whose stream stands at its end, at the start of a line or within one, at a level.\<close>

definition t_level :: "('s \<Rightarrow> bool) \<Rightarrow> ('s \<Rightarrow> octets list) \<Rightarrow> bool \<Rightarrow> nat \<Rightarrow> 's textworld \<Rightarrow> bool" where
  "t_level ok blocks nl lv w \<longleftrightarrow> s_end ok blocks (tw_Stream w) \<and> tw_Ptr w \<and> m_NewLine w = nl \<and> m_IndentLevel w = lv"

interpretation text_growth: growth "t_out blocks" for blocks
  by unfold_locales (auto simp: t_out_def intro: stream_growth.grows_none stream_growth.grows_trans)

definition margin :: "bool \<Rightarrow> nat \<Rightarrow> octets" where
  "margin nl lv = (if nl then replicate (4 * lv) 32 else [])"

lemma margin_simps [simp]: "margin False lv = []" "margin nl 0 = []"
  by (simp_all add: margin_def)

lemma puts_cong: "(\<And>w. P w \<Longrightarrow> f w = g w) \<Longrightarrow> puts grows f P D Q = puts grows g P D Q"
  by (auto simp: puts_def)

lemma to_octets_blanks: "to_octets (replicate n CHR '' '') = replicate n 32"
  by (simp add: to_octets_def octet_of_char_def)

lemma to_octets_append [simp]: "to_octets (a @ b) = to_octets a @ to_octets b"
  by (simp add: to_octets_def)

lemma unat_widened: "unat (ucast (w8 :: u8) :: u32) = unat w8" "unat (ucast (w16 :: u16) :: u32) = unat w16"
  by (transfer, simp add: take_bit_eq_mod)+

lemma sint_widened: "sint (scast (w8 :: u8) :: u32) = sint w8" "sint (scast (w16 :: u16) :: u32) = sint w16"
  using sint_ge [of w8] sint_lt [of w8] sint_ge [of w16] sint_lt [of w16]
  by (simp_all add: signed_scast_eq signed_take_bit_int_eq_self)

text \<open>A checksum's line, after the end of the package at \<open>pos\<close>, and the whole of the ending of an encoding.\<close>

definition text_trailer :: "string \<Rightarrow> string \<Rightarrow> string \<Rightarrow> string \<Rightarrow> string \<Rightarrow> cksum \<Rightarrow> u32 \<Rightarrow> octets" where
  "text_trailer tC tK tM tS tE chk crc =
     (case chk of
        ck_None \<Rightarrow> []
      | ck_Crc32 \<Rightarrow> text_line 0 (tC @ tK @ crc_text crc @ tE)
      | ck_Md5Sum \<Rightarrow> text_line 0 (tC @ tM @ tE)
      | ck_Sha1Sum \<Rightarrow> text_line 0 (tC @ tS @ tE))"

definition check_inserts :: "'s vtable \<Rightarrow> string \<Rightarrow> string \<Rightarrow> string \<Rightarrow> string \<Rightarrow> string \<Rightarrow> nat \<Rightarrow> cksum \<Rightarrow> 's textworld act list" where
  "check_inserts vt tC tK tM tS tE pos chk =
     [idl_StringInsert vt tC] @
     (case chk of
        ck_Crc32 \<Rightarrow> [idl_StringInsert vt tK, idl_crc_insert vt pos]
      | ck_Md5Sum \<Rightarrow> [idl_StringInsert vt tM]
      | ck_Sha1Sum \<Rightarrow> [idl_StringInsert vt tS]
      | ck_None \<Rightarrow> []) @
     [idl_StringInsert vt tE, idl_NewLineInsert vt]"

definition text_close ::
  "'s vtable \<Rightarrow> 's textworld act \<Rightarrow> string \<Rightarrow> string \<Rightarrow> string \<Rightarrow> string \<Rightarrow> string \<Rightarrow> cksum \<Rightarrow> 's textworld act" where
  "text_close vt closer tC tK tM tS tE ChkMode w = do {
     (w1, rv) \<leftarrow> (if tw_Ptr w then closer w else Some (w, False));
     if \<not> tw_Ptr w then None
     else do {
       (w2, rv2) \<leftarrow> (if ChkMode \<noteq> ck_None \<and> rv then
           ins_list (check_inserts vt tC tK tM tS tE (Pos vt (tw_Stream w1)) ChkMode) w1
         else Some (w1, rv));
       Some (w2\<lparr>tw_Ptr := False\<rparr>, rv2)
     }
   }"

lemma rep_val_type:
  assumes "rep E d (DT av ts)"
  shows "v_Type (Attr E attr_Val d) = val_type av"
proof -
  have "rel_option (has E) (m_Attribs d attr_Val) (av attr_Val)" using assms by simp
  then show ?thesis
    by (cases rule: option.rel_cases) (auto simp: Attr_def val_type_def has_def Variant_new_def ResizeBuffer_def)
qed

context growth
begin

lemma puts_append:
  "puts grows (ins_list fs) P D Q \<Longrightarrow> puts grows (ins_list gs) Q D1 R \<Longrightarrow> puts grows (ins_list (fs @ gs)) P (D @ D1) R"
proof -
  have "ins_list (fs @ gs) = ins_then (ins_list fs) (ins_list gs)"
    by (induction fs) (auto simp: fun_eq_iff ins_then_def split: bind_splits option.splits)
  then show "puts grows (ins_list fs) P D Q \<Longrightarrow> puts grows (ins_list gs) Q D1 R \<Longrightarrow> puts grows (ins_list (fs @ gs)) P (D @ D1) R"
    using puts_then by simp
qed

end

context growing_store
begin

abbreviation twl :: "bool \<Rightarrow> nat \<Rightarrow> 's textworld \<Rightarrow> bool" where "twl \<equiv> t_level inv blocks"

abbreviation tputs :: "'s textworld act \<Rightarrow> ('s textworld \<Rightarrow> bool) \<Rightarrow> octets \<Rightarrow> ('s textworld \<Rightarrow> bool) \<Rightarrow> bool" where
  "tputs \<equiv> puts (t_out blocks)"

lemma puts_write: "tputs (tw_write vt s) (twl nl lv) (to_octets s) (twl nl lv)"
  unfolding puts_def
proof (intro allI impI)
  fix w assume w: "twl nl lv w"
  then have "at_fin (tw_Stream w)" by (simp add: t_level_def)
  from appends_ArrayWr [of "to_octets s"] this obtain s' where
    "map_option (\<lambda>(s1, n). (s1, n = length (to_octets s))) (ArrayWr vt (tw_Stream w) (Some (to_octets s))) = Some (s', True)"
    "at_fin s'" "content s' = content (tw_Stream w) @ to_octets s" "s_grown blocks (tw_Stream w) s'" by (rule appends_obtain)
  then show "\<exists>w'. tw_write vt s w = Some (w', True) \<and> twl nl lv w' \<and> t_out blocks w (to_octets s) w'"
    using w by (intro exI [of _ "w\<lparr>tw_Stream := s'\<rparr>"]) (auto simp: tw_write_def t_level_def t_out_def s_out_def)
qed

lemma puts_String:
  assumes "lv \<le> 16383 \<or> \<not> nl"
  shows "tputs (idl_StringInsert vt s) (twl nl lv) (margin nl lv @ to_octets s) (twl False lv)"
proof (cases nl)
  case False
  have "idl_StringInsert vt s w = tw_write vt s w" if "twl nl lv w" for w
    using that False by (simp add: idl_StringInsert_def t_level_def ins_then_def)
  then have "tputs (idl_StringInsert vt s) (twl nl lv) D Q = tputs (tw_write vt s) (twl nl lv) D Q" for D Q by (rule puts_cong)
  then show ?thesis using puts_write [of s False lv] False by (simp only: margin_simps append_Nil)
next
  case True
  let ?b = "replicate (4 * lv) CHR '' ''"
  let ?f = "\<lambda>w. if m_NewLine w then map_option (\<lambda>(w1, rv). (w1\<lparr>m_NewLine := False\<rparr>, rv)) (tw_indent vt w) else Some (w, True)"
  have ind: "tw_indent vt w = tw_write vt ?b w" if "twl nl lv w" for w
    using that True assms by (simp add: tw_indent_def t_level_def m_IndentSize_def GenStr_def Let_def)
  have "tputs ?f (twl nl lv) (to_octets ?b) (twl False lv)"
    unfolding puts_def
  proof (intro allI impI)
    fix w assume w: "twl nl lv w"
    from puts_write [of ?b nl lv] w obtain w' where "tw_write vt ?b w = Some (w', True)" "twl nl lv w'" "t_out blocks w (to_octets ?b) w'"
      by (rule puts_obtain)
    then show "\<exists>w'. ?f w = Some (w', True) \<and> twl False lv w' \<and> t_out blocks w (to_octets ?b) w'"
      using w True by (intro exI [of _ "w'\<lparr>m_NewLine := False\<rparr>"]) (simp add: ind t_level_def t_out_def)
  qed
  from text_growth.puts_then [OF this puts_write] have
    "tputs (ins_then ?f (tw_write vt s)) (twl nl lv) (margin nl lv @ to_octets s) (twl False lv)"
    using True by (simp add: margin_def to_octets_blanks)
  moreover have "idl_StringInsert vt s w = ins_then ?f (tw_write vt s) w" if "twl nl lv w" for w
    using that by (simp add: idl_StringInsert_def t_level_def)
  then have "tputs (idl_StringInsert vt s) (twl nl lv) D Q = tputs (ins_then ?f (tw_write vt s)) (twl nl lv) D Q" for D Q by (rule puts_cong)
  ultimately show ?thesis by (simp only:)
qed

lemma puts_NewLine:
  assumes "lv \<le> 16383 \<or> \<not> nl"
  shows "tputs (idl_NewLineInsert vt) (twl nl lv) (margin nl lv @ [10]) (twl True lv)"
  unfolding puts_def
proof (intro allI impI)
  fix w assume "twl nl lv w"
  from puts_String [OF assms, of tag_LineEnd] this obtain w' where
    "idl_StringInsert vt tag_LineEnd w = Some (w', True)" "twl False lv w'" "t_out blocks w (margin nl lv @ to_octets tag_LineEnd) w'"
    by (rule puts_obtain)
  then show "\<exists>w'. idl_NewLineInsert vt w = Some (w', True) \<and> twl True lv w' \<and> t_out blocks w (margin nl lv @ [10]) w'"
    by (intro exI [of _ "w'\<lparr>m_NewLine := True\<rparr>"])
      (simp add: idl_NewLineInsert_def t_level_def t_out_def tag_LineEnd_def to_octets_def octet_of_char_def)
qed

text \<open>Within a line.\<close>

lemmas puts_text = puts_String [of _ False, simplified] puts_NewLine [of _ False, simplified]

lemma puts_pieces: "tputs (ins_list (map (idl_StringInsert vt) ss)) (twl False lv) (to_octets (concat ss)) (twl False lv)"
proof (induction ss)
  case Nil
  show ?case using text_growth.puts_nil [of blocks "twl False lv"] by (simp add: to_octets_def del: ins_list.simps)
next
  case (Cons s ss)
  then show ?case using text_growth.puts_cons [OF puts_text(1)] by (simp del: ins_list.simps)
qed

lemma puts_value:
  assumes "has E v x"
  shows "tputs (idl_value_insert E vt v) (twl False lv) (to_octets (val_text x)) (twl False lv)"
proof -
  have t: "v_Type v = vtype x" using assms by (simp add: has_def)
  note g = getters_has [of E v]
  have f: "idl_value_insert E vt v = idl_StringInsert vt (val_text x)" if "x \<noteq> V_none" "\<And>b. x \<noteq> V_blob b"
    using that t g assms by (cases x) (auto simp: idl_value_insert_def with_value_def fun_eq_iff idl_UnsignedLongInsert_def
      idl_SignedLongInsert_def idl_UnsignedLongLongInsert_def idl_SignedLongLongInsert_def idl_Float32Insert_def
      idl_Float64Insert_def unat_widened sint_widened)
  show ?thesis
  proof (cases "x = V_none \<or> (\<exists>b. x = V_blob b)")
    case False
    then show ?thesis using f puts_text(1) by simp
  next
    case True
    then show ?thesis
    proof
      assume "x = V_none"
      then have "idl_value_insert E vt v = (\<lambda>w. Some (w, True))" using t by (simp add: idl_value_insert_def fun_eq_iff)
      then show ?thesis using text_growth.puts_done \<open>x = V_none\<close> by (simp add: to_octets_def)
    next
      assume "\<exists>b. x = V_blob b"
      then obtain b where b: "x = V_blob b" by blast
      then have "idl_value_insert E vt v = ins_list (map (idl_StringInsert vt) (map (\<lambda>b. hex2 b @ '' '') b))"
        using t assms by (simp add: idl_value_insert_def idl_BlobInsert_def has_def comp_def fun_eq_iff)
      then show ?thesis using puts_pieces [of "map (\<lambda>b. hex2 b @ '' '') b" lv] b by simp
    qed
  qed
qed

text \<open>A whole line, from pieces.\<close>

lemma puts_line:
  assumes "lv \<le> 16383"
  shows "tputs (ins_list (map (idl_StringInsert vt) (s # ss) @ [idl_NewLineInsert vt])) (twl True lv) (text_line lv (concat (s # ss))) (twl True lv)"
proof -
  have "tputs (ins_list (idl_StringInsert vt s # map (idl_StringInsert vt) ss)) (twl True lv)
      ((margin True lv @ to_octets s) @ to_octets (concat ss)) (twl False lv)"
    using text_growth.puts_cons [OF puts_String puts_pieces] assms by blast
  from text_growth.puts_append [OF this text_growth.puts_cons [OF puts_text(2) text_growth.puts_nil]]
  show ?thesis by (simp add: text_line_def margin_def del: ins_list.simps)
qed

text \<open>Opening and closing change the level.\<close>

lemma puts_level:
  assumes "tputs f P D (twl nl lv)"
  shows "tputs (\<lambda>w. map_option (\<lambda>(w1, rv). (w1\<lparr>m_IndentLevel := m_IndentLevel w1 + 1\<rparr>, rv)) (f w)) P D (twl nl (Suc lv))"
  unfolding puts_def
proof (intro allI impI)
  fix w assume "P w"
  with assms obtain w' where "f w = Some (w', True)" "twl nl lv w'" "t_out blocks w D w'" by (rule puts_obtain)
  then show "\<exists>w'. map_option (\<lambda>(w1, rv). (w1\<lparr>m_IndentLevel := m_IndentLevel w1 + 1\<rparr>, rv)) (f w) = Some (w', True) \<and>
      twl nl (Suc lv) w' \<and> t_out blocks w D w'"
    by (intro exI [of _ "w'\<lparr>m_IndentLevel := m_IndentLevel w' + 1\<rparr>"]) (simp add: t_level_def t_out_def)
qed

lemma puts_trailer:
  assumes "chk \<noteq> ck_None" and "\<And>w1. twl False 0 w1 \<Longrightarrow> t_out blocks w0 (to_octets tC @ to_octets tK) w1 \<Longrightarrow>
      Stream_Crc32Get pos vt (tw_Stream w1) pos = crc" and "twl True 0 w0"
  shows "\<exists>w1. ins_list (check_inserts vt tC tK tM tS tE pos chk) w0 = Some (w1, True) \<and> twl True 0 w1 \<and>
    t_out blocks w0 (text_trailer tC tK tM tS tE chk crc) w1"
proof -
  let ?fin = "[idl_StringInsert vt tE, idl_NewLineInsert vt]"
  have c: "tputs (idl_StringInsert vt tC) (twl True 0) (to_octets tC) (twl False 0)"
    using puts_String [of 0 True tC] by simp
  have f: "tputs (ins_list ?fin) (twl False 0) (to_octets tE @ [10]) (twl True 0)"
    using text_growth.puts_cons [OF puts_text(1) [where s = tE] text_growth.puts_cons [OF puts_text(2) text_growth.puts_nil]]
    by (simp del: ins_list.simps)
  show ?thesis
  proof (cases "chk = ck_Crc32")
    case False
    define s where "s = (if chk = ck_Md5Sum then tM else tS)"
    have m: "check_inserts vt tC tK tM tS tE pos chk = idl_StringInsert vt tC # idl_StringInsert vt s # ?fin"
      "text_trailer tC tK tM tS tE chk crc = to_octets tC @ to_octets s @ to_octets tE @ [10]"
      using False assms(1) by (cases chk; simp add: s_def text_trailer_def text_line_def check_inserts_def)+
    have "tputs (ins_list (idl_StringInsert vt tC # idl_StringInsert vt s # ?fin)) (twl True 0) (text_trailer tC tK tM tS tE chk crc) (twl True 0)"
      using text_growth.puts_cons [OF c text_growth.puts_cons [OF puts_text(1) [where s = s] f]] by (simp add: m(2) del: ins_list.simps)
    from this assms(3) show ?thesis unfolding m(1) by (rule puts_obtain) (simp del: ins_list.simps)
  next
    case True
    have "tputs (ins_list [idl_StringInsert vt tC, idl_StringInsert vt tK]) (twl True 0)
        (to_octets tC @ to_octets tK) (twl False 0)"
      using text_growth.puts_cons [OF c text_growth.puts_cons [OF puts_text(1) [where s = tK] text_growth.puts_nil]] by (simp del: ins_list.simps)
    from this assms(3) obtain w1 where 1: "ins_list [idl_StringInsert vt tC, idl_StringInsert vt tK] w0 = Some (w1, True)"
      "twl False 0 w1" "t_out blocks w0 (to_octets tC @ to_octets tK) w1" by (rule puts_obtain)
    have "tputs (ins_list (idl_StringInsert vt (crc_text crc) # ?fin)) (twl False 0) (to_octets (crc_text crc) @ to_octets tE @ [10]) (twl True 0)"
      using text_growth.puts_cons [OF puts_text(1) [where s = "crc_text crc"] f] by (simp del: ins_list.simps)
    from this 1(2) obtain w2 where 2: "ins_list (idl_StringInsert vt (crc_text crc) # ?fin) w1 = Some (w2, True)" "twl True 0 w2"
      "t_out blocks w1 (to_octets (crc_text crc) @ to_octets tE @ [10]) w2" by (rule puts_obtain)
    have "idl_crc_insert vt pos w1 = idl_StringInsert vt (crc_text crc) w1" using assms(2) [OF 1(2,3)] by (simp add: idl_crc_insert_def)
    then have "ins_list (check_inserts vt tC tK tM tS tE pos chk) w0 = Some (w2, True)"
      using 1(1) 2(1) True by (auto simp: check_inserts_def ins_then_def split: option.splits bind_splits if_splits)
    then show ?thesis using True 2(2) text_growth.grows_trans [OF 1(3) 2(3)]
      by (intro exI [of _ w2]) (simp add: text_trailer_def text_line_def del: ins_list.simps)
  qed
qed

text \<open>
  An encoder of text: it opens with a header, its data are those of a writer of trees, it closes with a
  last line and the checksum's. The whole is appended to a stream that was cleared.
\<close>

lemma text_encode:
  assumes r: "rep E d t" and ok: "tree_ok t" and dp: "\<And>i. i < tree_depth t \<Longrightarrow> deep (1 + i)"
    and w: "wf (tw_Stream w)" and l0: "m_IndentLevel w = 0"
    and opn: "\<And>u. sd_Open sd DatumVersion u = opener (u\<lparr>tw_Ptr := True, tw_Stream := Stream_Clear vt (tw_Stream u)\<rparr>)"
      "\<And>nl. tputs opener (twl nl 0) H (twl True 1)"
    and wr: "tree_writer (t_out blocks) E sd (twl True) beg att fin deep"
    and cls: "sd_Close sd = text_close vt closer tC tK tM tS tE" "tputs closer (twl True 1) C (twl True 0)"
    and P: "P = H @ tree_out beg att fin 1 t @ C" "P \<noteq> []"
  shows "\<exists>w1. Datum_Encode (Some sd) d chk w = Some (w1, True) \<and> wf (tw_Stream w1) \<and> m_IndentLevel w1 = 0 \<and>
    content (tw_Stream w1) = P @ text_trailer tC tK tM tS tE chk (Stream_Crc32Get (length P) vt (tw_Stream w1) (length P))"
proof -
  have ni: "\<not> m_Inert d" using r by (cases t) simp
  let ?w0 = "w\<lparr>tw_Ptr := True, tw_Stream := Stream_Clear vt (tw_Stream w)\<rparr>"
  have w0: "twl (m_NewLine w) 0 ?w0" "content (tw_Stream ?w0) = []" using Clear_spec [OF w] l0 by (simp_all add: t_level_def s_end_def)
  from opn(2) w0(1) obtain w1 where 1: "sd_Open sd DatumVersion w = Some (w1, True)" "twl True 1 w1" "t_out blocks ?w0 H w1"
    by (rule puts_obtain) (simp add: opn(1))
  from tree_writer.puts_tree [OF wr r ok dp] 1(2) obtain w2 where
    2: "map_option (\<lambda>(s1, n). (s1, n \<noteq> 0)) (dat_encode sd d w1) = Some (w2, True)" "twl True 1 w2"
      "t_out blocks w1 (tree_out beg att fin 1 t) w2" by (rule puts_obtain)
  from cls(2) 2(2) obtain w3 where 3: "closer w2 = Some (w3, True)" "twl True 0 w3" "t_out blocks w2 C w3" by (rule puts_obtain)
  have c3: "content (tw_Stream w3) = P" using 1(3) 2(3) 3(3) w0(2) by (simp add: t_out_def s_out_def P(1))
  have w3: "wf (tw_Stream w3)" "Pos vt (tw_Stream w3) = length P" "tw_Ptr w2"
    using 3(2) 2(2) c3 Pos_spec [of "tw_Stream w3"] by (simp_all add: t_level_def s_end_def)
  have enc: "Datum_Encode (Some sd) d chk w = text_close vt closer tC tK tM tS tE chk w2"
    using ni 1(1) 2(1) by (auto simp: Datum_Encode_def ins_then_def cls(1))
  show ?thesis
  proof (cases "chk = ck_None")
    case True
    then show ?thesis using enc 3(1,2) w3 c3
      by (intro exI [of _ "w3\<lparr>tw_Ptr := False\<rparr>"]) (simp add: text_close_def text_trailer_def t_level_def)
  next
    case False
    define crc where "crc = Stream_Crc32Get (length P) vt (tw_Stream w3) (length P)"
    have P0: "0 < length P" using P(2) by simp
    have crc: "Stream_Crc32Get (length P) vt (tw_Stream u) (length P) = crc" if "wf (tw_Stream u)" "t_out blocks w3 x u" for u x
      unfolding crc_def by (rule crc_stable [OF w3(1) that(1), of x]) (use that(2) c3 P0 in \<open>simp_all add: t_out_def s_out_def\<close>)
    have "\<And>w1. twl False 0 w1 \<Longrightarrow> t_out blocks w3 (to_octets tC @ to_octets tK) w1 \<Longrightarrow>
        Stream_Crc32Get (length P) vt (tw_Stream w1) (length P) = crc"
      by (rule crc) (simp_all add: t_level_def s_end_def)
    from puts_trailer [OF False this 3(2)] obtain w4 where 4: "ins_list (check_inserts vt tC tK tM tS tE (length P) chk) w3 = Some (w4, True)"
      "twl True 0 w4" "t_out blocks w3 (text_trailer tC tK tM tS tE chk crc) w4" by blast
    have w4: "wf (tw_Stream w4)" using 4(2) by (simp add: t_level_def s_end_def)
    have "Datum_Encode (Some sd) d chk w = Some (w4\<lparr>tw_Ptr := False\<rparr>, True)"
      using enc 3(1) 4(1) w3(2,3) False by (simp add: text_close_def)
    then show ?thesis using 4(2,3) w4 c3 crc [OF w4 4(3)]
      by (intro exI [of _ "w4\<lparr>tw_Ptr := False\<rparr>"]) (simp add: t_level_def t_out_def s_out_def)
  qed
qed

end

end
