(* ===== verification/IdlWire.thy ===== *)
theory IdlWire
  imports TextWire
begin

text \<open>
  What the text encoding of a datum is: the lines of a tree, and the encoder's promise, on any growing
  storage, to append exactly these lines to the stream.
\<close>

definition idl_beg :: "nat \<Rightarrow> dtype \<Rightarrow> octets" where
  "idl_beg lv ty = text_line lv (tag_Dat @ tag_Begin @ type_name ty)"

definition idl_att :: "nat \<Rightarrow> dtype \<Rightarrow> attrib \<times> vval \<Rightarrow> octets" where
  "idl_att lv ty kx = text_line (Suc lv) (the (idl_tag (fst kx)) @ val_text (snd kx))"

definition idl_fin :: "nat \<Rightarrow> octets" where
  "idl_fin lv = text_line lv (tag_Dat @ tag_End)"

definition idl_packet :: "dtree \<Rightarrow> octets" where
  "idl_packet t = text_line 0 tag_Hdr @ text_line 0 (tag_Pkg @ tag_Begin @ tag_Ver @ ''0'') @
     tree_out idl_beg idl_att idl_fin 1 t @ text_line 0 (tag_Pkg @ tag_End)"

definition idl_trailer :: "cksum \<Rightarrow> u32 \<Rightarrow> octets" where
  "idl_trailer chk crc =
     text_trailer tag_Comment tag_Crc32 tag_Md5Sum tag_Sha1Sum tag_CommentEnd chk crc"

text \<open>Beyond 16383 levels there are not enough blanks.\<close>

definition idl_deep :: "nat \<Rightarrow> bool" where
  "idl_deep lv \<longleftrightarrow> lv < 16383"

context growing_store
begin

lemma puts_attrib:
  assumes "has E v x" and "k \<noteq> attr_None" and "lv < 16383"
  shows "tputs (idl_attrib_insert E vt (k, v)) (twl True (Suc lv)) (idl_att lv ty (k, x)) (twl True (Suc lv))"
proof -
  obtain tg where tg: "idl_tag k = Some tg" using assms(2) by (cases k) simp_all
  have w: "with_value (Some tg) (idl_StringInsert vt) = idl_StringInsert vt tg" by (simp add: with_value_def fun_eq_iff)
  have "Suc lv \<le> 16383 \<or> \<not> True" using assms(3) by simp
  from text_growth.puts_cons [OF puts_String [OF this] text_growth.puts_cons [OF puts_value [OF assms(1)]
      text_growth.puts_cons [OF puts_text(2) text_growth.puts_nil]]]
  show ?thesis unfolding idl_attrib_insert_def idl_att_def text_line_def fst_conv snd_conv tg w option.sel
    by (simp add: margin_def del: ins_list.simps)
qed

lemma puts_Open:
  assumes "lv \<le> 16383 \<or> \<not> nl"
  shows "tputs (idl_OpenTagInsert vt tg True) (twl nl lv) (margin nl lv @ to_octets (tg @ tag_Begin)) (twl False (Suc lv))"
proof -
  from puts_level [OF text_growth.puts_cons [OF puts_String [OF assms, of tg] text_growth.puts_cons [OF puts_text(1) [where s = tag_Begin] text_growth.puts_nil]]]
  show ?thesis unfolding idl_OpenTagInsert_def [abs_def] by (simp del: ins_list.simps)
qed

lemma puts_Close:
  assumes "lv \<le> 16383"
  shows "tputs (ins_list [idl_CloseTagInsert vt tg, idl_NewLineInsert vt]) (twl True (Suc lv)) (text_line lv (tg @ tag_End)) (twl True lv)"
proof -
  let ?w0 = "\<lambda>w. w\<lparr>m_IndentLevel := m_IndentLevel w - 1\<rparr>"
  let ?line = "ins_list (map (idl_StringInsert vt) [tg, tag_End] @ [idl_NewLineInsert vt])"
  have e: "ins_list [idl_CloseTagInsert vt tg, idl_NewLineInsert vt] w = ?line (?w0 w)" for w
    by (auto simp: idl_CloseTagInsert_def ins_then_def split: option.splits bind_splits if_splits)
  show ?thesis
    unfolding puts_def
  proof (intro allI impI)
    fix w assume w: "twl True (Suc lv) w"
    then have "twl True lv (?w0 w)" by (simp add: t_level_def)
    with puts_line [OF assms, of tg "[tag_End]"] obtain w' where
      "?line (?w0 w) = Some (w', True)" "twl True lv w'" "t_out blocks (?w0 w) (text_line lv (concat [tg, tag_End])) w'"
      by (rule puts_obtain)
    then show "\<exists>w'. ins_list [idl_CloseTagInsert vt tg, idl_NewLineInsert vt] w = Some (w', True) \<and> twl True lv w' \<and>
        t_out blocks w (text_line lv (tg @ tag_End)) w'"
      unfolding e by (intro exI [of _ w']) (simp add: t_out_def)
  qed
qed

lemma idl_start:
  assumes "rep E d (DT av ts)" and "av attr_None = None" and "lv < 16383"
  shows "tputs (idl_Start E vt d) (twl True lv) (idl_beg lv (val_type av) @ concat (map (idl_att lv (val_type av)) (attr_pairs av all_attribs)))
    (twl True (Suc lv))"
proof -
  have lv: "lv \<le> 16383 \<or> \<not> True" using assms(3) by simp
  have "tputs (ins_list [idl_OpenTagInsert vt tag_Dat True, idl_StringInsert vt (type_name (val_type av)), idl_NewLineInsert vt])
      (twl True lv) (idl_beg lv (val_type av)) (twl True (Suc lv))"
    using text_growth.puts_cons [OF puts_Open [OF lv, of tag_Dat] text_growth.puts_cons [OF puts_text(1) [where s = "type_name (val_type av)"]
      text_growth.puts_cons [OF puts_text(2) text_growth.puts_nil]]]
    by (simp add: idl_beg_def text_line_def margin_def del: ins_list.simps)
  moreover have "tputs (ins_list (map (idl_attrib_insert E vt) (attrib_list d))) (twl True (Suc lv))
      (concat (map (idl_att lv (val_type av)) (attr_pairs av all_attribs))) (twl True (Suc lv))"
    by (rule text_growth.puts_attribs [OF _ assms(1,2)]) (rule puts_attrib [OF _ _ assms(3)])
  ultimately show ?thesis unfolding idl_Start_def rep_val_type [OF assms(1)] by (rule text_growth.puts_append)
qed

lemma idl_writer: "tree_writer (t_out blocks) E (SerDesIdl E vt ord) (twl True) idl_beg idl_att idl_fin idl_deep"
proof unfold_locales
  show "rep E d (DT av ts) \<Longrightarrow> av attr_None = None \<Longrightarrow> idl_deep lv \<Longrightarrow> tputs (sd_Start (SerDesIdl E vt ord) d) (twl True lv)
      (idl_beg lv (val_type av) @ concat (map (idl_att lv (val_type av)) (attr_pairs av all_attribs))) (twl True (Suc lv))" for d av ts lv
    using idl_start by (simp add: SerDesIdl_def idl_deep_def)
  show "idl_deep lv \<Longrightarrow> tputs (sd_End (SerDesIdl E vt ord) d) (twl True (Suc lv)) (idl_fin lv) (twl True lv)" for lv d
    using puts_Close [of lv tag_Dat] by (simp add: SerDesIdl_def idl_deep_def idl_End_def [abs_def] idl_fin_def del: ins_list.simps)
qed

lemma idl_header:
  "tputs (ins_list [idl_StringInsert vt tag_Hdr, idl_NewLineInsert vt, idl_OpenTagInsert vt tag_Pkg True,
      idl_AttribInsert vt tag_Ver (dec (unat DatumVersion)) True]) (twl nl 0)
    (text_line 0 tag_Hdr @ text_line 0 (tag_Pkg @ tag_Begin @ tag_Ver @ ''0'')) (twl True 1)"
proof -
  have v: "dec (unat DatumVersion) = ''0''" by code_simp
  have "tputs (idl_AttribInsert vt tag_Ver ''0'' True) (twl False (Suc 0)) (to_octets (tag_Ver @ ''0'') @ [10]) (twl True (Suc 0))"
    using text_growth.puts_cons [OF puts_text(1) [where s = tag_Ver] text_growth.puts_cons [OF puts_text(1) [where s = "''0''"]
      text_growth.puts_cons [OF puts_text(2) text_growth.puts_nil]]]
    by (simp add: idl_AttribInsert_def del: ins_list.simps)
  from text_growth.puts_cons [OF puts_String [of 0 nl tag_Hdr] text_growth.puts_cons [OF puts_text(2)
      text_growth.puts_cons [OF puts_Open [of 0 True tag_Pkg] text_growth.puts_cons [OF this text_growth.puts_nil]]]]
  show ?thesis by (simp add: text_line_def v del: ins_list.simps)
qed

lemma idl_encode:
  assumes "rep E d t" and "tree_ok t" and dp: "tree_depth t \<le> 16382" and "wf (tw_Stream w)" and "m_IndentLevel w = 0"
  shows "\<exists>w1. Datum_Encode (Some (SerDesIdl E vt ord)) d chk w = Some (w1, True) \<and> wf (tw_Stream w1) \<and> m_IndentLevel w1 = 0 \<and>
    content (tw_Stream w1) = idl_packet t @
      idl_trailer chk (Stream_Crc32Get (length (idl_packet t)) vt (tw_Stream w1) (length (idl_packet t)))"
  unfolding idl_trailer_def
proof (rule text_encode [OF assms(1,2) _ assms(4,5)])
  show "i < tree_depth t \<Longrightarrow> idl_deep (1 + i)" for i using dp by (simp add: idl_deep_def)
  show "sd_Open (SerDesIdl E vt ord) DatumVersion u =
      ins_list [idl_StringInsert vt tag_Hdr, idl_NewLineInsert vt, idl_OpenTagInsert vt tag_Pkg True,
        idl_AttribInsert vt tag_Ver (dec (unat DatumVersion)) True] (u\<lparr>tw_Ptr := True, tw_Stream := Stream_Clear vt (tw_Stream u)\<rparr>)" for u
    by (simp add: SerDesIdl_def idl_Open_def del: ins_list.simps)
  show "tputs (ins_list [idl_StringInsert vt tag_Hdr, idl_NewLineInsert vt, idl_OpenTagInsert vt tag_Pkg True,
      idl_AttribInsert vt tag_Ver (dec (unat DatumVersion)) True]) (twl nl 0)
    (text_line 0 tag_Hdr @ text_line 0 (tag_Pkg @ tag_Begin @ tag_Ver @ ''0'')) (twl True 1)" for nl by (rule idl_header)
  show "tree_writer (t_out blocks) E (SerDesIdl E vt ord) (twl True) idl_beg idl_att idl_fin idl_deep" by (rule idl_writer)
  show "sd_Close (SerDesIdl E vt ord) = text_close vt (ins_list [idl_CloseTagInsert vt tag_Pkg, idl_NewLineInsert vt])
      tag_Comment tag_Crc32 tag_Md5Sum tag_Sha1Sum tag_CommentEnd"
    unfolding check_inserts_def text_close_def fun_eq_iff by (simp add: SerDesIdl_def idl_Close_def Let_def del: ins_list.simps)
  show "tputs (ins_list [idl_CloseTagInsert vt tag_Pkg, idl_NewLineInsert vt]) (twl True 1) (text_line 0 (tag_Pkg @ tag_End)) (twl True 0)"
    using puts_Close [OF le0, of tag_Pkg] by simp
qed (simp_all add: idl_packet_def text_line_def)

end

end
