(* ===== verification/IdlRead.thy ===== *)
theory IdlRead
  imports IdlWire
begin

text \<open>
  The decoder of the text encoding on the lines of a tree: each value is read back from its text, and the
  loop of \<open>DecodeElement\<close> takes the lines as a decoder of trees does. With \<open>IdlWire\<close> this is the round
  trip of the text serializer.
\<close>

section \<open>Values\<close>

text \<open>
  The values that their text determines: 64 bit integers come back through 32 bits, floating point
  numbers through a fixed number of places, strings end at a new line.
\<close>

fun val_exact :: "vval \<Rightarrow> bool" where
  "val_exact (V_i64 w) = (- (2 ^ 31) \<le> sint w \<and> sint w < 2 ^ 31)"
| "val_exact (V_u64 w) = (unat w < 2 ^ 32)"
| "val_exact (V_f32 w) = (float_of_double (StrToFloat (fixed_text k_FloatDigits (double_of_float w))) = w)"
| "val_exact (V_f64 w) = (StrToFloat (fixed_text k_DoubleDigits w) = w)"
| "val_exact (V_str s) = (10 \<notin> set s)"
| "val_exact (V_blob b) = (length b < 2 ^ 31)"
| "val_exact x = True"

lemma StrToInt_dec_int: "- (2 ^ 63) \<le> i \<Longrightarrow> i < 2 ^ 63 \<Longrightarrow> StrToInt (dec_int i) = word_of_int i"
  unfolding StrToInt_def by (simp only: strtoll_dec_int ucast_word_of_int)

lemma StrToUint_dec: "n < 2 ^ 64 \<Longrightarrow> StrToUint (dec n) = of_nat n"
  unfolding StrToUint_def strtoull_dec by transfer (simp add: take_bit_take_bit)

lemma sint_word_of_int: "- (2 ^ 31) \<le> i \<Longrightarrow> i < 2 ^ 31 \<Longrightarrow> sint (word_of_int i :: u32) = i"
  by (simp add: signed_of_int signed_take_bit_int_eq_self)

lemma unat_word_of_nat: "n < 2 ^ 32 \<Longrightarrow> unat (of_nat n :: u32) = n"
  by (simp add: unat_of_nat)

lemma narrow_int: "(ucast (word_of_int i :: u32) :: u8) = word_of_int i" "(ucast (word_of_int i :: u32) :: u16) = word_of_int i"
  by (transfer, simp add: take_bit_take_bit)+

lemma narrow_nat: "(ucast (of_nat n :: u32) :: u8) = of_nat n" "(ucast (of_nat n :: u32) :: u16) = of_nat n"
  by (transfer, simp add: take_bit_take_bit)+

lemma text_ints:
  "ucast (StrToInt (dec_int (sint w8))) = (w8 :: u8)" "ucast (StrToUint (dec (unat w8))) = w8"
  "ucast (StrToInt (dec_int (sint w16))) = (w16 :: u16)" "ucast (StrToUint (dec (unat w16))) = w16"
  "StrToInt (dec_int (sint w32)) = (w32 :: u32)" "StrToUint (dec (unat w32)) = w32"
proof -
  have s: "- (2 ^ 63) \<le> sint w8" "sint w8 < 2 ^ 63" "- (2 ^ 63) \<le> sint w16" "sint w16 < 2 ^ 63" "- (2 ^ 63) \<le> sint w32" "sint w32 < 2 ^ 63"
    using sint_ge [of w8] sint_lt [of w8] sint_ge [of w16] sint_lt [of w16] sint_ge [of w32] sint_lt [of w32] by simp_all
  have u: "unat w8 < 2 ^ 64" "unat w16 < 2 ^ 64" "unat w32 < 2 ^ 64"
    by (rule less_le_trans [OF unsigned_less], simp)+
  show "ucast (StrToInt (dec_int (sint w8))) = w8" "ucast (StrToInt (dec_int (sint w16))) = w16" "StrToInt (dec_int (sint w32)) = w32"
    unfolding StrToInt_dec_int [OF s(1,2)] StrToInt_dec_int [OF s(3,4)] StrToInt_dec_int [OF s(5,6)] narrow_int by simp_all
  show "ucast (StrToUint (dec (unat w8))) = w8" "ucast (StrToUint (dec (unat w16))) = w16" "StrToUint (dec (unat w32)) = w32"
    unfolding StrToUint_dec [OF u(1)] StrToUint_dec [OF u(2)] StrToUint_dec [OF u(3)] narrow_nat by simp_all
qed

lemma text_i64:
  assumes "- (2 ^ 31) \<le> sint (w :: u64)" and "sint w < 2 ^ 31"
  shows "scast (StrToInt (dec_int (sint w))) = w"
proof -
  have "StrToInt (dec_int (sint w)) = word_of_int (sint w)" by (rule StrToInt_dec_int) (use assms in simp_all)
  moreover have "sint (word_of_int (sint w) :: u32) = sint w"
    using assms by (rule sint_word_of_int)
  then have "(scast (word_of_int (sint w) :: u32) :: u64) = w" by (simp only: scast_eq) simp
  ultimately show ?thesis by simp
qed

lemma text_u64:
  assumes "unat (w :: u64) < 2 ^ 32"
  shows "ucast (StrToUint (dec (unat w))) = w"
proof -
  have "StrToUint (dec (unat w)) = of_nat (unat w)" by (rule StrToUint_dec) (use assms in simp)
  moreover have "unat (of_nat (unat w) :: u32) = unat w" using assms by (rule unat_word_of_nat)
  then have "(ucast (of_nat (unat w) :: u32) :: u64) = w" by (metis of_nat_unat ucast_id)
  ultimately show ?thesis by simp
qed

lemma decodes_blob: "decodes (val_text (V_blob b)) b"
proof (induction b)
  case Nil
  then show ?case using decodes_skipped [OF skipped_Nil] by simp
next
  case (Cons x b)
  have sp: "skipped '' ''" by (rule skipped_neutral) (simp add: is_hex_def)
  have "decodes ((hex2 x @ '' '') @ val_text (V_blob b)) (([x] @ []) @ b)"
    by (intro decodes_append decodes_hex2 decodes_skipped sp Cons)
  then show ?case by simp
qed

lemma length_blob_text: "length (val_text (V_blob b)) = 3 * length b"
  by (induction b) (simp_all add: hex2_def)

lemma value_reads:
  assumes E: "env_ok E" and x: "val_ok x" "val_exact x"
  shows "\<exists>var. idl_VariantExtract E (vtype x) (val_text x) (Variant_new E False) = (var, True) \<and> has E var x"
proof -
  let ?v = "Variant_new E False"
  have V: "v_Type ?v \<noteq> dt_inert" using has_not_inert [OF new_has [OF E]] .
  note sets = setters_has [OF E V]
  show ?thesis
  proof (cases x)
    case V_none
    then show ?thesis using new_has [OF E] by (simp add: idl_VariantExtract_def)
  next
    case (V_i64 w)
    then have "scast (StrToInt (dec_int (sint w))) = w" using x(2) text_i64 [of w] by simp
    then show ?thesis using V_i64 sets(8) [of w] by (simp add: idl_VariantExtract_def)
  next
    case (V_u64 w)
    then have "ucast (StrToUint (dec (unat w))) = w" using x(2) text_u64 [of w] by simp
    then show ?thesis using V_u64 sets(7) [of w] by (simp add: idl_VariantExtract_def)
  next
    case (V_str s)
    then have s: "length s < 2 ^ 32 - 1" "0 \<notin> set s" using x(1) by simp_all
    then show ?thesis using V_str StrSet_has [OF E, of "of_octets s" ?v] cstr_id [OF s(2)] by (simp add: idl_VariantExtract_def)
  next
    case (V_blob b)
    let ?t = "val_text (V_blob b)" and ?b = "fst (HexDecode (e_al E) (val_text (V_blob b)) Buf_null)"
    have l: "length ?t div 2 < 2 ^ 32" using x(2) V_blob by (simp only: length_blob_text) simp
    have a: "allocator (e_al E)" "e_al E (length ?t div 2) \<noteq> None" using E l by (auto simp: env_ok_def)
    note d = allocator.HexDecode_decodes [OF a(1) decodes_blob, of b Buf_null]
    from Resize_granted [OF E l, of Buf_null] obtain b' where b': "Buf_Resize (e_al E) (length ?t div 2) Buf_null = (b', True)"
      "length ?t div 2 \<le> Buf_Size b'" by blast
    let ?out = "hexdec ?t [] [] (Buf_Size b')"
    have e: "?b = Buf_LenSet (length ?out) (b'\<lparr>m_PtrBlock := map_option (patch 0 ?out) (m_PtrBlock b')\<rparr>)" "snd (HexDecode (e_al E) ?t Buf_null) = length ?out"
      using b'(1) by (simp_all only: HexDecode_def Let_def fst_conv snd_conv)
    have lo: "length ?out = length b" using d(2) a(2) e(2) by simp
    have ok: "buf_ok ?b" unfolding e(1) by (rule Buf_LenSet_ok)
    have "m_DataLen ?b \<le> length b" unfolding e(1) lo by (simp add: Buf_LenSet_def split: option.split)
    then have "m_DataLen ?b < 2 ^ 32" using x(2) V_blob by simp
    from BufSet_has [OF E ok this, of ?v] show ?thesis using V_blob d(1) a(2) by (simp add: idl_VariantExtract_def)
  qed (use sets text_ints x in \<open>simp_all add: idl_VariantExtract_def StrToBool_def\<close>)
qed

section \<open>Texts of one line\<close>

definition plain :: "string \<Rightarrow> bool" where
  "plain s \<longleftrightarrow> CHR 0x00 \<notin> set s \<and> CHR 0x0A \<notin> set s"

lemma plain_simps [simp]: "plain []" "plain (a @ b) \<longleftrightarrow> plain a \<and> plain b"
  "plain (c # s) \<longleftrightarrow> c \<noteq> CHR 0x00 \<and> c \<noteq> CHR 0x0A \<and> plain s"
  by (auto simp: plain_def)

lemma plain_set: "\<forall>c \<in> set s. P c \<Longrightarrow> \<not> P (CHR 0x00) \<Longrightarrow> \<not> P (CHR 0x0A) \<Longrightarrow> plain s"
  by (auto simp: plain_def)

lemma plain_dec: "plain (dec n)" "plain (dec_int i)"
proof -
  show d: "plain (dec n)" for n by (rule plain_set [OF dec_digits(1)]) (simp_all add: is_digit_def)
  show "plain (dec_int i)" using d by (simp add: dec_int_def)
qed

lemma plain_hex: "n < 16 \<Longrightarrow> plain [hex_digit n]"
  by (rule plain_set [where P = is_hex]) (simp add: hex_digit_simps, simp_all add: is_hex_def)

lemma plain_hex2: "plain (hex2 b)"
proof -
  have "unat b div 16 < 16" using unsigned_less [of b, where 'a = nat] by (simp add: less_mult_imp_div_less)
  then show ?thesis using plain_hex [of "unat b div 16"] plain_hex [of "unat b mod 16"] by (simp add: hex2_def)
qed

lemma plain_replicate: "plain [c] \<Longrightarrow> plain (replicate n c)"
  by (induction n) simp_all

lemma plain_fixed: "plain (fixed_text n w)"
  by (auto simp: fixed_text_def Let_def plain_dec plain_replicate split: prod.splits)

lemma plain_octets: "0 \<notin> set s \<Longrightarrow> 10 \<notin> set s \<Longrightarrow> plain (of_octets s)"
proof -
  assume a: "0 \<notin> set s" "10 \<notin> set s"
  have "octet_of_char (CHR 0x00) = 0" "octet_of_char (CHR 0x0A) = 10" by (simp_all add: octet_of_char_def)
  then show ?thesis using a unfolding plain_def of_octets_def by (metis (no_types, lifting) imageE list.set_map octet_of_char_of_octet)
qed

lemma plain_value: "val_ok x \<Longrightarrow> val_exact x \<Longrightarrow> plain (val_text x)"
proof (cases x)
  case (V_blob b)
  have "plain (val_text (V_blob b))" by (induction b) (simp_all add: plain_hex2)
  then show ?thesis using V_blob by simp
qed (simp_all add: plain_dec plain_fixed plain_octets)

section \<open>Tags\<close>

definition solid :: "string \<Rightarrow> bool" where
  "solid s \<longleftrightarrow> s \<noteq> [] \<and> \<not> is_white (hd s)"

lemma solid_Cons [simp]: "solid (c # s) \<longleftrightarrow> \<not> is_white c" "\<not> solid []"
  by (simp_all add: solid_def)

lemma Ltrim_solid: "solid s \<Longrightarrow> Ltrim (replicate n CHR '' '' @ s) = s"
  by (induction n) (cases s; simp add: Ltrim_def is_white_def)+

lemma Ltrim_solid0: "solid s \<Longrightarrow> Ltrim s = s"
  using Ltrim_solid [of s 0] by simp

lemma TagTrim_hit: "solid tag \<Longrightarrow> idl_TagTrim (tag @ rest) tag = (rest, True)"
proof -
  assume s: "solid tag"
  then have "solid (tag @ rest)" by (simp add: solid_def)
  then show ?thesis using s by (simp add: idl_TagTrim_def Ltrim_solid0)
qed

lemma TagTrim_miss: "solid Line \<Longrightarrow> solid tag \<Longrightarrow> take (length tag) Line \<noteq> tag \<Longrightarrow> idl_TagTrim Line tag = (Line, False)"
  by (auto simp: idl_TagTrim_def Ltrim_solid0 Let_def)

lemmas tag_defs = tag_Begin_def tag_End_def tag_Hdr_def tag_Pkg_def tag_Ver_def tag_Dat_def tag_Comment_def tag_Crc32_def

lemma solid_tags: "solid tag_Begin" "solid tag_End" "solid tag_Hdr" "solid tag_Pkg" "solid tag_Ver" "solid tag_Dat" "solid tag_Comment"
  by (simp_all add: tag_defs is_white_def)

lemma solid_attr: "k \<noteq> attr_None \<Longrightarrow> solid (the (idl_tag k) @ s)" "k \<noteq> attr_None \<Longrightarrow> solid (the (idl_tag k))"
  by (cases k; simp add: is_white_def)+

lemma plain_tags: "plain tag_Begin" "plain tag_End" "plain tag_Hdr" "plain tag_Pkg" "plain tag_Ver" "plain tag_Dat" "plain tag_Comment"
  "plain tag_Crc32"
  by (simp_all add: tag_defs)

lemma plain_attr: "k \<noteq> attr_None \<Longrightarrow> plain (the (idl_tag k))"
  by (cases k) simp_all

lemma plain_type: "plain (type_name ty)"
  by (cases ty) (simp_all add: type_name_def g_DataTypeNames_def)

section \<open>The lines of a tree\<close>

lemma DataTypeGet_name: "idl_DataTypeGet (type_name ty) = Some ty"
  by (cases ty) (simp_all add: idl_DataTypeGet_def type_name_def g_DataTypeNames_def all_dtypes_def)

lemma begin_line: "idl_datum_line E (tag_Dat @ tag_Begin @ type_name ty) es =
    (if es_rootDatum es then Some (type_name ty, es\<lparr>es_type := ty, es_rootDatum := False\<rparr>, True)
     else do {
       (root1, p1) \<leftarrow> open_datum E (hd (es_stack es)) (es_root es);
       Some (type_name ty, es\<lparr>es_type := ty, es_root := root1, es_stack := p1 # es_stack es\<rparr>, True)
     })"
  by (simp add: idl_datum_line_def TagTrim_hit solid_tags DataTypeGet_name)

lemma end_line: "idl_datum_line E (tag_Dat @ tag_End) es =
    Some ([], es\<lparr>es_stack := (if length (es_stack es) > 1 then tl (es_stack es) else es_stack es)\<rparr>, True)"
proof -
  have "idl_TagTrim tag_End tag_Begin = (tag_End, False)" by (rule TagTrim_miss) (simp_all add: solid_tags, simp add: tag_defs)
  then show ?thesis using TagTrim_hit [of tag_End "[]"] by (simp add: idl_datum_line_def TagTrim_hit solid_tags)
qed

lemma attr_line_first: "k \<noteq> attr_None \<Longrightarrow> idl_datum_line E (the (idl_tag k) @ s) es = Some (the (idl_tag k) @ s, es, False)"
proof -
  assume k: "k \<noteq> attr_None"
  have "idl_TagTrim (the (idl_tag k) @ s) tag_Dat = (the (idl_tag k) @ s, False)"
  proof (rule TagTrim_miss)
    show "take (length tag_Dat) (the (idl_tag k) @ s) \<noteq> tag_Dat" using k by (cases k) (simp_all add: tag_defs)
  qed (simp_all add: k solid_tags solid_attr)
  then show ?thesis by (simp add: idl_datum_line_def)
qed

lemma attr_tags: "k \<noteq> attr_None \<Longrightarrow> j \<noteq> attr_None \<Longrightarrow> j \<noteq> k \<Longrightarrow>
    idl_TagTrim (the (idl_tag k) @ s) (the (idl_tag j)) = (the (idl_tag k) @ s, False)"
proof (rule TagTrim_miss)
  show "k \<noteq> attr_None \<Longrightarrow> j \<noteq> attr_None \<Longrightarrow> j \<noteq> k \<Longrightarrow> take (length (the (idl_tag j))) (the (idl_tag k) @ s) \<noteq> the (idl_tag j)"
    by (cases k; cases j; simp)
qed (simp_all add: solid_attr)

text \<open>The map is gone through in any order.\<close>

lemma attr_line: "set ord = set idl_attribs \<Longrightarrow> k \<noteq> attr_None \<Longrightarrow>
    idl_VariantExtract E (idl_attrib_type k (es_type es)) s (Variant_new E False) = (var, True) \<Longrightarrow>
    idl_attrib_loop E ord (the (idl_tag k) @ s) es =
      (s, es\<lparr>es_root := datum_upd (hd (es_stack es)) (AttrSet E k var) (es_root es)\<rparr>, True)"
proof -
  assume o: "set ord = set idl_attribs" and k: "k \<noteq> attr_None"
    and v: "idl_VariantExtract E (idl_attrib_type k (es_type es)) s (Variant_new E False) = (var, True)"
  have "k \<in> set as \<Longrightarrow> attr_None \<notin> set as \<Longrightarrow> idl_attrib_loop E as (the (idl_tag k) @ s) es =
      (s, es\<lparr>es_root := datum_upd (hd (es_stack es)) (AttrSet E k var) (es_root es)\<rparr>, True)" for as
  proof (induction as)
    case (Cons j as)
    then have j: "j \<noteq> attr_None" by auto
    then have t: "(case idl_tag j of Some t \<Rightarrow> t | None \<Rightarrow> []) = the (idl_tag j)" by (cases j) simp_all
    show ?case
    proof (cases "j = k")
      case True
      then show ?thesis using v TagTrim_hit [of "the (idl_tag k)" s] solid_attr(2) [OF k]
        by (simp add: idl_TagValGet_def Let_def t [unfolded True])
    next
      case False
      then show ?thesis using Cons attr_tags [OF k j False, of s] by (simp add: idl_TagValGet_def t)
    qed
  qed simp
  moreover have "k \<in> set ord" "attr_None \<notin> set ord" using o k by (cases k; simp add: idl_attribs_def)+
  ultimately show ?thesis by blast
qed

lemma package_end: "set ord = set idl_attribs \<Longrightarrow> idl_line E ord (tag_Pkg @ tag_End) es = Some (es, True, True)"
proof -
  assume o: "set ord = set idl_attribs"
  have n: "idl_TagTrim (tag_Pkg @ tag_End) t = (tag_Pkg @ tag_End, False)" if "solid t" "take (length t) (tag_Pkg @ tag_End) \<noteq> t" for t
    using that by (intro TagTrim_miss) (simp_all add: tag_defs is_white_def)
  have "idl_TagTrim (tag_Pkg @ tag_End) tag_Dat = (tag_Pkg @ tag_End, False)" by (rule n) (simp_all add: tag_defs is_white_def)
  then have d: "idl_datum_line E (tag_Pkg @ tag_End) es = Some (tag_Pkg @ tag_End, es, False)" by (simp add: idl_datum_line_def)
  have "attr_None \<notin> set as \<Longrightarrow> idl_attrib_loop E as (tag_Pkg @ tag_End) es = (tag_Pkg @ tag_End, es, False)" for as
  proof (induction as)
    case (Cons j as)
    then have j: "j \<noteq> attr_None" by auto
    have "take (length (the (idl_tag j))) (tag_Pkg @ tag_End) \<noteq> the (idl_tag j)" using j by (cases j) (simp_all add: tag_defs)
    with n [OF solid_attr(2) [OF j]] have "idl_TagTrim (tag_Pkg @ tag_End) (the (idl_tag j)) = (tag_Pkg @ tag_End, False)" by simp
    then show ?case using Cons j by (cases j) (simp_all add: idl_TagValGet_def)
  qed simp
  moreover have "attr_None \<notin> set ord" using o by (simp add: idl_attribs_def)
  ultimately have a: "idl_attrib_loop E ord (tag_Pkg @ tag_End) es = (tag_Pkg @ tag_End, es, False)" by blast
  have "idl_other_line (tag_Pkg @ tag_End) = (True, True)"
    using TagTrim_hit [of tag_End "[]"] by (simp add: idl_other_line_def TagTrim_hit solid_tags)
  then show ?thesis using d a by (simp add: idl_line_def) (simp add: tag_defs)
qed

section \<open>The loop as a decoder of trees\<close>

definition idl_run :: "venv \<Rightarrow> 's vtable \<Rightarrow> attrib list \<Rightarrow> 's stream \<times> elemstate \<Rightarrow> ('s stream \<times> elemstate \<times> bool) option" where
  "idl_run E vt ord se = idl_elem_loop E vt ord (fst se) (snd se)"

definition idl_at :: "('s \<Rightarrow> bool) \<Rightarrow> ('s \<Rightarrow> octets list) \<Rightarrow> 's \<Rightarrow> octets \<Rightarrow> 's stream \<times> elemstate \<Rightarrow> nat list list \<Rightarrow> datum \<Rightarrow>
    dtype \<Rightarrow> octets \<Rightarrow> bool" where
  "idl_at ok blocks x c se p root ty rest \<longleftrightarrow>
     snd se = \<lparr>es_rootDatum = False, es_type = ty, es_root = root, es_stack = p\<rparr> \<and> s_sees ok blocks x c (fst se) rest"

definition idl_keeps :: "dtype \<Rightarrow> attrib \<times> vval \<Rightarrow> bool" where
  "idl_keeps ty kx \<longleftrightarrow> fst kx \<noteq> attr_None \<and> val_ok (snd kx) \<and> val_exact (snd kx) \<and> vtype (snd kx) = idl_attrib_type (fst kx) ty"

lemma of_octets_blanks: "of_octets (replicate n 32) = replicate n CHR '' ''"
proof -
  have "octet_of_char (CHR '' '') = 32" by (simp add: octet_of_char_def)
  then have "char_of_octet 32 = CHR '' ''" by (metis char_of_octet_of_char)
  then show ?thesis by (simp add: of_octets_def)
qed

lemma of_octets_append: "of_octets (a @ b) = of_octets a @ of_octets b"
  by (simp add: of_octets_def)

lemma octet_inj: "octet_of_char a = octet_of_char b \<longleftrightarrow> a = b"
  by (metis char_of_octet_of_char)

lemma plain_no: "plain s \<Longrightarrow> 0 \<notin> set (to_octets s)" "plain s \<Longrightarrow> 10 \<notin> set (to_octets s)"
proof -
  have e: "octet_of_char (CHR 0x00) = 0" "octet_of_char (CHR 0x0A) = 10" by (simp_all add: octet_of_char_def)
  show "plain s \<Longrightarrow> 0 \<notin> set (to_octets s)" "plain s \<Longrightarrow> 10 \<notin> set (to_octets s)"
    unfolding plain_def to_octets_def e [symmetric] by (auto simp: octet_inj)
qed

context block_store
begin

lemma line_loop_st: "wf s \<Longrightarrow> line_loop fuel vt s Term dis Line = Some (s', l, rv) \<Longrightarrow> st s' = st s"
proof (induction fuel arbitrary: s Line)
  case (Suc fuel)
  obtain s1 r where 1: "Read_octet vt s = (s1, r)" "wf s1" "st s1 = st s"
    using Read_octet_spec [OF Suc.prems(1)] by (auto split: if_splits)
  then show ?case using Suc.prems(2) Suc.IH [OF 1(2)] by (auto split: option.splits if_splits)
qed simp

lemma sees_line:
  assumes a: "sees x c s (text_line lv str @ rest)" and p: "plain str"
  obtains s' where "LineGet vt s = Some (s', replicate (4 * lv) CHR '' '' @ str, True)" "sees x c s' rest"
proof -
  let ?l = "replicate (4 * lv) 32 @ to_octets str"
  have w: "wf s" and c: "content s = c" "st s = x" "inv x" and d: "drop (ps s) (content s) = ?l @ 10 # rest"
    using a by (simp_all add: s_sees_def text_line_def)
  have n: "0 \<notin> set ?l" "10 \<notin> set ?l" using plain_no [OF p] by auto
  then have t: "takeWhile (\<lambda>c. c \<noteq> 10) (?l @ 10 # rest) = ?l" "filter (\<lambda>c. c \<noteq> 0) ?l = ?l"
    by (simp_all only: takeWhile_append2 takeWhile_tail) (auto simp: takeWhile_append filter_id_conv)
  from ReadLine_spec [OF w, of 10 True] obtain s' where r: "ReadLine vt s 10 True = Some (s', ?l, True)" "wf s'" "content s' = content s"
    "ps s' = ps s + length ?l + 1"
    unfolding d t(1) by (auto simp: t(2) simp del: filter_append)
  from r(1) obtain rv where "line_loop (LenGet vt s + 1) vt s 10 True [] = Some (s', ?l, rv)"
    by (auto simp: ReadLine_def simp del: line_loop.simps split: bind_splits)
  from line_loop_st [OF w this] c(2) have "st s' = x" by simp
  moreover have "drop (ps s') (content s') = rest"
  proof -
    have "drop (ps s') (content s') = drop (length ?l + 1) (drop (ps s) (content s))" unfolding r(3,4) by (simp add: add.commute add.left_commute)
    also have "\<dots> = rest" unfolding d by simp
    finally show ?thesis .
  qed
  ultimately have "sees x c s' rest" using r(2,3) c by (simp add: s_sees_def)
  moreover have "LineGet vt s = Some (s', replicate (4 * lv) CHR '' '' @ str, True)"
    using r(1) by (simp add: LineGet_def of_octets_append of_octets_blanks)
  ultimately show thesis by (rule that [rotated])
qed

lemma line_step:
  assumes "sees x c s (text_line lv str @ rest)" and "plain str" and "solid str" and "idl_line E ord str es = Some (es1, rv, ex)"
  obtains s1 where "sees x c s1 rest" "idl_elem_loop E vt ord s es = (if rv \<and> \<not> ex then idl_elem_loop E vt ord s1 es1 else Some (s1, es1, rv))"
proof -
  from sees_line [OF assms(1,2)] obtain s1 where 1: "LineGet vt s = Some (s1, replicate (4 * lv) CHR '' '' @ str, True)" "sees x c s1 rest" .
  show thesis
    by (rule that [OF 1(2)], subst idl_elem_loop.simps) (simp add: 1(1) Ltrim_solid [OF assms(3)] assms(4))
qed

lemma idl_reader:
  assumes o: "set ord = set idl_attribs"
  shows "tree_reader E (idl_run E vt ord) (idl_at inv blocks x c) idl_beg idl_att idl_fin idl_keeps"
proof unfold_locales
  fix se :: "'s stream \<times> elemstate" and p root ty ty1 rest d and lv :: nat
  assume a: "idl_at inv blocks x c se p root ty (idl_beg lv ty1 @ rest)" and p: "p \<noteq> []" "datum_at (hd p) root = Some d" "\<not> m_Inert d"
    and n: "\<forall>e \<in> set (m_Datums d). NameGet E e \<noteq> None"
  let ?str = "tag_Dat @ tag_Begin @ type_name ty1"
  let ?es = "\<lparr>es_rootDatum = False, es_type = ty1, es_root = datum_upd (hd p) (\<lambda>_. opened d) root, es_stack = (hd p @ [length (m_Datums d)]) # p\<rparr>"
  have s: "sees x c (fst se) (text_line lv ?str @ rest)" and es: "snd se = \<lparr>es_rootDatum = False, es_type = ty, es_root = root, es_stack = p\<rparr>"
    using a by (simp_all add: idl_at_def idl_beg_def)
  have l: "idl_line E ord ?str (snd se) = Some (?es, True, False)"
    unfolding es idl_line_def begin_line using open_datum_spec [OF p(2,3) n] by (simp add: opened_def tag_Dat_def)
  have so: "solid ?str" by (simp add: tag_Dat_def is_white_def)
  have "plain ?str" by (simp add: plain_tags plain_type)
  from line_step [OF s this so l] obtain s1 where "sees x c s1 rest" "idl_elem_loop E vt ord (fst se) (snd se) = idl_elem_loop E vt ord s1 ?es" by auto
  then show "\<exists>w1. idl_run E vt ord se = idl_run E vt ord w1 \<and>
      idl_at inv blocks x c w1 ((hd p @ [length (m_Datums d)]) # p) (datum_upd (hd p) (\<lambda>_. opened d) root) ty1 rest"
    by (intro exI [of _ "(s1, ?es)"]) (simp add: idl_run_def idl_at_def)
next
  fix se :: "'s stream \<times> elemstate" and p root ty k y rest and lv :: nat
  assume a: "idl_at inv blocks x c se p root ty (idl_att lv ty (k, y) @ rest)" and p: "p \<noteq> []" and kp: "idl_keeps ty (k, y)" and E: "env_ok E"
  have k: "k \<noteq> attr_None" and y: "val_ok y" "val_exact y" and ty: "vtype y = idl_attrib_type k ty" using kp by (simp_all add: idl_keeps_def)
  let ?str = "the (idl_tag k) @ val_text y"
  have s: "sees x c (fst se) (text_line (Suc lv) ?str @ rest)" and es: "snd se = \<lparr>es_rootDatum = False, es_type = ty, es_root = root, es_stack = p\<rparr>"
    using a by (simp_all add: idl_at_def idl_att_def)
  from value_reads [OF E y] obtain var where v: "idl_VariantExtract E (idl_attrib_type k ty) (val_text y) (Variant_new E False) = (var, True)" "has E var y"
    unfolding ty by blast
  let ?es = "\<lparr>es_rootDatum = False, es_type = ty, es_root = datum_upd (hd p) (AttrSet E k var) root, es_stack = p\<rparr>"
  have so: "solid ?str" by (rule solid_attr(1) [OF k])
  have "idl_attrib_loop E ord ?str (snd se) = (val_text y, ?es, True)"
    using attr_line [OF o k, of E "snd se" "val_text y" var] v(1) by (simp add: es)
  then have l: "idl_line E ord ?str (snd se) = Some (?es, True, False)"
    using so [unfolded solid_def] by (simp add: idl_line_def attr_line_first [OF k] del: append_is_Nil_conv)
  have "plain ?str" using plain_attr [OF k] plain_value [OF y] by simp
  from line_step [OF s this so l] obtain s1 where "sees x c s1 rest" "idl_elem_loop E vt ord (fst se) (snd se) = idl_elem_loop E vt ord s1 ?es" by auto
  then show "\<exists>w1 v. idl_run E vt ord se = idl_run E vt ord w1 \<and> has E v y \<and> idl_at inv blocks x c w1 p (datum_upd (hd p) (AttrSet E k v) root) ty rest"
    using v(2) by (intro exI [of _ "(s1, ?es)"] exI [of _ var]) (simp add: idl_run_def idl_at_def)
next
  fix se :: "'s stream \<times> elemstate" and q p root ty rest and lv :: nat
  assume a: "idl_at inv blocks x c se (q # p) root ty (idl_fin lv @ rest)" and p: "p \<noteq> []"
  let ?str = "tag_Dat @ tag_End" and ?es = "\<lparr>es_rootDatum = False, es_type = ty, es_root = root, es_stack = p\<rparr>"
  have s: "sees x c (fst se) (text_line lv ?str @ rest)" and es: "snd se = \<lparr>es_rootDatum = False, es_type = ty, es_root = root, es_stack = q # p\<rparr>"
    using a by (simp_all add: idl_at_def idl_fin_def)
  have l: "idl_line E ord ?str (snd se) = Some (?es, True, False)"
    unfolding es idl_line_def end_line using p by (simp add: tag_Dat_def)
  have so: "solid ?str" by (simp add: tag_Dat_def is_white_def)
  have "plain ?str" by (simp add: plain_tags)
  from line_step [OF s this so l] obtain s1 where "sees x c s1 rest" "idl_elem_loop E vt ord (fst se) (snd se) = idl_elem_loop E vt ord s1 ?es" by auto
  then show "\<exists>w1 ty1. idl_run E vt ord se = idl_run E vt ord w1 \<and> idl_at inv blocks x c w1 p root ty1 rest"
    by (intro exI [of _ "(s1, ?es)"] exI [of _ ty]) (simp add: idl_run_def idl_at_def)
qed

end

end
