(* ===== verification/IdlCodec.thy ===== *)
theory IdlCodec
  imports IdlRead NativeCodec
begin

text \<open>
  The round trip of the text serializer, what its decoder does with other inputs, and what gets lost on
  the way.
\<close>

section \<open>The checksum's text\<close>

fun hexd :: "nat \<Rightarrow> nat \<Rightarrow> string" where
  "hexd 0 n = []"
| "hexd (Suc k) n = hexd k (n div 16) @ [hex_digit (n mod 16)]"

lemma hexd_0: "hexd k 0 = replicate k CHR ''0''"
proof -
  have "hex_digit 0 = CHR ''0''" by code_simp
  then show ?thesis by (induction k) (simp_all add: replicate_append_same)
qed

lemma width_hexs: "n < 16 ^ k \<Longrightarrow> 0 < k \<Longrightarrow> set_width k (hexs n) = hexd k n"
proof (induction k arbitrary: n)
  case (Suc k)
  show ?case
  proof (cases "n < 16")
    case True
    then show ?thesis by (simp add: hexs.simps [of n] set_width_def hexd_0)
  next
    case False
    then have "0 < k" "n div 16 < 16 ^ k" using Suc.prems by (cases k; simp add: less_mult_imp_div_less)+
    from Suc.IH [OF this(2,1)] False show ?thesis by (simp add: hexs.simps [of n] set_width_def)
  qed
qed simp

lemma hexd_8: "hexd 8 n = map (\<lambda>k. hex_digit (n div 16 ^ k mod 16)) [7, 6, 5, 4, 3, 2, 1, 0]"
proof -
  have e: "8 = Suc (Suc (Suc (Suc (Suc (Suc (Suc (Suc 0)))))))" by simp
  show ?thesis unfolding e hexd.simps by (simp add: div_mult2_eq [symmetric])
qed

lemma crc_text_octets: "crc_text c = concat (map hex2 (be_octets c))"
proof -
  have c: "unat c mod 4294967296 = unat c"
    by (rule mod_less) (rule less_le_trans [OF unsigned_less], simp)
  have u: "unat (ucast (drop_bit k c) :: u8) = unat c div 2 ^ k mod 256" for k
  proof -
    have "unat (drop_bit k c) = unat c div 2 ^ k" by (simp add: unat_drop_bit_eq drop_bit_eq_div [where 'a = nat])
    then show ?thesis by (simp add: unsigned_ucast_eq take_bit_eq_mod [where 'a = nat])
  qed
  have m: "m mod 256 div 16 = m div 16 mod 16" "m mod 256 mod 16 = m mod 16" for m :: nat
    using mod_mult2_eq [of m 16 16] by (simp_all add: mod_mod_cancel)
  have b: "be_octets c = [ucast (drop_bit 24 c), ucast (drop_bit 16 c), ucast (drop_bit 8 c), ucast (drop_bit 0 c)]"
    by (simp add: be_octets_32)
  have "crc_text c = hexd 8 (unat c)"
    unfolding crc_text_def by (rule width_hexs) (use unsigned_less [of c, where 'a = nat] in simp_all)
  also have "\<dots> = concat (map hex2 (be_octets c))"
    unfolding b hexd_8 list.map concat.simps hex2_def u m by (simp add: div_mult2_eq [symmetric])
  finally show ?thesis .
qed

lemma decodes_octets: "decodes (concat (map hex2 b)) b"
proof (induction b)
  case Nil
  then show ?case using decodes_skipped [OF skipped_Nil] by simp
next
  case (Cons x b)
  have "decodes (hex2 x @ concat (map hex2 b)) ([x] @ b)" by (intro decodes_append decodes_hex2 Cons)
  then show ?case by simp
qed

lemma crc_decodes:
  assumes "env_ok E"
  obtains buf m where "HexDecode (e_al E) (crc_text crc) Buf_null = (buf, 4)" "m_PtrBlock buf = Some m" "take 4 m = be_octets crc"
proof -
  have l: "length (crc_text crc) = 8" by (simp add: crc_text_octets be_octets_32 hex2_def)
  have a: "allocator (e_al E)" "e_al E 4 \<noteq> None" using assms by (auto simp: env_ok_def)
  have d: "decodes (crc_text crc) (be_octets crc)" unfolding crc_text_octets by (rule decodes_octets)
  let ?r = "HexDecode (e_al E) (crc_text crc) Buf_null"
  have "e_al E (length (crc_text crc) div 2) \<noteq> None \<or> be_octets crc = []" using a(2) l by simp
  from allocator.HexDecode_decodes [OF a(1) d this, of Buf_null] have r: "buf_data (fst ?r) = be_octets crc" "snd ?r = length (be_octets crc)" by simp_all
  have "buf_data (fst ?r) \<noteq> []" unfolding r(1) by (simp add: be_octets_32)
  then obtain m where m: "m_PtrBlock (fst ?r) = Some m" using data_nonempty by blast
  then have t: "take (m_DataLen (fst ?r)) m = be_octets crc" using r(1) by (simp add: buf_data_def)
  then have "length (take (m_DataLen (fst ?r)) m) = 4" by (simp add: be_octets_32)
  then have "take 4 m = take 4 (take (m_DataLen (fst ?r)) m)" by (simp add: min_absorb1)
  then have "take 4 m = be_octets crc" unfolding t by (simp add: be_octets_32)
  with m show thesis using r(2) by (intro that [of "fst ?r" m]) (simp_all add: be_octets_32 prod_eq_iff)
qed

lemma plain_hexs: "plain (concat (map hex2 bs))"
proof (induction bs)
  case Nil
  then show ?case by (simp add: plain_def)
next
  case (Cons b bs)
  then show ?case using plain_hex2 [of b] by (simp add: plain_def)
qed

lemma plain_crc: "plain (crc_text crc)"
  unfolding crc_text_octets by (rule plain_hexs)

lemma crc_tag: "idl_TagTrim (tag_Crc32 @ s) tag_Crc32 = (s, True)"
  by (simp add: idl_TagTrim_def Ltrim_def tag_Crc32_def is_white_def)

section \<open>Decoding a package\<close>

context block_store
begin

lemma idl_checksum:
  assumes E: "env_ok E" and s: "sees x c (dw_stream w) (idl_trailer ck_Crc32 crc)"
    and crc: "\<And>s. st s = x \<Longrightarrow> Stream_Crc32Get (Pos vt (dw_stream w)) vt s (Pos vt (dw_stream w)) = crc"
  shows "\<exists>w1. idl_DecodeChecksum E vt w = Some (w1, True) \<and> dw_root w1 = dw_root w"
proof -
  let ?str = "tag_Comment @ tag_Crc32 @ crc_text crc"
  have s0: "sees x c (dw_stream w) (text_line 0 ?str @ [])" using s by (simp add: idl_trailer_def text_trailer_def tag_CommentEnd_def)
  have "plain ?str" by (simp add: plain_tags plain_crc)
  from sees_line [OF s0 this] obtain s1 where 1: "LineGet vt (dw_stream w) = Some (s1, ?str, True)" "sees x c s1 []" by auto
  from crc_decodes [OF E, of crc] obtain buf m where b: "HexDecode (e_al E) (crc_text crc) Buf_null = (buf, 4)" "m_PtrBlock buf = Some m"
    "take 4 m = be_octets crc" .
  have "idl_check_line (e_al E) crc ?str Buf_null = Some (buf, True, True)"
    using b by (simp add: idl_check_line_def TagTrim_hit solid_tags crc_tag)
  moreover have "Stream_Crc32Get (Pos vt (dw_stream w)) vt s1 (Pos vt (dw_stream w)) = crc" using 1(2) crc by (simp add: s_sees_def)
  moreover have "?str \<noteq> []" by (simp add: tag_Comment_def)
  ultimately have "idl_check_loop (e_al E) vt (Pos vt (dw_stream w)) Buf_null (dw_stream w) = Some (s1, True)"
    by (subst idl_check_loop.simps) (simp add: 1(1) del: append_is_Nil_conv)
  then show ?thesis by (simp add: idl_DecodeChecksum_def)
qed

lemma idl_elements:
  assumes E: "env_ok E" and o: "set ord = set idl_attribs" and ok: "tree_ok t" "tree_fits idl_keeps t"
    and s: "sees x c (dw_stream w) (tree_out idl_beg idl_att idl_fin 1 t @ text_line 0 (tag_Pkg @ tag_End) @ rest)"
    and st0: "dw_stack w = [[]]" and d: "\<not> m_Inert (dw_root w)" "m_Datums (dw_root w) = []" "attr_ready (dw_root w)"
    and nm: "\<forall>k. m_Attribs (dw_root w) k \<noteq> None \<longrightarrow> (case t of DT av ts \<Rightarrow> av k \<noteq> None)"
  shows "\<exists>w1. idl_DecodeElement E vt ord w = Some (w1, True) \<and> rep E (dw_root w1) t \<and> sees x c (dw_stream w1) rest"
proof -
  obtain av ts where t: "t = DT av ts" by (cases t)
  let ?fin = "idl_fin 1 @ text_line 0 (tag_Pkg @ tag_End) @ rest"
  let ?body = "concat (map (idl_att 1 (val_type av)) (attr_pairs av all_attribs)) @ concat (map (tree_out idl_beg idl_att idl_fin (Suc 1)) ts) @ ?fin"
  let ?es0 = "\<lparr>es_rootDatum = True, es_type = dt_none, es_root = dw_root w, es_stack = [[]]\<rparr>"
  let ?es1 = "\<lparr>es_rootDatum = False, es_type = val_type av, es_root = dw_root w, es_stack = [[]]\<rparr>"
  let ?beg = "tag_Dat @ tag_Begin @ type_name (val_type av)"
  have s0: "sees x c (dw_stream w) (text_line 1 ?beg @ ?body)" using s t by (simp add: idl_beg_def)
  have p: "plain ?beg" "solid ?beg" "plain (tag_Dat @ tag_End)" "solid (tag_Dat @ tag_End)" "plain (tag_Pkg @ tag_End)" "solid (tag_Pkg @ tag_End)"
    by (simp_all add: plain_tags plain_type tag_defs is_white_def)
  have "idl_line E ord ?beg ?es0 = Some (?es1, True, False)" unfolding idl_line_def by (subst begin_line) (simp add: tag_Dat_def)
  from line_step [OF s0 p(1,2) this] obtain s1 where 1: "sees x c s1 ?body"
    "idl_elem_loop E vt ord (dw_stream w) ?es0 = idl_run E vt ord (s1, ?es1)" by (auto simp: idl_run_def)
  have a0: "idl_at inv blocks x c (s1, ?es1) [[]] (dw_root w) (val_type av) ?body" using 1(1) by (simp add: idl_at_def)
  have nm1: "av k = None \<Longrightarrow> m_Attribs (dw_root w) k = None" for k using nm t by auto
  from tree_reader.read_root [where lv = 1, OF idl_reader [OF o] E ok [unfolded t] a0 d(1,3,2) nm1] obtain se ty1 e where
    e: "idl_run E vt ord (s1, ?es1) = idl_run E vt ord se" "idl_at inv blocks x c se [[]] e ty1 ?fin" "rep E e t" unfolding t by auto
  let ?es2 = "\<lparr>es_rootDatum = False, es_type = ty1, es_root = e, es_stack = [[]]\<rparr>"
  have se: "snd se = ?es2" and s2: "sees x c (fst se) (text_line 1 (tag_Dat @ tag_End) @ text_line 0 (tag_Pkg @ tag_End) @ rest)"
    using e(2) by (simp_all add: idl_at_def idl_fin_def)
  have "idl_line E ord (tag_Dat @ tag_End) ?es2 = Some (?es2, True, False)" unfolding idl_line_def by (subst end_line) (simp add: tag_Dat_def)
  from line_step [OF s2 p(3,4) this] obtain s3 where 3: "sees x c s3 (text_line 0 (tag_Pkg @ tag_End) @ rest)"
    "idl_elem_loop E vt ord (fst se) ?es2 = idl_elem_loop E vt ord s3 ?es2" by auto
  from line_step [OF 3(1) p(5,6) package_end [OF o, of E ?es2]] obtain s4 where 4: "sees x c s4 rest"
    "idl_elem_loop E vt ord s3 ?es2 = Some (s4, ?es2, True)" by auto
  have "idl_DecodeElement E vt ord w = Some (w\<lparr>dw_stream := s4, dw_root := e, dw_stack := [[]]\<rparr>, True)"
    using st0 1(2) e(1) se 3(2) 4(2) by (simp add: idl_DecodeElement_def idl_run_def)
  then show ?thesis using e(3) 4(1) by simp
qed

lemma idl_decode:
  assumes E: "env_ok E" and o: "set ord = set idl_attribs" and w: "wf s1" and ok: "tree_ok t" "tree_fits idl_keeps t"
    and cont: "content s1 = idl_packet t @ idl_trailer chk (Stream_Crc32Get (length (idl_packet t)) vt s1 (length (idl_packet t)))"
    and rc: "\<not> m_Inert r" "NameGet E r = Some n" "n = [] \<or> root_named t" and chk: "Check \<longrightarrow> chk = ck_Crc32"
  shows "\<exists>s2 r1. Datum_Decode E vt (Some (SerDesIdl E vt ord)) s1 r Check = Some (s2, r1, True) \<and> rep E r1 t"
proof -
  let ?sd = "SerDesIdl E vt ord" and ?P = "idl_packet t"
  define crc where "crc = Stream_Crc32Get (length ?P) vt s1 (length ?P)"
  define tr where "tr = idl_trailer chk crc"
  have c: "content s1 = ?P @ tr" using cont by (simp add: tr_def crc_def)
  have P0: "?P \<noteq> []" by (simp add: idl_packet_def text_line_def)
  then have ne: "bs s1 \<noteq> []" using c by (auto simp: content_def)
  from Seek_spec [OF w ne, of 0] obtain s2 where s2: "Seek vt s1 0 = (s2, True)" "wf s2" "st s2 = st s1" "content s2 = content s1" "ps s2 = 0"
    by auto
  from Clear_ready [OF rc(1,2)] obtain r1 where r1: "Datum_Clear E r = Some r1" "\<not> m_Inert r1" "m_Datums r1 = []" "attr_ready r1"
    "\<And>k. m_Attribs r1 k \<noteq> None \<Longrightarrow> k = attr_Name \<and> n \<noteq> []" by blast
  let ?x = "st s1" and ?c = "content s1" and ?ver = "tag_Pkg @ tag_Begin @ tag_Ver @ ''0''"
  let ?rest = "tree_out idl_beg idl_att idl_fin 1 t @ text_line 0 (tag_Pkg @ tag_End) @ tr"
  have v0: "sees ?x ?c s2 (text_line 0 tag_Hdr @ text_line 0 ?ver @ ?rest)" using s2 c w by (simp add: s_sees_def idl_packet_def)
  from sees_line [OF v0 plain_tags(3)] obtain s3 where 3: "LineGet vt s2 = Some (s3, tag_Hdr, True)" "sees ?x ?c s3 (text_line 0 ?ver @ ?rest)" by auto
  have "plain ?ver" by (simp add: plain_tags)
  from sees_line [OF 3(2) this] obtain s4 where 4: "LineGet vt s3 = Some (s4, ?ver, True)" "sees ?x ?c s4 ?rest" by auto
  have id: "idl_DecodeIdent vt \<lparr>dw_stream = s2, dw_root = r1, dw_stack = [[]]\<rparr> = Some (\<lparr>dw_stream = s3, dw_root = r1, dw_stack = [[]]\<rparr>, True)"
    using TagTrim_hit [of tag_Hdr "[]"] unfolding idl_DecodeIdent_def by (subst idl_ident_loop.simps) (simp add: 3(1) solid_tags)
  have "idl_version_line ?ver" by (simp add: idl_version_line_def TagTrim_hit solid_tags idl_TagValGet_def)
  then have ver: "idl_DecodeVersion vt \<lparr>dw_stream = s3, dw_root = r1, dw_stack = [[]]\<rparr> = Some (\<lparr>dw_stream = s4, dw_root = r1, dw_stack = [[]]\<rparr>, True)"
    unfolding idl_DecodeVersion_def by (subst idl_version_loop.simps) (simp add: 4(1))
  let ?w = "\<lparr>dw_stream = s4, dw_root = r1, dw_stack = [[]]\<rparr>"
  have nm: "\<forall>k. m_Attribs (dw_root ?w) k \<noteq> None \<longrightarrow> (case t of DT av ts \<Rightarrow> av k \<noteq> None)"
    using r1(5) rc(3) by (cases t) auto
  have "\<exists>w1. idl_DecodeElement E vt ord ?w = Some (w1, True) \<and> rep E (dw_root w1) t \<and> sees ?x ?c (dw_stream w1) tr"
    by (rule idl_elements [OF E o ok]) (use 4(2) r1 nm in simp_all)
  then obtain w1 where w1: "idl_DecodeElement E vt ord ?w = Some (w1, True)" "rep E (dw_root w1) t" "sees ?x ?c (dw_stream w1) tr" by blast
  have sd: "sd_DecodeIdent ?sd = idl_DecodeIdent vt" "sd_DecodeVersion ?sd = idl_DecodeVersion vt"
    "sd_DecodeElement ?sd = idl_DecodeElement E vt ord" "sd_DecodeChecksum ?sd = idl_DecodeChecksum E vt"
    by (simp_all add: SerDesIdl_def)
  let ?wi = "\<lparr>dw_stream = s2, dw_root = r1, dw_stack = [[]]\<rparr>"
  have "decode_loop ?sd Check st_ident ?wi = decode_loop ?sd Check st_version \<lparr>dw_stream = s3, dw_root = r1, dw_stack = [[]]\<rparr>"
    by (subst decode_loop.simps) (simp add: ExecDecodeState_def sd id)
  also have "\<dots> = decode_loop ?sd Check st_elements ?w"
    by (subst decode_loop.simps) (simp add: ExecDecodeState_def sd ver)
  finally have D: "decode_loop ?sd Check st_ident ?wi = decode_loop ?sd Check st_elements ?w" .
  have "\<exists>w2. decode_loop ?sd Check st_elements ?w = Some (w2, True) \<and> dw_root w2 = dw_root w1"
  proof (cases Check)
    case False
    then show ?thesis by (simp add: decode_loop.simps [of _ _ st_elements] ExecDecodeState_def sd w1(1))
  next
    case True
    then have tr: "tr = idl_trailer ck_Crc32 crc" using chk by (simp add: tr_def)
    have pos: "Pos vt (dw_stream w1) = length ?P" using sees_len [OF w1(3)] unfolding c by simp
    have "\<exists>w2. idl_DecodeChecksum E vt w1 = Some (w2, True) \<and> dw_root w2 = dw_root w1"
    proof (rule idl_checksum [OF E])
      show "sees ?x ?c (dw_stream w1) (idl_trailer ck_Crc32 crc)" using w1(3) tr by simp
      show "\<And>u. st u = ?x \<Longrightarrow> Stream_Crc32Get (Pos vt (dw_stream w1)) vt u (Pos vt (dw_stream w1)) = crc"
        unfolding pos using P0 by (simp add: Stream_Crc32Get_def crc_def)
    qed
    then show ?thesis using True
      by (auto simp: decode_loop.simps [of _ _ st_elements] decode_loop.simps [of _ _ st_check] ExecDecodeState_def sd w1(1))
  qed
  then obtain w2 where w2: "decode_loop ?sd Check st_ident ?wi = Some (w2, True)" "dw_root w2 = dw_root w1" using D by auto
  have "Datum_Decode E vt (Some ?sd) s1 r Check = Some (dw_stream w2, dw_root w2, True)"
    using rc(1) r1(1) w2(1) s2(1) by (simp add: Datum_Decode_def SerDes_Decode_def)
  then show ?thesis using w1(2) w2(2) by auto
qed

end

context growing_store
begin

lemma idl_round_trip:
  assumes E: "env_ok E" and o: "set ord = set idl_attribs" and w: "wf (tw_Stream w)" "m_IndentLevel w = 0" and r: "rep E d t"
    and ok: "tree_ok t" "tree_fits idl_keeps t" "tree_depth t \<le> 16382"
    and rc: "\<not> m_Inert r" "NameGet E r = Some n" "n = [] \<or> root_named t" and chk: "Check \<longrightarrow> chk = ck_Crc32"
  shows "\<exists>w1 s2 r1. Datum_Encode (Some (SerDesIdl E vt ord)) d chk w = Some (w1, True) \<and> m_IndentLevel w1 = 0 \<and>
    Datum_Decode E vt (Some (SerDesIdl E vt ord)) (tw_Stream w1) r Check = Some (s2, r1, True) \<and> rep E r1 t"
proof -
  from idl_encode [OF r ok(1,3) w, of ord chk] obtain w1 where w1: "Datum_Encode (Some (SerDesIdl E vt ord)) d chk w = Some (w1, True)"
    "wf (tw_Stream w1)" "m_IndentLevel w1 = 0" "content (tw_Stream w1) = idl_packet t @
      idl_trailer chk (Stream_Crc32Get (length (idl_packet t)) vt (tw_Stream w1) (length (idl_packet t)))" by blast
  from idl_decode [OF E o w1(2) ok(1,2) w1(4) rc chk] show ?thesis using w1(1,3) by blast
qed

end

section \<open>Over stream buffers\<close>

interpretation idl_writer: tree_writer "t_out m_VecBlocks" E "SerDesIdl E StreamBuf_vt ord" "t_level sb_rich m_VecBlocks True"
    idl_beg idl_att idl_fin idl_deep for E ord
  by (rule sbg.idl_writer)

interpretation idl_reader: tree_reader E "idl_run E StreamBuf_vt idl_attribs" "idl_at sb_rich m_VecBlocks x c"
    idl_beg idl_att idl_fin idl_keeps for E x c
  by (rule sbg.idl_reader) simp

text \<open>
  C14. A datum encoded as text and decoded again, with the CRC checked or not, represents the same tree,
  whatever the order of the tags' addresses: the same attributes with the same types and values, the
  same sub-data in the same order. The values are those the text keeps: integers of 64 bits that fit
  in 32, floating point numbers that are their decimals, texts without line ends, attributes of the
  type of the datum's value; the depth is at most 16382, which is what the blanks of a line allow. The
  serializer's level is back at zero.
\<close>

theorem Idl_round_trip:
  assumes "env_ok E" and "set ord = set idl_attribs" and "sb_rich (st (tw_Stream w))" and "s_wf m_VecBlocks (tw_Stream w)"
    and "m_IndentLevel w = 0" and "rep E d t" and "tree_ok t" and "tree_fits idl_keeps t" and "tree_depth t \<le> 16382"
    and "\<not> m_Inert r" and "NameGet E r = Some n" and "n = [] \<or> root_named t" and "Check \<longrightarrow> chk = ck_Crc32"
  shows "\<exists>w1 s2 r1. Datum_Encode (Some (SerDesIdl E StreamBuf_vt ord)) d chk w = Some (w1, True) \<and> m_IndentLevel w1 = 0 \<and>
    Datum_Decode E StreamBuf_vt (Some (SerDesIdl E StreamBuf_vt ord)) (tw_Stream w1) r Check = Some (s2, r1, True) \<and> rep E r1 t"
  using sbg.idl_round_trip assms by blast

definition demo_text :: "streambuf textworld" where
  "demo_text = \<lparr>tw_Stream = demo_stream, tw_Ptr = False, m_NewLine = False, m_IndentLevel = 0\<rparr>"

text \<open>The input of \<open>NativeCodec\<close> meets what both formats ask for.\<close>

lemma plain_env_ok: "env_ok plain_env"
  unfolding plain_env_def by (rule env_ok_manager)

lemma demo_stream_ok: "sb_rich (st demo_stream)" "s_wf m_VecBlocks demo_stream"
  by (auto simp: demo_stream_def Stream_new_def sb_null_def sb_rich_def sb_inv_def allocator_def s_wf_def)

lemma demo_text_ok: "sb_rich (st (tw_Stream demo_text))" "s_wf m_VecBlocks (tw_Stream demo_text)" "m_IndentLevel demo_text = 0"
  using demo_stream_ok by (simp_all add: demo_text_def)

lemma demo_tree_ok: "tree_ok demo_tree" "tree_fits idl_keeps demo_tree" "tree_depth demo_tree \<le> 16382"
  by (auto simp: demo_tree_def attrs_ok_def idl_keeps_def idl_attrib_type_def val_type_def)

lemma demo_target_ok: "\<not> m_Inert (Datum_new plain_env [] False)" "NameGet plain_env (Datum_new plain_env [] False) = Some []"
  by (simp_all add: Datum_new_empty NameGet_def Attr_def new_inert_name)

theorem Idl_round_trip_witness:
  "\<exists>w1 s2 r1. Datum_Encode (Some (SerDesIdl plain_env StreamBuf_vt idl_attribs)) demo_datum ck_Crc32 demo_text = Some (w1, True) \<and>
    m_IndentLevel w1 = 0 \<and>
    Datum_Decode plain_env StreamBuf_vt (Some (SerDesIdl plain_env StreamBuf_vt idl_attribs)) (tw_Stream w1)
      (Datum_new plain_env [] False) True = Some (s2, r1, True) \<and> rep plain_env r1 demo_tree"
by (rule Idl_round_trip [OF plain_env_ok _ demo_text_ok demo_rep demo_tree_ok demo_target_ok]) simp_all

section \<open>What the text loses\<close>

text \<open>
  C38. What the decoder makes of the text of an integer of 64 bits: the low 32 bits, extended by their
  sign or by zeros. Larger integers come back as other ones, and the decoder reports success.
\<close>

theorem Idl_wide_integers:
  "idl_VariantExtract E dt_int64 (dec_int (sint (i :: u64))) v = (Int64Set E (scast (ucast i :: u32)) v, True)
   \<and> idl_VariantExtract E dt_uint64 (dec (unat i)) v = (Uint64Set E (ucast (ucast i :: u32)) v, True)"
proof -
  have "- (2 ^ 63) \<le> sint i" "sint i < 2 ^ 63" using sint_ge [of i] sint_lt [of i] by simp_all
  moreover have "word_of_int (sint i) = (ucast i :: u32)" by transfer (simp add: take_bit_signed_take_bit take_bit_take_bit)
  ultimately have s: "StrToInt (dec_int (sint i)) = (ucast i :: u32)" by (simp add: StrToInt_dec_int)
  have "unat i < 2 ^ 64" using unsigned_less [of i, where 'a = nat] by simp
  then have u: "StrToUint (dec (unat i)) = (ucast i :: u32)" by (simp add: StrToUint_dec)
  show ?thesis by (simp add: idl_VariantExtract_def s u)
qed

text \<open>
  The search for the name of a type finds the type whose name it is; for any other name it gives no
  result, which stands for a comparison with the NULL pointer past the last name.
\<close>

theorem Idl_type_names:
  "idl_DataTypeGet (type_name ty) = Some ty \<and> (idl_DataTypeGet s = None \<longleftrightarrow> s \<notin> set g_DataTypeNames)"
  using DataTypeGet_name [of ty] by (simp add: idl_DataTypeGet_def [of s] g_DataTypeNames_def all_dtypes_def)

end
