(* ===== verification/XmlWire.thy ===== *)
theory XmlWire
  imports TextWire NativeCodec
begin

text \<open>
  What the XML encoding of a datum is: an element with an element for each attribute and each sub-datum,
  and the encoder's promise to append exactly this document. The decoder reads the whole stream and
  refuses it.
\<close>

section \<open>The document\<close>

definition xml_attr :: "string \<Rightarrow> string \<Rightarrow> string" where
  "xml_attr name val = '' '' @ name @ ''='' @ [CHR 0x22] @ val @ [CHR 0x22] @ xml_TagEnd"

definition xml_open_tag :: "string \<Rightarrow> string" where
  "xml_open_tag tag = xml_OpenTagStart @ tag @ xml_TagEnd"

definition xml_close_tag :: "string \<Rightarrow> string" where
  "xml_close_tag tag = xml_CloseTagStart @ tag @ xml_TagEnd"

text \<open>The octets of a BLOB stand in lines of sixteen.\<close>

definition xml_octet :: "nat \<Rightarrow> octets \<Rightarrow> nat \<Rightarrow> octets" where
  "xml_octet lv b i = (if i mod 16 = 0 then 10 # replicate (4 * lv) 32 else []) @ to_octets (hex2 (b ! i) @ '' '')"

definition xml_value :: "nat \<Rightarrow> vval \<Rightarrow> octets" where
  "xml_value lv x =
     (case x of
        V_blob b \<Rightarrow> concat (map (xml_octet (Suc lv) b) [0..<length b]) @ 10 # replicate (4 * lv) 32
      | _ \<Rightarrow> to_octets (val_text x))"

definition xml_beg :: "nat \<Rightarrow> dtype \<Rightarrow> octets" where
  "xml_beg lv ty = text_line lv (xml_OpenTagStart @ xml_Dat @ xml_attr xml_Type (type_name ty))"

definition xml_att :: "nat \<Rightarrow> dtype \<Rightarrow> attrib \<times> vval \<Rightarrow> octets" where
  "xml_att lv ty kx =
     replicate (4 * Suc lv) 32 @ to_octets (xml_open_tag (the (xml_tag (fst kx)))) @ xml_value (Suc lv) (snd kx) @
     to_octets (xml_close_tag (the (xml_tag (fst kx)))) @ [10]"

definition xml_fin :: "nat \<Rightarrow> octets" where
  "xml_fin lv = text_line lv (xml_close_tag xml_Dat)"

definition xml_packet :: "dtree \<Rightarrow> octets" where
  "xml_packet t = text_line 0 xml_Hdr @ text_line 0 (xml_OpenTagStart @ xml_Pkg @ xml_attr xml_Ver ''0'') @
     tree_out xml_beg xml_att xml_fin 1 t @ text_line 0 (xml_close_tag xml_Pkg)"

definition xml_trailer :: "cksum \<Rightarrow> u32 \<Rightarrow> octets" where
  "xml_trailer chk crc = text_trailer xml_Comment xml_Crc32 xml_Md5Sum xml_Sha1Sum xml_CommentEnd chk crc"

text \<open>Two levels more are needed for the lines of a BLOB.\<close>

definition xml_deep :: "nat \<Rightarrow> bool" where
  "xml_deep lv \<longleftrightarrow> lv < 16382"

lemma xml_inserts: "xml_StringInsert = idl_StringInsert" "xml_NewLineInsert = idl_NewLineInsert"
  by (simp_all add: xml_StringInsert_def xml_NewLineInsert_def idl_NewLineInsert_def fun_eq_iff xml_LineEnd_def tag_LineEnd_def)

lemma xml_value_other: "v_Type v \<noteq> dt_blob \<Longrightarrow> xml_value_insert E vt v = idl_value_insert E vt v"
  by (cases "v_Type v") (simp_all add: xml_value_insert_def idl_value_insert_def xml_inserts
      xml_UnsignedLongInsert_def [abs_def] xml_SignedLongInsert_def [abs_def] xml_UnsignedLongLongInsert_def [abs_def]
      xml_SignedLongLongInsert_def [abs_def] xml_Float32Insert_def [abs_def] xml_Float64Insert_def [abs_def]
      idl_UnsignedLongInsert_def [abs_def] idl_SignedLongInsert_def [abs_def] idl_UnsignedLongLongInsert_def [abs_def]
      idl_SignedLongLongInsert_def [abs_def] idl_Float32Insert_def [abs_def] idl_Float64Insert_def [abs_def])

section \<open>The encoder\<close>

context growing_store
begin

lemma xml_puts_octet:
  assumes "lv \<le> 16383"
  shows "tputs (ins_list ((if i mod 16 = 0 then [xml_NewLineInsert vt] else []) @ [xml_StringInsert vt (hex2 (b ! i) @ '' '')]))
    (twl False lv) (xml_octet lv b i) (twl False lv)"
proof (cases "i mod 16 = 0")
  case True
  have lv: "lv \<le> 16383 \<or> \<not> True" using assms by simp
  show ?thesis using text_growth.puts_cons [OF puts_text(2) text_growth.puts_cons [OF puts_String [OF lv, of "hex2 (b ! i) @ '' ''"] text_growth.puts_nil]] True
    by (simp add: xml_inserts xml_octet_def margin_def del: ins_list.simps)
next
  case False
  then show ?thesis using text_growth.puts_cons [OF puts_text(1) [where s = "hex2 (b ! i) @ '' ''"] text_growth.puts_nil]
    by (simp add: xml_inserts xml_octet_def del: ins_list.simps)
qed

lemma xml_puts_octets:
  assumes "lv \<le> 16383"
  shows "tputs (ins_list (concat (map (\<lambda>i. (if i mod 16 = 0 then [xml_NewLineInsert vt] else []) @
      [xml_StringInsert vt (hex2 (b ! i) @ '' '')]) is))) (twl False lv) (concat (map (xml_octet lv b) is)) (twl False lv)"
proof (induction "is")
  case Nil
  then show ?case using text_growth.puts_nil by (simp del: ins_list.simps)
next
  case (Cons i "is")
  from text_growth.puts_append [OF xml_puts_octet [OF assms, of i b] Cons] show ?case by (simp del: ins_list.simps)
qed

lemma xml_puts_Open:
  assumes "lv \<le> 16383 \<or> \<not> nl"
  shows "tputs (xml_OpenTagInsert vt tg False) (twl nl lv) (margin nl lv @ to_octets (xml_open_tag tg)) (twl False (Suc lv))"
    and "tputs (xml_OpenTagInsert vt tg True) (twl nl lv) (margin nl lv @ to_octets (xml_OpenTagStart @ tg)) (twl False (Suc lv))"
proof -
  note more1 = text_growth.puts_cons [OF puts_text(1) [where s = xml_TagEnd] text_growth.puts_nil]
  from puts_level [OF text_growth.puts_cons [OF puts_String [OF assms, of xml_OpenTagStart] text_growth.puts_cons [OF puts_text(1) [where s = tg] more1]]]
  show "tputs (xml_OpenTagInsert vt tg False) (twl nl lv) (margin nl lv @ to_octets (xml_open_tag tg)) (twl False (Suc lv))"
    unfolding xml_OpenTagInsert_def [abs_def] by (simp add: xml_inserts xml_open_tag_def del: ins_list.simps)
  from puts_level [OF text_growth.puts_cons [OF puts_String [OF assms, of xml_OpenTagStart] text_growth.puts_cons [OF puts_text(1) [where s = tg] text_growth.puts_nil]]]
  show "tputs (xml_OpenTagInsert vt tg True) (twl nl lv) (margin nl lv @ to_octets (xml_OpenTagStart @ tg)) (twl False (Suc lv))"
    unfolding xml_OpenTagInsert_def [abs_def] by (simp add: xml_inserts del: ins_list.simps)
qed

lemma xml_puts_Close:
  assumes "lv \<le> 16383 \<or> \<not> nl"
  shows "tputs (xml_CloseTagInsert vt tg) (twl nl (Suc lv)) (margin nl lv @ to_octets (xml_close_tag tg) @ [10]) (twl True lv)"
  unfolding puts_def
proof (intro allI impI)
  fix w assume w: "twl nl (Suc lv) w"
  let ?w0 = "w\<lparr>m_IndentLevel := m_IndentLevel w - 1\<rparr>"
  let ?l = "ins_list [xml_StringInsert vt xml_CloseTagStart, xml_StringInsert vt tg, xml_StringInsert vt xml_TagEnd, xml_NewLineInsert vt]"
  from text_growth.puts_cons [OF puts_String [OF assms, of xml_CloseTagStart] text_growth.puts_cons [OF puts_text(1) [where s = tg]
    text_growth.puts_cons [OF puts_text(1) [where s = xml_TagEnd] text_growth.puts_cons [OF puts_text(2) text_growth.puts_nil]]]]
  have "tputs ?l (twl nl lv) (margin nl lv @ to_octets (xml_close_tag tg) @ [10]) (twl True lv)"
    by (simp add: xml_inserts xml_close_tag_def del: ins_list.simps)
  moreover have "twl nl lv ?w0" using w by (simp add: t_level_def)
  ultimately obtain w' where "?l ?w0 = Some (w', True)" "twl True lv w'" "t_out blocks ?w0 (margin nl lv @ to_octets (xml_close_tag tg) @ [10]) w'"
    by (rule puts_obtain)
  then show "\<exists>w'. xml_CloseTagInsert vt tg w = Some (w', True) \<and> twl True lv w' \<and>
      t_out blocks w (margin nl lv @ to_octets (xml_close_tag tg) @ [10]) w'"
    by (intro exI [of _ w']) (simp add: xml_CloseTagInsert_def t_out_def del: ins_list.simps)
qed

text \<open>An attribute's value and its end tag: after a BLOB the tag stands on a line of its own.\<close>

lemma xml_puts_value_close:
  assumes "has E v x" and "lv < 16383"
  shows "tputs (ins_list [xml_value_insert E vt v, xml_CloseTagInsert vt tg]) (twl False (Suc lv))
    (xml_value lv x @ to_octets (xml_close_tag tg) @ [10]) (twl True lv)"
proof (cases "\<exists>b. x = V_blob b")
  case False
  have "v_Type v = vtype x" using assms(1) by (simp add: has_def)
  then have e: "xml_value_insert E vt v = idl_value_insert E vt v" using False by (intro xml_value_other) (cases x; simp)
  have o: "xml_value lv x = to_octets (val_text x)" using False by (cases x) (simp_all add: xml_value_def)
  have "lv \<le> 16383 \<or> \<not> False" by simp
  from text_growth.puts_cons [OF puts_value [OF assms(1)] text_growth.puts_cons [OF xml_puts_Close [OF this, of tg] text_growth.puts_nil]]
  show ?thesis by (simp add: e o del: ins_list.simps)
next
  case True
  then obtain b where b: "x = V_blob b" by blast
  have lv: "lv \<le> 16383 \<or> \<not> True" "Suc lv \<le> 16383" using assms(2) by simp_all
  have v: "xml_value_insert E vt v = ins_list (concat (map (\<lambda>i. (if i mod 16 = 0 then [xml_NewLineInsert vt] else []) @
         [xml_StringInsert vt (hex2 (b ! i) @ '' '')]) [0..<length b]) @ [xml_NewLineInsert vt])"
    using assms(1) b by (simp add: xml_value_insert_def xml_BlobInsert_def has_def fun_eq_iff del: ins_list.simps)
  have "tputs (xml_NewLineInsert vt) (twl False (Suc lv)) [10] (twl True (Suc lv))" using puts_text(2) by (simp add: xml_inserts)
  from text_growth.puts_append [OF xml_puts_octets [OF lv(2), of b "[0..<length b]"] text_growth.puts_cons [OF this text_growth.puts_nil]]
  have "tputs (xml_value_insert E vt v) (twl False (Suc lv)) (concat (map (xml_octet (Suc lv) b) [0..<length b]) @ [10]) (twl True (Suc lv))"
    unfolding v by (simp del: ins_list.simps)
  from text_growth.puts_cons [OF this text_growth.puts_cons [OF xml_puts_Close [OF lv(1), of tg] text_growth.puts_nil]]
  show ?thesis by (simp add: b xml_value_def margin_def del: ins_list.simps)
qed

lemma xml_puts_attrib:
  assumes "has E v x" and "k \<noteq> attr_None" and "lv < 16382"
  shows "tputs (xml_attrib_insert E vt (k, v)) (twl True (Suc lv)) (xml_att lv ty (k, x)) (twl True (Suc lv))"
proof -
  obtain tg where tg: "xml_tag k = Some tg" using assms(2) by (cases k) simp_all
  have w: "with_value (Some tg) f = f tg" for f :: "string \<Rightarrow> 's textworld act" by (simp add: with_value_def fun_eq_iff)
  have lv: "Suc lv \<le> 16383 \<or> \<not> True" "Suc lv < 16383" using assms(3) by simp_all
  from text_growth.puts_cons [OF xml_puts_Open(1) [OF lv(1), of tg] xml_puts_value_close [OF assms(1) lv(2), of tg]]
  show ?thesis unfolding xml_attrib_insert_def xml_att_def fst_conv snd_conv tg w option.sel
    by (simp add: margin_def del: ins_list.simps)
qed

lemma xml_puts_Attrib:
  "tputs (xml_AttribInsert vt name val True) (twl False lv) (to_octets (xml_attr name val) @ [10]) (twl True lv)"
  using text_growth.puts_append [OF puts_pieces [of "['' '', name, ''='' @ [CHR 0x22], val, [CHR 0x22], xml_TagEnd]" lv]
    text_growth.puts_cons [OF puts_text(2) text_growth.puts_nil]]
  by (simp add: xml_AttribInsert_def xml_inserts xml_attr_def del: ins_list.simps)

lemma xml_start:
  assumes "rep E d (DT av ts)" and "av attr_None = None" and "lv < 16382"
  shows "tputs (xml_Start E vt d) (twl True lv) (xml_beg lv (val_type av) @ concat (map (xml_att lv (val_type av)) (attr_pairs av all_attribs)))
    (twl True (Suc lv))"
proof -
  have lv: "lv \<le> 16383 \<or> \<not> True" using assms(3) by simp
  have "tputs (ins_list [xml_OpenTagInsert vt xml_Dat True, xml_AttribInsert vt xml_Type (type_name (val_type av)) True])
      (twl True lv) (xml_beg lv (val_type av)) (twl True (Suc lv))"
    using text_growth.puts_cons [OF xml_puts_Open(2) [OF lv, of xml_Dat] text_growth.puts_cons [OF xml_puts_Attrib
      [of xml_Type "type_name (val_type av)"] text_growth.puts_nil]]
    by (simp add: xml_beg_def text_line_def margin_def del: ins_list.simps)
  moreover have "tputs (ins_list (map (xml_attrib_insert E vt) (attrib_list d))) (twl True (Suc lv))
      (concat (map (xml_att lv (val_type av)) (attr_pairs av all_attribs))) (twl True (Suc lv))"
    by (rule text_growth.puts_attribs [OF _ assms(1,2)]) (rule xml_puts_attrib [OF _ _ assms(3)])
  ultimately show ?thesis unfolding xml_Start_def rep_val_type [OF assms(1)] by (rule text_growth.puts_append)
qed

lemma xml_writer: "tree_writer (t_out blocks) E (SerDesXml E vt) (twl True) xml_beg xml_att xml_fin xml_deep"
proof unfold_locales
  show "rep E d (DT av ts) \<Longrightarrow> av attr_None = None \<Longrightarrow> xml_deep lv \<Longrightarrow> tputs (sd_Start (SerDesXml E vt) d) (twl True lv)
      (xml_beg lv (val_type av) @ concat (map (xml_att lv (val_type av)) (attr_pairs av all_attribs))) (twl True (Suc lv))" for d av ts lv
    using xml_start by (simp add: SerDesXml_def xml_deep_def)
  show "xml_deep lv \<Longrightarrow> tputs (sd_End (SerDesXml E vt) d) (twl True (Suc lv)) (xml_fin lv) (twl True lv)" for lv d
    using xml_puts_Close [of lv True xml_Dat] by (simp add: SerDesXml_def xml_deep_def xml_End_def [abs_def] xml_fin_def text_line_def margin_def)
qed

lemma xml_encode:
  assumes "rep E d t" and "tree_ok t" and dp: "tree_depth t \<le> 16381" and "wf (tw_Stream w)" and "m_IndentLevel w = 0"
  shows "\<exists>w1. Datum_Encode (Some (SerDesXml E vt)) d chk w = Some (w1, True) \<and> wf (tw_Stream w1) \<and> m_IndentLevel w1 = 0 \<and>
    content (tw_Stream w1) = xml_packet t @
      xml_trailer chk (Stream_Crc32Get (length (xml_packet t)) vt (tw_Stream w1) (length (xml_packet t)))"
  unfolding xml_trailer_def
proof (rule text_encode [OF assms(1,2) _ assms(4,5)])
  let ?open = "ins_list [xml_StringInsert vt xml_Hdr, xml_NewLineInsert vt, xml_OpenTagInsert vt xml_Pkg True,
        xml_AttribInsert vt xml_Ver (dec (unat DatumVersion)) True]"
  show "i < tree_depth t \<Longrightarrow> xml_deep (1 + i)" for i using dp by (simp add: xml_deep_def)
  show "sd_Open (SerDesXml E vt) DatumVersion u = ?open (u\<lparr>tw_Ptr := True, tw_Stream := Stream_Clear vt (tw_Stream u)\<rparr>)" for u
    by (simp add: SerDesXml_def xml_Open_def del: ins_list.simps)
  have v: "dec (unat DatumVersion) = ''0''" by code_simp
  show "tputs ?open (twl nl 0) (text_line 0 xml_Hdr @ text_line 0 (xml_OpenTagStart @ xml_Pkg @ xml_attr xml_Ver ''0'')) (twl True 1)" for nl
    using text_growth.puts_cons [OF puts_String [of 0 nl xml_Hdr] text_growth.puts_cons [OF puts_text(2) text_growth.puts_cons
      [OF xml_puts_Open(2) [of 0 True xml_Pkg] text_growth.puts_cons [OF xml_puts_Attrib [of xml_Ver "''0''"] text_growth.puts_nil]]]]
    by (simp add: text_line_def v xml_inserts del: ins_list.simps)
  show "tree_writer (t_out blocks) E (SerDesXml E vt) (twl True) xml_beg xml_att xml_fin xml_deep" by (rule xml_writer)
  have c: "xml_crc_insert vt = idl_crc_insert vt" by (simp add: fun_eq_iff xml_crc_insert_def idl_crc_insert_def xml_inserts)
  show "sd_Close (SerDesXml E vt) = text_close vt (xml_CloseTagInsert vt xml_Pkg) xml_Comment xml_Crc32 xml_Md5Sum xml_Sha1Sum xml_CommentEnd"
    unfolding check_inserts_def text_close_def fun_eq_iff c [symmetric] xml_inserts [symmetric] by (simp add: SerDesXml_def xml_Close_def Let_def xml_inserts del: ins_list.simps)
  show "tputs (xml_CloseTagInsert vt xml_Pkg) (twl True 1) (text_line 0 (xml_close_tag xml_Pkg)) (twl True 0)"
    using xml_puts_Close [of 0 True xml_Pkg] by (simp add: text_line_def)
qed (simp_all add: xml_packet_def text_line_def)

end

end
