(* ===== verification/TextScan.thy ===== *)
theory TextScan
  imports IdlCodec XmlWire
begin

text \<open>
  The search for a header line: both text formats read lines until one begins with their header. Every
  such search ends, and finds the header when a line of the stream, anywhere in it, begins with it.
\<close>

section \<open>Lines of a stream\<close>

lemma takeWhile_less: "x \<in> set d \<Longrightarrow> length (takeWhile (\<lambda>c. c \<noteq> x) d) < length d"
  by (induction d) auto

text \<open>The lines \<open>LineGet\<close> delivers: up to each line end, and what follows the last; NUL octets are dropped.\<close>

function lines_of :: "octets \<Rightarrow> string list" where
  "lines_of d =
     (if 10 \<in> set d then of_octets (filter (\<lambda>c. c \<noteq> 0) (takeWhile (\<lambda>c. c \<noteq> 10) d)) # lines_of (drop (Suc (length (takeWhile (\<lambda>c. c \<noteq> 10) d))) d)
      else if filter (\<lambda>c. c \<noteq> 0) d \<noteq> [] then [of_octets (filter (\<lambda>c. c \<noteq> 0) d)] else [])"
  by pat_completeness auto

termination
proof (relation "measure length")
  show "10 \<in> set d \<Longrightarrow> (drop (Suc (length (takeWhile (\<lambda>c. c \<noteq> 10) d))) d, d) \<in> measure length" for d :: octets
    using length_pos_if_in_set [of 10 d] by simp
qed simp

declare lines_of.simps [simp del]

lemma lines_of_nil [simp]: "lines_of [] = []"
  by (simp add: lines_of.simps)

definition is_header :: "string \<Rightarrow> bool" where
  "is_header line \<longleftrightarrow> snd (idl_TagTrim line tag_Hdr)"

context block_store
begin

lemma LineGet_lines:
  assumes w: "wf s"
  obtains s1 line where "LineGet vt s = Some (s1, line, lines_of (drop (ps s) (content s)) \<noteq> [])" "wf s1" "content s1 = content s" "st s1 = st s"
    "lines_of (drop (ps s) (content s)) \<noteq> [] \<Longrightarrow> lines_of (drop (ps s) (content s)) = line # lines_of (drop (ps s1) (content s1)) \<and>
       length (drop (ps s1) (content s1)) < length (drop (ps s) (content s))"
proof -
  define d where "d = drop (ps s) (content s)"
  from ReadLine_spec [OF w, of 10 True] obtain s1 where r: "ReadLine vt s 10 True = Some (s1, filter (\<lambda>c. c \<noteq> 0) (takeWhile (\<lambda>c. c \<noteq> 10) d),
      10 \<in> set d \<or> filter (\<lambda>c. c \<noteq> 0) d \<noteq> [])" "wf s1" "content s1 = content s"
      "ps s1 = ps s + length (takeWhile (\<lambda>c. c \<noteq> 10) d) + of_bool (10 \<in> set d)"
    unfolding d_def [symmetric] by auto
  then obtain rv where "line_loop (LenGet vt s + 1) vt s 10 True [] = Some (s1, filter (\<lambda>c. c \<noteq> 0) (takeWhile (\<lambda>c. c \<noteq> 10) d), rv)"
    by (auto simp: ReadLine_def simp del: line_loop.simps split: bind_splits)
  from line_loop_st [OF w this] have st: "st s1 = st s" .
  have n: "(lines_of d \<noteq> []) = (10 \<in> set d \<or> filter (\<lambda>c. c \<noteq> 0) d \<noteq> [])" by (subst lines_of.simps) simp
  have rest: "drop (ps s1) (content s1) = drop (length (takeWhile (\<lambda>c. c \<noteq> 10) d) + of_bool (10 \<in> set d)) d"
    unfolding r(3,4) d_def by (simp add: add.commute add.left_commute)
  have "lines_of d = of_octets (filter (\<lambda>c. c \<noteq> 0) (takeWhile (\<lambda>c. c \<noteq> 10) d)) # lines_of (drop (ps s1) (content s1)) \<and>
      length (drop (ps s1) (content s1)) < length d" if ne: "lines_of d \<noteq> []"
  proof (cases "10 \<in> set d")
    case True
    moreover have "length (takeWhile (\<lambda>c. c \<noteq> 10) d) < length d" using True by (rule takeWhile_less)
    ultimately show ?thesis unfolding rest by (simp add: lines_of.simps [of d])
  next
    case False
    then have t: "takeWhile (\<lambda>c. c \<noteq> 10) d = d" by (auto simp: takeWhile_eq_all_conv)
    have "d \<noteq> []" using ne by auto
    then show ?thesis using ne False unfolding rest t n by (simp add: lines_of.simps [of d])
  qed
  then show thesis using r(1-3) st n by (intro that [of s1 "of_octets (filter (\<lambda>c. c \<noteq> 0) (takeWhile (\<lambda>c. c \<noteq> 10) d))"])
      (simp_all add: LineGet_def d_def [symmetric])
qed

lemma idl_ident_scan:
  "wf s \<Longrightarrow> \<exists>s1. idl_ident_loop vt s = Some (s1, \<exists>l \<in> set (lines_of (drop (ps s) (content s))). is_header l) \<and> wf s1 \<and>
    content s1 = content s \<and> st s1 = st s"
proof (induction "length (drop (ps s) (content s))" arbitrary: s rule: less_induct)
  case less
  let ?ls = "lines_of (drop (ps s) (content s))"
  obtain s1 line where 1: "LineGet vt s = Some (s1, line, ?ls \<noteq> [])" "wf s1" "content s1 = content s" "st s1 = st s"
    "?ls \<noteq> [] \<Longrightarrow> ?ls = line # lines_of (drop (ps s1) (content s1)) \<and> length (drop (ps s1) (content s1)) < length (drop (ps s) (content s))"
    using LineGet_lines [OF less.prems] by metis
  show ?case
  proof (cases "?ls = []")
    case True
    then show ?thesis using 1 by (subst idl_ident_loop.simps) simp
  next
    case False
    from less.hyps [OF conjunct2 [OF 1(5) [OF False]] 1(2)] obtain s2 where
      2: "idl_ident_loop vt s1 = Some (s2, \<exists>l \<in> set (lines_of (drop (ps s1) (content s1))). is_header l)" "wf s2" "content s2 = content s1" "st s2 = st s1"
      by blast
    have e: "?ls = line # lines_of (drop (ps s1) (content s1))" using 1(5) False by blast
    have "idl_ident_loop vt s = (if is_header line then Some (s1, True) else idl_ident_loop vt s1)"
      using 1(1) False by (subst idl_ident_loop.simps) (simp add: is_header_def)
    then show ?thesis unfolding e using 1(2-4) 2 by (cases "is_header line") simp_all
  qed
qed

lemma xml_ident_scan: "wf s \<Longrightarrow> \<exists>s1. xml_ident_loop vt s = Some (s1, False) \<and> wf s1 \<and> content s1 = content s \<and> st s1 = st s"
proof (induction "length (drop (ps s) (content s))" arbitrary: s rule: less_induct)
  case less
  let ?ls = "lines_of (drop (ps s) (content s))"
  obtain s1 line where 1: "LineGet vt s = Some (s1, line, ?ls \<noteq> [])" "wf s1" "content s1 = content s" "st s1 = st s"
    "?ls \<noteq> [] \<Longrightarrow> ?ls = line # lines_of (drop (ps s1) (content s1)) \<and> length (drop (ps s1) (content s1)) < length (drop (ps s) (content s))"
    using LineGet_lines [OF less.prems] by metis
  show ?case
  proof (cases "?ls = []")
    case True
    then show ?thesis using 1 by (subst xml_ident_loop.simps) simp
  next
    case False
    from less.hyps [OF conjunct2 [OF 1(5) [OF False]] 1(2)] 1 False show ?thesis
      by (subst xml_ident_loop.simps) (simp add: xml_TagTrim_def)
  qed
qed

lemma idl_CheckEncoding_spec:
  assumes "wf s"
  shows "\<exists>s1. idl_CheckEncoding vt s = Some (s1, bs s \<noteq> [] \<and> (\<exists>l \<in> set (lines_of (content s)). is_header l)) \<and> wf s1 \<and>
    content s1 = content s \<and> st s1 = st s"
proof (cases "bs s = []")
  case False
  from Seek_spec [OF assms False, of 0] obtain s2 where s2: "Seek vt s 0 = (s2, True)" "wf s2" "st s2 = st s" "content s2 = content s" "ps s2 = 0" by auto
  from idl_ident_scan [OF s2(2)] show ?thesis using s2 False by (auto simp: idl_CheckEncoding_def)
next
  case True
  then show ?thesis using assms Seek_empty [OF assms] by (intro exI [of _ s]) (simp add: idl_CheckEncoding_def)
qed

end

end
