(* ===== verification/XmlCodec.thy ===== *)
theory XmlCodec
  imports TextScan
begin

text \<open>
  The XML serializer over stream buffers: what it writes, and that it never decodes.
\<close>

lemma Clear_named:
  assumes E: "env_ok E" and r: "\<not> m_Inert r" "NameGet E r = Some n" "length n < 2 ^ 32 - 1"
  obtains r1 where "Datum_Clear E r = Some r1" "\<not> m_Inert r1" "m_Datums r1 = []" "NameGet E r1 \<noteq> None"
proof -
  let ?new = "Datum_new E n False"
  have new: "\<not> m_Inert ?new" "m_Datums ?new = []" "m_Attribs ?new attr_Name = (if n \<noteq> [] then Some (StrSet E n (Variant_new E False)) else None)"
    by (simp_all add: Datum_new_def NameSet_def AttrDel_def AttrMod_def Rewind_def with_cursor_def with_attribs_def attr_at_def Let_def)
  define r1 where "r1 = datum_assign E r ?new"
  obtain i s a it where e: "?new = Datum i s a it []" using new(2) by (cases ?new) simp
  have "r1 = Datum i True (\<lambda>k. map_option (Variant_copy E) (a k)) 0 []" using e r(1) by (simp add: r1_def)
  then have r1: "\<not> m_Inert r1" "m_Datums r1 = []" "m_Attribs r1 attr_Name = map_option (Variant_copy E) (m_Attribs ?new attr_Name)"
    using new(1) e by simp_all
  have "has E (Variant_copy E (StrSet E n (Variant_new E False))) (V_str (cstr (to_octets n)))"
    by (rule copy_has [OF E StrSet_has [OF E r(3)]])
  from getters_has(12) [OF this] have "NameGet E r1 \<noteq> None"
    using new_inert_name [of E] by (simp add: NameGet_def Attr_def r1(3) new(3))
  moreover have "Datum_Clear E r = Some r1" using r by (simp add: Datum_Clear_def r1_def)
  ultimately show thesis using r1(1,2) by (intro that [of r1])
qed

context block_store
begin

lemma xml_refused:
  assumes E: "env_ok E" and w: "wf s" and r: "\<not> m_Inert r" "NameGet E r = Some n" "length n < 2 ^ 32 - 1"
  shows "\<exists>s1 r1. Datum_Decode E vt (Some (SerDesXml E vt)) s r Check = Some (s1, r1, False) \<and> m_Datums r1 = [] \<and> content s1 = content s"
proof -
  let ?sd = "SerDesXml E vt"
  obtain r1 n1 where r1: "Datum_Clear E r = Some r1" "\<not> m_Inert r1" "m_Datums r1 = []" "NameGet E r1 = Some n1"
    using Clear_named [OF E r] by blast
  then have "\<exists>r2. Datum_Clear E r1 = Some r2 \<and> m_Datums r2 = []" using Clear_ready [OF r1(2,4)] by metis
  then obtain r2 where r2: "Datum_Clear E r1 = Some r2" "m_Datums r2 = []" by blast
  define s0 where "s0 = fst (Seek vt s 0)"
  have "wf s0 \<and> content s0 = content s"
  proof (cases "bs s = []")
    case False
    from Seek_spec [OF w False, of 0] show ?thesis by (auto simp: s0_def)
  qed (use w Seek_empty in \<open>simp add: s0_def\<close>)
  then obtain s1 where s1: "xml_ident_loop vt s0 = Some (s1, False)" "content s1 = content s" using xml_ident_scan [of s0] by auto
  have "decode_loop ?sd Check st_ident \<lparr>dw_stream = s0, dw_root = r1, dw_stack = [[]]\<rparr> = Some (\<lparr>dw_stream = s1, dw_root = r1, dw_stack = [[]]\<rparr>, False)"
    by (subst decode_loop.simps) (simp add: ExecDecodeState_def SerDesXml_def xml_DecodeIdent_def s1(1))
  then show ?thesis using r(1) r1(1) r2 s1(2) by (simp add: Datum_Decode_def SerDes_Decode_def s0_def)
qed

end

interpretation xml_writer: tree_writer "t_out m_VecBlocks" E "SerDesXml E StreamBuf_vt" "t_level sb_rich m_VecBlocks True"
    xml_beg xml_att xml_fin xml_deep for E
  by (rule sbg.xml_writer)

text \<open>
  C15. Encoding as XML gives one document: the header, the package with an element for the datum, in it an
  element for each attribute and each sub-datum, indented by their levels, with the texts of the values,
  the octets of a BLOB in lines of sixteen, and the comment with the checksum of all before it. It holds
  for each datum to the depth that the blanks of a line allow; the serializer's level is back at zero.
\<close>

theorem Xml_document:
  assumes "sb_rich (st (tw_Stream w))" and "s_wf m_VecBlocks (tw_Stream w)" and "m_IndentLevel w = 0"
    and "rep E d t" and "tree_ok t" and "tree_depth t \<le> 16381"
  shows "\<exists>w1. Datum_Encode (Some (SerDesXml E StreamBuf_vt)) d chk w = Some (w1, True) \<and> m_IndentLevel w1 = 0 \<and>
    sb_content (tw_Stream w1) = xml_packet t @
      xml_trailer chk (Stream_Crc32Get (length (xml_packet t)) StreamBuf_vt (tw_Stream w1) (length (xml_packet t)))"
  using sbg.xml_encode assms by blast

theorem Xml_document_witness:
  "\<exists>w1. Datum_Encode (Some (SerDesXml plain_env StreamBuf_vt)) demo_datum ck_None demo_text = Some (w1, True) \<and>
    sb_content (tw_Stream w1) = text_line 0 xml_Hdr @ text_line 0 (''<pkg ver='' @ [CHR 0x22] @ ''0'' @ [CHR 0x22] @ ''>'') @
      text_line 1 (''<dat type='' @ [CHR 0x22] @ ''Int16'' @ [CHR 0x22] @ ''>'') @
      text_line 2 ''<name>a</name>'' @ text_line 2 ''<val>-2</val>'' @
      text_line 2 (''<dat type='' @ [CHR 0x22] @ ''Inert'' @ [CHR 0x22] @ ''>'') @ text_line 2 ''</dat>'' @
      text_line 1 ''</dat>'' @ text_line 0 ''</pkg>''"
proof -
  have dp: "tree_depth demo_tree \<le> 16381" by (simp add: demo_tree_def)
  have v: "of_octets [97] = ''a''" "dec_int (- 2) = ''-2''" "type_name dt_int16 = ''Int16''" "type_name dt_inert = ''Inert''" by code_simp+
  have p: "xml_packet demo_tree = text_line 0 xml_Hdr @ text_line 0 (''<pkg ver='' @ [CHR 0x22] @ ''0'' @ [CHR 0x22] @ ''>'') @
      text_line 1 (''<dat type='' @ [CHR 0x22] @ ''Int16'' @ [CHR 0x22] @ ''>'') @
      text_line 2 ''<name>a</name>'' @ text_line 2 ''<val>-2</val>'' @
      text_line 2 (''<dat type='' @ [CHR 0x22] @ ''Inert'' @ [CHR 0x22] @ ''>'') @ text_line 2 ''</dat>'' @
      text_line 1 ''</dat>'' @ text_line 0 ''</pkg>''"
    by (simp add: xml_packet_def demo_tree_def xml_beg_def xml_att_def xml_fin_def xml_value_def text_line_def xml_attr_def xml_open_tag_def
        xml_close_tag_def xml_OpenTagStart_def xml_CloseTagStart_def xml_TagEnd_def xml_Pkg_def xml_Ver_def xml_Dat_def xml_Type_def
        val_type_def all_attribs_def v to_octets_def)
  from Xml_document [OF demo_text_ok demo_rep demo_tree_ok(1) dp, of ck_None] show ?thesis
    unfolding p by (auto simp: xml_trailer_def text_trailer_def)
qed

text \<open>
  The XML decoder refuses every stream: it reads all the lines, ends, reports failure and leaves the
  datum without sub-data, also for what its own encoder has written.
\<close>

theorem Xml_refuses:
  assumes "env_ok E" and "sb_wf s" and "\<not> m_Inert r" and "NameGet E r = Some n" and "length n < 2 ^ 32 - 1"
  shows "\<exists>s1 r1. Datum_Decode E StreamBuf_vt (Some (SerDesXml E StreamBuf_vt)) s r Check = Some (s1, r1, False) \<and> m_Datums r1 = [] \<and>
    sb_content s1 = sb_content s"
  by (rule sb.xml_refused) (use assms in auto)

theorem Xml_refuses_witness:
  "\<exists>s1 r1. Datum_Decode plain_env StreamBuf_vt (Some (SerDesXml plain_env StreamBuf_vt)) sb_demo (Datum_new plain_env [] False) True =
    Some (s1, r1, False) \<and> m_Datums r1 = [] \<and> sb_content s1 = sb_content sb_demo"
by (rule Xml_refuses [OF plain_env_ok sb_demo_ok(1) demo_target_ok]) simp

end
