(* ===== verification/SerDesFactory.thy ===== *)
theory SerDesFactory
  imports XmlCodec "HOL-Library.Char_ord" "HOL-Library.List_Lexorder"
begin

text \<open>
  \<open>cpSerDesFactory\<close>: pools of serializers by their names, and the encoding and decoding of a datum through
  them. A serializer between two uses is its kind with the members that outlive a use: the new line
  flag and the level of the text formats. The pools are a map, kept as the list of its entries in the
  order of their keys; allocations succeed. Locking does not change what a sequence of calls does.
\<close>

datatype serkind = Native_kind | Xml_kind | Idl_kind

definition k_SerDesAuto :: string where "k_SerDesAuto = ''Auto''"

fun SerDes_NameGet :: "serkind \<Rightarrow> string" where
  "SerDes_NameGet Native_kind = ''Native''" | "SerDes_NameGet Xml_kind = ''Xml''" | "SerDes_NameGet Idl_kind = ''Idl''"

record serobj =
  so_Kind :: serkind
  so_NewLine :: bool
  so_IndentLevel :: nat

definition SerDes_new :: "serkind \<Rightarrow> serobj" where
  "SerDes_new k = \<lparr>so_Kind = k, so_NewLine = False, so_IndentLevel = 0\<rparr>"

text \<open>The virtual function that makes another serializer of the same class.\<close>

definition CreateInstance :: "serobj \<Rightarrow> serobj" where
  "CreateInstance obj = SerDes_new (so_Kind obj)"

type_synonym pools = "(string \<times> serobj list) list"

fun pool_push :: "string \<Rightarrow> serobj \<Rightarrow> pools \<Rightarrow> pools" where
  "pool_push n obj [] = [(n, [obj])]"
| "pool_push n obj ((m, xs) # ps) =
     (if n = m then (m, xs @ [obj]) # ps else if n < m then (n, [obj]) # (m, xs) # ps else (m, xs) # pool_push n obj ps)"

definition SerDesPut :: "serobj option \<Rightarrow> pools \<Rightarrow> pools \<times> bool" where
  "SerDesPut pSerDes ps =
     (case pSerDes of
        None \<Rightarrow> (ps, False)
      | Some obj \<Rightarrow> (pool_push (SerDes_NameGet (so_Kind obj)) obj ps, True))"

definition SerDesFactory_new :: pools where
  "SerDesFactory_new = fst (SerDesPut (Some (SerDes_new Idl_kind)) (fst (SerDesPut (Some (SerDes_new Xml_kind))
     (fst (SerDesPut (Some (SerDes_new Native_kind)) [])))))"

fun pool_set :: "string \<Rightarrow> serobj list \<Rightarrow> pools \<Rightarrow> pools" where
  "pool_set n xs [] = []"
| "pool_set n xs ((m, ys) # ps) = (if n = m then (m, xs) # ps else (m, ys) # pool_set n xs ps)"

definition SerDesGet :: "string \<Rightarrow> pools \<Rightarrow> pools \<times> serobj option" where
  "SerDesGet Enc ps =
     (case map_of ps Enc of
        None \<Rightarrow> (ps, None)
      | Some [] \<Rightarrow> (ps, None)
      | Some (obj # rest) \<Rightarrow>
          if rest \<noteq> [] then (pool_set Enc rest ps, Some obj) else (ps, Some (CreateInstance obj)))"

definition CheckEncoding :: "'s vtable \<Rightarrow> serobj \<Rightarrow> 's stream \<Rightarrow> ('s stream \<times> bool) option" where
  "CheckEncoding vt obj =
     (case so_Kind obj of
        Native_kind \<Rightarrow> nat_CheckEncoding vt | Xml_kind \<Rightarrow> xml_CheckEncoding vt | Idl_kind \<Rightarrow> idl_CheckEncoding vt)"

fun DetectEncoding :: "'s vtable \<Rightarrow> pools \<Rightarrow> 's stream \<Rightarrow> ('s stream \<times> string) option" where
  "DetectEncoding vt [] s = Some (s, [])"
| "DetectEncoding vt ((n, xs) # ps) s =
     (case xs of
        [] \<Rightarrow> DetectEncoding vt ps s
      | obj # _ \<Rightarrow>
          (case CheckEncoding vt obj s of
             None \<Rightarrow> None
           | Some (s1, found) \<Rightarrow> if found then Some (s1, n) else DetectEncoding vt ps s1))"

section \<open>Encoding and decoding through the factory\<close>

text \<open>A use of a serializer: the text formats work on their members and the stream.\<close>

definition text_use :: "serobj \<Rightarrow> 's textworld act \<Rightarrow> 's stream \<Rightarrow> (serobj \<times> 's stream \<times> bool) option" where
  "text_use obj f s =
     map_option (\<lambda>(w, rv). (obj\<lparr>so_NewLine := m_NewLine w, so_IndentLevel := m_IndentLevel w\<rparr>, tw_Stream w, rv))
       (f \<lparr>tw_Stream = s, tw_Ptr = False, m_NewLine = so_NewLine obj, m_IndentLevel = so_IndentLevel obj\<rparr>)"

definition serializer_encode ::
  "venv \<Rightarrow> 's vtable \<Rightarrow> attrib list \<Rightarrow> serobj \<Rightarrow> datum \<Rightarrow> cksum \<Rightarrow> 's stream \<Rightarrow> (serobj \<times> 's stream \<times> bool) option" where
  "serializer_encode E vt ord obj d chk s =
     (case so_Kind obj of
        Native_kind \<Rightarrow> map_option (\<lambda>(s1, rv). (obj, s1, rv)) (Datum_Encode (Some (SerDesNative E vt)) d chk s)
      | Xml_kind \<Rightarrow> text_use obj (Datum_Encode (Some (SerDesXml E vt)) d chk) s
      | Idl_kind \<Rightarrow> text_use obj (Datum_Encode (Some (SerDesIdl E vt ord)) d chk) s)"

definition serializer_decode ::
  "venv \<Rightarrow> 's vtable \<Rightarrow> attrib list \<Rightarrow> serobj \<Rightarrow> 's stream \<Rightarrow> datum \<Rightarrow> bool \<Rightarrow> ('s stream \<times> datum \<times> bool) option" where
  "serializer_decode E vt ord obj s d Check =
     (case so_Kind obj of
        Native_kind \<Rightarrow> Datum_Decode E vt (Some (SerDesNative E vt)) s d Check
      | Xml_kind \<Rightarrow> Datum_Decode E vt (Some (SerDesXml E vt)) s d Check
      | Idl_kind \<Rightarrow> Datum_Decode E vt (Some (SerDesIdl E vt ord)) s d Check)"

text \<open>\<open>Datum::Encode\<close> and \<open>Datum::Decode\<close> on a stream, with the name of the encoding.\<close>

definition Encode_named ::
  "venv \<Rightarrow> 's vtable \<Rightarrow> attrib list \<Rightarrow> datum \<Rightarrow> string \<Rightarrow> cksum \<Rightarrow> pools \<Rightarrow> 's stream \<Rightarrow> (pools \<times> 's stream \<times> bool) option" where
  "Encode_named E vt ord d Enc ChkMode ps s =
     (if m_Inert d then Some (ps, s, False)
      else
        (case SerDesGet Enc ps of
           (ps1, None) \<Rightarrow> Some (ps1, s, False)
         | (ps1, Some obj) \<Rightarrow>
             map_option (\<lambda>(obj1, s1, rv). (fst (SerDesPut (Some obj1) ps1), s1, rv)) (serializer_encode E vt ord obj d ChkMode s)))"

definition Decode_named ::
  "venv \<Rightarrow> 's vtable \<Rightarrow> attrib list \<Rightarrow> datum \<Rightarrow> bool \<Rightarrow> string \<Rightarrow> pools \<Rightarrow> 's stream \<Rightarrow> (pools \<times> 's stream \<times> datum \<times> bool) option" where
  "Decode_named E vt ord d Check Enc ps s =
     (if m_Inert d then Some (ps, s, d, False)
      else do {
        (s1, encoder) \<leftarrow> (if Enc = k_SerDesAuto then DetectEncoding vt ps s else Some (s, Enc));
        if encoder = [] then Some (ps, s1, d, False)
        else
          (case SerDesGet encoder ps of
             (ps1, None) \<Rightarrow> Some (ps1, s1, d, False)
           | (ps1, Some obj) \<Rightarrow>
               map_option (\<lambda>(s2, d1, rv). (fst (SerDesPut (Some obj) ps1), s2, d1, rv)) (serializer_decode E vt ord obj s1 d Check))
      })"

section \<open>The pools\<close>

text \<open>There is a pool for each name, none is empty, and each holds serializers of its name's kind.\<close>

definition pools_ok :: "pools \<Rightarrow> bool" where
  "pools_ok ps \<longleftrightarrow> (\<exists>xi xn xx. ps = [(''Idl'', xi), (''Native'', xn), (''Xml'', xx)] \<and> xi \<noteq> [] \<and> xn \<noteq> [] \<and> xx \<noteq> [] \<and>
     (\<forall>obj \<in> set xi. so_Kind obj = Idl_kind) \<and> (\<forall>obj \<in> set xn. so_Kind obj = Native_kind) \<and> (\<forall>obj \<in> set xx. so_Kind obj = Xml_kind))"

lemma names_ordered: "''Idl'' < ''Native''" "''Idl'' < ''Xml''" "''Native'' < ''Xml''"
  by code_simp+

lemma names_order [simp]: "\<not> ''Native'' < ''Idl''" "\<not> ''Xml'' < ''Idl''" "\<not> ''Xml'' < ''Native''"
  using names_ordered by (simp_all add: not_less order.strict_implies_order)

lemma factory_ok: "pools_ok SerDesFactory_new"
  using names_ordered by (simp add: pools_ok_def SerDesFactory_new_def SerDesPut_def SerDes_new_def)

lemma ser_put_ok: "pools_ok ps \<Longrightarrow> pools_ok (fst (SerDesPut (Some obj) ps))"
  by (cases "so_Kind obj") (auto simp: pools_ok_def SerDesPut_def)

lemma ser_get_ok:
  assumes "pools_ok ps" "SerDesGet Enc ps = (ps1, r)"
  shows "pools_ok ps1 \<and> (case r of Some obj \<Rightarrow> SerDes_NameGet (so_Kind obj) = Enc | None \<Rightarrow> Enc \<notin> {''Idl'', ''Native'', ''Xml''})"
proof -
  obtain qi qn qx where q: "ps = [(''Idl'', qi), (''Native'', qn), (''Xml'', qx)]" "qi \<noteq> []" "qn \<noteq> []" "qx \<noteq> []"
    and k0: "\<forall>obj \<in> set qi. so_Kind obj = Idl_kind" "\<forall>obj \<in> set qn. so_Kind obj = Native_kind" "\<forall>obj \<in> set qx. so_Kind obj = Xml_kind"
    using assms(1) unfolding pools_ok_def by blast
  obtain xi yi xn yn xx yx where e: "qi = xi # yi" "qn = xn # yn" "qx = xx # yx" using q(2-4) by (meson list.exhaust)
  note ps = q(1) [unfolded e] and k = k0 [unfolded e]
  have new: "so_Kind (CreateInstance obj) = so_Kind obj" for obj by (simp add: CreateInstance_def SerDes_new_def)
  have ok: "pools_ok [(''Idl'', ai), (''Native'', an), (''Xml'', ax)]"
    if a: "ai = xi # yi \<or> ai = yi \<and> yi \<noteq> []" "an = xn # yn \<or> an = yn \<and> yn \<noteq> []" "ax = xx # yx \<or> ax = yx \<and> yx \<noteq> []" for ai an ax
  proof -
    have "ai \<noteq> [] \<and> (\<forall>obj \<in> set ai. so_Kind obj = Idl_kind)" using a(1) k(1) by fastforce
    moreover have "an \<noteq> [] \<and> (\<forall>obj \<in> set an. so_Kind obj = Native_kind)" using a(2) k(2) by fastforce
    moreover have "ax \<noteq> [] \<and> (\<forall>obj \<in> set ax. so_Kind obj = Xml_kind)" using a(3) k(3) by fastforce
    ultimately show ?thesis unfolding pools_ok_def by blast
  qed
  consider "Enc = ''Idl''" | "Enc = ''Native''" | "Enc = ''Xml''" | "Enc \<notin> {''Idl'', ''Native'', ''Xml''}" by blast
  then show ?thesis
  proof cases
    case 1
    then have "ps1 = [(''Idl'', if yi \<noteq> [] then yi else xi # yi), (''Native'', xn # yn), (''Xml'', xx # yx)]"
      "r = Some (if yi \<noteq> [] then xi else CreateInstance xi)" using assms(2) by (simp_all add: SerDesGet_def ps split: if_splits)
    then show ?thesis using 1 k(1) ok new by simp
  next
    case 2
    then have "ps1 = [(''Idl'', xi # yi), (''Native'', if yn \<noteq> [] then yn else xn # yn), (''Xml'', xx # yx)]"
      "r = Some (if yn \<noteq> [] then xn else CreateInstance xn)" using assms(2) by (simp_all add: SerDesGet_def ps split: if_splits)
    then show ?thesis using 2 k(2) ok new by simp
  next
    case 3
    then have "ps1 = [(''Idl'', xi # yi), (''Native'', xn # yn), (''Xml'', if yx \<noteq> [] then yx else xx # yx)]"
      "r = Some (if yx \<noteq> [] then xx else CreateInstance xx)" using assms(2) by (simp_all add: SerDesGet_def ps split: if_splits)
    then show ?thesis using 3 k(3) ok new by simp
  next
    case 4
    then have "map_of ps Enc = None" by (simp add: ps)
    then have "ps1 = ps" "r = None" using assms(2) by (simp_all add: SerDesGet_def)
    then show ?thesis using 4 assms(1) by simp
  qed
qed

text \<open>The pools after any sequence of calls: whatever is taken may come back changed, or not at all.\<close>

inductive factory :: "pools \<Rightarrow> bool" where
  factory_new: "factory SerDesFactory_new"
| factory_get: "factory ps \<Longrightarrow> factory (fst (SerDesGet Enc ps))"
| factory_put: "factory ps \<Longrightarrow> factory (fst (SerDesPut pSerDes ps))"

lemma factory_pools: "factory ps \<Longrightarrow> pools_ok ps"
proof (induction rule: factory.induct)
  case factory_new
  show ?case by (rule factory_ok)
next
  case (factory_get ps Enc)
  then show ?case using ser_get_ok [of ps Enc] by (cases "SerDesGet Enc ps") simp
next
  case (factory_put ps pSerDes)
  then show ?case using ser_put_ok by (cases pSerDes) (simp_all add: SerDesPut_def)
qed

text \<open>
  C18. Whatever was taken from the factory and returned to it before, a request for one of its three
  formats is served with a serializer of that format, and leaves no pool empty; a request for
  another name is refused, and a datum is then neither encoded nor decoded.
\<close>

theorem Factory_serves:
  assumes "factory ps"
  shows "(k \<in> {''Native'', ''Xml'', ''Idl''} \<longrightarrow> (\<exists>ps1 obj. SerDesGet k ps = (ps1, Some obj) \<and> SerDes_NameGet (so_Kind obj) = k \<and> pools_ok ps1))
    \<and> (k \<notin> {''Native'', ''Xml'', ''Idl''} \<longrightarrow> SerDesGet k ps = (ps, None) \<and> Encode_named E vt ord d k chk ps s = Some (ps, s, False) \<and>
        (k \<noteq> k_SerDesAuto \<longrightarrow> Decode_named E vt ord d Check k ps s = Some (ps, s, d, False)))"
proof (intro conjI impI)
  have ok: "pools_ok ps" by (rule factory_pools [OF assms])
  obtain ps1 r where g: "SerDesGet k ps = (ps1, r)" by fastforce
  from ser_get_ok [OF ok g] have r: "pools_ok ps1" "case r of Some obj \<Rightarrow> SerDes_NameGet (so_Kind obj) = k | None \<Rightarrow> k \<notin> {''Idl'', ''Native'', ''Xml''}" by simp_all
  show "\<exists>ps1 obj. SerDesGet k ps = (ps1, Some obj) \<and> SerDes_NameGet (so_Kind obj) = k \<and> pools_ok ps1" if "k \<in> {''Native'', ''Xml'', ''Idl''}"
    using that g r by (cases r) auto
  have "map_of ps k = None" if "k \<notin> {''Native'', ''Xml'', ''Idl''}" using ok that unfolding pools_ok_def by auto
  then show n: "SerDesGet k ps = (ps, None)" if "k \<notin> {''Native'', ''Xml'', ''Idl''}" using that by (simp add: SerDesGet_def)
  show "Encode_named E vt ord d k chk ps s = Some (ps, s, False)" if "k \<notin> {''Native'', ''Xml'', ''Idl''}"
    using n [OF that] by (simp add: Encode_named_def)
  show "Decode_named E vt ord d Check k ps s = Some (ps, s, d, False)" if "k \<notin> {''Native'', ''Xml'', ''Idl''}" "k \<noteq> k_SerDesAuto"
    using n [OF that(1)] that(2) by (simp add: Decode_named_def)
qed

theorem Factory_serves_witness:
  "\<exists>ps1 obj. SerDesGet ''Idl'' SerDesFactory_new = (ps1, Some obj) \<and> SerDes_NameGet (so_Kind obj) = ''Idl'' \<and> pools_ok ps1"
  using Factory_serves [OF factory_new, of "''Idl''"] by simp

section \<open>Detection\<close>

context block_store
begin

lemma nat_CheckEncoding_hit:
  assumes w: "wf s" and c: "content s = mk_Magic # mk_Pkg # rest"
  shows "\<exists>s1. nat_CheckEncoding vt s = Some (s1, True) \<and> wf s1 \<and> content s1 = content s \<and> st s1 = st s"
proof -
  have ne: "bs s \<noteq> []" using c by (auto simp: content_def)
  from Seek_spec [OF w ne, of 0] obtain s2 where s2: "Seek vt s 0 = (s2, True)" "wf s2" "st s2 = st s" "content s2 = content s" "ps s2 = 0" by auto
  have v0: "sees (st s) (content s) s2 (mk_Magic # mk_Pkg # rest)" using s2 c w by (simp add: s_sees_def)
  from sees_octet [OF v0] obtain s3 where 3: "Read_octet vt s2 = (s3, Some mk_Magic)" "sees (st s) (content s) s3 (mk_Pkg # rest)" .
  from sees_octet [OF 3(2)] obtain s4 where 4: "Read_octet vt s3 = (s4, Some mk_Pkg)" "sees (st s) (content s) s4 rest" .
  show ?thesis using s2(1) 3(1) 4 by (simp add: nat_CheckEncoding_def nat_DecodeIdent_def octets_expect_def s_sees_def)
qed

lemma detect_header:
  assumes p: "pools_ok ps0" and w: "wf s" and h: "bs s \<noteq> []" "\<exists>l \<in> set (lines_of (content s)). is_header l"
  shows "\<exists>s1. DetectEncoding vt ps0 s = Some (s1, ''Idl'') \<and> wf s1 \<and> content s1 = content s \<and> st s1 = st s"
proof -
  obtain obj yi tl where e: "ps0 = (''Idl'', obj # yi) # tl" "so_Kind obj = Idl_kind" using p unfolding pools_ok_def by (metis list.exhaust list.set_intros(1))
  from idl_CheckEncoding_spec [OF w] h obtain s1 where "idl_CheckEncoding vt s = Some (s1, True)" "wf s1" "content s1 = content s" "st s1 = st s" by auto
  then show ?thesis by (simp add: e CheckEncoding_def)
qed

lemma detect_native:
  assumes p: "pools_ok ps0" and w: "wf s" and c: "content s = mk_Magic # mk_Pkg # rest" and h: "\<not> (\<exists>l \<in> set (lines_of (content s)). is_header l)"
  shows "\<exists>s1. DetectEncoding vt ps0 s = Some (s1, ''Native'') \<and> wf s1 \<and> content s1 = content s \<and> st s1 = st s"
proof -
  obtain oi yi on yn tl where e: "ps0 = (''Idl'', oi # yi) # (''Native'', on # yn) # tl" "so_Kind oi = Idl_kind" "so_Kind on = Native_kind"
    using p unfolding pools_ok_def by (metis list.exhaust list.set_intros(1))
  from idl_CheckEncoding_spec [OF w] h obtain s1 where 1: "idl_CheckEncoding vt s = Some (s1, False)" "wf s1" "content s1 = content s" "st s1 = st s" by auto
  from nat_CheckEncoding_hit [OF 1(2)] c 1(3) obtain s2 where "nat_CheckEncoding vt s1 = Some (s2, True)" "wf s2" "content s2 = content s1" "st s2 = st s1" by auto
  then show ?thesis using 1 by (intro exI [of _ s2]) (simp add: e CheckEncoding_def)
qed

lemma Decode_named_hit:
  assumes p: "pools_ok ps0" and k: "k \<in> {''Native'', ''Xml'', ''Idl''}" and d: "\<not> m_Inert r" and det: "DetectEncoding vt ps0 s = Some (s1, k)"
    and dec: "\<And>obj. SerDes_NameGet (so_Kind obj) = k \<Longrightarrow> \<exists>s2 r1. serializer_decode E vt ord obj s1 r Check = Some (s2, r1, True) \<and> rep E r1 t"
  shows "\<exists>ps2 s2 r1. Decode_named E vt ord r Check k_SerDesAuto ps0 s = Some (ps2, s2, r1, True) \<and> rep E r1 t"
proof -
  obtain ps1 o' where g: "SerDesGet k ps0 = (ps1, o')" by fastforce
  with ser_get_ok [OF p g] k obtain obj where o: "o' = Some obj" "SerDes_NameGet (so_Kind obj) = k" by (cases o') auto
  from dec [OF o(2)] obtain s2 r1 where "serializer_decode E vt ord obj s1 r Check = Some (s2, r1, True)" "rep E r1 t" by blast
  then show ?thesis using g o(1) det d k by (auto simp: Decode_named_def)
qed

end

context growing_store
begin

lemma auto_native:
  assumes E: "env_ok E" and p: "pools_ok ps0" and w: "wf s" and r: "rep E d t" and ok: "tree_ok t"
    and rc: "\<not> m_Inert r" "NameGet E r = Some n" "n = [] \<or> root_named t" and chk: "Check \<longrightarrow> chk = ck_Crc32"
  shows "\<exists>ps1 s1. Encode_named E vt ord d ''Native'' chk ps0 s = Some (ps1, s1, True) \<and> pools_ok ps1 \<and>
    (if \<exists>l \<in> set (lines_of (content s1)). is_header l then \<exists>s2. DetectEncoding vt ps1 s1 = Some (s2, ''Idl'')
     else \<exists>ps2 s2 r1. Decode_named E vt ord r Check k_SerDesAuto ps1 s1 = Some (ps2, s2, r1, True) \<and> rep E r1 t)"
proof -
  have ni: "\<not> m_Inert d" using r by (cases t) simp
  obtain ps' o' where g: "SerDesGet ''Native'' ps0 = (ps', o')" by fastforce
  with ser_get_ok [OF p g] obtain obj where o: "o' = Some obj" "so_Kind obj = Native_kind" "pools_ok ps'"
    by (cases o') (auto elim: SerDes_NameGet.elims)
  from encode_packet [OF r ok w, of chk] obtain s1 where s1: "Datum_Encode (Some (SerDesNative E vt)) d chk s = Some (s1, True)" "wf s1"
    "content s1 = packet_octets t @ trailer_octets chk (Stream_Crc32Get (length (packet_octets t)) vt s1 (length (packet_octets t)))" by blast
  define ps1 where "ps1 = fst (SerDesPut (Some obj) ps')"
  have enc: "Encode_named E vt ord d ''Native'' chk ps0 s = Some (ps1, s1, True)"
    using ni g o(1,2) s1(1) by (simp add: Encode_named_def serializer_encode_def ps1_def)
  have p1: "pools_ok ps1" unfolding ps1_def by (rule ser_put_ok [OF o(3)])
  obtain rest where c: "content s1 = mk_Magic # mk_Pkg # rest" using s1(3) by (simp add: packet_octets_def)
  then have ne: "bs s1 \<noteq> []" by (auto simp: content_def)
  have P0: "length (packet_octets t) \<noteq> 0" by (simp add: packet_octets_def)
  show ?thesis
  proof (cases "\<exists>l \<in> set (lines_of (content s1)). is_header l")
    case True
    from detect_header [OF p1 s1(2) ne True] show ?thesis using enc p1 True by auto
  next
    case False
    from detect_native [OF p1 s1(2) c False] obtain s2 where s2: "DetectEncoding vt ps1 s1 = Some (s2, ''Native'')" "wf s2" "content s2 = content s1" "st s2 = st s1" by blast
    have cont: "content s2 = packet_octets t @ trailer_octets chk (Stream_Crc32Get (length (packet_octets t)) vt s2 (length (packet_octets t)))"
      using s1(3) s2(3,4) P0 by (simp add: Stream_Crc32Get_def)
    have "\<exists>s3 r1. serializer_decode E vt ord obj s2 r Check = Some (s3, r1, True) \<and> rep E r1 t" if "SerDes_NameGet (so_Kind obj) = ''Native''" for obj
      using native_decode [OF E s2(2) ok cont rc chk] that by (cases "so_Kind obj") (simp_all add: serializer_decode_def)
    from Decode_named_hit [OF p1 _ rc(1) s2(1) this] have "\<exists>ps2 s2 r1. Decode_named E vt ord r Check k_SerDesAuto ps1 s1 = Some (ps2, s2, r1, True) \<and> rep E r1 t"
      by simp
    then show ?thesis using enc p1 False by auto
  qed
qed

lemma auto_text:
  assumes E: "env_ok E" and o: "set ord = set idl_attribs" and p: "pools_ok ps0" "\<forall>q \<in> set ps0. \<forall>obj \<in> set (snd q). so_IndentLevel obj = 0"
    and w: "wf s" and r: "rep E d t" and ok: "tree_ok t" "tree_fits idl_keeps t" "tree_depth t \<le> 16382"
    and rc: "\<not> m_Inert r" "NameGet E r = Some n" "n = [] \<or> root_named t" and chk: "Check \<longrightarrow> chk = ck_Crc32"
  shows "\<exists>ps1 s1 ps2 s2 r1. Encode_named E vt ord d ''Idl'' chk ps0 s = Some (ps1, s1, True) \<and>
    Decode_named E vt ord r Check k_SerDesAuto ps1 s1 = Some (ps2, s2, r1, True) \<and> rep E r1 t"
proof -
  have ni: "\<not> m_Inert d" using r by (cases t) simp
  obtain ps' o' where g: "SerDesGet ''Idl'' ps0 = (ps', o')" by fastforce
  with ser_get_ok [OF p(1) g] obtain obj where obj: "o' = Some obj" "so_Kind obj = Idl_kind" "pools_ok ps'"
    by (cases o') (auto elim: SerDes_NameGet.elims)
  have "so_IndentLevel obj = 0"
    using g p(2) obj(1) by (auto simp: SerDesGet_def CreateInstance_def SerDes_new_def split: option.splits list.splits if_splits dest!: map_of_SomeD)
  then have w0: "wf (tw_Stream \<lparr>tw_Stream = s, tw_Ptr = False, m_NewLine = so_NewLine obj, m_IndentLevel = so_IndentLevel obj\<rparr>)"
    "m_IndentLevel \<lparr>tw_Stream = s, tw_Ptr = False, m_NewLine = so_NewLine obj, m_IndentLevel = so_IndentLevel obj\<rparr> = 0" using w by simp_all
  from idl_encode [OF r ok(1,3) w0, of ord chk] obtain w1 where w1: "Datum_Encode (Some (SerDesIdl E vt ord)) d chk
      \<lparr>tw_Stream = s, tw_Ptr = False, m_NewLine = so_NewLine obj, m_IndentLevel = so_IndentLevel obj\<rparr> = Some (w1, True)" "wf (tw_Stream w1)"
    "content (tw_Stream w1) = idl_packet t @ idl_trailer chk (Stream_Crc32Get (length (idl_packet t)) vt (tw_Stream w1) (length (idl_packet t)))" by blast
  let ?s1 = "tw_Stream w1"
  define ps1 where "ps1 = fst (SerDesPut (Some (obj\<lparr>so_NewLine := m_NewLine w1, so_IndentLevel := m_IndentLevel w1\<rparr>)) ps')"
  have enc: "Encode_named E vt ord d ''Idl'' chk ps0 s = Some (ps1, ?s1, True)"
    using ni g obj(1,2) w1(1) by (simp add: Encode_named_def serializer_encode_def text_use_def ps1_def)
  have p1: "pools_ok ps1" unfolding ps1_def by (rule ser_put_ok [OF obj(3)])
  have P0: "length (idl_packet t) \<noteq> 0" by (simp add: idl_packet_def text_line_def)
  then have ne: "bs ?s1 \<noteq> []" using w1(3) by (auto simp: content_def)
  have "is_header (hd (lines_of (content ?s1)))" "lines_of (content ?s1) \<noteq> []"
  proof -
    obtain z where z: "content ?s1 = to_octets tag_Hdr @ 10 # z" using w1(3) by (simp add: idl_packet_def text_line_def)
    have h: "to_octets tag_Hdr = [47, 47, 32, 68, 65, 84, 85, 77, 32, 73, 68, 76]" "of_octets [47, 47, 32, 68, 65, 84, 85, 77, 32, 73, 68, 76] = tag_Hdr"
      by code_simp+
    have "lines_of (content ?s1) = tag_Hdr # lines_of z" unfolding z by (subst lines_of.simps) (simp add: h)
    then show "is_header (hd (lines_of (content ?s1)))" "lines_of (content ?s1) \<noteq> []"
      using TagTrim_hit [of tag_Hdr "[]"] by (simp_all add: is_header_def solid_tags)
  qed
  then have "\<exists>l \<in> set (lines_of (content ?s1)). is_header l" by (meson hd_in_set)
  from detect_header [OF p1 w1(2) ne this] obtain s2 where s2: "DetectEncoding vt ps1 ?s1 = Some (s2, ''Idl'')" "wf s2" "content s2 = content ?s1" "st s2 = st ?s1" by blast
  have cont: "content s2 = idl_packet t @ idl_trailer chk (Stream_Crc32Get (length (idl_packet t)) vt s2 (length (idl_packet t)))"
    using w1(3) s2(3,4) P0 by (simp add: Stream_Crc32Get_def)
  have "\<exists>s3 r1. serializer_decode E vt ord obj s2 r Check = Some (s3, r1, True) \<and> rep E r1 t" if "SerDes_NameGet (so_Kind obj) = ''Idl''" for obj
    using idl_decode [OF E o s2(2) ok(1,2) cont rc chk] that by (cases "so_Kind obj") (simp_all add: serializer_decode_def)
  from Decode_named_hit [OF p1 _ rc(1) s2(1) this] show ?thesis using enc by fastforce
qed

end

text \<open>
  C16. A datum encoded in the native format and decoded with the encoding left open: the factory finds the
  native format and the same tree comes back, unless some line of the binary stream, within a name or
  a value for instance, begins like the header of the text format. Then the factory takes it for
  text, because the formats are tried in the order of their names.
\<close>

theorem Auto_native:
  assumes "env_ok E" and "factory ps" and "sb_rich (st s)" and "s_wf m_VecBlocks s" and "rep E d t" and "tree_ok t"
    and "\<not> m_Inert r" and "NameGet E r = Some n" and "n = [] \<or> root_named t" and "Check \<longrightarrow> chk = ck_Crc32"
  shows "\<exists>ps1 s1. Encode_named E StreamBuf_vt ord d ''Native'' chk ps s = Some (ps1, s1, True) \<and> pools_ok ps1 \<and>
    (if \<exists>l \<in> set (lines_of (sb_content s1)). is_header l then \<exists>s2. DetectEncoding StreamBuf_vt ps1 s1 = Some (s2, ''Idl'')
     else \<exists>ps2 s2 r1. Decode_named E StreamBuf_vt ord r Check k_SerDesAuto ps1 s1 = Some (ps2, s2, r1, True) \<and> rep E r1 t)"
  by (rule sbg.auto_native [OF assms(1) factory_pools [OF assms(2)]]) (use assms in auto)

theorem Auto_native_witness:
  "\<exists>ps1 s1. Encode_named plain_env StreamBuf_vt idl_attribs demo_datum ''Native'' ck_Crc32 SerDesFactory_new demo_stream = Some (ps1, s1, True) \<and>
    pools_ok ps1 \<and>
    (if \<exists>l \<in> set (lines_of (sb_content s1)). is_header l then \<exists>s2. DetectEncoding StreamBuf_vt ps1 s1 = Some (s2, ''Idl'')
     else \<exists>ps2 s2 r1. Decode_named plain_env StreamBuf_vt idl_attribs (Datum_new plain_env [] False) True k_SerDesAuto ps1 s1 =
       Some (ps2, s2, r1, True) \<and> rep plain_env r1 demo_tree)"
  by (rule Auto_native [OF plain_env_ok factory_new demo_stream_ok demo_rep demo_tree_ok(1) demo_target_ok]) simp_all

text \<open>
  C17. A datum encoded as text through the factory and decoded with the encoding left open: the factory finds
  the text format by the header in the first line, and the same tree comes back, under the conditions
  of the text format, when the serializers of the pools stand at level zero.
\<close>

theorem Auto_text:
  assumes "env_ok E" and "set ord = set idl_attribs" and "factory ps" and "\<forall>q \<in> set ps. \<forall>obj \<in> set (snd q). so_IndentLevel obj = 0"
    and "sb_rich (st s)" and "s_wf m_VecBlocks s" and "rep E d t" and "tree_ok t" and "tree_fits idl_keeps t" and "tree_depth t \<le> 16382"
    and "\<not> m_Inert r" and "NameGet E r = Some n" and "n = [] \<or> root_named t" and "Check \<longrightarrow> chk = ck_Crc32"
  shows "\<exists>ps1 s1 ps2 s2 r1. Encode_named E StreamBuf_vt ord d ''Idl'' chk ps s = Some (ps1, s1, True) \<and>
    Decode_named E StreamBuf_vt ord r Check k_SerDesAuto ps1 s1 = Some (ps2, s2, r1, True) \<and> rep E r1 t"
  by (rule sbg.auto_text [OF assms(1,2) factory_pools [OF assms(3)] assms(4)]) (use assms in auto)

theorem Auto_text_witness:
  "\<exists>ps1 s1 ps2 s2 r1. Encode_named plain_env StreamBuf_vt idl_attribs demo_datum ''Idl'' ck_Crc32 SerDesFactory_new demo_stream = Some (ps1, s1, True) \<and>
    Decode_named plain_env StreamBuf_vt idl_attribs (Datum_new plain_env [] False) True k_SerDesAuto ps1 s1 = Some (ps2, s2, r1, True) \<and>
    rep plain_env r1 demo_tree"
proof (rule Auto_text [OF plain_env_ok _ factory_new _ demo_stream_ok demo_rep demo_tree_ok demo_target_ok])
  show "\<forall>q \<in> set SerDesFactory_new. \<forall>obj \<in> set (snd q). so_IndentLevel obj = 0"
    by (simp add: SerDesFactory_new_def SerDesPut_def SerDes_new_def)
qed simp_all

end
