(* ===== verification/IpcMessage.thy ===== *)
theory IpcMessage
  imports IpcNode SerDesFactory
begin

text \<open>
  \<open>cpIpcDecoder\<close>, \<open>cpIpcPacket\<close> and \<open>cpIpcHandle\<close>: the ends of a conversation between nodes. A decoder turns
  the segments of a message into a buffer or a datum; a packet is a message under work, with its
  response; a handle stands for the response that a message is to get. A pointer to linked segments
  is their list, empty for NULL; a pointer to a node is whether there is one, the node itself is an
  argument. The factory's pools are threaded through; no result stands for what no result stands
  for in the decoding.
\<close>

definition msg_Raw :: u8 where "msg_Raw = 0"

record ipcdecoder =
  dec_Buffer :: buffer
  dec_Message :: datum
  dec_Stream :: "segstore stream"

definition IpcDecoder_new :: "venv \<Rightarrow> octets \<Rightarrow> (nat \<Rightarrow> octets option) \<Rightarrow> ipcdecoder" where
  "IpcDecoder_new E tblk al =
     \<lparr>dec_Buffer = Buf_null, dec_Message = Datum_new E ''Decoded'' False, dec_Stream = IpcStreamSeg_new tblk al 0\<rparr>"

definition LoadSegment ::
  "venv \<Rightarrow> attrib list \<Rightarrow> pools \<Rightarrow> ipcsegment list \<Rightarrow> ipcdecoder \<Rightarrow> (pools \<times> ipcdecoder \<times> bool) option" where
  "LoadSegment E ord ps pSeg dcd =
     (case Datum_Clear E (dec_Message dcd) of
        None \<Rightarrow> None
      | Some msg \<Rightarrow>
          let buf = Buf_Clear 0 (dec_Buffer dcd);
              strm = Stream_Clear SegStream_vt (dec_Stream dcd)
          in if pSeg = [] then Some (ps, \<lparr>dec_Buffer = buf, dec_Message = msg, dec_Stream = strm\<rparr>, False)
             else
               let strm1 = SegmentInject pSeg strm; type = MsgType (hd pSeg)
               in if type = msg_Raw \<or> type = msg_Control then
                    (let strm2 = fst (Seek SegStream_vt strm1 0)
                     in case Read_Buf (e_al E) SegStream_vt strm2 buf (LenGet SegStream_vt strm2) of
                          (strm3, buf1, n) \<Rightarrow>
                            Some (ps, \<lparr>dec_Buffer = buf1, dec_Message = msg, dec_Stream = strm3\<rparr>, n = LenGet SegStream_vt strm3))
                  else if type = msg_Datum then
                    map_option (\<lambda>(ps1, strm2, msg1, rv). (ps1, \<lparr>dec_Buffer = buf, dec_Message = msg1, dec_Stream = strm2\<rparr>, rv))
                      (Decode_named E SegStream_vt ord msg False k_SerDesAuto ps strm1)
                  else Some (ps, \<lparr>dec_Buffer = buf, dec_Message = msg, dec_Stream = strm1\<rparr>, False))"

section \<open>Packets\<close>

record ipcpacket =
  pk_Node :: bool
  pk_Seg :: "ipcsegment list"
  pk_Cur :: "nat list option"
  pk_Rsp :: datum
  pk_Decoder :: ipcdecoder

definition CurrentSet :: "ipcpacket \<Rightarrow> ipcpacket" where
  "CurrentSet pk = pk\<lparr>pk_Cur := Datum.Get (dec_Message (pk_Decoder pk))\<rparr>"

definition IpcPacket_new :: "venv \<Rightarrow> octets \<Rightarrow> (nat \<Rightarrow> octets option) \<Rightarrow> ipcpacket" where
  "IpcPacket_new E tblk al =
     CurrentSet \<lparr>pk_Node = False, pk_Seg = [], pk_Cur = None, pk_Rsp = Datum_new E ''Response'' False,
       pk_Decoder = IpcDecoder_new E tblk al\<rparr>"

definition pk_MsgType :: "ipcpacket \<Rightarrow> u32" where
  "pk_MsgType pk = (if pk_Seg pk \<noteq> [] then ucast (MsgType (hd (pk_Seg pk))) else 0)"

definition pk_MsgId :: "ipcpacket \<Rightarrow> u32" where
  "pk_MsgId pk = (if pk_Seg pk \<noteq> [] then MsgId (hd (pk_Seg pk)) else 0)"

definition pk_SrcAddr :: "ipcpacket \<Rightarrow> u32" where
  "pk_SrcAddr pk = (if pk_Seg pk \<noteq> [] then SrcAddr (hd (pk_Seg pk)) else 0)"

definition pk_Context :: "ipcpacket \<Rightarrow> u32" where
  "pk_Context pk = (if pk_Seg pk \<noteq> [] then Context (hd (pk_Seg pk)) else 0)"

definition pk_CtlCode :: "ipcpacket \<Rightarrow> u32" where
  "pk_CtlCode pk = (if pk_Seg pk \<noteq> [] then ucast (CtlCode (hd (pk_Seg pk))) else 0)"

definition PtrSeg :: "venv \<Rightarrow> attrib list \<Rightarrow> pools \<Rightarrow> ipcsegment list \<Rightarrow> ipcpacket \<Rightarrow> (pools \<times> ipcpacket \<times> bool) option" where
  "PtrSeg E ord ps pSegment pk =
     map_option (\<lambda>(ps1, dcd, rv). (ps1, pk\<lparr>pk_Seg := pSegment, pk_Decoder := dcd\<rparr>, rv)) (LoadSegment E ord ps pSegment (pk_Decoder pk))"

text \<open>The encoder that \<open>SendDat\<close> is given: \<open>Datum::Encode\<close> with its default arguments.\<close>

definition dat_enc :: "venv \<Rightarrow> attrib list \<Rightarrow> pools \<Rightarrow> datum \<Rightarrow> segstore stream \<Rightarrow> (segstore stream \<times> bool) option" where
  "dat_enc E ord ps d s = map_option (\<lambda>(ps1, s1, rv). (s1, rv)) (Encode_named E SegStream_vt ord d ''Native'' ck_None ps s)"

definition SendResponse ::
  "octets option \<Rightarrow> octets \<Rightarrow> (nat \<Rightarrow> octets option) \<Rightarrow> venv \<Rightarrow> attrib list \<Rightarrow> pools \<Rightarrow> ipcpacket \<Rightarrow>
   ('h, 'c) ipcnode \<Rightarrow> (('h, 'c) ipcnode \<times> bool) option" where
  "SendResponse blk tblk al E ord ps pk nd =
     (if pk_MsgId pk \<noteq> 0 \<and> pk_SrcAddr pk \<noteq> 0 \<and> pk_Node pk then
        map_option (\<lambda>(nd1, rv). (nd1, rv \<noteq> 0))
          (SendDat blk tblk al (pk_SrcAddr pk) (dat_enc E ord ps (pk_Rsp pk)) 0 (pk_MsgId pk) k_IpcDefaultPriority nd)
      else Some (nd, False))"

section \<open>Handles\<close>

record ipchandle =
  ih_MsgId :: u32
  ih_Node :: bool
  ih_Decoder :: "ipcdecoder option"

definition IpcHandle_new :: "bool \<Rightarrow> ipchandle" where
  "IpcHandle_new node = \<lparr>ih_MsgId = 0, ih_Node = node, ih_Decoder = None\<rparr>"

text \<open>Assignment leaves the decoder alone.\<close>

definition IpcHandle_assign :: "ipchandle \<Rightarrow> ipchandle \<Rightarrow> ipchandle" where
  "IpcHandle_assign rhs h = h\<lparr>ih_MsgId := ih_MsgId rhs, ih_Node := ih_Node rhs\<rparr>"

definition IsGood :: "ipchandle \<Rightarrow> bool" where
  "IsGood h = (ih_MsgId h \<noteq> 0)"

text \<open>\<open>made\<close> is the decoder that \<open>new\<close> delivers, if it does; \<open>ok\<close> is about the wait's semaphore, as in \<open>GetResponse\<close>.\<close>

definition WaitReply ::
  "ipcdecoder option \<Rightarrow> venv \<Rightarrow> attrib list \<Rightarrow> pools \<Rightarrow> bool \<Rightarrow> ('h, 'c) ipcnode \<Rightarrow> ipchandle \<Rightarrow>
   (('h, 'c) ipcnode \<times> pools \<times> ipchandle \<times> bool) option" where
  "WaitReply made E ord ps ok nd h =
     (case (if ih_Node h \<and> ih_MsgId h \<noteq> 0 then nd_GetResponse ok (ih_MsgId h) nd else (nd, False, None)) of
        (nd1, rv, out) \<Rightarrow>
          if \<not> rv then Some (nd1, ps, h, False)
          else
            (case (case ih_Decoder h of None \<Rightarrow> made | Some dcd \<Rightarrow> Some dcd) of
               None \<Rightarrow> Some (nd1, ps, h, False)
             | Some dcd \<Rightarrow>
                 map_option (\<lambda>(ps1, dec1, rv1). (nd1, ps1, h\<lparr>ih_Decoder := Some dec1\<rparr>, rv1))
                   (LoadSegment E ord ps (case out of None \<Rightarrow> [] | Some segs \<Rightarrow> segs) dcd)))"

definition ih_RegisterHandler ::
  "bool \<Rightarrow> bool \<Rightarrow> 'h \<Rightarrow> 'h \<Rightarrow> 'h option \<Rightarrow> 'c option \<Rightarrow> ipchandle \<Rightarrow> ('h, 'c) ipcnode \<Rightarrow> ('h, 'c) ipcnode \<times> bool" where
  "ih_RegisterHandler ok okd pre post ph c h nd =
     (if ih_Node h \<and> ih_MsgId h \<noteq> 0 then
        (case am_RegisterHandler ok okd pre post ph (ih_MsgId h) 1 c (nd_AccumMap nd) of
           (am, rv) \<Rightarrow> (nd\<lparr>nd_AccumMap := am\<rparr>, rv))
      else (nd, False))"

text \<open>The response, or none for the inert datum.\<close>

definition Response :: "ipchandle \<Rightarrow> datum option" where
  "Response h = map_option dec_Message (ih_Decoder h)"

section \<open>Sending data\<close>

lemma dat_enc_fills:
  assumes p: "pools_ok ps0" and r: "rep E d t" and ok: "tree_ok t" and f: "filling T [] s0"
  shows "\<exists>s. dat_enc E ord ps0 d s0 = Some (s, True) \<and> filling T (packet_octets t) s"
proof -
  have ni: "\<not> m_Inert d" using r by (cases t) simp
  obtain ps' o' where g: "SerDesGet ''Native'' ps0 = (ps', o')" by fastforce
  with ser_get_ok [OF p g] obtain obj where o: "o' = Some obj" "so_Kind obj = Native_kind"
    by (cases o') (auto elim: SerDes_NameGet.elims)
  have w: "ss_msg T (st s0) \<and> s_wf seg_blocks s0" using f by (simp add: filling_def)
  from growing_store.encode_packet [OF sm.growing_store_axioms r ok w, of ck_None] obtain s where
    s: "Datum_Encode (Some (SerDesNative E SegStream_vt)) d ck_None s0 = Some (s, True)" "ss_msg T (st s) \<and> s_wf seg_blocks s"
      "s_content seg_blocks s = packet_octets t" "s_end (ss_msg T) seg_blocks s" "s_packed seg_blocks s"
    by (auto simp: trailer_octets_def)
  have "packet_octets t \<noteq> []" by (simp add: packet_octets_def)
  then have "filling T (packet_octets t) s" using s(2-5) by (simp add: filling_def s_end_def)
  moreover have "dat_enc E ord ps0 d s0 = Some (s, True)"
    using ni g o s(1) by (simp add: dat_enc_def Encode_named_def serializer_encode_def)
  ultimately show ?thesis by blast
qed

lemma SendDat_spec:
  fixes nd :: "('h, 'c) ipcnode" and pri code :: u8 and ctx :: u32
  assumes "nd_Valid nd" and "xq_ok (m_TransmitQueue nd)" and "length b = 1024" "length tblk = 1024"
    and "\<And>k. \<exists>m. al k = Some m \<and> length m = 1024" and "dst \<noteq> 0"
    and p: "pools_ok ps0" and r: "rep E d t" and ok: "tree_ok t"
  defines "T \<equiv> out_hdr (m_NodeAddr nd) dst pri ctx msg_Datum code" and "n \<equiv> (length (packet_octets t) + 999) div 1000"
  shows "\<exists>q' mid segs. SendDat (Some b) tblk al dst (dat_enc E ord ps0 d) code ctx pri nd = Some (nd\<lparr>m_TransmitQueue := q'\<rparr>, mid) \<and>
    mid \<noteq> 0 \<and> xq_ok q' \<and> msg_ok segs \<and> msg_data segs = packet_octets t \<and>
    map hdr segs = map (fin_hdr (T\<lparr>h_MsgId := mid\<rparr>) n (length (packet_octets t) - 1000 * (n - 1))) [0..<n] \<and>
    xq_flat q' = filter (\<lambda>s. Priority s \<le> min pri 3) (xq_flat (m_TransmitQueue nd)) @ segs @
      filter (\<lambda>s. min pri 3 < Priority s) (xq_flat (m_TransmitQueue nd))"
proof -
  have ne: "packet_octets t \<noteq> []" by (simp add: packet_octets_def)
  show ?thesis unfolding SendDat_def T_def n_def
    by (rule send_encoded_spec [OF assms(1-6) ne]) (rule dat_enc_fills [OF p r ok])
qed

section \<open>Loading a message\<close>

text \<open>A decoder between two messages: its stream is good, its datum can be cleared and takes the name of the tree.\<close>

definition decoder_ok :: "venv \<Rightarrow> dtree \<Rightarrow> ipcdecoder \<Rightarrow> bool" where
  "decoder_ok E t dcd \<longleftrightarrow> ss_inv (st (dec_Stream dcd)) \<and> \<not> m_Inert (dec_Message dcd) \<and>
     (\<exists>n. NameGet E (dec_Message dcd) = Some n \<and> length n < 2 ^ 32 - 1 \<and> (n = [] \<or> root_named t))"

lemma Clear_named_again:
  assumes E: "env_ok E" and r: "\<not> m_Inert r" "NameGet E r = Some n" "length n < 2 ^ 32 - 1"
  obtains r1 n1 where "Datum_Clear E r = Some r1" "\<not> m_Inert r1" "NameGet E r1 = Some n1" "n = [] \<Longrightarrow> n1 = []"
proof -
  obtain r1 where r1: "Datum_Clear E r = Some r1" "\<not> m_Inert r1" "NameGet E r1 \<noteq> None" using Clear_named [OF E r] by metis
  obtain r2 where r2: "Datum_Clear E r = Some r2" "\<And>k. m_Attribs r2 k \<noteq> None \<Longrightarrow> k = attr_Name \<and> n \<noteq> []"
    using Clear_ready [OF r(1,2)] by metis
  have "NameGet E r1 = Some []" if "n = []"
  proof -
    have "m_Attribs r1 attr_Name = None" using r2(2) [of attr_Name] r2(1) r1(1) that by (cases "m_Attribs r2 attr_Name") auto
    then show ?thesis using new_inert_name [of E] by (simp add: NameGet_def Attr_def)
  qed
  then show thesis using r1 by (intro that [of r1 "the (NameGet E r1)"]) auto
qed

lemma LoadSegment_datum:
  assumes E: "env_ok E" and p: "pools_ok ps0" and m: "msg_ok segs" "msg_data segs = packet_octets t" and ty: "MsgType (hd segs) = msg_Datum"
    and ok: "tree_ok t" and h: "\<not> (\<exists>l \<in> set (lines_of (packet_octets t)). is_header l)" and d: "decoder_ok E t dcd"
  shows "\<exists>ps1 dec1. LoadSegment E ord ps0 segs dcd = Some (ps1, dec1, True) \<and> rep E (dec_Message dec1) t"
proof -
  from d obtain n where n: "NameGet E (dec_Message dcd) = Some n" "length n < 2 ^ 32 - 1" "n = [] \<or> root_named t" "\<not> m_Inert (dec_Message dcd)"
    and si: "ss_inv (st (dec_Stream dcd))" unfolding decoder_ok_def by blast
  from Clear_named_again [OF E n(4,1,2)] obtain r1 n1 where r1: "Datum_Clear E (dec_Message dcd) = Some r1" "\<not> m_Inert r1"
    "NameGet E r1 = Some n1" "n = [] \<Longrightarrow> n1 = []" by metis
  have nm: "n1 = [] \<or> root_named t" using r1(4) n(3) by blast
  let ?s = "Stream_Clear SegStream_vt (dec_Stream dcd)" and ?buf = "Buf_Clear 0 (dec_Buffer dcd)"
  have "ss_inv (st ?s)" using si by (simp add: Stream_Clear_def Stream_new_def SegStream_vt_def ss_MemoryFree_def ss_inv_def)
  from Inject_spec [OF this m(1)] m(2) have s: "ss_inv (st (SegmentInject segs ?s)) \<and> s_wf seg_blocks (SegmentInject segs ?s)"
    "s_content seg_blocks (SegmentInject segs ?s) = packet_octets t" by simp_all
  obtain rest where c: "packet_octets t = mk_Magic # mk_Pkg # rest" by (simp add: packet_octets_def)
  have ne: "segs \<noteq> []" using m(2) c by (auto simp: msg_data_def)
  from block_store.detect_native [OF ss.block_store_axioms p s(1), unfolded s(2), OF c h] obtain s2 where
    s2: "DetectEncoding SegStream_vt ps0 (SegmentInject segs ?s) = Some (s2, ''Native'')" "ss_inv (st s2) \<and> s_wf seg_blocks s2"
      "s_content seg_blocks s2 = packet_octets t" by blast
  have cont: "s_content seg_blocks s2 = packet_octets t @
      trailer_octets ck_None (Stream_Crc32Get (length (packet_octets t)) SegStream_vt s2 (length (packet_octets t)))"
    using s2(3) by (simp add: trailer_octets_def)
  have nc: "False \<longrightarrow> ck_None = ck_Crc32" by simp
  have "\<exists>s3 r2. serializer_decode E SegStream_vt ord obj s2 r1 False = Some (s3, r2, True) \<and> rep E r2 t" if "SerDes_NameGet (so_Kind obj) = ''Native''" for obj
    using block_store.native_decode [OF ss.block_store_axioms E s2(2) ok cont r1(2,3) nm nc] that by (cases "so_Kind obj") (simp_all add: serializer_decode_def)
  from block_store.Decode_named_hit [OF ss.block_store_axioms p _ r1(2) s2(1) this] obtain ps2 s3 r2 where
    "Decode_named E SegStream_vt ord r1 False k_SerDesAuto ps0 (SegmentInject segs ?s) = Some (ps2, s3, r2, True)" "rep E r2 t" by auto
  then show ?thesis using r1(1) ne ty
    by (intro exI [of _ ps2] exI [of _ "\<lparr>dec_Buffer = ?buf, dec_Message = r2, dec_Stream = s3\<rparr>"])
      (simp add: LoadSegment_def Let_def msg_Raw_def msg_Datum_def msg_Control_def)
qed

lemma sent_hd:
  assumes "map hdr segs = map (fin_hdr ((out_hdr src dst pri ctx type code)\<lparr>h_MsgId := mid\<rparr>) n L) [0..<n]" and "msg_data segs \<noteq> []"
  shows "hd segs \<in> set segs" "MsgType (hd segs) = type" "Context (hd segs) = ctx" "DstAddr (hd segs) = dst"
proof -
  show h: "hd segs \<in> set segs" using assms(2) by (cases segs) (auto simp: msg_data_def)
  show "MsgType (hd segs) = type" "Context (hd segs) = ctx" "DstAddr (hd segs) = dst" using sent_fields [OF assms(1) h] by simp_all
qed

text \<open>
  C2. A datum goes from one node to another: \<open>SendDat\<close> returns a message number and puts segments for the
  destination in the transmit queue, in the order of priorities. When there are several, a receiver to
  which they come in any order, interleaved with any others, completes exactly this message; and a
  decoder that loads the message, on a host of any byte order, holds a datum that represents the same
  tree, provided that no line of the packet looks like the header of the text format.
\<close>

theorem Ipc_datum:
  assumes "nd_Valid nd" and "xq_reach (m_TransmitQueue nd)" and "length b = 1024" and "length tblk = 1024"
    and "\<And>k. \<exists>m. al k = Some m \<and> length m = 1024" and "dst \<noteq> 0"
    and "factory ps" and "rep Es d t" and "tree_ok t" and "\<forall>l \<in> set (lines_of (packet_octets t)). \<not> is_header l"
    and "env_ok Er" and "factory psr" and "decoder_ok Er t dcd"
  shows "\<exists>nd' mid segs psr' dcd'. SendDat (Some b) tblk al dst (dat_enc Es ord ps d) code ctx pri nd = Some (nd', mid) \<and> mid \<noteq> 0 \<and>
    xq_flat (m_TransmitQueue nd') = filter (\<lambda>s. Priority s \<le> min pri 3) (xq_flat (m_TransmitQueue nd)) @ segs @
      filter (\<lambda>s. min pri 3 < Priority s) (xq_flat (m_TransmitQueue nd)) \<and>
    (\<forall>s \<in> set segs. SrcAddr s = m_NodeAddr nd \<and> DstAddr s = dst \<and> MsgId s = mid \<and> Context s = ctx \<and> CtlCode s = code) \<and>
    (1000 < length (packet_octets t) \<and> length (packet_octets t) \<le> 65535000 \<longrightarrow>
      (\<forall>xs m0. mset (arrivals (Guid (hd segs)) xs) = mset segs \<and> m0 (Guid (hd segs)) = None \<longrightarrow>
        completed (Guid (hd segs)) (snd (accum_run xs m0)) = [segs])) \<and>
    LoadSegment Er ord psr segs dcd = Some (psr', dcd', True) \<and> rep Er (dec_Message dcd') t"
proof -
  from SendDat_spec [where al = al and ord = ord and code = code and ctx = ctx and pri = pri,
      OF assms(1) xq_reach_ok [OF assms(2)] assms(3-6) factory_pools [OF assms(7)] assms(8,9)]
  obtain q' mid segs where s: "SendDat (Some b) tblk al dst (dat_enc Es ord ps d) code ctx pri nd = Some (nd\<lparr>m_TransmitQueue := q'\<rparr>, mid)"
    "mid \<noteq> 0" "msg_ok segs" "msg_data segs = packet_octets t"
    "map hdr segs = map (fin_hdr ((out_hdr (m_NodeAddr nd) dst pri ctx msg_Datum code)\<lparr>h_MsgId := mid\<rparr>) ((length (packet_octets t) + 999) div 1000)
      (length (packet_octets t) - 1000 * ((length (packet_octets t) + 999) div 1000 - 1))) [0..<(length (packet_octets t) + 999) div 1000]"
    "xq_flat q' = filter (\<lambda>s. Priority s \<le> min pri 3) (xq_flat (m_TransmitQueue nd)) @ segs @
      filter (\<lambda>s. min pri 3 < Priority s) (xq_flat (m_TransmitQueue nd))" by blast
  have ne: "msg_data segs \<noteq> []" using s(4) by (simp add: packet_octets_def)
  have nh: "\<not> (\<exists>l \<in> set (lines_of (packet_octets t)). is_header l)" using assms(10) by blast
  from LoadSegment_datum [OF assms(11) factory_pools [OF assms(12)] s(3,4) sent_hd(2) [OF s(5) ne] assms(9) nh assms(13), where ord = ord]
  obtain psr' dcd' where l: "LoadSegment Er ord psr segs dcd = Some (psr', dcd', True)" "rep Er (dec_Message dcd') t" by blast
  have c: "completed (Guid (hd segs)) (snd (accum_run xs m0)) = [segs]"
    if "1000 < length (packet_octets t)" "length (packet_octets t) \<le> 65535000" "mset (arrivals (Guid (hd segs)) xs) = mset segs" "m0 (Guid (hd segs)) = None" for xs m0
    by (rule sent_completed [where msg = "packet_octets t" and segs = segs and ?m0.0 = m0 and xs = xs and mid = mid and src = "m_NodeAddr nd" and dst = dst
        and pri = pri and ctx = ctx and type = msg_Datum and code = code]) (use that in \<open>simp_all add: s(5) [simplified]\<close>)
  have sent: "SendDat (Some b) tblk al dst (dat_enc Es ord ps d) code ctx pri nd = Some (nd\<lparr>m_TransmitQueue := q'\<rparr>, mid) \<and> mid \<noteq> 0 \<and>
      xq_flat (m_TransmitQueue (nd\<lparr>m_TransmitQueue := q'\<rparr>)) = filter (\<lambda>s. Priority s \<le> min pri 3) (xq_flat (m_TransmitQueue nd)) @ segs @
      filter (\<lambda>s. min pri 3 < Priority s) (xq_flat (m_TransmitQueue nd))" using s(1,2,6) by simp
  have fields: "\<forall>s \<in> set segs. SrcAddr s = m_NodeAddr nd \<and> DstAddr s = dst \<and> MsgId s = mid \<and> Context s = ctx \<and> CtlCode s = code"
    using sent_fields [OF s(5)] by blast
  have arrive: "1000 < length (packet_octets t) \<and> length (packet_octets t) \<le> 65535000 \<longrightarrow>
      (\<forall>xs m0. mset (arrivals (Guid (hd segs)) xs) = mset segs \<and> m0 (Guid (hd segs)) = None \<longrightarrow>
        completed (Guid (hd segs)) (snd (accum_run xs m0)) = [segs])" using c by blast
  show ?thesis
    by (intro exI [of _ "nd\<lparr>m_TransmitQueue := q'\<rparr>"] exI [of _ mid] exI [of _ segs] exI [of _ psr'] exI [of _ dcd'] conjI
        sent [THEN conjunct1] sent [THEN conjunct2, THEN conjunct1] sent [THEN conjunct2, THEN conjunct2] fields arrive l)
qed

definition demo_decoder :: ipcdecoder where
  "demo_decoder = IpcDecoder_new plain_env (replicate 1024 0) (\<lambda>_. Some (replicate 1024 9))"

lemma demo_decoder_ok: "decoder_ok plain_env demo_tree demo_decoder"
proof -
  let ?v = "StrSet plain_env ''Decoded'' (Variant_new plain_env False)"
  have "has plain_env ?v (V_str (cstr (to_octets ''Decoded'')))" by (rule StrSet_has [OF plain_env_ok]) simp
  then have "StrGet plain_env ?v = Some (of_octets (cstr (to_octets ''Decoded'')))" by (rule getters_has(12))
  moreover have "of_octets (cstr (to_octets ''Decoded'')) = ''Decoded''" by code_simp
  ultimately have n: "NameGet plain_env (Datum_new plain_env ''Decoded'' False) = Some ''Decoded''" "\<not> m_Inert (Datum_new plain_env ''Decoded'' False)"
    by (simp_all add: NameGet_def Attr_def Datum_new_def NameSet_def AttrMod_def Rewind_def with_cursor_def with_attribs_def attr_at_def Let_def)
  have "ss_inv (st (IpcStreamSeg_new (replicate 1024 0) (\<lambda>_. Some (replicate 1024 9)) 0))"
    using new_null(1) [of "replicate 1024 0" "\<lambda>_. Some (replicate 1024 9)"] by (simp add: IpcStreamSeg_new_def Stream_new_def ss_MemoryAdd_def)
  with n show ?thesis by (simp add: decoder_ok_def demo_decoder_def IpcDecoder_new_def demo_tree_def)
qed

lemma demo_lines: "\<forall>l \<in> set (lines_of (packet_octets demo_tree)). \<not> is_header l"
proof -
  have p: "packet_octets demo_tree = [136, 160, 0, 162, 176, 13, 1, 97, 192, 5, 255, 254, 162, 163, 163, 161]"
    by code_simp
  have l: "lines_of [136, 160, 0, 162, 176, 13, 1, 97, 192, 5, 255, 254, 162, 163, 163, 161] =
      [of_octets [136, 160, 162, 176, 13, 1, 97, 192, 5, 255, 254, 162, 163, 163, 161]]" by (subst lines_of.simps) simp
  have "\<not> is_header (of_octets [136, 160, 162, 176, 13, 1, 97, 192, 5, 255, 254, 162, 163, 163, 161])" by code_simp
  then show ?thesis unfolding p l by simp
qed

theorem Ipc_datum_witness:
  "\<exists>nd' mid segs psr' dcd'. SendDat (Some (replicate 1024 0)) (replicate 1024 0) (\<lambda>_. Some (replicate 1024 9)) 18
      (dat_enc plain_env idl_attribs SerDesFactory_new demo_datum) 0 1 2 sample_node = Some (nd', mid) \<and> mid \<noteq> 0 \<and>
    LoadSegment plain_env idl_attribs SerDesFactory_new segs demo_decoder = Some (psr', dcd', True) \<and> rep plain_env (dec_Message dcd') demo_tree"
proof -
  have n: "xq_reach (m_TransmitQueue sample_node)" "nd_Valid sample_node" by (simp_all add: sample_node_def xq_new)
  have b: "length (replicate 1024 (0 :: u8)) = 1024" by simp
  have al: "\<exists>m. (\<lambda>_ :: nat. Some (replicate 1024 (9 :: u8))) k = Some m \<and> length m = 1024" for k by simp
  have d: "(18 :: u32) \<noteq> 0" by simp
  from Ipc_datum [where ord = idl_attribs and code = 0 and ctx = 1 and pri = 2, OF n(2,1) b b al d factory_new demo_rep demo_tree_ok(1) demo_lines
    plain_env_ok factory_new demo_decoder_ok] show ?thesis by blast
qed

text \<open>
  C3. A request gets its response: a server that answers a packet sends segments to the request's source
  with the request's number as their context. Once the client's accumulators have delivered this
  message, the handle that holds the request's number gets it with its next \<open>WaitReply\<close>, and its
  response represents the tree of the server's datum.
\<close>

theorem Ipc_reply:
  assumes "nd_Valid sn" and "xq_reach (m_TransmitQueue sn)" and "length b = 1024" and "length tblk = 1024"
    and "\<And>k. \<exists>m. al k = Some m \<and> length m = 1024"
    and "pk_Node pk" and "pk_SrcAddr pk \<noteq> 0" and "pk_MsgId pk \<noteq> 0"
    and "factory ps" and "rep Es (pk_Rsp pk) t" and "tree_ok t" and "\<forall>l \<in> set (lines_of (packet_octets t)). \<not> is_header l"
    and "am_ok (nd_AccumMap cn)" and "\<And>c. m_ContextMap (nd_AccumMap cn) (pk_MsgId pk) = Some c \<Longrightarrow> m_PtrDispatcher c = None"
    and "ih_Node h" and "ih_MsgId h = pk_MsgId pk" and "(case ih_Decoder h of None \<Rightarrow> made | Some x \<Rightarrow> Some x) = Some dcd"
    and "env_ok Er" and "factory psr" and "decoder_ok Er t dcd"
  shows "\<exists>sn' segs. SendResponse (Some b) tblk al Es ord ps pk sn = Some (sn', True) \<and> set segs \<subseteq> set (xq_flat (m_TransmitQueue sn')) \<and>
    (\<forall>s \<in> set segs. DstAddr s = pk_SrcAddr pk \<and> Context s = pk_MsgId pk) \<and>
    (\<exists>cn' psr' h' d1. WaitReply made Er ord psr True (cn\<lparr>nd_AccumMap := deliver True oke segs (nd_AccumMap cn)\<rparr>) h = Some (cn', psr', h', True) \<and>
      Response h' = Some d1 \<and> rep Er d1 t)"
proof -
  from SendDat_spec [where al = al and ord = ord and code = 0 and ctx = "pk_MsgId pk" and pri = k_IpcDefaultPriority,
      OF assms(1) xq_reach_ok [OF assms(2)] assms(3-5,7) factory_pools [OF assms(9)] assms(10,11)]
  obtain q' mid segs n L where s: "SendDat (Some b) tblk al (pk_SrcAddr pk) (dat_enc Es ord ps (pk_Rsp pk)) 0 (pk_MsgId pk) k_IpcDefaultPriority sn =
      Some (sn\<lparr>m_TransmitQueue := q'\<rparr>, mid)" "mid \<noteq> 0" "msg_ok segs" "msg_data segs = packet_octets t"
    "map hdr segs = map (fin_hdr ((out_hdr (m_NodeAddr sn) (pk_SrcAddr pk) k_IpcDefaultPriority (pk_MsgId pk) msg_Datum 0)\<lparr>h_MsgId := mid\<rparr>) n L) [0..<n]"
    "xq_flat q' = filter (\<lambda>s. Priority s \<le> min k_IpcDefaultPriority 3) (xq_flat (m_TransmitQueue sn)) @ segs @
      filter (\<lambda>s. min k_IpcDefaultPriority 3 < Priority s) (xq_flat (m_TransmitQueue sn))" by blast
  have ne: "msg_data segs \<noteq> []" using s(4) by (simp add: packet_octets_def)
  have nh: "\<not> (\<exists>l \<in> set (lines_of (packet_octets t)). is_header l)" using assms(12) by blast
  from LoadSegment_datum [OF assms(18) factory_pools [OF assms(19)] s(3,4) sent_hd(2) [OF s(5) ne] assms(11) nh assms(20), where ord = ord]
  obtain psr' dcd' where l: "LoadSegment Er ord psr segs dcd = Some (psr', dcd', True)" "rep Er (dec_Message dcd') t" by blast
  have "SendResponse (Some b) tblk al Es ord ps pk sn = Some (sn\<lparr>m_TransmitQueue := q'\<rparr>, True)"
    using assms(6-8) s(1,2) by (simp add: SendResponse_def)
  moreover have "set segs \<subseteq> set (xq_flat (m_TransmitQueue (sn\<lparr>m_TransmitQueue := q'\<rparr>)))" using s(6) by auto
  moreover have "\<forall>s \<in> set segs. DstAddr s = pk_SrcAddr pk \<and> Context s = pk_MsgId pk" using sent_fields [OF s(5)] by blast
  moreover from response_delivered [OF assms(13) sent_hd(3) [OF s(5) ne] assms(8,14), of oke] obtain am' where
    "GetResponse True (pk_MsgId pk) (deliver True oke segs (nd_AccumMap cn)) = (am', True, Some segs)" by blast
  then have "WaitReply made Er ord psr True (cn\<lparr>nd_AccumMap := deliver True oke segs (nd_AccumMap cn)\<rparr>) h =
      Some (cn\<lparr>nd_AccumMap := am'\<rparr>, psr', h\<lparr>ih_Decoder := Some dcd'\<rparr>, True)"
    using assms(8,15,16,17) l(1) by (simp add: WaitReply_def nd_GetResponse_def)
  then have "\<exists>cn' psr' h' d1. WaitReply made Er ord psr True (cn\<lparr>nd_AccumMap := deliver True oke segs (nd_AccumMap cn)\<rparr>) h = Some (cn', psr', h', True) \<and>
      Response h' = Some d1 \<and> rep Er d1 t" using l(2) by (auto simp: Response_def)
  ultimately show ?thesis by blast
qed

definition demo_packet :: ipcpacket where
  "demo_packet = \<lparr>pk_Node = True, pk_Seg = [MsgId_set 7 (SrcAddr_set 18 (IpcSegment_new (replicate 1024 0)))], pk_Cur = Some [],
     pk_Rsp = demo_datum, pk_Decoder = demo_decoder\<rparr>"

lemma demo_packet_ids: "pk_SrcAddr demo_packet = 18" "pk_MsgId demo_packet = 7" "pk_Node demo_packet" "pk_Rsp demo_packet = demo_datum"
proof -
  let ?s0 = "IpcSegment_new (replicate 1024 0)"
  have s0: "seg_ok ?s0" by (simp add: new_spec)
  from Addr_set_sets(1) [OF s0] have 1: "seg_sets (h_SrcAddr_update (\<lambda>_. 18)) ?s0 (SrcAddr_set 18 ?s0)" .
  then have "seg_ok (SrcAddr_set 18 ?s0)" by (simp add: seg_sets_def)
  from Id_set_sets(1) [OF this] have 2: "seg_sets (h_MsgId_update (\<lambda>_. 7)) (SrcAddr_set 18 ?s0) (MsgId_set 7 (SrcAddr_set 18 ?s0))" .
  have "h_SrcAddr (hdr (MsgId_set 7 (SrcAddr_set 18 ?s0))) = 18" "h_MsgId (hdr (MsgId_set 7 (SrcAddr_set 18 ?s0))) = 7"
    using 1 2 by (simp_all add: seg_sets_def)
  then show "pk_SrcAddr demo_packet = 18" "pk_MsgId demo_packet = 7" "pk_Node demo_packet" "pk_Rsp demo_packet = demo_datum"
    by (simp_all add: demo_packet_def pk_SrcAddr_def pk_MsgId_def hdr_def)
qed

theorem Ipc_reply_witness:
  "\<exists>sn' segs. SendResponse (Some (replicate 1024 0)) (replicate 1024 0) (\<lambda>_. Some (replicate 1024 9)) plain_env idl_attribs SerDesFactory_new
      demo_packet sample_node = Some (sn', True) \<and> (\<forall>s \<in> set segs. DstAddr s = 18 \<and> Context s = 7) \<and>
    (\<exists>cn' psr' h' d1. WaitReply (Some demo_decoder) plain_env idl_attribs SerDesFactory_new True
        (sample_node\<lparr>nd_AccumMap := deliver True True segs (nd_AccumMap sample_node)\<rparr>) \<lparr>ih_MsgId = 7, ih_Node = True, ih_Decoder = None\<rparr> =
        Some (cn', psr', h', True) \<and> Response h' = Some d1 \<and> rep plain_env d1 demo_tree)"
proof -
  have n: "xq_reach (m_TransmitQueue sample_node)" "nd_Valid sample_node" by (simp_all add: sample_node_def xq_new)
  have b: "length (replicate 1024 (0 :: u8)) = 1024" by simp
  have al: "\<exists>m. (\<lambda>_ :: nat. Some (replicate 1024 (9 :: u8))) k = Some m \<and> length m = 1024" for k by simp
  have am: "am_ok (nd_AccumMap sample_node)" "\<And>c. m_ContextMap (nd_AccumMap sample_node) 7 = Some c \<Longrightarrow> m_PtrDispatcher c = None"
    by (simp_all add: sample_node_def am_ok_def IpcAccumMap_new_def pool_empty_def)
  from Ipc_reply [where pk = demo_packet and cn = sample_node and ord = idl_attribs and made = "Some demo_decoder" and oke = True
      and h = "\<lparr>ih_MsgId = 7, ih_Node = True, ih_Decoder = None\<rparr>" and dcd = demo_decoder, unfolded demo_packet_ids,
      OF n(2,1) b b al _ _ _ factory_new demo_rep demo_tree_ok(1) demo_lines am _ _ _ plain_env_ok factory_new demo_decoder_ok]
  show ?thesis by (simp add: demo_packet_ids) blast
qed

end
