(* ===== verification/ThreadRun.thy ===== *)
theory ThreadRun
  imports SyncQueue
begin

text \<open>
  \<open>cpThread\<close> and its POSIX implementation \<open>cpThread_I\<close>: a thread that its owner suspends, resumes and
  asks to exit. The object is a record; the calls to the system are arguments. \<open>thr_step\<close> interleaves
  the atomic parts of the thread's own code, of the calls of its user's function, of the owner's calls and of the
  destructor; what is done under the state mutex is one step.
\<close>

section \<open>The thread object\<close>

datatype runstate = state_Error | state_Running | state_Suspended

record thread =
  th_Valid :: bool
  m_RunState :: runstate
  m_Selector :: u8
  m_ExitSync :: bool
  m_ExitFlag :: bool
  m_Abortable :: bool
  m_HasFunc :: bool
  m_SemSuspend :: semlite
  m_SemExit :: semlite

definition opt_Running :: u8 where "opt_Running = 0"
definition opt_Suspended :: u8 where "opt_Suspended = 1"
definition opt_NoExitSync :: u8 where "opt_NoExitSync = 2"

text \<open>What the calls to the system return; the size of the stack is absent if it cannot be read.\<close>

record pthread_os =
  os_attr_init :: bool
  os_getstacksize :: "nat option"
  os_setstacksize :: "nat \<Rightarrow> bool"
  os_create :: bool
  os_detach :: bool

text \<open>The stack that is asked for, if the default is too small.\<close>

definition stack_request :: "nat \<Rightarrow> pthread_os \<Rightarrow> nat option" where
  "stack_request StackSize os =
     (let minStackSize = 2 * 1024 * 1024;
          stackSize = (if StackSize > minStackSize then StackSize else minStackSize)
      in case os_getstacksize os of
           Some defaultSize \<Rightarrow> if defaultSize < stackSize then Some stackSize else None
         | None \<Rightarrow> None)"

text \<open>The result, and whether a thread was created.\<close>

definition ThreadStart :: "bool \<Rightarrow> nat \<Rightarrow> pthread_os \<Rightarrow> bool \<times> bool" where
  "ThreadStart hasFunc StackSize os =
     (let rv = hasFunc;
          rv = rv \<and> os_attr_init os;
          rv = rv \<and> (case stack_request StackSize os of Some n \<Rightarrow> os_setstacksize os n | None \<Rightarrow> True);
          rv = rv \<and> os_create os;
          created = rv;
          rv = rv \<and> os_detach os
      in (rv, created))"

definition Thread_new :: "bool \<Rightarrow> u8 \<Rightarrow> u8 \<Rightarrow> nat \<Rightarrow> pthread_os \<Rightarrow> thread \<times> bool" where
  "Thread_new hasFunc Flags Selector StackSize os =
     (case ThreadStart hasFunc StackSize os of
        (rv, created) \<Rightarrow>
          (\<lparr>th_Valid = rv,
            m_RunState = (if rv then if Flags AND opt_Suspended \<noteq> 0 then state_Suspended else state_Running else state_Error),
            m_Selector = Selector, m_ExitSync = (Flags AND opt_NoExitSync = 0), m_ExitFlag = False, m_Abortable = False,
            m_HasFunc = hasFunc, m_SemSuspend = SemLite_new True True 0 1, m_SemExit = SemLite_new True True 0 2\<rparr>,
           created))"

definition Thread_Resume :: "thread \<Rightarrow> thread" where
  "Thread_Resume t =
     (if th_Valid t \<and> m_RunState t = state_Suspended
      then t\<lparr>m_RunState := state_Running, m_SemSuspend := fst (SemLite_Give (m_SemSuspend t))\<rparr> else t)"

definition Thread_Suspend :: "thread \<Rightarrow> thread" where
  "Thread_Suspend t =
     (if th_Valid t \<and> m_RunState t = state_Running
      then t\<lparr>m_RunState := state_Suspended, m_SemSuspend := fst (SemLite_TryTake (m_SemSuspend t))\<rparr> else t)"

definition Thread_ExitReq :: "thread \<Rightarrow> thread" where
  "Thread_ExitReq t =
     (if th_Valid t then
        let t1 = t\<lparr>m_ExitFlag := True\<rparr>
        in if m_RunState t1 = state_Suspended
           then t1\<lparr>m_RunState := state_Running, m_SemSuspend := fst (SemLite_Give (m_SemSuspend t1))\<rparr> else t1
      else t)"

text \<open>\<open>WaitExit\<close> at the moment it ends.\<close>

definition Thread_WaitExit :: "thread \<Rightarrow> thread \<times> bool" where
  "Thread_WaitExit t =
     (if m_ExitSync t then case SemLite_Take (m_SemExit t) of (s, rv) \<Rightarrow> (t\<lparr>m_SemExit := s\<rparr>, rv) else (t, True))"

definition Thread_Abortable :: "bool \<Rightarrow> thread \<Rightarrow> thread" where
  "Thread_Abortable Enable t = t\<lparr>m_Abortable := Enable\<rparr>"

text \<open>The second component tells whether the system is asked to cancel the thread.\<close>

definition Thread_Abort :: "thread \<Rightarrow> thread \<times> bool" where
  "Thread_Abort t = (if m_Abortable t then (t\<lparr>m_RunState := state_Error\<rparr>, True) else (t, False))"

definition ThreadExit :: "thread \<Rightarrow> thread" where
  "ThreadExit t = t\<lparr>m_ExitFlag := True\<rparr>"

text \<open>The destructor: whether it waits, and the wait at the moment it ends.\<close>

definition Thread_delete_begin :: "thread \<Rightarrow> thread \<times> bool" where
  "Thread_delete_begin t =
     (if m_RunState t \<noteq> state_Error then let t1 = Thread_ExitReq t in (t1, m_ExitSync t1) else (t, False))"

section \<open>The thread's own code\<close>

text \<open>
  Where the thread is: at the read of the state in \<open>ThreadPoll\<close>, at the wait for the resumption, at
  the read of the exit flag (each with a flag that tells the poll of \<open>InvokeUserFunc\<close> from those of the
  user's function), in the user's function with the result of its last poll, before the two gives, or
  at its end.
\<close>

datatype thr_pc = At_state bool | At_wait bool | At_flag bool | In_user bool | At_give1 | At_give2 | At_end

text \<open>The steps of the library's code; none is possible in the user's function or while it is blocked.\<close>

definition after_user :: "thread \<Rightarrow> thr_pc" where
  "after_user t = (if m_ExitSync t then At_give1 else At_end)"

definition thread_next :: "thread \<Rightarrow> thr_pc \<Rightarrow> (thread \<times> thr_pc) option" where
  "thread_next t pc =
     (case pc of
        At_state b \<Rightarrow> Some (t, if m_RunState t = state_Suspended then At_wait b else At_flag b)
      | At_wait b \<Rightarrow>
          (case SemLite_Take (m_SemSuspend t) of
             (s, True) \<Rightarrow> Some (t\<lparr>m_SemSuspend := s\<rparr>, At_flag b)
           | (s, False) \<Rightarrow> None)
      | At_flag b \<Rightarrow>
          Some (t, if b then if \<not> m_ExitFlag t \<and> m_HasFunc t then In_user True else after_user t
                   else In_user (\<not> m_ExitFlag t))
      | In_user _ \<Rightarrow> None
      | At_give1 \<Rightarrow> Some (t\<lparr>m_SemExit := fst (SemLite_Give (m_SemExit t))\<rparr>, At_give2)
      | At_give2 \<Rightarrow> Some (t\<lparr>m_SemExit := fst (SemLite_Give (m_SemExit t))\<rparr>, At_end)
      | At_end \<Rightarrow> None)"

section \<open>All interleavings\<close>

text \<open>
  \<open>sys_waits\<close> counts the waits for the exit that returned, \<open>sys_delete\<close> tells how far the destructor is:
  not begun, waiting for the thread, or done. The user's function may poll, schedule or request the exit, and suspend
  or resume its own thread at any time; other threads leave the object alone once its destructor has begun.
\<close>

datatype del_pc = Del_no | Del_wait | Del_done

record thrsys =
  sys_thr :: thread
  sys_pc :: thr_pc
  sys_waits :: nat
  sys_delete :: del_pc

inductive thr_step :: "thrsys \<Rightarrow> thrsys \<Rightarrow> bool" where
  own: "thread_next (sys_thr s) (sys_pc s) = Some (t, pc) \<Longrightarrow> thr_step s (s\<lparr>sys_thr := t, sys_pc := pc\<rparr>)"
| user_poll: "sys_pc s = In_user b \<Longrightarrow> thr_step s (s\<lparr>sys_pc := At_state False\<rparr>)"
| user_exit: "sys_pc s = In_user b \<Longrightarrow> thr_step s (s\<lparr>sys_thr := ThreadExit (sys_thr s)\<rparr>)"
| user_return: "sys_pc s = In_user b \<Longrightarrow> thr_step s (s\<lparr>sys_pc := after_user (sys_thr s)\<rparr>)"
| user_suspend: "sys_pc s = In_user b \<Longrightarrow> thr_step s (s\<lparr>sys_thr := Thread_Suspend (sys_thr s)\<rparr>)"
| user_resume: "sys_pc s = In_user b \<Longrightarrow> thr_step s (s\<lparr>sys_thr := Thread_Resume (sys_thr s)\<rparr>)"
| user_exit_req: "sys_pc s = In_user b \<Longrightarrow> thr_step s (s\<lparr>sys_thr := Thread_ExitReq (sys_thr s)\<rparr>)"
| resume: "sys_delete s = Del_no \<Longrightarrow> thr_step s (s\<lparr>sys_thr := Thread_Resume (sys_thr s)\<rparr>)"
| suspend: "sys_delete s = Del_no \<Longrightarrow> thr_step s (s\<lparr>sys_thr := Thread_Suspend (sys_thr s)\<rparr>)"
| exit_req: "sys_delete s = Del_no \<Longrightarrow> thr_step s (s\<lparr>sys_thr := Thread_ExitReq (sys_thr s)\<rparr>)"
| wait_exit: "sys_delete s = Del_no \<Longrightarrow> m_ExitSync (sys_thr s) \<Longrightarrow> Thread_WaitExit (sys_thr s) = (t, True) \<Longrightarrow>
    thr_step s (s\<lparr>sys_thr := t, sys_waits := sys_waits s + 1\<rparr>)"
| delete_begin: "sys_delete s = Del_no \<Longrightarrow> Thread_delete_begin (sys_thr s) = (t, w) \<Longrightarrow>
    thr_step s (s\<lparr>sys_thr := t, sys_delete := (if w then Del_wait else Del_done)\<rparr>)"
| delete_end: "sys_delete s = Del_wait \<Longrightarrow> SemLite_Take (m_SemExit (sys_thr s)) = (x, True) \<Longrightarrow>
    thr_step s (s\<lparr>sys_thr := (sys_thr s)\<lparr>m_SemExit := x\<rparr>, sys_delete := Del_done\<rparr>)"

text \<open>A thread that could be started.\<close>

definition thr_start :: "u8 \<Rightarrow> u8 \<Rightarrow> nat \<Rightarrow> pthread_os \<Rightarrow> thrsys" where
  "thr_start Flags Selector StackSize os =
     \<lparr>sys_thr = fst (Thread_new True Flags Selector StackSize os), sys_pc = At_state True, sys_waits = 0, sys_delete = Del_no\<rparr>"

inductive thr_reach :: "thrsys \<Rightarrow> bool" where
  start: "th_Valid (fst (Thread_new True Flags Selector StackSize os)) \<Longrightarrow> thr_reach (thr_start Flags Selector StackSize os)"
| next_step: "thr_reach s \<Longrightarrow> thr_step s s' \<Longrightarrow> thr_reach s'"

section \<open>Invariant\<close>

definition gives_done :: "thr_pc \<Rightarrow> thread \<Rightarrow> nat" where
  "gives_done pc t = (if \<not> m_ExitSync t then 0 else case pc of At_give2 \<Rightarrow> 1 | At_end \<Rightarrow> 2 | _ \<Rightarrow> 0)"

text \<open>A working semaphore of the limit \<open>m\<close>, and its count.\<close>

definition sem_ok :: "semlite \<Rightarrow> nat \<Rightarrow> bool" where
  "sem_ok s m \<longleftrightarrow> sem_holds s (unat (sl_count s)) m"

definition sem_count :: "semlite \<Rightarrow> nat" where
  "sem_count s = unat (sl_count s)"

lemma sem_ok_iff: "sem_holds s n m \<longleftrightarrow> sem_ok s m \<and> sem_count s = n"
  by (auto simp: sem_ok_def sem_count_def sem_holds_def)

lemma give_count:
  "sem_ok s m \<Longrightarrow> sem_count s < m \<Longrightarrow> sem_ok (fst (SemLite_Give s)) m \<and> sem_count (fst (SemLite_Give s)) = Suc (sem_count s)"
  using give_holds [of s "sem_count s" m] by (simp add: sem_ok_iff)

lemma take_count:
  "sem_ok s m \<Longrightarrow> SemLite_Take s = (s', True) \<Longrightarrow> sem_ok s' m \<and> sem_count s = Suc (sem_count s')"
  using Take_holds [of s "sem_count s" m s' True] by (simp add: sem_ok_iff)

lemma take_possible: "sem_ok s m \<Longrightarrow> 0 < sem_count s \<Longrightarrow> \<exists>s'. SemLite_Take s = (s', True)"
  using Take_holds [of s "sem_count s" m] by (cases "SemLite_Take s") (simp add: sem_ok_iff)

lemma take_blocked: "sem_ok s m \<Longrightarrow> sem_count s = 0 \<Longrightarrow> \<not> snd (SemLite_Take s)"
  using Take_holds [of s "sem_count s" m] by (cases "SemLite_Take s") (simp add: sem_ok_iff)

lemma try_take_zero: "sem_ok s (Suc 0) \<Longrightarrow> sem_ok (fst (SemLite_TryTake s)) (Suc 0) \<and> sem_count (fst (SemLite_TryTake s)) = 0"
  using Take_holds [of s "sem_count s" "Suc 0" "fst (SemLite_Take s)" "snd (SemLite_Take s)"]
  by (auto simp: SemLite_TryTake_def sem_ok_def sem_count_def sem_holds_def)

lemma new_count: "sem_ok (SemLite_new True True 0 1) (Suc 0) \<and> sem_count (SemLite_new True True 0 1) = 0"
    "sem_ok (SemLite_new True True 0 2) 2 \<and> sem_count (SemLite_new True True 0 2) = 0"
  using new_holds [of 0 1] new_holds [of 0 2] by (simp_all add: sem_ok_iff)

lemmas sem_counts = give_count take_count try_take_zero

fun is_wait :: "thr_pc \<Rightarrow> bool" where
  "is_wait (At_wait b) = True"
| "is_wait _ = False"

definition thr_ok :: "thrsys \<Rightarrow> bool" where
  "thr_ok s \<longleftrightarrow>
     th_Valid (sys_thr s) \<and> m_RunState (sys_thr s) \<noteq> state_Error \<and> m_HasFunc (sys_thr s) \<and>
     sem_ok (m_SemSuspend (sys_thr s)) (Suc 0) \<and> sem_ok (m_SemExit (sys_thr s)) 2 \<and>
     (m_RunState (sys_thr s) = state_Suspended \<longrightarrow> sem_count (m_SemSuspend (sys_thr s)) = 0) \<and>
     (m_RunState (sys_thr s) = state_Running \<longrightarrow> is_wait (sys_pc s) \<longrightarrow> sem_count (m_SemSuspend (sys_thr s)) = Suc 0) \<and>
     (m_ExitSync (sys_thr s) \<longrightarrow>
        sem_count (m_SemExit (sys_thr s)) + sys_waits s + (if sys_delete s = Del_done then 1 else 0) =
        gives_done (sys_pc s) (sys_thr s)) \<and>
     (\<not> m_ExitSync (sys_thr s) \<longrightarrow> sys_pc s \<noteq> At_give1 \<and> sys_pc s \<noteq> At_give2) \<and>
     (sys_delete s \<noteq> Del_no \<longrightarrow> m_ExitFlag (sys_thr s)) \<and>
     (sys_delete s = Del_wait \<longrightarrow> m_ExitSync (sys_thr s))"

lemma thr_ok_start:
  assumes "th_Valid (fst (Thread_new True Flags Selector StackSize os))"
  shows "thr_ok (thr_start Flags Selector StackSize os)"
  using assms new_count
  by (auto simp: thr_ok_def thr_start_def Thread_new_def gives_done_def split: prod.splits)

lemma not_error: "r \<noteq> state_Error \<Longrightarrow> r = state_Running \<or> r = state_Suspended"
  by (cases r) simp_all

lemma resume_ok: "thr_ok s \<Longrightarrow> thr_ok (s\<lparr>sys_thr := Thread_Resume (sys_thr s)\<rparr>)"
  by (auto simp: thr_ok_def Thread_Resume_def gives_done_def sem_counts)

lemma suspend_ok: "thr_ok s \<Longrightarrow> thr_ok (s\<lparr>sys_thr := Thread_Suspend (sys_thr s)\<rparr>)"
  by (auto simp: thr_ok_def Thread_Suspend_def gives_done_def sem_counts)

lemma exit_req_ok: "thr_ok s \<Longrightarrow> thr_ok (s\<lparr>sys_thr := Thread_ExitReq (sys_thr s)\<rparr>)"
  by (auto simp: thr_ok_def Thread_ExitReq_def gives_done_def Let_def sem_counts)

lemma exit_req_running:
  "thr_ok s \<Longrightarrow> m_ExitFlag (Thread_ExitReq (sys_thr s)) \<and> m_RunState (Thread_ExitReq (sys_thr s)) = state_Running"
  by (auto simp: thr_ok_def Thread_ExitReq_def Let_def dest: not_error)

lemma own_ok:
  assumes "thr_ok s" "thread_next (sys_thr s) (sys_pc s) = Some (t, pc)"
  shows "thr_ok (s\<lparr>sys_thr := t, sys_pc := pc\<rparr>)"
proof (cases "sys_pc s")
  case (At_wait b)
  then obtain z where "SemLite_Take (m_SemSuspend (sys_thr s)) = (z, True)" "t = (sys_thr s)\<lparr>m_SemSuspend := z\<rparr>" "pc = At_flag b"
    using assms(2) by (auto simp: thread_next_def split: prod.splits bool.splits)
  then show ?thesis using At_wait assms(1) take_count [of "m_SemSuspend (sys_thr s)" "Suc 0" z]
    by (auto simp: thr_ok_def gives_done_def)
next
  case At_give1
  then have t: "t = (sys_thr s)\<lparr>m_SemExit := fst (SemLite_Give (m_SemExit (sys_thr s)))\<rparr>" "pc = At_give2"
    using assms(2) by (simp_all add: thread_next_def)
  have c: "m_ExitSync (sys_thr s)" "sem_ok (m_SemExit (sys_thr s)) 2" "sem_count (m_SemExit (sys_thr s)) = 0"
    using assms(1) At_give1 by (simp_all add: thr_ok_def gives_done_def)
  with give_count [of "m_SemExit (sys_thr s)" 2] At_give1 assms(1) show ?thesis unfolding t thr_ok_def gives_done_def by simp
next
  case At_give2
  then have t: "t = (sys_thr s)\<lparr>m_SemExit := fst (SemLite_Give (m_SemExit (sys_thr s)))\<rparr>" "pc = At_end"
    using assms(2) by (simp_all add: thread_next_def)
  have c: "m_ExitSync (sys_thr s)" "sem_ok (m_SemExit (sys_thr s)) 2" using assms(1) At_give2 by (simp_all add: thr_ok_def gives_done_def)
  moreover have n: "sem_count (m_SemExit (sys_thr s)) + sys_waits s + (if sys_delete s = Del_done then 1 else 0) = 1"
    using assms(1) At_give2 c(1) by (simp add: thr_ok_def gives_done_def)
  ultimately have g: "sem_ok (fst (SemLite_Give (m_SemExit (sys_thr s)))) 2"
    "sem_count (fst (SemLite_Give (m_SemExit (sys_thr s)))) = Suc (sem_count (m_SemExit (sys_thr s)))"
    using give_count [of "m_SemExit (sys_thr s)" 2] by simp_all
  have "Suc (sem_count (m_SemExit (sys_thr s)) + sys_waits s + (if sys_delete s = Del_done then 1 else 0)) = 2" using n by simp
  with g c(1) assms(1) show ?thesis unfolding t thr_ok_def gives_done_def by simp
next
  case (At_state b)
  then have "t = sys_thr s" "pc = (if m_RunState (sys_thr s) = state_Suspended then At_wait b else At_flag b)"
    using assms(2) by (auto simp: thread_next_def)
  then show ?thesis using At_state assms(1) by (cases "m_RunState (sys_thr s)") (simp_all add: thr_ok_def gives_done_def)
next
  case (At_flag b)
  then have "t = sys_thr s"
    "pc = (if b then if \<not> m_ExitFlag (sys_thr s) \<and> m_HasFunc (sys_thr s) then In_user True else after_user (sys_thr s)
       else In_user (\<not> m_ExitFlag (sys_thr s)))"
    using assms(2) by (auto simp: thread_next_def)
  then show ?thesis using At_flag assms(1) by (simp add: thr_ok_def gives_done_def after_user_def)
qed (use assms(2) in \<open>simp_all add: thread_next_def\<close>)

lemma thr_ok_step: "thr_step s s' \<Longrightarrow> thr_ok s \<Longrightarrow> thr_ok s'"
proof (induction rule: thr_step.induct)
  case (own s t pc)
  then show ?case using own_ok by blast
next
  case (wait_exit s t)
  then obtain z where z: "SemLite_Take (m_SemExit (sys_thr s)) = (z, True)" "t = (sys_thr s)\<lparr>m_SemExit := z\<rparr>"
    by (auto simp: Thread_WaitExit_def split: prod.splits if_splits)
  then show ?case using wait_exit(1,2,4) take_count [of _ 2, OF _ z(1)] by (auto simp: thr_ok_def gives_done_def)
next
  case (delete_begin s t w)
  then have t: "t = Thread_ExitReq (sys_thr s)" "w = m_ExitSync t"
    by (auto simp: Thread_delete_begin_def Let_def thr_ok_def)
  have f: "m_ExitSync (Thread_ExitReq (sys_thr s)) = m_ExitSync (sys_thr s)" by (simp add: Thread_ExitReq_def Let_def)
  from exit_req_ok [OF delete_begin(3)] exit_req_running [OF delete_begin(3)] show ?case unfolding t
    using delete_begin(1) by (auto simp: thr_ok_def f)
next
  case (delete_end s x)
  then show ?case using take_count [of _ 2, OF _ delete_end(2)] by (auto simp: thr_ok_def gives_done_def)
next
  case (user_poll s b)
  then show ?case by (simp add: thr_ok_def gives_done_def)
next
  case (user_exit s b)
  then show ?case by (simp add: thr_ok_def gives_done_def ThreadExit_def)
next
  case (user_return s b)
  then show ?case by (simp add: thr_ok_def gives_done_def after_user_def)
qed (simp_all add: resume_ok suspend_ok exit_req_ok)

lemma thr_reach_ok: "thr_reach s \<Longrightarrow> thr_ok s"
  by (induction rule: thr_reach.induct) (auto intro: thr_ok_start thr_ok_step)


section \<open>Waiting and exit\<close>

text \<open>Steps of a system that is asked to exit, with the waits of the clients unchanged.\<close>

lemma own_steps: "thread_next (sys_thr s) (sys_pc s) = Some (t, pc) \<Longrightarrow> thr_step\<^sup>*\<^sup>* (s\<lparr>sys_thr := t, sys_pc := pc\<rparr>) s' \<Longrightarrow> thr_step\<^sup>*\<^sup>* s s'"
  by (rule converse_rtranclp_into_rtranclp [of thr_step, OF own])

definition in_library :: "thr_pc \<Rightarrow> bool" where
  "in_library pc \<longleftrightarrow> pc \<noteq> At_end \<and> (\<forall>b. pc \<noteq> In_user b)"

fun pc_rank :: "thr_pc \<Rightarrow> nat" where
  "pc_rank (At_state b) = 6"
| "pc_rank (At_wait b) = 5"
| "pc_rank (At_flag b) = 4"
| "pc_rank (In_user b) = 3"
| "pc_rank At_give1 = 2"
| "pc_rank At_give2 = 1"
| "pc_rank At_end = 0"

text \<open>
  A thread at its poll that suspended itself after the destructor had asked it to exit: nobody is left to resume it.
\<close>

fun at_poll :: "thr_pc \<Rightarrow> bool" where
  "at_poll (At_state b) = True"
| "at_poll (At_wait b) = True"
| "at_poll _ = False"

definition polls_suspended :: "thrsys \<Rightarrow> bool" where
  "polls_suspended s \<longleftrightarrow> m_RunState (sys_thr s) = state_Suspended \<and> at_poll (sys_pc s)"

text \<open>The library's code goes on, step by step, unless the thread is suspended at its poll.\<close>

lemma own_progress:
  assumes "thr_ok s" "in_library (sys_pc s)" "\<not> polls_suspended s"
  obtains t pc where "thread_next (sys_thr s) (sys_pc s) = Some (t, pc)" "pc_rank pc < pc_rank (sys_pc s)"
    "\<not> at_poll pc" "m_ExitSync t = m_ExitSync (sys_thr s)"
proof (cases "sys_pc s")
  case (At_wait b)
  have "m_RunState (sys_thr s) = state_Running"
    using assms(1,3) At_wait by (cases "m_RunState (sys_thr s)") (simp_all add: polls_suspended_def thr_ok_def)
  then have "sem_ok (m_SemSuspend (sys_thr s)) (Suc 0)" "0 < sem_count (m_SemSuspend (sys_thr s))"
    using assms(1) At_wait by (simp_all add: thr_ok_def)
  with take_possible obtain z where "SemLite_Take (m_SemSuspend (sys_thr s)) = (z, True)" by blast
  then show ?thesis using that [of "(sys_thr s)\<lparr>m_SemSuspend := z\<rparr>" "At_flag b"] At_wait by (simp add: thread_next_def)
qed (use assms that in \<open>auto simp: thread_next_def in_library_def after_user_def polls_suspended_def\<close>)

lemma thr_ends:
  "thr_ok s \<Longrightarrow> sys_delete s = Del_wait \<Longrightarrow> \<not> polls_suspended s \<Longrightarrow>
    \<exists>s'. thr_step\<^sup>*\<^sup>* s s' \<and> thr_ok s' \<and> sys_delete s' = Del_wait \<and> sys_waits s' = sys_waits s \<and> sys_pc s' = At_end \<and>
      m_ExitSync (sys_thr s') = m_ExitSync (sys_thr s)"
proof (induction "pc_rank (sys_pc s)" arbitrary: s rule: less_induct)
  case less
  show ?case
  proof (cases "in_library (sys_pc s)")
    case True
    with less.prems(1,3) obtain t pc where n: "thread_next (sys_thr s) (sys_pc s) = Some (t, pc)"
      "pc_rank pc < pc_rank (sys_pc s)" "\<not> at_poll pc" "m_ExitSync t = m_ExitSync (sys_thr s)" by (metis own_progress)
    show ?thesis using less.hyps [of "s\<lparr>sys_thr := t, sys_pc := pc\<rparr>"] n own_ok [OF less.prems(1) n(1)] less.prems(2)
        own_steps [OF n(1)] by (auto simp: polls_suspended_def)
  next
    case False
    then consider "sys_pc s = At_end" | b where "sys_pc s = In_user b" by (auto simp: in_library_def)
    then show ?thesis
    proof cases
      case 1
      with less.prems show ?thesis by blast
    next
      case 2
      let ?s = "s\<lparr>sys_pc := after_user (sys_thr s)\<rparr>"
      have st: "thr_step s ?s" using user_return [OF 2] .
      have "pc_rank (sys_pc ?s) < pc_rank (sys_pc s)" "\<not> polls_suspended ?s" by (simp_all add: 2 after_user_def polls_suspended_def)
      then show ?thesis using less.hyps [of ?s] less.prems thr_ok_step [OF st less.prems(1)] converse_rtranclp_into_rtranclp [of thr_step, OF st]
        by auto
    qed
  qed
qed

text \<open>Once the destructor waits, a thread that is suspended at its poll stays there.\<close>

lemma stuck_step:
  "thr_step s s' \<Longrightarrow> thr_ok s \<Longrightarrow> sys_delete s = Del_wait \<Longrightarrow> polls_suspended s \<Longrightarrow> sys_delete s' = Del_wait \<and> polls_suspended s'"
proof (induction rule: thr_step.induct)
  case (own s t pc)
  have z: "\<not> snd (SemLite_Take (m_SemSuspend (sys_thr s)))"
    using own.prems by (intro take_blocked [of _ "Suc 0"]) (simp_all add: thr_ok_def polls_suspended_def)
  show ?case using own z
    by (auto simp: thread_next_def polls_suspended_def split: thr_pc.splits prod.splits bool.splits)
next
  case (delete_end s x)
  from delete_end have "sem_ok (m_SemExit (sys_thr s)) 2" "m_ExitSync (sys_thr s)" by (simp_all add: thr_ok_def)
  moreover from delete_end(5) have "gives_done (sys_pc s) (sys_thr s) = 0"
    by (cases "sys_pc s") (simp_all add: polls_suspended_def gives_done_def)
  moreover note delete_end(1,3) take_count [OF _ delete_end(2), of 2]
  ultimately show ?case by (simp add: thr_ok_def)
qed (simp_all add: polls_suspended_def)

lemma stuck_steps:
  assumes "thr_step\<^sup>*\<^sup>* s s'" "thr_ok s" "sys_delete s = Del_wait" "polls_suspended s"
  shows "sys_delete s' = Del_wait"
proof -
  have "thr_ok s' \<and> sys_delete s' = Del_wait \<and> polls_suspended s'"
    using assms(1) by (induction rule: rtranclp_induct) (use assms stuck_step thr_ok_step in blast)+
  then show ?thesis by simp
qed

lemma waits_mono: "thr_step\<^sup>*\<^sup>* s s' \<Longrightarrow> sys_waits s \<le> sys_waits s' \<and> m_ExitSync (sys_thr s') = m_ExitSync (sys_thr s)"
proof (induction rule: rtranclp_induct)
  case (step y z)
  have "sys_waits y \<le> sys_waits z \<and> m_ExitSync (sys_thr z) = m_ExitSync (sys_thr y)"
    using step(2)
    by (induction rule: thr_step.induct)
      (auto simp: thread_next_def ThreadExit_def Thread_Resume_def Thread_Suspend_def Thread_ExitReq_def Thread_WaitExit_def
        Thread_delete_begin_def Let_def split: thr_pc.splits prod.splits bool.splits if_splits)
  with step(3) show ?case by simp
qed simp

lemma thr_ok_steps: "thr_step\<^sup>*\<^sup>* s s' \<Longrightarrow> thr_ok s \<Longrightarrow> thr_ok s'"
  by (induction rule: rtranclp_induct) (auto intro: thr_ok_step)

text \<open>
  C10. A thread that waits for its resumption goes on exactly when it is running again: no resumption is
  lost and no suspension is overrun, whatever the interleaving of suspensions, resumptions and exit requests.
\<close>

theorem Thread_resumes:
  assumes "thr_reach s" "sys_pc s = At_wait b"
  shows "(thread_next (sys_thr s) (sys_pc s) \<noteq> None) = (m_RunState (sys_thr s) = state_Running)"
proof -
  have k: "thr_ok s" using thr_reach_ok [OF assms(1)] .
  show ?thesis
  proof (cases "m_RunState (sys_thr s) = state_Running")
    case True
    have "in_library (sys_pc s)" using assms(2) by (simp add: in_library_def)
    moreover have "\<not> polls_suspended s" using True by (simp add: polls_suspended_def)
    ultimately show ?thesis using own_progress [OF k] True by (metis option.distinct(1))
  next
    case False
    then have "sem_ok (m_SemSuspend (sys_thr s)) (Suc 0)" "sem_count (m_SemSuspend (sys_thr s)) = 0"
      using k not_error by (auto simp: thr_ok_def)
    from take_blocked [OF this] False assms(2) show ?thesis
      by (cases "SemLite_Take (m_SemSuspend (sys_thr s))") (simp add: thread_next_def)
  qed
qed

text \<open>A system that runs on any host whose calls succeed.\<close>

definition plain_os :: pthread_os where
  "plain_os = \<lparr>os_attr_init = True, os_getstacksize = Some 8388608, os_setstacksize = (\<lambda>_. True), os_create = True, os_detach = True\<rparr>"

lemma plain_os_start: "th_Valid (fst (Thread_new True Flags 0 0 plain_os))"
  by (simp add: Thread_new_def ThreadStart_def plain_os_def stack_request_def)

theorem Thread_resumes_witness:
  "\<exists>s. thr_reach s \<and> sys_pc s = At_wait True \<and> m_RunState (sys_thr s) = state_Suspended \<and> thread_next (sys_thr s) (sys_pc s) = None"
proof -
  let ?s0 = "thr_start opt_Suspended 0 0 plain_os"
  let ?s1 = "?s0\<lparr>sys_thr := sys_thr ?s0, sys_pc := At_wait True\<rparr>"
  have r: "m_RunState (sys_thr ?s0) = state_Suspended"
    by (simp add: thr_start_def Thread_new_def ThreadStart_def plain_os_def stack_request_def opt_Suspended_def)
  then have "thread_next (sys_thr ?s0) (sys_pc ?s0) = Some (sys_thr ?s0, At_wait True)" by (simp add: thread_next_def thr_start_def)
  then have "thr_reach ?s1" by (rule next_step [OF start [OF plain_os_start] own])
  from Thread_resumes [OF this, of True] this r show ?thesis
    by (intro exI [of _ ?s1] conjI) (simp_all del: not_None_eq)
qed

text \<open>
  C11. A destructor that waits for its thread can end, if the user's function returns, exactly if at most one other
  wait for the exit has returned before it and the thread is not at a poll after it suspended itself: no one is left
  to resume it then. Once the destructor ended, the user's function is over.
\<close>

theorem Thread_destructor:
  assumes "thr_reach s" "sys_delete s = Del_wait"
  shows "(\<exists>s'. thr_step\<^sup>*\<^sup>* s s' \<and> sys_delete s' = Del_done) =
      (sys_waits s \<le> 1 \<and>
       \<not> (m_RunState (sys_thr s) = state_Suspended \<and> (\<exists>b. sys_pc s = At_state b \<or> sys_pc s = At_wait b))) \<and>
    (\<forall>s'. thr_step\<^sup>*\<^sup>* s s' \<and> sys_delete s' = Del_done \<longrightarrow> sys_pc s' = At_give2 \<or> sys_pc s' = At_end)"
proof -
  have k: "thr_ok s" using thr_reach_ok [OF assms(1)] .
  have y: "m_ExitSync (sys_thr s)" using k assms(2) by (simp add: thr_ok_def)
  have p: "polls_suspended s =
    (m_RunState (sys_thr s) = state_Suspended \<and> (\<exists>b. sys_pc s = At_state b \<or> sys_pc s = At_wait b))"
    by (cases "sys_pc s") (auto simp: polls_suspended_def)
  have fin: "gives_done (sys_pc s') (sys_thr s') \<ge> sys_waits s + 1"
    if "thr_step\<^sup>*\<^sup>* s s'" "sys_delete s' = Del_done" for s'
    using thr_ok_steps [OF that(1) k] waits_mono [OF that(1)] that(2) y by (simp add: thr_ok_def)
  have le: "gives_done pc t \<le> 2" for pc t by (simp add: gives_done_def split: thr_pc.splits)
  have "\<exists>s'. thr_step\<^sup>*\<^sup>* s s' \<and> sys_delete s' = Del_done" if w: "sys_waits s \<le> 1" "\<not> polls_suspended s"
  proof -
    from thr_ends [OF k assms(2) w(2)] obtain s1 where s1: "thr_step\<^sup>*\<^sup>* s s1" "thr_ok s1" "sys_delete s1 = Del_wait"
      "sys_waits s1 = sys_waits s" "sys_pc s1 = At_end" "m_ExitSync (sys_thr s1)" using y by auto
    then have "sem_ok (m_SemExit (sys_thr s1)) 2" "0 < sem_count (m_SemExit (sys_thr s1))"
      using w(1) by (auto simp: thr_ok_def gives_done_def)
    with take_possible obtain z where "SemLite_Take (m_SemExit (sys_thr s1)) = (z, True)" by blast
    from rtranclp.rtrancl_into_rtrancl [OF s1(1) delete_end [OF s1(3) this]] show ?thesis
      by (intro exI conjI) (assumption, simp)
  qed
  moreover have "sys_waits s \<le> 1" "\<not> polls_suspended s" if "thr_step\<^sup>*\<^sup>* s s'" "sys_delete s' = Del_done" for s'
    using fin [OF that] le [of "sys_pc s'" "sys_thr s'"] stuck_steps [OF that(1) k assms(2)] that(2) by auto
  moreover have "sys_pc s' = At_give2 \<or> sys_pc s' = At_end" if "thr_step\<^sup>*\<^sup>* s s'" "sys_delete s' = Del_done" for s'
    using fin [OF that] by (auto simp: gives_done_def split: if_splits thr_pc.splits)
  ultimately show ?thesis unfolding p [symmetric] by blast
qed

text \<open>A thread that is deleted as soon as it was created.\<close>

lemma demo_delete:
  obtains s where "thr_reach s" "sys_delete s = Del_wait" "sys_waits s = 0" "sys_pc s = At_state True"
    "m_RunState (sys_thr s) = state_Running"
proof -
  let ?s0 = "thr_start 0 0 0 plain_os"
  obtain t w where d: "Thread_delete_begin (sys_thr ?s0) = (t, w)" by fastforce
  then have "w" "m_RunState t = state_Running"
    by (auto simp: Thread_delete_begin_def Thread_ExitReq_def thr_start_def Thread_new_def ThreadStart_def plain_os_def
        stack_request_def Let_def split: if_splits)
  moreover have "sys_delete ?s0 = Del_no" "sys_pc ?s0 = At_state True" "sys_waits ?s0 = 0" by (simp_all add: thr_start_def)
  moreover from next_step [OF start [OF plain_os_start] delete_begin [OF this(1) d]] \<open>w\<close>
  have "thr_reach (?s0\<lparr>sys_thr := t, sys_delete := Del_wait\<rparr>)" by simp
  ultimately show thesis using that [of "?s0\<lparr>sys_thr := t, sys_delete := Del_wait\<rparr>"] by simp
qed

theorem Thread_destructor_witness:
  "\<exists>s s'. thr_reach s \<and> sys_delete s = Del_wait \<and> thr_step\<^sup>*\<^sup>* s s' \<and> sys_delete s' = Del_done"
proof -
  obtain s where s: "thr_reach s" "sys_delete s = Del_wait" "sys_waits s = 0" "m_RunState (sys_thr s) = state_Running"
    by (rule demo_delete)
  from Thread_destructor [OF s(1,2)] s(3,4) have "\<exists>s'. thr_step\<^sup>*\<^sup>* s s' \<and> sys_delete s' = Del_done" by simp
  with s show ?thesis by blast
qed

text \<open>
  The destructor may end between the two gives: the thread still has to give the semaphore of the
  object that is gone.
\<close>

theorem Thread_deleted_too_early:
  "\<exists>s. thr_reach s \<and> sys_delete s = Del_done \<and> sys_pc s = At_give2"
proof -
  obtain s where s: "thr_reach s" "sys_delete s = Del_wait" "sys_waits s = 0" "sys_pc s = At_state True"
    "m_RunState (sys_thr s) = state_Running" by (rule demo_delete)
  note k = thr_reach_ok [OF s(1)]
  have f: "m_ExitFlag (sys_thr s)" "m_RunState (sys_thr s) = state_Running" "m_ExitSync (sys_thr s)"
    using k s(2,5) by (auto simp: thr_ok_def)
  let ?a = "s\<lparr>sys_thr := sys_thr s, sys_pc := At_flag True\<rparr>"
  let ?b = "?a\<lparr>sys_thr := sys_thr ?a, sys_pc := At_give1\<rparr>"
  let ?c = "?b\<lparr>sys_thr := (sys_thr s)\<lparr>m_SemExit := fst (SemLite_Give (m_SemExit (sys_thr s)))\<rparr>, sys_pc := At_give2\<rparr>"
  have a: "thr_reach ?a" by (rule next_step [OF s(1) own]) (simp add: thread_next_def s f)
  have b: "thr_reach ?b" by (rule next_step [OF a own]) (simp add: thread_next_def after_user_def f)
  have c: "thr_reach ?c" by (rule next_step [OF b own]) (simp add: thread_next_def)
  have "sem_ok (m_SemExit (sys_thr ?c)) 2" "0 < sem_count (m_SemExit (sys_thr ?c))"
    using thr_reach_ok [OF c] s(2,3) f by (simp_all add: thr_ok_def gives_done_def)
  with take_possible obtain z where "SemLite_Take (m_SemExit (sys_thr ?c)) = (z, True)" by blast
  from next_step [OF c delete_end [OF _ this]] s(2)
  show ?thesis by (intro exI [of _ "?c\<lparr>sys_thr := (sys_thr ?c)\<lparr>m_SemExit := z\<rparr>, sys_delete := Del_done\<rparr>"]) simp
qed

text \<open>
  A thread whose function suspends it when it is already asked to exit, as the receive thread of \<open>cpIpcNode\<close> does
  when it has no segment: its destructor never ends, though nobody else waited.
\<close>

theorem Thread_suspends_itself:
  "\<exists>s. thr_reach s \<and> sys_delete s = Del_wait \<and> sys_waits s = 0 \<and> (\<forall>s'. thr_step\<^sup>*\<^sup>* s s' \<longrightarrow> sys_delete s' \<noteq> Del_done)"
proof -
  let ?s0 = "thr_start 0 0 0 plain_os"
  let ?a = "?s0\<lparr>sys_thr := sys_thr ?s0, sys_pc := At_flag True\<rparr>"
  let ?b = "?a\<lparr>sys_thr := sys_thr ?a, sys_pc := In_user True\<rparr>"
  have f: "m_RunState (sys_thr ?s0) = state_Running" "\<not> m_ExitFlag (sys_thr ?s0)" "m_HasFunc (sys_thr ?s0)"
    "m_ExitSync (sys_thr ?s0)" "sys_pc ?s0 = At_state True" "sys_delete ?s0 = Del_no" "sys_waits ?s0 = 0"
    by (simp_all add: thr_start_def Thread_new_def ThreadStart_def plain_os_def stack_request_def)
  have a: "thr_reach ?a" by (rule next_step [OF start [OF plain_os_start] own]) (simp add: thread_next_def f)
  have b: "thr_reach ?b" by (rule next_step [OF a own]) (simp add: thread_next_def f)
  obtain t w where d: "Thread_delete_begin (sys_thr ?b) = (t, w)" by fastforce
  then have w: "w" "m_RunState t = state_Running" "th_Valid t"
    using f plain_os_start by (auto simp: Thread_delete_begin_def Thread_ExitReq_def Let_def thr_start_def split: if_splits)
  let ?c = "?b\<lparr>sys_thr := t, sys_delete := Del_wait\<rparr>"
  have c: "thr_reach ?c" using next_step [OF b delete_begin [OF _ d]] w f(6) by simp
  let ?d = "?c\<lparr>sys_thr := Thread_Suspend (sys_thr ?c)\<rparr>"
  have e: "thr_reach ?d" by (rule next_step [OF c user_suspend]) simp
  let ?e = "?d\<lparr>sys_pc := At_state False\<rparr>"
  have g: "thr_reach ?e" by (rule next_step [OF e user_poll]) simp
  have "polls_suspended ?e" using w by (simp add: polls_suspended_def Thread_Suspend_def)
  moreover have "sys_delete ?e = Del_wait" "sys_waits ?e = 0" by (simp_all add: f)
  ultimately show ?thesis using g stuck_steps [OF _ thr_reach_ok [OF g]] by (metis del_pc.distinct(5))
qed

text \<open>Whoever aborts a thread makes its destructor pass; without the mode, nothing is done.\<close>

lemma Abort_passes:
  "snd (Thread_delete_begin (fst (Thread_Abort t))) = (\<not> m_Abortable t \<and> m_RunState t \<noteq> state_Error \<and> m_ExitSync t)"
  by (auto simp: Thread_Abort_def Thread_delete_begin_def Thread_ExitReq_def Let_def)

text \<open>A thread that was told to exit before its first poll never enters the user's function.\<close>

definition never_user :: "thr_pc \<Rightarrow> bool" where
  "never_user pc \<longleftrightarrow> pc \<in> {At_state True, At_wait True, At_flag True, At_give1, At_give2, At_end}"

lemma never_user_next:
  "thread_next t pc = Some (t', pc') \<Longrightarrow> m_ExitFlag t \<Longrightarrow> never_user pc \<Longrightarrow> m_ExitFlag t' \<and> never_user pc'"
  by (auto simp: thread_next_def never_user_def after_user_def split: prod.splits bool.splits if_splits)

end
