(* ===== verification/SubProc.thy ===== *)
theory SubProc
  imports ThreadRun StreamGrow
begin

text \<open>
  \<open>cpSubProcess_I\<close>: a process whose output a thread of the library collects. The thread is that of
  \<open>ThreadRun\<close>, started suspended, with \<open>IoThread\<close> as its function; \<open>sp_step\<close> interleaves the parts of both
  with the calls of the owner and the destructor. What the system returns from \<open>popen\<close> and \<open>read\<close> is an argument.
\<close>

section \<open>The object\<close>

datatype SubProcIoDirection = k_FlowIn | k_FlowOut

text \<open>
  Where \<open>IoThread\<close> is: before a poll, in the poll, at the read, before the semaphore, or at its end. And where the
  destructor is: not begun, waiting for the end of the process, or at the members.
\<close>

datatype io_pc = Io_poll | Io_polling | Io_read | Io_give | Io_over

datatype sp_del_pc = Sp_no | Sp_wait | Sp_members

text \<open>\<open>sp_got\<close> are the octets that were read, \<open>sp_given\<close> the data of the buffers that were extracted.\<close>

record subproc =
  sp_Valid :: bool
  sp_Dir :: SubProcIoDirection
  m_IoThread :: thrsys
  sp_pc :: io_pc
  m_RxBuffer :: "streambuf stream"
  m_Completed :: semlite
  sp_del :: sp_del_pc
  sp_got :: octets
  sp_given :: "octets list"

definition popen_mode :: "SubProcIoDirection \<Rightarrow> string" where
  "popen_mode d = (case d of k_FlowIn \<Rightarrow> ''w'' | k_FlowOut \<Rightarrow> ''r'')"

definition on_thread :: "(thread \<Rightarrow> thread) \<Rightarrow> subproc \<Rightarrow> subproc" where
  "on_thread f p = p\<lparr>m_IoThread := (m_IoThread p)\<lparr>sys_thr := f (sys_thr (m_IoThread p))\<rparr>\<rparr>"

definition SubProcess_Cancel :: "subproc \<Rightarrow> subproc" where
  "SubProcess_Cancel p = on_thread Thread_ExitReq p"

text \<open>\<open>popen\<close> tells whether a process could be started for a command and a mode.\<close>

definition SubProcess_new ::
  "(string \<Rightarrow> string \<Rightarrow> bool) \<Rightarrow> pthread_os \<Rightarrow> nat \<Rightarrow> (nat \<Rightarrow> nat \<Rightarrow> octets option) \<Rightarrow> string \<Rightarrow> SubProcIoDirection \<Rightarrow> subproc"
where
  "SubProcess_new popen os stack mem Command Dir =
     (let p = \<lparr>sp_Valid = False, sp_Dir = Dir, m_IoThread = thr_start opt_Suspended 0 stack os, sp_pc = Io_poll,
               m_RxBuffer = StreamBuf_new mem 0, m_Completed = SemLite_new True True 0 1, sp_del = Sp_no,
               sp_got = [], sp_given = []\<rparr>
      in if length Command > 0 then
           if popen Command (popen_mode Dir) then on_thread Thread_Resume (p\<lparr>sp_Valid := True\<rparr>)
           else SubProcess_Cancel p
         else p)"

text \<open>\<open>WaitUntilDone\<close> at the moment it ends.\<close>

definition WaitUntilDone :: "subproc \<Rightarrow> subproc \<times> bool" where
  "WaitUntilDone p =
     (case SemLite_Take (m_Completed p) of
        (s, rv) \<Rightarrow> (p\<lparr>m_Completed := (if rv then fst (SemLite_Give s) else s)\<rparr>, rv))"

definition IsRunning :: "subproc \<Rightarrow> subproc \<times> bool" where
  "IsRunning p =
     (case SemLite_TryTake (m_Completed p) of
        (s, rv) \<Rightarrow> (p\<lparr>m_Completed := (if rv then fst (SemLite_Give s) else s)\<rparr>, \<not> rv))"

definition BufferExtract :: "(nat \<Rightarrow> octets option) \<Rightarrow> buffer \<Rightarrow> subproc \<Rightarrow> (subproc \<times> buffer) option" where
  "BufferExtract al Buf p = do {
     (rx1, rv) \<leftarrow> Write_octet StreamBuf_vt (m_RxBuffer p) 0;
     let (rx2, b) = Buf_assign_stream al StreamBuf_vt rx1 Buf;
     Some (p\<lparr>m_RxBuffer := Stream_Clear StreamBuf_vt rx2\<rparr>, b)
   }"

definition StreamBufTransfer :: "streambuf stream \<Rightarrow> subproc \<Rightarrow> subproc \<times> streambuf stream" where
  "StreamBufTransfer Dest p =
     (case TransferBlocksFrom (m_RxBuffer p) Dest of (rx, dest) \<Rightarrow> (p\<lparr>m_RxBuffer := rx\<rparr>, dest))"

text \<open>
  One pass of \<open>IoThread\<close> behind its poll. \<open>result\<close> is what the read delivers: at most 256 octets, none
  at the end of the process' output, and no list on an error, upon which the thread sleeps.
\<close>

definition io_pass :: "octets option \<Rightarrow> subproc \<Rightarrow> subproc option" where
  "io_pass result p =
     (case result of
        Some d \<Rightarrow>
          if d \<noteq> [] then
            map_option (\<lambda>(rx, n). p\<lparr>m_RxBuffer := rx, sp_got := sp_got p @ d\<rparr>) (ArrayWr StreamBuf_vt (m_RxBuffer p) (Some d))
          else Some (on_thread Thread_ExitReq p)
      | None \<Rightarrow> Some p)"

section \<open>All interleavings\<close>

inductive sp_step :: "subproc \<Rightarrow> subproc \<Rightarrow> bool" where
  library: "thread_next (sys_thr (m_IoThread p)) (sys_pc (m_IoThread p)) = Some (t, pc) \<Longrightarrow>
    sp_step p (p\<lparr>m_IoThread := (m_IoThread p)\<lparr>sys_thr := t, sys_pc := pc\<rparr>\<rparr>)"
| io_poll: "sys_pc (m_IoThread p) = In_user b \<Longrightarrow> sp_pc p = Io_poll \<Longrightarrow>
    sp_step p (p\<lparr>m_IoThread := (m_IoThread p)\<lparr>sys_pc := At_state False\<rparr>, sp_pc := Io_polling\<rparr>)"
| io_polled: "sys_pc (m_IoThread p) = In_user b \<Longrightarrow> sp_pc p = Io_polling \<Longrightarrow>
    sp_step p (p\<lparr>sp_pc := (if b then Io_read else Io_give)\<rparr>)"
| io_read: "sys_pc (m_IoThread p) = In_user b \<Longrightarrow> sp_pc p = Io_read \<Longrightarrow> io_pass result p = Some p' \<Longrightarrow>
    sp_step p (p'\<lparr>sp_pc := Io_poll\<rparr>)"
| io_give: "sys_pc (m_IoThread p) = In_user b \<Longrightarrow> sp_pc p = Io_give \<Longrightarrow>
    sp_step p (p\<lparr>m_IoThread := (m_IoThread p)\<lparr>sys_pc := after_user (sys_thr (m_IoThread p))\<rparr>,
      m_Completed := fst (SemLite_Give (m_Completed p)), sp_pc := Io_over\<rparr>)"
| cancel: "sp_del p = Sp_no \<Longrightarrow> sp_step p (SubProcess_Cancel p)"
| wait_done: "sp_del p = Sp_no \<Longrightarrow> WaitUntilDone p = (p', True) \<Longrightarrow> sp_step p p'"
| take_out: "sp_del p = Sp_no \<Longrightarrow> BufferExtract al Buf p = Some (p', b) \<Longrightarrow> allocator al \<Longrightarrow> \<forall>n. al n \<noteq> None \<Longrightarrow>
    sp_step p (p'\<lparr>sp_given := sp_given p @ [buf_data b]\<rparr>)"
| delete_begin: "sp_del p = Sp_no \<Longrightarrow> sp_step p ((SubProcess_Cancel p)\<lparr>sp_del := Sp_wait\<rparr>)"
| delete_end: "sp_del p = Sp_wait \<Longrightarrow> WaitUntilDone p = (p', True) \<Longrightarrow> sp_step p (p'\<lparr>sp_del := Sp_members\<rparr>)"

text \<open>Processes whose thread could be started, over a manager that grants its requests.\<close>

inductive sp_reach :: "subproc \<Rightarrow> bool" where
  start: "th_Valid (fst (Thread_new True opt_Suspended 0 stack os)) \<Longrightarrow> (\<And>k. allocator (mem k)) \<Longrightarrow> (\<And>k n. mem k n \<noteq> None) \<Longrightarrow>
    sp_reach (SubProcess_new popen os stack mem Command Dir)"
| more: "sp_reach p \<Longrightarrow> sp_step p p' \<Longrightarrow> sp_reach p'"

section \<open>The thread\<close>

lemma on_thread_simps [simp]:
  "sys_thr (m_IoThread (on_thread f p)) = f (sys_thr (m_IoThread p))" "sys_pc (m_IoThread (on_thread f p)) = sys_pc (m_IoThread p)"
  "sys_delete (m_IoThread (on_thread f p)) = sys_delete (m_IoThread p)"
  "sp_Valid (on_thread f p) = sp_Valid p" "sp_pc (on_thread f p) = sp_pc p" "m_RxBuffer (on_thread f p) = m_RxBuffer p"
  "m_Completed (on_thread f p) = m_Completed p" "sp_del (on_thread f p) = sp_del p" "sp_got (on_thread f p) = sp_got p"
  "sp_given (on_thread f p) = sp_given p"
  by (simp_all add: on_thread_def)

lemma WaitUntilDone_simps:
  "WaitUntilDone p = (p', rv) \<Longrightarrow> m_IoThread p' = m_IoThread p \<and> sp_pc p' = sp_pc p \<and> m_RxBuffer p' = m_RxBuffer p \<and>
    sp_del p' = sp_del p \<and> sp_got p' = sp_got p \<and> sp_given p' = sp_given p \<and> sp_Valid p' = sp_Valid p"
  by (auto simp: WaitUntilDone_def split: prod.splits)

lemma BufferExtract_simps:
  "BufferExtract al Buf p = Some (p', b) \<Longrightarrow> m_IoThread p' = m_IoThread p \<and> sp_pc p' = sp_pc p \<and> m_Completed p' = m_Completed p \<and>
    sp_del p' = sp_del p \<and> sp_got p' = sp_got p \<and> sp_given p' = sp_given p \<and> sp_Valid p' = sp_Valid p"
  by (auto simp: BufferExtract_def Let_def split: Option.bind_splits prod.splits)

lemma io_pass_simps:
  "io_pass r p = Some p' \<Longrightarrow> sp_pc p' = sp_pc p \<and> m_Completed p' = m_Completed p \<and> sp_del p' = sp_del p \<and>
    sp_given p' = sp_given p \<and> sp_Valid p' = sp_Valid p \<and> sys_pc (m_IoThread p') = sys_pc (m_IoThread p)"
  by (auto simp: io_pass_def split: option.splits if_splits)

lemma io_pass_cases:
  assumes "io_pass r p = Some p'"
  obtains "p' = p" | "p' = on_thread Thread_ExitReq p"
    | d rx n where "ArrayWr StreamBuf_vt (m_RxBuffer p) (Some d) = Some (rx, n)" "p' = p\<lparr>m_RxBuffer := rx, sp_got := sp_got p @ d\<rparr>"
proof (cases r)
  case None
  then show thesis using assms that(1) by (simp add: io_pass_def)
next
  case (Some d)
  show thesis
  proof (cases "d = []")
    case True
    then show thesis using assms that(2) Some by (simp add: io_pass_def)
  next
    case False
    then obtain x where "ArrayWr StreamBuf_vt (m_RxBuffer p) (Some d) = Some x" "p' = p\<lparr>m_RxBuffer := fst x, sp_got := sp_got p @ d\<rparr>"
      using assms Some by (auto simp: io_pass_def)
    then show thesis using that(3) [of d "fst x" "snd x"] by simp
  qed
qed

definition told_early :: "subproc \<Rightarrow> bool" where
  "told_early p \<longleftrightarrow> m_ExitFlag (sys_thr (m_IoThread p)) \<and> never_user (sys_pc (m_IoThread p)) \<and> sp_pc p \<noteq> Io_over \<and>
     sem_ok (m_Completed p) (Suc 0) \<and> sem_count (m_Completed p) = 0 \<and> th_Valid (sys_thr (m_IoThread p))"

lemma exit_flag_mono: "m_ExitFlag t \<Longrightarrow> m_ExitFlag (Thread_ExitReq t)" "th_Valid t \<Longrightarrow> th_Valid (Thread_ExitReq t)"
  by (simp_all add: Thread_ExitReq_def Let_def)

lemma next_valid: "thread_next t pc = Some (t', pc') \<Longrightarrow> th_Valid t \<Longrightarrow> th_Valid t'"
  by (auto simp: thread_next_def split: thr_pc.splits prod.splits bool.splits)

lemma no_wait: "sem_ok (m_Completed p) (Suc 0) \<Longrightarrow> sem_count (m_Completed p) = 0 \<Longrightarrow> WaitUntilDone p \<noteq> (p', True)"
  using take_blocked [of "m_Completed p" "Suc 0"] by (auto simp: WaitUntilDone_def split: prod.splits)

lemma told_early_step: "sp_step p p' \<Longrightarrow> told_early p \<Longrightarrow> sp_del p \<noteq> Sp_members \<Longrightarrow> told_early p' \<and> sp_del p' \<noteq> Sp_members"
proof (induction rule: sp_step.induct)
  case (library p t pc)
  then show ?case using never_user_next [OF library(1)] next_valid [OF library(1)] by (simp add: told_early_def)
next
  case (wait_done p p')
  then show ?case using no_wait [of p p'] by (simp add: told_early_def)
next
  case (delete_end p p')
  then show ?case using no_wait [of p p'] by (simp add: told_early_def)
next
  case (take_out p al Buf p' b)
  then show ?case using BufferExtract_simps [OF take_out(2)] by (simp add: told_early_def)
qed (auto simp: told_early_def never_user_def SubProcess_Cancel_def exit_flag_mono)

lemma told_early_steps:
  "sp_step\<^sup>*\<^sup>* p p' \<Longrightarrow> told_early p \<Longrightarrow> sp_del p \<noteq> Sp_members \<Longrightarrow> told_early p' \<and> sp_del p' \<noteq> Sp_members"
  by (induction rule: rtranclp_induct) (use told_early_step in \<open>blast+\<close>)


section \<open>Invariant\<close>

definition rx_ok :: "subproc \<Rightarrow> bool" where
  "rx_ok p \<longleftrightarrow>
     sb_rich (st (m_RxBuffer p)) \<and> s_wf m_VecBlocks (m_RxBuffer p) \<and> sb_pos (m_RxBuffer p) = length (sb_content (m_RxBuffer p)) \<and>
     concat (map butlast (sp_given p)) @ sb_content (m_RxBuffer p) = sp_got p \<and> (\<forall>g \<in> set (sp_given p). g \<noteq> [] \<and> last g = 0)"

definition unused_ok :: "subproc \<Rightarrow> bool" where
  "unused_ok p \<longleftrightarrow>
     sp_Valid p \<or>
     never_user (sys_pc (m_IoThread p)) \<and> sp_pc p = Io_poll \<and>
     (m_ExitFlag (sys_thr (m_IoThread p)) \<or>
      m_RunState (sys_thr (m_IoThread p)) = state_Suspended \<and> sys_pc (m_IoThread p) \<in> {At_state True, At_wait True} \<and> sp_del p = Sp_no)"

definition is_first :: "thr_pc \<Rightarrow> bool" where
  "is_first pc \<longleftrightarrow> pc \<in> {At_state True, At_wait True, At_flag True}"

definition sp_ok :: "subproc \<Rightarrow> bool" where
  "sp_ok p \<longleftrightarrow>
     thr_ok (m_IoThread p) \<and> sys_delete (m_IoThread p) = Del_no \<and>
     sem_ok (m_Completed p) (Suc 0) \<and> sem_count (m_Completed p) = (if sp_pc p = Io_over then 1 else 0) \<and>
     rx_ok p \<and> unused_ok p \<and> (is_first (sys_pc (m_IoThread p)) \<longrightarrow> sp_pc p = Io_poll)"

lemma first_next: "thread_next t pc = Some (t', pc') \<Longrightarrow> is_first pc' \<Longrightarrow> is_first pc"
  by (auto simp: thread_next_def after_user_def is_first_def split: thr_pc.splits prod.splits bool.splits if_splits)

lemma first_user: "\<not> is_first (In_user b)" "\<not> is_first (At_state False)" "\<not> is_first (after_user t)"
  by (simp_all add: is_first_def after_user_def)

lemma rx_write:
  assumes "rx_ok p" "ArrayWr StreamBuf_vt (m_RxBuffer p) (Some d) = Some (rx, n)"
  shows "sb_rich (st rx) \<and> s_wf m_VecBlocks rx \<and> sb_content rx = sb_content (m_RxBuffer p) @ d \<and> sb_pos rx = length (sb_content rx)"
  using sbg.ArrayWr_total [of "m_RxBuffer p" d] assms by (auto simp: rx_ok_def patch_end)

lemma rx_extract:
  assumes rx: "rx_ok p" and x: "BufferExtract al Buf p = Some (p', b)" and al: "allocator al" "\<forall>n. al n \<noteq> None"
  shows "rx_ok (p'\<lparr>sp_given := sp_given p @ [buf_data b]\<rparr>)"
proof -
  from x obtain rx1 n where w: "ArrayWr StreamBuf_vt (m_RxBuffer p) (Some [0]) = Some (rx1, n)"
    and p': "p' = p\<lparr>m_RxBuffer := Stream_Clear StreamBuf_vt (fst (Buf_assign_stream al StreamBuf_vt rx1 Buf))\<rparr>"
      "b = snd (Buf_assign_stream al StreamBuf_vt rx1 Buf)"
    by (auto simp: BufferExtract_def Write_octet_def Let_def split: Option.bind_splits prod.splits)
  from rx_write [OF rx w] have w1: "sb_rich (st rx1) \<and> s_wf m_VecBlocks rx1" "sb_content rx1 = sb_content (m_RxBuffer p) @ [0]" by simp_all
  from sbg.assign_stream_spec [OF w1(1) al(1), of Buf] w1(2) al(2) obtain rx2 where
    a: "Buf_assign_stream al StreamBuf_vt rx1 Buf = (rx2, b)" "buf_data b = sb_content (m_RxBuffer p) @ [0]"
      "sb_rich (st rx2) \<and> s_wf m_VecBlocks rx2" using p'(2) by auto
  from sbg.Clear_spec [OF a(3)] a(1,2) rx p'(1) show ?thesis by (auto simp: rx_ok_def)
qed

lemma resume_run: "thr_ok s \<Longrightarrow> m_RunState (sys_thr s) = state_Suspended \<Longrightarrow> m_RunState (Thread_Resume (sys_thr s)) = state_Running"
  by (simp add: thr_ok_def Thread_Resume_def)

lemma cancel_ok: "sp_ok p \<Longrightarrow> sp_ok (SubProcess_Cancel p)"
  using exit_req_ok [of "m_IoThread p"] exit_req_running [of "m_IoThread p"]
  by (auto simp: sp_ok_def rx_ok_def unused_ok_def SubProcess_Cancel_def on_thread_def)

lemma wait_ok: "sp_ok p \<Longrightarrow> WaitUntilDone p = (p', rv) \<Longrightarrow> rv = (sp_pc p = Io_over) \<and> (rv \<longrightarrow> sp_ok p')"
proof -
  assume k: "sp_ok p" "WaitUntilDone p = (p', rv)"
  obtain s rv' where t: "SemLite_Take (m_Completed p) = (s, rv')" by fastforce
  then have e: "rv' = rv" "rv \<Longrightarrow> p' = p\<lparr>m_Completed := fst (SemLite_Give s)\<rparr>" using k(2) by (auto simp: WaitUntilDone_def)
  have c: "rv = (sp_pc p = Io_over)"
    using k(1) t e(1) take_blocked [of "m_Completed p" "Suc 0"] take_possible [of "m_Completed p" "Suc 0"]
    by (cases rv) (auto simp: sp_ok_def split: if_splits)
  have "sp_ok p'" if "rv"
    using k(1) t e that c take_count [of "m_Completed p" "Suc 0" s] give_count [of s "Suc 0"]
    by (auto simp: sp_ok_def rx_ok_def unused_ok_def)
  with c show ?thesis by simp
qed

lemma sp_ok_step: "sp_step p p' \<Longrightarrow> sp_ok p \<Longrightarrow> sp_ok p'"
proof (induction rule: sp_step.induct)
  case (library p t pc)
  have u: "unused_ok (p\<lparr>m_IoThread := (m_IoThread p)\<lparr>sys_thr := t, sys_pc := pc\<rparr>\<rparr>)"
  proof (cases "sp_Valid p \<or> m_ExitFlag (sys_thr (m_IoThread p))")
    case True
    then show ?thesis using library never_user_next [OF library(1)] by (auto simp: sp_ok_def unused_ok_def)
  next
    case False
    then have s: "m_RunState (sys_thr (m_IoThread p)) = state_Suspended" "sys_pc (m_IoThread p) \<in> {At_state True, At_wait True}"
      "sp_pc p = Io_poll" "sp_del p = Sp_no"
      using library(2) by (auto simp: sp_ok_def unused_ok_def)
    have "sem_ok (m_SemSuspend (sys_thr (m_IoThread p))) (Suc 0)" "sem_count (m_SemSuspend (sys_thr (m_IoThread p))) = 0"
      using library(2) s(1) by (simp_all add: sp_ok_def thr_ok_def)
    from take_blocked [OF this] s library(1) show ?thesis
      by (auto simp: thread_next_def unused_ok_def never_user_def split: prod.splits bool.splits)
  qed
  then show ?case using library own_ok [of "m_IoThread p"] first_next [OF library(1)] by (auto simp: sp_ok_def rx_ok_def)
next
  case (io_poll p b)
  then have "thr_ok ((m_IoThread p)\<lparr>sys_pc := At_state False\<rparr>)" using thr_ok_step [OF user_poll] by (simp add: sp_ok_def)
  with io_poll show ?case by (simp add: first_user sp_ok_def rx_ok_def unused_ok_def never_user_def)
next
  case (io_polled p b)
  then show ?case by (simp add: first_user sp_ok_def rx_ok_def unused_ok_def never_user_def)
next
  case (io_read p b result p')
  have v: "sp_Valid p" using io_read(2,4) by (simp add: sp_ok_def unused_ok_def)
  show ?case
  proof (cases rule: io_pass_cases [OF io_read(3)])
    case 1
    then show ?thesis using io_read v by (simp add: first_user sp_ok_def rx_ok_def unused_ok_def)
  next
    case 2
    then show ?thesis using io_read v exit_req_ok [of "m_IoThread p"] by (simp add: first_user sp_ok_def rx_ok_def unused_ok_def on_thread_def)
  next
    case 3
    then show ?thesis using io_read v rx_write [OF _ 3(1)]
      by (simp add: first_user sp_ok_def rx_ok_def unused_ok_def flip: append_assoc)
  qed
next
  case (io_give p b)
  then have "thr_ok ((m_IoThread p)\<lparr>sys_pc := after_user (sys_thr (m_IoThread p))\<rparr>)" using thr_ok_step [OF user_return] by (simp add: sp_ok_def)
  with io_give give_count [of "m_Completed p" "Suc 0"] show ?case by (auto simp: first_user sp_ok_def rx_ok_def unused_ok_def)
next
  case (take_out p al Buf p' b)
  then show ?case using BufferExtract_simps [OF take_out(2)] rx_extract [OF _ take_out(2-4)] by (auto simp: sp_ok_def unused_ok_def)
next
  case (wait_done p p')
  then show ?case using wait_ok by blast
next
  case (delete_end p p')
  then have "sp_ok p'" using wait_ok by blast
  then show ?case using WaitUntilDone_simps [OF delete_end(2)] delete_end by (auto simp: sp_ok_def rx_ok_def unused_ok_def)
next
  case (delete_begin p)
  from cancel_ok [OF delete_begin(2)] exit_req_running [of "m_IoThread p"] delete_begin(2)
  show ?case by (auto simp: sp_ok_def rx_ok_def unused_ok_def SubProcess_Cancel_def on_thread_def)
qed (simp add: cancel_ok)

lemma StreamBuf_new_rich:
  assumes "\<And>k. allocator (mem k)" "\<And>k n. mem k n \<noteq> None"
  shows "sb_rich (st (StreamBuf_new mem n))"
proof -
  have "sb_rich (sb_null mem)" using assms by (simp add: sb_rich_def sb_inv_def sb_null_def)
  then have "sb_rich (fst (v_MemoryAdd StreamBuf_vt n (sb_null mem)))" by (cases "v_MemoryAdd StreamBuf_vt n (sb_null mem)") (auto dest: sb_rich_add)
  then show ?thesis by (simp add: StreamBuf_new_def Stream_new_def StreamBuf_vt_def)
qed

lemma new_rx:
  assumes "\<And>k. allocator (mem k)" "\<And>k n. mem k n \<noteq> None"
  shows "sb_rich (st (StreamBuf_new mem n)) \<and> s_wf m_VecBlocks (StreamBuf_new mem n) \<and>
    sb_content (StreamBuf_new mem n) = [] \<and> sb_pos (StreamBuf_new mem n) = 0"
  using StreamBuf_new_rich [of mem n, OF assms] StreamBuf_new_ok [of mem n, OF assms(1)] by simp

lemma sp_ok_new:
  assumes "th_Valid (fst (Thread_new True opt_Suspended 0 stack os))" "\<And>k. allocator (mem k)" "\<And>k n. mem k n \<noteq> None"
  shows "sp_ok (SubProcess_new popen os stack mem Command Dir)"
proof -
  define T where "T = thr_start opt_Suspended 0 stack os"
  have t: "thr_ok T" unfolding T_def by (rule thr_ok_start [OF assms(1)])
  have f: "m_RunState (sys_thr T) = state_Suspended" "sys_pc T = At_state True" "sys_delete T = Del_no"
    using assms(1) by (simp_all add: T_def thr_start_def Thread_new_def opt_Suspended_def split: prod.splits)
  let ?p = "\<lambda>v. \<lparr>sp_Valid = v, sp_Dir = Dir, m_IoThread = T, sp_pc = Io_poll, m_RxBuffer = StreamBuf_new mem 0,
    m_Completed = SemLite_new True True 0 1, sp_del = Sp_no, sp_got = [], sp_given = []\<rparr>"
  have p: "sp_ok (?p v)" for v
    using t f new_count new_rx [of mem 0, OF assms(2,3)] by (simp add: sp_ok_def rx_ok_def unused_ok_def never_user_def)
  have "sp_ok (on_thread Thread_Resume (?p True))"
    using p [of True] resume_ok [OF t] f by (simp add: sp_ok_def rx_ok_def unused_ok_def on_thread_def)
  then show ?thesis using p cancel_ok [OF p] by (simp add: SubProcess_new_def T_def [symmetric] Let_def)
qed

lemma sp_reach_ok: "sp_reach p \<Longrightarrow> sp_ok p"
  by (induction rule: sp_reach.induct) (auto intro: sp_ok_new sp_ok_step)

section \<open>Properties\<close>

text \<open>
  C27. Whatever the interleaving of the collecting thread and its owner: the buffers that were extracted, each without the
  zero at its end, and what is in the stream are the octets that were read, in order. And the process counts as
  done, for \<open>WaitUntilDone\<close> and \<open>IsRunning\<close>, exactly when its thread is over.
\<close>

theorem SubProcess_collects:
  assumes "sp_reach p"
  shows "concat (map butlast (sp_given p)) @ sb_content (m_RxBuffer p) = sp_got p \<and>
    snd (WaitUntilDone p) = (sp_pc p = Io_over) \<and> snd (IsRunning p) = (sp_pc p \<noteq> Io_over)"
proof -
  note k = sp_reach_ok [OF assms]
  have w: "snd (WaitUntilDone p) = (sp_pc p = Io_over)" using wait_ok [OF k] by (cases "WaitUntilDone p") simp
  have "sl_valid (m_Completed p)" using k by (simp add: sp_ok_def sem_ok_def sem_holds_def)
  then have "snd (IsRunning p) = (\<not> snd (WaitUntilDone p))"
    by (simp add: IsRunning_def WaitUntilDone_def SemLite_TryTake_def split: prod.splits)
  with w k show ?thesis by (simp add: sp_ok_def rx_ok_def)
qed

text \<open>An object without a process, made of the empty command.\<close>

definition demo_mem :: "nat \<Rightarrow> nat \<Rightarrow> octets option" where
  "demo_mem k n = Some (replicate n 0)"

definition demo_sub :: "string \<Rightarrow> subproc" where
  "demo_sub Command = SubProcess_new (\<lambda>c m. True) plain_os 0 demo_mem Command k_FlowOut"

lemma demo_sub_reach: "sp_reach (demo_sub Command)"
  unfolding demo_sub_def by (rule start [OF plain_os_start]) (simp_all add: demo_mem_def allocator_def)

theorem SubProcess_collects_witness:
  "concat (map butlast (sp_given (demo_sub ''ls''))) = sp_got (demo_sub ''ls'') \<and> \<not> snd (WaitUntilDone (demo_sub ''ls''))"
proof -
  have "sb_content (m_RxBuffer (demo_sub ''ls'')) = [] \<and> sp_pc (demo_sub ''ls'') = Io_poll"
    using new_rx [of demo_mem 0] by (simp add: demo_sub_def SubProcess_new_def demo_mem_def allocator_def Let_def)
  with SubProcess_collects [OF demo_sub_reach, of "''ls''"] show ?thesis by simp
qed

text \<open>
  C39. If the thread was told to exit before its first poll, its function is never called and the process never counts as
  done: the destructor waits for ever. This is so for every object without a process that is deleted.
\<close>

theorem SubProcess_hangs:
  assumes "sp_reach p" "sp_del p = Sp_wait"
    "\<not> sp_Valid p \<or> m_ExitFlag (sys_thr (m_IoThread p)) \<and> is_first (sys_pc (m_IoThread p))"
    "sp_step\<^sup>*\<^sup>* p p'"
  shows "sp_del p' = Sp_wait"
proof -
  have k: "sp_ok p" by (rule sp_reach_ok [OF assms(1)])
  have n: "m_ExitFlag (sys_thr (m_IoThread p)) \<and> never_user (sys_pc (m_IoThread p))"
    using k assms(2,3) by (auto simp: sp_ok_def unused_ok_def never_user_def is_first_def)
  have "sp_del p' \<noteq> Sp_members" if "told_early p" using told_early_steps [OF assms(4) that] assms(2) by simp
  moreover have w: "sp_step\<^sup>*\<^sup>* p p' \<Longrightarrow> sp_del p' \<noteq> Sp_no"
  proof (induction rule: rtranclp_induct)
    case (step y z)
    from step(2,3) show ?case
      by (induction rule: sp_step.induct)
        (auto simp: SubProcess_Cancel_def dest: WaitUntilDone_simps BufferExtract_simps io_pass_simps)
  qed (simp add: assms(2))
  moreover have "sp_pc p \<noteq> Io_over" using k assms(3) by (auto simp: sp_ok_def unused_ok_def)
  ultimately show ?thesis using k n assms(4) by (cases "sp_del p'") (auto simp: told_early_def sp_ok_def thr_ok_def split: if_splits)
qed

theorem SubProcess_hangs_witness:
  "\<exists>p. sp_reach p \<and> sp_del p = Sp_wait \<and> (\<forall>p'. sp_step\<^sup>*\<^sup>* p p' \<longrightarrow> sp_del p' = Sp_wait)"
proof -
  let ?p = "(SubProcess_Cancel (demo_sub []))\<lparr>sp_del := Sp_wait\<rparr>"
  have "sp_del (demo_sub []) = Sp_no" by (simp add: demo_sub_def SubProcess_new_def)
  then have r: "sp_reach ?p" using more [OF demo_sub_reach delete_begin] by blast
  have "\<not> sp_Valid ?p" by (simp add: demo_sub_def SubProcess_new_def SubProcess_Cancel_def on_thread_def)
  with SubProcess_hangs [OF r, simplified] r show ?thesis by (intro exI [of _ ?p]) auto
qed

end
