(* ===== verification/Timer.thy ===== *)
theory Timer
  imports Dispatch
begin

text \<open>
  \<open>cpTimer\<close> and its POSIX implementation \<open>cpTimer_I\<close>: a timer of the system that signals an event to a
  semaphore and to a dispatcher. What the calls of the system return is an argument. Periods are
  converted to seconds and nanoseconds as in the code, with an intermediate value of 32 bits.
\<close>

section \<open>State\<close>

record timespec =
  tv_sec :: u64
  tv_nsec :: u64

record itimerspec =
  it_value :: timespec
  it_interval :: timespec

definition Timer_Delay :: u8 where "Timer_Delay = 0"
definition Timer_Periodic :: u8 where "Timer_Periodic = 1"

definition Scale_Hour :: u8 where "Scale_Hour = 0"
definition Scale_Min :: u8 where "Scale_Min = 1"
definition Scale_Sec :: u8 where "Scale_Sec = 2"
definition Scale_Milli :: u8 where "Scale_Milli = 3"
definition Scale_Micro :: u8 where "Scale_Micro = 4"
definition Scale_Nano :: u8 where "Scale_Nano = 5"
definition Scale_Pico :: u8 where "Scale_Pico = 6"
definition Scale_Femto :: u8 where "Scale_Femto = 7"

lemmas scale_defs = Scale_Hour_def Scale_Min_def Scale_Sec_def Scale_Milli_def Scale_Micro_def Scale_Nano_def
  Scale_Pico_def Scale_Femto_def

text \<open>The dispatcher has one handler, \<open>TimerEventDispatch\<close>, with the timer as its context; \<open>'h\<close> are the user's handlers.\<close>

datatype timer_handler = TimerEventDispatch

record ('h, 'c) timer =
  tm_Valid :: bool
  m_Running :: bool
  m_Mode :: u8
  m_Scale :: u8
  m_Period :: u64
  m_SemEvent :: semlite
  m_TimerPeriod :: itimerspec
  m_PtrHandler :: "'h option"
  m_PtrContext :: "'c option"
  m_PtrDispatch :: "(timer_handler, unit, unit) dispatch option"

definition zero_time :: timespec where "zero_time = \<lparr>tv_sec = 0, tv_nsec = 0\<rparr>"

text \<open>\<open>created\<close> is the success of \<open>timer_create\<close>; \<open>spec0\<close> is what the member holds before it is set.\<close>

definition Timer_new :: "bool \<Rightarrow> itimerspec \<Rightarrow> u8 \<Rightarrow> u8 \<Rightarrow> u64 \<Rightarrow> ('h, 'c) timer" where
  "Timer_new created spec0 Mode Scale Period =
     \<lparr>tm_Valid = created, m_Running = False, m_Mode = Mode, m_Scale = Scale, m_Period = Period,
      m_SemEvent = SemLite_new True True 0 1, m_TimerPeriod = spec0, m_PtrHandler = None, m_PtrContext = None,
      m_PtrDispatch = None\<rparr>"

definition ModeSet :: "u8 \<Rightarrow> ('h, 'c) timer \<Rightarrow> ('h, 'c) timer" where "ModeSet Mode t = t\<lparr>m_Mode := Mode\<rparr>"
definition ScaleSet :: "u8 \<Rightarrow> ('h, 'c) timer \<Rightarrow> ('h, 'c) timer" where "ScaleSet Scale t = t\<lparr>m_Scale := Scale\<rparr>"
definition PeriodSet :: "u64 \<Rightarrow> ('h, 'c) timer \<Rightarrow> ('h, 'c) timer" where "PeriodSet Period t = t\<lparr>m_Period := Period\<rparr>"

section \<open>Operations\<close>

text \<open>The conversion of the period: \<open>secs\<close> has 32 bits, and so have its products with the units.\<close>

definition period_spec :: "u8 \<Rightarrow> u64 \<Rightarrow> timespec" where
  "period_spec Scale Period =
     (if Scale = Scale_Hour then \<lparr>tv_sec = Period * 3600, tv_nsec = 0\<rparr>
      else if Scale = Scale_Min then \<lparr>tv_sec = Period * 60, tv_nsec = 0\<rparr>
      else if Scale = Scale_Sec then \<lparr>tv_sec = Period, tv_nsec = 0\<rparr>
      else if Scale = Scale_Milli then
        let secs = ucast (Period div 1000) :: u32
        in \<lparr>tv_sec = ucast secs, tv_nsec = (Period - ucast (secs * 1000)) * 1000000\<rparr>
      else if Scale = Scale_Micro then
        let secs = ucast (Period div 1000000) :: u32
        in \<lparr>tv_sec = ucast secs, tv_nsec = (Period - ucast (secs * 1000000)) * 1000\<rparr>
      else if Scale = Scale_Nano then
        let secs = ucast (Period div 1000000000) :: u32
        in \<lparr>tv_sec = ucast secs, tv_nsec = Period - ucast (secs * 1000000000)\<rparr>
      else if Scale = Scale_Pico then
        let secs = ucast (Period div 1000000 div 1000000) :: u32
        in \<lparr>tv_sec = ucast secs, tv_nsec = (Period - ucast (secs * 1000000 * 1000000)) div 1000\<rparr>
      else if Scale = Scale_Femto then
        let secs = ucast (Period div 1000000 div 1000000 div 1000) :: u32
        in \<lparr>tv_sec = ucast secs, tv_nsec = (Period - ucast (secs * 1000000 * 1000000 * 1000)) div 1000000\<rparr>
      else zero_time)"

definition Timer_Start :: "(itimerspec \<Rightarrow> bool) \<Rightarrow> ('h, 'c) timer \<Rightarrow> ('h, 'c) timer \<times> bool" where
  "Timer_Start settime t =
     (let v = period_spec (m_Scale t) (m_Period t);
          p = \<lparr>it_value = v, it_interval = (if m_Mode t = Timer_Delay then zero_time else v)\<rparr>;
          rv = settime p
      in (t\<lparr>m_TimerPeriod := p, m_Running := rv\<rparr>, rv))"

definition Timer_Stop :: "(itimerspec \<Rightarrow> bool) \<Rightarrow> ('h, 'c) timer \<Rightarrow> ('h, 'c) timer \<times> bool" where
  "Timer_Stop settime t =
     (let p = (m_TimerPeriod t)\<lparr>it_value := zero_time\<rparr>;
          rv = settime p
      in (if rv then t\<lparr>m_TimerPeriod := p, m_Running := False\<rparr> else t\<lparr>m_TimerPeriod := p\<rparr>, rv))"

definition WaitEvent :: "('h, 'c) timer \<Rightarrow> ('h, 'c) timer \<times> bool" where
  "WaitEvent t = (case SemLite_Take (m_SemEvent t) of (s, rv) \<Rightarrow> (t\<lparr>m_SemEvent := s\<rparr>, rv))"

definition k_MaxEvents :: u32 where "k_MaxEvents = 64"

text \<open>\<open>mem_ok\<close> is the success of the creation of the dispatcher.\<close>

definition RegisterHandler ::
  "bool \<Rightarrow> 'h option \<Rightarrow> 'c option \<Rightarrow> nat \<Rightarrow> ('h, 'c) timer \<Rightarrow> ('h, 'c) timer \<times> bool" where
  "RegisterHandler mem_ok pHnd pCtx NumThreads t =
     (if tm_Valid t then
        let t1 = (case m_PtrDispatch t of
                    None \<Rightarrow>
                      if mem_ok then
                        t\<lparr>m_PtrDispatch := Some (fst (EventHandlerAdd (Some TimerEventDispatch) (Some ()) (Dispatch_new NumThreads k_MaxEvents)))\<rparr>
                      else t
                  | Some _ \<Rightarrow> t)
        in case m_PtrDispatch t1 of
             None \<Rightarrow> (t1, False)
           | Some _ \<Rightarrow> (t1\<lparr>m_PtrContext := pCtx, m_PtrHandler := pHnd\<rparr>, True)
      else (t, False))"

text \<open>\<open>event_ok\<close> is the success of the creation of the dispatcher's event.\<close>

definition SignalEvent :: "bool \<Rightarrow> ('h, 'c) timer \<Rightarrow> ('h, 'c) timer" where
  "SignalEvent event_ok t =
     (let t1 = (case m_PtrDispatch t of
                  None \<Rightarrow> t
                | Some d \<Rightarrow> t\<lparr>m_PtrDispatch := Some (fst (SubmitEvent event_ok None d))\<rparr>)
      in t1\<lparr>m_SemEvent := fst (SemLite_Give (m_SemEvent t1))\<rparr>)"

text \<open>What the dispatcher's handler does: the user's handler that is called, if one is registered.\<close>

definition timer_calls :: "('h, 'c) timer \<Rightarrow> 'h option" where
  "timer_calls t = m_PtrHandler t"

section \<open>Periods\<close>

text \<open>The period in nanoseconds, rounded down.\<close>

definition period_ns :: "u8 \<Rightarrow> u64 \<Rightarrow> nat" where
  "period_ns Scale Period =
     (if Scale = Scale_Hour then unat Period * 3600 * 10 ^ 9
      else if Scale = Scale_Min then unat Period * 60 * 10 ^ 9
      else if Scale = Scale_Sec then unat Period * 10 ^ 9
      else if Scale = Scale_Milli then unat Period * 10 ^ 6
      else if Scale = Scale_Micro then unat Period * 10 ^ 3
      else if Scale = Scale_Nano then unat Period
      else if Scale = Scale_Pico then unat Period div 10 ^ 3
      else if Scale = Scale_Femto then unat Period div 10 ^ 6
      else 0)"

definition spec_ns :: "timespec \<Rightarrow> nat" where
  "spec_ns ts = unat (tv_sec ts) * 10 ^ 9 + unat (tv_nsec ts)"

text \<open>
  The periods that the conversion can represent: the seconds have 63 bits; for the smaller scales, the whole seconds
  in the unit have 32 bits.
\<close>

definition period_fits :: "u8 \<Rightarrow> u64 \<Rightarrow> bool" where
  "period_fits Scale Period \<longleftrightarrow>
     (if Scale = Scale_Hour then unat Period * 3600 < 2 ^ 63
      else if Scale = Scale_Min then unat Period * 60 < 2 ^ 63
      else if Scale = Scale_Sec then unat Period < 2 ^ 63
      else if Scale = Scale_Milli then unat Period div 10 ^ 3 * 10 ^ 3 < 2 ^ 32
      else if Scale = Scale_Micro then unat Period div 10 ^ 6 * 10 ^ 6 < 2 ^ 32
      else if Scale = Scale_Nano then unat Period div 10 ^ 9 * 10 ^ 9 < 2 ^ 32
      else if Scale = Scale_Pico then unat Period < 10 ^ 12
      else if Scale = Scale_Femto then unat Period < 10 ^ 15
      else True)"

lemma unat_narrow: "unat (x :: u64) < 2 ^ 32 \<Longrightarrow> unat (ucast x :: u32) = unat x"
  by (simp add: unsigned_ucast_eq take_bit_nat_eq_self)

lemma unat_widen: "unat (ucast (x :: u32) :: u64) = unat x"
  using unsigned_less [of x, where 'a = nat] by (simp add: unsigned_ucast_eq take_bit_nat_eq_self)

lemma rest_of_unit:
  assumes "unat (K :: u64) = k" "unat (K' :: u32) = k" "0 < k" "unat (P :: u64) div k * k < 2 ^ 32"
  shows "unat (ucast (ucast (P div K) :: u32) :: u64) = unat P div k"
    "unat (P - ucast ((ucast (P div K) :: u32) * K')) = unat P mod k"
proof -
  have d: "unat (P div K) = unat P div k" using assms(1) by (simp add: unat_div_distrib)
  have "unat P div k \<le> unat P div k * k" using assms(3) by simp
  then have "unat (P div K) < 2 ^ 32" using assms(4) d by linarith
  from unat_narrow [OF this] have s: "unat (ucast (P div K) :: u32) = unat P div k" by (simp only: d)
  show "unat (ucast (ucast (P div K) :: u32) :: u64) = unat P div k" by (simp only: unat_widen s)
  have "unat ((ucast (P div K) :: u32) * K') = unat P div k * k mod 2 ^ 32" by (simp only: unat_word_ariths s assms(2)) simp
  then have m: "unat (ucast ((ucast (P div K) :: u32) * K') :: u64) = unat P div k * k" using assms(4) by (simp only: unat_widen) simp
  have "unat P div k * k \<le> unat P" by simp
  then have "ucast ((ucast (P div K) :: u32) * K') \<le> P" by (simp only: word_le_nat_alt m)
  then have "unat (P - ucast ((ucast (P div K) :: u32) * K')) = unat P - unat P div k * k" by (simp only: unat_sub m)
  then show "unat (P - ucast ((ucast (P div K) :: u32) * K')) = unat P mod k" by (simp add: minus_div_mult_eq_mod)
qed

lemma unat_times: "unat (x :: u64) * unat y < 2 ^ 64 \<Longrightarrow> unat (x * y) = unat x * unat y"
  by (simp add: unat_word_ariths)

lemma spec_hour: "unat P * 3600 < 2 ^ 63 \<Longrightarrow> unat (P * 3600 :: u64) = unat P * 3600"
  using unat_times [of P 3600] by simp

lemma spec_min: "unat P * 60 < 2 ^ 63 \<Longrightarrow> unat (P * 60 :: u64) = unat P * 60"
  using unat_times [of P 60] by simp

lemma join_units: "(p :: nat) div k * (k * u) + p mod k * u = p * u"
proof -
  have "p div k * (k * u) + p mod k * u = (p div k * k + p mod k) * u" by (simp only: distrib_right mult.assoc)
  then show ?thesis by (simp only: div_mult_mod_eq)
qed

lemma spec_milli:
  assumes "unat P div 10 ^ 3 * 10 ^ 3 < 2 ^ 32"
  shows "spec_ns (period_spec Scale_Milli P) = unat P * 10 ^ 6 \<and> unat (tv_nsec (period_spec Scale_Milli P)) < 10 ^ 9"
proof -
  note r = rest_of_unit [of 1000 "10 ^ 3" 1000 P, OF _ _ _ assms, simplified]
  have m: "unat P mod 1000 < 1000" by simp
  then have "unat ((P - ucast ((ucast (P div 1000) :: u32) * 1000)) * 1000000) = unat P mod 1000 * 1000000"
    using r(2) unat_times [of "P - ucast ((ucast (P div 1000) :: u32) * 1000)" 1000000] by simp
  then show ?thesis using r(1) m join_units [of "unat P" 1000 1000000]
    by (simp add: period_spec_def scale_defs spec_ns_def Let_def)
qed

lemma spec_micro:
  assumes "unat P div 10 ^ 6 * 10 ^ 6 < 2 ^ 32"
  shows "spec_ns (period_spec Scale_Micro P) = unat P * 10 ^ 3 \<and> unat (tv_nsec (period_spec Scale_Micro P)) < 10 ^ 9"
proof -
  note r = rest_of_unit [of 1000000 "10 ^ 6" 1000000 P, OF _ _ _ assms, simplified]
  have m: "unat P mod 1000000 < 1000000" by simp
  then have "unat ((P - ucast ((ucast (P div 1000000) :: u32) * 1000000)) * 1000) = unat P mod 1000000 * 1000"
    using r(2) unat_times [of "P - ucast ((ucast (P div 1000000) :: u32) * 1000000)" 1000] by simp
  then show ?thesis using r(1) m join_units [of "unat P" 1000000 1000]
    by (simp add: period_spec_def scale_defs spec_ns_def Let_def)
qed

lemma spec_nano:
  assumes "unat P div 10 ^ 9 * 10 ^ 9 < 2 ^ 32"
  shows "spec_ns (period_spec Scale_Nano P) = unat P \<and> unat (tv_nsec (period_spec Scale_Nano P)) < 10 ^ 9"
proof -
  note r = rest_of_unit [of 1000000000 "10 ^ 9" 1000000000 P, OF _ _ _ assms, simplified]
  have "unat P mod 1000000000 < 1000000000" by simp
  then show ?thesis using r join_units [of "unat P" 1000000000 1]
    by (simp add: period_spec_def scale_defs spec_ns_def Let_def)
qed

lemma zero_secs: "(P :: u64) div K = 0 \<Longrightarrow> ucast (P div K) = (0 :: u32)"
  by simp

lemma small_div: "unat (P :: u64) < unat K \<Longrightarrow> P div K = 0"
  by (metis div_less unat_div_distrib unat_eq_zero)

lemma spec_pico:
  assumes "unat P < 10 ^ 12"
  shows "spec_ns (period_spec Scale_Pico P) = unat P div 10 ^ 3 \<and> unat (tv_nsec (period_spec Scale_Pico P)) < 10 ^ 9"
proof -
  have "unat (P div 1000000) < 1000000" using assms by (simp add: unat_div_distrib div_less_iff_less_mult)
  then have "P div 1000000 div 1000000 = 0" by (intro small_div) simp
  moreover have "unat P div 1000 < 1000000000" using assms by (simp add: div_less_iff_less_mult)
  ultimately show ?thesis by (simp add: period_spec_def scale_defs spec_ns_def Let_def unat_div_distrib)
qed

lemma spec_femto:
  assumes "unat P < 10 ^ 15"
  shows "spec_ns (period_spec Scale_Femto P) = unat P div 10 ^ 6 \<and> unat (tv_nsec (period_spec Scale_Femto P)) < 10 ^ 9"
proof -
  have "unat (P div 1000000 div 1000000) < 1000" using assms by (simp add: unat_div_distrib div_less_iff_less_mult)
  then have "P div 1000000 div 1000000 div 1000 = 0" by (intro small_div) simp
  moreover have "unat P div 1000000 < 1000000000" using assms by (simp add: div_less_iff_less_mult)
  ultimately show ?thesis by (simp add: period_spec_def scale_defs spec_ns_def Let_def unat_div_distrib)
qed

lemma spec_seconds:
  "unat P * 3600 < 2 ^ 63 \<Longrightarrow> spec_ns (period_spec Scale_Hour P) = unat P * 3600 * 10 ^ 9 \<and> tv_nsec (period_spec Scale_Hour P) = 0"
  "unat P * 60 < 2 ^ 63 \<Longrightarrow> spec_ns (period_spec Scale_Min P) = unat P * 60 * 10 ^ 9 \<and> tv_nsec (period_spec Scale_Min P) = 0"
  "spec_ns (period_spec Scale_Sec P) = unat P * 10 ^ 9 \<and> tv_nsec (period_spec Scale_Sec P) = 0"
  using spec_hour [of P] spec_min [of P] by (simp_all add: period_spec_def scale_defs spec_ns_def)

lemma period_spec_ns:
  "period_fits Scale P \<Longrightarrow> spec_ns (period_spec Scale P) = period_ns Scale P \<and> unat (tv_nsec (period_spec Scale P)) < 10 ^ 9"
proof -
  consider "Scale = Scale_Hour" | "Scale = Scale_Min" | "Scale = Scale_Sec" | "Scale = Scale_Milli" | "Scale = Scale_Micro" |
    "Scale = Scale_Nano" | "Scale = Scale_Pico" | "Scale = Scale_Femto" |
    "Scale \<noteq> Scale_Hour" "Scale \<noteq> Scale_Min" "Scale \<noteq> Scale_Sec" "Scale \<noteq> Scale_Milli" "Scale \<noteq> Scale_Micro"
    "Scale \<noteq> Scale_Nano" "Scale \<noteq> Scale_Pico" "Scale \<noteq> Scale_Femto" by blast
  moreover assume "period_fits Scale P"
  ultimately show ?thesis
    by cases (use spec_seconds [of P] spec_milli [of P] spec_micro [of P] spec_nano [of P] spec_pico [of P] spec_femto [of P] in
      \<open>simp_all add: period_fits_def period_ns_def scale_defs\<close>, simp add: period_spec_def zero_time_def spec_ns_def scale_defs)
qed

section \<open>Properties\<close>

text \<open>
  C28. \<open>Start\<close> arms the timer with exactly its period, in normalized form, if the seconds of the period in its unit
  fit in 32 bits; a periodic timer is reloaded with the same period, a delay is not. The timer runs if the system accepted it.
\<close>

theorem Timer_period:
  assumes "period_fits (m_Scale t) (m_Period t)" "Timer_Start settime t = (t', rv)"
  shows "spec_ns (it_value (m_TimerPeriod t')) = period_ns (m_Scale t) (m_Period t) \<and>
    unat (tv_nsec (it_value (m_TimerPeriod t'))) < 10 ^ 9 \<and>
    it_interval (m_TimerPeriod t') = (if m_Mode t = Timer_Delay then zero_time else it_value (m_TimerPeriod t')) \<and>
    rv = settime (m_TimerPeriod t') \<and> m_Running t' = rv"
  using assms(2) period_spec_ns [OF assms(1)] by (auto simp: Timer_Start_def Let_def)

definition accepts_normal :: "itimerspec \<Rightarrow> bool" where
  "accepts_normal p \<longleftrightarrow> unat (tv_nsec (it_value p)) < 10 ^ 9 \<and> unat (tv_nsec (it_interval p)) < 10 ^ 9"

definition demo_timer :: "u8 \<Rightarrow> u64 \<Rightarrow> (unit, unit) timer" where
  "demo_timer Scale Period = Timer_new True \<lparr>it_value = zero_time, it_interval = zero_time\<rparr> Timer_Periodic Scale Period"

theorem Timer_period_witness:
  "spec_ns (it_value (m_TimerPeriod (fst (Timer_Start accepts_normal (demo_timer Scale_Milli 1500))))) = 1500000000"
  using Timer_period [of "demo_timer Scale_Milli 1500" accepts_normal "fst (Timer_Start accepts_normal (demo_timer Scale_Milli 1500))"
      "snd (Timer_Start accepts_normal (demo_timer Scale_Milli 1500))"]
  by (simp add: demo_timer_def Timer_new_def period_fits_def period_ns_def scale_defs)

lemma enough_left: "2 ^ 32 \<le> x - y \<Longrightarrow> x \<le> p \<Longrightarrow> 10 ^ 9 \<le> p - (y :: nat)"
  by simp

lemma wrapped_nano:
  assumes "5 * 10 ^ 9 \<le> unat P" "unat P div 10 ^ 9 < 2 ^ 32"
  shows "10 ^ 9 \<le> unat (tv_nsec (period_spec Scale_Nano P))"
proof -
  let ?q = "unat P div 10 ^ 9"
  have s: "unat (ucast (P div 1000000000) :: u32) = ?q" using assms(2) unat_narrow [of "P div 1000000000"] by (simp add: unat_div_distrib)
  then have m: "unat (ucast ((ucast (P div 1000000000) :: u32) * 1000000000) :: u64) = ?q * 10 ^ 9 mod 2 ^ 32"
    by (simp only: unat_widen unat_word_ariths) simp
  have "5 \<le> ?q" using assms(1) by (simp add: less_eq_div_iff_mult_less_eq)
  then have "5 * 10 ^ 9 \<le> ?q * 10 ^ 9" by (rule mult_le_mono1)
  from div_le_mono [OF this, of "2 ^ 32"] have "1 \<le> ?q * 10 ^ 9 div 2 ^ 32" by simp
  then have "2 ^ 32 * 1 \<le> 2 ^ 32 * (?q * 10 ^ 9 div 2 ^ 32)" by (rule mult_le_mono2)
  then have big: "2 ^ 32 \<le> ?q * 10 ^ 9 - ?q * 10 ^ 9 mod 2 ^ 32" by (simp only: minus_mod_eq_mult_div mult_1_right)
  have le: "?q * 10 ^ 9 \<le> unat P" by simp
  then have "ucast ((ucast (P div 1000000000) :: u32) * 1000000000) \<le> P"
    using mod_less_eq_dividend [of "?q * 10 ^ 9" "2 ^ 32"] by (simp only: word_le_nat_alt m)
  then have "unat (P - ucast ((ucast (P div 1000000000) :: u32) * 1000000000)) = unat P - ?q * 10 ^ 9 mod 2 ^ 32"
    by (simp only: unat_sub m)
  moreover have "10 ^ 9 \<le> unat P - ?q * 10 ^ 9 mod 2 ^ 32" by (rule enough_left [OF big le])
  ultimately have "10 ^ 9 \<le> unat (P - ucast ((ucast (P div 1000000000) :: u32) * 1000000000))" by simp
  then show ?thesis by (simp add: period_spec_def scale_defs Let_def)
qed

text \<open>
  C40. From five seconds on, a period in nanoseconds is converted to a time that is not normalized, which a system
  that checks it refuses: the product of the seconds with the unit wraps around at 32 bits. In picoseconds, one second
  becomes nearly two.
\<close>

theorem Timer_long_nano:
  assumes "m_Scale t = Scale_Nano" "5 * 10 ^ 9 \<le> unat (m_Period t)" "unat (m_Period t) div 10 ^ 9 < 2 ^ 32"
    "\<And>p. settime p \<Longrightarrow> unat (tv_nsec (it_value p)) < 10 ^ 9"
  shows "snd (Timer_Start settime t) = False \<and> m_Running (fst (Timer_Start settime t)) = False"
proof -
  have "\<not> settime \<lparr>it_value = period_spec Scale_Nano (m_Period t), it_interval = i\<rparr>" for i
    using wrapped_nano [OF assms(2,3)] assms(4) [of "\<lparr>it_value = period_spec Scale_Nano (m_Period t), it_interval = i\<rparr>"] by auto
  then show ?thesis using assms(1) by (simp add: Timer_Start_def Let_def)
qed

theorem Timer_long_nano_witness: "snd (Timer_Start accepts_normal (demo_timer Scale_Nano 5000000000)) = False"
  using Timer_long_nano [of "demo_timer Scale_Nano 5000000000" accepts_normal]
  by (simp add: demo_timer_def Timer_new_def accepts_normal_def)

lemma one_second_of_pico: "spec_ns (period_spec Scale_Pico 1000000000000) = 1996432412"
  by (simp add: period_spec_def scale_defs spec_ns_def Let_def)

text \<open>
  Events that nobody waits for are merged: however many were signalled, one wait succeeds and the next blocks.
  The dispatcher gets every event for which its queue has room.
\<close>

fun signals :: "nat \<Rightarrow> ('h, 'c) timer \<Rightarrow> ('h, 'c) timer" where
  "signals 0 t = t"
| "signals (Suc n) t = signals n (SignalEvent True t)"

lemma signals_sem: "sem_holds (m_SemEvent t) k 1 \<Longrightarrow> sem_holds (m_SemEvent (signals n t)) (if n = 0 then k else 1) 1"
proof (induction n arbitrary: t k)
  case (Suc n)
  have "sem_holds (m_SemEvent (SignalEvent True t)) 1 1"
    using Give_holds [OF Suc.prems, of "fst (SemLite_Give (m_SemEvent t))" "snd (SemLite_Give (m_SemEvent t))"] Suc.prems
    by (auto simp: SignalEvent_def Let_def sem_holds_def split: option.splits if_splits)
  from Suc.IH [OF this] show ?case by (simp split: if_splits)
qed simp

lemma Timer_merges:
  assumes "0 < n" "sem_holds (m_SemEvent t) 0 1"
  shows "snd (WaitEvent (signals n t)) \<and> \<not> snd (WaitEvent (fst (WaitEvent (signals n t))))"
proof -
  have h: "sem_holds (m_SemEvent (signals n t)) 1 1" using signals_sem [OF assms(2), of n] assms(1) by simp
  obtain s rv where t: "SemLite_Take (m_SemEvent (signals n t)) = (s, rv)" by fastforce
  from Take_holds [OF h t] have r: "rv" "sem_holds s 0 1" by simp_all
  obtain s' rv' where t': "SemLite_Take s = (s', rv')" by fastforce
  from Take_holds [OF r(2) t'] show ?thesis using t t' r(1) by (simp add: WaitEvent_def)
qed

end
