(* ===== verification/PosixUtil.thy ===== *)
theory PosixUtil
  imports Timer
begin

text \<open>
  \<open>cpUtil_I\<close> of the POSIX platform: delays, times, paths, processes. The calls of the system are
  arguments of the definitions; the loop that sleeps has no result if it does not end.
\<close>

section \<open>Delays\<close>

datatype sleep_error = EINTR | Other_errno

text \<open>
  \<open>nanosleep\<close> takes the state of the system and an interval; it returns the next state, the time that remains,
  and the error if it was not slept to its end.
\<close>

type_synonym 'o nanosleep = "'o \<Rightarrow> timespec \<Rightarrow> 'o \<times> timespec \<times> sleep_error option"

partial_function (option) NativeSleep :: "'o nanosleep \<Rightarrow> 'o \<Rightarrow> timespec \<Rightarrow> ('o \<times> bool) option" where
  "NativeSleep ns w Interval =
     (case ns w Interval of
        (w1, remains, None) \<Rightarrow> Some (w1, True)
      | (w1, remains, Some EINTR) \<Rightarrow> NativeSleep ns w1 remains
      | (w1, remains, Some Other_errno) \<Rightarrow> Some (w1, False))"

definition Sleep_spec :: "u32 \<Rightarrow> timespec" where
  "Sleep_spec Delay = \<lparr>tv_sec = ucast Delay, tv_nsec = 0\<rparr>"

definition MilliSleep_spec :: "u32 \<Rightarrow> timespec" where
  "MilliSleep_spec Delay = \<lparr>tv_sec = ucast (Delay div 1000), tv_nsec = ucast (Delay mod 1000 * 1000000)\<rparr>"

definition MicroSleep_spec :: "u32 \<Rightarrow> timespec" where
  "MicroSleep_spec Delay = \<lparr>tv_sec = ucast (Delay div 1000000), tv_nsec = ucast (Delay mod 1000000 * 1000)\<rparr>"

definition NanoSleep_spec :: "u32 \<Rightarrow> timespec" where
  "NanoSleep_spec Delay = \<lparr>tv_sec = ucast (Delay div 1000000000), tv_nsec = ucast (Delay mod 1000000000)\<rparr>"

definition Sleep :: "'o nanosleep \<Rightarrow> u32 \<Rightarrow> 'o \<Rightarrow> ('o \<times> bool) option" where
  "Sleep ns Delay w = NativeSleep ns w (Sleep_spec Delay)"

definition MilliSleep :: "'o nanosleep \<Rightarrow> u32 \<Rightarrow> 'o \<Rightarrow> ('o \<times> bool) option" where
  "MilliSleep ns Delay w = NativeSleep ns w (MilliSleep_spec Delay)"

definition MicroSleep :: "'o nanosleep \<Rightarrow> u32 \<Rightarrow> 'o \<Rightarrow> ('o \<times> bool) option" where
  "MicroSleep ns Delay w = NativeSleep ns w (MicroSleep_spec Delay)"

definition NanoSleep :: "'o nanosleep \<Rightarrow> u32 \<Rightarrow> 'o \<Rightarrow> ('o \<times> bool) option" where
  "NanoSleep ns Delay w = NativeSleep ns w (NanoSleep_spec Delay)"

section \<open>Times\<close>

text \<open>\<open>tod\<close> are the seconds and microseconds of \<open>gettimeofday\<close>, if it succeeds; the CPU time has nanoseconds.\<close>

definition Time32 :: "u64 \<Rightarrow> u32" where
  "Time32 seconds = ucast seconds"

definition Time64 :: "(u64 \<times> u64) option \<Rightarrow> u64" where
  "Time64 tod = (case tod of Some (tv_s, tv_us) \<Rightarrow> tv_s * 1000 + tv_us div 1000 | None \<Rightarrow> 0)"

definition CpuTime64 :: "timespec option \<Rightarrow> u64" where
  "CpuTime64 clock = (case clock of Some tm \<Rightarrow> tv_sec tm * 1000 + tv_nsec tm div 1000000 | None \<Rightarrow> 0)"

section \<open>Paths and files\<close>

text \<open>\<open>stat\<close> gives the mode and the size of the file of a path, if there is one.\<close>

record file_stat =
  st_mode :: u32
  st_size :: u64

definition S_IFMT :: u32 where "S_IFMT = 0xF000"
definition S_IFREG :: u32 where "S_IFREG = 0x8000"
definition S_IFDIR :: u32 where "S_IFDIR = 0x4000"

definition PathExists :: "(string \<Rightarrow> file_stat option) \<Rightarrow> string \<Rightarrow> bool" where
  "PathExists stat PathName = (stat PathName \<noteq> None)"

definition DirCreate :: "(string \<Rightarrow> file_stat option) \<Rightarrow> (string \<Rightarrow> bool) \<Rightarrow> string \<Rightarrow> bool" where
  "DirCreate stat mkdir PathName = (if \<not> PathExists stat PathName then mkdir PathName else True)"

definition GetPathType :: "(string \<Rightarrow> file_stat option) \<Rightarrow> string \<Rightarrow> bool \<times> bool \<times> bool" where
  "GetPathType stat Path =
     (case stat Path of
        Some fs \<Rightarrow> (True, st_mode fs AND S_IFMT = S_IFREG, st_mode fs AND S_IFMT = S_IFDIR)
      | None \<Rightarrow> (False, False, False))"

definition GetFileSize :: "(string \<Rightarrow> file_stat option) \<Rightarrow> string \<Rightarrow> u64" where
  "GetFileSize stat Path = (case stat Path of Some fs \<Rightarrow> st_size fs | None \<Rightarrow> 0)"

definition GetFileSize_desc :: "(int \<Rightarrow> file_stat option) \<Rightarrow> int \<Rightarrow> u64" where
  "GetFileSize_desc fstat Descriptor = (case fstat Descriptor of Some fs \<Rightarrow> st_size fs | None \<Rightarrow> 0)"

definition GetFileAttr :: "(string \<Rightarrow> file_stat option) \<Rightarrow> string \<Rightarrow> u32" where
  "GetFileAttr stat Path = (case stat Path of Some fs \<Rightarrow> st_mode fs | None \<Rightarrow> 0)"

definition GetFileAttr_desc :: "(int \<Rightarrow> file_stat option) \<Rightarrow> int \<Rightarrow> u32" where
  "GetFileAttr_desc fstat Descriptor = (case fstat Descriptor of Some fs \<Rightarrow> st_mode fs | None \<Rightarrow> 0)"

section \<open>Processes\<close>

text \<open>The vectors for \<open>execve\<close>, which end with NULL.\<close>

definition exec_vector :: "string list \<Rightarrow> string option list" where
  "exec_vector Args = map Some Args @ [None]"

text \<open>
  What \<open>StartProcess\<close> does in each process: \<open>Parent\<close> returns the number of the child, or 0 if the fork failed; the child
  runs the program, or exits if it cannot.
\<close>

datatype process = Parent u32 | Child_runs string "string option list" "string option list" | Child_exits

definition StartProcess :: "int \<Rightarrow> (string \<Rightarrow> string option list \<Rightarrow> string option list \<Rightarrow> bool) \<Rightarrow>
  string \<Rightarrow> string list \<Rightarrow> string list \<Rightarrow> process" where
  "StartProcess pid execve FilePath Args EnvVars =
     (let arg = exec_vector Args; env = exec_vector EnvVars
      in if pid < 0 then Parent 0
         else if pid = 0 then
           if execve FilePath arg env then Child_runs FilePath arg env else Child_exits
         else Parent (word_of_int pid))"

definition CriticalEnter :: bool where "CriticalEnter = False"
definition CriticalExit :: bool where "CriticalExit = False"

section \<open>Properties\<close>

text \<open>The interval that is asked for is exactly the delay, in normalized form.\<close>

lemma unat_u32_widen: "unat (ucast (x :: u32) :: u64) = unat x"
  by (rule unat_widen)

lemma unat_rest:
  assumes "unat (K :: u32) = k" "unat (U :: u32) = u" "0 < k" "k * u \<le> 2 ^ 32"
  shows "unat ((D :: u32) mod K * U) = unat D mod k * u"
proof -
  have "unat D mod k < k" using assms(3) by simp
  then have "unat D mod k * u \<le> (k - 1) * u" by (intro mult_le_mono1) simp
  moreover have "u = 0 \<or> (k - 1) * u < 2 ^ 32" using assms(3,4) by (auto simp: diff_mult_distrib)
  ultimately have "unat D mod k * u < 2 ^ 32" by (cases "u = 0") (simp, metis le_less_trans)
  then show ?thesis by (simp only: unat_word_ariths(2) unat_mod_distrib assms(1,2)) simp
qed

lemma delay_specs:
  "spec_ns (Sleep_spec D) = unat D * 10 ^ 9 \<and> unat (tv_nsec (Sleep_spec D)) < 10 ^ 9"
  "spec_ns (MilliSleep_spec D) = unat D * 10 ^ 6 \<and> unat (tv_nsec (MilliSleep_spec D)) < 10 ^ 9"
  "spec_ns (MicroSleep_spec D) = unat D * 10 ^ 3 \<and> unat (tv_nsec (MicroSleep_spec D)) < 10 ^ 9"
  "spec_ns (NanoSleep_spec D) = unat D \<and> unat (tv_nsec (NanoSleep_spec D)) < 10 ^ 9"
proof -
  have l: "unat D mod 1000 < 1000" "unat D mod 1000000 < 1000000" "unat D mod 1000000000 < 1000000000" by simp_all
  show "spec_ns (Sleep_spec D) = unat D * 10 ^ 9 \<and> unat (tv_nsec (Sleep_spec D)) < 10 ^ 9"
    by (simp add: Sleep_spec_def spec_ns_def unat_widen)
  show "spec_ns (MilliSleep_spec D) = unat D * 10 ^ 6 \<and> unat (tv_nsec (MilliSleep_spec D)) < 10 ^ 9"
    using unat_rest [of 1000 1000 1000000 1000000 D] join_units [of "unat D" 1000 1000000] l(1)
    by (simp add: MilliSleep_spec_def spec_ns_def unat_widen unat_div_distrib)
  show "spec_ns (MicroSleep_spec D) = unat D * 10 ^ 3 \<and> unat (tv_nsec (MicroSleep_spec D)) < 10 ^ 9"
    using unat_rest [of 1000000 1000000 1000 1000 D] join_units [of "unat D" 1000000 1000] l(2)
    by (simp add: MicroSleep_spec_def spec_ns_def unat_widen unat_div_distrib)
  show "spec_ns (NanoSleep_spec D) = unat D \<and> unat (tv_nsec (NanoSleep_spec D)) < 10 ^ 9"
    using join_units [of "unat D" 1000000000 1] l(3)
    by (simp add: NanoSleep_spec_def spec_ns_def unat_widen unat_div_distrib unat_mod_distrib)
qed

text \<open>
  What is relied on: the time slept so far, \<open>slept w\<close>, grows at least by the interval, or, on an interruption, by what the
  remainder lacks of it; the remainder is normalized.
\<close>

definition sleeps :: "'o nanosleep \<Rightarrow> ('o \<Rightarrow> nat) \<Rightarrow> bool" where
  "sleeps ns slept \<longleftrightarrow>
     (\<forall>w t. unat (tv_nsec t) < 10 ^ 9 \<longrightarrow>
        (case ns w t of
           (w1, r, None) \<Rightarrow> slept w + spec_ns t \<le> slept w1
         | (w1, r, Some EINTR) \<Rightarrow> unat (tv_nsec r) < 10 ^ 9 \<and> slept w + spec_ns t \<le> slept w1 + spec_ns r
         | (w1, r, Some Other_errno) \<Rightarrow> True))"

text \<open>Whether the first \<open>n\<close> calls are interrupted, each after the first with the remainder of the one before.\<close>

fun interrupted :: "'o nanosleep \<Rightarrow> nat \<Rightarrow> 'o \<Rightarrow> timespec \<Rightarrow> bool" where
  "interrupted ns 0 w t = True"
| "interrupted ns (Suc n) w t =
     (case ns w t of
        (w1, r, Some EINTR) \<Rightarrow> interrupted ns n w1 r
      | _ \<Rightarrow> False)"

lemma NativeSleep_ends: "\<not> interrupted ns n w t \<Longrightarrow> \<exists>res. NativeSleep ns w t = Some res"
proof (induction n arbitrary: w t)
  case (Suc n)
  obtain w1 r e where n: "ns w t = (w1, r, e)" by (rule prod_cases3)
  show ?case
  proof (cases "e = Some EINTR")
    case True
    with Suc.prems n have "\<not> interrupted ns n w1 r" by simp
    from Suc.IH [OF this] show ?thesis using n True by (subst NativeSleep.simps) simp
  next
    case False
    then show ?thesis using n by (subst NativeSleep.simps) (auto split: option.split sleep_error.split)
  qed
qed simp

lemma NativeSleep_result:
  assumes "NativeSleep ns w t = Some res"
  shows "(\<exists>n. \<not> interrupted ns n w t) \<and>
    (sleeps ns slept \<longrightarrow> unat (tv_nsec t) < 10 ^ 9 \<longrightarrow> snd res \<longrightarrow> slept w + spec_ns t \<le> slept (fst res))"
proof (rule NativeSleep.raw_induct [OF _ assms])
  fix f and ns :: "'a nanosleep" and w t and y :: "'a \<times> bool"
  assume IH: "\<And>ns w t y. f ns w t = Some y \<Longrightarrow> (\<exists>n. \<not> interrupted ns n w t) \<and>
      (sleeps ns slept \<longrightarrow> unat (tv_nsec t) < 10 ^ 9 \<longrightarrow> snd y \<longrightarrow> slept w + spec_ns t \<le> slept (fst y))"
    and b: "(case ns w t of
        (w1, remains, None) \<Rightarrow> Some (w1, True)
      | (w1, remains, Some EINTR) \<Rightarrow> f ns w1 remains
      | (w1, remains, Some Other_errno) \<Rightarrow> Some (w1, False)) = Some y"
  obtain w1 r e where n: "ns w t = (w1, r, e)" by (rule prod_cases3)
  show "(\<exists>n. \<not> interrupted ns n w t) \<and>
      (sleeps ns slept \<longrightarrow> unat (tv_nsec t) < 10 ^ 9 \<longrightarrow> snd y \<longrightarrow> slept w + spec_ns t \<le> slept (fst y))"
  proof (cases "e = Some EINTR")
    case True
    with b n have "f ns w1 r = Some y" by simp
    note h = IH [OF this]
    then obtain m where "\<not> interrupted ns m w1 r" by blast
    then have "\<not> interrupted ns (Suc m) w t" using n True by simp
    moreover have "slept w + spec_ns t \<le> slept (fst y)"
      if "sleeps ns slept" "unat (tv_nsec t) < 10 ^ 9" "snd y"
    proof -
      note law = that(1) [unfolded sleeps_def, rule_format, OF that(2), of w]
      then have "unat (tv_nsec r) < 10 ^ 9" "slept w + spec_ns t \<le> slept w1 + spec_ns r" by (simp_all add: n True)
      with h that show ?thesis by simp
    qed
    ultimately show ?thesis by blast
  next
    case False
    then have "\<not> interrupted ns (Suc 0) w t" using n by (auto split: option.splits sleep_error.splits)
    moreover have "slept w + spec_ns t \<le> slept (fst y)"
      if "sleeps ns slept" "unat (tv_nsec t) < 10 ^ 9" "snd y"
    proof -
      note law = that(1) [unfolded sleeps_def, rule_format, OF that(2), of w]
      from b n False that(3) have "e = None" "y = (w1, True)" by (auto split: option.splits sleep_error.splits)
      with law n show ?thesis by simp
    qed
    ultimately show ?thesis by blast
  qed
qed

lemma NativeSleep_None: "NativeSleep ns w t = None \<longleftrightarrow> (\<forall>n. interrupted ns n w t)"
  using NativeSleep_ends [of ns _ w t] NativeSleep_result [of ns w t] by (cases "NativeSleep ns w t") auto

lemma NativeSleep_delay:
  "sleeps ns slept \<Longrightarrow> NativeSleep ns w t = Some (w', True) \<Longrightarrow> spec_ns t = d \<and> unat (tv_nsec t) < 10 ^ 9 \<Longrightarrow> slept w + d \<le> slept w'"
  using NativeSleep_result [of ns w t "(w', True)" slept] by simp

text \<open>
  C30. A delay that reports success has lasted at least as long as was asked for: the remainders of the interruptions are slept
  too, and no conversion of the unit loses a part. It goes on for ever exactly if every call of the system is interrupted.
\<close>

theorem Sleep_delays:
  assumes "sleeps ns slept"
  shows "(\<forall>w'. Sleep ns D w = Some (w', True) \<longrightarrow> slept w + unat D * 10 ^ 9 \<le> slept w') \<and>
    (\<forall>w'. MilliSleep ns D w = Some (w', True) \<longrightarrow> slept w + unat D * 10 ^ 6 \<le> slept w') \<and>
    (\<forall>w'. MicroSleep ns D w = Some (w', True) \<longrightarrow> slept w + unat D * 10 ^ 3 \<le> slept w') \<and>
    (\<forall>w'. NanoSleep ns D w = Some (w', True) \<longrightarrow> slept w + unat D \<le> slept w') \<and>
    ((Sleep ns D w = None) = (\<forall>n. interrupted ns n w (Sleep_spec D))) \<and>
    ((MilliSleep ns D w = None) = (\<forall>n. interrupted ns n w (MilliSleep_spec D))) \<and>
    ((MicroSleep ns D w = None) = (\<forall>n. interrupted ns n w (MicroSleep_spec D))) \<and>
    ((NanoSleep ns D w = None) = (\<forall>n. interrupted ns n w (NanoSleep_spec D)))"
  unfolding Sleep_def MilliSleep_def MicroSleep_def NanoSleep_def
  using NativeSleep_delay [OF assms _ delay_specs(1)] NativeSleep_delay [OF assms _ delay_specs(2)]
    NativeSleep_delay [OF assms _ delay_specs(3)] NativeSleep_delay [OF assms _ delay_specs(4)] NativeSleep_None
  by (intro conjI allI impI) assumption+

text \<open>A system that interrupts every call of more than two seconds after one second.\<close>

definition demo_nanosleep :: "nat nanosleep" where
  "demo_nanosleep w t = (if 2 < tv_sec t then (w + 10 ^ 9, t\<lparr>tv_sec := tv_sec t - 1\<rparr>, Some EINTR) else (w + spec_ns t, t, None))"

lemma demo_sleeps: "sleeps demo_nanosleep (\<lambda>w. w)"
proof -
  have "10 ^ 9 + spec_ns (t\<lparr>tv_sec := tv_sec t - 1\<rparr>) = spec_ns t" if "2 < tv_sec t" for t
  proof -
    have "0 < tv_sec t" "0 < unat (tv_sec t)" using that by (simp_all add: word_less_nat_alt)
    moreover have "unat (tv_sec t - 1) = unat (tv_sec t) - 1" using calculation by (simp add: unat_minus_one)
    moreover have "unat (tv_sec t) * 10 ^ 9 = (unat (tv_sec t) - 1) * 10 ^ 9 + 10 ^ 9" using calculation(2)
      by (cases "unat (tv_sec t)") simp_all
    ultimately show ?thesis by (simp add: spec_ns_def)
  qed
  then show ?thesis by (auto simp: sleeps_def demo_nanosleep_def)
qed

theorem Sleep_delays_witness:
  "\<exists>w r. MilliSleep demo_nanosleep 5500 0 = Some (w, r) \<and> interrupted demo_nanosleep 3 0 (MilliSleep_spec 5500) \<and>
    (r \<longrightarrow> 5500000000 \<le> w)"
proof -
  have t: "MilliSleep_spec 5500 = \<lparr>tv_sec = 5, tv_nsec = 500000000\<rparr>" by (simp add: MilliSleep_spec_def)
  have four: "(4::nat) = Suc (Suc (Suc (Suc 0)))" by simp
  have i: "interrupted demo_nanosleep 3 0 (MilliSleep_spec 5500)" "\<not> interrupted demo_nanosleep 4 0 (MilliSleep_spec 5500)"
    unfolding t four numeral_3_eq_3 by (simp_all add: demo_nanosleep_def)
  note h = Sleep_delays [OF demo_sleeps, of 5500 0]
  with i(2) have "MilliSleep demo_nanosleep 5500 0 \<noteq> None" by blast
  then obtain w r where m: "MilliSleep demo_nanosleep 5500 0 = Some (w, r)" by auto
  from h m have "r \<longrightarrow> 5500000000 \<le> w" by auto
  with m i show ?thesis by blast
qed

lemma GetPathType_exclusive: "GetPathType stat p = (rv, f, d) \<Longrightarrow> \<not> (f \<and> d) \<and> (f \<or> d \<longrightarrow> PathExists stat p)"
  by (auto simp: GetPathType_def PathExists_def S_IFREG_def S_IFDIR_def split: option.splits)

end
