(* ===== verification/PooledBase.thy ===== *)
theory PooledBase
  imports MemMgrInv
begin

text \<open>
  \<open>cpPooledBase\<close> and \<open>cpAlloc\<close>: the operators that place objects in blocks of the memory manager, and the
  allocator for containers. A pointer to an object is the address of the buffer of its block. No result
  stands for a use of the NULL block pointer.
\<close>

section \<open>Operators\<close>

datatype new_result = Obj nat | Bad_alloc

definition PooledBase_new :: "nat \<Rightarrow> memmgr \<Rightarrow> (memmgr \<times> new_result) option" where
  "PooledBase_new Size g = do {
     (g1, pMem, rv) \<leftarrow> MemBlockGet g None Size;
     if \<not> rv then Some (g1, Bad_alloc)
     else do { a \<leftarrow> pMem; Some (g1, Obj (BuffGet a)) }
   }"

definition PooledBase_new_nothrow :: "nat \<Rightarrow> memmgr \<Rightarrow> (memmgr \<times> new_result) option" where
  "PooledBase_new_nothrow Size g = do {
     (g1, pMem, rv) \<leftarrow> MemBlockGet g None Size;
     a \<leftarrow> pMem;
     Some (g1, Obj (BuffGet a))
   }"

text \<open>Placement gives the address back, and its deletion does nothing.\<close>

definition PooledBase_new_at :: "nat \<Rightarrow> nat \<Rightarrow> memmgr \<Rightarrow> memmgr \<times> new_result" where
  "PooledBase_new_at Size Ptr g = (g, Obj Ptr)"

definition PooledBase_delete_at :: "nat option \<Rightarrow> nat option \<Rightarrow> memmgr \<Rightarrow> memmgr" where
  "PooledBase_delete_at Ptr pSys g = g"

text \<open>The result of \<open>MemBlockPut\<close> only goes to the log.\<close>

definition PooledBase_delete :: "nat option \<Rightarrow> memmgr \<Rightarrow> memmgr option" where
  "PooledBase_delete Ptr g = do {
     (g1, p, rv) \<leftarrow> MemBlockPut_char g Ptr;
     Some g1
   }"

definition PooledBase_delete_nothrow :: "nat option \<Rightarrow> memmgr \<Rightarrow> memmgr option" where
  "PooledBase_delete_nothrow Ptr g = do {
     (g1, p, rv) \<leftarrow> MemBlockPut_char g Ptr;
     Some g1
   }"

text \<open>The operators for arrays have the same bodies.\<close>

definition PooledBase_new_array :: "nat \<Rightarrow> memmgr \<Rightarrow> (memmgr \<times> new_result) option" where
  "PooledBase_new_array Size g = do {
     (g1, pMem, rv) \<leftarrow> MemBlockGet g None Size;
     if \<not> rv then Some (g1, Bad_alloc)
     else do { a \<leftarrow> pMem; Some (g1, Obj (BuffGet a)) }
   }"

definition PooledBase_new_array_nothrow :: "nat \<Rightarrow> memmgr \<Rightarrow> (memmgr \<times> new_result) option" where
  "PooledBase_new_array_nothrow Size g = do {
     (g1, pMem, rv) \<leftarrow> MemBlockGet g None Size;
     a \<leftarrow> pMem;
     Some (g1, Obj (BuffGet a))
   }"

definition PooledBase_new_array_at :: "nat \<Rightarrow> nat \<Rightarrow> memmgr \<Rightarrow> memmgr \<times> new_result" where
  "PooledBase_new_array_at Size Ptr g = (g, Obj Ptr)"

definition PooledBase_delete_array :: "nat option \<Rightarrow> memmgr \<Rightarrow> memmgr option" where
  "PooledBase_delete_array Ptr g = do {
     (g1, p, rv) \<leftarrow> MemBlockPut_char g Ptr;
     Some g1
   }"

definition PooledBase_delete_array_nothrow :: "nat option \<Rightarrow> memmgr \<Rightarrow> memmgr option" where
  "PooledBase_delete_array_nothrow Ptr g = do {
     (g1, p, rv) \<leftarrow> MemBlockPut_char g Ptr;
     Some g1
   }"

definition PooledBase_delete_array_at :: "nat option \<Rightarrow> nat option \<Rightarrow> memmgr \<Rightarrow> memmgr" where
  "PooledBase_delete_array_at Ptr pSys g = g"

section \<open>The allocator of containers\<close>

text \<open>\<open>pBlk\<close> is the block pointer that is not initialized; \<open>sizeofT\<close> the size of an element.\<close>

definition Alloc_allocate :: "addr option \<Rightarrow> nat \<Rightarrow> nat \<Rightarrow> memmgr \<Rightarrow> (memmgr \<times> nat option) option" where
  "Alloc_allocate pBlk sizeofT n g = do {
     (g1, pBlk1, rv) \<leftarrow> MemBlockGet g pBlk (n * sizeofT mod 2 ^ 64);
     if rv then do { a \<leftarrow> pBlk1; Some (g1, Some (BuffGet a)) } else Some (g1, None)
   }"

definition Alloc_deallocate :: "nat option \<Rightarrow> nat \<Rightarrow> memmgr \<Rightarrow> memmgr option" where
  "Alloc_deallocate p n g =
     (if p \<noteq> None then do { (g1, q, rv) \<leftarrow> MemBlockPut_char g p; Some g1 } else Some g)"

definition Alloc_max_size :: nat where "Alloc_max_size = 2 ^ 64 - 1"

section \<open>Objects\<close>

lemmas operator_forms = PooledBase_new_array_def PooledBase_new_array_nothrow_def PooledBase_delete_array_def
  PooledBase_delete_array_nothrow_def PooledBase_delete_nothrow_def PooledBase_new_def PooledBase_new_nothrow_def PooledBase_delete_def

text \<open>The block of a buffer pointer.\<close>

lemma Put_char_block:
  assumes "BuffGet a < 2 ^ 64" "MemBlockPut g (Some a) = Some (g', r, rv)"
  shows "MemBlockPut_char g (Some (BuffGet a)) = Some (g', if rv then None else Some (BuffGet a), rv)"
proof -
  have "(BuffGet a + (2 ^ 64 - sizeof_MemBlock)) mod 2 ^ 64 = a"
    using assms(1) by (simp add: BuffGet_def sizeof_MemBlock_def)
  then show ?thesis using assms(2) by (simp add: MemBlockPut_char_def BuffGet_def sizeof_MemBlock_def)
qed

lemma new_object:
  assumes "mm_ok g" "n + sizeof_MemBlock < 2 ^ 64" "can_serve g n"
  obtains g' a where "MemBlockGet g None n = Some (g', Some a, True)" "mm_ok g'" "\<not> deployed g a" "deployed g' a"
    "sizes (h_mem (g_heap g')) a = Some (served_size g n)"
    "\<And>c. deployed g c \<Longrightarrow> h_mem (g_heap g') c = h_mem (g_heap g) c \<and> deployed g' c \<and> c \<noteq> a"
    "\<And>c s. deployed g c \<Longrightarrow> sizes (h_mem (g_heap g)) c = Some s \<Longrightarrow> BuffGet c + s \<le> a \<or> BuffGet a + served_size g n \<le> c"
proof -
  from get_ok [OF assms(1,2)] assms(3) obtain g' a where
    r: "MemBlockGet g None n = Some (g', Some a, True)" "mm_ok g'" "\<not> deployed g a" "deployed g' a"
      "sizes (h_mem (g_heap g')) a = Some (served_size g n)"
      "\<forall>c. deployed g c \<longrightarrow> h_mem (g_heap g') c = h_mem (g_heap g) c" by auto
  have k: "h_mem (g_heap g') c = h_mem (g_heap g) c \<and> deployed g' c \<and> c \<noteq> a" if "deployed g c" for c
    using r(3,6) that by (auto simp: deployed_def)
  have f: "BuffGet c + s \<le> a \<or> BuffGet a + served_size g n \<le> c"
    if "deployed g c" "sizes (h_mem (g_heap g)) c = Some s" for c s
  proof -
    have "sizes (h_mem (g_heap g')) c = Some s" "c \<noteq> a" using k [OF that(1)] that(2) by (simp_all add: sizes_def)
    then show ?thesis using r(2,5) unfolding mm_ok_def geom_def BuffGet_def by (metis linorder_neqE_nat)
  qed
  show thesis by (rule that [OF r(1-5) k f])
qed

text \<open>
  C29. A new object lies in a block of its own, which is large enough and apart from every block in use; its deletion
  gives the block up and touches no other. The operators for arrays and those that do not throw do the same.
\<close>

theorem PooledBase_objects:
  assumes "mm_reach g" "n + sizeof_MemBlock < 2 ^ 64" "can_serve g n"
  shows "\<exists>g' a. PooledBase_new n g = Some (g', Obj (BuffGet a)) \<and> PooledBase_new_nothrow n g = PooledBase_new n g \<and>
    PooledBase_new_array n g = PooledBase_new n g \<and> \<not> deployed g a \<and> deployed g' a \<and>
    (\<forall>c s. deployed g c \<and> sizes (h_mem (g_heap g)) c = Some s \<longrightarrow>
       deployed g' c \<and> (BuffGet c + s \<le> a \<or> BuffGet a + n \<le> c)) \<and>
    (BuffGet a < 2 ^ 64 \<longrightarrow>
       (\<exists>g''. PooledBase_delete (Some (BuffGet a)) g' = Some g'' \<and> PooledBase_delete_array (Some (BuffGet a)) g' = Some g'' \<and>
          \<not> deployed g'' a \<and> (\<forall>c. deployed g c \<longrightarrow> h_mem (g_heap g'') c = h_mem (g_heap g) c)))"
proof -
  obtain g' a where r: "MemBlockGet g None n = Some (g', Some a, True)" "mm_ok g'" "\<not> deployed g a" "deployed g' a"
    "\<And>c. deployed g c \<Longrightarrow> h_mem (g_heap g') c = h_mem (g_heap g) c \<and> deployed g' c \<and> c \<noteq> a"
    "\<And>c s. deployed g c \<Longrightarrow> sizes (h_mem (g_heap g)) c = Some s \<Longrightarrow> BuffGet c + s \<le> a \<or> BuffGet a + served_size g n \<le> c"
    using new_object [OF mm_reach_inv [OF assms(1)] assms(2,3)] by metis
  from put_mm_ok [OF r(2,4)] obtain g'' r' where
    p: "MemBlockPut g' (Some a) = Some (g'', r', r' = None)" "\<not> deployed g'' a"
      "\<forall>c. c \<noteq> a \<longrightarrow> deployed g' c \<longrightarrow> h_mem (g_heap g'') c = h_mem (g_heap g') c"
    by blast
  have d: "PooledBase_delete (Some (BuffGet a)) g' = Some g'' \<and> PooledBase_delete_array (Some (BuffGet a)) g' = Some g''"
    if "BuffGet a < 2 ^ 64" using Put_char_block [OF that p(1)] by (simp add: operator_forms)
  have f: "BuffGet c + s \<le> a \<or> BuffGet a + n \<le> c" if "deployed g c" "sizes (h_mem (g_heap g)) c = Some s" for c s
    using r(6) [OF that] served_size_ge [of n g] by linarith
  have k: "h_mem (g_heap g'') c = h_mem (g_heap g) c" if "deployed g c" for c
    using p(3) r(5) [OF that] by simp
  show ?thesis
    by (rule exI [of _ g'], rule exI [of _ a]) (use r p(2) d f k in \<open>auto simp: operator_forms\<close>)
qed

theorem PooledBase_objects_witness:
  "\<exists>g' a. PooledBase_new 10 (empty_mgr (start_heap (\<lambda>_. True))) = Some (g', Obj (BuffGet a)) \<and> deployed g' a"
  using PooledBase_objects [OF mm_reach.init, of 10 "\<lambda>_. True"]
  by (auto simp: can_serve_def empty_mgr_def start_heap_def sizeof_MemBlock_def)

text \<open>Without memory, neither form returns: the exception is never thrown, and there is no NULL.\<close>

theorem PooledBase_exhausted:
  assumes "mm_reach g" "n + sizeof_MemBlock < 2 ^ 64" "\<not> can_serve g n"
  shows "PooledBase_new n g = None \<and> PooledBase_new_nothrow n g = None"
  using get_ok [OF mm_reach_inv [OF assms(1)] assms(2)] assms(3) by (simp add: operator_forms)

theorem PooledBase_exhausted_witness:
  "PooledBase_new 10 (empty_mgr (start_heap (\<lambda>_. False))) = None"
  using PooledBase_exhausted [OF mm_reach.init, of 10 "\<lambda>_. False"]
  by (simp add: can_serve_def empty_mgr_def start_heap_def sizeof_MemBlock_def)

text \<open>The size of an array wraps around: a request for more than the address space is served with a small block.\<close>

theorem Alloc_wraps:
  "\<exists>g' a. Alloc_allocate None 16 (2 ^ 60 + 1) (empty_mgr (start_heap (\<lambda>_. True))) = Some (g', Some (BuffGet a)) \<and>
    sizes (h_mem (g_heap g')) a = Some 16"
proof -
  let ?E = "empty_mgr (start_heap (\<lambda>_. True))"
  have "can_serve ?E 16" "served_size ?E 16 = 16" "(16::nat) + sizeof_MemBlock < 2 ^ 64"
    by (simp_all add: can_serve_def served_size_def empty_mgr_def start_heap_def sizeof_MemBlock_def)
  then obtain g' a where "MemBlockGet ?E None 16 = Some (g', Some a, True)" "sizes (h_mem (g_heap g')) a = Some 16"
    using new_object [OF mm_reach_inv [OF mm_reach.init]] by metis
  then show ?thesis by (auto simp: Alloc_allocate_def)
qed

end
