(* ===== verification/StreamDump.thy ===== *)
theory StreamDump
  imports StreamGrow HexIo
begin

text \<open>
  The remaining operations of \<open>cpStreamBase\<close>: the size of the blocks, the dumps of a stream to an output
  and its loading from an input. An output takes octets or text and tells whether it is still good; an input is
  what is left of it. No result stands for a loop that does not end.
\<close>

section \<open>Operations\<close>

text \<open>\<open>n\<close> is a number of blocks no smaller than those of the stream.\<close>

fun BufSize_loop :: "'s vtable \<Rightarrow> 's \<Rightarrow> nat \<Rightarrow> nat \<Rightarrow> nat \<Rightarrow> nat" where
  "BufSize_loop vt x 0 i tot = tot"
| "BufSize_loop vt x (Suc n) i tot =
     (if v_ValidBlock vt x i then BufSize_loop vt x n (Suc i) (tot + v_BlockSize vt x i) else tot)"

definition BufSize :: "nat \<Rightarrow> 's vtable \<Rightarrow> 's stream \<Rightarrow> nat" where
  "BufSize n vt s = BufSize_loop vt (st s) n 0 0"

text \<open>The loop of the dumps: \<open>put\<close> writes the data of the buffer.\<close>

partial_function (option) dump_blocks ::
  "(nat \<Rightarrow> octets option) \<Rightarrow> 's vtable \<Rightarrow> ('o \<Rightarrow> buffer \<Rightarrow> nat \<Rightarrow> ('o \<times> bool) option) \<Rightarrow> 's stream \<Rightarrow> buffer \<Rightarrow> 'o \<Rightarrow>
   ('s stream \<times> 'o \<times> bool) option" where
  "dump_blocks al vt put s buf out =
     (case Read_Buf al vt s buf 1024 of
        (s1, buf1, len) \<Rightarrow>
          if len = 0 then Some (s1, out, True)
          else (case put out buf1 len of
                  None \<Rightarrow> None
                | Some (out1, rv) \<Rightarrow> if rv then dump_blocks al vt put s1 buf1 out1 else Some (s1, out1, False)))"

definition BinDump ::
  "(nat \<Rightarrow> octets option) \<Rightarrow> 's vtable \<Rightarrow> ('o \<Rightarrow> octets \<Rightarrow> 'o \<times> bool) \<Rightarrow> 's stream \<Rightarrow> 'o \<Rightarrow> ('s stream \<times> 'o \<times> bool) option" where
  "BinDump al vt write s out =
     (case Seek vt s 0 of
        (s1, rv) \<Rightarrow>
          if rv then dump_blocks al vt (\<lambda>o1 b len. map_option (\<lambda>m. write o1 (take len m)) (Buf_u_str b 0)) s1 (Buf_new al 1024) out
          else Some (s1, out, False))"

text \<open>The hexadecimal dump writes lines of 16 octets.\<close>

definition Stream_HexDump ::
  "(nat \<Rightarrow> octets option) \<Rightarrow> 's vtable \<Rightarrow> 's stream \<Rightarrow> string \<Rightarrow> ('s stream \<times> string \<times> bool) option" where
  "Stream_HexDump al vt s out =
     (case Seek vt s 0 of
        (s1, rv) \<Rightarrow>
          if rv then
            dump_blocks al vt
              (\<lambda>o1 b len. case HexDump (map_option (take (Buf_LenGet b)) (Buf_u_str b 0)) 16 of
                            (None, _) \<Rightarrow> None
                          | (Some t, ok) \<Rightarrow> Some (o1 @ t, ok))
              s1 (Buf_new al 1024) out
          else Some (s1, out, False))"

text \<open>The input gives what it has, at most the size of the buffer; a buffer without a block has no place for it.\<close>

definition istream_read :: "buffer \<Rightarrow> nat \<Rightarrow> octets \<Rightarrow> (octets \<times> buffer) option" where
  "istream_read b cnt inp =
     map_option
       (\<lambda>m. (drop cnt inp, Buf_LenSet (min cnt (length inp)) (b\<lparr>m_PtrBlock := Some (patch 0 (take cnt inp) m)\<rparr>)))
       (m_PtrBlock b)"

partial_function (option) load_blocks :: "'s vtable \<Rightarrow> 's stream \<Rightarrow> buffer \<Rightarrow> octets \<Rightarrow> ('s stream \<times> octets \<times> bool) option" where
  "load_blocks vt s buf inp =
     (case istream_read buf 1024 inp of
        None \<Rightarrow> None
      | Some (inp1, buf1) \<Rightarrow>
          if Buf_LenGet buf1 = 0 then Some (s, inp1, True)
          else (case Write_Buf vt s buf1 (Buf_LenGet buf1) of
                  None \<Rightarrow> None
                | Some (s1, n) \<Rightarrow> if n = Buf_LenGet buf1 then load_blocks vt s1 buf1 inp1 else Some (s1, inp1, False)))"

definition BinLoad :: "(nat \<Rightarrow> octets option) \<Rightarrow> 's vtable \<Rightarrow> 's stream \<Rightarrow> octets \<Rightarrow> ('s stream \<times> octets \<times> bool) option" where
  "BinLoad al vt s inp = load_blocks vt (Stream_Clear vt s) (Buf_new al 1024) inp"

definition HexLoad :: "octets \<Rightarrow> bool" where
  "HexLoad inp = False"

section \<open>Dumps\<close>

lemma take_min_length: "take (min k (length xs)) xs = take k xs"
  by (cases "k \<le> length xs") (simp_all add: min_def)

lemma take_own_length: "x = take l y \<Longrightarrow> x = take (length x) y"
  by (cases "l \<le> length y") (simp_all add: min_def)

context block_store
begin

lemma BufSize_spec:
  assumes "inv x" "i + n \<ge> length (blocks x)" "i \<le> length (blocks x)"
  shows "BufSize_loop vt x n i size0 = size0 + length (concat (drop i (blocks x)))"
  using assms(2,3)
proof (induction n arbitrary: i size0)
  case (Suc n)
  then show ?case using valid [OF assms(1)] size [OF assms(1)]
    by (cases "i < length (blocks x)") (auto simp: Cons_nth_drop_Suc [symmetric])
qed simp

lemma BufSize_blocks: "inv (st s) \<Longrightarrow> length (bs s) \<le> n \<Longrightarrow> BufSize n vt s = length (concat (bs s))"
  using BufSize_spec [of "st s" 0 n 0] by (simp add: BufSize_def)

text \<open>A buffer of the size of a block that is read never has to grow.\<close>

lemma read_block:
  assumes w: "wf s" and al: "allocator al" and b: "1024 \<le> Buf_Size b" and r: "Read_Buf al vt s b 1024 = (s1, b1, n)"
  shows "wf s1 \<and> content s1 = content s \<and> ps s1 = ps s + n \<and> n = min 1024 (length (content s) - ps s) \<and>
    buf_data b1 = take n (drop (ps s) (content s)) \<and> n = Buf_LenGet b1 \<and> 1024 \<le> Buf_Size b1 \<and> Buf_u_str b1 0 \<noteq> None \<and>
    take n (the (Buf_u_str b1 0)) = buf_data b1"
proof -
  define l where "l = min 1024 (length (content s))"
  have l: "\<not> Buf_Size b < l" using b by (simp add: l_def)
  obtain m where m: "m_PtrBlock b = Some m" using b by (cases "m_PtrBlock b") (auto simp: Buf_Size_def)
  obtain s' out where rd: "ArrayRd vt s l = (s', out)" by fastforce
  have e: "(if 1024 < LenGet vt s then 1024 else LenGet vt s) = l" using LenGet_spec [OF w] by (simp add: l_def)
  have "Read_Buf al vt s b 1024 = (s', Buf_LenSet (length out) (b\<lparr>m_PtrBlock := Some (patch 0 out m)\<rparr>), length out)"
    unfolding Read_Buf_def e using l by (simp add: rd m)
  with r have res: "s1 = s'" "b1 = Buf_LenSet (length out) (b\<lparr>m_PtrBlock := Some (patch 0 out m)\<rparr>)" "n = length out" by auto
  note a = ArrayRd_spec [OF w rd]
  have "out = take n (drop (ps s) (content s))" unfolding res(3) by (rule take_own_length) (use a in blast)
  moreover have "n = min 1024 (length (content s) - ps s)" using a res(3) ps_le [OF w] by (auto simp: l_def)
  ultimately have out: "out = take n (drop (ps s) (content s))" "n = min 1024 (length (content s) - ps s)" .
  have lm: "length out \<le> length m" using m res(3) out(2) b by (simp add: Buf_Size_def)
  then have d: "buf_data b1 = out" "Buf_LenGet b1 = length out" "1024 \<le> Buf_Size b1" "Buf_u_str b1 0 = Some (patch 0 out m)"
    "take (length out) (patch 0 out m) = out"
    using m b by (auto simp: res(2) buf_data_def Buf_LenSet_def Buf_LenGet_def Buf_Size_def Buf_u_str_def patch_def)
  have "ps s1 = ps s + n" using a res(1) out(2) ps_le [OF w] by (simp add: l_def)
  moreover have "buf_data b1 = take n (drop (ps s) (content s))" using d(1) out(1) by (rule trans)
  moreover have "take n (the (Buf_u_str b1 0)) = buf_data b1" by (simp only: d option.sel res(3))
  moreover have "n = Buf_LenGet b1" using res(3) d(2) by simp
  ultimately show ?thesis using a w res(1) d(3,4) out(2) by simp
qed

lemma dump_all:
  assumes al: "allocator al"
  shows "wf s \<Longrightarrow> 1024 \<le> Buf_Size b \<Longrightarrow>
    \<exists>s'. dump_blocks al vt (\<lambda>o1 b len. map_option (\<lambda>m. (o1 @ take len m, True)) (Buf_u_str b 0)) s b out =
      Some (s', out @ drop (ps s) (content s), True) \<and> wf s' \<and> content s' = content s"
proof (induction "length (content s) - ps s" arbitrary: s b out rule: less_induct)
  case less
  obtain s1 b1 n where r: "Read_Buf al vt s b 1024 = (s1, b1, n)" by (rule prod_cases3)
  note k = read_block [OF less.prems(1) al less.prems(2) r]
  obtain m where m: "Buf_u_str b1 0 = Some m" "take n m = take n (drop (ps s) (content s))" using k by auto
  show ?case
  proof (cases "n = 0")
    case True
    then have "drop (ps s) (content s) = []" using k by auto
    then show ?thesis using True k r by (subst dump_blocks.simps) simp
  next
    case False
    have "length (content s1) - ps s1 < length (content s) - ps s" using k False by auto
    from less.hyps [OF this, of b1 "out @ take n m"] k obtain s' where
      "dump_blocks al vt (\<lambda>o1 b len. map_option (\<lambda>m. (o1 @ take len m, True)) (Buf_u_str b 0)) s1 b1 (out @ take n m) =
        Some (s', (out @ take n m) @ drop (ps s1) (content s1), True)" "wf s'" "content s' = content s1" by blast
    moreover have "take n m @ drop (ps s1) (content s1) = drop (ps s) (content s)"
    proof -
      have "drop (ps s1) (content s1) = drop n (drop (ps s) (content s))" using k by (simp add: add.commute)
      then show ?thesis by (simp only: m(2) append_take_drop_id)
    qed
    ultimately have d: "dump_blocks al vt (\<lambda>o1 b len. map_option (\<lambda>m. (o1 @ take len m, True)) (Buf_u_str b 0)) s1 b1 (out @ take n m) =
        Some (s', out @ drop (ps s) (content s), True)" "wf s'" "content s' = content s" using k by simp_all
    show ?thesis by (subst dump_blocks.simps) (simp only: r m(1) prod.case option.map option.case False if_False if_True d, use d in blast)
  qed
qed

end

context growing_store
begin

lemma load_all:
  "wf s \<Longrightarrow> ps s = length (content s) \<Longrightarrow> 1024 \<le> Buf_Size b \<Longrightarrow>
    \<exists>s'. load_blocks vt s b inp = Some (s', [], True) \<and> wf s' \<and> content s' = content s @ inp \<and> ps s' = length (content s')"
proof (induction "length inp" arbitrary: s b inp rule: less_induct)
  case less
  obtain m where m: "m_PtrBlock b = Some m" "1024 \<le> length m" using less.prems(3) by (cases "m_PtrBlock b") (auto simp: Buf_Size_def)
  let ?n = "min 1024 (length inp)"
  define b1 where "b1 = Buf_LenSet ?n (b\<lparr>m_PtrBlock := Some (patch 0 (take 1024 inp) m)\<rparr>)"
  have rd: "istream_read b 1024 inp = Some (drop 1024 inp, b1)" by (simp add: istream_read_def m b1_def)
  have b1: "Buf_LenGet b1 = ?n" "m_PtrBlock b1 = Some (patch 0 (take 1024 inp) m)"
    using m by (auto simp: b1_def Buf_LenSet_def Buf_LenGet_def patch_def)
  have sz: "1024 \<le> Buf_Size b1" using m by (simp add: Buf_Size_def b1(2) patch_def)
  have tk: "take ?n (patch 0 (take 1024 inp) m) = take 1024 inp" by (simp add: patch_def take_min_length)
  show ?case
  proof (cases "inp = []")
    case True
    then show ?thesis using rd b1(1) less.prems by (subst load_blocks.simps) simp
  next
    case False
    from ArrayWr_total [OF less.prems(1), of "take 1024 inp"] less.prems(2) obtain s1 where
      w: "ArrayWr vt s (Some (take 1024 inp)) = Some (s1, length (take 1024 inp))" "wf s1" "content s1 = content s @ take 1024 inp"
        "ps s1 = length (content s1)" by (auto simp: patch_end)
    have wb: "Write_Buf vt s b1 ?n = Some (s1, ?n)"
      unfolding Write_Buf_def b1(1) using w(1) tk by (simp add: Buf_u_str_def b1(2) Let_def del: min_less_iff_conj)
    have "length (drop 1024 inp) < length inp" using False by simp
    from less.hyps [OF this w(2,4) sz] obtain s' where
      "load_blocks vt s1 b1 (drop 1024 inp) = Some (s', [], True)" "wf s'" "content s' = content s1 @ drop 1024 inp" "ps s' = length (content s')"
      by blast
    then show ?thesis using rd b1(1) wb False w(3) by (subst load_blocks.simps) simp
  qed
qed

lemma dump_load:
  assumes w: "wf s" "bs s \<noteq> []" "wf s2" and al: "allocator al" "al 1024 \<noteq> None"
  shows "\<exists>s' s3. BinDump al vt (\<lambda>out d. (out @ d, True)) s [] = Some (s', content s, True) \<and> content s' = content s \<and>
    BinLoad al vt s2 (content s) = Some (s3, [], True) \<and> wf s3 \<and> content s3 = content s"
proof -
  from Seek_spec [OF w(1,2), of 0] obtain s0 where s0: "Seek vt s 0 = (s0, True)" "wf s0" "content s0 = content s" "ps s0 = 0" by auto
  obtain m where m: "al 1024 = Some m" "1024 \<le> length m" using al allocator.al_size [OF al(1)] by auto
  then have b: "1024 \<le> Buf_Size (Buf_new al 1024)"
    by (simp add: Buf_new_def Buf_Resize_def Buf_null_def Buf_Clear_def Buf_Size_def Let_def)
  from dump_all [OF al(1) s0(2) b, of "[]"] s0 obtain s' where "BinDump al vt (\<lambda>out d. (out @ d, True)) s [] = Some (s', content s, True)"
    "content s' = content s" by (auto simp: BinDump_def)
  moreover from Clear_spec [OF w(3)] have "wf (Stream_Clear vt s2)" "content (Stream_Clear vt s2) = []" "ps (Stream_Clear vt s2) = 0" by simp_all
  with load_all [OF _ _ b, of "Stream_Clear vt s2" "content s"] obtain s3 where "BinLoad al vt s2 (content s) = Some (s3, [], True)" "wf s3" "content s3 = content s"
    by (auto simp: BinLoad_def)
  ultimately show ?thesis by blast
qed

end

text \<open>
  C37. What a stream dumps to an output that takes everything is its data, whatever its position and the sizes of its blocks, and
  another stream that loads it holds the same data; both loops end.
\<close>

theorem StreamBuf_dump_load:
  assumes "sb_rich (st s) \<and> s_wf m_VecBlocks s" "m_VecBlocks (st s) \<noteq> []" "sb_rich (st s2) \<and> s_wf m_VecBlocks s2"
    "allocator al" "al 1024 \<noteq> None"
  shows "\<exists>s' s3. BinDump al StreamBuf_vt (\<lambda>out d. (out @ d, True)) s [] = Some (s', sb_content s, True) \<and>
    BinLoad al StreamBuf_vt s2 (sb_content s) = Some (s3, [], True) \<and> sb_content s3 = sb_content s"
  using sbg.dump_load [OF assms] by blast

definition rich_demo :: "streambuf stream" where
  "rich_demo = \<lparr>st = \<lparr>m_VecBlocks = [replicate 256 7], sb_reqs = 1, sb_al = (\<lambda>_ n. Some (replicate n 0))\<rparr>,
     m_CurBlock = 0, m_CurPos = 0, m_LastBlock = 0, m_LastPos = 3\<rparr>"

lemma rich_demo_ok: "sb_rich (st rich_demo) \<and> s_wf m_VecBlocks rich_demo" "sb_content rich_demo = [7, 7, 7]" "m_VecBlocks (st rich_demo) \<noteq> []"
  by (auto simp: rich_demo_def sb_rich_def sb_inv_def allocator_def s_wf_def s_content_def s_len_def lin_def Let_def numeral_3_eq_3 take_replicate)

theorem StreamBuf_dump_load_witness:
  "\<exists>s3. BinLoad (\<lambda>n. Some (replicate n 0)) StreamBuf_vt rich_demo [7, 7, 7] = Some (s3, [], True) \<and> sb_content s3 = [7, 7, 7]"
  using StreamBuf_dump_load [OF rich_demo_ok(1,3,1), of "\<lambda>n. Some (replicate n 0)"]
  by (auto simp: rich_demo_ok(2) allocator_def)

end
