(* ===== verification/SerialPort.thy ===== *)
theory SerialPort
  imports StrUtil
begin

text \<open>
  \<open>cpSerial_I\<close> of the POSIX platform: the settings of a serial line. The calls of the system are the parameter
  \<open>ttyos\<close> on its state \<open>'o\<close>; the flags have their values of Linux. The transfers themselves go through
  the loops of \<open>IoDev\<close>. No result stands for the conversion of an infinite interval.
\<close>

unbundle bit_operations_syntax

section \<open>Settings of a terminal\<close>

record termios =
  c_iflag :: u32
  c_oflag :: u32
  c_cflag :: u32
  c_lflag :: u32
  c_ispeed :: nat
  c_ospeed :: nat

definition CSIZE :: u32 where "CSIZE = 0x30"
definition CS5 :: u32 where "CS5 = 0"
definition CS6 :: u32 where "CS6 = 0x10"
definition CS7 :: u32 where "CS7 = 0x20"
definition CS8 :: u32 where "CS8 = 0x30"
definition CSTOPB :: u32 where "CSTOPB = 0x40"
definition CREAD :: u32 where "CREAD = 0x80"
definition PARENB :: u32 where "PARENB = 0x100"
definition PARODD :: u32 where "PARODD = 0x200"
definition CLOCAL :: u32 where "CLOCAL = 0x800"
definition CRTSCTS :: u32 where "CRTSCTS = 0x80000000"
definition INPCK :: u32 where "INPCK = 0x10"
definition ISTRIP :: u32 where "ISTRIP = 0x20"
definition INLCR :: u32 where "INLCR = 0x40"
definition ICRNL :: u32 where "ICRNL = 0x100"
definition IUCLC :: u32 where "IUCLC = 0x200"
definition IXON :: u32 where "IXON = 0x400"
definition IXANY :: u32 where "IXANY = 0x800"
definition IXOFF :: u32 where "IXOFF = 0x1000"
definition OPOST :: u32 where "OPOST = 1"
definition ISIG :: u32 where "ISIG = 1"
definition ICANON :: u32 where "ICANON = 2"
definition ECHO :: u32 where "ECHO = 8"
definition ECHOE :: u32 where "ECHOE = 0x10"

lemmas flag_defs = CSIZE_def CS5_def CS6_def CS7_def CS8_def CSTOPB_def CREAD_def PARENB_def PARODD_def CLOCAL_def CRTSCTS_def
  INPCK_def ISTRIP_def INLCR_def ICRNL_def IUCLC_def IXON_def IXANY_def IXOFF_def OPOST_def ISIG_def ICANON_def ECHO_def ECHOE_def

record 'o ttyos =
  os_tcgetattr :: "int \<Rightarrow> 'o \<Rightarrow> termios"
  os_tcsetattr :: "int \<Rightarrow> termios \<Rightarrow> 'o \<Rightarrow> 'o"
  os_nonblock :: "int \<Rightarrow> 'o \<Rightarrow> 'o"
  os_open_write :: "string \<Rightarrow> 'o \<Rightarrow> 'o \<times> int"
  os_open_read :: "string \<Rightarrow> 'o \<Rightarrow> 'o \<times> int"
  os_close_port :: "int \<Rightarrow> 'o \<Rightarrow> 'o \<times> int"

section \<open>The device\<close>

record serial =
  se_Valid :: bool
  Device :: string
  Desc :: int
  DataRate :: u32
  Parity :: u16
  WordSize :: u16
  StopBits :: u16
  FlowCtrl :: u16
  Original :: termios
  Interval :: u32
  Wait :: bool
  se_dWrite :: int
  se_dRead :: int

definition line_speed :: "u32 \<Rightarrow> nat" where
  "line_speed rate =
     (if rate \<in> set [115200, 57600, 38400, 19200, 9600, 4800, 2400, 1200, 600, 300, 200, 150, 134, 110, 75, 50] then unat rate else 9600)"

definition word_flags :: "u16 \<Rightarrow> u32" where
  "word_flags n = (if n = 5 then CS5 else if n = 6 then CS6 else if n = 7 then CS7 else CS8)"

definition line_cflag :: "serial \<Rightarrow> u32 \<Rightarrow> u32" where
  "line_cflag d c0 =
     (let c = c0 OR (CLOCAL OR CREAD);
          c = c AND NOT CSIZE;
          c = c OR word_flags (WordSize d);
          c = c AND NOT (PARENB OR PARODD);
          c = (if Parity d = 1 then c OR (PARENB OR PARODD) else if Parity d = 2 then c OR PARENB else c);
          c = c AND NOT CSTOPB;
          c = c OR (if StopBits d = 2 then CSTOPB else 0);
          c = c AND NOT CRTSCTS
      in if FlowCtrl d = 1 then c AND NOT CRTSCTS else if FlowCtrl d = 2 then c OR CRTSCTS else c)"

definition line_iflag :: "serial \<Rightarrow> u32 \<Rightarrow> u32" where
  "line_iflag d i0 =
     (let i = i0 AND NOT (ISTRIP OR INPCK);
          i = (if Parity d = 1 then i OR (ISTRIP OR INPCK) else if Parity d = 2 then i OR (ISTRIP OR INPCK) else i);
          i = i AND NOT (INLCR OR ICRNL OR IUCLC);
          i = i AND NOT (IXON OR IXOFF OR IXANY)
      in if FlowCtrl d = 1 then i OR (IXON OR IXOFF OR IXANY) else if FlowCtrl d = 2 then i AND NOT (IXON OR IXOFF OR IXANY) else i)"

definition line_settings :: "serial \<Rightarrow> termios \<Rightarrow> termios" where
  "line_settings d s =
     s\<lparr>c_ispeed := line_speed (DataRate d), c_ospeed := line_speed (DataRate d), c_cflag := line_cflag d (c_cflag s),
       c_lflag := c_lflag s AND NOT (ICANON OR ECHO OR ECHOE OR ISIG), c_iflag := line_iflag d (c_iflag s),
       c_oflag := c_oflag s AND NOT OPOST\<rparr>"

text \<open>The interval is the quotient of doubles, cut: for a rate that is not 0, the quotient of the integers.\<close>

definition Serial_apply :: "'o ttyos \<Rightarrow> serial \<Rightarrow> 'o \<Rightarrow> (serial \<times> 'o) option" where
  "Serial_apply os d w =
     (let w1 = os_nonblock os (Desc d) w;
          settings = os_tcgetattr os (Desc d) w1
      in if DataRate d = 0 then None
         else Some (d\<lparr>Interval := of_nat (10 ^ 8 div unat (DataRate d))\<rparr>, os_tcsetattr os (Desc d) (line_settings d settings) w1))"

definition first_char :: "string \<Rightarrow> char" where
  "first_char s = (if length s > 0 then s ! 0 else CHR 0x00)"

definition parity_code :: "char \<Rightarrow> u16" where
  "parity_code c =
     (if c = CHR ''n'' \<or> c = CHR ''N'' then 0 else if c = CHR ''o'' \<or> c = CHR ''O'' then 1
      else if c = CHR ''e'' \<or> c = CHR ''E'' then 2 else 0)"

definition flow_code :: "char \<Rightarrow> u16" where
  "flow_code c =
     (if c = CHR ''n'' \<or> c = CHR ''N'' then 0 else if c = CHR ''x'' \<or> c = CHR ''X'' then 1
      else if c = CHR ''r'' \<or> c = CHR ''R'' then 2 else 0)"

definition Serial_ParamSet :: "'o ttyos \<Rightarrow> string \<Rightarrow> serial \<Rightarrow> 'o \<Rightarrow> (serial \<times> 'o \<times> bool) option" where
  "Serial_ParamSet os Params d w =
     (case Tokenize Params '','' of
        None \<Rightarrow> None
      | Some [r, p, ws, sb, f] \<Rightarrow>
          map_option (\<lambda>(d1, w1). (d1, w1, True))
            (Serial_apply os
              (d\<lparr>DataRate := ucast (strtoull r), Parity := parity_code (first_char p), WordSize := ucast (strtoull ws),
                 StopBits := ucast (strtoull sb), FlowCtrl := flow_code (first_char f)\<rparr>) w)
      | Some _ \<Rightarrow> Some (d, w, False))"

definition OpenPort :: "'o ttyos \<Rightarrow> serial \<Rightarrow> 'o \<Rightarrow> serial \<times> 'o \<times> bool" where
  "OpenPort os d w =
     (case os_open_write os (Device d) w of
        (w1, dw) \<Rightarrow>
          if dw = -1 then (d\<lparr>se_dWrite := dw\<rparr>, w1, False)
          else (case os_open_read os (Device d) w1 of
                  (w2, dr) \<Rightarrow>
                    if dr = -1 then (d\<lparr>se_dWrite := -1, se_dRead := dr\<rparr>, fst (os_close_port os dw w2), False)
                    else (d\<lparr>se_dWrite := dw, se_dRead := dr\<rparr>, w2, True)))"

definition close_desc :: "'o ttyos \<Rightarrow> int \<Rightarrow> bool \<Rightarrow> 'o \<Rightarrow> 'o \<times> bool" where
  "close_desc os desc rv w =
     (if desc \<noteq> -1 \<and> rv then case os_close_port os desc w of (w1, n) \<Rightarrow> (w1, n \<noteq> -1) else (w, rv))"

definition ClosePort :: "'o ttyos \<Rightarrow> serial \<Rightarrow> 'o \<Rightarrow> serial \<times> 'o \<times> bool" where
  "ClosePort os d w =
     (case close_desc os (se_dWrite d) True w of
        (w1, rv1) \<Rightarrow> (case close_desc os (se_dRead d) rv1 w1 of (w2, rv2) \<Rightarrow> (d\<lparr>se_dWrite := -1, se_dRead := -1\<rparr>, w2, rv2)))"

definition ModeChar :: "'o ttyos \<Rightarrow> serial \<Rightarrow> 'o \<Rightarrow> 'o" where
  "ModeChar os d w =
     (let mode = os_tcgetattr os (Desc d) w
      in os_tcsetattr os (Desc d) (mode\<lparr>c_lflag := c_lflag mode AND NOT (ECHO OR ICANON)\<rparr>) w)"

definition ModeLine :: "'o ttyos \<Rightarrow> serial \<Rightarrow> 'o \<Rightarrow> 'o" where
  "ModeLine os d w =
     (let mode = os_tcgetattr os (Desc d) w
      in os_tcsetattr os (Desc d) (mode\<lparr>c_lflag := c_lflag mode OR (ECHO OR ICANON)\<rparr>) w)"

definition ModeSave :: "'o ttyos \<Rightarrow> serial \<Rightarrow> 'o \<Rightarrow> serial" where
  "ModeSave os d w = d\<lparr>Original := os_tcgetattr os (Desc d) w\<rparr>"

definition ModeRest :: "'o ttyos \<Rightarrow> serial \<Rightarrow> 'o \<Rightarrow> 'o" where
  "ModeRest os d w = os_tcsetattr os (Desc d) (Original d) w"

text \<open>\<open>d0\<close> is the object before its members are set: its descriptor \<open>Desc\<close> never is.\<close>

definition Serial_new :: "'o ttyos \<Rightarrow> serial \<Rightarrow> string \<Rightarrow> string \<Rightarrow> 'o \<Rightarrow> (serial \<times> 'o) option" where
  "Serial_new os d0 DevicePath Params w =
     (case Serial_ParamSet os Params (d0\<lparr>Device := DevicePath, Wait := True\<rparr>) w of
        None \<Rightarrow> None
      | Some (d1, w1, _) \<Rightarrow>
          (case OpenPort os d1 w1 of
             (d2, w2, rv) \<Rightarrow>
               map_option (\<lambda>(d3, w3, _). (d3, w3)) (Serial_ParamSet os Params (ModeSave os (d2\<lparr>se_Valid := rv\<rparr>) w2) w2)))"

definition Serial_delete :: "'o ttyos \<Rightarrow> serial \<Rightarrow> 'o \<Rightarrow> 'o" where
  "Serial_delete os d w = ModeRest os d w"

definition GetCharsWaiting :: "u32 \<times> bool" where "GetCharsWaiting = (0, False)"
definition GetCtsState :: "bool \<times> bool" where "GetCtsState = (False, False)"
definition SetDtrState :: "bool \<Rightarrow> bool" where "SetDtrState State = False"
definition SetRtsState :: "bool \<Rightarrow> bool" where "SetRtsState State = False"

section \<open>Fields of a word of flags\<close>

lemma field_or: "f AND m = 0 \<Longrightarrow> (x OR f) AND m = x AND (m :: u32)"
  by (simp add: and.commute [of _ m] bit.conj_disj_distrib)

lemma field_clear: "f AND m = 0 \<Longrightarrow> (x AND NOT f) AND m = x AND (m :: u32)"
  by (auto simp: bit_eq_iff bit_simps)

lemma field_set: "w AND m = w \<Longrightarrow> (x AND NOT m OR w) AND m = (w :: u32)"
  by (auto simp: bit_eq_iff bit_simps)

lemma field_cleared: "(x AND NOT m) AND m = (0 :: u32)"
  by (auto simp: bit_eq_iff bit_simps)

text \<open>The groups of the control flags, the parts that the groups have in common with one another.\<close>

definition parity_flags :: u32 where "parity_flags = PARENB OR PARODD"
definition set_flags :: u32 where "set_flags = CLOCAL OR CREAD"
definition xon_flags :: u32 where "xon_flags = IXON OR IXOFF OR IXANY"
definition strip_flags :: u32 where "strip_flags = ISTRIP OR INPCK"
definition map_flags :: u32 where "map_flags = INLCR OR ICRNL OR IUCLC"
definition other_cflags :: u32 where "other_cflags = NOT (set_flags OR CSIZE OR parity_flags OR CSTOPB OR CRTSCTS)"
definition other_iflags :: u32 where "other_iflags = NOT (strip_flags OR map_flags OR xon_flags)"

lemmas group_defs = parity_flags_def set_flags_def xon_flags_def strip_flags_def map_flags_def other_cflags_def other_iflags_def

lemma c_disjoint:
  "CSIZE AND parity_flags = 0" "CSIZE AND CSTOPB = 0" "CSIZE AND CRTSCTS = 0" "CSIZE AND set_flags = 0" "CSIZE AND other_cflags = 0"
  "parity_flags AND CSIZE = 0" "parity_flags AND CSTOPB = 0" "parity_flags AND CRTSCTS = 0" "parity_flags AND set_flags = 0" "parity_flags AND other_cflags = 0"
  "PARENB AND CSIZE = 0" "PARENB AND CSTOPB = 0" "PARENB AND CRTSCTS = 0" "PARENB AND set_flags = 0" "PARENB AND other_cflags = 0"
  "CSTOPB AND CSIZE = 0" "CSTOPB AND parity_flags = 0" "CSTOPB AND CRTSCTS = 0" "CSTOPB AND set_flags = 0" "CSTOPB AND other_cflags = 0"
  "CRTSCTS AND CSIZE = 0" "CRTSCTS AND parity_flags = 0" "CRTSCTS AND CSTOPB = 0" "CRTSCTS AND set_flags = 0" "CRTSCTS AND other_cflags = 0"
  "set_flags AND other_cflags = 0"
  "word_flags n AND parity_flags = 0" "word_flags n AND CSTOPB = 0" "word_flags n AND CRTSCTS = 0" "word_flags n AND set_flags = 0"
  "word_flags n AND other_cflags = 0" "word_flags n AND CSIZE = word_flags n" "PARENB AND parity_flags = PARENB"
  by (simp_all add: word_flags_def group_defs flag_defs)

lemma i_disjoint:
  "strip_flags AND xon_flags = 0" "strip_flags AND map_flags = 0" "strip_flags AND other_iflags = 0"
  "map_flags AND xon_flags = 0" "map_flags AND strip_flags = 0" "map_flags AND other_iflags = 0"
  "xon_flags AND strip_flags = 0" "xon_flags AND map_flags = 0" "xon_flags AND other_iflags = 0"
  by (simp_all add: group_defs flag_defs)

lemma cflag_form: "line_cflag d c0 =
    (let c = (((((c0 OR set_flags) AND NOT CSIZE) OR word_flags (WordSize d)) AND NOT parity_flags) OR
              (if Parity d = 1 then parity_flags else if Parity d = 2 then PARENB else 0)) AND NOT CSTOPB;
         c = (c OR (if StopBits d = 2 then CSTOPB else 0)) AND NOT CRTSCTS
     in c OR (if FlowCtrl d = 2 then CRTSCTS else 0))"
proof -
  have z: "x OR 0 = x" "(x AND NOT CRTSCTS) AND NOT CRTSCTS = x AND NOT CRTSCTS" for x :: u32 by (simp_all add: and.assoc)
  show ?thesis by (simp add: line_cflag_def Let_def parity_flags_def set_flags_def z)
qed

lemma cleared_twice: "(x AND NOT m) AND NOT m = x AND NOT (m :: u32)"
  by (simp add: and.assoc)

lemma iflag_form: "line_iflag d i0 =
    (let i = (i0 AND NOT strip_flags) OR (if Parity d = 1 \<or> Parity d = 2 then strip_flags else 0);
         i = (i AND NOT map_flags) AND NOT xon_flags
     in i OR (if FlowCtrl d = 1 then xon_flags else 0))"
  unfolding line_iflag_def Let_def strip_flags_def [symmetric] map_flags_def [symmetric] xon_flags_def [symmetric]
  by (simp add: cleared_twice)

lemma field_or_if: "f AND m = 0 \<Longrightarrow> (x OR (if b then f else 0)) AND m = x AND (m :: u32)"
  by (simp add: field_or)

lemma word_or_zero_if: "x OR (if b then f else 0) = (if b then x OR f else (x :: u32))"
  by simp

lemma cflag_fields:
  "line_cflag d c AND CSIZE = word_flags (WordSize d)"
  "line_cflag d c AND parity_flags = (if Parity d = 1 then parity_flags else if Parity d = 2 then PARENB else 0)"
  "line_cflag d c AND CSTOPB = (if StopBits d = 2 then CSTOPB else 0)"
  "line_cflag d c AND CRTSCTS = (if FlowCtrl d = 2 then CRTSCTS else 0)"
  "line_cflag d c AND set_flags = set_flags"
  "line_cflag d c AND other_cflags = c AND other_cflags"
  unfolding cflag_form Let_def
  by (simp_all add: field_or field_clear field_set field_cleared c_disjoint word_or_zero_if)

lemma iflag_fields:
  "line_iflag d i AND strip_flags = (if Parity d = 1 \<or> Parity d = 2 then strip_flags else 0)"
  "line_iflag d i AND xon_flags = (if FlowCtrl d = 1 then xon_flags else 0)"
  "line_iflag d i AND map_flags = 0"
  "line_iflag d i AND other_iflags = i AND other_iflags"
  unfolding iflag_form Let_def
  by (simp_all add: field_or field_clear field_set field_cleared i_disjoint word_or_zero_if)

section \<open>Properties\<close>

lemma lflag_fields: "(x AND NOT (ICANON OR ECHO OR ECHOE OR ISIG)) AND (ICANON OR ECHO OR ECHOE OR ISIG) = 0" "(y AND NOT OPOST) AND OPOST = 0"
  by (rule field_cleared)+

text \<open>
  Parameters that are taken reach the system: every group of flags has the value of its field, raw mode is set, and all
  flags that the parameters do not speak of are those the line had.
\<close>

lemma settings_selectors:
  "c_cflag (line_settings d s) = line_cflag d (c_cflag s)" "c_iflag (line_settings d s) = line_iflag d (c_iflag s)"
  "c_lflag (line_settings d s) = c_lflag s AND NOT (ICANON OR ECHO OR ECHOE OR ISIG)" "c_oflag (line_settings d s) = c_oflag s AND NOT OPOST"
  "c_ispeed (line_settings d s) = line_speed (DataRate d)" "c_ospeed (line_settings d s) = line_speed (DataRate d)"
  by (simp_all add: line_settings_def)

lemma settings_fields:
  "c_cflag (line_settings d s) AND CSIZE = word_flags (WordSize d)"
  "c_cflag (line_settings d s) AND parity_flags = (if Parity d = 1 then parity_flags else if Parity d = 2 then PARENB else 0)"
  "c_cflag (line_settings d s) AND CSTOPB = (if StopBits d = 2 then CSTOPB else 0)"
  "c_cflag (line_settings d s) AND CRTSCTS = (if FlowCtrl d = 2 then CRTSCTS else 0)"
  "c_cflag (line_settings d s) AND other_cflags = c_cflag s AND other_cflags"
  "c_iflag (line_settings d s) AND strip_flags = (if Parity d = 1 \<or> Parity d = 2 then strip_flags else 0)"
  "c_iflag (line_settings d s) AND xon_flags = (if FlowCtrl d = 1 then xon_flags else 0)"
  "c_iflag (line_settings d s) AND other_iflags = c_iflag s AND other_iflags"
  "c_lflag (line_settings d s) AND (ICANON OR ECHO OR ECHOE OR ISIG) = 0" "c_oflag (line_settings d s) AND OPOST = 0"
  "c_ispeed (line_settings d s) = line_speed (DataRate d)" "c_ospeed (line_settings d s) = line_speed (DataRate d)"
  by (simp_all only: settings_selectors cflag_fields iflag_fields lflag_fields)

theorem Serial_settings:
  assumes "Serial_ParamSet os Params d w = Some (d', w', True)"
  shows "\<exists>r p n sb f t s. Tokenize Params '','' = Some [r, p, n, sb, f] \<and>
    DataRate d' = ucast (strtoull r) \<and> DataRate d' \<noteq> 0 \<and> Parity d' = parity_code (first_char p) \<and>
    WordSize d' = ucast (strtoull n) \<and> StopBits d' = ucast (strtoull sb) \<and> FlowCtrl d' = flow_code (first_char f) \<and>
    s = os_tcgetattr os (Desc d) (os_nonblock os (Desc d) w) \<and> w' = os_tcsetattr os (Desc d) t (os_nonblock os (Desc d) w) \<and>
    c_ispeed t = line_speed (DataRate d') \<and> c_ospeed t = line_speed (DataRate d') \<and>
    c_cflag t AND CSIZE = word_flags (WordSize d') \<and>
    c_cflag t AND parity_flags = (if Parity d' = 1 then parity_flags else if Parity d' = 2 then PARENB else 0) \<and>
    c_cflag t AND CSTOPB = (if StopBits d' = 2 then CSTOPB else 0) \<and>
    c_cflag t AND CRTSCTS = (if FlowCtrl d' = 2 then CRTSCTS else 0) \<and>
    c_iflag t AND xon_flags = (if FlowCtrl d' = 1 then xon_flags else 0) \<and>
    c_cflag t AND other_cflags = c_cflag s AND other_cflags \<and> c_iflag t AND other_iflags = c_iflag s AND other_iflags \<and>
    c_lflag t AND (ICANON OR ECHO OR ECHOE OR ISIG) = 0 \<and> c_oflag t AND OPOST = 0"
proof -
  from assms obtain r p n sb f where k: "Tokenize Params '','' = Some [r, p, n, sb, f]"
    by (auto simp: Serial_ParamSet_def split: option.splits list.splits)
  define d1 where "d1 = d\<lparr>DataRate := ucast (strtoull r), Parity := parity_code (first_char p), WordSize := ucast (strtoull n),
       StopBits := ucast (strtoull sb), FlowCtrl := flow_code (first_char f)\<rparr>"
  define s where "s = os_tcgetattr os (Desc d) (os_nonblock os (Desc d) w)"
  have a: "Serial_apply os d1 w = Some (d', w')" using assms k by (simp add: Serial_ParamSet_def d1_def)
  have e: "Desc d1 = Desc d" by (simp add: d1_def)
  from a have z: "DataRate d1 \<noteq> 0" by (auto simp: Serial_apply_def Let_def)
  with a have d: "d' = d1\<lparr>Interval := of_nat (10 ^ 8 div unat (DataRate d1))\<rparr>"
    "w' = os_tcsetattr os (Desc d) (line_settings d1 s) (os_nonblock os (Desc d) w)"
    by (auto simp: Serial_apply_def Let_def e s_def)
  then have f: "DataRate d' = DataRate d1" "Parity d' = Parity d1" "WordSize d' = WordSize d1" "StopBits d' = StopBits d1"
    "FlowCtrl d' = FlowCtrl d1" by simp_all
  have g: "DataRate d1 = ucast (strtoull r)" "Parity d1 = parity_code (first_char p)" "WordSize d1 = ucast (strtoull n)"
    "StopBits d1 = ucast (strtoull sb)" "FlowCtrl d1 = flow_code (first_char f)" by (simp_all add: d1_def)
  show ?thesis unfolding f
    by (rule exI [of _ r], rule exI [of _ p], rule exI [of _ n], rule exI [of _ sb], rule exI [of _ f],
        rule exI [of _ "line_settings d1 s"], rule exI [of _ s])
      (intro conjI k g z d(2) s_def settings_fields)
qed

text \<open>A port that is opened has both descriptors or none, and what was opened is closed if the second opening fails.\<close>

lemma OpenPort_both:
  "OpenPort os d w = (d', w', rv) \<Longrightarrow> rv = (se_dWrite d' \<noteq> -1) \<and> (rv \<longrightarrow> se_dRead d' \<noteq> -1)"
  by (auto simp: OpenPort_def split: prod.splits if_splits)

lemma ClosePort_closes: "ClosePort os d w = (d', w', rv) \<Longrightarrow> se_dWrite d' = -1 \<and> se_dRead d' = -1"
  by (auto simp: ClosePort_def split: prod.splits)

text \<open>If the first descriptor cannot be closed, the second is forgotten without being closed.\<close>

lemma ClosePort_leaks:
  assumes "se_dWrite d \<noteq> -1" "os_close_port os (se_dWrite d) w = (w1, -1)"
  shows "ClosePort os d w = (d\<lparr>se_dWrite := -1, se_dRead := -1\<rparr>, w1, False)"
  using assms by (simp add: ClosePort_def close_desc_def)

end
