(* ===== verification/Spec2Isabelle.thy ===== *)
theory Spec2Isabelle
  imports Prelude Bits ByteOrder MemMgr MemMgrInv Buffer Stream StreamProps StreamBuf StreamGrow IpcSegment IpcStreamSeg IpcAccum
    SyncQueue Dispatch IpcXmit IpcContext IpcAccumMap IpcNode StrUtil PathUtil HexIo Variant Datum SerDes SerDesNative NativeWire NativeRead NativeCodec DatumTree
    IoDev Devices MsgQueue IpcTransport IpcRouter TreeCodec FloatText SerDesIdl SerDesXml TextWire IdlWire IdlRead IdlCodec XmlWire TextScan
    XmlCodec SerDesFactory IpcMessage ThreadRun SubProc Timer PosixUtil PooledBase
    StreamDump SerialPort
begin

text \<open>
  CodePort++ is a C++ library of operating system abstractions. This development models its core: the
  memory manager, the streams and buffers over it, the messages between processes that are carried
  in segments of streams, the devices, transports and routers that carry them, the threads' queues and
  dispatcher, the tree of data with its variants and the binary, text and XML serializers, and the text
  utilities. It follows the sources under \<open>src/\<close> file by file; the
  definitions keep the names of the functions.

  \<^bold>\<open>Conventions.\<close> Machine integers are words of their width (\<open>u8\<close>, \<open>u16\<close>, \<open>u32\<close>, \<open>u64\<close>); sizes and
  positions, \<open>size_t\<close> in the code, are natural numbers, with the wrap-around written out where the code
  depends on it. Objects are records, changed by explicit state passing. A result \<open>None\<close> of an operation
  that returns an option is the behaviour the code leaves open or never ends with: a loop that does
  not end, a read through NULL or outside of a block. Refusals are boolean results, as in the code.
  Memory is named by addresses and blocks of octets; the host's byte order is a parameter.

  \<^bold>\<open>Theories and sources.\<close>
  \<^item> \<open>Prelude\<close>: octets, texts as octets, patches of memory blocks, the shared collections of rules.
  \<^item> \<open>Bits\<close> (\<open>cpUtil.cpp\<close>, \<open>cpConstants.cpp\<close>): reflections, CRC-16 and CRC-32 by table, against the bitwise
    reference; detection of a burst. \<open>ByteOrder\<close> (\<open>cpUtil.cpp\<close>): host tests, swaps, readers and writers.
  \<^item> \<open>MemMgr\<close> (\<open>cpMemMgr.cpp\<close>): blocks with guards, pools as free lists, the manager, creation of pools, an
    inductive step relation of its use. \<open>MemMgrInv\<close>: the invariant of every reachable manager: blocks
    do not overlap, each is in use or in one pool; requests are served, returns find their pool.
  \<^item> \<open>Buffer\<close> (\<open>cpBuffer.cpp\<close>): a block and the length of its data, in the locale \<open>allocator\<close>, the law of a
    memory manager's delivery, which is interpreted on the manager of \<open>MemMgr\<close>.
  \<^item> \<open>Stream\<close> (\<open>cpStreamBase.cpp\<close>): a stream over the virtual block functions, a table \<open>vtable\<close>. \<open>StreamProps\<close>:
    the locale \<open>block_store\<close> of these functions' laws, and reading, writing, seeking, lines, CRC and insertions
    proved once in it against the content as a list of octets. \<open>StreamGrow\<close>: the locale \<open>growing_store\<close>,
    where memory is always granted. \<open>StreamBuf\<close> (\<open>cpStreamBuf.cpp\<close>): the stream over a vector of blocks,
    an instance of both. \<open>StreamDump\<close>: the dumps of a stream to an output and its loading.
  \<^item> \<open>IpcSegment\<close> (\<open>cpIpcSegment.cpp\<close>): the header fields in the octets of a block of 1024, the payload.
    \<open>IpcStreamSeg\<close> (\<open>cpIpcStreamSeg.cpp\<close>): the stream over segments, an instance of \<open>growing_store\<close>;
    \<open>Finalize\<close> makes the message. \<open>IpcAccum\<close> (\<open>cpIpcAccum.cpp\<close>): accumulation of segments in any order.
  \<^item> \<open>IpcXmit\<close>, \<open>IpcAccumMap\<close> (\<open>cpIpcNodeUtil.cpp\<close>): the priority queue of messages to send; the map of the
    messages under way with the threads that wait for responses. \<open>IpcContext\<close> (\<open>cpIpcContext.cpp\<close>): mailbox and
    semaphore pool, with every interleaving of the parts of puts and gets, which share no lock. \<open>IpcNode\<close> (\<open>cpIpcNode.cpp\<close>, \<open>cpIpcResolver.cpp\<close>): sending, receiving, control events; the
    composition of all of them delivers a buffer from one node to another.
  \<^item> \<open>SyncQueue\<close> (\<open>cpItcQueue.cpp\<close>, \<open>cpSemLite_I.cpp\<close>): semaphores and the bounded queue, every interleaving of the
    atomic parts of put and get. \<open>Dispatch\<close> (\<open>cpDispatch.cpp\<close>): the event dispatcher.
  \<^item> \<open>StrUtil\<close>, \<open>PathUtil\<close> (\<open>cpUtil.cpp\<close>), \<open>HexIo\<close> (\<open>cpHexIo.cpp\<close>): texts, numbers, tokens, paths, hex texts.
  \<^item> \<open>Variant\<close> (\<open>cpVariant.cpp\<close>): a typed value in a buffer, against abstract values \<open>vval\<close>. \<open>Datum\<close>
    (\<open>cpDatum.cpp\<close>): the tree of data with its cursors. \<open>SerDes\<close> (\<open>cpSerDes.cpp\<close>): what serializers share.
    \<open>SerDesNative\<close> (\<open>cpSerDesNative.cpp\<close>): the binary format. \<open>NativeWire\<close>: the octets of an abstract tree
    (\<open>dtree\<close>, of \<open>TreeCodec\<close>), and the encoder appends exactly these. \<open>NativeRead\<close>: the decoder
    on these octets. \<open>NativeCodec\<close>: the round trip. \<open>DatumTree\<close>: the walk of a datum and its operations
    as operations on the tree.
  \<^item> \<open>IoDev\<close> (\<open>cpIoDev_I.cpp\<close>): the loops that send and receive with retries over any driver. \<open>Devices\<close>
    (\<open>cpPipe_I.cpp\<close>, \<open>cpNamedPipe_I.cpp\<close>, \<open>cpTcp.cpp\<close>, \<open>cpUdp.cpp\<close>): descriptors over the calls of the system, the
    parameter \<open>fdos\<close>. \<open>MsgQueue\<close> (\<open>cpQueue_I.cpp\<close>): the queue between processes over the calls \<open>mqos\<close>.
  \<^item> \<open>IpcTransport\<close> (\<open>cpIpcTransport.cpp\<close>, \<open>cpIpcStrmTransport.cpp\<close>): segments over a device, with the framing of a
    stream of octets. \<open>IpcRouter\<close> (\<open>cpIpcRouter.cpp\<close>): registration, forwarding and broadcast, and a network of
    nodes over one router. \<open>IpcMessage\<close> (\<open>cpIpcDecoder.cpp\<close>, \<open>cpIpcPacket.cpp\<close>, \<open>cpIpcHandle.cpp\<close>): a tree of data in
    a message from one node to another, and the response that reaches the handle of the request.
  \<^item> \<open>TreeCodec\<close> (\<open>cpSerDes.cpp\<close>): the encoder and the decoder states of any serializer as walks of the abstract
    tree \<open>dtree\<close>, which data represent by \<open>rep\<close>, in locales of the laws that a format keeps. \<open>FloatText\<close>
    (\<open>cpUtil.cpp\<close>): texts of floating point numbers by images of IEEE 754. \<open>SerDesIdl\<close> (\<open>cpSerDesIdl.cpp\<close>) and \<open>SerDesXml\<close> (\<open>cpSerDesXml.cpp\<close>): the two text
    formats. \<open>TextWire\<close>: what their writers share, lines of text appended to a stream, in a locale over the
    tags. \<open>IdlWire\<close>, \<open>XmlWire\<close>: the document of a tree, and the encoders append exactly that.
    \<open>TextScan\<close>: the lines of a stream and the search for the header. \<open>IdlRead\<close>, \<open>IdlCodec\<close>: the decoder on the
    document and the round trip. \<open>XmlCodec\<close>: the decoder's refusal.
  \<^item> \<open>SerDesFactory\<close> (\<open>cpSerDesFactory.cpp\<close>): pools of serializers, an inductive relation of their use,
    detection of the format, encoding and decoding by its name.

  \<^item> \<open>ThreadRun\<close> (\<open>cpThread.cpp\<close>, \<open>cpThread_I.cpp\<close>): a thread that is suspended, resumed and asked to exit, with
    every interleaving of its own code, its function's calls, its owners' calls and the destructor. \<open>SubProc\<close> (\<open>cpSubProcess_I.cpp\<close>): a
    process whose output such a thread collects. \<open>Timer\<close> (\<open>cpTimer_I.cpp\<close>): periods and events of timers.
    \<open>SerialPort\<close> (\<open>cpSerial_I.cpp\<close>): the parameters of a serial line as flags of its settings.
    \<open>PosixUtil\<close> (\<open>cpUtil_I.cpp\<close>): delays, times and files over the calls of the system. \<open>PooledBase\<close>
    (\<open>cpPooledBase.cpp\<close>, \<open>cpAlloc.h\<close>): the operators that place objects in blocks of the memory manager.

  \<^bold>\<open>Fuel, bounds and termination.\<close> Loops that may not end are \<open>partial_function (option)\<close> (the write loop of a
    stream, tokens, replacement, the dumps, the element loop of the decoders, the loop that sleeps), and the properties state that
    they return, or, for the delays, exactly when they do. \<open>ReadLine\<close> takes the length of the stream plus one as fuel, one octet per pass;
    \<open>Crc32Get\<close> takes a number of blocks no smaller than those it visits. The text formats indent with
    \<open>GenStr\<close>, which makes at most 65535 blanks, four per level: their properties hold for trees of no more
    than 16382 levels in the text format and 16381 in XML. All other loops are total functions.

  \<^bold>\<open>Assumptions.\<close> The heap never hands out an address again while it is in use, and it does not fail
    where the model says that it grants; segment blocks have 1024 octets; a message has from 1001 to
    65535000 octets; semaphores are valid; \<open>env_ok\<close> environments grant blocks below 4 GB. The
    calls of the system on descriptors are \<open>fdos\<close>, those on message queues \<open>mqos\<close>, both fields of functions, and
    what the code relies on are named hypotheses: \<open>sends_to\<close> and \<open>receives_from\<close> (a device moves octets in
    order), \<open>mq_works\<close>, \<open>mq_gives\<close>, \<open>mq_accepts\<close> (a queue keeps its messages), \<open>serves\<close>
    (memory for a segment is granted), \<open>sleeps\<close>
    (an interrupted delay tells what remains).
    A manager that refuses memory is a result only at the interface of buffers and streams: the manager itself does not
    return then, since it sets the guard through the NULL block (\<open>MemBlockGet_exhausted\<close>). Its checks of guards that
    the code makes outside of the mutex are one step with the locked part.
    The text formats walk the attributes in the order of the addresses of their tags, the parameter
    \<open>ord\<close>, a list of the tags. Each of these is a hypothesis or a field of the model.

  \<^bold>\<open>Not modelled.\<close> The rest of the platform layer (mutexes, named semaphores) and the layers of
  other systems, which are calls of the operating system; the console and log output; command line options, a
  table for the C library; the conversions of variants between integers and floating point, for which the
  library has no executable IEEE arithmetic, and the display of a datum.
\<close>

end
